(* ===== verification/Jello_Prelude.thy ===== *)
theory Jello_Prelude
  imports Main "HOL-Library.Word"
begin

text \<open>
  The prelude of the Jello VM development: the machine integer types of the C sources, the
  result type of fallible code with its sequencing operator, little-endian byte encodings,
  and the generic lemmas on words, lists and results that the component theories share.

  The C code is modelled for a 64-bit little-endian target (\<^verbatim>\<open>sizeof(void*) = 8\<close>), which is
  what the two JIT back ends of the repository support.
\<close>

unbundle bit_operations_syntax

type_synonym u8 = "8 word"
type_synonym u16 = "16 word"
type_synonym u32 = "32 word"
type_synonym u64 = "64 word"

named_theorems res_simps \<open>sequencing of fallible computations\<close>
named_theorems le_simps \<open>little-endian encodings\<close>

section \<open>Results\<close>

text \<open>Fallible code returns \<open>Inl\<close> of the failure or \<open>Inr\<close> of the value; \<open>rbind\<close> is the
  early-return idiom \<^verbatim>\<open>rr = f(); if(rr.err) return rr; ...\<close> of the sources.\<close>

definition rbind :: "'e + 'a \<Rightarrow> ('a \<Rightarrow> 'e + 'b) \<Rightarrow> 'e + 'b" where
  "rbind m f = (case m of Inl e \<Rightarrow> Inl e | Inr x \<Rightarrow> f x)"

lemma rbind_Inr [simp, res_simps]: "rbind (Inr x) f = f x"
  by (simp add: rbind_def)

lemma rbind_Inl [simp, res_simps]: "rbind (Inl e) f = Inl e"
  by (simp add: rbind_def)

lemma rbind_eq_Inr [res_simps]: "rbind m f = Inr y \<longleftrightarrow> (\<exists>x. m = Inr x \<and> f x = Inr y)"
  by (auto simp: rbind_def split: sum.splits)

lemma rbind_eq_Inl: "rbind m f = Inl e \<longleftrightarrow> m = Inl e \<or> (\<exists>x. m = Inr x \<and> f x = Inl e)"
  by (auto simp: rbind_def split: sum.splits)

lemma rbind_InrE:
  assumes "rbind m f = Inr y"
  obtains x where "m = Inr x" "f x = Inr y"
  using assms by (auto simp: rbind_eq_Inr)

section \<open>Words\<close>

lemma unat_ucast_up [simp]:
  "LENGTH('a::len) \<le> LENGTH('b::len) \<Longrightarrow> unat (ucast (x :: 'a word) :: 'b word) = unat x"
  by (simp add: unsigned_ucast_eq take_bit_nat_eq_self order.strict_trans2 [OF unsigned_less])

lemma unat_u8_less [simp]: "unat (x :: u8) < 256"
  using unsigned_less [of x] by simp

lemma unat_u16_less [simp]: "unat (x :: u16) < 65536"
  using unsigned_less [of x] by simp

lemma unat_u32_less [simp]: "unat (x :: u32) < 4294967296"
  using unsigned_less [of x] by simp

lemma unat_and_mask_mod: "unat (x AND mask n :: 'a::len word) = unat x mod 2 ^ n"
  by (simp only: take_bit_eq_mask [symmetric] unsigned_take_bit_eq) (simp add: take_bit_eq_mod)

lemma take_bit_self_of_less: "unat (w :: 'a::len word) < 2 ^ k \<Longrightarrow> take_bit k w = w"
  by (simp only: word_unat_eq_iff unsigned_take_bit_eq take_bit_nat_eq_self)

lemma bit_less_exp: "unat (w :: 'a::len word) < 2 ^ k \<Longrightarrow> bit w m \<Longrightarrow> m < k"
  by (metis bit_take_bit_iff take_bit_self_of_less)

lemma sint_small: "unat (w :: u32) < 2 ^ 31 \<Longrightarrow> sint w = int (unat w)"
proof -
  assume "unat w < 2 ^ 31"
  then have "uint w < 2 ^ 31"
    by (metis of_nat_less_iff of_nat_numeral of_nat_power of_nat_unat)
  then have "signed_take_bit 31 (uint w) = uint w"
    by (intro signed_take_bit_int_eq_self) (use uint_ge_0 [of w] in linarith)+
  then show ?thesis by (simp add: sint_uint)
qed

section \<open>Little-endian encodings\<close>

text \<open>\<open>u16_le\<close>, \<open>u32_le\<close> and \<open>u64_le\<close> are the bytes of a word as they lie in memory (and in
  the bytecode file); \<open>of_u16_le\<close>, \<open>of_u32_le\<close> and \<open>of_u64_le\<close> read them back, with the shifts
  and disjunctions of the sources' readers.\<close>

definition u16_le :: "u16 \<Rightarrow> u8 list" where
  "u16_le v = [ucast v, ucast (drop_bit 8 v)]"

definition u32_le :: "u32 \<Rightarrow> u8 list" where
  "u32_le v = [ucast v, ucast (drop_bit 8 v), ucast (drop_bit 16 v), ucast (drop_bit 24 v)]"

definition u64_le :: "u64 \<Rightarrow> u8 list" where
  "u64_le v = u32_le (ucast v) @ u32_le (ucast (drop_bit 32 v))"

definition of_u16_le :: "u8 \<Rightarrow> u8 \<Rightarrow> u16" where
  "of_u16_le b0 b1 = ucast b0 OR push_bit 8 (ucast b1)"

definition of_u32_le :: "u8 \<Rightarrow> u8 \<Rightarrow> u8 \<Rightarrow> u8 \<Rightarrow> u32" where
  "of_u32_le b0 b1 b2 b3 =
     ucast b0 OR push_bit 8 (ucast b1) OR push_bit 16 (ucast b2) OR push_bit 24 (ucast b3)"

definition of_u64_le :: "u32 \<Rightarrow> u32 \<Rightarrow> u64" where
  "of_u64_le lo hi = ucast lo OR push_bit 32 (ucast hi)"

lemma length_u16_le [simp, le_simps]: "length (u16_le v) = 2"
  by (simp add: u16_le_def)

lemma length_u32_le [simp, le_simps]: "length (u32_le v) = 4"
  by (simp add: u32_le_def)

lemma length_u64_le [simp, le_simps]: "length (u64_le v) = 8"
  by (simp add: u64_le_def)

lemma of_u16_le_inverse [simp, le_simps]: "of_u16_le (ucast v) (ucast (drop_bit 8 v)) = v"
  by (rule bit_word_eqI) (auto simp: of_u16_le_def bit_simps)

lemma of_u32_le_inverse [simp, le_simps]:
  "of_u32_le (ucast v) (ucast (drop_bit 8 v)) (ucast (drop_bit 16 v)) (ucast (drop_bit 24 v)) = v"
proof (rule bit_word_eqI)
  fix n :: nat
  assume "n < LENGTH(32)"
  then consider "n < 8" | "8 \<le> n" "n < 16" | "16 \<le> n" "n < 24" | "24 \<le> n" "n < 32"
    by fastforce
  then show "bit (of_u32_le (ucast v) (ucast (drop_bit 8 v)) (ucast (drop_bit 16 v))
      (ucast (drop_bit 24 v))) n = bit v n"
    by cases (auto simp: of_u32_le_def bit_simps)
qed

lemma of_u64_le_inverse [simp, le_simps]: "of_u64_le (ucast v) (ucast (drop_bit 32 v)) = v"
  by (rule bit_word_eqI) (auto simp: of_u64_le_def bit_simps)

lemma word8_eqI: "(\<And>n. n < 8 \<Longrightarrow> bit x n = bit y n) \<Longrightarrow> x = (y :: u8)"
  by (rule bit_word_eqI) simp

lemma bit_u8_high: "8 \<le> n \<Longrightarrow> \<not> bit (b :: u8) n"
  by (auto dest: bit_imp_le_length)

lemma u16_le_of_u16_le [simp, le_simps]: "u16_le (of_u16_le b0 b1) = [b0, b1]"
  by (auto simp: u16_le_def of_u16_le_def bit_simps bit_u8_high intro!: word8_eqI)

lemma u32_le_of_u32_le [simp, le_simps]: "u32_le (of_u32_le b0 b1 b2 b3) = [b0, b1, b2, b3]"
  by (auto simp: u32_le_def of_u32_le_def bit_simps bit_u8_high intro!: word8_eqI)

section \<open>Lists as memory\<close>

text \<open>\<open>mem_write xs i ys\<close> is \<^verbatim>\<open>memcpy(xs + i, ys, len)\<close> on an array that is long enough, and
  \<open>mem_read xs i n\<close> the \<open>n\<close> cells from \<open>i\<close> on.\<close>

definition mem_write :: "'a list \<Rightarrow> nat \<Rightarrow> 'a list \<Rightarrow> 'a list" where
  "mem_write xs i ys = take i xs @ ys @ drop (i + length ys) xs"

definition mem_read :: "'a list \<Rightarrow> nat \<Rightarrow> nat \<Rightarrow> 'a list" where
  "mem_read xs i n = take n (drop i xs)"

lemma length_mem_write [simp]:
  "i + length ys \<le> length xs \<Longrightarrow> length (mem_write xs i ys) = length xs"
  by (simp add: mem_write_def)

lemma length_mem_read [simp]: "i + n \<le> length xs \<Longrightarrow> length (mem_read xs i n) = n"
  by (simp add: mem_read_def)

lemma mem_read_write_same [simp]:
  "i + length ys \<le> length xs \<Longrightarrow> n = length ys \<Longrightarrow> mem_read (mem_write xs i ys) i n = ys"
  by (simp add: mem_read_def mem_write_def)

lemma nth_mem_write:
  assumes "i + length ys \<le> length xs" "j < length xs"
  shows "mem_write xs i ys ! j =
    (if i \<le> j \<and> j < i + length ys then ys ! (j - i) else xs ! j)"
  using assms by (auto simp: mem_write_def nth_append)

lemma mem_read_write_other:
  assumes "i + length ys \<le> length xs" "j + n \<le> length xs"
    and "j + n \<le> i \<or> i + length ys \<le> j"
  shows "mem_read (mem_write xs i ys) j n = mem_read xs j n"
proof (rule nth_equalityI)
  show "length (mem_read (mem_write xs i ys) j n) = length (mem_read xs j n)"
    using assms by simp
next
  fix k assume "k < length (mem_read (mem_write xs i ys) j n)"
  then have "k < n" using assms by simp
  then show "mem_read (mem_write xs i ys) j n ! k = mem_read xs j n ! k"
    using assms by (auto simp: mem_read_def nth_mem_write)
qed

end
