(* ===== verification/Jello_Value.thy ===== *)
theory Jello_Value
  imports Jello_Prelude
begin

text \<open>
  The tagged value representation of \<^verbatim>\<open>src/include/jello.h\<close>: a \<^verbatim>\<open>jello_value\<close> is a machine word
  whose three low bits are a tag; an \<^verbatim>\<open>i32\<close>, an atom id or a bool lie above the tag, and a word
  with tag 0 is a heap pointer. C's \<^verbatim>\<open>int32_t\<close> is its two's complement bit pattern, a \<open>u32\<close>
  (\<open>sint\<close> reads it as signed).
\<close>

section \<open>Tags\<close>

type_synonym jello_value = u64

definition JELLO_TAG_PTR :: u64 where "JELLO_TAG_PTR = 0"
definition JELLO_TAG_I32 :: u64 where "JELLO_TAG_I32 = 1"
definition JELLO_TAG_ATOM :: u64 where "JELLO_TAG_ATOM = 2"
definition JELLO_TAG_BOOL :: u64 where "JELLO_TAG_BOOL = 3"
definition JELLO_TAG_NULL :: u64 where "JELLO_TAG_NULL = 4"

lemmas tag_defs =
  JELLO_TAG_PTR_def JELLO_TAG_I32_def JELLO_TAG_ATOM_def JELLO_TAG_BOOL_def JELLO_TAG_NULL_def

definition jello_make_null :: jello_value where
  "jello_make_null = JELLO_TAG_NULL"

definition jello_is_null :: "jello_value \<Rightarrow> bool" where
  "jello_is_null v \<longleftrightarrow> v AND 7 = JELLO_TAG_NULL"

definition jello_bound_this_is_set :: "jello_value \<Rightarrow> bool" where
  "jello_bound_this_is_set v \<longleftrightarrow> v \<noteq> 0 \<and> \<not> jello_is_null v"

definition jello_make_bool :: "bool \<Rightarrow> jello_value" where
  "jello_make_bool b = push_bit 3 (if b then 1 else 0) OR JELLO_TAG_BOOL"

definition jello_is_bool :: "jello_value \<Rightarrow> bool" where
  "jello_is_bool v \<longleftrightarrow> v AND 7 = JELLO_TAG_BOOL"

definition jello_as_bool :: "jello_value \<Rightarrow> bool" where
  "jello_as_bool v \<longleftrightarrow> drop_bit 3 v AND 1 \<noteq> 0"

definition jello_make_atom :: "u32 \<Rightarrow> jello_value" where
  "jello_make_atom atom_id = push_bit 3 (ucast atom_id) OR JELLO_TAG_ATOM"

definition jello_is_atom :: "jello_value \<Rightarrow> bool" where
  "jello_is_atom v \<longleftrightarrow> v AND 7 = JELLO_TAG_ATOM"

definition jello_as_atom :: "jello_value \<Rightarrow> u32" where
  "jello_as_atom v = ucast (drop_bit 3 v)"

definition jello_make_i32 :: "u32 \<Rightarrow> jello_value" where
  "jello_make_i32 x = push_bit 3 (ucast x) OR JELLO_TAG_I32"

definition jello_is_i32 :: "jello_value \<Rightarrow> bool" where
  "jello_is_i32 v \<longleftrightarrow> v AND 7 = JELLO_TAG_I32"

definition jello_as_i32 :: "jello_value \<Rightarrow> u32" where
  "jello_as_i32 v = ucast (drop_bit 3 v)"

definition jello_is_ptr :: "jello_value \<Rightarrow> bool" where
  "jello_is_ptr v \<longleftrightarrow> v AND 7 = JELLO_TAG_PTR"

definition jello_as_ptr :: "jello_value \<Rightarrow> u64" where
  "jello_as_ptr v = v"

definition jello_from_ptr :: "u64 \<Rightarrow> jello_value" where
  "jello_from_ptr p = p"

lemmas value_pred_defs =
  jello_is_null_def jello_is_bool_def jello_is_atom_def jello_is_i32_def jello_is_ptr_def

lemmas value_make_defs =
  jello_make_null_def jello_make_bool_def jello_make_atom_def jello_make_i32_def

section \<open>The tag of a constructed value\<close>

lemma tag_of_push_bit:
  fixes x t :: u64
  assumes "t < 8"
  shows "(push_bit 3 x OR t) AND 7 = t"
proof (rule bit_word_eqI)
  fix n :: nat
  assume n: "n < LENGTH(64)"
  have seven: "(7 :: u64) = mask 3" by (simp add: mask_eq_exp_minus_1)
  have t: "bit t n \<Longrightarrow> n < 3"
    using assms bit_less_exp [of t 3 n] by (simp add: word_less_nat_alt)
  show "bit ((push_bit 3 x OR t) AND 7) n = bit t n"
    using n t by (auto simp: seven bit_simps)
qed

lemma tag_make [simp]:
  "jello_make_null AND 7 = 4" "jello_make_bool b AND 7 = 3"
  "jello_make_atom a AND 7 = 2" "jello_make_i32 x AND 7 = 1"
  using tag_of_push_bit [of 3 "if b then 1 else 0"] tag_of_push_bit [of 2 "ucast a"]
    tag_of_push_bit [of 1 "ucast x"]
  by (simp_all add: value_make_defs tag_defs)

lemma is_make [simp]:
  "jello_is_null jello_make_null" "\<not> jello_is_bool jello_make_null"
  "\<not> jello_is_atom jello_make_null" "\<not> jello_is_i32 jello_make_null" "\<not> jello_is_ptr jello_make_null"
  "jello_is_bool (jello_make_bool b)" "\<not> jello_is_null (jello_make_bool b)"
  "\<not> jello_is_atom (jello_make_bool b)" "\<not> jello_is_i32 (jello_make_bool b)"
  "\<not> jello_is_ptr (jello_make_bool b)"
  "jello_is_atom (jello_make_atom a)" "\<not> jello_is_null (jello_make_atom a)"
  "\<not> jello_is_bool (jello_make_atom a)" "\<not> jello_is_i32 (jello_make_atom a)"
  "\<not> jello_is_ptr (jello_make_atom a)"
  "jello_is_i32 (jello_make_i32 x)" "\<not> jello_is_null (jello_make_i32 x)"
  "\<not> jello_is_bool (jello_make_i32 x)" "\<not> jello_is_atom (jello_make_i32 x)"
  "\<not> jello_is_ptr (jello_make_i32 x)"
  by (simp_all add: value_pred_defs tag_defs)

text \<open>At most one of the five predicates holds of any word (tags 5 to 7 satisfy none).\<close>

lemma tags_exclusive:
  "jello_is_ptr v \<Longrightarrow> \<not> jello_is_null v \<and> \<not> jello_is_bool v \<and> \<not> jello_is_atom v \<and> \<not> jello_is_i32 v"
  "jello_is_null v \<Longrightarrow> \<not> jello_is_bool v \<and> \<not> jello_is_atom v \<and> \<not> jello_is_i32 v"
  "jello_is_bool v \<Longrightarrow> \<not> jello_is_atom v \<and> \<not> jello_is_i32 v"
  "jello_is_atom v \<Longrightarrow> \<not> jello_is_i32 v"
  by (simp_all add: value_pred_defs tag_defs)

section \<open>Payloads\<close>

lemma ucast_ucast_u32 [simp]: "ucast (ucast (x :: u32) :: u64) = x"
  by (rule bit_word_eqI) (simp add: bit_simps)

lemma as_i32_make [simp]: "jello_as_i32 (jello_make_i32 x) = x"
  by (rule bit_word_eqI) (auto simp: jello_as_i32_def jello_make_i32_def tag_defs bit_simps)

lemma as_atom_make [simp]: "jello_as_atom (jello_make_atom a) = a"
  by (rule bit_word_eqI) (auto simp: jello_as_atom_def jello_make_atom_def tag_defs bit_simps)

lemma as_bool_make [simp]: "jello_as_bool (jello_make_bool b) = b"
  by (cases b) (simp_all add: jello_as_bool_def jello_make_bool_def tag_defs)

lemma make_inject [simp]:
  "jello_make_i32 x = jello_make_i32 y \<longleftrightarrow> x = y"
  "jello_make_atom a = jello_make_atom a' \<longleftrightarrow> a = a'"
  "jello_make_bool b = jello_make_bool b' \<longleftrightarrow> b = b'"
  by (auto dest: arg_cong [where f = jello_as_i32] arg_cong [where f = jello_as_atom]
      arg_cong [where f = jello_as_bool])

lemma as_from_ptr [simp]: "jello_as_ptr (jello_from_ptr p) = p"
  by (simp add: jello_as_ptr_def jello_from_ptr_def)

text \<open>An 8-byte aligned address is a pointer value, and no constructed immediate equals it.\<close>

lemma is_ptr_aligned: "jello_is_ptr (jello_from_ptr p) \<longleftrightarrow> unat p mod 8 = 0"
proof -
  have "unat (p AND mask 3) = unat p mod 8"
    by (simp add: unat_and_mask_mod)
  moreover have "p AND 7 = p AND mask 3"
    by (simp add: mask_eq_exp_minus_1)
  ultimately show ?thesis
    by (simp add: jello_is_ptr_def jello_from_ptr_def tag_defs unat_eq_zero flip: unat_eq_zero)
qed

section \<open>Properties\<close>

text \<open>The five forms of a tagged word never overlap: whatever a constructor builds is recognised
  by its own predicate only, and its payload is read back exactly; so are aligned pointers.\<close>

theorem tagged_value_roundtrip:
  "jello_is_i32 (jello_make_i32 x) \<and> jello_as_i32 (jello_make_i32 x) = x \<and>
   jello_is_atom (jello_make_atom a) \<and> jello_as_atom (jello_make_atom a) = a \<and>
   jello_is_bool (jello_make_bool b) \<and> jello_as_bool (jello_make_bool b) = b \<and>
   jello_is_null jello_make_null \<and>
   (jello_is_ptr (jello_from_ptr (push_bit 3 p)) \<and> jello_as_ptr (jello_from_ptr (push_bit 3 p)) = push_bit 3 p) \<and>
   length (filter (\<lambda>is. is v) [jello_is_ptr, jello_is_i32, jello_is_atom, jello_is_bool, jello_is_null]) \<le> 1"
proof -
  have "push_bit 3 p AND 7 = (0 :: u64)" using tag_of_push_bit [of 0 p] by simp
  then have "jello_is_ptr (jello_from_ptr (push_bit 3 p))"
    by (simp add: jello_is_ptr_def jello_from_ptr_def tag_defs)
  moreover have
    "length (filter (\<lambda>is. is v) [jello_is_ptr, jello_is_i32, jello_is_atom, jello_is_bool, jello_is_null]) \<le> 1"
    using tags_exclusive [of v] by auto
  ultimately show ?thesis by simp
qed

end
