(* ===== verification/Jello_Bytecode.thy ===== *)
theory Jello_Bytecode
  imports Jello_Value
begin

text \<open>
  The bytecode data model: type kinds, type entries, signatures, instructions, functions and
  modules of \<^verbatim>\<open>src/include/jello.h\<close> and \<^verbatim>\<open>src/include/jello/internal/vm_internal.h\<close>, the opcode
  numbers, and the slot sizes of \<^verbatim>\<open>src/vm/reg.c\<close>. A C array with its length field is a list
  together with that field; \<open>Jello_Loader\<close> proves that the two agree in every loaded module.
\<close>

section \<open>Types\<close>

datatype jello_type_kind =
    JELLO_T_BOOL | JELLO_T_ATOM | JELLO_T_I8 | JELLO_T_I16 | JELLO_T_I32 | JELLO_T_I64
  | JELLO_T_F16 | JELLO_T_F32 | JELLO_T_F64 | JELLO_T_BYTES | JELLO_T_LIST | JELLO_T_ARRAY
  | JELLO_T_OBJECT | JELLO_T_FUNCTION | JELLO_T_ABSTRACT | JELLO_T_DYNAMIC | JELLO_T_ENUM

text \<open>The numbers of the C enumeration, and the cast \<^verbatim>\<open>(jello_type_kind)kind_u8\<close>; a number that
  is no enumerator is \<open>None\<close>.\<close>

fun kind_code :: "jello_type_kind \<Rightarrow> u8" where
  "kind_code JELLO_T_BOOL = 1"
| "kind_code JELLO_T_ATOM = 2"
| "kind_code JELLO_T_I8 = 3"
| "kind_code JELLO_T_I16 = 4"
| "kind_code JELLO_T_I32 = 5"
| "kind_code JELLO_T_I64 = 6"
| "kind_code JELLO_T_F16 = 7"
| "kind_code JELLO_T_F32 = 8"
| "kind_code JELLO_T_F64 = 9"
| "kind_code JELLO_T_BYTES = 10"
| "kind_code JELLO_T_LIST = 11"
| "kind_code JELLO_T_ARRAY = 12"
| "kind_code JELLO_T_OBJECT = 13"
| "kind_code JELLO_T_FUNCTION = 14"
| "kind_code JELLO_T_ABSTRACT = 15"
| "kind_code JELLO_T_DYNAMIC = 16"
| "kind_code JELLO_T_ENUM = 17"

definition all_kinds :: "jello_type_kind list" where
  "all_kinds =
     [JELLO_T_BOOL, JELLO_T_ATOM, JELLO_T_I8, JELLO_T_I16, JELLO_T_I32, JELLO_T_I64,
      JELLO_T_F16, JELLO_T_F32, JELLO_T_F64, JELLO_T_BYTES, JELLO_T_LIST, JELLO_T_ARRAY,
      JELLO_T_OBJECT, JELLO_T_FUNCTION, JELLO_T_ABSTRACT, JELLO_T_DYNAMIC, JELLO_T_ENUM]"

definition kind_of_u8 :: "u8 \<Rightarrow> jello_type_kind option" where
  "kind_of_u8 n = find (\<lambda>k. kind_code k = n) all_kinds"

lemma kind_of_u8_code [simp]: "kind_of_u8 (kind_code k) = Some k"
  by (cases k) (simp_all add: kind_of_u8_def all_kinds_def)

lemma kind_of_u8_Some: "kind_of_u8 n = Some k \<Longrightarrow> n = kind_code k"
  by (auto simp: kind_of_u8_def find_Some_iff)

text \<open>The union \<^verbatim>\<open>as\<close> of \<^verbatim>\<open>jello_type_entry\<close> overlays three 32-bit fields (\<^verbatim>\<open>unary.elem\<close>,
  \<^verbatim>\<open>fun.sig_id\<close> and \<^verbatim>\<open>abs.abstract_id\<close>) at one offset: they are the one field \<open>te_as\<close>.\<close>

record jello_type_entry =
  te_kind :: jello_type_kind
  te_as :: u32

record jello_fun_sig =
  sig_ret :: u32
  sig_nargs :: u16
  sig_args :: "u32 list"

definition jello_slot_size :: "jello_type_kind \<Rightarrow> nat" where
  "jello_slot_size k =
     (case k of
        JELLO_T_I8 \<Rightarrow> 4 | JELLO_T_I16 \<Rightarrow> 4 | JELLO_T_I32 \<Rightarrow> 4 | JELLO_T_F32 \<Rightarrow> 4
      | JELLO_T_F16 \<Rightarrow> 4 | JELLO_T_BOOL \<Rightarrow> 4 | JELLO_T_ATOM \<Rightarrow> 4
      | JELLO_T_I64 \<Rightarrow> 8 | JELLO_T_F64 \<Rightarrow> 8
      | JELLO_T_DYNAMIC \<Rightarrow> 8
      | _ \<Rightarrow> 8)"

lemma slot_size_cases: "jello_slot_size k = 4 \<or> jello_slot_size k = 8"
  by (cases k) (simp_all add: jello_slot_size_def)

lemma slot_size_pos [simp]: "0 < jello_slot_size k"
  using slot_size_cases [of k] by auto

section \<open>Opcodes\<close>

text \<open>The opcode numbers of \<^verbatim>\<open>enum jello_op\<close>. An instruction stores its opcode as a byte, which may
  be no opcode at all (\<open>JOP_COUNT\<close> of them exist), so opcodes are numbers and not a datatype.\<close>

abbreviation (input) JOP_NOP :: nat where "JOP_NOP \<equiv> 0"
abbreviation (input) JOP_RET :: nat where "JOP_RET \<equiv> 1"
abbreviation (input) JOP_JMP :: nat where "JOP_JMP \<equiv> 2"
abbreviation (input) JOP_JMP_IF :: nat where "JOP_JMP_IF \<equiv> 3"
abbreviation (input) JOP_MOV :: nat where "JOP_MOV \<equiv> 4"
abbreviation (input) JOP_TRY :: nat where "JOP_TRY \<equiv> 5"
abbreviation (input) JOP_ENDTRY :: nat where "JOP_ENDTRY \<equiv> 6"
abbreviation (input) JOP_THROW :: nat where "JOP_THROW \<equiv> 7"
abbreviation (input) JOP_ASSERT :: nat where "JOP_ASSERT \<equiv> 8"
abbreviation (input) JOP_CALL :: nat where "JOP_CALL \<equiv> 9"
abbreviation (input) JOP_CALLR :: nat where "JOP_CALLR \<equiv> 10"
abbreviation (input) JOP_TAILCALL :: nat where "JOP_TAILCALL \<equiv> 11"
abbreviation (input) JOP_TAILCALLR :: nat where "JOP_TAILCALLR \<equiv> 12"
abbreviation (input) JOP_CONST_FUN :: nat where "JOP_CONST_FUN \<equiv> 13"
abbreviation (input) JOP_CLOSURE :: nat where "JOP_CLOSURE \<equiv> 14"
abbreviation (input) JOP_BIND_THIS :: nat where "JOP_BIND_THIS \<equiv> 15"
abbreviation (input) JOP_CONST_I32 :: nat where "JOP_CONST_I32 \<equiv> 16"
abbreviation (input) JOP_CONST_I8_IMM :: nat where "JOP_CONST_I8_IMM \<equiv> 17"
abbreviation (input) JOP_CONST_BOOL :: nat where "JOP_CONST_BOOL \<equiv> 18"
abbreviation (input) JOP_CONST_NULL :: nat where "JOP_CONST_NULL \<equiv> 19"
abbreviation (input) JOP_CONST_ATOM :: nat where "JOP_CONST_ATOM \<equiv> 20"
abbreviation (input) JOP_CONST_F16 :: nat where "JOP_CONST_F16 \<equiv> 21"
abbreviation (input) JOP_CONST_F32 :: nat where "JOP_CONST_F32 \<equiv> 22"
abbreviation (input) JOP_CONST_I64 :: nat where "JOP_CONST_I64 \<equiv> 23"
abbreviation (input) JOP_CONST_F64 :: nat where "JOP_CONST_F64 \<equiv> 24"
abbreviation (input) JOP_CONST_BYTES :: nat where "JOP_CONST_BYTES \<equiv> 25"
abbreviation (input) JOP_BYTES_CONCAT2 :: nat where "JOP_BYTES_CONCAT2 \<equiv> 26"
abbreviation (input) JOP_BYTES_CONCAT_MANY :: nat where "JOP_BYTES_CONCAT_MANY \<equiv> 27"
abbreviation (input) JOP_ADD_I32 :: nat where "JOP_ADD_I32 \<equiv> 28"
abbreviation (input) JOP_SUB_I32 :: nat where "JOP_SUB_I32 \<equiv> 29"
abbreviation (input) JOP_MUL_I32 :: nat where "JOP_MUL_I32 \<equiv> 30"
abbreviation (input) JOP_DIV_I32 :: nat where "JOP_DIV_I32 \<equiv> 31"
abbreviation (input) JOP_MOD_I32 :: nat where "JOP_MOD_I32 \<equiv> 32"
abbreviation (input) JOP_SHL_I32 :: nat where "JOP_SHL_I32 \<equiv> 33"
abbreviation (input) JOP_SHR_I32 :: nat where "JOP_SHR_I32 \<equiv> 34"
abbreviation (input) JOP_ADD_I32_IMM :: nat where "JOP_ADD_I32_IMM \<equiv> 35"
abbreviation (input) JOP_SUB_I32_IMM :: nat where "JOP_SUB_I32_IMM \<equiv> 36"
abbreviation (input) JOP_MUL_I32_IMM :: nat where "JOP_MUL_I32_IMM \<equiv> 37"
abbreviation (input) JOP_ADD_I64 :: nat where "JOP_ADD_I64 \<equiv> 38"
abbreviation (input) JOP_SUB_I64 :: nat where "JOP_SUB_I64 \<equiv> 39"
abbreviation (input) JOP_MUL_I64 :: nat where "JOP_MUL_I64 \<equiv> 40"
abbreviation (input) JOP_DIV_I64 :: nat where "JOP_DIV_I64 \<equiv> 41"
abbreviation (input) JOP_MOD_I64 :: nat where "JOP_MOD_I64 \<equiv> 42"
abbreviation (input) JOP_SHL_I64 :: nat where "JOP_SHL_I64 \<equiv> 43"
abbreviation (input) JOP_SHR_I64 :: nat where "JOP_SHR_I64 \<equiv> 44"
abbreviation (input) JOP_ADD_F16 :: nat where "JOP_ADD_F16 \<equiv> 45"
abbreviation (input) JOP_SUB_F16 :: nat where "JOP_SUB_F16 \<equiv> 46"
abbreviation (input) JOP_MUL_F16 :: nat where "JOP_MUL_F16 \<equiv> 47"
abbreviation (input) JOP_ADD_F32 :: nat where "JOP_ADD_F32 \<equiv> 48"
abbreviation (input) JOP_SUB_F32 :: nat where "JOP_SUB_F32 \<equiv> 49"
abbreviation (input) JOP_MUL_F32 :: nat where "JOP_MUL_F32 \<equiv> 50"
abbreviation (input) JOP_DIV_F32 :: nat where "JOP_DIV_F32 \<equiv> 51"
abbreviation (input) JOP_ADD_F64 :: nat where "JOP_ADD_F64 \<equiv> 52"
abbreviation (input) JOP_SUB_F64 :: nat where "JOP_SUB_F64 \<equiv> 53"
abbreviation (input) JOP_MUL_F64 :: nat where "JOP_MUL_F64 \<equiv> 54"
abbreviation (input) JOP_DIV_F64 :: nat where "JOP_DIV_F64 \<equiv> 55"
abbreviation (input) JOP_NEG_I32 :: nat where "JOP_NEG_I32 \<equiv> 56"
abbreviation (input) JOP_NEG_I64 :: nat where "JOP_NEG_I64 \<equiv> 57"
abbreviation (input) JOP_NEG_F32 :: nat where "JOP_NEG_F32 \<equiv> 58"
abbreviation (input) JOP_NEG_F64 :: nat where "JOP_NEG_F64 \<equiv> 59"
abbreviation (input) JOP_NOT_BOOL :: nat where "JOP_NOT_BOOL \<equiv> 60"
abbreviation (input) JOP_EQ_I32 :: nat where "JOP_EQ_I32 \<equiv> 61"
abbreviation (input) JOP_LT_I32 :: nat where "JOP_LT_I32 \<equiv> 62"
abbreviation (input) JOP_EQ_I32_IMM :: nat where "JOP_EQ_I32_IMM \<equiv> 63"
abbreviation (input) JOP_LT_I32_IMM :: nat where "JOP_LT_I32_IMM \<equiv> 64"
abbreviation (input) JOP_EQ_I64 :: nat where "JOP_EQ_I64 \<equiv> 65"
abbreviation (input) JOP_LT_I64 :: nat where "JOP_LT_I64 \<equiv> 66"
abbreviation (input) JOP_EQ_F32 :: nat where "JOP_EQ_F32 \<equiv> 67"
abbreviation (input) JOP_LT_F32 :: nat where "JOP_LT_F32 \<equiv> 68"
abbreviation (input) JOP_EQ_F64 :: nat where "JOP_EQ_F64 \<equiv> 69"
abbreviation (input) JOP_LT_F64 :: nat where "JOP_LT_F64 \<equiv> 70"
abbreviation (input) JOP_SEXT_I64 :: nat where "JOP_SEXT_I64 \<equiv> 71"
abbreviation (input) JOP_SEXT_I16 :: nat where "JOP_SEXT_I16 \<equiv> 72"
abbreviation (input) JOP_TRUNC_I8 :: nat where "JOP_TRUNC_I8 \<equiv> 73"
abbreviation (input) JOP_TRUNC_I16 :: nat where "JOP_TRUNC_I16 \<equiv> 74"
abbreviation (input) JOP_I32_FROM_I64 :: nat where "JOP_I32_FROM_I64 \<equiv> 75"
abbreviation (input) JOP_F64_FROM_I32 :: nat where "JOP_F64_FROM_I32 \<equiv> 76"
abbreviation (input) JOP_I32_FROM_F64 :: nat where "JOP_I32_FROM_F64 \<equiv> 77"
abbreviation (input) JOP_F64_FROM_I64 :: nat where "JOP_F64_FROM_I64 \<equiv> 78"
abbreviation (input) JOP_I64_FROM_F64 :: nat where "JOP_I64_FROM_F64 \<equiv> 79"
abbreviation (input) JOP_F32_FROM_I32 :: nat where "JOP_F32_FROM_I32 \<equiv> 80"
abbreviation (input) JOP_I32_FROM_F32 :: nat where "JOP_I32_FROM_F32 \<equiv> 81"
abbreviation (input) JOP_F64_FROM_F32 :: nat where "JOP_F64_FROM_F32 \<equiv> 82"
abbreviation (input) JOP_F32_FROM_F64 :: nat where "JOP_F32_FROM_F64 \<equiv> 83"
abbreviation (input) JOP_F32_FROM_I64 :: nat where "JOP_F32_FROM_I64 \<equiv> 84"
abbreviation (input) JOP_I64_FROM_F32 :: nat where "JOP_I64_FROM_F32 \<equiv> 85"
abbreviation (input) JOP_F16_FROM_F32 :: nat where "JOP_F16_FROM_F32 \<equiv> 86"
abbreviation (input) JOP_F32_FROM_F16 :: nat where "JOP_F32_FROM_F16 \<equiv> 87"
abbreviation (input) JOP_F16_FROM_I32 :: nat where "JOP_F16_FROM_I32 \<equiv> 88"
abbreviation (input) JOP_I32_FROM_F16 :: nat where "JOP_I32_FROM_F16 \<equiv> 89"
abbreviation (input) JOP_TO_DYN :: nat where "JOP_TO_DYN \<equiv> 90"
abbreviation (input) JOP_FROM_DYN_I8 :: nat where "JOP_FROM_DYN_I8 \<equiv> 91"
abbreviation (input) JOP_FROM_DYN_I16 :: nat where "JOP_FROM_DYN_I16 \<equiv> 92"
abbreviation (input) JOP_FROM_DYN_I32 :: nat where "JOP_FROM_DYN_I32 \<equiv> 93"
abbreviation (input) JOP_FROM_DYN_I64 :: nat where "JOP_FROM_DYN_I64 \<equiv> 94"
abbreviation (input) JOP_FROM_DYN_F16 :: nat where "JOP_FROM_DYN_F16 \<equiv> 95"
abbreviation (input) JOP_FROM_DYN_F32 :: nat where "JOP_FROM_DYN_F32 \<equiv> 96"
abbreviation (input) JOP_FROM_DYN_F64 :: nat where "JOP_FROM_DYN_F64 \<equiv> 97"
abbreviation (input) JOP_FROM_DYN_BOOL :: nat where "JOP_FROM_DYN_BOOL \<equiv> 98"
abbreviation (input) JOP_FROM_DYN_ATOM :: nat where "JOP_FROM_DYN_ATOM \<equiv> 99"
abbreviation (input) JOP_FROM_DYN_PTR :: nat where "JOP_FROM_DYN_PTR \<equiv> 100"
abbreviation (input) JOP_SPILL_PUSH :: nat where "JOP_SPILL_PUSH \<equiv> 101"
abbreviation (input) JOP_SPILL_POP :: nat where "JOP_SPILL_POP \<equiv> 102"
abbreviation (input) JOP_PHYSEQ :: nat where "JOP_PHYSEQ \<equiv> 103"
abbreviation (input) JOP_KINDOF :: nat where "JOP_KINDOF \<equiv> 104"
abbreviation (input) JOP_SWITCH_KIND :: nat where "JOP_SWITCH_KIND \<equiv> 105"
abbreviation (input) JOP_CASE_KIND :: nat where "JOP_CASE_KIND \<equiv> 106"
abbreviation (input) JOP_LIST_NIL :: nat where "JOP_LIST_NIL \<equiv> 107"
abbreviation (input) JOP_LIST_CONS :: nat where "JOP_LIST_CONS \<equiv> 108"
abbreviation (input) JOP_LIST_HEAD :: nat where "JOP_LIST_HEAD \<equiv> 109"
abbreviation (input) JOP_LIST_TAIL :: nat where "JOP_LIST_TAIL \<equiv> 110"
abbreviation (input) JOP_LIST_IS_NIL :: nat where "JOP_LIST_IS_NIL \<equiv> 111"
abbreviation (input) JOP_ARRAY_NEW :: nat where "JOP_ARRAY_NEW \<equiv> 112"
abbreviation (input) JOP_ARRAY_LEN :: nat where "JOP_ARRAY_LEN \<equiv> 113"
abbreviation (input) JOP_ARRAY_GET :: nat where "JOP_ARRAY_GET \<equiv> 114"
abbreviation (input) JOP_ARRAY_SET :: nat where "JOP_ARRAY_SET \<equiv> 115"
abbreviation (input) JOP_BYTES_NEW :: nat where "JOP_BYTES_NEW \<equiv> 116"
abbreviation (input) JOP_BYTES_LEN :: nat where "JOP_BYTES_LEN \<equiv> 117"
abbreviation (input) JOP_BYTES_GET_U8 :: nat where "JOP_BYTES_GET_U8 \<equiv> 118"
abbreviation (input) JOP_BYTES_SET_U8 :: nat where "JOP_BYTES_SET_U8 \<equiv> 119"
abbreviation (input) JOP_OBJ_NEW :: nat where "JOP_OBJ_NEW \<equiv> 120"
abbreviation (input) JOP_OBJ_HAS_ATOM :: nat where "JOP_OBJ_HAS_ATOM \<equiv> 121"
abbreviation (input) JOP_OBJ_GET_ATOM :: nat where "JOP_OBJ_GET_ATOM \<equiv> 122"
abbreviation (input) JOP_OBJ_SET_ATOM :: nat where "JOP_OBJ_SET_ATOM \<equiv> 123"
abbreviation (input) JOP_OBJ_GET :: nat where "JOP_OBJ_GET \<equiv> 124"
abbreviation (input) JOP_OBJ_SET :: nat where "JOP_OBJ_SET \<equiv> 125"
abbreviation (input) JOP_ARRAY_CONCAT2 :: nat where "JOP_ARRAY_CONCAT2 \<equiv> 126"
abbreviation (input) JOP_ARRAY_RESIZE :: nat where "JOP_ARRAY_RESIZE \<equiv> 127"
abbreviation (input) JOP_OBJ_HAS :: nat where "JOP_OBJ_HAS \<equiv> 128"
abbreviation (input) JOP_OBJ_REMOVE :: nat where "JOP_OBJ_REMOVE \<equiv> 129"
abbreviation (input) JOP_OBJ_CLEAR :: nat where "JOP_OBJ_CLEAR \<equiv> 130"
abbreviation (input) JOP_OBJ_COPY :: nat where "JOP_OBJ_COPY \<equiv> 131"
abbreviation (input) JOP_OBJ_KEYS :: nat where "JOP_OBJ_KEYS \<equiv> 132"
abbreviation (input) JOP_ENUM_NEW :: nat where "JOP_ENUM_NEW \<equiv> 133"
abbreviation (input) JOP_ENUM_TAG :: nat where "JOP_ENUM_TAG \<equiv> 134"
abbreviation (input) JOP_ENUM_GET :: nat where "JOP_ENUM_GET \<equiv> 135"
abbreviation (input) JOP_BITAND_I32 :: nat where "JOP_BITAND_I32 \<equiv> 136"
abbreviation (input) JOP_BITAND_I64 :: nat where "JOP_BITAND_I64 \<equiv> 137"
abbreviation (input) JOP_BYTES_BITAND2 :: nat where "JOP_BYTES_BITAND2 \<equiv> 138"
abbreviation (input) JOP_BITOR_I32 :: nat where "JOP_BITOR_I32 \<equiv> 139"
abbreviation (input) JOP_BITOR_I64 :: nat where "JOP_BITOR_I64 \<equiv> 140"
abbreviation (input) JOP_BITXOR_I32 :: nat where "JOP_BITXOR_I32 \<equiv> 141"
abbreviation (input) JOP_BITXOR_I64 :: nat where "JOP_BITXOR_I64 \<equiv> 142"
abbreviation (input) JOP_BYTES_BITOR2 :: nat where "JOP_BYTES_BITOR2 \<equiv> 143"
abbreviation (input) JOP_BYTES_BITXOR2 :: nat where "JOP_BYTES_BITXOR2 \<equiv> 144"
abbreviation (input) JOP_BYTES_READ_U16_LE :: nat where "JOP_BYTES_READ_U16_LE \<equiv> 145"
abbreviation (input) JOP_BYTES_READ_U16_BE :: nat where "JOP_BYTES_READ_U16_BE \<equiv> 146"
abbreviation (input) JOP_BYTES_READ_U32_LE :: nat where "JOP_BYTES_READ_U32_LE \<equiv> 147"
abbreviation (input) JOP_BYTES_READ_U32_BE :: nat where "JOP_BYTES_READ_U32_BE \<equiv> 148"
abbreviation (input) JOP_BYTES_READ_I32_LE :: nat where "JOP_BYTES_READ_I32_LE \<equiv> 149"
abbreviation (input) JOP_BYTES_READ_I32_BE :: nat where "JOP_BYTES_READ_I32_BE \<equiv> 150"
abbreviation (input) JOP_BYTES_READ_F32_LE :: nat where "JOP_BYTES_READ_F32_LE \<equiv> 151"
abbreviation (input) JOP_BYTES_READ_F32_BE :: nat where "JOP_BYTES_READ_F32_BE \<equiv> 152"
abbreviation (input) JOP_BYTES_WRITE_U16_LE :: nat where "JOP_BYTES_WRITE_U16_LE \<equiv> 153"
abbreviation (input) JOP_BYTES_WRITE_U16_BE :: nat where "JOP_BYTES_WRITE_U16_BE \<equiv> 154"
abbreviation (input) JOP_BYTES_WRITE_U32_LE :: nat where "JOP_BYTES_WRITE_U32_LE \<equiv> 155"
abbreviation (input) JOP_BYTES_WRITE_U32_BE :: nat where "JOP_BYTES_WRITE_U32_BE \<equiv> 156"
abbreviation (input) JOP_BYTES_WRITE_I32_LE :: nat where "JOP_BYTES_WRITE_I32_LE \<equiv> 157"
abbreviation (input) JOP_BYTES_WRITE_I32_BE :: nat where "JOP_BYTES_WRITE_I32_BE \<equiv> 158"
abbreviation (input) JOP_BYTES_WRITE_F32_LE :: nat where "JOP_BYTES_WRITE_F32_LE \<equiv> 159"
abbreviation (input) JOP_BYTES_WRITE_F32_BE :: nat where "JOP_BYTES_WRITE_F32_BE \<equiv> 160"
abbreviation (input) JOP_BYTES_EQ :: nat where "JOP_BYTES_EQ \<equiv> 161"

definition JOP_COUNT :: nat where "JOP_COUNT = JOP_BYTES_EQ + 1"

definition JELLO_NATIVE_BUILTIN_COUNT :: u32 where "JELLO_NATIVE_BUILTIN_COUNT = 47"

section \<open>Instructions, functions and modules\<close>

record jello_insn =
  i_op :: u8
  i_a :: u8
  i_b :: u8
  i_c :: u8
  i_imm :: u32

abbreviation i_opc :: "jello_insn \<Rightarrow> nat" where
  "i_opc ins \<equiv> unat (i_op ins)"

record jello_bc_function =
  f_nregs :: u32
  f_cap_start :: u32
  f_reg_types :: "u32 list"
  f_ninsns :: u32
  f_insns :: "jello_insn list"
  f_source_file :: u16
  f_lines :: "u32 list"
  f_nlines :: u32

definition JELLO_BC_MAGIC :: u32 where "JELLO_BC_MAGIC = 0x4A4C5942"

definition JELLO_BC_FEAT_CONST64 :: u32 where "JELLO_BC_FEAT_CONST64 = 1"
definition JELLO_BC_FEAT_CONSTBYTES :: u32 where "JELLO_BC_FEAT_CONSTBYTES = 2"
definition JELLO_BC_FEAT_CAP_START :: u32 where "JELLO_BC_FEAT_CAP_START = 4"
definition JELLO_BC_FEAT_LINE_TABLE :: u32 where "JELLO_BC_FEAT_LINE_TABLE = 8"
definition JELLO_BC_FEAT_LINE_COL :: u32 where "JELLO_BC_FEAT_LINE_COL = 16"

definition has_feat :: "u32 \<Rightarrow> u32 \<Rightarrow> bool" where
  "has_feat features flag \<longleftrightarrow> features AND flag \<noteq> 0"

text \<open>Atoms and source file names are the byte strings stored in the module, without the
  terminating NUL the loader appends.\<close>

record jello_bc_module =
  m_version :: u32
  m_features :: u32
  m_ntypes :: u32
  m_types :: "jello_type_entry list"
  m_nsigs :: u32
  m_sigs :: "jello_fun_sig list"
  m_natoms :: u32
  m_atoms :: "u8 list list"
  m_proto_enabled :: bool
  m_nconst_i64 :: u32
  m_const_i64 :: "u64 list"
  m_nconst_f64 :: u32
  m_const_f64 :: "u64 list"
  m_nconst_bytes :: u32
  m_const_bytes_len :: "u32 list"
  m_const_bytes_off :: "u32 list"
  m_const_bytes_data :: "u8 list"
  m_nfuncs :: u32
  m_funcs :: "jello_bc_function list"
  m_entry :: u32
  m_nsource_files :: u32
  m_source_files :: "u8 list list"

text \<open>What \<^verbatim>\<open>calloc(1, sizeof(jello_bc_module))\<close> gives.\<close>

definition zero_module :: jello_bc_module where
  "zero_module =
     \<lparr>m_version = 0, m_features = 0, m_ntypes = 0, m_types = [], m_nsigs = 0, m_sigs = [],
      m_natoms = 0, m_atoms = [], m_proto_enabled = False, m_nconst_i64 = 0, m_const_i64 = [],
      m_nconst_f64 = 0, m_const_f64 = [], m_nconst_bytes = 0, m_const_bytes_len = [],
      m_const_bytes_off = [], m_const_bytes_data = [], m_nfuncs = 0, m_funcs = [], m_entry = 0,
      m_nsource_files = 0, m_source_files = []\<rparr>"

section \<open>Loader results\<close>

datatype jello_bc_error =
    JELLO_BC_EOF | JELLO_BC_BAD_MAGIC | JELLO_BC_UNSUPPORTED_VERSION | JELLO_BC_BAD_FORMAT
  | JELLO_BC_OUT_OF_MEMORY
  | MEMORY_FAULT \<comment> \<open>an out-of-range array access: undefined behaviour in C, no error code\<close>
  | NO_RETURN \<comment> \<open>a loop that never ends: no error code either\<close>

text \<open>A \<^verbatim>\<open>jello_bc_result\<close> with \<^verbatim>\<open>err != JELLO_BC_OK\<close>.\<close>

datatype bc_fail = BcFail (fail_err: jello_bc_error) (fail_msg: string) (fail_off: nat)

type_synonym bc_check = "bc_fail + unit"

definition ok :: bc_check where "ok = Inr ()"

definition err :: "jello_bc_error \<Rightarrow> string \<Rightarrow> nat \<Rightarrow> bc_fail + 'a" where
  "err e msg off = Inl (BcFail e msg off)"

lemma err_not_Inr [simp]: "err e msg off \<noteq> Inr x" "err e msg off \<noteq> ok"
  by (simp_all add: err_def ok_def)

lemma ok_simps [simp]: "rbind ok f = f ()" "Inl e \<noteq> ok" "ok \<noteq> Inl e"
  by (simp_all add: ok_def)

lemma rbind_ok_iff [simp]: "rbind r f = ok \<longleftrightarrow> r = ok \<and> f () = ok" for r :: bc_check
  by (auto simp: rbind_def ok_def split: sum.splits)

lemma case_ok [simp]: "(case ok of Inl e \<Rightarrow> f e | Inr u \<Rightarrow> g u) = g ()"
  by (simp add: ok_def)

lemma Inr_unit_ok [simp]: "(Inr u :: bc_check) = ok"
  by (simp add: ok_def)

end
