(* ===== verification/Jello_Check.thy ===== *)
theory Jello_Check
  imports Jello_Bytecode
begin

text \<open>
  The bytecode verifier of \<^verbatim>\<open>src/bytecode/check.c\<close>. \<open>jello_bc_validate_insn\<close> is one C
  \<^verbatim>\<open>switch\<close> over the opcode; it is modelled as a chain of functions, one per block of the
  switch in the order of the source, each of which passes an opcode that is not its own to its
  last argument. \<open>chk c msg k\<close> is \<^verbatim>\<open>if(c) return err(JELLO_BC_BAD_FORMAT, msg, 0);\<close> followed by \<open>k\<close>.
  32-bit quantities are words: the signed additions of the jump-target checks wrap around.

  The lemmas show what acceptance means for the interpreter: every register operand is below
  \<open>nregs\<close>, every jump target is at most \<open>ninsns\<close>, case tables are complete and their targets in
  range, and the \<^verbatim>\<open>try\<close> stack is balanced.
\<close>

section \<open>Helpers\<close>

definition chk :: "bool \<Rightarrow> string \<Rightarrow> bc_check \<Rightarrow> bc_check" where
  "chk c msg k = (if c then err JELLO_BC_BAD_FORMAT msg 0 else k)"

lemma chk_ok [simp]: "chk c msg k = ok \<longleftrightarrow> \<not> c \<and> k = ok"
  by (simp add: chk_def)

definition slot_size :: "jello_bc_module \<Rightarrow> u32 \<Rightarrow> nat" where
  "slot_size m tid = jello_slot_size (te_kind (m_types m ! unat tid))"

definition rk :: "jello_bc_module \<Rightarrow> u32 list \<Rightarrow> u8 \<Rightarrow> jello_type_kind" where
  "rk m reg_types r = te_kind (m_types m ! unat (reg_types ! unat r))"

definition is_enum_reg :: "jello_bc_module \<Rightarrow> u32 list \<Rightarrow> u8 \<Rightarrow> bool" where
  "is_enum_reg m reg_types r =
     (let tid = reg_types ! unat r; k = te_kind (m_types m ! unat tid) in
      k = JELLO_T_ENUM \<or> (k = JELLO_T_ABSTRACT \<and> te_as (m_types m ! unat tid) = 1))"

text \<open>\<open>oor nregs r\<close> is \<^verbatim>\<open>r >= nregs\<close> for a register operand; \<open>not_small k\<close> is the recurring test
  \<^verbatim>\<open>k != I8 && k != I16 && k != I32\<close>; \<open>elem_of m tid\<close> is \<^verbatim>\<open>m->types[tid].as.unary.elem\<close>.\<close>

definition oor :: "u32 \<Rightarrow> u8 \<Rightarrow> bool" where
  "oor nregs r \<longleftrightarrow> nregs \<le> ucast r"

definition not_small :: "jello_type_kind \<Rightarrow> bool" where
  "not_small k \<longleftrightarrow> k \<noteq> JELLO_T_I8 \<and> k \<noteq> JELLO_T_I16 \<and> k \<noteq> JELLO_T_I32"

definition elem_of :: "jello_bc_module \<Rightarrow> u32 \<Rightarrow> u32" where
  "elem_of m tid = te_as (m_types m ! unat tid)"

text \<open>\<^verbatim>\<open>int32_t tgt = (int32_t)(base) + d; tgt < 0 || tgt > (int32_t)ninsns\<close>\<close>

definition bad_target :: "u32 \<Rightarrow> u32 \<Rightarrow> u32 \<Rightarrow> bool" where
  "bad_target base d ninsns =
     (let tgt = sint (base + d) in tgt < 0 \<or> sint ninsns < tgt)"

section \<open>The blocks of the opcode switch\<close>

definition validate_control ::
  "jello_bc_module \<Rightarrow> u32 list \<Rightarrow> jello_insn \<Rightarrow> u32 \<Rightarrow> u32 \<Rightarrow> u32 \<Rightarrow> bc_check \<Rightarrow> bc_check" where
  "validate_control m reg_types ins nregs pc ninsns k =
     (let a = i_a ins; b = i_b ins; c = i_c ins; op = i_opc ins in
      if op = JOP_NOP then ok
      else if op = JOP_RET then
        chk (oor nregs a) ''ret reg out of range'' ok
      else if op = JOP_MOV then
        chk (oor nregs a \<or> oor nregs b) ''mov reg out of range''
        (if reg_types ! unat a \<noteq> reg_types ! unat b then
           (let ka = rk m reg_types a; kb = rk m reg_types b;
                sa = slot_size m (reg_types ! unat a); sb = slot_size m (reg_types ! unat b) in
            if ka = kb then ok
            else if sa = sb \<and> 0 < sa then ok
            else err JELLO_BC_BAD_FORMAT ''mov type mismatch'' 0)
         else ok)
      else if op = JOP_JMP then
        chk (bad_target (pc + 1) (i_imm ins) ninsns) ''jmp target out of range'' ok
      else if op = JOP_JMP_IF then
        chk (oor nregs a) ''jmp_if cond reg out of range''
        (chk (rk m reg_types a \<noteq> JELLO_T_BOOL) ''jmp_if cond must be bool''
        (chk (bad_target (pc + 1) (i_imm ins) ninsns) ''jmp_if target out of range'' ok))
      else if op = JOP_ASSERT then
        chk (oor nregs a) ''assert cond reg out of range''
        (chk (rk m reg_types a \<noteq> JELLO_T_BOOL) ''assert cond must be bool''
        (chk (1 < c) ''assert c must be 0/1 (location msg flag)''
        (if c = 1 then
           chk (oor nregs b) ''assert msg reg out of range''
           (chk (rk m reg_types b \<noteq> JELLO_T_BYTES) ''assert msg must be Bytes'' ok)
         else chk (b \<noteq> 0) ''assert b must be 0 when c is 0'' ok)))
      else if op = JOP_TRY then
        chk (oor nregs a) ''try reg out of range''
        (chk (rk m reg_types a \<noteq> JELLO_T_DYNAMIC) ''try dst must be Dynamic''
        (chk (1 < b) ''try b must be 0/1 (trap_only flag)''
        (chk (bad_target (pc + 1) (i_imm ins) ninsns) ''try catch target out of range'' ok)))
      else if op = JOP_ENDTRY then ok
      else if op = JOP_THROW then
        chk (oor nregs a) ''throw reg out of range''
        (chk (rk m reg_types a \<noteq> JELLO_T_DYNAMIC) ''throw payload must be Dynamic'' ok)
      else k)"

definition validate_calls ::
  "jello_bc_module \<Rightarrow> u32 list \<Rightarrow> jello_insn \<Rightarrow> u32 \<Rightarrow> u32 \<Rightarrow> bc_check \<Rightarrow> bc_check" where
  "validate_calls m reg_types ins nregs nfuncs k =
     (let a = i_a ins; b = i_b ins; c = i_c ins; op = i_opc ins; imm = i_imm ins;
          nargs = ucast c :: u32 in
      if op = JOP_CLOSURE then
        chk (oor nregs a \<or> oor nregs b) ''closure reg out of range''
        (chk (rk m reg_types a \<noteq> JELLO_T_FUNCTION) ''closure dst must be function''
        (chk (JELLO_NATIVE_BUILTIN_COUNT + nfuncs \<le> imm) ''closure func index out of range''
        (chk (nregs < ucast b + nargs) ''closure capture range out of range'' ok)))
      else if op = JOP_BIND_THIS then
        chk (oor nregs a \<or> oor nregs b \<or> oor nregs c) ''bind_this reg out of range''
        (chk (rk m reg_types a \<noteq> JELLO_T_FUNCTION \<or> rk m reg_types b \<noteq> JELLO_T_FUNCTION)
          ''bind_this requires function regs'' ok)
      else if op = JOP_CALL then
        chk (oor nregs a \<or> oor nregs b) ''call reg out of range''
        (chk (JELLO_NATIVE_BUILTIN_COUNT + nfuncs \<le> imm) ''call func index out of range''
        (chk (nregs < ucast b + nargs) ''call arg range out of range'' ok))
      else if op = JOP_CALLR then
        chk (oor nregs a \<or> oor nregs b) ''callr reg out of range''
        (chk (rk m reg_types b \<noteq> JELLO_T_FUNCTION) ''callr callee must be function''
        (chk (nregs \<le> imm) ''callr arg base out of range''
        (chk (nregs < imm + nargs) ''callr arg range out of range'' ok)))
      else if op = JOP_TAILCALL then
        chk (oor nregs a \<or> oor nregs b) ''tailcall reg out of range''
        (chk (JELLO_NATIVE_BUILTIN_COUNT + nfuncs \<le> imm) ''tailcall func index out of range''
        (chk (nregs < ucast b + nargs) ''tailcall arg range out of range'' ok))
      else if op = JOP_TAILCALLR then
        chk (oor nregs a \<or> oor nregs b) ''tailcallr reg out of range''
        (chk (rk m reg_types b \<noteq> JELLO_T_FUNCTION) ''tailcallr callee must be function''
        (chk (nregs \<le> imm) ''tailcallr arg base out of range''
        (chk (nregs < imm + nargs) ''tailcallr arg range out of range'' ok)))
      else k)"

definition validate_consts ::
  "jello_bc_module \<Rightarrow> u32 list \<Rightarrow> jello_insn \<Rightarrow> u32 \<Rightarrow> u32 \<Rightarrow> bc_check \<Rightarrow> bc_check" where
  "validate_consts m reg_types ins nregs nfuncs k =
     (let a = i_a ins; c = i_c ins; op = i_opc ins; imm = i_imm ins; ka = rk m reg_types a in
      if op = JOP_CONST_I32 then
        chk (oor nregs a) ''const reg out of range''
        (chk (not_small ka) ''const_i32 dst must be i8/i16/i32''
        (if ka = JELLO_T_I8 then
           chk (sint imm < -128 \<or> 127 < sint imm) ''const_i32 out of range for i8'' ok
         else if ka = JELLO_T_I16 then
           chk (sint imm < -32768 \<or> 32767 < sint imm) ''const_i32 out of range for i16'' ok
         else ok))
      else if op = JOP_CONST_I8_IMM then
        chk (oor nregs a) ''const reg out of range''
        (chk (ka \<noteq> JELLO_T_I8) ''const_i8_imm dst must be i8'' ok)
      else if op = JOP_CONST_F16 then
        chk (oor nregs a) ''const reg out of range''
        (chk (ka \<noteq> JELLO_T_F16) ''const_f16 dst must be f16'' ok)
      else if op = JOP_CONST_BOOL then
        chk (oor nregs a) ''const reg out of range''
        (chk (ka \<noteq> JELLO_T_BOOL) ''const_bool dst must be bool''
        (chk (1 < c) ''const_bool imm must be 0/1'' ok))
      else if op = JOP_CONST_NULL then
        chk (oor nregs a) ''const reg out of range''
        (chk (ka \<noteq> JELLO_T_DYNAMIC) ''const_null dst must be Dynamic'' ok)
      else if op = JOP_CONST_ATOM then
        chk (oor nregs a) ''const reg out of range''
        (chk (ka \<noteq> JELLO_T_ATOM) ''const_atom dst must be atom''
        (chk (m_natoms m \<le> imm) ''const_atom atom id out of range'' ok))
      else if op = JOP_CONST_F32 then
        chk (oor nregs a) ''const reg out of range''
        (chk (ka \<noteq> JELLO_T_F32) ''const_f32 dst must be f32'' ok)
      else if op = JOP_CONST_I64 then
        chk (oor nregs a) ''const reg out of range''
        (chk (ka \<noteq> JELLO_T_I64) ''const_i64 dst must be i64''
        (chk (m_nconst_i64 m \<le> imm) ''const_i64 pool index out of range'' ok))
      else if op = JOP_CONST_F64 then
        chk (oor nregs a) ''const reg out of range''
        (chk (ka \<noteq> JELLO_T_F64) ''const_f64 dst must be f64''
        (chk (m_nconst_f64 m \<le> imm) ''const_f64 pool index out of range'' ok))
      else if op = JOP_CONST_BYTES then
        chk (oor nregs a) ''const reg out of range''
        (chk (ka \<noteq> JELLO_T_BYTES) ''const_bytes dst must be bytes''
        (chk (m_nconst_bytes m \<le> imm) ''const_bytes pool index out of range'' ok))
      else if op = JOP_CONST_FUN then
        chk (oor nregs a) ''const reg out of range''
        (chk (ka \<noteq> JELLO_T_FUNCTION) ''const_fun dst must be function''
        (chk (JELLO_NATIVE_BUILTIN_COUNT + nfuncs \<le> imm) ''const_fun func index out of range'' ok))
      else k)"

definition validate_arith ::
  "jello_bc_module \<Rightarrow> u32 list \<Rightarrow> jello_insn \<Rightarrow> u32 \<Rightarrow> bc_check \<Rightarrow> bc_check" where
  "validate_arith m reg_types ins nregs k =
     (let a = i_a ins; b = i_b ins; c = i_c ins; op = i_opc ins;
          ka = rk m reg_types a; kb = rk m reg_types b; kc = rk m reg_types c;
          all3 = (\<lambda>t. ka \<noteq> t \<or> kb \<noteq> t \<or> kc \<noteq> t);
          oor3 = (oor nregs a \<or> oor nregs b \<or> oor nregs c) in
      if op \<in> {JOP_ADD_I32, JOP_SUB_I32, JOP_MUL_I32, JOP_DIV_I32, JOP_MOD_I32, JOP_SHL_I32,
               JOP_SHR_I32, JOP_BITAND_I32, JOP_BITOR_I32, JOP_BITXOR_I32} then
        chk oor3 ''arith reg out of range''
        (chk (not_small ka \<or> not_small kb \<or> not_small kc) ''arith i8/i16/i32 types required'' ok)
      else if op \<in> {JOP_ADD_I32_IMM, JOP_SUB_I32_IMM, JOP_MUL_I32_IMM} then
        chk (oor nregs a \<or> oor nregs b) ''arith_imm reg out of range''
        (chk (not_small ka \<or> not_small kb) ''arith_imm i8/i16/i32 types required'' ok)
      else if op \<in> {JOP_ADD_I64, JOP_SUB_I64, JOP_MUL_I64, JOP_DIV_I64, JOP_MOD_I64, JOP_SHL_I64,
               JOP_SHR_I64, JOP_BITAND_I64, JOP_BITOR_I64, JOP_BITXOR_I64} then
        chk oor3 ''arith reg out of range'' (chk (all3 JELLO_T_I64) ''arith i64 types required'' ok)
      else if op \<in> {JOP_ADD_F32, JOP_SUB_F32, JOP_MUL_F32, JOP_DIV_F32} then
        chk oor3 ''arith reg out of range'' (chk (all3 JELLO_T_F32) ''arith f32 types required'' ok)
      else if op \<in> {JOP_ADD_F16, JOP_SUB_F16, JOP_MUL_F16} then
        chk oor3 ''arith reg out of range'' (chk (all3 JELLO_T_F16) ''arith f16 types required'' ok)
      else if op \<in> {JOP_ADD_F64, JOP_SUB_F64, JOP_MUL_F64, JOP_DIV_F64} then
        chk oor3 ''arith reg out of range'' (chk (all3 JELLO_T_F64) ''arith f64 types required'' ok)
      else k)"

definition validate_convs ::
  "jello_bc_module \<Rightarrow> u32 list \<Rightarrow> jello_insn \<Rightarrow> u32 \<Rightarrow> bc_check \<Rightarrow> bc_check" where
  "validate_convs m reg_types ins nregs k =
     (let a = i_a ins; b = i_b ins; op = i_opc ins;
          ka = rk m reg_types a; kb = rk m reg_types b;
          conv = (\<lambda>dst src msg. chk (oor nregs a \<or> oor nregs b) ''conv reg out of range''
                    (chk (ka \<noteq> dst \<or> kb \<noteq> src) msg ok)) in
      if op = JOP_SEXT_I64 then
        chk (oor nregs a \<or> oor nregs b) ''conv reg out of range''
        (chk (ka \<noteq> JELLO_T_I64) ''sext_i64 dst must be i64''
        (chk (not_small kb) ''sext_i64 src must be i8/i16/i32'' ok))
      else if op = JOP_SEXT_I16 then
        conv JELLO_T_I16 JELLO_T_I8 ''sext_i16 dst must be i16, src i8''
      else if op = JOP_TRUNC_I8 then
        chk (oor nregs a \<or> oor nregs b) ''conv reg out of range''
        (chk (ka \<noteq> JELLO_T_I8) ''trunc_i8 dst must be i8''
        (chk (kb \<noteq> JELLO_T_I16 \<and> kb \<noteq> JELLO_T_I32) ''trunc_i8 src must be i16 or i32'' ok))
      else if op = JOP_TRUNC_I16 then
        conv JELLO_T_I16 JELLO_T_I32 ''trunc_i16 dst must be i16, src i32''
      else if op = JOP_I32_FROM_I64 then conv JELLO_T_I32 JELLO_T_I64 ''i32_from_i64 types required''
      else if op = JOP_F64_FROM_I32 then conv JELLO_T_F64 JELLO_T_I32 ''f64_from_i32 types required''
      else if op = JOP_I32_FROM_F64 then conv JELLO_T_I32 JELLO_T_F64 ''i32_from_f64 types required''
      else if op = JOP_F64_FROM_I64 then conv JELLO_T_F64 JELLO_T_I64 ''f64_from_i64 types required''
      else if op = JOP_I64_FROM_F64 then conv JELLO_T_I64 JELLO_T_F64 ''i64_from_f64 types required''
      else if op = JOP_F32_FROM_I32 then conv JELLO_T_F32 JELLO_T_I32 ''f32_from_i32 types required''
      else if op = JOP_I32_FROM_F32 then conv JELLO_T_I32 JELLO_T_F32 ''i32_from_f32 types required''
      else if op = JOP_F64_FROM_F32 then conv JELLO_T_F64 JELLO_T_F32 ''f64_from_f32 types required''
      else if op = JOP_F32_FROM_F64 then conv JELLO_T_F32 JELLO_T_F64 ''f32_from_f64 types required''
      else if op = JOP_F16_FROM_F32 then conv JELLO_T_F16 JELLO_T_F32 ''f16_from_f32 types required''
      else if op = JOP_F32_FROM_F16 then conv JELLO_T_F32 JELLO_T_F16 ''f32_from_f16 types required''
      else if op = JOP_F16_FROM_I32 then conv JELLO_T_F16 JELLO_T_I32 ''f16_from_i32 types required''
      else if op = JOP_I32_FROM_F16 then conv JELLO_T_I32 JELLO_T_F16 ''i32_from_f16 types required''
      else if op = JOP_F32_FROM_I64 then conv JELLO_T_F32 JELLO_T_I64 ''f32_from_i64 types required''
      else if op = JOP_I64_FROM_F32 then conv JELLO_T_I64 JELLO_T_F32 ''i64_from_f32 types required''
      else k)"

definition validate_cmps ::
  "jello_bc_module \<Rightarrow> u32 list \<Rightarrow> jello_insn \<Rightarrow> u32 \<Rightarrow> bc_check \<Rightarrow> bc_check" where
  "validate_cmps m reg_types ins nregs k =
     (let a = i_a ins; b = i_b ins; c = i_c ins; op = i_opc ins;
          ka = rk m reg_types a; kb = rk m reg_types b; kc = rk m reg_types c;
          oor3 = (oor nregs a \<or> oor nregs b \<or> oor nregs c);
          cmp = (\<lambda>t msg_r msg_t. chk oor3 msg_r
                   (chk (ka \<noteq> JELLO_T_BOOL \<or> kb \<noteq> t \<or> kc \<noteq> t) msg_t ok)) in
      if op = JOP_EQ_I32 then
        chk oor3 ''eq reg out of range''
        (chk (ka \<noteq> JELLO_T_BOOL) ''eq_i32 dst must be bool''
        (chk (not_small kb \<or> not_small kc) ''eq_i32 operands must be i8/i16/i32'' ok))
      else if op \<in> {JOP_EQ_I32_IMM, JOP_LT_I32_IMM} then
        chk (oor nregs a \<or> oor nregs b) ''eq/lt_imm reg out of range''
        (chk (ka \<noteq> JELLO_T_BOOL) ''eq/lt_imm dst must be bool''
        (chk (not_small kb) ''eq/lt_imm src must be i8/i16/i32'' ok))
      else if op = JOP_EQ_I64 then cmp JELLO_T_I64 ''eq reg out of range'' ''eq_i64 types required''
      else if op = JOP_LT_I64 then cmp JELLO_T_I64 ''lt reg out of range'' ''lt_i64 types required''
      else if op = JOP_EQ_F32 then cmp JELLO_T_F32 ''eq reg out of range'' ''eq_f32 types required''
      else if op = JOP_LT_F32 then cmp JELLO_T_F32 ''lt reg out of range'' ''lt_f32 types required''
      else if op = JOP_EQ_F64 then cmp JELLO_T_F64 ''eq reg out of range'' ''eq_f64 types required''
      else if op = JOP_LT_F64 then cmp JELLO_T_F64 ''lt reg out of range'' ''lt_f64 types required''
      else k)"
definition validate_dyn ::
  "jello_bc_module \<Rightarrow> u32 list \<Rightarrow> jello_insn \<Rightarrow> u32 \<Rightarrow> bc_check \<Rightarrow> bc_check" where
  "validate_dyn m reg_types ins nregs k =
     (let a = i_a ins; b = i_b ins; op = i_opc ins;
          ka = rk m reg_types a; kb = rk m reg_types b;
          oor2 = (oor nregs a \<or> oor nregs b);
          from_dyn = (\<lambda>t msg. chk (oor nregs a \<or> oor nregs b) ''dyn conv reg out of range''
                        (chk (kb \<noteq> JELLO_T_DYNAMIC \<or> ka \<noteq> t) msg ok)) in
      if op = JOP_TO_DYN then
        chk oor2 ''dyn conv reg out of range''
        (chk (ka \<noteq> JELLO_T_DYNAMIC) ''to_dyn dst must be Dynamic'' ok)
      else if op = JOP_FROM_DYN_I8 then from_dyn JELLO_T_I8 ''from_dyn_i8 types required''
      else if op = JOP_FROM_DYN_I16 then from_dyn JELLO_T_I16 ''from_dyn_i16 types required''
      else if op = JOP_FROM_DYN_I32 then from_dyn JELLO_T_I32 ''from_dyn_i32 types required''
      else if op = JOP_FROM_DYN_I64 then from_dyn JELLO_T_I64 ''from_dyn_i64 types required''
      else if op = JOP_FROM_DYN_F16 then from_dyn JELLO_T_F16 ''from_dyn_f16 types required''
      else if op = JOP_FROM_DYN_F32 then from_dyn JELLO_T_F32 ''from_dyn_f32 types required''
      else if op = JOP_FROM_DYN_F64 then from_dyn JELLO_T_F64 ''from_dyn_f64 types required''
      else if op = JOP_FROM_DYN_BOOL then from_dyn JELLO_T_BOOL ''from_dyn_bool types required''
      else if op = JOP_FROM_DYN_ATOM then from_dyn JELLO_T_ATOM ''from_dyn_atom types required''
      else if op = JOP_FROM_DYN_PTR then
        chk oor2 ''dyn conv reg out of range''
        (chk (kb \<noteq> JELLO_T_DYNAMIC) ''from_dyn_ptr src must be Dynamic''
        (chk (ka \<notin> {JELLO_T_BYTES, JELLO_T_FUNCTION, JELLO_T_LIST, JELLO_T_ARRAY, JELLO_T_OBJECT,
                     JELLO_T_ABSTRACT, JELLO_T_ENUM}) ''from_dyn_ptr dst must be pointer-kind'' ok))
      else if op = JOP_SPILL_PUSH then
        chk (oor nregs a) ''spill push reg out of range'' ok
      else if op = JOP_SPILL_POP then
        chk (oor nregs a) ''spill pop reg out of range'' ok
      else k)"

definition validate_unary ::
  "jello_bc_module \<Rightarrow> u32 list \<Rightarrow> jello_insn \<Rightarrow> u32 \<Rightarrow> u32 \<Rightarrow> u32 \<Rightarrow> bc_check \<Rightarrow> bc_check" where
  "validate_unary m reg_types ins nregs pc ninsns k =
     (let a = i_a ins; b = i_b ins; c = i_c ins; op = i_opc ins;
          ka = rk m reg_types a; kb = rk m reg_types b; kc = rk m reg_types c;
          oor2 = (oor nregs a \<or> oor nregs b);
          oor3 = (oor nregs a \<or> oor nregs b \<or> oor nregs c) in
      if op = JOP_NEG_I32 then
        chk oor2 ''neg reg out of range''
        (chk (not_small ka \<or> not_small kb) ''neg_i32 types must be i8/i16/i32'' ok)
      else if op = JOP_NEG_I64 then
        chk oor2 ''neg reg out of range''
        (chk (ka \<noteq> JELLO_T_I64 \<or> kb \<noteq> JELLO_T_I64) ''neg_i64 types required'' ok)
      else if op = JOP_NEG_F32 then
        chk oor2 ''neg reg out of range''
        (chk (ka \<noteq> JELLO_T_F32 \<or> kb \<noteq> JELLO_T_F32) ''neg_f32 types required'' ok)
      else if op = JOP_NEG_F64 then
        chk oor2 ''neg reg out of range''
        (chk (ka \<noteq> JELLO_T_F64 \<or> kb \<noteq> JELLO_T_F64) ''neg_f64 types required'' ok)
      else if op = JOP_NOT_BOOL then
        chk oor2 ''not reg out of range''
        (chk (ka \<noteq> JELLO_T_BOOL \<or> kb \<noteq> JELLO_T_BOOL) ''not_bool types required'' ok)
      else if op = JOP_PHYSEQ then
        chk oor3 ''physeq reg out of range''
        (chk (ka \<noteq> JELLO_T_BOOL) ''physeq dst must be bool'' ok)
      else if op = JOP_LT_I32 then
        chk oor3 ''lt_i32 reg out of range''
        (chk (ka \<noteq> JELLO_T_BOOL) ''lt_i32 dst must be bool''
        (chk (not_small kb \<or> not_small kc) ''lt_i32 operands must be i8/i16/i32'' ok))
      else if op = JOP_KINDOF then
        chk oor2 ''kindof reg out of range''
        (chk (ka \<noteq> JELLO_T_I32 \<or> kb \<noteq> JELLO_T_DYNAMIC) ''kindof types required'' ok)
      else if op = JOP_SWITCH_KIND then
        chk (oor nregs a) ''switch_kind reg out of range''
        (chk (ka \<noteq> JELLO_T_I32) ''switch_kind src must be i32''
        (chk (ninsns < pc + 1 + ucast b) ''switch_kind case table out of range'' ok))
      else if op = JOP_CASE_KIND then ok
      else k)"

definition validate_list_array ::
  "jello_bc_module \<Rightarrow> u32 list \<Rightarrow> jello_insn \<Rightarrow> u32 \<Rightarrow> bc_check \<Rightarrow> bc_check" where
  "validate_list_array m reg_types ins nregs k =
     (let a = i_a ins; b = i_b ins; c = i_c ins; op = i_opc ins;
          ka = rk m reg_types a; kb = rk m reg_types b; kc = rk m reg_types c;
          ta = reg_types ! unat a; tb = reg_types ! unat b; tc = reg_types ! unat c;
          oor2 = (oor nregs a \<or> oor nregs b);
          oor3 = (oor nregs a \<or> oor nregs b \<or> oor nregs c) in
      if op = JOP_LIST_NIL then
        chk (oor nregs a) ''list nil reg out of range''
        (chk (ka \<noteq> JELLO_T_LIST) ''list_nil dst must be list'' ok)
      else if op = JOP_LIST_CONS then
        chk oor3 ''list cons reg out of range''
        (chk (ka \<noteq> JELLO_T_LIST) ''list_cons dst must be list''
        (chk (kc \<noteq> JELLO_T_LIST) ''list_cons tail must be list''
        (chk (ta \<noteq> tc) ''list_cons list type mismatch''
        (chk (elem_of m ta \<noteq> tb) ''list_cons head type mismatch'' ok))))
      else if op = JOP_LIST_HEAD then
        chk oor2 ''list head reg out of range''
        (chk (kb \<noteq> JELLO_T_LIST) ''list_head src must be list''
        (chk (elem_of m tb \<noteq> ta) ''list_head dst type mismatch'' ok))
      else if op = JOP_LIST_TAIL then
        chk oor2 ''list tail reg out of range''
        (chk (ka \<noteq> JELLO_T_LIST \<or> kb \<noteq> JELLO_T_LIST) ''list_tail types required''
        (chk (ta \<noteq> tb) ''list_tail list type mismatch'' ok))
      else if op = JOP_LIST_IS_NIL then
        chk oor2 ''list is_nil reg out of range''
        (chk (ka \<noteq> JELLO_T_BOOL \<or> kb \<noteq> JELLO_T_LIST) ''list_is_nil types required'' ok)
      else if op = JOP_ARRAY_NEW then
        chk oor2 ''array new reg out of range''
        (chk (ka \<noteq> JELLO_T_ARRAY \<or> kb \<noteq> JELLO_T_I32) ''array_new types required'' ok)
      else if op = JOP_ARRAY_LEN then
        chk oor2 ''array len reg out of range''
        (chk (ka \<noteq> JELLO_T_I32 \<or> kb \<noteq> JELLO_T_ARRAY) ''array_len types required'' ok)
      else if op = JOP_ARRAY_GET then
        chk oor3 ''array get reg out of range''
        (chk (kb \<noteq> JELLO_T_ARRAY \<or> kc \<noteq> JELLO_T_I32) ''array_get types required''
        (chk (elem_of m tb \<noteq> ta) ''array_get dst type mismatch'' ok))
      else if op = JOP_ARRAY_SET then
        chk oor3 ''array set reg out of range''
        (chk (kb \<noteq> JELLO_T_ARRAY \<or> kc \<noteq> JELLO_T_I32) ''array_set types required''
        (chk (elem_of m tb \<noteq> ta) ''array_set src type mismatch'' ok))
      else k)"

definition validate_bytes ::
  "jello_bc_module \<Rightarrow> u32 list \<Rightarrow> jello_insn \<Rightarrow> u32 \<Rightarrow> bc_check \<Rightarrow> bc_check" where
  "validate_bytes m reg_types ins nregs k =
     (let a = i_a ins; b = i_b ins; c = i_c ins; op = i_opc ins;
          ka = rk m reg_types a; kb = rk m reg_types b; kc = rk m reg_types c;
          tb = reg_types ! unat b;
          oor2 = (oor nregs a \<or> oor nregs b);
          oor3 = (oor nregs a \<or> oor nregs b \<or> oor nregs c) in
      if op = JOP_BYTES_NEW then
        chk oor2 ''bytes new reg out of range''
        (chk (ka \<noteq> JELLO_T_BYTES \<or> kb \<noteq> JELLO_T_I32) ''bytes_new types required'' ok)
      else if op = JOP_BYTES_LEN then
        chk oor2 ''bytes len reg out of range''
        (chk (ka \<noteq> JELLO_T_I32 \<or> kb \<noteq> JELLO_T_BYTES) ''bytes_len types required'' ok)
      else if op = JOP_BYTES_GET_U8 then
        chk oor3 ''bytes get_u8 reg out of range''
        (chk (ka \<noteq> JELLO_T_I32 \<or> kb \<noteq> JELLO_T_BYTES \<or> kc \<noteq> JELLO_T_I32)
          ''bytes_get_u8 types required'' ok)
      else if op = JOP_BYTES_SET_U8 then
        chk oor3 ''bytes set_u8 reg out of range''
        (chk (ka \<noteq> JELLO_T_I32 \<or> kb \<noteq> JELLO_T_BYTES \<or> kc \<noteq> JELLO_T_I32)
          ''bytes_set_u8 types required'' ok)
      else if op = JOP_BYTES_CONCAT2 then
        chk oor3 ''bytes concat2 reg out of range''
        (chk (ka \<noteq> JELLO_T_BYTES \<or> kb \<noteq> JELLO_T_BYTES \<or> kc \<noteq> JELLO_T_BYTES)
          ''bytes_concat2 types required'' ok)
      else if op = JOP_BYTES_CONCAT_MANY then
        chk oor2 ''bytes concat_many reg out of range''
        (chk (ka \<noteq> JELLO_T_BYTES) ''bytes_concat_many dst must be bytes''
        (chk (kb \<noteq> JELLO_T_ARRAY) ''bytes_concat_many src must be array''
        (chk (te_kind (m_types m ! unat (elem_of m tb)) \<noteq> JELLO_T_BYTES)
          ''bytes_concat_many requires Array<bytes>'' ok)))
      else if op \<in> {JOP_BYTES_BITAND2, JOP_BYTES_BITOR2, JOP_BYTES_BITXOR2} then
        chk oor3 ''bytes bitwise2 reg out of range''
        (chk (ka \<noteq> JELLO_T_BYTES \<or> kb \<noteq> JELLO_T_BYTES \<or> kc \<noteq> JELLO_T_BYTES)
          ''bytes_bitwise2 types required'' ok)
      else if op \<in> {JOP_BYTES_READ_U16_LE, JOP_BYTES_READ_U16_BE, JOP_BYTES_READ_U32_LE,
               JOP_BYTES_READ_U32_BE, JOP_BYTES_READ_I32_LE, JOP_BYTES_READ_I32_BE} then
        chk oor3 ''bytes read reg out of range''
        (chk (ka \<noteq> JELLO_T_I32 \<or> kb \<noteq> JELLO_T_BYTES \<or> kc \<noteq> JELLO_T_I32)
          ''bytes_read types required'' ok)
      else if op \<in> {JOP_BYTES_READ_F32_LE, JOP_BYTES_READ_F32_BE} then
        chk oor3 ''bytes read reg out of range''
        (chk (ka \<noteq> JELLO_T_F32 \<or> kb \<noteq> JELLO_T_BYTES \<or> kc \<noteq> JELLO_T_I32)
          ''bytes_read_f32 types required'' ok)
      else if op \<in> {JOP_BYTES_WRITE_U16_LE, JOP_BYTES_WRITE_U16_BE, JOP_BYTES_WRITE_U32_LE,
               JOP_BYTES_WRITE_U32_BE, JOP_BYTES_WRITE_I32_LE, JOP_BYTES_WRITE_I32_BE} then
        chk oor3 ''bytes write reg out of range''
        (chk (ka \<noteq> JELLO_T_I32 \<or> kb \<noteq> JELLO_T_BYTES \<or> kc \<noteq> JELLO_T_I32)
          ''bytes_write types required'' ok)
      else if op \<in> {JOP_BYTES_WRITE_F32_LE, JOP_BYTES_WRITE_F32_BE} then
        chk oor3 ''bytes write reg out of range''
        (chk (ka \<noteq> JELLO_T_F32 \<or> kb \<noteq> JELLO_T_BYTES \<or> kc \<noteq> JELLO_T_I32)
          ''bytes_write_f32 types required'' ok)
      else if op = JOP_BYTES_EQ then
        chk oor3 ''bytes eq reg out of range''
        (chk (ka \<noteq> JELLO_T_BOOL \<or> kb \<noteq> JELLO_T_BYTES \<or> kc \<noteq> JELLO_T_BYTES)
          ''bytes_eq types required'' ok)
      else k)"

definition validate_obj ::
  "jello_bc_module \<Rightarrow> u32 list \<Rightarrow> jello_insn \<Rightarrow> u32 \<Rightarrow> bc_check \<Rightarrow> bc_check" where
  "validate_obj m reg_types ins nregs k =
     (let a = i_a ins; b = i_b ins; c = i_c ins; op = i_opc ins;
          ka = rk m reg_types a; kb = rk m reg_types b; kc = rk m reg_types c;
          ta = reg_types ! unat a;
          oor2 = (oor nregs a \<or> oor nregs b);
          oor3 = (oor nregs a \<or> oor nregs b \<or> oor nregs c) in
      if op = JOP_OBJ_NEW then
        chk (oor nregs a) ''obj new reg out of range''
        (chk (ka \<noteq> JELLO_T_OBJECT) ''obj_new dst must be object'' ok)
      else if op = JOP_OBJ_HAS_ATOM then
        chk oor2 ''obj has reg out of range''
        (chk (ka \<noteq> JELLO_T_BOOL \<or> kb \<noteq> JELLO_T_OBJECT) ''obj_has types required''
        (chk (m_natoms m \<le> i_imm ins) ''obj_has atom id out of range'' ok))
      else if op = JOP_OBJ_GET_ATOM then
        chk oor2 ''obj get reg out of range''
        (chk (kb \<noteq> JELLO_T_OBJECT) ''obj_get src must be object''
        (chk (m_natoms m \<le> i_imm ins) ''obj_get atom id out of range'' ok))
      else if op = JOP_OBJ_SET_ATOM then
        chk oor2 ''obj set reg out of range''
        (chk (kb \<noteq> JELLO_T_OBJECT) ''obj_set dst must be object''
        (chk (m_natoms m \<le> i_imm ins) ''obj_set atom id out of range'' ok))
      else if op = JOP_OBJ_GET then
        chk oor3 ''obj get reg out of range''
        (chk (kb \<noteq> JELLO_T_OBJECT) ''obj_get src must be object''
        (chk (kc \<noteq> JELLO_T_ATOM) ''obj_get key must be atom'' ok))
      else if op = JOP_OBJ_SET then
        chk oor3 ''obj set reg out of range''
        (chk (kb \<noteq> JELLO_T_OBJECT) ''obj_set dst must be object''
        (chk (kc \<noteq> JELLO_T_ATOM) ''obj_set key must be atom'' ok))
      else if op = JOP_OBJ_HAS then
        chk oor3 ''obj has reg out of range''
        (chk (ka \<noteq> JELLO_T_BOOL) ''obj_has dst must be bool''
        (chk (kb \<noteq> JELLO_T_OBJECT) ''obj_has src must be object''
        (chk (kc \<noteq> JELLO_T_ATOM) ''obj_has key must be atom'' ok)))
      else if op = JOP_OBJ_REMOVE then
        chk oor3 ''obj remove reg out of range''
        (chk (ka \<noteq> JELLO_T_BOOL) ''obj_remove dst must be bool''
        (chk (kb \<noteq> JELLO_T_OBJECT) ''obj_remove src must be object''
        (chk (kc \<noteq> JELLO_T_ATOM) ''obj_remove key must be atom'' ok)))
      else if op = JOP_OBJ_CLEAR then
        chk (oor nregs b) ''obj clear reg out of range''
        (chk (kb \<noteq> JELLO_T_OBJECT) ''obj_clear src must be object'' ok)
      else if op = JOP_OBJ_COPY then
        chk oor2 ''obj copy reg out of range''
        (chk (ka \<noteq> JELLO_T_OBJECT) ''obj_copy dst must be object''
        (chk (kb \<noteq> JELLO_T_OBJECT) ''obj_copy src must be object'' ok))
      else if op = JOP_OBJ_KEYS then
        chk oor2 ''obj keys reg out of range''
        (chk (kb \<noteq> JELLO_T_OBJECT) ''obj_keys src must be object''
        (chk (ka \<noteq> JELLO_T_LIST) ''obj_keys dst must be list''
        (chk (m_ntypes m \<le> elem_of m ta \<or> te_kind (m_types m ! unat (elem_of m ta)) \<noteq> JELLO_T_ATOM)
          ''obj_keys list elem must be atom'' ok)))
      else k)"

definition validate_array_enum ::
  "jello_bc_module \<Rightarrow> u32 list \<Rightarrow> jello_insn \<Rightarrow> u32 \<Rightarrow> bc_check \<Rightarrow> bc_check" where
  "validate_array_enum m reg_types ins nregs k =
     (let a = i_a ins; b = i_b ins; c = i_c ins; op = i_opc ins;
          ka = rk m reg_types a; kb = rk m reg_types b; kc = rk m reg_types c;
          ta = reg_types ! unat a; tb = reg_types ! unat b; tc = reg_types ! unat c;
          oor2 = (oor nregs a \<or> oor nregs b);
          oor3 = (oor nregs a \<or> oor nregs b \<or> oor nregs c) in
      if op = JOP_ARRAY_CONCAT2 then
        chk oor3 ''array concat2 reg out of range''
        (chk (ka \<noteq> JELLO_T_ARRAY \<or> kb \<noteq> JELLO_T_ARRAY \<or> kc \<noteq> JELLO_T_ARRAY)
          ''array_concat2 types required''
        (chk (ta \<noteq> tb \<or> ta \<noteq> tc) ''array_concat2 type mismatch'' ok))
      else if op = JOP_ARRAY_RESIZE then
        chk (oor nregs b \<or> oor nregs c) ''array resize reg out of range''
        (chk (kb \<noteq> JELLO_T_ARRAY) ''array_resize array type required''
        (chk (kc \<noteq> JELLO_T_I32) ''array_resize len must be i32'' ok))
      else if op = JOP_ENUM_NEW then
        chk (oor nregs a) ''enum_new reg out of range''
        (chk (ka \<noteq> JELLO_T_ENUM) ''enum_new dst must be enum''
        (let nfields = ucast c :: u32 in
         if nfields \<noteq> 0 then
           chk (nregs \<le> ucast b + nfields - 1) ''enum_new field reg out of range'' ok
         else ok))
      else if op = JOP_ENUM_TAG then
        chk oor2 ''enum_tag reg out of range''
        (chk (ka \<noteq> JELLO_T_I32 \<or> \<not> is_enum_reg m reg_types b) ''enum_tag types required'' ok)
      else if op = JOP_ENUM_GET then
        chk oor3 ''enum_get reg out of range''
        (chk (\<not> is_enum_reg m reg_types b \<or> kc \<noteq> JELLO_T_I32) ''enum_get types required'' ok)
      else k)"

definition jello_bc_validate_insn ::
  "jello_bc_module \<Rightarrow> u32 list \<Rightarrow> jello_insn \<Rightarrow> u32 \<Rightarrow> u32 \<Rightarrow> u32 \<Rightarrow> u32 \<Rightarrow> bc_check" where
  "jello_bc_validate_insn m reg_types ins nregs pc ninsns nfuncs =
     validate_control m reg_types ins nregs pc ninsns
     (validate_calls m reg_types ins nregs nfuncs
     (validate_consts m reg_types ins nregs nfuncs
     (validate_arith m reg_types ins nregs
     (validate_convs m reg_types ins nregs
     (validate_cmps m reg_types ins nregs
     (validate_dyn m reg_types ins nregs
     (validate_unary m reg_types ins nregs pc ninsns
     (validate_list_array m reg_types ins nregs
     (validate_bytes m reg_types ins nregs
     (validate_obj m reg_types ins nregs
     (validate_array_enum m reg_types ins nregs
       (err JELLO_BC_BAD_FORMAT ''unknown opcode'' 0))))))))))))"

section \<open>Whole-function checks\<close>

text \<open>The inner loop over the \<^verbatim>\<open>case_kind\<close> entries: \<open>i\<close> counts up to \<open>ncases\<close>.\<close>

function check_case_entries ::
  "jello_insn list \<Rightarrow> u32 \<Rightarrow> u32 \<Rightarrow> u32 \<Rightarrow> nat \<Rightarrow> nat \<Rightarrow> bc_check" where
  "check_case_entries insns table_first table_end ninsns i ncases =
     (if i < ncases then
        (let ci = insns ! unat (table_first + of_nat i) in
         chk (i_opc ci \<noteq> JOP_CASE_KIND) ''switch_kind expects case_kind entries''
         (chk (bad_target table_end (i_imm ci) ninsns) ''case_kind target out of range''
         (check_case_entries insns table_first table_end ninsns (i + 1) ncases)))
      else ok)"
  by pat_completeness auto
termination by (relation "measure (\<lambda>(_, _, _, _, i, ncases). ncases - i)") auto

declare check_case_entries.simps [simp del]

text \<open>The outer loop. After a table it jumps to \<open>table_end\<close>, a 32-bit sum: the loop only makes
  progress while that sum does not wrap around, so it is a partial function, and \<open>None\<close> stands
  for a loop that never ends.\<close>

partial_function (option) switch_tables_from ::
  "jello_insn list \<Rightarrow> u32 \<Rightarrow> u32 \<Rightarrow> bc_check option" where
  "switch_tables_from insns ninsns pc =
     (if pc < ninsns then
        (let ins = insns ! unat pc in
         if i_opc ins = JOP_SWITCH_KIND then
           (let ncases = ucast (i_b ins) :: u32; table_first = pc + 1;
                table_end = table_first + ncases in
            if ninsns < table_end then
              Some (err JELLO_BC_BAD_FORMAT ''switch_kind case table out of range'' 0)
            else if bad_target table_end (i_imm ins) ninsns then
              Some (err JELLO_BC_BAD_FORMAT ''switch_kind default target out of range'' 0)
            else
              (case check_case_entries insns table_first table_end ninsns 0 (unat ncases) of
                 Inl e \<Rightarrow> Some (Inl e)
               | Inr _ \<Rightarrow> switch_tables_from insns ninsns table_end))
         else if i_opc ins = JOP_CASE_KIND then
           Some (err JELLO_BC_BAD_FORMAT ''case_kind without switch_kind'' 0)
         else switch_tables_from insns ninsns (pc + 1))
      else Some ok)"

declare switch_tables_from.simps [code]

definition validate_switch_kind_tables :: "jello_insn list \<Rightarrow> u32 \<Rightarrow> bc_check option" where
  "validate_switch_kind_tables insns ninsns = switch_tables_from insns ninsns 0"

text \<open>\<open>depth\<close> counts at most \<open>ninsns\<close> entries, so its 32 bits cannot overflow: it is a \<^typ>\<open>nat\<close>.\<close>

fun try_stack_from :: "jello_insn list \<Rightarrow> nat \<Rightarrow> bc_check" where
  "try_stack_from [] depth = chk (depth \<noteq> 0) ''unterminated try (linear)'' ok"
| "try_stack_from (ins # rest) depth =
     (if i_opc ins = JOP_TRY then try_stack_from rest (depth + 1)
      else if i_opc ins = JOP_ENDTRY then
        chk (depth = 0) ''endtry without try (linear)'' (try_stack_from rest (depth - 1))
      else try_stack_from rest depth)"

definition validate_try_stack_linear :: "jello_insn list \<Rightarrow> u32 \<Rightarrow> bc_check" where
  "validate_try_stack_linear insns ninsns = try_stack_from (take (unat ninsns) insns) 0"

definition jello_bc_validate_function_semantics :: "jello_insn list \<Rightarrow> u32 \<Rightarrow> bc_check option" where
  "jello_bc_validate_function_semantics insns ninsns =
     (case validate_switch_kind_tables insns ninsns of
        None \<Rightarrow> None
      | Some r \<Rightarrow> Some (rbind r (\<lambda>_. validate_try_stack_linear insns ninsns)))"

section \<open>What acceptance means\<close>

subsection \<open>Register operands\<close>

text \<open>The registers an instruction reads or writes when the interpreter executes it, the
  contiguous argument ranges of calls, closures and enum constructors included.\<close>

definition regs_of :: "nat \<Rightarrow> nat \<Rightarrow> nat \<Rightarrow> nat \<Rightarrow> nat \<Rightarrow> nat list" where
  "regs_of op a b c imm =
     (if op \<in> {JOP_NOP, JOP_JMP, JOP_ENDTRY, JOP_CASE_KIND} then []
      else if op \<in> {JOP_RET, JOP_JMP_IF, JOP_TRY, JOP_THROW, JOP_SPILL_PUSH, JOP_SPILL_POP,
                     JOP_SWITCH_KIND, JOP_LIST_NIL, JOP_OBJ_NEW, JOP_CONST_I32, JOP_CONST_I8_IMM,
                     JOP_CONST_F16, JOP_CONST_BOOL, JOP_CONST_NULL, JOP_CONST_ATOM, JOP_CONST_F32,
                     JOP_CONST_I64, JOP_CONST_F64, JOP_CONST_BYTES, JOP_CONST_FUN} then [a]
      else if op = JOP_ASSERT then (if c = 1 then [a, b] else [a])
      else if op = JOP_OBJ_CLEAR then [b]
      else if op = JOP_ARRAY_RESIZE then [b, c]
      else if op \<in> {JOP_CALL, JOP_TAILCALL, JOP_CLOSURE, JOP_ENUM_NEW} then a # [b..<b + c]
      else if op \<in> {JOP_CALLR, JOP_TAILCALLR} then a # b # [imm..<imm + c]
      else if op \<in> {JOP_MOV, JOP_ADD_I32_IMM, JOP_SUB_I32_IMM, JOP_MUL_I32_IMM, JOP_SEXT_I64,
                     JOP_SEXT_I16, JOP_TRUNC_I8, JOP_TRUNC_I16, JOP_I32_FROM_I64, JOP_F64_FROM_I32,
                     JOP_I32_FROM_F64, JOP_F64_FROM_I64, JOP_I64_FROM_F64, JOP_F32_FROM_I32,
                     JOP_I32_FROM_F32, JOP_F64_FROM_F32, JOP_F32_FROM_F64, JOP_F16_FROM_F32,
                     JOP_F32_FROM_F16, JOP_F16_FROM_I32, JOP_I32_FROM_F16, JOP_F32_FROM_I64,
                     JOP_I64_FROM_F32, JOP_EQ_I32_IMM, JOP_LT_I32_IMM, JOP_TO_DYN, JOP_FROM_DYN_I8,
                     JOP_FROM_DYN_I16, JOP_FROM_DYN_I32, JOP_FROM_DYN_I64, JOP_FROM_DYN_F16,
                     JOP_FROM_DYN_F32, JOP_FROM_DYN_F64, JOP_FROM_DYN_BOOL, JOP_FROM_DYN_ATOM,
                     JOP_FROM_DYN_PTR, JOP_NEG_I32, JOP_NEG_I64, JOP_NEG_F32, JOP_NEG_F64,
                     JOP_NOT_BOOL, JOP_KINDOF, JOP_LIST_HEAD, JOP_LIST_TAIL, JOP_LIST_IS_NIL,
                     JOP_ARRAY_NEW, JOP_ARRAY_LEN, JOP_BYTES_NEW, JOP_BYTES_LEN,
                     JOP_BYTES_CONCAT_MANY, JOP_OBJ_HAS_ATOM, JOP_OBJ_GET_ATOM, JOP_OBJ_SET_ATOM,
                     JOP_OBJ_COPY, JOP_OBJ_KEYS, JOP_ENUM_TAG} then [a, b]
      else [a, b, c])"

definition insn_regs :: "jello_insn \<Rightarrow> nat list" where
  "insn_regs ins =
     regs_of (i_opc ins) (unat (i_a ins)) (unat (i_b ins)) (unat (i_c ins)) (unat (i_imm ins))"

definition regs_ok :: "u32 \<Rightarrow> jello_insn \<Rightarrow> bool" where
  "regs_ok nregs ins \<longleftrightarrow> (\<forall>r \<in> set (insn_regs ins). r < unat nregs)"

lemma oor_iff [simp]: "oor nregs r \<longleftrightarrow> unat nregs \<le> unat r"
  by (simp add: oor_def word_le_nat_alt)

text \<open>Argument ranges of at most 255 registers: the 32-bit sums of the checks do not wrap as long
  as \<open>nregs + 255\<close> does not.\<close>

lemma unat_add_u8 [simp]:
  "unat (base :: u32) < 2 ^ 32 - 255 \<Longrightarrow> unat (base + ucast (c :: u8)) = unat base + unat c"
proof -
  assume "unat base < 2 ^ 32 - 255"
  then have "unat base + unat c < 2 ^ 32" using unat_u8_less [of c] by linarith
  then show ?thesis by (simp add: unat_word_ariths)
qed

lemma arg_range_less_iff:
  "unat (base :: u32) < 2 ^ 32 - 255 \<Longrightarrow>
   nregs < base + ucast (c :: u8) \<longleftrightarrow> unat nregs < unat base + unat c"
  by (simp add: word_less_nat_alt)

lemma u8_range_less_iff:
  "nregs < (ucast (b :: u8) :: u32) + ucast (c :: u8) \<longleftrightarrow> unat nregs < unat b + unat c"
  by (rule arg_range_less_iff [of "ucast b" nregs c, simplified])
    (use unat_u8_less [of b] in linarith)

lemma enum_range_le_iff:
  assumes "c \<noteq> 0"
  shows "nregs \<le> (ucast (b :: u8) :: u32) + ucast (c :: u8) - 1 \<longleftrightarrow> unat nregs < unat b + unat c"
proof -
  have s: "unat (ucast b + ucast c :: u32) = unat b + unat c"
    using unat_add_u8 [of "ucast b" c] less_trans [OF unat_u8_less, of "2 ^ 32 - 255" b] by simp
  have c: "unat c \<noteq> 0" using assms by (simp add: unat_eq_0)
  then have "unat (ucast b + ucast c - 1 :: u32) = unat b + unat c - 1"
    using s by (subst unat_minus_one) (auto simp: unat_eq_0 [symmetric])
  then show ?thesis using c by (simp add: word_le_nat_alt) arith
qed

lemma callr_range:
  assumes "\<not> nregs \<le> imm" "\<not> nregs < imm + ucast (c :: u8)" "unat (nregs :: u32) < 2 ^ 32 - 255"
  shows "unat imm + unat c \<le> unat nregs"
  using assms by (simp add: word_le_nat_alt arg_range_less_iff)

lemma ucast_u8_eq_0 [simp]: "(ucast (c :: u8) :: u32) = 0 \<longleftrightarrow> c = 0"
  by (simp add: word_unat_eq_iff)

text \<open>\<open>regs_of\<close> is unfolded only at a literal opcode.\<close>

lemmas regs_of_lit = regs_of_def [of "numeral n" for n] regs_of_def [of 0] regs_of_def [of 1]
  regs_of_def [of "Suc 0"]

lemmas regs_simps = Let_def regs_ok_def insn_regs_def regs_of_lit u8_range_less_iff
  enum_range_le_iff

lemma control_regs:
  "validate_control m rt ins nregs pc ninsns k = ok \<Longrightarrow> regs_ok nregs ins \<or> k = ok"
  by (auto simp: validate_control_def regs_simps split: if_splits)

lemma calls_regs:
  assumes "unat nregs < 2 ^ 32 - 255"
  shows "validate_calls m rt ins nregs nfuncs k = ok \<Longrightarrow> regs_ok nregs ins \<or> k = ok"
  using assms by (auto simp: validate_calls_def regs_simps split: if_splits dest!: callr_range)

lemma consts_regs:
  "validate_consts m rt ins nregs nfuncs k = ok \<Longrightarrow> regs_ok nregs ins \<or> k = ok"
  by (auto simp: validate_consts_def regs_simps split: if_splits)

lemma arith_regs:
  "validate_arith m rt ins nregs k = ok \<Longrightarrow> regs_ok nregs ins \<or> k = ok"
  by (auto simp: validate_arith_def regs_simps split: if_splits)

lemma convs_regs:
  "validate_convs m rt ins nregs k = ok \<Longrightarrow> regs_ok nregs ins \<or> k = ok"
  by (auto simp: validate_convs_def regs_simps split: if_splits)

lemma cmps_regs:
  "validate_cmps m rt ins nregs k = ok \<Longrightarrow> regs_ok nregs ins \<or> k = ok"
  by (auto simp: validate_cmps_def regs_simps split: if_splits)

lemma dyn_regs:
  "validate_dyn m rt ins nregs k = ok \<Longrightarrow> regs_ok nregs ins \<or> k = ok"
  by (auto simp: validate_dyn_def regs_simps split: if_splits)

lemma unary_regs:
  "validate_unary m rt ins nregs pc ninsns k = ok \<Longrightarrow> regs_ok nregs ins \<or> k = ok"
  by (auto simp: validate_unary_def regs_simps split: if_splits)

lemma list_array_regs:
  "validate_list_array m rt ins nregs k = ok \<Longrightarrow> regs_ok nregs ins \<or> k = ok"
  by (auto simp: validate_list_array_def regs_simps split: if_splits)

lemma bytes_regs:
  "validate_bytes m rt ins nregs k = ok \<Longrightarrow> regs_ok nregs ins \<or> k = ok"
  by (auto simp: validate_bytes_def regs_simps split: if_splits)

lemma obj_regs:
  "validate_obj m rt ins nregs k = ok \<Longrightarrow> regs_ok nregs ins \<or> k = ok"
  by (auto simp: validate_obj_def regs_simps split: if_splits)

lemma array_enum_regs:
  "validate_array_enum m rt ins nregs k = ok \<Longrightarrow> regs_ok nregs ins \<or> k = ok"
  by (auto simp: validate_array_enum_def regs_simps split: if_splits)

lemma insn_accepted_regs:
  assumes "jello_bc_validate_insn m rt ins nregs pc ninsns nfuncs = ok"
    and "unat nregs < 2 ^ 32 - 255"
  shows "regs_ok nregs ins"
  using assms(1) unfolding jello_bc_validate_insn_def
  by (elim control_regs [THEN disjE] calls_regs [OF assms(2), THEN disjE] consts_regs [THEN disjE]
      arith_regs [THEN disjE] convs_regs [THEN disjE] cmps_regs [THEN disjE] dyn_regs [THEN disjE]
      unary_regs [THEN disjE] list_array_regs [THEN disjE] bytes_regs [THEN disjE]
      obj_regs [THEN disjE] array_enum_regs [THEN disjE]) simp_all

subsection \<open>Jump targets\<close>

text \<open>The exact jump target \<open>base + d\<close> lies in the function: between its first instruction and
  the position just after its last one.\<close>

definition target_ok :: "nat \<Rightarrow> u32 \<Rightarrow> nat \<Rightarrow> bool" where
  "target_ok base d n \<longleftrightarrow> 0 \<le> int base + sint d \<and> int base + sint d \<le> int n"

lemma sint_add_wrap:
  assumes "unat (base :: u32) < 2 ^ 31"
  shows "sint (base + d) = (let x = int (unat base) + sint d in if x < 2 ^ 31 then x else x - 2 ^ 32)"
proof -
  have b: "sint base = int (unat base)" by (rule sint_small [OF assms])
  have d: "- (2 ^ 31) \<le> sint d" "sint d < 2 ^ 31"
    using sint_ge [of d] sint_lt [of d] by simp_all
  let ?x = "int (unat base) + sint d"
  have s: "sint (base + d) = signed_take_bit 31 ?x"
    by (simp only: sint_word_add b) simp
  show ?thesis
  proof (cases "?x < 2 ^ 31")
    case True
    then have "signed_take_bit 31 ?x = ?x" using d by (intro signed_take_bit_int_eq_self) linarith+
    then show ?thesis using s True by (simp only: Let_def if_True)
  next
    case False
    have "int (unat base) < 2 ^ 31"
      using assms by (metis of_nat_less_iff of_nat_numeral of_nat_power)
    then have "?x < 2 ^ 32" using d by simp
    have "signed_take_bit 31 ?x = signed_take_bit 31 (?x - 2 ^ 32)"
      by (simp add: signed_take_bit_eq_iff_take_bit_eq take_bit_eq_mod)
    also have "\<dots> = ?x - 2 ^ 32"
      using False \<open>?x < 2 ^ 32\<close> by (intro signed_take_bit_int_eq_self) simp_all
    finally show ?thesis using s False by (simp only: Let_def if_False)
  qed
qed

lemma bad_target_iff:
  assumes "unat ninsns < 2 ^ 31" "unat base < 2 ^ 31"
  shows "bad_target base d ninsns \<longleftrightarrow> \<not> target_ok (unat base) d (unat ninsns)"
proof -
  have "sint d < 2 ^ 31" using sint_lt [of d] by simp
  then show ?thesis using assms
    unfolding bad_target_def target_ok_def sint_add_wrap [OF assms(2)] sint_small [OF assms(1)]
      Let_def by (auto simp del: of_nat_unat)
qed

subsection \<open>Case tables\<close>

text \<open>What the verifier promises about \<^verbatim>\<open>switch_kind\<close>: its table lies in the function and consists
  of \<^verbatim>\<open>case_kind\<close> entries only, the default and the case targets, which count from the end of the
  table, lie in the function, and no \<^verbatim>\<open>case_kind\<close> occurs outside a table.\<close>

definition is_switch :: "jello_insn list \<Rightarrow> nat \<Rightarrow> bool" where
  "is_switch insns q \<longleftrightarrow> i_opc (insns ! q) = JOP_SWITCH_KIND"

definition is_case :: "jello_insn list \<Rightarrow> nat \<Rightarrow> bool" where
  "is_case insns q \<longleftrightarrow> i_opc (insns ! q) = JOP_CASE_KIND"

definition table_len :: "jello_insn list \<Rightarrow> nat \<Rightarrow> nat" where
  "table_len insns q = unat (i_b (insns ! q))"

definition entry_ok :: "jello_insn list \<Rightarrow> nat \<Rightarrow> nat \<Rightarrow> nat \<Rightarrow> bool" where
  "entry_ok insns tend n j \<longleftrightarrow> is_case insns j \<and> target_ok tend (i_imm (insns ! j)) n"

definition table_ok :: "jello_insn list \<Rightarrow> nat \<Rightarrow> bool" where
  "table_ok insns q =
     (let n = length insns; tend = q + 1 + table_len insns q in
      tend \<le> n \<and> target_ok tend (i_imm (insns ! q)) n \<and>
      (\<forall>j\<in>{q + 1..<tend}. entry_ok insns tend n j))"

definition in_table :: "jello_insn list \<Rightarrow> nat \<Rightarrow> nat \<Rightarrow> bool" where
  "in_table insns p j \<longleftrightarrow> (\<exists>q\<in>{p..<j}. is_switch insns q \<and> j \<le> q + table_len insns q)"

definition tables_ok_from :: "jello_insn list \<Rightarrow> nat \<Rightarrow> bool" where
  "tables_ok_from insns p \<longleftrightarrow>
     (\<forall>q\<in>{p..<length insns}. is_switch insns q \<longrightarrow> table_ok insns q) \<and>
     (\<forall>j\<in>{p..<length insns}. is_case insns j \<longrightarrow> in_table insns p j)"

abbreviation tables_ok :: "jello_insn list \<Rightarrow> bool" where
  "tables_ok insns \<equiv> tables_ok_from insns 0"

lemma switch_not_case: "is_switch insns q \<Longrightarrow> \<not> is_case insns q"
  by (simp add: is_switch_def is_case_def)

text \<open>How the specification unfolds along the walk of the loop: past the end, at a table, at a
  stray \<^verbatim>\<open>case_kind\<close>, at any other instruction.\<close>

lemma tables_ok_end: "length insns \<le> p \<Longrightarrow> tables_ok_from insns p"
  by (simp add: tables_ok_from_def)

lemma tables_ok_stray: "p < length insns \<Longrightarrow> is_case insns p \<Longrightarrow> \<not> tables_ok_from insns p"
  by (force simp: tables_ok_from_def in_table_def)

lemma tables_ok_plain:
  assumes "p < length insns" "\<not> is_switch insns p" "\<not> is_case insns p"
  shows "tables_ok_from insns p \<longleftrightarrow> tables_ok_from insns (p + 1)"
proof -
  have r: "{p..<length insns} = insert p {p + 1..<length insns}" using assms(1) by auto
  have "q \<in> {p..<j} \<and> is_switch insns q \<longleftrightarrow> q \<in> {p + 1..<j} \<and> is_switch insns q" for q j
    using assms(2) by (cases "q = p") auto
  then have "in_table insns p j \<longleftrightarrow> in_table insns (p + 1) j" for j
    unfolding in_table_def by blast
  then show ?thesis using assms(2,3) unfolding tables_ok_from_def r by simp
qed

lemma tables_ok_table:
  assumes "is_switch insns p" "table_ok insns p"
  shows "tables_ok_from insns p \<longleftrightarrow> tables_ok_from insns (p + 1 + table_len insns p)"
    (is "_ \<longleftrightarrow> tables_ok_from insns ?e")
proof -
  let ?n = "length insns"
  have e: "?e \<le> ?n" and c: "\<And>j. j \<in> {p + 1..<?e} \<Longrightarrow> is_case insns j"
    using assms(2) by (auto simp: table_ok_def Let_def entry_ok_def)
  have r: "{p..<?n} = insert p ({p + 1..<?e} \<union> {?e..<?n})" using e by auto
  have ns: "\<And>j. j \<in> {p + 1..<?e} \<Longrightarrow> \<not> is_switch insns j" using c switch_not_case by blast
  have x: "in_table insns p j \<longleftrightarrow> in_table insns ?e j" if "?e \<le> j" for j
  proof -
    have "{p..<j} = insert p ({p + 1..<?e} \<union> {?e..<j})" using that by auto
    then show ?thesis using ns that by (auto simp: in_table_def)
  qed
  have y: "in_table insns p j" if "j \<in> {p + 1..<?e}" for j
    using that assms(1) unfolding in_table_def by (intro bexI [of _ p]) auto
  have "(\<forall>q\<in>{p..<?n}. is_switch insns q \<longrightarrow> table_ok insns q) \<longleftrightarrow>
      (\<forall>q\<in>{?e..<?n}. is_switch insns q \<longrightarrow> table_ok insns q)"
    unfolding r using assms ns by blast
  moreover have "(\<forall>j\<in>{p..<?n}. is_case insns j \<longrightarrow> in_table insns p j) \<longleftrightarrow>
      (\<forall>j\<in>{?e..<?n}. is_case insns j \<longrightarrow> in_table insns ?e j)"
    unfolding r using switch_not_case [OF assms(1)] x y by auto
  ultimately show ?thesis by (simp only: tables_ok_from_def)
qed

lemma check_case_entries_iff:
  assumes "unat tf + n \<le> length insns" "length insns < 2 ^ 31" "unat N = length insns"
    and "unat te = unat tf + n"
  shows "i \<le> n \<Longrightarrow> check_case_entries insns tf te N i n = ok \<longleftrightarrow>
    (\<forall>j\<in>{unat tf + i..<unat tf + n}. entry_ok insns (unat te) (length insns) j)"
proof (induction "n - i" arbitrary: i)
  case 0
  then show ?case by (simp add: check_case_entries.simps)
next
  case (Suc x)
  then have i: "i < n" by simp
  have u: "unat (tf + of_nat i) = unat tf + i"
    using assms(1,2) i by (simp add: unat_word_ariths unat_of_nat)
  have r: "{unat tf + i..<unat tf + n} = insert (unat tf + i) {unat tf + (i + 1)..<unat tf + n}"
    using i by auto
  have "unat te < 2 ^ 31" using assms by simp
  then have "chk c msg (check_case_entries insns tf te N (i + 1) n) = ok \<longleftrightarrow> \<not> c \<and>
      (\<forall>j\<in>{unat tf + (i + 1)..<unat tf + n}. entry_ok insns (unat te) (length insns) j)" for c msg
    using Suc by simp
  then show ?case
    using i u \<open>unat te < 2 ^ 31\<close> assms(2,3) unfolding r
    by (subst check_case_entries.simps)
      (auto simp: Let_def entry_ok_def is_case_def bad_target_iff)
qed

text \<open>The loop ends, and it accepts exactly the functions whose tables are in order.\<close>

lemma switch_tables_from_iff:
  assumes n: "length insns < 2 ^ 31" "unat N = length insns"
  shows "unat p \<le> length insns \<Longrightarrow>
    \<exists>r. switch_tables_from insns N p = Some r \<and> (r = ok \<longleftrightarrow> tables_ok_from insns (unat p))"
proof (induction "length insns - unat p" arbitrary: p rule: less_induct)
  case less
  consider (fin) "\<not> p < N"
    | (switch) "p < N" "is_switch insns (unat p)"
    | (stray) "p < N" "is_case insns (unat p)"
    | (plain) "p < N" "\<not> is_switch insns (unat p)" "\<not> is_case insns (unat p)"
    by blast
  then show ?case
  proof cases
    case fin
    then show ?thesis using n tables_ok_end
      by (subst switch_tables_from.simps) (simp add: word_less_nat_alt)
  next
    case stray
    then show ?thesis using n tables_ok_stray switch_not_case
      by (subst switch_tables_from.simps)
        (simp add: word_less_nat_alt is_case_def is_switch_def Let_def)
  next
    case plain
    then have "unat p < length insns" using n by (simp add: word_less_nat_alt)
    moreover have "unat (p + 1) = unat p + 1"
      using calculation n by (simp add: unat_word_ariths)
    ultimately show ?thesis using plain less.hyps [of "p + 1"] tables_ok_plain [of "unat p" insns] n
      by (subst switch_tables_from.simps) (simp add: is_case_def is_switch_def Let_def)
  next
    case switch
    have p: "unat p < length insns" using switch(1) n by (simp add: word_less_nat_alt)
    let ?b = "i_b (insns ! unat p)"
    let ?te = "p + 1 + ucast ?b"
    have tf: "unat (p + 1) = unat p + 1" using p n by (simp add: unat_word_ariths)
    moreover have "unat (p + 1) < 2 ^ 32 - 255" using tf p n by simp
    ultimately have te: "unat ?te = unat p + 1 + table_len insns (unat p)"
      by (simp only: unat_add_u8 table_len_def)
    have cases_iff: "check_case_entries insns (p + 1) ?te N 0 (unat ?b) = ok \<longleftrightarrow>
        (\<forall>j\<in>{unat p + 1..<unat ?te}. entry_ok insns (unat ?te) (length insns) j)"
      if "unat ?te \<le> length insns"
      using check_case_entries_iff [of "p + 1" "unat ?b" insns N ?te 0] that n tf te
      by (simp add: table_len_def)
    have unfold: "switch_tables_from insns N p =
        (if unat ?te \<le> length insns \<and> target_ok (unat ?te) (i_imm (insns ! unat p)) (length insns)
         then case check_case_entries insns (p + 1) ?te N 0 (unat ?b) of
                Inl e \<Rightarrow> Some (Inl e) | Inr _ \<Rightarrow> switch_tables_from insns N ?te
         else if unat ?te \<le> length insns
         then Some (err JELLO_BC_BAD_FORMAT ''switch_kind default target out of range'' 0)
         else Some (err JELLO_BC_BAD_FORMAT ''switch_kind case table out of range'' 0))"
      using switch n by (subst switch_tables_from.simps)
        (auto simp: is_switch_def Let_def word_less_nat_alt bad_target_iff)
    show ?thesis
    proof (cases "table_ok insns (unat p)")
      case True
      then have "unat ?te \<le> length insns" by (simp add: table_ok_def Let_def te)
      then have *: "\<exists>r. switch_tables_from insns N ?te = Some r \<and>
          (r = ok \<longleftrightarrow> tables_ok_from insns (unat ?te))"
        using less.hyps [of ?te] p te by simp
      have "switch_tables_from insns N p = switch_tables_from insns N ?te"
        using True cases_iff unfolding unfold by (simp add: table_ok_def Let_def te)
      then show ?thesis using * tables_ok_table [OF switch(2) True] te by simp
    next
      case False
      then have "\<not> tables_ok_from insns (unat p)"
        using switch(2) p by (auto simp: tables_ok_from_def)
      moreover have "\<exists>e. switch_tables_from insns N p = Some (Inl e)"
        using False cases_iff unfolding unfold
        by (auto simp: table_ok_def Let_def te err_def split: sum.splits)
      ultimately show ?thesis by auto
    qed
  qed
qed

subsection \<open>The \<^verbatim>\<open>try\<close> stack\<close>

text \<open>The linear \<^verbatim>\<open>try\<close> depth after a sequence of instructions, and what it means for the
  \<^verbatim>\<open>try\<close>/\<^verbatim>\<open>endtry\<close> brackets of a function to be balanced.\<close>

definition try_delta :: "jello_insn \<Rightarrow> int" where
  "try_delta ins =
     (if i_opc ins = JOP_TRY then 1 else if i_opc ins = JOP_ENDTRY then - 1 else 0)"

definition try_depth :: "jello_insn list \<Rightarrow> int" where
  "try_depth insns = sum_list (map try_delta insns)"

definition try_balanced_from :: "nat \<Rightarrow> jello_insn list \<Rightarrow> bool" where
  "try_balanced_from d insns \<longleftrightarrow>
     (\<forall>i\<in>{..length insns}. 0 \<le> int d + try_depth (take i insns)) \<and> int d + try_depth insns = 0"

abbreviation try_balanced :: "jello_insn list \<Rightarrow> bool" where
  "try_balanced insns \<equiv> try_balanced_from 0 insns"

lemma try_balanced_Cons:
  "try_balanced_from d (ins # rest) \<longleftrightarrow>
     0 \<le> int d + try_delta ins \<and> try_balanced_from (nat (int d + try_delta ins)) rest"
proof -
  have "(\<forall>i\<in>{..Suc n}. P i) \<longleftrightarrow> P 0 \<and> (\<forall>i\<in>{..n}. P (Suc i))" for P and n :: nat
    by (auto simp: atMost_Suc_eq_insert_0)
  moreover have "0 \<le> int d + try_delta ins"
    if "\<forall>i\<in>{..length rest}. 0 \<le> int d + (try_delta ins + sum_list (map try_delta (take i rest)))"
    using bspec [OF that, of 0] by simp
  ultimately show ?thesis
    by (auto simp: try_balanced_from_def try_depth_def add.assoc)
qed

lemma try_stack_from_iff: "try_stack_from insns d = ok \<longleftrightarrow> try_balanced_from d insns"
proof (induction insns arbitrary: d)
  case Nil
  then show ?case by (simp add: try_balanced_from_def try_depth_def)
next
  case (Cons ins rest)
  then show ?case by (cases d) (auto simp: try_balanced_Cons try_delta_def nat_add_distrib)
qed

lemma function_semantics_iff:
  assumes "length insns < 2 ^ 31" "unat N = length insns"
  shows "\<exists>r. jello_bc_validate_function_semantics insns N = Some r \<and>
    (r = ok \<longleftrightarrow> tables_ok insns \<and> try_balanced insns)"
proof -
  obtain r where "switch_tables_from insns N 0 = Some r" "r = ok \<longleftrightarrow> tables_ok insns"
    using switch_tables_from_iff [OF assms, of 0] by auto
  then show ?thesis
    using assms(2)
    by (auto simp: jello_bc_validate_function_semantics_def
        validate_switch_kind_tables_def validate_try_stack_linear_def try_stack_from_iff)
qed

subsection \<open>Branch instructions\<close>

lemma insn_accepted_target:
  assumes "jello_bc_validate_insn m rt ins nregs pc ninsns nfuncs = ok"
    and "i_opc ins \<in> {JOP_JMP, JOP_JMP_IF, JOP_TRY}"
    and "pc < ninsns" "unat ninsns < 2 ^ 31"
  shows "target_ok (unat pc + 1) (i_imm ins) (unat ninsns)"
proof -
  have "\<not> bad_target (pc + 1) (i_imm ins) ninsns"
    using assms(1,2) by (auto simp: jello_bc_validate_insn_def validate_control_def Let_def)
  moreover have "unat (pc + 1) = unat pc + 1"
    using assms(3,4) by (simp add: unat_word_ariths word_less_nat_alt)
  ultimately show ?thesis
    using assms(3,4) bad_target_iff [of ninsns "pc + 1"] by (simp add: word_less_nat_alt)
qed

lemma unknown_opcode_rejected:
  assumes "JOP_COUNT \<le> i_opc ins"
  shows "jello_bc_validate_insn m rt ins nregs pc ninsns nfuncs =
    err JELLO_BC_BAD_FORMAT ''unknown opcode'' 0"
proof -
  have "i_opc ins \<noteq> n" if "n < 162" for n
    using assms that by (simp add: JOP_COUNT_def)
  then show ?thesis
    by (simp add: jello_bc_validate_insn_def validate_control_def validate_calls_def
      validate_consts_def validate_arith_def validate_convs_def validate_cmps_def validate_dyn_def
      validate_unary_def validate_list_array_def validate_bytes_def validate_obj_def
      validate_array_enum_def Let_def)
qed

section \<open>Properties\<close>

text \<open>A one-type module used by the witnesses.\<close>

definition i32_module :: jello_bc_module where
  "i32_module = zero_module
     \<lparr>m_ntypes := 1, m_types := [\<lparr>te_kind = JELLO_T_I32, te_as = 0\<rparr>], m_nfuncs := 1\<rparr>"

definition mk_insn :: "nat \<Rightarrow> u8 \<Rightarrow> u8 \<Rightarrow> u8 \<Rightarrow> u32 \<Rightarrow> jello_insn" where
  "mk_insn op a b c imm = \<lparr>i_op = of_nat op, i_a = a, i_b = b, i_c = c, i_imm = imm\<rparr>"

text \<open>C6: in an instruction that the verifier accepts, every register the interpreter will touch,
  argument ranges included, is below \<open>nregs\<close>.\<close>

theorem accepted_insn_registers_in_range:
  assumes "jello_bc_validate_insn m reg_types ins nregs pc ninsns nfuncs = ok"
    and "unat nregs < 2 ^ 32 - 255"
  shows "\<forall>r\<in>set (insn_regs ins). r < unat nregs"
  using insn_accepted_regs [OF assms] by (simp add: regs_ok_def)

lemma accepted_insn_registers_in_range_witness:
  "jello_bc_validate_insn i32_module [0, 0, 0] (mk_insn JOP_CALL 0 1 2 47) 3 0 1 1 = ok \<and>
   regs_ok 3 (mk_insn JOP_CALL 0 1 2 47)"
proof -
  have "jello_bc_validate_insn i32_module [0, 0, 0] (mk_insn JOP_CALL 0 1 2 47) 3 0 1 1 = ok"
    by (simp add: jello_bc_validate_insn_def validate_control_def validate_calls_def mk_insn_def
        Let_def JELLO_NATIVE_BUILTIN_COUNT_def)
  then show ?thesis
    using accepted_insn_registers_in_range
      [of i32_module "[0, 0, 0]" "mk_insn JOP_CALL 0 1 2 47" 3 0 1 1] by (simp add: regs_ok_def)
qed

text \<open>The target of an accepted \<^verbatim>\<open>jmp\<close>, \<^verbatim>\<open>jmp_if\<close> or \<^verbatim>\<open>try\<close>, computed without wrap-around, lies
  between the first instruction of the function and the position just after its last.\<close>

theorem accepted_branch_targets_in_range:
  assumes "jello_bc_validate_insn m reg_types ins nregs pc ninsns nfuncs = ok"
    and "i_opc ins \<in> {JOP_JMP, JOP_JMP_IF, JOP_TRY}"
    and "pc < ninsns" "unat ninsns < 2 ^ 31"
  shows "0 \<le> int (unat pc) + 1 + sint (i_imm ins) \<and>
    int (unat pc) + 1 + sint (i_imm ins) \<le> int (unat ninsns)"
  using insn_accepted_target [OF assms] by (simp add: target_ok_def add.commute)

lemma accepted_branch_targets_in_range_witness:
  "0 \<le> int (unat (2 :: u32)) + 1 + sint (- 3 :: u32) \<and>
   int (unat (2 :: u32)) + 1 + sint (- 3 :: u32) \<le> int (unat (3 :: u32))"
proof -
  have "jello_bc_validate_insn i32_module [0] (mk_insn JOP_JMP 0 0 0 (- 3)) 1 2 3 1 = ok"
    by (simp add: jello_bc_validate_insn_def validate_control_def mk_insn_def Let_def
        bad_target_def)
  then show ?thesis
    using accepted_branch_targets_in_range
      [of i32_module "[0]" "mk_insn JOP_JMP 0 0 0 (- 3)" 1 2 3 1]
    by (simp add: mk_insn_def)
qed

text \<open>C7: the whole-function check always ends, and it accepts a function exactly when every
  \<^verbatim>\<open>switch_kind\<close> has its complete table of \<^verbatim>\<open>case_kind\<close> entries with all targets in the function,
  no \<^verbatim>\<open>case_kind\<close> stands outside a table, and \<^verbatim>\<open>try\<close> and \<^verbatim>\<open>endtry\<close> are balanced.\<close>

theorem function_semantics_decides:
  assumes "length insns < 2 ^ 31" and "unat ninsns = length insns"
  shows "\<exists>r. jello_bc_validate_function_semantics insns ninsns = Some r \<and>
    (r = ok \<longleftrightarrow> tables_ok insns \<and> try_balanced insns)"
  by (rule function_semantics_iff [OF assms])

lemma function_semantics_decides_witness:
  "\<exists>r. jello_bc_validate_function_semantics
     [mk_insn JOP_SWITCH_KIND 0 1 0 0, mk_insn JOP_CASE_KIND 0 0 0 0, mk_insn JOP_RET 0 0 0 0] 3 = Some r \<and>
    (r = ok \<longleftrightarrow> tables_ok [mk_insn JOP_SWITCH_KIND 0 1 0 0, mk_insn JOP_CASE_KIND 0 0 0 0,
       mk_insn JOP_RET 0 0 0 0] \<and>
     try_balanced [mk_insn JOP_SWITCH_KIND 0 1 0 0, mk_insn JOP_CASE_KIND 0 0 0 0,
       mk_insn JOP_RET 0 0 0 0])"
  by (rule function_semantics_decides) simp_all

text \<open>A byte that is no opcode is rejected as such, whatever the other operands are.\<close>

theorem unknown_opcodes_rejected:
  "\<forall>m reg_types ins nregs pc ninsns nfuncs. JOP_COUNT \<le> i_opc ins \<longrightarrow>
     jello_bc_validate_insn m reg_types ins nregs pc ninsns nfuncs =
     err JELLO_BC_BAD_FORMAT ''unknown opcode'' 0"
  using unknown_opcode_rejected by blast

lemma unknown_opcodes_rejected_witness:
  "jello_bc_validate_insn i32_module [0] (mk_insn 200 0 0 0 0) 1 0 1 1 =
     err JELLO_BC_BAD_FORMAT ''unknown opcode'' 0"
  using unknown_opcodes_rejected by (simp add: mk_insn_def JOP_COUNT_def)

end
