(* ===== verification/Jello_Loader.thy ===== *)
theory Jello_Loader
  imports Jello_Check
begin

text \<open>
  The module loader of \<^verbatim>\<open>src/bytecode/loader.c\<close>. \<open>jello_bc_read\<close> is split into one reader per table
  of the file format, in the order of the C function; a reader takes the \<^verbatim>\<open>rd\<close> cursor and returns
  the first failure or the value with the advanced cursor. \<open>alloc\<close> decides which allocations succeed.

  The lemmas relate the loader to an encoder of the documented file format: the loader inverts the
  encoder on well-formed modules, whatever it accepts is well formed, and for files below 4 GiB it
  neither writes outside its buffers nor loops.
\<close>

section \<open>The byte reader\<close>

text \<open>\<^verbatim>\<open>rd\<close>: the buffer, its size and the read position. Offsets and sizes are \<^verbatim>\<open>size_t\<close>; they are
  natural numbers here because no sum exceeds the buffer size by more than \<open>2 ^ 32\<close>.\<close>

record rd =
  rd_p :: "u8 list"
  rd_n :: nat
  rd_off :: nat

type_synonym 'a rdres = "bc_fail + 'a \<times> rd"

definition adv :: "nat \<Rightarrow> rd \<Rightarrow> rd" where
  "adv k r = r\<lparr>rd_off := rd_off r + k\<rparr>"

definition rd_need :: "rd \<Rightarrow> nat \<Rightarrow> bool" where
  "rd_need r k \<longleftrightarrow> rd_off r + k \<le> rd_n r"

definition rd_u8 :: "rd \<Rightarrow> u8 rdres" where
  "rd_u8 r = (if \<not> rd_need r 1 then err JELLO_BC_EOF ''unexpected EOF'' (rd_off r)
              else Inr (rd_p r ! rd_off r, adv 1 r))"

definition rd_u16 :: "rd \<Rightarrow> u16 rdres" where
  "rd_u16 r = (if \<not> rd_need r 2 then err JELLO_BC_EOF ''unexpected EOF'' (rd_off r)
               else Inr (of_u16_le (rd_p r ! rd_off r) (rd_p r ! (rd_off r + 1)), adv 2 r))"

definition rd_u32 :: "rd \<Rightarrow> u32 rdres" where
  "rd_u32 r = (if \<not> rd_need r 4 then err JELLO_BC_EOF ''unexpected EOF'' (rd_off r)
               else Inr (of_u32_le (rd_p r ! rd_off r) (rd_p r ! (rd_off r + 1))
                           (rd_p r ! (rd_off r + 2)) (rd_p r ! (rd_off r + 3)), adv 4 r))"

text \<open>A counting loop of the loader: \<open>n\<close> items from index \<open>i\<close> on, each read by \<open>f\<close>, the first
  failure ending it.\<close>

fun rd_loop :: "(nat \<Rightarrow> rd \<Rightarrow> 'a rdres) \<Rightarrow> nat \<Rightarrow> nat \<Rightarrow> rd \<Rightarrow> 'a list rdres" where
  "rd_loop f i 0 r = Inr ([], r)"
| "rd_loop f i (Suc n) r =
     rbind (f i r) (\<lambda>(x, r). rbind (rd_loop f (Suc i) n r) (\<lambda>(xs, r). Inr (x # xs, r)))"

text \<open>\<open>alloc site off bytes\<close> stands for the success of the \<^verbatim>\<open>malloc\<close> or \<^verbatim>\<open>calloc\<close> call at a program
  point, with the read position and the size it asks for.\<close>

type_synonym alloc = "string \<Rightarrow> nat \<Rightarrow> nat \<Rightarrow> bool"

definition need_mem :: "alloc \<Rightarrow> string \<Rightarrow> rd \<Rightarrow> nat \<Rightarrow> 'a rdres \<Rightarrow> 'a rdres" where
  "need_mem alloc msg r bytes k =
     (if alloc msg (rd_off r) bytes then k
      else err JELLO_BC_OUT_OF_MEMORY msg (rd_off r))"

text \<open>\<^verbatim>\<open>vr.offset = r.off\<close>\<close>

definition set_off :: "nat \<Rightarrow> bc_fail \<Rightarrow> bc_fail" where
  "set_off off f = BcFail (fail_err f) (fail_msg f) off"

section \<open>Type and signature tables\<close>

definition JELLO_FUN_VARARGS_TAG :: u32 where "JELLO_FUN_VARARGS_TAG = 0x40000000"

definition validate_type_entry :: "jello_type_entry \<Rightarrow> u32 \<Rightarrow> u32 \<Rightarrow> bc_check" where
  "validate_type_entry t ntypes nsigs =
     (case te_kind t of
        JELLO_T_LIST \<Rightarrow> chk (ntypes \<le> te_as t) ''bad elem type id'' ok
      | JELLO_T_ARRAY \<Rightarrow> chk (ntypes \<le> te_as t) ''bad elem type id'' ok
      | JELLO_T_FUNCTION \<Rightarrow>
          chk (nsigs \<le> te_as t AND NOT JELLO_FUN_VARARGS_TAG) ''bad signature id'' ok
      | _ \<Rightarrow> ok)"

definition has_payload :: "jello_type_kind \<Rightarrow> bool" where
  "has_payload k \<longleftrightarrow> k \<in> {JELLO_T_LIST, JELLO_T_ARRAY, JELLO_T_FUNCTION, JELLO_T_ABSTRACT}"

definition read_type_entry :: "u32 \<Rightarrow> u32 \<Rightarrow> nat \<Rightarrow> rd \<Rightarrow> jello_type_entry rdres" where
  "read_type_entry ntypes nsigs i r =
     rbind (rd_u8 r) (\<lambda>(kind_u8, r).
     rbind (rd_u8 r) (\<lambda>(pad1, r).
     rbind (rd_u16 r) (\<lambda>(pad2, r).
     rbind (rd_u32 r) (\<lambda>(p0, r).
     rbind (rd_u32 r) (\<lambda>(p1, r).
       case kind_of_u8 kind_u8 of
         None \<Rightarrow> err JELLO_BC_BAD_FORMAT ''unknown type kind'' (rd_off r)
       | Some k \<Rightarrow>
           (let t = \<lparr>te_kind = k, te_as = (if has_payload k then p0 else 0)\<rparr> in
            case validate_type_entry t ntypes nsigs of
              Inl e \<Rightarrow> Inl (set_off (rd_off r) e)
            | Inr _ \<Rightarrow> Inr (t, r)))))))"

definition read_types :: "alloc \<Rightarrow> u32 \<Rightarrow> u32 \<Rightarrow> rd \<Rightarrow> jello_type_entry list rdres" where
  "read_types alloc ntypes nsigs r =
     (if 0 < ntypes then
        need_mem alloc ''oom types'' r (unat ntypes * 8)
        (rd_loop (read_type_entry ntypes nsigs) 0 (unat ntypes) r)
      else Inr ([], r))"

text \<open>A type id of a signature or a register list, with the message of its range check.\<close>

definition read_type_id :: "u32 \<Rightarrow> string \<Rightarrow> nat \<Rightarrow> rd \<Rightarrow> u32 rdres" where
  "read_type_id ntypes msg j r =
     rbind (rd_u32 r) (\<lambda>(a, r).
       if ntypes \<le> a then err JELLO_BC_BAD_FORMAT msg (rd_off r - 4) else Inr (a, r))"

definition read_sig :: "alloc \<Rightarrow> u32 \<Rightarrow> nat \<Rightarrow> rd \<Rightarrow> jello_fun_sig rdres" where
  "read_sig alloc ntypes i r =
     rbind (rd_u32 r) (\<lambda>(ret, r).
     rbind (rd_u16 r) (\<lambda>(nargs, r).
     rbind (rd_u16 r) (\<lambda>(pad, r).
       if ntypes \<le> ret then err JELLO_BC_BAD_FORMAT ''sig ret type out of range'' (rd_off r)
       else
         rbind (if 0 < nargs then
                  need_mem alloc ''oom sig args'' r (4 * unat nargs)
                  (rd_loop (read_type_id ntypes ''sig arg type out of range'') 0 (unat nargs) r)
                else Inr ([], r))
           (\<lambda>(args, r). Inr (\<lparr>sig_ret = ret, sig_nargs = nargs, sig_args = args\<rparr>, r)))))"

definition read_sigs :: "alloc \<Rightarrow> u32 \<Rightarrow> u32 \<Rightarrow> rd \<Rightarrow> jello_fun_sig list rdres" where
  "read_sigs alloc nsigs ntypes r =
     (if 0 < nsigs then
        need_mem alloc ''oom sigs'' r (unat nsigs * 16)
        (rd_loop (read_sig alloc ntypes) 0 (unat nsigs) r)
      else Inr ([], r))"

section \<open>Atoms\<close>

text \<open>Both passes of the atom table. The first checks that every payload lies in the buffer and
  sums up the size of the data block; the second re-reads the lengths and copies the payloads,
  with their terminating NUL, to the write position \<open>w\<close>. A write past the \<open>tot\<close> bytes of the
  block would be a memory fault.\<close>

definition skip_atom :: "nat \<Rightarrow> rd \<Rightarrow> u32 rdres" where
  "skip_atom i r =
     rbind (rd_u32 r) (\<lambda>(len, r).
       if 0 < len then
         if \<not> rd_need r (unat len) then
           err JELLO_BC_EOF ''unexpected EOF in atom bytes'' (rd_off r)
         else Inr (len, adv (unat len) r)
       else Inr (len, r))"

fun copy_atoms :: "u32 list \<Rightarrow> nat \<Rightarrow> nat \<Rightarrow> rd \<Rightarrow> u8 list list rdres" where
  "copy_atoms [] tot w r = Inr ([], r)"
| "copy_atoms (l # lens) tot w r =
     rbind (rd_u32 r) (\<lambda>(len, r).
       if len \<noteq> l then err JELLO_BC_BAD_FORMAT ''atom length mismatch'' (rd_off r - 4)
       else if 0 < len \<and> \<not> rd_need r (unat len) then
         err JELLO_BC_EOF ''unexpected EOF in atom bytes'' (rd_off r)
       else if tot < w + unat len + 1 then err MEMORY_FAULT ''atom data'' (rd_off r)
       else
         (let s = mem_read (rd_p r) (rd_off r) (unat len) in
          rbind (copy_atoms lens tot (w + unat len + 1) (adv (unat len) r))
            (\<lambda>(atoms, r). Inr (s # atoms, r))))"

definition JELLO_ATOM_PROTO :: nat where "JELLO_ATOM_PROTO = 0"

text \<open>The C string that starts at an atom, and \<^verbatim>\<open>strcmp(...) == 0\<close> with a literal.\<close>

definition c_str :: "u8 list \<Rightarrow> u8 list" where
  "c_str bs = takeWhile (\<lambda>b. b \<noteq> 0) bs"

definition str_bytes :: "string \<Rightarrow> u8 list" where
  "str_bytes s = map of_char s"

definition is_proto_table :: "u8 list list \<Rightarrow> bool" where
  "is_proto_table atoms \<longleftrightarrow>
     JELLO_ATOM_PROTO < length atoms \<and>
     c_str (atoms ! JELLO_ATOM_PROTO) = str_bytes ''__proto__''"

definition read_atoms :: "alloc \<Rightarrow> u32 \<Rightarrow> rd \<Rightarrow> (u8 list list \<times> bool) rdres" where
  "read_atoms alloc natoms r =
     (if 0 < natoms then
        need_mem alloc ''oom atom lens'' r (4 * unat natoms)
        (let atoms_start = rd_off r in
         rbind (rd_loop skip_atom 0 (unat natoms) r) (\<lambda>(lens, r).
           let tot = sum_list (map (\<lambda>len. unat len + 1) lens);
               r0 = r\<lparr>rd_off := atoms_start\<rparr> in
           need_mem alloc ''oom atoms'' r0 (8 * unat natoms)
           (need_mem alloc ''oom atoms_data'' r0 tot
           (rbind (copy_atoms lens tot 0 r0) (\<lambda>(atoms, r).
              Inr ((atoms, is_proto_table atoms), r))))))
      else Inr (([], False), r))"

section \<open>Constant pools\<close>

definition read_u64 :: "nat \<Rightarrow> rd \<Rightarrow> u64 rdres" where
  "read_u64 i r =
     rbind (rd_u32 r) (\<lambda>(lo, r). rbind (rd_u32 r) (\<lambda>(hi, r). Inr (of_u64_le lo hi, r)))"

definition read_pool64 :: "alloc \<Rightarrow> string \<Rightarrow> u32 \<Rightarrow> rd \<Rightarrow> u64 list rdres" where
  "read_pool64 alloc msg n r =
     (if 0 < n then need_mem alloc msg r (8 * unat n) (rd_loop read_u64 0 (unat n) r)
      else Inr ([], r))"

text \<open>The bytes pool. \<^verbatim>\<open>total\<close> and the offsets are 32-bit, so they can wrap around; the copy of the
  second pass into the block of \<^verbatim>\<open>total\<close> bytes is checked against that block.\<close>

definition skip_bytes :: "nat \<Rightarrow> rd \<Rightarrow> u32 rdres" where
  "skip_bytes i r =
     rbind (rd_u32 r) (\<lambda>(len, r).
       if 0 < len then
         if \<not> rd_need r (unat len) then
           err JELLO_BC_EOF ''unexpected EOF in const_bytes payload'' (rd_off r)
         else Inr (len, adv (unat len) r)
       else Inr (len, r))"

fun offsets_from :: "u32 \<Rightarrow> u32 list \<Rightarrow> u32 list" where
  "offsets_from tot [] = []"
| "offsets_from tot (len # lens) = tot # offsets_from (tot + len) lens"

fun copy_bytes :: "(u32 \<times> u32) list \<Rightarrow> u8 list \<Rightarrow> rd \<Rightarrow> u8 list rdres" where
  "copy_bytes [] blob r = Inr (blob, r)"
| "copy_bytes ((l, o') # index) blob r =
     rbind (rd_u32 r) (\<lambda>(len, r).
       if len \<noteq> l then err JELLO_BC_BAD_FORMAT ''const_bytes length mismatch'' (rd_off r - 4)
       else if 0 < len then
         if \<not> rd_need r (unat len) then
           err JELLO_BC_EOF ''unexpected EOF in const_bytes payload'' (rd_off r)
         else if length blob < unat o' + unat len then
           err MEMORY_FAULT ''const_bytes data'' (rd_off r)
         else
           copy_bytes index
             (mem_write blob (unat o') (mem_read (rd_p r) (rd_off r) (unat len)))
             (adv (unat len) r)
       else copy_bytes index blob r)"

definition read_const_bytes ::
  "alloc \<Rightarrow> u32 \<Rightarrow> rd \<Rightarrow> (u32 list \<times> u32 list \<times> u8 list) rdres" where
  "read_const_bytes alloc n r =
     (if 0 < n then
        if \<not> alloc ''const_bytes lens'' (rd_off r) (4 * unat n) \<or>
           \<not> alloc ''const_bytes offs'' (rd_off r) (4 * unat n) then
          err JELLO_BC_OUT_OF_MEMORY ''oom const_bytes index'' (rd_off r)
        else
          (let pool_start = rd_off r in
           rbind (rd_loop skip_bytes 0 (unat n) r) (\<lambda>(lens, r).
             let tot = sum_list lens; offs = offsets_from 0 lens in
             if 0 < tot \<and> \<not> alloc ''oom const_bytes data'' (rd_off r) (unat tot) then
               err JELLO_BC_OUT_OF_MEMORY ''oom const_bytes data'' (rd_off r)
             else
               rbind (copy_bytes (zip lens offs) (replicate (unat tot) 0)
                       (r\<lparr>rd_off := pool_start\<rparr>))
                 (\<lambda>(blob, r). Inr ((lens, offs, blob), r))))
      else Inr (([], [], []), r))"

section \<open>Source files\<close>

definition read_source_file :: "alloc \<Rightarrow> nat \<Rightarrow> rd \<Rightarrow> u8 list rdres" where
  "read_source_file alloc i r =
     rbind (rd_u32 r) (\<lambda>(len, r).
       if \<not> rd_need r (unat len) then
         err JELLO_BC_EOF ''unexpected EOF in source_files'' (rd_off r)
       else
         need_mem alloc ''oom source_file'' r (unat len + 1)
         (Inr (mem_read (rd_p r) (rd_off r) (unat len), adv (unat len) r)))"

definition read_source_files :: "alloc \<Rightarrow> rd \<Rightarrow> (u32 \<times> u8 list list) rdres" where
  "read_source_files alloc r =
     rbind (rd_u32 r) (\<lambda>(nsource, r).
       if 0 < nsource then
         need_mem alloc ''oom source_files'' r (8 * unat nsource)
         (rbind (rd_loop (read_source_file alloc) 0 (unat nsource) r)
            (\<lambda>(files, r). Inr ((nsource, files), r)))
       else Inr ((nsource, []), r))"

section \<open>Functions\<close>

definition read_line :: "bool \<Rightarrow> nat \<Rightarrow> rd \<Rightarrow> u32 rdres" where
  "read_line line_col j r =
     (if line_col then rd_u32 r
      else rbind (rd_u16 r) (\<lambda>(line_only, r). Inr (ucast line_only, r)))"

definition read_lines :: "alloc \<Rightarrow> u32 \<Rightarrow> u32 \<Rightarrow> rd \<Rightarrow> (u16 \<times> u32 list) rdres" where
  "read_lines alloc features ninsns r =
     (if has_feat features JELLO_BC_FEAT_LINE_TABLE then
        rbind (rd_u16 r) (\<lambda>(source_file, r).
          if 0 < ninsns then
            need_mem alloc ''oom lines'' r (4 * unat ninsns)
            (rbind (rd_loop (read_line (has_feat features JELLO_BC_FEAT_LINE_COL)) 0 (unat ninsns) r)
              (\<lambda>(lines, r). Inr ((source_file, lines), r)))
          else Inr ((source_file, []), r))
      else Inr ((0, []), r))"

definition read_insn ::
  "jello_bc_module \<Rightarrow> u32 list \<Rightarrow> u32 \<Rightarrow> u32 \<Rightarrow> nat \<Rightarrow> rd \<Rightarrow> jello_insn rdres" where
  "read_insn m reg_types nregs ninsns j r =
     rbind (rd_u8 r) (\<lambda>(op, r).
     rbind (rd_u8 r) (\<lambda>(a, r).
     rbind (rd_u8 r) (\<lambda>(b, r).
     rbind (rd_u8 r) (\<lambda>(c, r).
     rbind (rd_u32 r) (\<lambda>(imm, r).
       let ins = \<lparr>i_op = op, i_a = a, i_b = b, i_c = c, i_imm = imm\<rparr> in
       case jello_bc_validate_insn m reg_types ins nregs (of_nat j) ninsns (m_nfuncs m) of
         Inl e \<Rightarrow> Inl (set_off (rd_off r) e)
       | Inr _ \<Rightarrow> Inr (ins, r))))))"

definition read_insns ::
  "alloc \<Rightarrow> jello_bc_module \<Rightarrow> u32 list \<Rightarrow> u32 \<Rightarrow> u32 \<Rightarrow> rd \<Rightarrow> jello_insn list rdres" where
  "read_insns alloc m reg_types nregs ninsns r =
     (if 0 < ninsns then
        need_mem alloc ''oom insns'' r (8 * unat ninsns)
        (rbind (rd_loop (read_insn m reg_types nregs ninsns) 0 (unat ninsns) r) (\<lambda>(insns, r).
           case jello_bc_validate_function_semantics insns ninsns of
             None \<Rightarrow> err NO_RETURN ''switch_kind tables'' (rd_off r)
           | Some (Inl e) \<Rightarrow> Inl (set_off (rd_off r) e)
           | Some (Inr _) \<Rightarrow> Inr (insns, r)))
      else Inr ([], r))"

definition read_function_head :: "u32 \<Rightarrow> rd \<Rightarrow> (u32 \<times> u32 \<times> u32) rdres" where
  "read_function_head features r =
     rbind (rd_u32 r) (\<lambda>(nregs, r).
     rbind (if has_feat features JELLO_BC_FEAT_CAP_START then rd_u32 r else Inr (0, r))
       (\<lambda>(cap_start, r).
     rbind (rd_u32 r) (\<lambda>(ninsns, r).
       if 256 < nregs then err JELLO_BC_BAD_FORMAT ''nregs > 256'' (rd_off r - 8)
       else Inr ((nregs, cap_start, ninsns), r))))"

definition read_function :: "alloc \<Rightarrow> jello_bc_module \<Rightarrow> nat \<Rightarrow> rd \<Rightarrow> jello_bc_function rdres" where
  "read_function alloc m i r =
     rbind (read_function_head (m_features m) r) (\<lambda>((nregs, cap_start, ninsns), r).
     rbind (if 0 < nregs then
              need_mem alloc ''oom reg_types'' r (4 * unat nregs)
              (rd_loop (read_type_id (m_ntypes m) ''reg type out of range'') 0 (unat nregs) r)
            else Inr ([], r)) (\<lambda>(reg_types, r).
     rbind (read_lines alloc (m_features m) ninsns r) (\<lambda>((source_file, lines), r).
     rbind (read_insns alloc m reg_types nregs ninsns r) (\<lambda>(insns, r).
       Inr (\<lparr>f_nregs = nregs, f_cap_start = cap_start, f_reg_types = reg_types,
             f_ninsns = ninsns, f_insns = insns, f_source_file = source_file,
             f_lines = lines, f_nlines = ninsns\<rparr>, r)))))"

definition read_functions :: "alloc \<Rightarrow> jello_bc_module \<Rightarrow> rd \<Rightarrow> jello_bc_function list rdres" where
  "read_functions alloc m r =
     (if 0 < m_nfuncs m then
        need_mem alloc ''oom funcs'' r (unat (m_nfuncs m) * 56)
        (rd_loop (read_function alloc m) 0 (unat (m_nfuncs m)) r)
      else Inr ([], r))"

section \<open>The module\<close>

definition read_header :: "rd \<Rightarrow> jello_bc_module rdres" where
  "read_header r =
     rbind (rd_u32 r) (\<lambda>(version, r).
       if version \<noteq> 1 then
         err JELLO_BC_UNSUPPORTED_VERSION ''unsupported version'' (rd_off r - 4)
       else
         rbind (rd_u32 r) (\<lambda>(features, r).
         rbind (rd_u32 r) (\<lambda>(ntypes, r).
         rbind (rd_u32 r) (\<lambda>(nsigs, r).
         rbind (rd_u32 r) (\<lambda>(natoms, r).
         rbind (rd_u32 r) (\<lambda>(nfuncs, r).
         rbind (rd_u32 r) (\<lambda>(entry, r).
           if nfuncs \<le> entry then
             err JELLO_BC_BAD_FORMAT ''entry out of range'' (rd_off r - 4)
           else
             rbind (if has_feat features JELLO_BC_FEAT_CONST64 then
                      rbind (rd_u32 r) (\<lambda>(ni, r). rbind (rd_u32 r) (\<lambda>(nf, r). Inr ((ni, nf), r)))
                    else Inr ((0, 0), r)) (\<lambda>((ni, nf), r).
             rbind (if has_feat features JELLO_BC_FEAT_CONSTBYTES then rd_u32 r else Inr (0, r))
               (\<lambda>(nb, r).
               Inr (zero_module
                 \<lparr>m_version := version, m_features := features, m_ntypes := ntypes,
                  m_nsigs := nsigs, m_natoms := natoms, m_nfuncs := nfuncs, m_entry := entry,
                  m_nconst_i64 := ni, m_nconst_f64 := nf, m_nconst_bytes := nb\<rparr>, r))))))))))"

definition read_pools :: "alloc \<Rightarrow> jello_bc_module \<Rightarrow> rd \<Rightarrow> (u64 list \<times> u64 list) rdres" where
  "read_pools alloc m r =
     (if has_feat (m_features m) JELLO_BC_FEAT_CONST64 then
        rbind (read_pool64 alloc ''oom const_i64'' (m_nconst_i64 m) r) (\<lambda>(ci, r).
        rbind (read_pool64 alloc ''oom const_f64'' (m_nconst_f64 m) r) (\<lambda>(cf, r).
          Inr ((ci, cf), r)))
      else Inr (([], []), r))"

definition read_body :: "alloc \<Rightarrow> jello_bc_module \<Rightarrow> rd \<Rightarrow> jello_bc_module rdres" where
  "read_body alloc m r =
     rbind (read_types alloc (m_ntypes m) (m_nsigs m) r) (\<lambda>(types, r).
     rbind (read_sigs alloc (m_nsigs m) (m_ntypes m) r) (\<lambda>(sigs, r).
     rbind (read_atoms alloc (m_natoms m) r) (\<lambda>((atoms, proto), r).
     rbind (read_pools alloc m r) (\<lambda>((ci, cf), r).
     rbind (if has_feat (m_features m) JELLO_BC_FEAT_CONSTBYTES then
              read_const_bytes alloc (m_nconst_bytes m) r
            else Inr (([], [], []), r)) (\<lambda>((lens, offs, blob), r).
     rbind (if has_feat (m_features m) JELLO_BC_FEAT_LINE_TABLE then read_source_files alloc r
            else Inr ((0, []), r)) (\<lambda>((nsource, files), r).
       let m = m\<lparr>m_types := types, m_sigs := sigs, m_atoms := atoms, m_proto_enabled := proto,
                 m_const_i64 := ci, m_const_f64 := cf, m_const_bytes_len := lens,
                 m_const_bytes_off := offs, m_const_bytes_data := blob,
                 m_nsource_files := nsource, m_source_files := files\<rparr> in
       rbind (read_functions alloc m r) (\<lambda>(funcs, r). Inr (m\<lparr>m_funcs := funcs\<rparr>, r))))))))"

text \<open>The entry point returns the result code and what it leaves in \<^verbatim>\<open>*out\<close>. A buffer too short
  for the magic number is the one failure after which \<^verbatim>\<open>*out\<close> is not \<^verbatim>\<open>NULL\<close>.\<close>

definition jello_bc_read :: "alloc \<Rightarrow> u8 list \<Rightarrow> nat \<Rightarrow> bc_check \<times> jello_bc_module option" where
  "jello_bc_read alloc data size' =
     (if \<not> alloc ''oom module'' 0 160 then (err JELLO_BC_OUT_OF_MEMORY ''oom module'' 0, None)
      else
        (case rd_u32 \<lparr>rd_p = data, rd_n = size', rd_off = 0\<rparr> of
           Inl e \<Rightarrow> (Inl e, Some zero_module)
         | Inr (magic, r) \<Rightarrow>
             if magic \<noteq> JELLO_BC_MAGIC then
               (err JELLO_BC_BAD_MAGIC ''bad magic'' (rd_off r - 4), None)
             else
               (case rbind (read_header r) (\<lambda>(m, r). read_body alloc m r) of
                  Inl e \<Rightarrow> (Inl e, None)
                | Inr (m, _) \<Rightarrow> (ok, Some m))))"

definition jello_bc_get_entry :: "jello_bc_module option \<Rightarrow> u32" where
  "jello_bc_get_entry m = (case m of Some m \<Rightarrow> m_entry m | None \<Rightarrow> 0)"

section \<open>What a reader consumes\<close>

text \<open>\<open>reads r bs\<close>: the next bytes of the cursor are \<open>bs\<close>. \<open>consumed k r r'\<close>: the cursor has moved
  on by at least \<open>k\<close> bytes, within the buffer.\<close>

definition rd_ok :: "rd \<Rightarrow> bool" where
  "rd_ok r \<longleftrightarrow> rd_n r \<le> length (rd_p r)"

definition reads :: "rd \<Rightarrow> u8 list \<Rightarrow> bool" where
  "reads r bs \<longleftrightarrow> rd_ok r \<and> rd_need r (length bs) \<and> mem_read (rd_p r) (rd_off r) (length bs) = bs"

definition consumed :: "nat \<Rightarrow> rd \<Rightarrow> rd \<Rightarrow> bool" where
  "consumed k r r' \<longleftrightarrow> (\<exists>j. r' = adv j r \<and> k \<le> j \<and> rd_need r j)"

lemma adv_simps [simp]:
  "rd_off (adv k r) = rd_off r + k" "rd_n (adv k r) = rd_n r" "rd_p (adv k r) = rd_p r"
  "adv 0 r = r" "adv j (adv k r) = adv (k + j) r"
  "(adv k r)\<lparr>rd_off := x\<rparr> = r\<lparr>rd_off := x\<rparr>"
  by (simp_all add: adv_def)

lemma adv_inject: "adv j r = adv k r \<longleftrightarrow> j = k"
  by (metis adv_simps(1) add_left_cancel)

lemma rd_need_adv [simp]: "rd_need (adv k r) j \<longleftrightarrow> rd_need r (k + j)"
  by (simp add: rd_need_def add.assoc)

lemma rd_ok_adv [simp]: "rd_ok (adv k r) = rd_ok r"
  by (simp add: rd_ok_def)

lemma reads_Nil [simp]: "reads r [] \<longleftrightarrow> rd_ok r \<and> rd_off r \<le> rd_n r"
  by (simp add: reads_def mem_read_def rd_need_def)

lemma reads_append:
  "reads r (xs @ ys) \<longleftrightarrow> reads r xs \<and> reads (adv (length xs) r) ys"
proof (cases "rd_ok r \<and> rd_need r (length (xs @ ys))")
  case True
  have "mem_read (rd_p r) (rd_off r) (length (xs @ ys)) =
      mem_read (rd_p r) (rd_off r) (length xs) @ mem_read (rd_p r) (rd_off r + length xs) (length ys)"
    by (simp add: mem_read_def take_add ac_simps)
  moreover have "length (mem_read (rd_p r) (rd_off r) (length xs)) = length xs"
    using True by (simp add: rd_ok_def rd_need_def)
  ultimately show ?thesis using True by (auto simp: reads_def rd_need_def)
qed (auto simp: reads_def rd_need_def)

lemma le_not_Nil [simp]: "u16_le a \<noteq> []" "u32_le b \<noteq> []"
  by (simp_all add: u16_le_def u32_le_def)

lemma reads_Cons: "xs \<noteq> [] \<Longrightarrow> reads r (x # xs) \<longleftrightarrow> reads r [x] \<and> reads (adv 1 r) xs"
  using reads_append [of r "[x]" xs] by simp

lemma rd_u8_iff [res_simps]:
  "rd_ok r \<Longrightarrow> rd_u8 r = Inr (v, r') \<longleftrightarrow> reads r [v] \<and> r' = adv 1 r"
  by (auto simp: rd_u8_def reads_def rd_need_def rd_ok_def mem_read_def
      Cons_nth_drop_Suc [symmetric] take_Suc_conv_app_nth)

lemma mem_read_2: "i + 2 \<le> length p \<Longrightarrow> mem_read p i 2 = [p ! i, p ! (i + 1)]"
  by (simp add: mem_read_def numeral_2_eq_2 take_Suc_conv_app_nth)

lemma mem_read_4: "i + 4 \<le> length p \<Longrightarrow> mem_read p i 4 = [p ! i, p ! (i + 1), p ! (i + 2), p ! (i + 3)]"
  by (simp add: mem_read_def eval_nat_numeral take_Suc_conv_app_nth)

lemma rd_u16_iff [res_simps]:
  "rd_ok r \<Longrightarrow> rd_u16 r = Inr (v, r') \<longleftrightarrow> reads r (u16_le v) \<and> r' = adv 2 r"
proof -
  assume r: "rd_ok r"
  have "[b0, b1] = u16_le v \<longleftrightarrow> of_u16_le b0 b1 = v" for b0 b1
    using u16_le_of_u16_le [of b0 b1] unfolding u16_le_def by auto
  then show ?thesis using r
    by (auto simp: rd_u16_def reads_def rd_need_def rd_ok_def mem_read_2)
qed

lemma rd_u32_iff [res_simps]:
  "rd_ok r \<Longrightarrow> rd_u32 r = Inr (v, r') \<longleftrightarrow> reads r (u32_le v) \<and> r' = adv 4 r"
proof -
  assume r: "rd_ok r"
  have "[b0, b1, b2, b3] = u32_le v \<longleftrightarrow> of_u32_le b0 b1 b2 b3 = v" for b0 b1 b2 b3
    using u32_le_of_u32_le [of b0 b1 b2 b3] unfolding u32_le_def by auto
  then show ?thesis using r
    by (auto simp: rd_u32_def reads_def rd_need_def rd_ok_def mem_read_4)
qed

text \<open>One step of a reader: forwards on known bytes, backwards from a success.\<close>

lemma rd_steps:
  "reads r [v8] \<Longrightarrow> rd_u8 r = Inr (v8, adv 1 r)"
  "reads r (u16_le v16) \<Longrightarrow> rd_u16 r = Inr (v16, adv 2 r)"
  "reads r (u32_le v32) \<Longrightarrow> rd_u32 r = Inr (v32, adv 4 r)"
  by (simp_all add: rd_u8_iff rd_u16_iff rd_u32_iff reads_def)

lemma rbind_rd [res_simps]:
  "rd_ok r \<Longrightarrow> rbind (rd_u8 r) f8 = Inr y \<longleftrightarrow> (\<exists>v. reads r [v] \<and> f8 (v, adv 1 r) = Inr y)"
  "rd_ok r \<Longrightarrow> rbind (rd_u16 r) f16 = Inr y \<longleftrightarrow> (\<exists>v. reads r (u16_le v) \<and> f16 (v, adv 2 r) = Inr y)"
  "rd_ok r \<Longrightarrow> rbind (rd_u32 r) f32 = Inr y \<longleftrightarrow> (\<exists>v. reads r (u32_le v) \<and> f32 (v, adv 4 r) = Inr y)"
  by (auto simp: rbind_eq_Inr rd_u8_iff rd_u16_iff rd_u32_iff)

lemma case_eq_Inr [res_simps]:
  "(case opt of None \<Rightarrow> err e msg off | Some k \<Rightarrow> f k) = Inr y \<longleftrightarrow> (\<exists>k. opt = Some k \<and> f k = Inr y)"
  "(case (v :: bc_check) of Inl x \<Rightarrow> Inl (g x) | Inr u \<Rightarrow> h u) = Inr y \<longleftrightarrow> v = ok \<and> h () = Inr y"
  by (auto split: option.splits sum.splits)

lemma if_err_eq_Inr [res_simps]:
  "(if c then err e msg off else m) = Inr y \<longleftrightarrow> \<not> c \<and> m = Inr y"
  by simp

lemma reads_ok: "reads r bs \<Longrightarrow> rd_ok r"
  by (simp add: reads_def)

lemma reads_need: "reads r bs \<Longrightarrow> rd_need r (length bs)"
  by (simp add: reads_def)

lemma reads_mem_read: "reads r bs \<Longrightarrow> n = length bs \<Longrightarrow> mem_read (rd_p r) (rd_off r) n = bs"
  by (simp add: reads_def)

lemma reads_exists:
  "rd_ok r \<Longrightarrow> rd_need r n \<Longrightarrow> \<exists>bs. length bs = n \<and> reads r bs"
  by (intro exI [of _ "mem_read (rd_p r) (rd_off r) n"]) (simp add: reads_def rd_ok_def rd_need_def)

lemma consumed_adv: "consumed k r (adv j r) \<longleftrightarrow> k \<le> j \<and> rd_need r j"
  by (auto simp: consumed_def adv_inject)

lemma consumed_refl: "rd_off r \<le> rd_n r \<Longrightarrow> consumed 0 r r"
  unfolding consumed_def by (intro exI [of _ 0]) (simp add: rd_need_def)

lemma consumed_trans: "consumed k r r' \<Longrightarrow> consumed l r' r'' \<Longrightarrow> consumed (k + l) r r''"
  by (auto simp: consumed_def rd_need_def adv_inject add.assoc intro!: add_mono)

lemma consumed_mono: "consumed k r r' \<Longrightarrow> l \<le> k \<Longrightarrow> consumed l r r'"
  by (auto simp: consumed_def)

lemma consumed_ok: "consumed k r r' \<Longrightarrow> rd_ok r' = rd_ok r"
  by (auto simp: consumed_def)

lemma consumed_same: "consumed k r r' \<Longrightarrow> rd_p r' = rd_p r \<and> rd_n r' = rd_n r"
  by (auto simp: consumed_def)

lemma consumed_bound: "consumed k r r' \<Longrightarrow> rd_off r + k \<le> rd_n r \<and> rd_off r + k \<le> rd_off r'
    \<and> rd_off r' \<le> rd_n r'"
  by (auto simp: consumed_def rd_need_def)

section \<open>Decoders and codecs\<close>

text \<open>The contract of a table reader: what it returns is \<open>good\<close>, and it consumes at least \<open>msize\<close>
  bytes. A loop of such a reader returns as many good items as it was asked for.\<close>

locale decoder =
  fixes dec :: "nat \<Rightarrow> rd \<Rightarrow> 'a rdres"
    and good :: "nat \<Rightarrow> 'a \<Rightarrow> bool"
    and msize :: nat
  assumes sound: "rd_ok r \<Longrightarrow> rd_off r \<le> rd_n r \<Longrightarrow> dec i r = Inr (x, r') \<Longrightarrow>
      good i x \<and> consumed msize r r'"
begin

lemma loop_sound:
  "rd_ok r \<Longrightarrow> rd_off r \<le> rd_n r \<Longrightarrow> rd_loop dec i n r = Inr (xs, r') \<Longrightarrow>
   length xs = n \<and> (\<forall>k<n. good (i + k) (xs ! k)) \<and> consumed (n * msize) r r'"
proof (induction n arbitrary: i r xs)
  case 0
  then show ?case by (simp add: consumed_refl)
next
  case (Suc n)
  from Suc.prems(3) obtain x r1 ys where
    x: "dec i r = Inr (x, r1)" and ys: "rd_loop dec (Suc i) n r1 = Inr (ys, r')" "xs = x # ys"
    by (auto simp: rbind_eq_Inr)
  have c: "good i x" "consumed msize r r1" using sound [OF Suc.prems(1,2) x] by simp_all
  then have "rd_ok r1" "rd_off r1 \<le> rd_n r1"
    using Suc.prems(1) consumed_ok consumed_bound by blast+
  from Suc.IH [OF this ys(1)] c show ?case
    using ys(2) consumed_trans [OF c(2)] by (auto simp: less_Suc_eq_0_disj)
qed

text \<open>A table behind its 32-bit count, for which memory is asked unless it is empty.\<close>

lemma table_sound:
  assumes "rd_ok r" "rd_off r \<le> rd_n r"
    and "(if 0 < (n :: u32) then need_mem alloc msg r b (rd_loop dec 0 (unat n) r)
          else Inr ([], r)) = Inr (xs, r')"
  shows "length xs = unat n \<and> (\<forall>k<length xs. good k (xs ! k)) \<and> consumed 0 r r'"
proof (cases "n = 0")
  case True
  then show ?thesis using assms consumed_refl by simp
next
  case False
  then have "rd_loop dec 0 (unat n) r = Inr (xs, r')"
    using assms(3) by (simp add: need_mem_def word_neq_0_conv [symmetric] split: if_splits)
  from loop_sound [OF assms(1,2) this] consumed_mono show ?thesis by auto
qed

end

text \<open>A codec also knows the encoding of an item: on an encoded item the reader returns its
  \<open>view\<close> and stops right behind it.\<close>

locale codec = decoder dec good msize
  for dec :: "nat \<Rightarrow> rd \<Rightarrow> 'a rdres" and good :: "nat \<Rightarrow> 'a \<Rightarrow> bool" and msize :: nat +
  fixes enc :: "'b \<Rightarrow> u8 list"
    and view :: "'b \<Rightarrow> 'a"
    and valid :: "nat \<Rightarrow> 'b \<Rightarrow> bool"
  assumes dec_enc: "valid i y \<Longrightarrow> reads r (enc y) \<Longrightarrow> dec i r = Inr (view y, adv (length (enc y)) r)"
begin

lemma loop_enc:
  "(\<forall>k<length ys. valid (i + k) (ys ! k)) \<Longrightarrow> reads r (concat (map enc ys)) \<Longrightarrow>
   rd_loop dec i (length ys) r = Inr (map view ys, adv (length (concat (map enc ys))) r)"
proof (induction ys arbitrary: i r)
  case Nil
  then show ?case by simp
next
  case (Cons y ys)
  have "valid i y" "\<forall>k<length ys. valid (Suc i + k) (ys ! k)"
    using Cons.prems(1) by (auto simp: All_less_Suc2)
  moreover have "reads r (enc y)" "reads (adv (length (enc y)) r) (concat (map enc ys))"
    using Cons.prems(2) by (simp_all add: reads_append)
  ultimately show ?case using dec_enc Cons.IH by (simp add: add.assoc)
qed

lemma table_enc:
  assumes "unat (n :: u32) = length ys" "\<forall>k<length ys. valid k (ys ! k)"
    and "reads r (concat (map enc ys))"
  shows "(if 0 < n then need_mem (\<lambda>_ _ _. True) msg r b (rd_loop dec 0 (unat n) r)
          else Inr ([], r)) = Inr (map view ys, adv (length (concat (map enc ys))) r)"
proof (cases "n = 0")
  case False
  then show ?thesis using loop_enc [of ys 0 r] assms
    by (simp add: need_mem_def word_neq_0_conv [symmetric])
qed (use assms in auto)

end

text \<open>An exact codec accepts encoded items only.\<close>

locale exact_codec = codec dec good msize enc view valid
  for dec :: "nat \<Rightarrow> rd \<Rightarrow> 'a rdres" and good :: "nat \<Rightarrow> 'a \<Rightarrow> bool" and msize :: nat
    and enc :: "'b \<Rightarrow> u8 list" and view :: "'b \<Rightarrow> 'a" and valid :: "nat \<Rightarrow> 'b \<Rightarrow> bool" +
  assumes dec_inv: "rd_ok r \<Longrightarrow> dec i r = Inr (x, r') \<Longrightarrow>
      \<exists>y. valid i y \<and> x = view y \<and> reads r (enc y) \<and> r' = adv (length (enc y)) r"
begin

lemma loop_inv:
  "rd_ok r \<Longrightarrow> rd_off r \<le> rd_n r \<Longrightarrow> rd_loop dec i n r = Inr (xs, r') \<Longrightarrow>
   \<exists>ys. length ys = n \<and> (\<forall>k<n. valid (i + k) (ys ! k)) \<and> xs = map view ys \<and>
     reads r (concat (map enc ys)) \<and> r' = adv (length (concat (map enc ys))) r"
proof (induction n arbitrary: i r xs)
  case 0
  then show ?case by simp
next
  case (Suc n)
  from Suc.prems(3) obtain x r1 zs where
    x: "dec i r = Inr (x, r1)" and zs: "rd_loop dec (Suc i) n r1 = Inr (zs, r')" "xs = x # zs"
    by (auto simp: rbind_eq_Inr)
  from dec_inv [OF Suc.prems(1) x] obtain y where
    y: "valid i y" "x = view y" "reads r (enc y)" "r1 = adv (length (enc y)) r"
    by blast
  have "rd_ok r1" "rd_off r1 \<le> rd_n r1"
    using y(4) reads_need [OF y(3)] Suc.prems(1) by (simp_all add: rd_need_def)
  from Suc.IH [OF this zs(1)] obtain ys where
    ys: "length ys = n" "\<forall>k<n. valid (Suc i + k) (ys ! k)" "zs = map view ys"
      "reads r1 (concat (map enc ys))" "r' = adv (length (concat (map enc ys))) r1"
    by blast
  have "\<forall>k<Suc n. valid (i + k) ((y # ys) ! k)"
    using y(1) ys(2) by (auto simp: less_Suc_eq_0_disj)
  then show ?case using y ys zs(2)
    by (intro exI [of _ "y # ys"]) (simp add: reads_append)
qed

end

section \<open>The file format\<close>

text \<open>The encodings of the documented format, with what makes an item well formed. Padding is
  written as zero.\<close>

definition enc_type :: "jello_type_entry \<Rightarrow> u8 list" where
  "enc_type t = [kind_code (te_kind t), 0] @ u16_le 0 @ u32_le (te_as t) @ u32_le 0"

definition good_type :: "u32 \<Rightarrow> u32 \<Rightarrow> jello_type_entry \<Rightarrow> bool" where
  "good_type ntypes nsigs t \<longleftrightarrow>
     (te_kind t \<in> {JELLO_T_LIST, JELLO_T_ARRAY} \<longrightarrow> te_as t < ntypes) \<and>
     (te_kind t = JELLO_T_FUNCTION \<longrightarrow> te_as t AND NOT JELLO_FUN_VARARGS_TAG < nsigs) \<and>
     (\<not> has_payload (te_kind t) \<longrightarrow> te_as t = 0)"

definition enc_sig :: "jello_fun_sig \<Rightarrow> u8 list" where
  "enc_sig s = u32_le (sig_ret s) @ u16_le (sig_nargs s) @ u16_le 0 @
     concat (map u32_le (sig_args s))"

definition good_sig :: "u32 \<Rightarrow> jello_fun_sig \<Rightarrow> bool" where
  "good_sig ntypes s \<longleftrightarrow>
     sig_ret s < ntypes \<and> unat (sig_nargs s) = length (sig_args s) \<and>
     (\<forall>a\<in>set (sig_args s). a < ntypes)"

definition enc_bytes :: "u8 list \<Rightarrow> u8 list" where
  "enc_bytes bs = u32_le (of_nat (length bs)) @ bs"

definition good_bytes :: "u8 list \<Rightarrow> bool" where
  "good_bytes bs \<longleftrightarrow> length bs < 2 ^ 32"

definition enc_line :: "bool \<Rightarrow> u32 \<Rightarrow> u8 list" where
  "enc_line line_col l = (if line_col then u32_le l else u16_le (ucast l))"

definition good_line :: "bool \<Rightarrow> u32 \<Rightarrow> bool" where
  "good_line line_col l \<longleftrightarrow> line_col \<or> unat l < 2 ^ 16"

definition enc_insn :: "jello_insn \<Rightarrow> u8 list" where
  "enc_insn ins = [i_op ins, i_a ins, i_b ins, i_c ins] @ u32_le (i_imm ins)"

definition good_insn ::
  "jello_bc_module \<Rightarrow> u32 list \<Rightarrow> u32 \<Rightarrow> u32 \<Rightarrow> nat \<Rightarrow> jello_insn \<Rightarrow> bool" where
  "good_insn m reg_types nregs ninsns j ins \<longleftrightarrow>
     jello_bc_validate_insn m reg_types ins nregs (of_nat j) ninsns (m_nfuncs m) = ok"

definition enc_function_head :: "u32 \<Rightarrow> jello_bc_function \<Rightarrow> u8 list" where
  "enc_function_head features f =
     u32_le (f_nregs f) @
     (if has_feat features JELLO_BC_FEAT_CAP_START then u32_le (f_cap_start f) else []) @
     u32_le (f_ninsns f)"

definition enc_lines :: "u32 \<Rightarrow> jello_bc_function \<Rightarrow> u8 list" where
  "enc_lines features f =
     (if has_feat features JELLO_BC_FEAT_LINE_TABLE then
        u16_le (f_source_file f) @
        concat (map (enc_line (has_feat features JELLO_BC_FEAT_LINE_COL)) (f_lines f))
      else [])"

definition enc_function :: "u32 \<Rightarrow> jello_bc_function \<Rightarrow> u8 list" where
  "enc_function features f =
     enc_function_head features f @ concat (map u32_le (f_reg_types f)) @ enc_lines features f @
     concat (map enc_insn (f_insns f))"

definition good_lines :: "u32 \<Rightarrow> jello_bc_function \<Rightarrow> bool" where
  "good_lines features f \<longleftrightarrow>
     (if has_feat features JELLO_BC_FEAT_LINE_TABLE then
        length (f_lines f) = unat (f_ninsns f) \<and>
        (\<forall>l\<in>set (f_lines f). good_line (has_feat features JELLO_BC_FEAT_LINE_COL) l)
      else f_lines f = [] \<and> f_source_file f = 0)"

definition good_code :: "jello_bc_module \<Rightarrow> jello_bc_function \<Rightarrow> bool" where
  "good_code m f \<longleftrightarrow>
     length (f_insns f) = unat (f_ninsns f) \<and>
     (\<forall>j<length (f_insns f).
        good_insn m (f_reg_types f) (f_nregs f) (f_ninsns f) j (f_insns f ! j)) \<and>
     (0 < f_ninsns f \<longrightarrow>
        jello_bc_validate_function_semantics (f_insns f) (f_ninsns f) = Some ok)"

definition good_function :: "jello_bc_module \<Rightarrow> jello_bc_function \<Rightarrow> bool" where
  "good_function m f \<longleftrightarrow>
     f_nregs f \<le> 256 \<and> length (f_reg_types f) = unat (f_nregs f) \<and>
     (\<forall>t\<in>set (f_reg_types f). t < m_ntypes m) \<and>
     (\<not> has_feat (m_features m) JELLO_BC_FEAT_CAP_START \<longrightarrow> f_cap_start f = 0) \<and>
     f_nlines f = f_ninsns f \<and> good_lines (m_features m) f \<and> good_code m f"

section \<open>The table readers are codecs\<close>

lemma u32_neq0 [simp]: "0 < (n :: u32) \<longleftrightarrow> n \<noteq> 0"
  by (simp add: word_neq_0_conv)

lemma u16_neq0 [simp]: "0 < (n :: u16) \<longleftrightarrow> n \<noteq> 0"
  by (simp add: word_neq_0_conv)

lemma validate_type_entry_ok:
  "validate_type_entry t ntypes nsigs = ok \<and> (\<not> has_payload (te_kind t) \<longrightarrow> te_as t = 0) \<longleftrightarrow>
   good_type ntypes nsigs t"
  by (cases "te_kind t") (auto simp: validate_type_entry_def good_type_def has_payload_def)

interpretation type_entry: codec "read_type_entry ntypes nsigs" "\<lambda>_. good_type ntypes nsigs" 12
  enc_type "\<lambda>t. t" "\<lambda>_. good_type ntypes nsigs" for ntypes nsigs
proof unfold_locales
  fix r i x r'
  assume r: "rd_ok r" "read_type_entry ntypes nsigs i r = Inr (x, r')"
  then show "good_type ntypes nsigs x \<and> consumed 12 r r'"
    by (auto simp: read_type_entry_def res_simps consumed_adv Let_def
        dest!: reads_need simp flip: validate_type_entry_ok)
next
  fix i y r
  assume y: "good_type ntypes nsigs y" "reads r (enc_type y)"
  then have v: "validate_type_entry y ntypes nsigs = ok" "\<not> has_payload (te_kind y) \<longrightarrow> te_as y = 0"
    by (auto simp flip: validate_type_entry_ok)
  have e: "\<lparr>te_kind = te_kind y, te_as = (if has_payload (te_kind y) then te_as y else 0)\<rparr> = y"
    using v(2) by (cases y) simp
  from y(2) show "read_type_entry ntypes nsigs i r = Inr (y, adv (length (enc_type y)) r)"
    by (auto simp: enc_type_def reads_append reads_Cons read_type_entry_def rd_steps e v(1) Let_def
        split del: if_split)
qed

interpretation type_id: codec "read_type_id ntypes msg" "\<lambda>_ t. t < ntypes" 4
  u32_le "\<lambda>t. t" "\<lambda>_ t. t < ntypes" for ntypes msg
proof unfold_locales
  fix r i x r'
  assume "rd_ok r" "read_type_id ntypes msg i r = Inr (x, r')"
  then show "x < ntypes \<and> consumed 4 r r'"
    by (auto simp: read_type_id_def res_simps consumed_adv dest: reads_need)
qed (auto simp: read_type_id_def rd_steps)

text \<open>A list of type ids behind its length field, as signatures and functions have it.\<close>

lemma type_ids_sound:
  assumes "rd_ok r" "rd_off r \<le> rd_n r"
    and "(if n \<noteq> 0 then need_mem alloc msg1 r b (rd_loop (read_type_id ntypes msg) 0 n r)
          else Inr ([], r)) = Inr (xs, r')"
  shows "length xs = n \<and> (\<forall>t\<in>set xs. t < ntypes) \<and> consumed (4 * n) r r'"
proof (cases "n = 0")
  case True
  then show ?thesis using assms consumed_refl by simp
next
  case False
  then have "rd_loop (read_type_id ntypes msg) 0 n r = Inr (xs, r')"
    using assms(3) by (simp add: need_mem_def split: if_splits)
  from type_id.loop_sound [OF assms(1,2) this] show ?thesis
    by (auto simp: mult.commute in_set_conv_nth)
qed

lemma type_ids_enc:
  assumes "\<forall>t\<in>set xs. t < ntypes" "reads r (concat (map u32_le xs))"
  shows "rd_loop (read_type_id ntypes msg) 0 (length xs) r =
    Inr (xs, adv (length (concat (map u32_le xs))) r)"
  by (rule trans [OF type_id.loop_enc]) (use assms in auto)

interpretation sig: decoder "read_sig alloc ntypes" "\<lambda>_. good_sig ntypes" 8 for alloc ntypes
proof unfold_locales
  fix r i x r'
  assume r: "rd_ok r" "rd_off r \<le> rd_n r" "read_sig alloc ntypes i r = Inr (x, r')"
  from r(1,3) obtain ret nargs pad args where
    h: "reads (adv 6 r) (u16_le pad)" "ret < ntypes" and
    a: "(if unat nargs \<noteq> 0 then need_mem alloc ''oom sig args'' (adv 8 r) (4 * unat nargs)
      (rd_loop (read_type_id ntypes ''sig arg type out of range'') 0 (unat nargs) (adv 8 r))
      else Inr ([], (adv 8 r))) = Inr (args, r')" and
    x: "x = \<lparr>sig_ret = ret, sig_nargs = nargs, sig_args = args\<rparr>"
    by (auto simp: read_sig_def res_simps unat_eq_0 not_le)
  have n: "rd_need r 8" using reads_need [OF h(1)] by simp
  from type_ids_sound [OF _ _ a] r(1) n
  have "length args = unat nargs" "\<forall>t\<in>set args. t < ntypes" "consumed (4 * unat nargs) (adv 8 r) r'"
    by (simp_all add: rd_need_def)
  moreover have "consumed 8 r (adv 8 r)" using n by (simp add: consumed_adv)
  ultimately show "good_sig ntypes x \<and> consumed 8 r r'"
    using h(2) x consumed_trans [THEN consumed_mono] by (fastforce simp: good_sig_def)
qed

text \<open>With memory available the readers are codecs.\<close>

abbreviation mem_ok :: alloc where "mem_ok \<equiv> \<lambda>_ _ _. True"

lemma need_mem_ok [simp]: "need_mem mem_ok msg r b k = k"
  by (simp add: need_mem_def)

interpretation sig: codec "read_sig mem_ok ntypes" "\<lambda>_. good_sig ntypes" 8
  enc_sig "\<lambda>s. s" "\<lambda>_. good_sig ntypes" for ntypes
proof unfold_locales
  fix i y r
  assume y: "good_sig ntypes y" "reads r (enc_sig y)"
  then have "length (sig_args y) = unat (sig_nargs y)" "reads (adv 8 r) (concat (map u32_le (sig_args y)))"
    "\<forall>a\<in>set (sig_args y). a < ntypes"
    by (simp_all add: good_sig_def enc_sig_def reads_append)
  then have "(if unat (sig_nargs y) \<noteq> 0 then
      rd_loop (read_type_id ntypes ''sig arg type out of range'') 0 (unat (sig_nargs y)) (adv 8 r)
      else Inr ([], adv 8 r)) = Inr (sig_args y, adv (length (enc_sig y)) r)"
    using type_ids_enc [of "sig_args y"] by (auto simp: enc_sig_def add.assoc)
  then show "read_sig mem_ok ntypes i r = Inr (y, adv (length (enc_sig y)) r)"
    using y by (cases y) (auto simp: good_sig_def enc_sig_def reads_append read_sig_def rd_steps
        unat_eq_0 [symmetric] not_le simp del: unat_eq_zero)
qed

interpretation pool64: codec read_u64 "\<lambda>_ _. True" 8 u64_le "\<lambda>v. v" "\<lambda>_ _. True"
proof unfold_locales
  fix r i x r'
  assume "rd_ok r" "read_u64 i r = Inr (x, r')"
  then show "True \<and> consumed 8 r r'"
    by (auto simp: read_u64_def res_simps consumed_adv dest: reads_need)
next
  fix i y r
  assume "reads r (u64_le y)"
  then show "read_u64 i r = Inr (y, adv (length (u64_le y)) r)"
    by (auto simp: u64_le_def reads_append read_u64_def rd_steps)
qed

interpretation line: codec "read_line line_col" "\<lambda>_. good_line line_col" 2
  "enc_line line_col" "\<lambda>l. l" "\<lambda>_. good_line line_col" for line_col
proof unfold_locales
  fix r i x r'
  assume "rd_ok r" "read_line line_col i r = Inr (x, r')"
  then show "good_line line_col x \<and> consumed 2 r r'"
    by (cases line_col) (auto simp: read_line_def res_simps consumed_adv good_line_def rd_need_def
        dest!: reads_need)
next
  fix i y r
  assume "good_line line_col y" "reads r (enc_line line_col y)"
  moreover have "ucast (ucast y :: u16) = y" if "unat y < 2 ^ 16"
    by (rule bit_word_eqI) (auto simp: bit_simps dest: bit_less_exp [OF that])
  ultimately show "read_line line_col i r = Inr (y, adv (length (enc_line line_col y)) r)"
    by (auto simp: enc_line_def good_line_def read_line_def rd_steps split: if_splits)
qed

interpretation source_file: decoder "read_source_file alloc" "\<lambda>_. good_bytes" 4 for alloc
proof unfold_locales
  fix r i x r'
  assume "rd_ok r" "read_source_file alloc i r = Inr (x, r')"
  then show "good_bytes x \<and> consumed 4 r r'"
    by (auto simp: read_source_file_def res_simps consumed_adv good_bytes_def need_mem_def rd_ok_def
        rd_need_def split: if_splits)
qed

interpretation source_file: codec "read_source_file mem_ok" "\<lambda>_. good_bytes" 4
  enc_bytes "\<lambda>bs. bs" "\<lambda>_. good_bytes"
proof unfold_locales
  fix i y r
  assume y: "good_bytes y" "reads r (enc_bytes y)"
  then have "unat (of_nat (length y) :: u32) = length y"
    by (simp add: good_bytes_def unat_of_nat)
  then show "read_source_file mem_ok i r = Inr (y, adv (length (enc_bytes y)) r)"
    using y reads_need [of "adv 4 r" y] reads_mem_read [of "adv 4 r" y]
    by (auto simp: enc_bytes_def reads_append read_source_file_def rd_steps)
qed

interpretation insn: codec "read_insn m reg_types nregs ninsns" "good_insn m reg_types nregs ninsns" 8
  enc_insn "\<lambda>ins. ins" "good_insn m reg_types nregs ninsns" for m reg_types nregs ninsns
proof unfold_locales
  fix r i x r'
  assume "rd_ok r" "read_insn m reg_types nregs ninsns i r = Inr (x, r')"
  then show "good_insn m reg_types nregs ninsns i x \<and> consumed 8 r r'"
    by (auto simp: read_insn_def res_simps consumed_adv good_insn_def Let_def dest!: reads_need)
next
  fix i y r
  assume y: "good_insn m reg_types nregs ninsns i y" "reads r (enc_insn y)"
  have e: "\<lparr>i_op = i_op y, i_a = i_a y, i_b = i_b y, i_c = i_c y, i_imm = i_imm y\<rparr> = y"
    by (cases y) simp
  from y show "read_insn m reg_types nregs ninsns i r = Inr (y, adv (length (enc_insn y)) r)"
    by (auto simp: enc_insn_def reads_append reads_Cons read_insn_def rd_steps e good_insn_def Let_def)
qed

lemma read_lines_sound:
  assumes "rd_ok r" "rd_off r \<le> rd_n r" "read_lines alloc features ninsns r = Inr ((sf, lines), r')"
  shows "consumed 0 r r' \<and>
    (if has_feat features JELLO_BC_FEAT_LINE_TABLE then
       length lines = unat ninsns \<and>
       (\<forall>l\<in>set lines. good_line (has_feat features JELLO_BC_FEAT_LINE_COL) l)
     else lines = [] \<and> sf = 0)"
proof (cases "has_feat features JELLO_BC_FEAT_LINE_TABLE \<and> ninsns \<noteq> 0")
  case True
  then obtain v where v: "reads r (u16_le v)" and
    l: "rd_loop (read_line (has_feat features JELLO_BC_FEAT_LINE_COL)) 0 (unat ninsns) (adv 2 r) =
      Inr (lines, r')"
    using assms(1,3) by (auto simp: read_lines_def res_simps need_mem_def split: if_splits)
  have n: "rd_need r 2" using reads_need [OF v] by simp
  then have "consumed 2 r (adv 2 r)" by (simp add: consumed_adv)
  moreover have "rd_ok (adv 2 r)" "rd_off (adv 2 r) \<le> rd_n (adv 2 r)"
    using n assms(1) by (simp_all add: rd_need_def)
  note line.loop_sound [OF this l]
  ultimately show ?thesis
    using True consumed_trans [THEN consumed_mono, of 2 r "adv 2 r" _ r' 0]
    by (auto simp: in_set_conv_nth)
next
  case False
  then show ?thesis using assms consumed_refl
    by (auto simp: read_lines_def res_simps consumed_adv dest!: reads_need)
qed

lemma read_insns_sound:
  assumes "rd_ok r" "rd_off r \<le> rd_n r"
    and "read_insns alloc m reg_types nregs ninsns r = Inr (insns, r')"
  shows "length insns = unat ninsns \<and> consumed (8 * unat ninsns) r r' \<and>
    (\<forall>j<length insns. good_insn m reg_types nregs ninsns j (insns ! j)) \<and>
    (0 < ninsns \<longrightarrow> jello_bc_validate_function_semantics insns ninsns = Some ok)"
proof (cases "ninsns = 0")
  case True
  then show ?thesis using assms consumed_refl by (simp add: read_insns_def)
next
  case False
  then have l: "rd_loop (read_insn m reg_types nregs ninsns) 0 (unat ninsns) r = Inr (insns, r')"
    and s: "jello_bc_validate_function_semantics insns ninsns = Some ok"
    using assms(1,3)
    by (auto simp: read_insns_def res_simps need_mem_def split: if_splits)
  from insn.loop_sound [OF assms(1,2) l] s show ?thesis by (simp add: mult.commute)
qed

lemma read_function_head_sound:
  assumes "rd_ok r" "read_function_head features r = Inr ((nregs, cap_start, ninsns), r')"
  shows "consumed 8 r r' \<and> nregs \<le> 256 \<and>
    (\<not> has_feat features JELLO_BC_FEAT_CAP_START \<longrightarrow> cap_start = 0)"
  using assms by (cases "has_feat features JELLO_BC_FEAT_CAP_START")
    (auto simp: read_function_head_def res_simps consumed_adv not_less dest!: reads_need)

lemma consumed_step: "consumed k r r' \<Longrightarrow> rd_ok r \<Longrightarrow> rd_ok r' \<and> rd_off r' \<le> rd_n r'"
  using consumed_ok consumed_bound by blast

lemma consumed_then: "consumed k r r' \<Longrightarrow> consumed l r' r'' \<Longrightarrow> consumed k r r''"
  using consumed_trans consumed_mono by (metis le_add1)

interpretation func: decoder "read_function alloc m" "\<lambda>_. good_function m" 8 for alloc m
proof unfold_locales
  fix r i x r'
  assume r: "rd_ok r" "read_function alloc m i r = Inr (x, r')"
  then obtain nregs cap_start ninsns r0 reg_types r1 sf lines r2 insns where
    h: "read_function_head (m_features m) r = Inr ((nregs, cap_start, ninsns), r0)" and
    t: "(if unat nregs \<noteq> 0 then need_mem alloc ''oom reg_types'' r0 (4 * unat nregs)
        (rd_loop (read_type_id (m_ntypes m) ''reg type out of range'') 0 (unat nregs) r0)
        else Inr ([], r0)) = Inr (reg_types, r1)" and
    l: "read_lines alloc (m_features m) ninsns r1 = Inr ((sf, lines), r2)" and
    s: "read_insns alloc m reg_types nregs ninsns r2 = Inr (insns, r')" and
    x: "x = \<lparr>f_nregs = nregs, f_cap_start = cap_start, f_reg_types = reg_types,
             f_ninsns = ninsns, f_insns = insns, f_source_file = sf,
             f_lines = lines, f_nlines = ninsns\<rparr>"
    unfolding read_function_def rbind_eq_Inr by (auto simp: rbind_eq_Inr unat_eq_0)
  note head = read_function_head_sound [OF r(1) h]
  then have r0: "rd_ok r0" "rd_off r0 \<le> rd_n r0" using consumed_step r(1) by blast+
  note types = type_ids_sound [OF r0 t]
  then have r1: "rd_ok r1" "rd_off r1 \<le> rd_n r1" using consumed_step r0(1) by blast+
  note lns = read_lines_sound [OF r1 l]
  then have r2: "rd_ok r2" "rd_off r2 \<le> rd_n r2" using consumed_step r1(1) by blast+
  note ins = read_insns_sound [OF r2 s]
  have "consumed 8 r r'" using head types lns ins consumed_then by blast
  then show "good_function m x \<and> consumed 8 r r'"
    using head types lns ins x by (simp add: good_function_def good_lines_def good_code_def)
qed

lemma read_function_head_enc:
  assumes "f_nregs f \<le> 256" "\<not> has_feat features JELLO_BC_FEAT_CAP_START \<longrightarrow> f_cap_start f = 0"
    and "reads r (enc_function_head features f)"
  shows "read_function_head features r =
    Inr ((f_nregs f, f_cap_start f, f_ninsns f), adv (length (enc_function_head features f)) r)"
  using assms
  by (cases "has_feat features JELLO_BC_FEAT_CAP_START")
    (auto simp: read_function_head_def enc_function_head_def reads_append rd_steps not_less)

lemma read_lines_enc:
  assumes "good_lines features f" and "reads r (enc_lines features f)"
  shows "read_lines mem_ok features (f_ninsns f) r =
    Inr ((f_source_file f, f_lines f), adv (length (enc_lines features f)) r)"
proof (cases "has_feat features JELLO_BC_FEAT_LINE_TABLE")
  case True
  let ?c = "has_feat features JELLO_BC_FEAT_LINE_COL"
  have n: "length (f_lines f) = unat (f_ninsns f)" "\<forall>l\<in>set (f_lines f). good_line ?c l"
    using assms(1) True by (simp_all add: good_lines_def)
  moreover have "reads (adv 2 r) (concat (map (enc_line ?c) (f_lines f)))"
    using assms(2) True by (simp add: enc_lines_def reads_append)
  ultimately have "rd_loop (read_line ?c) 0 (unat (f_ninsns f)) (adv 2 r) =
      Inr (f_lines f, adv (length (concat (map (enc_line ?c) (f_lines f)))) (adv 2 r))"
    unfolding n(1) [symmetric] by (intro trans [OF line.loop_enc]) auto
  then show ?thesis using True assms(2) n(1)
    by (auto simp: read_lines_def enc_lines_def reads_append rd_steps)
next
  case False
  then show ?thesis using assms by (simp add: read_lines_def good_lines_def enc_lines_def)
qed

lemma read_insns_enc:
  assumes "good_code m f" and "reads r (concat (map enc_insn (f_insns f)))"
  shows "read_insns mem_ok m (f_reg_types f) (f_nregs f) (f_ninsns f) r =
    Inr (f_insns f, adv (length (concat (map enc_insn (f_insns f)))) r)"
proof (cases "f_ninsns f = 0")
  case False
  have n: "length (f_insns f) = unat (f_ninsns f)"
    "\<forall>j<length (f_insns f). good_insn m (f_reg_types f) (f_nregs f) (f_ninsns f) j (f_insns f ! j)"
    "jello_bc_validate_function_semantics (f_insns f) (f_ninsns f) = Some ok"
    using assms(1) False by (simp_all add: good_code_def)
  have "rd_loop (read_insn m (f_reg_types f) (f_nregs f) (f_ninsns f)) 0 (unat (f_ninsns f)) r =
      Inr (f_insns f, adv (length (concat (map enc_insn (f_insns f)))) r)"
    unfolding n(1) [symmetric] using n(2) assms(2) by (intro trans [OF insn.loop_enc]) auto
  then show ?thesis using False n(3) by (simp add: read_insns_def)
qed (use assms in \<open>simp add: read_insns_def good_code_def\<close>)

interpretation func: codec "read_function mem_ok m" "\<lambda>_. good_function m" 8
  "enc_function (m_features m)" "\<lambda>f. f" "\<lambda>_. good_function m" for m
proof unfold_locales
  fix i f r
  assume f: "good_function m f" "reads r (enc_function (m_features m) f)"
  let ?h = "length (enc_function_head (m_features m) f)"
  let ?ts = "concat (map u32_le (f_reg_types f))"
  let ?l = "length (enc_lines (m_features m) f)"
  have g: "f_nregs f \<le> 256" "\<not> has_feat (m_features m) JELLO_BC_FEAT_CAP_START \<longrightarrow> f_cap_start f = 0"
    "length (f_reg_types f) = unat (f_nregs f)" "\<forall>t\<in>set (f_reg_types f). t < m_ntypes m"
    "f_nlines f = f_ninsns f" "good_lines (m_features m) f" "good_code m f"
    using f(1) by (simp_all add: good_function_def)
  have rd: "reads r (enc_function_head (m_features m) f)" "reads (adv ?h r) ?ts"
      "reads (adv (?h + length ?ts) r) (enc_lines (m_features m) f)"
      "reads (adv (?h + length ?ts + ?l) r) (concat (map enc_insn (f_insns f)))"
    using f(2) unfolding enc_function_def reads_append by (simp_all add: add.assoc)
  have t: "(if 0 < f_nregs f then need_mem mem_ok ''oom reg_types'' (adv ?h r) (4 * unat (f_nregs f))
        (rd_loop (read_type_id (m_ntypes m) ''reg type out of range'') 0 (unat (f_nregs f)) (adv ?h r))
      else Inr ([], adv ?h r)) = Inr (f_reg_types f, adv (?h + length ?ts) r)"
  proof (cases "f_nregs f = 0")
    case True
    then have "f_reg_types f = []" using g(3) by simp
    then show ?thesis using True by simp
  next
    case False
    then show ?thesis
      using type_ids_enc [OF g(4) rd(2), of "''reg type out of range''"]
      by (simp only: g(3) adv_simps need_mem_ok u32_neq0 if_True not_False_eq_True)
  qed
  have e: "\<lparr>f_nregs = f_nregs f, f_cap_start = f_cap_start f, f_reg_types = f_reg_types f,
      f_ninsns = f_ninsns f, f_insns = f_insns f, f_source_file = f_source_file f,
      f_lines = f_lines f, f_nlines = f_ninsns f\<rparr> = f"
    using g(5) by (cases f) simp
  show "read_function mem_ok m i r = Inr (f, adv (length (enc_function (m_features m) f)) r)"
    using read_function_head_enc [OF g(1,2) rd(1)] read_lines_enc [OF g(6) rd(3)]
      read_insns_enc [OF g(7) rd(4)]
    by (simp only: read_function_def t e rbind_Inr prod.case)
      (simp add: e enc_function_def add.assoc)
qed

section \<open>Freedom from faults\<close>

text \<open>A reader is free of faults when its failures are error codes of the sources, never an
  out-of-range access or a loop without end. \<open>runs r m\<close>: started at a cursor within a buffer below
  4 GiB, the reader \<open>m\<close> is free of faults and leaves the cursor within the buffer.\<close>

definition no_fault :: "bc_fail + 'a \<Rightarrow> bool" where
  "no_fault m \<longleftrightarrow> (\<forall>e. m = Inl e \<longrightarrow> fail_err e \<noteq> MEMORY_FAULT \<and> fail_err e \<noteq> NO_RETURN)"

definition rd_st :: "rd \<Rightarrow> bool" where
  "rd_st r \<longleftrightarrow> rd_ok r \<and> rd_off r \<le> rd_n r \<and> rd_n r < 2 ^ 32"

definition runs :: "rd \<Rightarrow> 'a rdres \<Rightarrow> bool" where
  "runs r m \<longleftrightarrow> (rd_st r \<longrightarrow> no_fault m \<and> (\<forall>x r'. m = Inr (x, r') \<longrightarrow> rd_st r'))"

lemma no_fault_simps [simp]:
  "no_fault (Inr x)"
  "no_fault (err E msg off) \<longleftrightarrow> E \<noteq> MEMORY_FAULT \<and> E \<noteq> NO_RETURN"
  "no_fault (Inl (set_off off e)) \<longleftrightarrow> fail_err e \<noteq> MEMORY_FAULT \<and> fail_err e \<noteq> NO_RETURN"
  by (auto simp: no_fault_def err_def set_off_def)

lemma runs_rbind:
  assumes "runs r m" "\<And>x r'. m = Inr (x, r') \<Longrightarrow> runs r' (f (x, r'))"
  shows "runs r (rbind m f)"
proof (cases m)
  case (Inl e)
  then have "rbind m f = Inl e" by simp
  moreover have "rd_st r \<Longrightarrow> no_fault (Inl e :: bc_fail + 'a \<times> rd)"
    using assms(1) unfolding runs_def Inl by blast
  ultimately show ?thesis unfolding runs_def no_fault_def by simp
next
  case (Inr p)
  then obtain x r' where p: "m = Inr (x, r')" by (cases p) simp
  then have "rbind m f = f (x, r')" by simp
  moreover have "rd_st r \<Longrightarrow> rd_st r'" using assms(1) p unfolding runs_def by blast
  ultimately show ?thesis using assms(2) [OF p] unfolding runs_def by metis
qed

lemma runs_Inr: "runs r (Inr (x, r))"
  by (simp add: runs_def)

lemma runs_err: "E \<noteq> MEMORY_FAULT \<Longrightarrow> E \<noteq> NO_RETURN \<Longrightarrow> runs r (err E msg off)"
  by (simp add: runs_def)

lemma runs_adv: "rd_need r k \<Longrightarrow> runs r (Inr (x, adv k r))"
  by (simp add: runs_def rd_st_def rd_need_def)

lemma runs_if: "(c \<Longrightarrow> runs r m1) \<Longrightarrow> (\<not> c \<Longrightarrow> runs r m2) \<Longrightarrow> runs r (if c then m1 else m2)"
  by simp

lemma runs_need_mem: "runs r m \<Longrightarrow> runs r (need_mem alloc msg r' b m)"
  by (simp add: need_mem_def runs_def)

lemma runs_rd: "runs r (rd_u8 r)" "runs r (rd_u16 r)" "runs r (rd_u32 r)"
  by (simp_all add: rd_u8_def rd_u16_def rd_u32_def runs_if runs_err runs_adv)

lemma runs_loop: "(\<And>i r. runs r (f i r)) \<Longrightarrow> runs r (rd_loop f i n r)"
proof (induction n arbitrary: i r)
  case (Suc n)
  then show ?case by (auto intro!: runs_rbind runs_Inr)
qed (simp add: runs_Inr)

lemmas runs_intros = runs_rbind runs_Inr runs_err runs_if runs_need_mem runs_rd runs_loop

text \<open>The verifier fails with \<^verbatim>\<open>JELLO_BC_BAD_FORMAT\<close> only.\<close>

definition only_bad :: "bc_check \<Rightarrow> bool" where
  "only_bad v \<longleftrightarrow> (\<forall>e. v = Inl e \<longrightarrow> fail_err e = JELLO_BC_BAD_FORMAT)"

lemma only_bad_simps [simp]:
  "only_bad ok" "only_bad (err E msg off) \<longleftrightarrow> E = JELLO_BC_BAD_FORMAT"
  "only_bad (chk c msg k) \<longleftrightarrow> c \<or> only_bad k"
  "only_bad (if b then x else y) \<longleftrightarrow> (b \<longrightarrow> only_bad x) \<and> (\<not> b \<longrightarrow> only_bad y)"
  by (auto simp: only_bad_def err_def chk_def)

lemma validate_insn_only_bad: "only_bad (jello_bc_validate_insn m rt ins nregs pc ninsns nfuncs)"
  unfolding jello_bc_validate_insn_def validate_control_def validate_calls_def validate_consts_def
    validate_arith_def validate_convs_def validate_cmps_def validate_dyn_def validate_unary_def
    validate_list_array_def validate_bytes_def validate_obj_def validate_array_enum_def Let_def
  by (simp only: only_bad_simps simp_thms if_True)

lemma validate_type_entry_only_bad: "only_bad (validate_type_entry t ntypes nsigs)"
  by (simp add: validate_type_entry_def split: jello_type_kind.splits)

lemma runs_check: "only_bad v \<Longrightarrow> runs r m \<Longrightarrow>
    runs r (case v of Inl e \<Rightarrow> Inl (set_off off e) | Inr u \<Rightarrow> m)"
  by (auto simp: runs_def only_bad_def split: sum.splits)

lemma runs_read_type_entry: "runs r (read_type_entry ntypes nsigs i r)"
  unfolding read_type_entry_def Let_def
  by (auto intro!: runs_intros runs_check validate_type_entry_only_bad split: option.split)

lemma runs_read_types: "runs r (read_types alloc ntypes nsigs r)"
  unfolding read_types_def by (auto intro!: runs_intros runs_read_type_entry)

lemma runs_read_type_id: "runs r (read_type_id ntypes msg i r)"
  unfolding read_type_id_def by (auto intro!: runs_intros)

lemma runs_read_sigs: "runs r (read_sigs alloc nsigs ntypes r)"
  unfolding read_sigs_def read_sig_def by (auto intro!: runs_intros runs_read_type_id)

lemma runs_read_pool64: "runs r (read_pool64 alloc msg n r)"
  unfolding read_pool64_def read_u64_def by (auto intro!: runs_intros)

lemma runs_read_source_files: "runs r (read_source_files alloc r)"
  unfolding read_source_files_def read_source_file_def by (auto intro!: runs_intros runs_adv)

lemma runs_read_lines: "runs r (read_lines alloc features ninsns r)"
  unfolding read_lines_def read_line_def by (auto intro!: runs_intros)

lemma runs_read_insn: "runs r (read_insn m rt nregs ninsns j r)"
  unfolding read_insn_def Let_def
  by (auto intro!: runs_intros runs_check validate_insn_only_bad)

lemma check_case_entries_only_bad: "only_bad (check_case_entries insns tf te n i k)"
  by (induction insns tf te n i k rule: check_case_entries.induct)
    (subst check_case_entries.simps, simp add: Let_def)

lemma switch_tables_only_bad: "switch_tables_from insns n p = Some r \<Longrightarrow> only_bad r"
proof (rule switch_tables_from.raw_induct [where P = "\<lambda>_ _ _ r. only_bad r"])
  fix rec insns n p r
  assume "\<And>insns n p r. rec insns n p = Some r \<Longrightarrow> only_bad r"
    and "(if p < n then
        (let ins = insns ! unat p in
         if i_opc ins = JOP_SWITCH_KIND then
           (let ncases = ucast (i_b ins) :: u32; table_first = p + 1;
                table_end = table_first + ncases in
            if n < table_end then
              Some (err JELLO_BC_BAD_FORMAT ''switch_kind case table out of range'' 0)
            else if bad_target table_end (i_imm ins) n then
              Some (err JELLO_BC_BAD_FORMAT ''switch_kind default target out of range'' 0)
            else
              (case check_case_entries insns table_first table_end n 0 (unat ncases) of
                 Inl e \<Rightarrow> Some (Inl e)
               | Inr _ \<Rightarrow> rec insns n table_end))
         else if i_opc ins = JOP_CASE_KIND then
           Some (err JELLO_BC_BAD_FORMAT ''case_kind without switch_kind'' 0)
         else rec insns n (p + 1))
      else Some ok) = Some r"
  then show "only_bad r" using check_case_entries_only_bad [of insns]
    by (auto simp: Let_def only_bad_def err_def split: if_splits sum.splits)
qed

lemma try_stack_only_bad: "only_bad (try_stack_from insns d)"
  by (induction insns arbitrary: d) auto

lemma function_semantics_only_bad:
  "jello_bc_validate_function_semantics insns n = Some v \<Longrightarrow> only_bad v"
  using switch_tables_only_bad try_stack_only_bad
  by (auto simp: jello_bc_validate_function_semantics_def validate_switch_kind_tables_def
      validate_try_stack_linear_def only_bad_def rbind_eq_Inl split: option.splits)

lemma runs_read_insns: "runs r (read_insns alloc m rt nregs ninsns r)"
proof (cases "rd_st r")
  case True
  then have r: "rd_ok r" "rd_off r \<le> rd_n r" "rd_n r < 2 ^ 32" by (simp_all add: rd_st_def)
  have "runs r1 (case jello_bc_validate_function_semantics insns ninsns of
             None \<Rightarrow> err NO_RETURN ''switch_kind tables'' (rd_off r1)
           | Some (Inl e) \<Rightarrow> Inl (set_off (rd_off r1) e)
           | Some (Inr _) \<Rightarrow> Inr (insns, r1))"
    if l: "rd_loop (read_insn m rt nregs ninsns) 0 (unat ninsns) r = Inr (insns, r1)" for insns r1
  proof -
    have n: "length insns = unat ninsns" and c: "consumed (unat ninsns * 8) r r1"
      using insn.loop_sound [OF r(1,2) l] by simp_all
    have "length insns < 2 ^ 31" using n consumed_bound [OF c] r(3) by simp
    then obtain v where v: "jello_bc_validate_function_semantics insns ninsns = Some v"
      using function_semantics_iff n by metis
    then show ?thesis using function_semantics_only_bad [OF v] by (simp add: runs_check runs_Inr)
  qed
  then show ?thesis unfolding read_insns_def
    by (auto intro!: runs_intros runs_read_insn)
qed (simp add: runs_def)

lemma runs_read_functions: "runs r (read_functions alloc m r)"
  unfolding read_functions_def read_function_def read_function_head_def
  by (auto intro!: runs_intros runs_read_type_id runs_read_lines runs_read_insns)

section \<open>The two-pass tables\<close>

abbreviation blen :: "u8 list \<Rightarrow> u32" where
  "blen bs \<equiv> of_nat (length bs)"

lemma unat_blen [simp]: "good_bytes bs \<Longrightarrow> unat (blen bs) = length bs"
  by (simp add: good_bytes_def unat_of_nat)

lemma blen_eq_0 [simp]: "good_bytes bs \<Longrightarrow> blen bs = 0 \<longleftrightarrow> bs = []"
  using unat_blen [of bs] by (metis length_0_conv unat_eq_0)

text \<open>The first passes read a length and skip the payload.\<close>

lemma skip_enc:
  assumes "good_bytes bs" "reads r (enc_bytes bs)"
  shows "reads r (u32_le (blen bs))" "rd_need (adv 4 r) (length bs)"
    "mem_read (rd_p r) (rd_off r + 4) (length bs) = bs"
  using assms reads_need [of "adv 4 r" bs] reads_mem_read [of "adv 4 r" bs]
  by (simp_all add: enc_bytes_def reads_append)

lemma skip_inv:
  assumes "rd_ok r" "reads r (u32_le len)" "rd_need r (4 + unat len)"
  shows "\<exists>bs. good_bytes bs \<and> len = blen bs \<and> reads r (enc_bytes bs) \<and> length bs = unat len"
proof -
  obtain bs where bs: "length bs = unat len" "reads (adv 4 r) bs"
    using reads_exists [of "adv 4 r" "unat len"] assms by auto
  then have "good_bytes bs" "len = blen bs"
    using unsigned_less [of len] by (simp_all add: good_bytes_def)
  then show ?thesis using bs assms(2) by (intro exI [of _ bs]) (simp add: enc_bytes_def reads_append)
qed

lemma length_enc_bytes [simp]: "length (enc_bytes bs) = 4 + length bs"
  by (simp add: enc_bytes_def)

lemma skip_atom_step:
  "rd_ok r \<Longrightarrow> skip_atom i r = Inr (x, r') \<Longrightarrow>
   reads r (u32_le x) \<and> rd_need r (4 + unat x) \<and> r' = adv (4 + unat x) r"
  by (auto simp: skip_atom_def res_simps dest: reads_need split: if_splits)

interpretation atom: exact_codec skip_atom "\<lambda>_ _. True" 4 enc_bytes blen "\<lambda>_. good_bytes"
proof unfold_locales
  fix r i x r'
  assume "rd_ok r" "skip_atom i r = Inr (x, r')"
  then show "True \<and> consumed 4 r r'"
    using skip_atom_step by (fastforce simp: consumed_adv)
next
  fix i y r
  assume "good_bytes y" "reads r (enc_bytes y)"
  then show "skip_atom i r = Inr (blen y, adv (length (enc_bytes y)) r)"
    using skip_enc [of y r] by (auto simp: skip_atom_def rd_steps)
next
  fix r i x r'
  assume r: "rd_ok r" "skip_atom i r = Inr (x, r')"
  then have "reads r (u32_le x)" "rd_need r (4 + unat x)" "r' = adv (4 + unat x) r"
    using skip_atom_step by blast+
  then show "\<exists>y. good_bytes y \<and> x = blen y \<and> reads r (enc_bytes y) \<and> r' = adv (length (enc_bytes y)) r"
    using skip_inv [OF r(1)] by fastforce
qed

lemma skip_bytes_step:
  "rd_ok r \<Longrightarrow> skip_bytes i r = Inr (x, r') \<Longrightarrow>
   reads r (u32_le x) \<and> rd_need r (4 + unat x) \<and> r' = adv (4 + unat x) r"
  by (auto simp: skip_bytes_def res_simps dest: reads_need split: if_splits)

interpretation bytes_item: exact_codec skip_bytes "\<lambda>_ _. True" 4 enc_bytes blen "\<lambda>_. good_bytes"
proof unfold_locales
  fix r i x r'
  assume "rd_ok r" "skip_bytes i r = Inr (x, r')"
  then show "True \<and> consumed 4 r r'"
    using skip_bytes_step by (fastforce simp: consumed_adv)
next
  fix i y r
  assume "good_bytes y" "reads r (enc_bytes y)"
  then show "skip_bytes i r = Inr (blen y, adv (length (enc_bytes y)) r)"
    using skip_enc [of y r] by (auto simp: skip_bytes_def rd_steps)
next
  fix r i x r'
  assume r: "rd_ok r" "skip_bytes i r = Inr (x, r')"
  then have "reads r (u32_le x)" "rd_need r (4 + unat x)" "r' = adv (4 + unat x) r"
    using skip_bytes_step by blast+
  then show "\<exists>y. good_bytes y \<and> x = blen y \<and> reads r (enc_bytes y) \<and> r' = adv (length (enc_bytes y)) r"
    using skip_inv [OF r(1)] by fastforce
qed

text \<open>The second passes, on the payloads found by the first.\<close>

lemma copy_atoms_enc:
  assumes "\<forall>bs\<in>set bss. good_bytes bs" "reads r (concat (map enc_bytes bss))"
    and "w + sum_list (map (\<lambda>bs. length bs + 1) bss) \<le> tot"
  shows "copy_atoms (map blen bss) tot w r =
    Inr (bss, adv (length (concat (map enc_bytes bss))) r)"
  using assms
proof (induction bss arbitrary: w r)
  case (Cons bs bss)
  then have bs: "good_bytes bs" "reads r (enc_bytes bs)"
    "reads (adv (4 + length bs) r) (concat (map enc_bytes bss))"
    by (simp_all add: reads_append)
  from Cons.IH [OF _ this(3), of "w + length bs + 1"] Cons.prems
  show ?case using skip_enc [OF bs(1,2)] bs(1) by (simp add: rd_steps Let_def add.assoc)
qed simp

lemma offsets_zip_Cons [simp]:
  "zip (map blen (bs # bss)) (offsets_from o' (map blen (bs # bss))) =
   (blen bs, o') # zip (map blen bss) (offsets_from (o' + blen bs) (map blen bss))"
  by simp

lemma mem_write_zeros:
  "mem_write (pre @ replicate (length bs + n) 0) (length pre) bs = (pre @ bs) @ replicate n 0"
  by (simp add: mem_write_def)

lemma copy_bytes_enc:
  assumes "\<forall>bs\<in>set bss. good_bytes bs" "reads r (concat (map enc_bytes bss))"
    and "length pre + length (concat bss) < 2 ^ 32"
  shows "copy_bytes (zip (map blen bss) (offsets_from (of_nat (length pre)) (map blen bss)))
      (pre @ replicate (length (concat bss)) 0) r =
    Inr (pre @ concat bss, adv (length (concat (map enc_bytes bss))) r)"
  using assms
proof (induction bss arbitrary: pre r)
  case (Cons bs bss)
  then have bs: "good_bytes bs" "reads r (enc_bytes bs)"
    "reads (adv (4 + length bs) r) (concat (map enc_bytes bss))"
    by (simp_all add: reads_append)
  have l: "unat (of_nat (length pre) :: u32) = length pre"
    using Cons.prems(3) by (simp add: unat_of_nat)
  have "copy_bytes (zip (map blen bss) (offsets_from (of_nat (length (pre @ bs))) (map blen bss)))
      ((pre @ bs) @ replicate (length (concat bss)) 0) (adv (4 + length bs) r) =
    Inr ((pre @ bs) @ concat bss, adv (length (concat (map enc_bytes bss))) (adv (4 + length bs) r))"
    using Cons.prems bs(3) by (intro Cons.IH) auto
  then show ?case
    using skip_enc [OF bs(1,2)] bs(1) l mem_write_zeros [of pre bs "length (concat bss)"]
    by (cases "bs = []") (simp_all add: rd_steps add.assoc del: length_concat)
qed simp

subsection \<open>Atoms\<close>

lemma all_nth_set: "(\<forall>k<length xs. P (xs ! k)) \<longleftrightarrow> (\<forall>x\<in>set xs. P x)"
  by (simp add: all_set_conv_all_nth)

lemma rd_reset [simp]: "(adv k r)\<lparr>rd_off := rd_off r\<rparr> = r"
  by (simp add: adv_def)

lemma read_atoms_enc:
  assumes "unat natoms = length atoms" "\<forall>bs\<in>set atoms. good_bytes bs"
    and "reads r (concat (map enc_bytes atoms))"
  shows "read_atoms mem_ok natoms r =
    Inr ((atoms, is_proto_table atoms), adv (length (concat (map enc_bytes atoms))) r)"
proof (cases "natoms = 0")
  case False
  have l: "rd_loop skip_atom 0 (unat natoms) r =
      Inr (map blen atoms, adv (length (concat (map enc_bytes atoms))) r)"
    unfolding assms(1) using assms(2,3) by (intro atom.loop_enc) auto
  have "sum_list (map (\<lambda>len. unat len + 1) (map blen atoms)) = sum_list (map (\<lambda>bs. length bs + 1) atoms)"
    using assms(2) by (auto simp: o_def intro!: arg_cong [where f = sum_list])
  then have "copy_atoms (map blen atoms) (sum_list (map (\<lambda>len. unat len + 1) (map blen atoms))) 0 r =
      Inr (atoms, adv (length (concat (map enc_bytes atoms))) r)"
    using assms(2,3) by (intro copy_atoms_enc) simp_all
  then show ?thesis using False l by (simp add: read_atoms_def Let_def)
qed (use assms in \<open>simp add: read_atoms_def is_proto_table_def\<close>)

lemma first_pass_atoms:
  assumes "rd_ok r" "rd_off r \<le> rd_n r" "rd_loop skip_atom 0 n r = Inr (lens, r1)"
  shows "\<exists>atoms. length atoms = n \<and> (\<forall>bs\<in>set atoms. good_bytes bs) \<and>
    r1\<lparr>rd_off := rd_off r\<rparr> = r \<and> consumed 0 r (adv (length (concat (map enc_bytes atoms))) r) \<and>
    copy_atoms lens (sum_list (map (\<lambda>len. unat len + 1) lens)) 0 r =
      Inr (atoms, adv (length (concat (map enc_bytes atoms))) r)"
proof -
  from atom.loop_inv [OF assms] obtain atoms where
    a: "length atoms = n" "\<forall>k<n. good_bytes (atoms ! k)" "lens = map blen atoms"
      "reads r (concat (map enc_bytes atoms))" "r1 = adv (length (concat (map enc_bytes atoms))) r"
    by blast
  have g: "\<forall>bs\<in>set atoms. good_bytes bs" using a(1,2) all_nth_set by metis
  have "sum_list (map (\<lambda>len. unat len + 1) lens) = sum_list (map (\<lambda>bs. length bs + 1) atoms)"
    using g a(3) by (auto simp: o_def intro!: arg_cong [where f = sum_list])
  then have "copy_atoms lens (sum_list (map (\<lambda>len. unat len + 1) lens)) 0 r =
      Inr (atoms, adv (length (concat (map enc_bytes atoms))) r)"
    using a(3,4) g by (simp add: copy_atoms_enc)
  then show ?thesis using a g reads_need [OF a(4)] by (auto simp: consumed_adv simp del: length_concat)
qed

lemma read_atoms_sound:
  assumes "rd_ok r" "rd_off r \<le> rd_n r" "read_atoms alloc natoms r = Inr ((atoms, p), r')"
  shows "length atoms = unat natoms \<and> (\<forall>bs\<in>set atoms. good_bytes bs) \<and> p = is_proto_table atoms \<and>
    consumed 0 r r'"
proof (cases "natoms = 0")
  case True
  then show ?thesis using assms by (simp add: read_atoms_def is_proto_table_def consumed_refl)
next
  case False
  then obtain lens r1 where l: "rd_loop skip_atom 0 (unat natoms) r = Inr (lens, r1)"
    using assms(3) by (auto simp: read_atoms_def need_mem_def rbind_eq_Inr Let_def split: if_splits)
  from first_pass_atoms [OF assms(1,2) this] assms(3) False l
  show ?thesis by (auto simp: read_atoms_def need_mem_def Let_def split: if_splits)
qed

lemma runs_read_atoms: "runs r (read_atoms alloc natoms r)"
proof (cases "rd_st r \<and> natoms \<noteq> 0")
  case True
  then have r: "rd_ok r" "rd_off r \<le> rd_n r" by (simp_all add: rd_st_def)
  have s: "runs r (rd_loop skip_atom 0 (unat natoms) r)"
    unfolding skip_atom_def by (auto intro!: runs_intros runs_adv)
  show ?thesis
  proof (cases "rd_loop skip_atom 0 (unat natoms) r")
    case (Inl e)
    then show ?thesis using s True
      by (auto simp: read_atoms_def runs_def Let_def no_fault_def need_mem_def err_def)
  next
    case (Inr p)
    then obtain lens r1 where l: "rd_loop skip_atom 0 (unat natoms) r = Inr (lens, r1)"
      by (cases p) simp
    from first_pass_atoms [OF r this] l True show ?thesis
      by (auto simp: read_atoms_def runs_def need_mem_def Let_def rd_st_def consumed_adv rd_need_def)
  qed
qed (auto simp: read_atoms_def runs_def)

subsection \<open>The bytes pool\<close>

fun chunks :: "u32 list \<Rightarrow> u8 list \<Rightarrow> u8 list list" where
  "chunks [] bs = []"
| "chunks (l # lens) bs = take (unat l) bs # chunks lens (drop (unat l) bs)"

definition good_pool :: "nat \<Rightarrow> u32 list \<Rightarrow> u32 list \<Rightarrow> u8 list \<Rightarrow> bool" where
  "good_pool n lens offs blob \<longleftrightarrow>
     length lens = n \<and> offs = offsets_from 0 lens \<and> length blob = sum_list (map unat lens) \<and>
     length blob < 2 ^ 32"

lemma unat_sum_list: "sum_list (map unat lens) < 2 ^ 32 \<Longrightarrow> unat (sum_list lens :: u32) = sum_list (map unat lens)"
  by (induction lens) (simp_all add: unat_word_ariths)

lemma chunks_blob:
  "length blob = sum_list (map unat lens) \<Longrightarrow>
   concat (chunks lens blob) = blob \<and> map length (chunks lens blob) = map unat lens"
  by (induction lens arbitrary: blob) (auto simp: min_def)

lemma chunks_good:
  "length blob = sum_list (map unat lens) \<Longrightarrow>
   (\<forall>bs\<in>set (chunks lens blob). good_bytes bs) \<and> map blen (chunks lens blob) = lens"
proof (induction lens arbitrary: blob)
  case (Cons l lens)
  have "length (take (unat l) blob) = unat l" using Cons.prems by simp
  then show ?case using Cons.IH [of "drop (unat l) blob"] Cons.prems unsigned_less [of l]
    by (simp add: good_bytes_def)
qed simp

lemma chunks_concat:
  "\<forall>bs\<in>set bss. good_bytes bs \<Longrightarrow> chunks (map blen bss) (concat bss) = bss"
  by (induction bss) simp_all

lemma read_const_bytes_enc:
  assumes g: "good_pool (unat n) lens offs blob"
    and "reads r (concat (map enc_bytes (chunks lens blob)))"
  shows "read_const_bytes mem_ok n r =
    Inr ((lens, offs, blob), adv (length (concat (map enc_bytes (chunks lens blob)))) r)"
proof (cases "n = 0")
  case False
  let ?bss = "chunks lens blob"
  have b: "length blob = sum_list (map unat lens)" "length lens = unat n" "offs = offsets_from 0 lens"
      "length blob < 2 ^ 32"
    using g by (simp_all add: good_pool_def)
  have c: "\<forall>bs\<in>set ?bss. good_bytes bs" "map blen ?bss = lens" "concat ?bss = blob"
    using chunks_good [OF b(1)] chunks_blob [OF b(1)] by simp_all
  have n: "length ?bss = unat n" using b(2) c(2) by (metis length_map)
  have "rd_loop skip_bytes 0 (unat n) r = Inr (lens, adv (length (concat (map enc_bytes ?bss))) r)"
    using bytes_item.loop_enc [where ys = ?bss and i = 0 and r = r] c(1,2) assms(2) n by simp
  moreover have "copy_bytes (zip lens (offsets_from 0 lens)) (replicate (length blob) 0) r =
      Inr (blob, adv (length (concat (map enc_bytes ?bss))) r)"
    using copy_bytes_enc [OF c(1) assms(2), of "[]"] c b(4) by simp
  moreover have "unat (sum_list lens) = length blob" using unat_sum_list b by simp
  ultimately show ?thesis using False b(3)
    by (simp add: read_const_bytes_def Let_def del: length_concat)
next
  case True
  then show ?thesis using g by (auto simp: read_const_bytes_def good_pool_def)
qed

lemma first_pass_bytes:
  assumes "rd_ok r" "rd_off r \<le> rd_n r" "rd_n r < 2 ^ 32" "rd_loop skip_bytes 0 n r = Inr (lens, r1)"
  shows "\<exists>blob k. good_pool n lens (offsets_from 0 lens) blob \<and> r1 = adv k r \<and> rd_need r k \<and>
    copy_bytes (zip lens (offsets_from 0 lens)) (replicate (unat (sum_list lens)) 0) r =
      Inr (blob, adv k r)"
proof -
  from bytes_item.loop_inv [OF assms(1,2,4)] obtain bss where
    a: "length bss = n" "\<forall>k<n. good_bytes (bss ! k)" "lens = map blen bss"
      "reads r (concat (map enc_bytes bss))" "r1 = adv (length (concat (map enc_bytes bss))) r"
    by blast
  have g: "\<forall>bs\<in>set bss. good_bytes bs" using a(1,2) all_nth_set by metis
  have need: "rd_need r (length (concat (map enc_bytes bss)))" by (rule reads_need [OF a(4)])
  have "length (concat bss) \<le> length (concat (map enc_bytes bss))"
    by (simp add: length_concat o_def sum_list_mono)
  then have lt: "length (concat bss) < 2 ^ 32" using need assms(3) unfolding rd_need_def by linarith
  have s: "sum_list (map unat lens) = length (concat bss)"
    using g a(3) by (auto simp: o_def length_concat intro!: arg_cong [where f = sum_list])
  then have "unat (sum_list lens) = length (concat bss)" using unat_sum_list lt by simp
  then have "copy_bytes (zip lens (offsets_from 0 lens)) (replicate (unat (sum_list lens)) 0) r =
      Inr (concat bss, adv (length (concat (map enc_bytes bss))) r)"
    using copy_bytes_enc [OF g a(4), of "[]"] lt a(3) by simp
  moreover have "good_pool n lens (offsets_from 0 lens) (concat bss)"
    using a(1,3) s lt by (simp add: good_pool_def)
  ultimately show ?thesis using a(5) need by blast
qed

lemma read_const_bytes_sound:
  assumes "rd_ok r" "rd_off r \<le> rd_n r" "rd_n r < 2 ^ 32"
    and "read_const_bytes alloc n r = Inr ((lens, offs, blob), r')"
  shows "good_pool (unat n) lens offs blob \<and> consumed 0 r r'"
proof (cases "n = 0")
  case True
  then show ?thesis using assms by (simp add: read_const_bytes_def good_pool_def consumed_refl)
next
  case False
  then obtain lens' r1 where l: "rd_loop skip_bytes 0 (unat n) r = Inr (lens', r1)"
    using assms(4) by (auto simp: read_const_bytes_def rbind_eq_Inr Let_def split: if_splits)
  from first_pass_bytes [OF assms(1-3) this] assms(4) False l
  show ?thesis by (auto simp: read_const_bytes_def Let_def consumed_adv split: if_splits)
qed

lemma runs_read_const_bytes: "runs r (read_const_bytes alloc n r)"
proof (cases "rd_st r \<and> n \<noteq> 0")
  case True
  then have r: "rd_ok r" "rd_off r \<le> rd_n r" "rd_n r < 2 ^ 32" by (simp_all add: rd_st_def)
  have s: "runs r (rd_loop skip_bytes 0 (unat n) r)"
    unfolding skip_bytes_def by (auto intro!: runs_intros runs_adv)
  show ?thesis
  proof (cases "rd_loop skip_bytes 0 (unat n) r")
    case (Inl e)
    then show ?thesis using s True
      by (auto simp: read_const_bytes_def runs_def Let_def no_fault_def err_def)
  next
    case (Inr p)
    then obtain lens r1 where l: "rd_loop skip_bytes 0 (unat n) r = Inr (lens, r1)"
      by (cases p) simp
    from first_pass_bytes [OF r this] l True show ?thesis
      by (auto simp: read_const_bytes_def runs_def Let_def rd_st_def rd_need_def)
  qed
qed (auto simp: read_const_bytes_def runs_def)

section \<open>Modules\<close>

text \<open>The module a header describes, before its tables are read.\<close>

definition header_of :: "jello_bc_module \<Rightarrow> jello_bc_module" where
  "header_of m = zero_module
     \<lparr>m_version := m_version m, m_features := m_features m, m_ntypes := m_ntypes m,
      m_nsigs := m_nsigs m, m_natoms := m_natoms m, m_nfuncs := m_nfuncs m, m_entry := m_entry m,
      m_nconst_i64 := m_nconst_i64 m, m_nconst_f64 := m_nconst_f64 m,
      m_nconst_bytes := m_nconst_bytes m\<rparr>"

definition enc_header :: "jello_bc_module \<Rightarrow> u8 list" where
  "enc_header m =
     u32_le (m_version m) @ u32_le (m_features m) @ u32_le (m_ntypes m) @ u32_le (m_nsigs m) @
     u32_le (m_natoms m) @ u32_le (m_nfuncs m) @ u32_le (m_entry m) @
     (if has_feat (m_features m) JELLO_BC_FEAT_CONST64 then
        u32_le (m_nconst_i64 m) @ u32_le (m_nconst_f64 m) else []) @
     (if has_feat (m_features m) JELLO_BC_FEAT_CONSTBYTES then u32_le (m_nconst_bytes m) else [])"

definition enc_pools :: "jello_bc_module \<Rightarrow> u8 list" where
  "enc_pools m =
     (if has_feat (m_features m) JELLO_BC_FEAT_CONST64 then
        concat (map u64_le (m_const_i64 m)) @ concat (map u64_le (m_const_f64 m)) else [])"

definition enc_bytes_pool :: "jello_bc_module \<Rightarrow> u8 list" where
  "enc_bytes_pool m =
     (if has_feat (m_features m) JELLO_BC_FEAT_CONSTBYTES then
        concat (map enc_bytes (chunks (m_const_bytes_len m) (m_const_bytes_data m))) else [])"

definition enc_sources :: "jello_bc_module \<Rightarrow> u8 list" where
  "enc_sources m =
     (if has_feat (m_features m) JELLO_BC_FEAT_LINE_TABLE then
        u32_le (m_nsource_files m) @ concat (map enc_bytes (m_source_files m)) else [])"

definition enc_body :: "jello_bc_module \<Rightarrow> u8 list" where
  "enc_body m =
     concat (map enc_type (m_types m)) @ concat (map enc_sig (m_sigs m)) @
     concat (map enc_bytes (m_atoms m)) @ enc_pools m @ enc_bytes_pool m @ enc_sources m @
     concat (map (enc_function (m_features m)) (m_funcs m))"

definition enc_module :: "jello_bc_module \<Rightarrow> u8 list" where
  "enc_module m = u32_le JELLO_BC_MAGIC @ enc_header m @ enc_body m"

definition wf_header :: "jello_bc_module \<Rightarrow> bool" where
  "wf_header m \<longleftrightarrow>
     m_version m = 1 \<and> m_entry m < m_nfuncs m \<and>
     (\<not> has_feat (m_features m) JELLO_BC_FEAT_CONST64 \<longrightarrow> m_nconst_i64 m = 0 \<and> m_nconst_f64 m = 0) \<and>
     (\<not> has_feat (m_features m) JELLO_BC_FEAT_CONSTBYTES \<longrightarrow> m_nconst_bytes m = 0)"

definition wf_tables :: "jello_bc_module \<Rightarrow> bool" where
  "wf_tables m \<longleftrightarrow>
     length (m_types m) = unat (m_ntypes m) \<and> (\<forall>t\<in>set (m_types m). good_type (m_ntypes m) (m_nsigs m) t) \<and>
     length (m_sigs m) = unat (m_nsigs m) \<and> (\<forall>s\<in>set (m_sigs m). good_sig (m_ntypes m) s) \<and>
     length (m_atoms m) = unat (m_natoms m) \<and> (\<forall>bs\<in>set (m_atoms m). good_bytes bs) \<and>
     m_proto_enabled m = is_proto_table (m_atoms m)"

definition wf_pools :: "jello_bc_module \<Rightarrow> bool" where
  "wf_pools m \<longleftrightarrow>
     length (m_const_i64 m) = unat (m_nconst_i64 m) \<and> length (m_const_f64 m) = unat (m_nconst_f64 m) \<and>
     good_pool (unat (m_nconst_bytes m)) (m_const_bytes_len m) (m_const_bytes_off m) (m_const_bytes_data m) \<and>
     length (m_source_files m) = unat (m_nsource_files m) \<and> (\<forall>bs\<in>set (m_source_files m). good_bytes bs) \<and>
     (\<not> has_feat (m_features m) JELLO_BC_FEAT_LINE_TABLE \<longrightarrow> m_nsource_files m = 0)"

definition wf_module :: "jello_bc_module \<Rightarrow> bool" where
  "wf_module m \<longleftrightarrow> wf_header m \<and> wf_tables m \<and> wf_pools m \<and>
     length (m_funcs m) = unat (m_nfuncs m) \<and> (\<forall>f\<in>set (m_funcs m). good_function m f)"

text \<open>The verifier does not look at the functions of the module under construction.\<close>

lemma reg_lookup_m_funcs [simp]:
  "rk (m\<lparr>m_funcs := fs\<rparr>) = rk m" "slot_size (m\<lparr>m_funcs := fs\<rparr>) = slot_size m"
  "is_enum_reg (m\<lparr>m_funcs := fs\<rparr>) = is_enum_reg m" "elem_of (m\<lparr>m_funcs := fs\<rparr>) = elem_of m"
  by (auto simp: fun_eq_iff rk_def slot_size_def is_enum_reg_def elem_of_def)

lemma field_m_funcs:
  "m_natoms (m\<lparr>m_funcs := fs\<rparr>) = m_natoms m" "m_ntypes (m\<lparr>m_funcs := fs\<rparr>) = m_ntypes m"
  "m_types (m\<lparr>m_funcs := fs\<rparr>) = m_types m" "m_nconst_i64 (m\<lparr>m_funcs := fs\<rparr>) = m_nconst_i64 m"
  "m_nconst_f64 (m\<lparr>m_funcs := fs\<rparr>) = m_nconst_f64 m"
  "m_nconst_bytes (m\<lparr>m_funcs := fs\<rparr>) = m_nconst_bytes m"
  by simp_all

lemma validate_insn_m_funcs [simp]:
  "jello_bc_validate_insn (m\<lparr>m_funcs := fs\<rparr>) = jello_bc_validate_insn m"
  unfolding fun_eq_iff jello_bc_validate_insn_def validate_control_def validate_calls_def
      validate_consts_def validate_arith_def validate_convs_def validate_cmps_def validate_dyn_def
      validate_unary_def validate_list_array_def validate_bytes_def validate_obj_def
      validate_array_enum_def
  by (simp only: reg_lookup_m_funcs field_m_funcs simp_thms)

lemma good_function_m_funcs [simp]: "good_function (m\<lparr>m_funcs := fs\<rparr>) = good_function m"
  by (simp add: fun_eq_iff good_function_def good_code_def good_insn_def)

subsection \<open>The header\<close>

lemma read_header_enc:
  assumes "wf_header m" "reads r (enc_header m)"
  shows "read_header r = Inr (header_of m, adv (length (enc_header m)) r)"
  using assms unfolding wf_header_def
  by (cases "has_feat (m_features m) JELLO_BC_FEAT_CONST64";
      cases "has_feat (m_features m) JELLO_BC_FEAT_CONSTBYTES")
    (auto simp: read_header_def enc_header_def reads_append rd_steps header_of_def not_le)

lemma read_header_sound:
  assumes "rd_ok r" "read_header r = Inr (m, r')"
  shows "wf_header m \<and> header_of m = m \<and> consumed 0 r r'"
  using assms
  by (auto simp: read_header_def res_simps wf_header_def header_of_def zero_module_def not_le
      consumed_adv dest!: reads_need split: if_splits)

lemma runs_read_header: "runs r (read_header r)"
  unfolding read_header_def by (auto intro!: runs_intros)

subsection \<open>The body\<close>

lemma read_types_enc:
  assumes "wf_tables m" "reads r (concat (map enc_type (m_types m)))"
  shows "read_types mem_ok (m_ntypes m) (m_nsigs m) r =
    Inr (m_types m, adv (length (concat (map enc_type (m_types m)))) r)"
  unfolding read_types_def
  by (subst type_entry.table_enc [where ys = "m_types m"]) (use assms in \<open>auto simp: wf_tables_def\<close>)

lemma read_sigs_enc:
  assumes "wf_tables m" "reads r (concat (map enc_sig (m_sigs m)))"
  shows "read_sigs mem_ok (m_nsigs m) (m_ntypes m) r =
    Inr (m_sigs m, adv (length (concat (map enc_sig (m_sigs m)))) r)"
  unfolding read_sigs_def
  by (subst sig.table_enc [where ys = "m_sigs m"]) (use assms in \<open>auto simp: wf_tables_def\<close>)

lemma read_pool64_enc:
  assumes "length xs = unat n" "reads r (concat (map u64_le xs))"
  shows "read_pool64 mem_ok msg n r = Inr (xs, adv (length (concat (map u64_le xs))) r)"
  unfolding read_pool64_def
  by (subst pool64.table_enc [where ys = xs]) (use assms in auto)

lemma read_pools_enc:
  assumes "wf_header m" "wf_pools m" "reads r (enc_pools m)"
  shows "read_pools mem_ok m r = Inr ((m_const_i64 m, m_const_f64 m), adv (length (enc_pools m)) r)"
  using assms unfolding read_pools_def enc_pools_def wf_pools_def wf_header_def
  by (auto simp: reads_append read_pool64_enc simp del: length_concat)

lemma read_bytes_pool_enc:
  assumes "wf_header m" "wf_pools m" "reads r (enc_bytes_pool m)"
  shows "(if has_feat (m_features m) JELLO_BC_FEAT_CONSTBYTES then
        read_const_bytes mem_ok (m_nconst_bytes m) r else Inr (([], [], []), r)) =
    Inr ((m_const_bytes_len m, m_const_bytes_off m, m_const_bytes_data m),
         adv (length (enc_bytes_pool m)) r)"
proof (cases "has_feat (m_features m) JELLO_BC_FEAT_CONSTBYTES")
  case True
  then show ?thesis using assms read_const_bytes_enc
    by (simp add: enc_bytes_pool_def wf_pools_def del: length_concat)
next
  case False
  then show ?thesis using assms
    by (auto simp: enc_bytes_pool_def wf_pools_def wf_header_def good_pool_def)
qed

lemma read_sources_enc:
  assumes "wf_pools m" "reads r (enc_sources m)"
  shows "(if has_feat (m_features m) JELLO_BC_FEAT_LINE_TABLE then read_source_files mem_ok r
      else Inr ((0, []), r)) =
    Inr ((m_nsource_files m, m_source_files m), adv (length (enc_sources m)) r)"
proof (cases "has_feat (m_features m) JELLO_BC_FEAT_LINE_TABLE")
  case True
  let ?n = "m_nsource_files m" and ?fs = "m_source_files m"
  have r: "reads r (u32_le ?n)" "reads (adv 4 r) (concat (map enc_bytes ?fs))"
    using assms(2) True by (simp_all add: enc_sources_def reads_append)
  have w: "length ?fs = unat ?n" "\<forall>bs\<in>set ?fs. good_bytes bs"
    using assms(1) by (simp_all add: wf_pools_def)
  have l: "rd_loop (read_source_file mem_ok) 0 (unat ?n) (adv 4 r) =
      Inr (?fs, adv (length (concat (map enc_bytes ?fs))) (adv 4 r))"
    unfolding w(1) [symmetric] by (subst source_file.loop_enc) (use w r in auto)
  have "enc_sources m = u32_le ?n @ concat (map enc_bytes ?fs)" using True by (simp add: enc_sources_def)
  then show ?thesis
  proof (cases "?n = 0")
    case True
    then have "?fs = []" using w(1) by simp
    then show ?thesis using r(1) True \<open>has_feat _ _\<close> by (auto simp: read_source_files_def rd_steps enc_sources_def)
  next
    case False
    then show ?thesis using r(1) l \<open>has_feat _ _\<close>
      by (simp add: read_source_files_def rd_steps enc_sources_def del: length_concat)
  qed
next
  case False
  then show ?thesis using assms by (auto simp: wf_pools_def enc_sources_def)
qed

lemma read_functions_enc:
  assumes "length (m_funcs m) = unat (m_nfuncs m)" "\<forall>f\<in>set (m_funcs m). good_function m f"
    and "reads r (concat (map (enc_function (m_features m)) (m_funcs m)))"
  shows "read_functions mem_ok (m\<lparr>m_funcs := []\<rparr>) r =
    Inr (m_funcs m, adv (length (concat (map (enc_function (m_features m)) (m_funcs m)))) r)"
  unfolding read_functions_def
  by (subst func.table_enc [where ys = "m_funcs m"]) (use assms in auto)

lemma read_body_enc:
  assumes w: "wf_module m" and r: "reads r (enc_body m)"
  shows "read_body mem_ok (header_of m) r = Inr (m, adv (length (enc_body m)) r)"
proof -
  have w': "wf_header m" "wf_tables m" "wf_pools m" "length (m_funcs m) = unat (m_nfuncs m)"
      "\<forall>f\<in>set (m_funcs m). good_function m f"
    using w by (simp_all add: wf_module_def)
  let ?k1 = "length (concat (map enc_type (m_types m)))"
  let ?k2 = "?k1 + length (concat (map enc_sig (m_sigs m)))"
  let ?k3 = "?k2 + length (concat (map enc_bytes (m_atoms m)))"
  let ?k4 = "?k3 + length (enc_pools m)"
  let ?k5 = "?k4 + length (enc_bytes_pool m)"
  let ?k6 = "?k5 + length (enc_sources m)"
  have s: "reads r (concat (map enc_type (m_types m)))"
    "reads (adv ?k1 r) (concat (map enc_sig (m_sigs m)))"
    "reads (adv ?k2 r) (concat (map enc_bytes (m_atoms m)))"
    "reads (adv ?k3 r) (enc_pools m)" "reads (adv ?k4 r) (enc_bytes_pool m)"
    "reads (adv ?k5 r) (enc_sources m)"
    "reads (adv ?k6 r) (concat (map (enc_function (m_features m)) (m_funcs m)))"
    using r unfolding enc_body_def reads_append by (simp_all only: adv_simps)
  have h: "m_ntypes (header_of m) = m_ntypes m" "m_nsigs (header_of m) = m_nsigs m"
    "m_natoms (header_of m) = m_natoms m" "m_features (header_of m) = m_features m"
    "m_nconst_bytes (header_of m) = m_nconst_bytes m"
    "read_pools mem_ok (header_of m) = read_pools mem_ok m"
    by (simp_all add: header_of_def read_pools_def fun_eq_iff)
  have a: "read_atoms mem_ok (m_natoms m) (adv ?k2 r) =
      Inr ((m_atoms m, m_proto_enabled m), adv (length (concat (map enc_bytes (m_atoms m)))) (adv ?k2 r))"
    using read_atoms_enc [OF _ _ s(3)] w'(2) by (simp add: wf_tables_def del: length_concat)
  have m: "(header_of m)\<lparr>m_types := m_types m, m_sigs := m_sigs m, m_atoms := m_atoms m,
      m_proto_enabled := m_proto_enabled m, m_const_i64 := m_const_i64 m,
      m_const_f64 := m_const_f64 m, m_const_bytes_len := m_const_bytes_len m,
      m_const_bytes_off := m_const_bytes_off m, m_const_bytes_data := m_const_bytes_data m,
      m_nsource_files := m_nsource_files m, m_source_files := m_source_files m\<rparr> = m\<lparr>m_funcs := []\<rparr>"
    by (cases m) (simp add: header_of_def zero_module_def)
  have m2: "m\<lparr>m_funcs := [], m_funcs := m_funcs m\<rparr> = m" by simp
  have e: "adv (length (enc_body m)) r =
      adv (length (concat (map (enc_function (m_features m)) (m_funcs m)))) (adv ?k6 r)"
    by (simp add: enc_body_def add.assoc del: length_concat)
  show ?thesis
    unfolding read_body_def h e
    by (simp only: read_types_enc [OF w'(2) s(1)] read_sigs_enc [OF w'(2) s(2)] a rbind_Inr prod.case
        adv_simps(5) read_pools_enc [OF w'(1,3) s(4)] read_bytes_pool_enc [OF w'(1,3) s(5)]
        read_sources_enc [OF w'(3) s(6)] Let_def m read_functions_enc [OF w'(4,5) s(7)] m2)
qed

lemma read_pools_sound:
  assumes "rd_ok r" "rd_off r \<le> rd_n r" "wf_header m" "read_pools alloc m r = Inr ((ci, cf), r')"
  shows "length ci = unat (m_nconst_i64 m) \<and> length cf = unat (m_nconst_f64 m) \<and> consumed 0 r r'"
proof (cases "has_feat (m_features m) JELLO_BC_FEAT_CONST64")
  case True
  then obtain r1 where
    i: "read_pool64 alloc ''oom const_i64'' (m_nconst_i64 m) r = Inr (ci, r1)" and
    f: "read_pool64 alloc ''oom const_f64'' (m_nconst_f64 m) r1 = Inr (cf, r')"
    using assms(4) by (auto simp: read_pools_def rbind_eq_Inr)
  have 1: "length ci = unat (m_nconst_i64 m)" "consumed 0 r r1"
    using pool64.table_sound [OF assms(1,2) i [unfolded read_pool64_def]] by simp_all
  then have "rd_ok r1" "rd_off r1 \<le> rd_n r1" using consumed_step assms(1) by blast+
  from pool64.table_sound [OF this f [unfolded read_pool64_def]]
  show ?thesis using 1 consumed_then by blast
next
  case False
  then show ?thesis using assms consumed_refl by (simp add: read_pools_def wf_header_def)
qed

lemma read_source_files_sound:
  assumes "rd_ok r" "rd_off r \<le> rd_n r" "read_source_files alloc r = Inr ((n, files), r')"
  shows "length files = unat n \<and> (\<forall>bs\<in>set files. good_bytes bs) \<and> consumed 0 r r'"
proof -
  obtain v where r: "reads r (u32_le v)"
    and "(if 0 < v then need_mem alloc ''oom source_files'' (adv 4 r) (8 * unat v)
      (rbind (rd_loop (read_source_file alloc) 0 (unat v) (adv 4 r)) (\<lambda>(files, r). Inr ((v, files), r)))
      else Inr ((v, []), adv 4 r)) = Inr ((n, files), r')"
    using assms(1,3) by (auto simp: read_source_files_def res_simps)
  then have v: "v = n" and l: "(if 0 < n then need_mem alloc ''oom source_files'' (adv 4 r) (8 * unat n)
      (rd_loop (read_source_file alloc) 0 (unat n) (adv 4 r)) else Inr ([], adv 4 r)) = Inr (files, r')"
    by (auto simp: need_mem_def rbind_eq_Inr split: if_splits)
  have "rd_ok (adv 4 r)" "rd_off (adv 4 r) \<le> rd_n (adv 4 r)" "consumed 0 r (adv 4 r)"
    using reads_need [OF r] assms(1) by (simp_all add: rd_need_def consumed_adv)
  with source_file.table_sound [OF this(1,2) l] show ?thesis
    using consumed_then by (auto simp: all_nth_set)
qed

lemma runs_read_pools: "runs r (read_pools alloc m r)"
  unfolding read_pools_def by (auto intro!: runs_intros runs_read_pool64)

lemma runs_st: "runs r m \<Longrightarrow> rd_st r \<Longrightarrow> m = Inr (x, r') \<Longrightarrow> rd_st r'"
  by (auto simp: runs_def)

lemma runs_read_body: "runs r (read_body alloc m r)"
  unfolding read_body_def Let_def
  by (auto intro!: runs_intros runs_read_types runs_read_sigs runs_read_atoms runs_read_pools
      runs_read_const_bytes runs_read_source_files runs_read_functions)

text \<open>What the loader accepts is well formed.\<close>

lemma read_body_sound:
  assumes st: "rd_st r" and h: "wf_header m0" "header_of m0 = m0"
    and b: "read_body alloc m0 r = Inr (m, r')"
  shows "wf_module m"
proof -
  from b obtain types r1 sigs r2 atoms proto r3 ci cf r4 lens offs blob r5 nsource files r6 funcs where
    1: "read_types alloc (m_ntypes m0) (m_nsigs m0) r = Inr (types, r1)" and
    2: "read_sigs alloc (m_nsigs m0) (m_ntypes m0) r1 = Inr (sigs, r2)" and
    3: "read_atoms alloc (m_natoms m0) r2 = Inr ((atoms, proto), r3)" and
    4: "read_pools alloc m0 r3 = Inr ((ci, cf), r4)" and
    5: "(if has_feat (m_features m0) JELLO_BC_FEAT_CONSTBYTES then
              read_const_bytes alloc (m_nconst_bytes m0) r4
            else Inr (([], [], []), r4)) = Inr ((lens, offs, blob), r5)" and
    6: "(if has_feat (m_features m0) JELLO_BC_FEAT_LINE_TABLE then read_source_files alloc r5
            else Inr ((0, []), r5)) = Inr ((nsource, files), r6)" and
    7: "let m1 = m0\<lparr>m_types := types, m_sigs := sigs, m_atoms := atoms, m_proto_enabled := proto,
                 m_const_i64 := ci, m_const_f64 := cf, m_const_bytes_len := lens,
                 m_const_bytes_off := offs, m_const_bytes_data := blob,
                 m_nsource_files := nsource, m_source_files := files\<rparr> in
        read_functions alloc m1 r6 = Inr (funcs, r') \<and> m = m1\<lparr>m_funcs := funcs\<rparr>"
    unfolding read_body_def Let_def by (elim rbind_InrE) (auto elim!: rbind_InrE)
  have s1: "rd_st r1" using runs_st [OF runs_read_types st 1] .
  have s2: "rd_st r2" using runs_st [OF runs_read_sigs s1 2] .
  have s3: "rd_st r3" using runs_st [OF runs_read_atoms s2 3] .
  have s4: "rd_st r4" using runs_st [OF runs_read_pools s3 4] .
  have s5: "rd_st r5" using s4 5 runs_st [OF runs_read_const_bytes s4] by (auto split: if_splits)
  have s6: "rd_st r6" using s5 6 runs_st [OF runs_read_source_files s5] by (auto split: if_splits)
  have t: "length types = unat (m_ntypes m0)" "\<forall>t\<in>set types. good_type (m_ntypes m0) (m_nsigs m0) t"
    using type_entry.table_sound [OF _ _ 1 [unfolded read_types_def]] st
    by (auto simp: rd_st_def all_nth_set)
  have sg: "length sigs = unat (m_nsigs m0)" "\<forall>s\<in>set sigs. good_sig (m_ntypes m0) s"
    using sig.table_sound [OF _ _ 2 [unfolded read_sigs_def]] s1 by (auto simp: rd_st_def all_nth_set)
  have at: "length atoms = unat (m_natoms m0)" "\<forall>bs\<in>set atoms. good_bytes bs" "proto = is_proto_table atoms"
    using read_atoms_sound [OF _ _ 3] s2 by (auto simp: rd_st_def)
  have cp: "length ci = unat (m_nconst_i64 m0)" "length cf = unat (m_nconst_f64 m0)"
    using read_pools_sound [OF _ _ h(1) 4] s3 by (auto simp: rd_st_def)
  have bp: "good_pool (unat (m_nconst_bytes m0)) lens offs blob"
    using 5 read_const_bytes_sound [of r4 alloc "m_nconst_bytes m0"] s4 h(1)
    by (auto simp: rd_st_def wf_header_def good_pool_def split: if_splits)
  have fs: "length files = unat nsource" "\<forall>bs\<in>set files. good_bytes bs"
      "\<not> has_feat (m_features m0) JELLO_BC_FEAT_LINE_TABLE \<longrightarrow> nsource = 0"
    using 6 read_source_files_sound [of r5 alloc nsource files r6] s5
    by (auto simp: rd_st_def split: if_splits)
  let ?m1 = "m0\<lparr>m_types := types, m_sigs := sigs, m_atoms := atoms, m_proto_enabled := proto,
                 m_const_i64 := ci, m_const_f64 := cf, m_const_bytes_len := lens,
                 m_const_bytes_off := offs, m_const_bytes_data := blob,
                 m_nsource_files := nsource, m_source_files := files\<rparr>"
  have f: "read_functions alloc ?m1 r6 = Inr (funcs, r')" and m: "m = ?m1\<lparr>m_funcs := funcs\<rparr>"
    using 7 by (simp_all add: Let_def)
  have fn: "length funcs = unat (m_nfuncs ?m1)" "\<forall>f\<in>set funcs. good_function ?m1 f"
    using func.table_sound [OF _ _ f [unfolded read_functions_def]] s6
    by (auto simp: rd_st_def all_nth_set)
  have "wf_header m" using h(1) unfolding m wf_header_def by simp
  moreover have "wf_tables m" using t sg at unfolding m wf_tables_def by simp
  moreover have "wf_pools m" using cp bp fs unfolding m wf_pools_def by simp
  ultimately show ?thesis using fn unfolding wf_module_def m by simp
qed

subsection \<open>The whole file\<close>

lemma reads_prefix:
  "size' = length data \<Longrightarrow> data = bs @ rest \<Longrightarrow> reads \<lparr>rd_p = data, rd_n = size', rd_off = 0\<rparr> bs"
  by (simp add: reads_def rd_ok_def rd_need_def mem_read_def)

lemma jello_bc_read_enc:
  assumes "wf_module m" "size' = length (enc_module m @ rest)"
  shows "jello_bc_read mem_ok (enc_module m @ rest) size' = (ok, Some m)"
proof -
  let ?r = "\<lparr>rd_p = enc_module m @ rest, rd_n = size', rd_off = 0\<rparr>"
  have "reads ?r (enc_module m)" using assms(2) by (intro reads_prefix) simp_all
  then have s: "reads ?r (u32_le JELLO_BC_MAGIC)" "reads (adv 4 ?r) (enc_header m)"
    "reads (adv (4 + length (enc_header m)) ?r) (enc_body m)"
    by (simp_all add: enc_module_def reads_append)
  have "wf_header m" using assms(1) by (simp add: wf_module_def)
  then show ?thesis
    using s(1) read_header_enc [OF _ s(2)] read_body_enc [OF assms(1) s(3)]
    by (simp add: jello_bc_read_def rd_steps)
qed

lemma jello_bc_read_sound:
  assumes "jello_bc_read alloc data size' = (ok, out)" "size' \<le> length data" "size' < 2 ^ 32"
  shows "\<exists>m. out = Some m \<and> wf_module m"
proof -
  let ?r = "\<lparr>rd_p = data, rd_n = size', rd_off = 0\<rparr>"
  have r: "rd_st ?r" using assms(2,3) by (simp add: rd_st_def rd_ok_def)
  from assms(1) obtain magic r1 m0 r2 m r3 where
    1: "rd_u32 ?r = Inr (magic, r1)" and 2: "read_header r1 = Inr (m0, r2)" and
    3: "read_body alloc m0 r2 = Inr (m, r3)" and m: "out = Some m"
    by (auto simp: jello_bc_read_def rbind_def err_not_Inr(2) [symmetric]
        split: if_splits sum.splits prod.splits)
  have s1: "rd_st r1" by (rule runs_st [OF runs_rd(3) r 1])
  then have "wf_header m0" "header_of m0 = m0" using read_header_sound [OF _ 2] by (simp_all add: rd_st_def)
  from read_body_sound [OF runs_st [OF runs_read_header s1 2] this 3] m show ?thesis by blast
qed

lemma jello_bc_read_no_fault:
  assumes "size' \<le> length data" "size' < 2 ^ 32"
  shows "no_fault (fst (jello_bc_read alloc data size'))"
proof -
  let ?r = "\<lparr>rd_p = data, rd_n = size', rd_off = 0\<rparr>"
  have r: "rd_st ?r" using assms by (simp add: rd_st_def rd_ok_def)
  show ?thesis
  proof (cases "rd_u32 ?r")
    case (Inl e)
    moreover have "no_fault (rd_u32 ?r)" using runs_rd(3) [of ?r] r by (simp add: runs_def)
    ultimately show ?thesis by (simp add: jello_bc_read_def no_fault_def err_def)
  next
    case (Inr p)
    obtain magic r1 where p: "rd_u32 ?r = Inr (magic, r1)" using Inr by (cases p) simp
    have "runs r1 (rbind (read_header r1) (\<lambda>(m, r). read_body alloc m r))"
      by (auto intro!: runs_rbind runs_read_header runs_read_body)
    then have "no_fault (rbind (read_header r1) (\<lambda>(m, r). read_body alloc m r))"
      using runs_st [OF runs_rd(3) r p] by (simp add: runs_def)
    then show ?thesis using p
      by (auto simp: jello_bc_read_def no_fault_def err_def split: sum.splits prod.splits)
  qed
qed

section \<open>Properties\<close>

text \<open>A minimal module: one type, one function that returns its only register.\<close>

definition ret_function :: jello_bc_function where
  "ret_function = \<lparr>f_nregs = 1, f_cap_start = 0, f_reg_types = [0], f_ninsns = 1,
     f_insns = [mk_insn JOP_RET 0 0 0 0], f_source_file = 0, f_lines = [], f_nlines = 1\<rparr>"

definition ret_module :: jello_bc_module where
  "ret_module = zero_module
     \<lparr>m_version := 1, m_ntypes := 1, m_types := [\<lparr>te_kind = JELLO_T_I32, te_as = 0\<rparr>],
      m_natoms := 1, m_atoms := [str_bytes ''__proto__''], m_proto_enabled := True,
      m_nfuncs := 1, m_funcs := [ret_function]\<rparr>"

lemma ret_semantics: "jello_bc_validate_function_semantics [mk_insn JOP_RET 0 0 0 0] 1 = Some ok"
  by (simp add: jello_bc_validate_function_semantics_def validate_switch_kind_tables_def
      validate_try_stack_linear_def switch_tables_from.simps mk_insn_def)

lemma wf_ret_module: "wf_module ret_module"
proof -
  have "good_function ret_module ret_function"
    using ret_semantics
    by (simp add: good_function_def ret_function_def ret_module_def zero_module_def has_feat_def
        good_lines_def good_code_def good_insn_def jello_bc_validate_insn_def validate_control_def
        mk_insn_def)
  then show ?thesis
    by (simp add: wf_module_def wf_header_def wf_tables_def wf_pools_def ret_module_def
        zero_module_def has_feat_def good_type_def good_bytes_def good_pool_def is_proto_table_def
        JELLO_ATOM_PROTO_def str_bytes_def c_str_def has_payload_def)
qed

text \<open>C4: the loader inverts the encoder of the file format: a well-formed module, written in the
  documented format and followed by any bytes, is read back exactly.\<close>

theorem read_encoded_module:
  assumes "wf_module m"
  shows "jello_bc_read mem_ok (enc_module m @ rest) (length (enc_module m @ rest)) = (ok, Some m)"
  by (rule jello_bc_read_enc [OF assms]) simp

lemma read_encoded_module_witness:
  "jello_bc_read mem_ok (enc_module ret_module @ [1, 2]) (length (enc_module ret_module @ [1, 2])) =
     (ok, Some ret_module)"
  by (rule read_encoded_module [OF wf_ret_module])

text \<open>C2: whatever the loader accepts, with any pattern of allocation failures, is a well-formed
  module: counts agree with tables, every type, signature, constant and atom index is in range, the
  pool offsets lie in the pool, and every function has passed the verifier.\<close>

theorem accepted_module_wf:
  assumes "jello_bc_read alloc data size' = (ok, Some m)"
    and "size' \<le> length data" "size' < 2 ^ 32"
  shows "wf_module m"
  using jello_bc_read_sound [OF assms] by simp

lemma accepted_module_wf_witness: "wf_module ret_module"
proof -
  have l: "length (enc_module ret_module) < 2 ^ 32"
    by (simp add: enc_module_def enc_header_def enc_body_def ret_module_def zero_module_def
        enc_type_def enc_bytes_def enc_pools_def enc_bytes_pool_def enc_sources_def has_feat_def
        ret_function_def enc_function_def enc_function_head_def enc_lines_def enc_insn_def
        str_bytes_def)
  have "jello_bc_read mem_ok (enc_module ret_module) (length (enc_module ret_module)) =
      (ok, Some ret_module)"
    using jello_bc_read_enc [OF wf_ret_module, of _ "[]"] by simp
  from accepted_module_wf [OF this _ l] show ?thesis by simp
qed



text \<open>After a failure \<^verbatim>\<open>*out\<close> is \<^verbatim>\<open>NULL\<close>, with one exception: on a buffer of fewer than four
  bytes the freshly allocated module is left in \<^verbatim>\<open>*out\<close> although the result is an error.\<close>

theorem failed_read_out_pointer:
  assumes "jello_bc_read alloc data size' = (Inl e, out)"
  shows "out = (if alloc ''oom module'' 0 160 \<and> size' < 4 then Some zero_module else None)"
  using assms
  by (auto simp: jello_bc_read_def rd_u32_def rd_need_def err_def split: if_splits sum.splits)

lemma failed_read_out_pointer_witness:
  "jello_bc_read mem_ok [0x42] 1 =
     (Inl (BcFail JELLO_BC_EOF ''unexpected EOF'' 0), Some zero_module)"
proof -
  have *: "jello_bc_read mem_ok [0x42] 1 =
      (Inl (BcFail JELLO_BC_EOF ''unexpected EOF'' 0), snd (jello_bc_read mem_ok [0x42] 1))"
    by (simp add: jello_bc_read_def rd_u32_def rd_need_def err_def)
  from failed_read_out_pointer [OF this] * show ?thesis by simp
qed

text \<open>Without the bound on the file size the copy of the bytes pool is not safe: two constants
  of 2 GiB make the 32-bit sum of the lengths wrap to zero, no block is allocated, and the first
  payload is copied all the same.\<close>

theorem const_bytes_total_overflow:
  assumes "reads r (enc_bytes bs1 @ enc_bytes bs2)"
    and "length bs1 = 2 ^ 31" "length bs2 = 2 ^ 31"
  shows "\<exists>off. read_const_bytes mem_ok 2 r = err MEMORY_FAULT ''const_bytes data'' off"
proof -
  have g: "good_bytes bs1" "good_bytes bs2" using assms(2,3) by (simp_all add: good_bytes_def)
  have b: "blen bs1 = 0x80000000" "blen bs2 = 0x80000000"
    using assms(2,3) by simp_all
  have s: "reads r (enc_bytes bs1)" using assms(1) by (simp add: reads_append)
  have "rd_loop skip_bytes 0 (length [bs1, bs2]) r =
      Inr (map blen [bs1, bs2], adv (length (concat (map enc_bytes [bs1, bs2]))) r)"
    using assms(1) g by (intro bytes_item.loop_enc) (auto simp: nth_Cons split: nat.splits)
  then have l: "rd_loop skip_bytes 0 2 r =
      Inr ([0x80000000, 0x80000000], adv (length (concat (map enc_bytes [bs1, bs2]))) r)"
    by (simp add: b numeral_2_eq_2)
  have "rd_u32 r = Inr (0x80000000, adv 4 r)" "rd_need (adv 4 r) 0x80000000"
    using skip_enc [OF g(1) s] b assms(2) by (simp_all add: rd_steps)
  then show ?thesis by (simp add: read_const_bytes_def Let_def l err_def)
qed

lemma const_bytes_total_overflow_witness:
  "\<exists>off. read_const_bytes mem_ok 2
     \<lparr>rd_p = enc_bytes (replicate (2 ^ 31) 0) @ enc_bytes (replicate (2 ^ 31) 0),
      rd_n = length (enc_bytes (replicate (2 ^ 31) 0) @ enc_bytes (replicate (2 ^ 31) 0)),
      rd_off = 0\<rparr> = err MEMORY_FAULT ''const_bytes data'' off"
  by (rule const_bytes_total_overflow [where ?bs1.0 = "replicate (2 ^ 31) 0"
        and ?bs2.0 = "replicate (2 ^ 31) 0"])
    (simp_all only: length_replicate, rule reads_prefix [where rest = "[]"], simp_all only: append_Nil2)

end
