(* ===== verification/Jello_Object.thy ===== *)
theory Jello_Object
  imports Jello_Value
begin

text \<open>
  The hash table behind Jello objects, \<^verbatim>\<open>src/types/object.c\<close>: open addressing with linear probing and
  tombstones, growth by doubling, and a four-entry inline cache. Every function of the file is
  modelled but \<^verbatim>\<open>jello_object_copy\<close> (it needs the heap of the virtual machine) and the release of the
  side table. Indices and counters are 32-bit words.

  The lemmas show that the table implements a finite map from atoms to values as long as a probe
  sequence can end, that growing keeps the map, that the inline cache never changes an answer, and
  that a table whose free slots are all tombstones makes an insertion run forever.
\<close>

section \<open>Objects\<close>

datatype slot_state = SLOT_EMPTY | SLOT_OCCUPIED | SLOT_TOMB

text \<open>\<^verbatim>\<open>proto\<close> is the address of the prototype (0 for \<^verbatim>\<open>NULL\<close>); \<open>o_inline\<close> says whether the table is
  the one that follows the header in the same block (\<^verbatim>\<open>object_uses_inline_table\<close>). The three arrays
  \<^verbatim>\<open>keys\<close>, \<^verbatim>\<open>vals\<close> and \<^verbatim>\<open>states\<close> are lists of length \<open>o_cap\<close>.\<close>

record jello_object =
  o_type_id :: u32
  o_proto :: u64
  o_cap :: u32
  o_len :: u32
  o_inline :: bool
  o_keys :: "u32 list"
  o_vals :: "jello_value list"
  o_states :: "slot_state list"
  ic_atom :: u32
  ic_slot :: u32
  ic_cap :: u32
  ic_poly_atom :: "u32 list"
  ic_poly_slot :: "u32 list"

definition JELLO_OBJECT_INIT_CAP :: u32 where "JELLO_OBJECT_INIT_CAP = 8"
definition JELLO_OBJECT_LOAD_NUM :: u32 where "JELLO_OBJECT_LOAD_NUM = 10"
definition JELLO_OBJECT_LOAD_DEN :: u32 where "JELLO_OBJECT_LOAD_DEN = 7"
definition JELLO_OBJ_IC_NONE :: u32 where "JELLO_OBJ_IC_NONE = - 1"

definition hash_u32 :: "u32 \<Rightarrow> u32" where
  "hash_u32 x =
     (let x = x XOR drop_bit 16 x; x = x * 0x7feb352d;
          x = x XOR drop_bit 15 x; x = x * 0x846ca68b in
      x XOR drop_bit 16 x)"

text \<open>The layout of a table block: keys, padding, values, states, as byte offsets.\<close>

definition table_pad :: "nat \<Rightarrow> nat" where
  "table_pad cap = (8 - (cap * 4) mod 8) mod 8"

definition object_table_bytes :: "nat \<Rightarrow> nat" where
  "object_table_bytes cap = cap * 4 + table_pad cap + cap * 8 + cap"

definition vals_offset :: "nat \<Rightarrow> nat" where
  "vals_offset cap = cap * 4 + table_pad cap"

definition states_offset :: "nat \<Rightarrow> nat" where
  "states_offset cap = cap * 4 + table_pad cap + cap * 8"

section \<open>Inline caches\<close>

definition jello_object_invalidate_ic :: "jello_object \<Rightarrow> jello_object" where
  "jello_object_invalidate_ic ob = ob
     \<lparr>ic_atom := JELLO_OBJ_IC_NONE, ic_slot := 0, ic_cap := 0,
      ic_poly_atom := replicate 3 JELLO_OBJ_IC_NONE, ic_poly_slot := replicate 3 0\<rparr>"

definition object_ic_store :: "jello_object \<Rightarrow> u32 \<Rightarrow> u32 \<Rightarrow> jello_object" where
  "object_ic_store ob atom_id slot =
     (if ic_atom ob = atom_id \<and> ic_cap ob = o_cap ob then ob\<lparr>ic_slot := slot\<rparr>
      else
        (let ob1 =
           (if ic_atom ob \<noteq> JELLO_OBJ_IC_NONE \<and> ic_cap ob = o_cap ob then
              ob\<lparr>ic_poly_atom := [ic_atom ob, ic_poly_atom ob ! 0, ic_poly_atom ob ! 1],
                 ic_poly_slot := [ic_slot ob, ic_poly_slot ob ! 0, ic_poly_slot ob ! 1]\<rparr>
            else ob) in
         ob1\<lparr>ic_atom := atom_id, ic_slot := slot, ic_cap := o_cap ob\<rparr>))"

text \<open>The slot test that every cached index has to pass before it is used.\<close>

definition slot_holds :: "jello_object \<Rightarrow> u32 \<Rightarrow> u32 \<Rightarrow> bool" where
  "slot_holds ob i atom_id \<longleftrightarrow>
     i < o_cap ob \<and> o_states ob ! unat i = SLOT_OCCUPIED \<and> o_keys ob ! unat i = atom_id"

fun ic_poly_try :: "jello_object \<Rightarrow> u32 \<Rightarrow> nat list \<Rightarrow> jello_object \<times> u32 option" where
  "ic_poly_try ob atom_id [] = (ob, None)"
| "ic_poly_try ob atom_id (p # ps) =
     (if ic_poly_atom ob ! p \<noteq> atom_id then ic_poly_try ob atom_id ps
      else
        (let i = ic_poly_slot ob ! p in
         if \<not> slot_holds ob i atom_id then
           ic_poly_try (ob\<lparr>ic_poly_atom := (ic_poly_atom ob)[p := JELLO_OBJ_IC_NONE]\<rparr>) atom_id ps
         else
           (ob\<lparr>ic_atom := atom_id, ic_slot := i,
               ic_poly_atom := (ic_poly_atom ob)[p := ic_atom ob],
               ic_poly_slot := (ic_poly_slot ob)[p := ic_slot ob]\<rparr>, Some i)))"

definition object_ic_try :: "jello_object \<Rightarrow> u32 \<Rightarrow> jello_object \<times> u32 option" where
  "object_ic_try ob atom_id =
     (if ic_cap ob \<noteq> o_cap ob then (ob, None)
      else if ic_atom ob = atom_id then
        (if slot_holds ob (ic_slot ob) atom_id then (ob, Some (ic_slot ob))
         else (jello_object_invalidate_ic ob, None))
      else ic_poly_try ob atom_id [0, 1, 2])"

section \<open>Probing\<close>

text \<open>The probe loops have no exit but an empty slot or the key itself: they are partial, \<open>None\<close>
  meaning that the loop never ends. \<open>find_slot\<close> returns the object (its inline cache may change),
  the slot and whether the key was found there.\<close>

partial_function (option) find_slot_loop ::
  "jello_object \<Rightarrow> u32 \<Rightarrow> u32 \<Rightarrow> u32 \<Rightarrow> u32 \<Rightarrow> (jello_object \<times> u32 \<times> bool) option" where
  "find_slot_loop ob atom_id mask' i first_tomb =
     (let st = o_states ob ! unat i in
      if st = SLOT_EMPTY then Some (ob, if first_tomb \<noteq> - 1 then first_tomb else i, False)
      else if st = SLOT_OCCUPIED \<and> o_keys ob ! unat i = atom_id then
        Some (object_ic_store ob atom_id i, i, True)
      else
        (let first_tomb = (if st = SLOT_TOMB \<and> first_tomb = - 1 then i else first_tomb) in
         find_slot_loop ob atom_id mask' ((i + 1) AND mask') first_tomb))"

definition find_slot :: "jello_object \<Rightarrow> u32 \<Rightarrow> (jello_object \<times> u32 \<times> bool) option" where
  "find_slot ob atom_id =
     (if o_len ob = 0 then Some (ob, hash_u32 atom_id AND (o_cap ob - 1), False)
      else
        (let mask' = o_cap ob - 1; h = hash_u32 atom_id in
         find_slot_loop ob atom_id mask' (h AND mask') (- 1)))"

fun linear_scan :: "jello_object \<Rightarrow> u32 \<Rightarrow> nat list \<Rightarrow> jello_object \<times> u32 \<times> bool" where
  "linear_scan ob atom_id [] = (ob, 0, False)"
| "linear_scan ob atom_id (i # is) =
     (if o_states ob ! i = SLOT_OCCUPIED \<and> o_keys ob ! i = atom_id then
        (object_ic_store ob atom_id (of_nat i), of_nat i, True)
      else linear_scan ob atom_id is)"

partial_function (option) find_occupied_loop ::
  "jello_object \<Rightarrow> u32 \<Rightarrow> u32 \<Rightarrow> u32 \<Rightarrow> (jello_object \<times> u32 \<times> bool) option" where
  "find_occupied_loop ob atom_id mask' i =
     (let st = o_states ob ! unat i in
      if st = SLOT_EMPTY then Some (ob, 0, False)
      else if st = SLOT_OCCUPIED \<and> o_keys ob ! unat i = atom_id then
        Some (object_ic_store ob atom_id i, i, True)
      else find_occupied_loop ob atom_id mask' ((i + 1) AND mask'))"

definition find_occupied_slot :: "jello_object \<Rightarrow> u32 \<Rightarrow> (jello_object \<times> u32 \<times> bool) option" where
  "find_occupied_slot ob atom_id =
     (case object_ic_try ob atom_id of
        (ob, Some ic_i) \<Rightarrow> Some (ob, ic_i, True)
      | (ob, None) \<Rightarrow>
          if o_len ob = 0 then Some (ob, 0, False)
          else if o_len ob \<le> 8 \<and> o_cap ob \<le> JELLO_OBJECT_INIT_CAP then
            Some (linear_scan ob atom_id [0..<unat (o_cap ob)])
          else
            (let mask' = o_cap ob - 1 in
             find_occupied_loop ob atom_id mask' (hash_u32 atom_id AND mask')))"

section \<open>Construction\<close>

text \<open>A fresh block: keys and values are whatever the allocator left there, which no operation
  reads before it has written it; the model has zeros.\<close>

definition object_bind_table :: "jello_object \<Rightarrow> bool \<Rightarrow> u32 \<Rightarrow> jello_object" where
  "object_bind_table ob inl cap = ob
     \<lparr>o_inline := inl, o_cap := cap, o_keys := replicate (unat cap) 0,
      o_vals := replicate (unat cap) 0, o_states := replicate (unat cap) SLOT_EMPTY\<rparr>"

definition jello_object_init_empty :: "jello_object \<Rightarrow> u32 \<Rightarrow> jello_object" where
  "jello_object_init_empty ob type_id =
     jello_object_invalidate_ic
       (object_bind_table (ob\<lparr>o_type_id := type_id, o_proto := 0, o_len := 0\<rparr>) True
          JELLO_OBJECT_INIT_CAP)"

definition jello_object_is_freelist_recyclable :: "jello_object \<Rightarrow> bool" where
  "jello_object_is_freelist_recyclable ob \<longleftrightarrow> o_inline ob \<and> o_cap ob = JELLO_OBJECT_INIT_CAP"

definition jello_object_reinit_from_freelist :: "jello_object \<Rightarrow> u32 \<Rightarrow> jello_object" where
  "jello_object_reinit_from_freelist ob type_id =
     jello_object_invalidate_ic
       (ob\<lparr>o_type_id := type_id, o_proto := 0, o_len := 0,
           o_states := replicate (unat (o_cap ob)) SLOT_EMPTY\<rparr>)"

text \<open>\<open>jello_object_new\<close> on the block the allocator handed out: \<open>recycled\<close> says that it comes from the
  freelist, where it still holds an object.\<close>

definition jello_object_new :: "bool \<Rightarrow> jello_object \<Rightarrow> u32 \<Rightarrow> jello_object" where
  "jello_object_new recycled block type_id =
     (if recycled \<and> jello_object_is_freelist_recyclable block then
        jello_object_reinit_from_freelist block type_id
      else jello_object_init_empty block type_id)"

section \<open>Growth\<close>

text \<open>The move of one entry, then of all of them, into the new table.\<close>

definition put_entry :: "jello_object \<Rightarrow> u32 \<Rightarrow> jello_value \<Rightarrow> u32 \<Rightarrow> jello_object" where
  "put_entry ob k v slot = ob
     \<lparr>o_keys := (o_keys ob)[unat slot := k],
      o_states := (o_states ob)[unat slot := SLOT_OCCUPIED],
      o_vals := (o_vals ob)[unat slot := v],
      o_len := o_len ob + 1\<rparr>"

fun rehash_loop :: "jello_object \<Rightarrow> jello_object \<Rightarrow> nat list \<Rightarrow> jello_object option" where
  "rehash_loop old ob [] = Some ob"
| "rehash_loop old ob (i # is) =
     (if o_states old ! i \<noteq> SLOT_OCCUPIED then rehash_loop old ob is
      else
        (case find_slot ob (o_keys old ! i) of
           None \<Rightarrow> None
         | Some (ob, slot, found) \<Rightarrow>
             rehash_loop old (put_entry ob (o_keys old ! i) (o_vals old ! i) slot) is))"

text \<open>\<open>rehash\<close> aborts the process when there is no memory; the model is the run in which there is.\<close>

definition rehash :: "jello_object \<Rightarrow> u32 \<Rightarrow> jello_object option" where
  "rehash ob new_cap =
     (case rehash_loop ob ((object_bind_table ob False new_cap)\<lparr>o_len := 0\<rparr>) [0..<unat (o_cap ob)] of
        None \<Rightarrow> None
      | Some ob' \<Rightarrow> Some (jello_object_invalidate_ic (ob'\<lparr>o_len := o_len ob\<rparr>)))"

definition ensure_cap :: "jello_object \<Rightarrow> jello_object option" where
  "ensure_cap ob =
     (if (o_len ob + 1) * JELLO_OBJECT_LOAD_NUM < o_cap ob * JELLO_OBJECT_LOAD_DEN then Some ob
      else rehash ob (o_cap ob * 2))"

section \<open>Operations\<close>

definition jello_object_has :: "jello_object \<Rightarrow> u32 \<Rightarrow> (jello_object \<times> bool) option" where
  "jello_object_has ob atom_id =
     map_option (\<lambda>(ob, i, found). (ob, found)) (find_occupied_slot ob atom_id)"

definition jello_object_get :: "jello_object \<Rightarrow> u32 \<Rightarrow> (jello_object \<times> jello_value) option" where
  "jello_object_get ob atom_id =
     map_option (\<lambda>(ob, i, found). (ob, if \<not> found then jello_make_null else o_vals ob ! unat i))
       (find_occupied_slot ob atom_id)"

definition jello_object_get_slot ::
  "jello_object \<Rightarrow> u32 \<Rightarrow> u32 \<Rightarrow> (jello_object \<times> jello_value) option" where
  "jello_object_get_slot ob slot atom_id =
     (if slot_holds ob slot atom_id then Some (ob, o_vals ob ! unat slot)
      else jello_object_get ob atom_id)"

text \<open>A pointer to a value slot is the index of the slot, \<^verbatim>\<open>NULL\<close> is \<open>None\<close>.\<close>

definition jello_object_slot :: "jello_object \<Rightarrow> u32 \<Rightarrow> (jello_object \<times> u32 option) option" where
  "jello_object_slot ob atom_id =
     map_option (\<lambda>(ob, i, found). (ob, if \<not> found then None else Some i))
       (find_occupied_slot ob atom_id)"

definition jello_object_upsert :: "jello_object \<Rightarrow> u32 \<Rightarrow> (jello_object \<times> u32 \<times> bool) option" where
  "jello_object_upsert ob atom_id =
     (case ensure_cap ob of
        None \<Rightarrow> None
      | Some ob \<Rightarrow>
          (case find_slot ob atom_id of
             None \<Rightarrow> None
           | Some (ob, i, found) \<Rightarrow>
               if \<not> found then Some (put_entry ob atom_id jello_make_null i, i, False)
               else Some (object_ic_store ob atom_id i, i, True)))"

definition jello_object_set_slot ::
  "jello_object \<Rightarrow> u32 \<Rightarrow> u32 \<Rightarrow> (jello_object \<times> u32 \<times> bool) option" where
  "jello_object_set_slot ob slot atom_id =
     (if slot_holds ob slot atom_id then Some (ob, slot, True)
      else jello_object_upsert ob atom_id)"

definition write_slot :: "jello_object \<Rightarrow> u32 \<Rightarrow> jello_value \<Rightarrow> jello_object" where
  "write_slot ob i v = ob\<lparr>o_vals := (o_vals ob)[unat i := v]\<rparr>"

definition jello_object_set :: "jello_object \<Rightarrow> u32 \<Rightarrow> jello_value \<Rightarrow> jello_object option" where
  "jello_object_set ob atom_id v =
     map_option (\<lambda>(ob, i, existed). write_slot ob i v) (jello_object_upsert ob atom_id)"

definition jello_object_remove :: "jello_object \<Rightarrow> u32 \<Rightarrow> (jello_object \<times> bool) option" where
  "jello_object_remove ob atom_id =
     map_option (\<lambda>(ob, i, found).
       if \<not> found then (ob, False)
       else
         (let ob1 = ob\<lparr>o_states := (o_states ob)[unat i := SLOT_TOMB], o_len := o_len ob - 1\<rparr> in
          (if ic_atom ob1 = atom_id \<and> ic_cap ob1 = o_cap ob1 \<and> ic_slot ob1 = i then
             jello_object_invalidate_ic ob1 else ob1, True)))
       (find_slot ob atom_id)"

definition jello_object_clear :: "jello_object \<Rightarrow> jello_object" where
  "jello_object_clear ob =
     jello_object_invalidate_ic
       (ob\<lparr>o_states := replicate (unat (o_cap ob)) SLOT_EMPTY, o_len := 0\<rparr>)"

section \<open>Probe sequences\<close>

definition cap_of :: "jello_object \<Rightarrow> nat" where
  "cap_of ob = unat (o_cap ob)"

definition probe :: "jello_object \<Rightarrow> u32 \<Rightarrow> nat \<Rightarrow> nat" where
  "probe ob k j = (unat (hash_u32 k) + j) mod cap_of ob"

definition state_at :: "jello_object \<Rightarrow> u32 \<Rightarrow> nat \<Rightarrow> slot_state" where
  "state_at ob k j = o_states ob ! probe ob k j"

definition occ :: "jello_object \<Rightarrow> nat \<Rightarrow> bool" where
  "occ ob i \<longleftrightarrow> i < cap_of ob \<and> o_states ob ! i = SLOT_OCCUPIED"

text \<open>The entry of slot \<open>i\<close> can be found: from the hash position of its key on, no slot before it is
  empty.\<close>

definition reaches :: "jello_object \<Rightarrow> u32 \<Rightarrow> nat \<Rightarrow> bool" where
  "reaches ob k i \<longleftrightarrow> (\<exists>d<cap_of ob. probe ob k d = i \<and> (\<forall>j<d. state_at ob k j \<noteq> SLOT_EMPTY))"

definition shape_ok :: "jello_object \<Rightarrow> bool" where
  "shape_ok ob \<longleftrightarrow>
     (\<exists>n<32. cap_of ob = 2 ^ n) \<and> 8 \<le> cap_of ob \<and>
     length (o_keys ob) = cap_of ob \<and> length (o_vals ob) = cap_of ob \<and>
     length (o_states ob) = cap_of ob \<and>
     length (ic_poly_atom ob) = 3 \<and> length (ic_poly_slot ob) = 3"

definition obj_inv :: "jello_object \<Rightarrow> bool" where
  "obj_inv ob \<longleftrightarrow> shape_ok ob \<and>
     (\<forall>i j. occ ob i \<longrightarrow> occ ob j \<longrightarrow> o_keys ob ! i = o_keys ob ! j \<longrightarrow> i = j) \<and>
     (\<forall>i. occ ob i \<longrightarrow> reaches ob (o_keys ob ! i) i) \<and>
     unat (o_len ob) = card {i. occ ob i}"

definition present :: "jello_object \<Rightarrow> u32 \<Rightarrow> bool" where
  "present ob k \<longleftrightarrow> (\<exists>i. occ ob i \<and> o_keys ob ! i = k)"

definition has_empty :: "jello_object \<Rightarrow> bool" where
  "has_empty ob \<longleftrightarrow> SLOT_EMPTY \<in> set (o_states ob)"

text \<open>The map an object stands for.\<close>

definition obj_abs :: "jello_object \<Rightarrow> u32 \<rightharpoonup> jello_value" where
  "obj_abs ob = map_of [(o_keys ob ! i, o_vals ob ! i).
     i \<leftarrow> [0..<cap_of ob], o_states ob ! i = SLOT_OCCUPIED]"

lemma shape_cap: "shape_ok ob \<Longrightarrow> 0 < cap_of ob"
  by (auto simp: shape_ok_def)

lemma probe_less [simp]: "shape_ok ob \<Longrightarrow> probe ob k j < cap_of ob"
  by (simp add: probe_def shape_cap)

lemma and_cap_mask:
  assumes "shape_ok ob"
  shows "unat (x AND (o_cap ob - 1)) = unat x mod cap_of ob"
proof -
  obtain n where n: "n < 32" "unat (o_cap ob) = 2 ^ n" using assms by (auto simp: shape_ok_def cap_of_def)
  have "o_cap ob = of_nat (unat (o_cap ob))" by simp
  then have "o_cap ob = 2 ^ n" unfolding n(2) by simp
  then show ?thesis using n by (simp add: cap_of_def unat_and_mask_mod flip: mask_eq_exp_minus_1)
qed

lemma probe_0: "shape_ok ob \<Longrightarrow> unat (hash_u32 k AND (o_cap ob - 1)) = probe ob k 0"
  by (simp add: and_cap_mask probe_def)

lemma probe_Suc:
  assumes "shape_ok ob" "unat i = probe ob k j"
  shows "unat ((i + 1) AND (o_cap ob - 1)) = probe ob k (Suc j)"
proof -
  obtain n where n: "n < 32" "cap_of ob = 2 ^ n" using assms by (auto simp: shape_ok_def)
  have "cap_of ob dvd 2 ^ 32" unfolding n(2) by (rule le_imp_power_dvd) (use n(1) in simp)
  then have "unat (i + 1) mod cap_of ob = (unat i + 1) mod cap_of ob"
    by (simp add: unat_word_ariths mod_mod_cancel)
  then show ?thesis using assms by (simp add: and_cap_mask probe_def mod_Suc_eq)
qed

lemma probe_surj:
  assumes "shape_ok ob" "e < cap_of ob"
  shows "\<exists>d<cap_of ob. probe ob k d = e"
proof -
  let ?C = "cap_of ob"
  let ?h = "unat (hash_u32 k) mod ?C"
  have h: "?h < ?C" using assms shape_cap by simp
  let ?d = "(e + ?C - ?h) mod ?C"
  have "(?h + ?d) mod ?C = (?h + (e + ?C - ?h)) mod ?C" by (simp add: mod_add_right_eq)
  also have "?h + (e + ?C - ?h) = e + ?C" using h by linarith
  also have "(e + ?C) mod ?C = e" using assms(2) by simp
  finally have "probe ob k ?d = e" by (simp add: probe_def mod_add_left_eq)
  then show ?thesis using h by (intro exI [of _ ?d]) simp
qed

text \<open>Where a probe sequence stops.\<close>

definition stops :: "jello_object \<Rightarrow> u32 \<Rightarrow> nat \<Rightarrow> bool" where
  "stops ob k d \<longleftrightarrow> state_at ob k d = SLOT_EMPTY \<or>
     (state_at ob k d = SLOT_OCCUPIED \<and> o_keys ob ! probe ob k d = k)"

lemma stops_exists:
  assumes "obj_inv ob" "present ob k \<or> has_empty ob"
  shows "\<exists>d<cap_of ob. stops ob k d"
proof -
  have sh: "shape_ok ob" using assms(1) by (simp add: obj_inv_def)
  from assms(2) show ?thesis
  proof
    assume "present ob k"
    then obtain i where "occ ob i" "o_keys ob ! i = k" by (auto simp: present_def)
    moreover from this assms(1) obtain d where "d < cap_of ob" "probe ob k d = i"
      by (auto simp: obj_inv_def reaches_def)
    ultimately show ?thesis by (auto simp: stops_def state_at_def occ_def)
  next
    assume "has_empty ob"
    then obtain e where "e < cap_of ob" "o_states ob ! e = SLOT_EMPTY"
      using sh by (auto simp: has_empty_def in_set_conv_nth shape_ok_def)
    with probe_surj [OF sh, of e k] show ?thesis by (auto simp: stops_def state_at_def)
  qed
qed

lemma first_stop:
  assumes "obj_inv ob" "present ob k \<or> has_empty ob"
  obtains d where "d < cap_of ob" "stops ob k d" "\<forall>j<d. \<not> stops ob k j"
    "present ob k \<longleftrightarrow> state_at ob k d = SLOT_OCCUPIED"
proof -
  obtain c where c: "c < cap_of ob" "stops ob k c" using stops_exists [OF assms] by blast
  define d where "d = (LEAST d. stops ob k d)"
  have d: "stops ob k d" "\<And>j. j < d \<Longrightarrow> \<not> stops ob k j" "d \<le> c"
    using c(2) by (auto simp: d_def intro: LeastI Least_le dest: not_less_Least)
  have sh: "shape_ok ob" using assms(1) by (simp add: obj_inv_def)
  have "present ob k \<longleftrightarrow> state_at ob k d = SLOT_OCCUPIED"
  proof
    assume "present ob k"
    then obtain i where i: "occ ob i" "o_keys ob ! i = k" by (auto simp: present_def)
    then obtain e where e: "probe ob k e = i" "\<forall>j<e. state_at ob k j \<noteq> SLOT_EMPTY"
      using assms(1) by (auto simp: obj_inv_def reaches_def)
    have "stops ob k e" using i e(1) by (simp add: stops_def state_at_def occ_def)
    then have "d \<le> e" using d(2) not_less by blast
    then show "state_at ob k d = SLOT_OCCUPIED"
      using d(1) e i by (cases "d = e") (auto simp: stops_def state_at_def occ_def)
  next
    assume "state_at ob k d = SLOT_OCCUPIED"
    then show "present ob k" using d(1) probe_less [OF sh, of k d]
      unfolding present_def occ_def stops_def state_at_def by (intro exI [of _ "probe ob k d"]) auto
  qed
  then show ?thesis by (rule that [of d, rotated 3]) (use d c(1) in auto)
qed

section \<open>The probe loops\<close>

text \<open>What the operations may change without changing the table: the inline cache.\<close>

definition same_table :: "jello_object \<Rightarrow> jello_object \<Rightarrow> bool" where
  "same_table ob ob' \<longleftrightarrow>
     o_type_id ob' = o_type_id ob \<and> o_proto ob' = o_proto ob \<and> o_cap ob' = o_cap ob \<and>
     o_len ob' = o_len ob \<and> o_inline ob' = o_inline ob \<and> o_keys ob' = o_keys ob \<and>
     o_vals ob' = o_vals ob \<and> o_states ob' = o_states ob \<and>
     (length (ic_poly_atom ob) = 3 \<longrightarrow> length (ic_poly_atom ob') = 3) \<and>
     (length (ic_poly_slot ob) = 3 \<longrightarrow> length (ic_poly_slot ob') = 3)"

lemma same_table_refl [simp]: "same_table ob ob"
  by (simp add: same_table_def)

lemma same_table_trans: "same_table a b \<Longrightarrow> same_table b c \<Longrightarrow> same_table a c"
  by (simp add: same_table_def)

lemma same_table_eq:
  assumes "same_table ob ob'"
  shows "cap_of ob' = cap_of ob" "probe ob' = probe ob" "state_at ob' = state_at ob"
    "occ ob' = occ ob" "reaches ob' = reaches ob" "present ob' = present ob"
    "has_empty ob' = has_empty ob" "obj_abs ob' = obj_abs ob" "slot_holds ob' = slot_holds ob"
    "o_keys ob' = o_keys ob" "o_vals ob' = o_vals ob" "o_states ob' = o_states ob"
    "o_len ob' = o_len ob" "o_cap ob' = o_cap ob"
proof -
  have e: "o_cap ob' = o_cap ob" "o_keys ob' = o_keys ob" "o_vals ob' = o_vals ob"
    "o_states ob' = o_states ob" "o_len ob' = o_len ob"
    using assms by (simp_all add: same_table_def)
  show "cap_of ob' = cap_of ob" "probe ob' = probe ob" "state_at ob' = state_at ob"
    "occ ob' = occ ob" "reaches ob' = reaches ob" "present ob' = present ob"
    "has_empty ob' = has_empty ob" "obj_abs ob' = obj_abs ob" "slot_holds ob' = slot_holds ob"
    "o_keys ob' = o_keys ob" "o_vals ob' = o_vals ob" "o_states ob' = o_states ob"
    "o_len ob' = o_len ob" "o_cap ob' = o_cap ob"
    unfolding fun_eq_iff cap_of_def probe_def state_at_def occ_def reaches_def present_def
      has_empty_def obj_abs_def slot_holds_def e by simp_all
qed

lemma same_table_shape: "same_table ob ob' \<Longrightarrow> shape_ok ob \<Longrightarrow> shape_ok ob'"
  by (simp add: shape_ok_def same_table_eq) (simp add: same_table_def)

lemma same_table_inv: "same_table ob ob' \<Longrightarrow> obj_inv ob \<Longrightarrow> obj_inv ob'"
  by (simp add: obj_inv_def same_table_eq same_table_shape)

lemma same_table_invalidate [simp]: "same_table ob (jello_object_invalidate_ic ob)"
  by (simp add: same_table_def jello_object_invalidate_ic_def)

lemma same_table_ic_store [simp]: "same_table ob (object_ic_store ob k i)"
  by (simp add: same_table_def object_ic_store_def Let_def)

text \<open>The inline cache only answers with a slot that holds the key.\<close>

lemma ic_poly_try_ok:
  "ic_poly_try ob k ps = (ob', r) \<Longrightarrow>
   same_table ob ob' \<and> (\<forall>i. r = Some i \<longrightarrow> slot_holds ob i k)"
proof (induction ps arbitrary: ob)
  case (Cons p ps)
  show ?case
  proof (cases "ic_poly_atom ob ! p = k \<and> \<not> slot_holds ob (ic_poly_slot ob ! p) k")
    case True
    let ?ob1 = "ob\<lparr>ic_poly_atom := (ic_poly_atom ob)[p := JELLO_OBJ_IC_NONE]\<rparr>"
    have s: "same_table ob ?ob1" by (simp add: same_table_def)
    have "ic_poly_try ?ob1 k ps = (ob', r)" using Cons.prems True by (simp add: Let_def)
    from Cons.IH [OF this] show ?thesis
      using same_table_trans [OF s] same_table_eq(9) [OF s] by simp
  next
    case False
    then show ?thesis using Cons by (auto simp: Let_def same_table_def split: if_splits)
  qed
qed auto

lemma object_ic_try_ok:
  "object_ic_try ob k = (ob', r) \<Longrightarrow>
   same_table ob ob' \<and> (\<forall>i. r = Some i \<longrightarrow> slot_holds ob i k)"
  unfolding object_ic_try_def by (auto split: if_splits dest: ic_poly_try_ok simp del: ic_poly_try.simps)

text \<open>A free slot where the key may be inserted.\<close>

definition insertable :: "jello_object \<Rightarrow> u32 \<Rightarrow> nat \<Rightarrow> bool" where
  "insertable ob k i \<longleftrightarrow> reaches ob k i \<and> o_states ob ! i \<noteq> SLOT_OCCUPIED"

lemma find_slot_loop_ok:
  assumes sh: "shape_ok ob" and d: "d < cap_of ob" "stops ob k d" "\<forall>j<d. \<not> stops ob k j"
  shows "j \<le> d \<Longrightarrow> unat i = probe ob k j \<Longrightarrow> ft = - 1 \<or> insertable ob k (unat ft) \<Longrightarrow>
    \<exists>ob' s. find_slot_loop ob k (o_cap ob - 1) i ft = Some (ob', s, state_at ob k d = SLOT_OCCUPIED) \<and>
      same_table ob ob' \<and>
      (if state_at ob k d = SLOT_OCCUPIED then unat s = probe ob k d
       else insertable ob k (unat s))"
proof (induction "d - j" arbitrary: j i ft)
  case 0
  then have j: "j = d" by simp
  have st: "o_states ob ! unat i = state_at ob k d" using 0 j by (simp add: state_at_def)
  have ne: "\<forall>l<d. state_at ob k l \<noteq> SLOT_EMPTY" using d(3) by (auto simp: stops_def)
  show ?case
  proof (cases "state_at ob k d = SLOT_EMPTY")
    case True
    then have "insertable ob k (unat i)"
      using 0 j d(1) ne by (auto simp: insertable_def reaches_def state_at_def)
    then show ?thesis using True st 0 by (subst find_slot_loop.simps) (auto simp: Let_def)
  next
    case False
    then have "state_at ob k d = SLOT_OCCUPIED" "o_keys ob ! unat i = k"
      using d(2) 0 j by (auto simp: stops_def)
    then show ?thesis using st 0 j by (subst find_slot_loop.simps) (auto simp: Let_def)
  qed
next
  case (Suc x)
  then have j: "j < d" by simp
  let ?ft = "if o_states ob ! unat i = SLOT_TOMB \<and> ft = - 1 then i else ft"
  have ns: "o_states ob ! unat i \<noteq> SLOT_EMPTY"
    "\<not> (o_states ob ! unat i = SLOT_OCCUPIED \<and> o_keys ob ! unat i = k)"
    using d(3) j Suc.prems(2) by (auto simp: stops_def state_at_def)
  have ne: "\<forall>l<d. state_at ob k l \<noteq> SLOT_EMPTY" using d(3) by (auto simp: stops_def)
  have "reaches ob k (unat i)"
    unfolding reaches_def by (intro exI [of _ j]) (use Suc.prems(2) j d(1) ne in auto)
  then have ft: "?ft = - 1 \<or> insertable ob k (unat ?ft)"
    using Suc.prems(3) by (auto simp: insertable_def)
  have "find_slot_loop ob k (o_cap ob - 1) i ft =
      find_slot_loop ob k (o_cap ob - 1) ((i + 1) AND (o_cap ob - 1)) ?ft"
    using ns by (subst find_slot_loop.simps) (auto simp: Let_def)
  moreover have "unat ((i + 1) AND (o_cap ob - 1)) = probe ob k (Suc j)"
    by (rule probe_Suc [OF sh Suc.prems(2)])
  ultimately show ?case using Suc.hyps(1) [of "Suc j", OF _ _ _ ft] Suc.hyps(2) j by simp
qed

lemma finite_occ [simp]: "finite {i. occ ob i}"
  by (rule finite_subset [of _ "{..<cap_of ob}"]) (auto simp: occ_def)

lemma len_0_no_occ:
  assumes "obj_inv ob" "o_len ob = 0"
  shows "\<not> occ ob i"
proof -
  have "card {i. occ ob i} = 0" using assms by (simp add: obj_inv_def)
  then show ?thesis by (simp only: card_0_eq [OF finite_occ]) auto
qed

lemma find_slot_ok:
  assumes inv: "obj_inv ob" and ready: "present ob k \<or> has_empty ob"
  shows "\<exists>ob' s. find_slot ob k = Some (ob', s, present ob k) \<and> same_table ob ob' \<and>
    (if present ob k then occ ob (unat s) \<and> o_keys ob ! unat s = k else insertable ob k (unat s))"
proof (cases "o_len ob = 0")
  case True
  have sh: "shape_ok ob" using inv by (simp add: obj_inv_def)
  have none: "\<not> occ ob i" for i by (rule len_0_no_occ [OF inv True])
  have "reaches ob k (probe ob k 0)"
    unfolding reaches_def by (intro exI [of _ 0]) (use shape_cap [OF sh] in simp)
  then have "insertable ob k (probe ob k 0)"
    using none [of "probe ob k 0"] probe_less [OF sh, of k 0] by (simp add: insertable_def occ_def)
  then show ?thesis using True none probe_0 [OF sh]
    by (simp add: find_slot_def present_def)
next
  case False
  have sh: "shape_ok ob" using inv by (simp add: obj_inv_def)
  obtain d where d: "d < cap_of ob" "stops ob k d" "\<forall>j<d. \<not> stops ob k j"
    "present ob k \<longleftrightarrow> state_at ob k d = SLOT_OCCUPIED"
    using first_stop [OF inv ready] by metis
  from find_slot_loop_ok [OF sh d(1-3) le0 probe_0 [OF sh] disjI1 [OF refl]] False d(4)
  obtain ob' s where r: "find_slot ob k = Some (ob', s, present ob k)" "same_table ob ob'"
    "if state_at ob k d = SLOT_OCCUPIED then unat s = probe ob k d else insertable ob k (unat s)"
    by (auto simp: find_slot_def Let_def)
  moreover have "occ ob (probe ob k d) \<and> o_keys ob ! probe ob k d = k" if "present ob k"
    using that d(2,4) sh by (auto simp: stops_def state_at_def occ_def)
  ultimately show ?thesis using d(4) by (intro exI [of _ ob'] exI [of _ s]) auto
qed

section \<open>Lookups\<close>

lemma linear_scan_ok:
  assumes sh: "shape_ok ob" "\<And>i. i \<in> set is \<Longrightarrow> i < cap_of ob"
  shows "\<exists>ob' s f. linear_scan ob k is = (ob', s, f) \<and> same_table ob ob' \<and>
    (f \<longleftrightarrow> (\<exists>i\<in>set is. occ ob i \<and> o_keys ob ! i = k)) \<and>
    (f \<longrightarrow> occ ob (unat s) \<and> o_keys ob ! unat s = k)"
  using assms(2)
proof (induction "is")
  case (Cons i "is")
  have "i < 2 ^ 32"
    using Cons.prems [of i] less_trans [OF _ unat_u32_less, of i "o_cap ob"] by (simp add: cap_of_def)
  then have "unat (of_nat i :: u32) = i" by (simp add: unat_of_nat)
  then show ?case using Cons by (auto simp: occ_def)
qed auto

lemma find_occupied_loop_ok:
  assumes sh: "shape_ok ob" and d: "d < cap_of ob" "stops ob k d" "\<forall>j<d. \<not> stops ob k j"
  shows "j \<le> d \<Longrightarrow> unat i = probe ob k j \<Longrightarrow>
    \<exists>ob' s. find_occupied_loop ob k (o_cap ob - 1) i = Some (ob', s, state_at ob k d = SLOT_OCCUPIED) \<and>
      same_table ob ob' \<and> (state_at ob k d = SLOT_OCCUPIED \<longrightarrow> unat s = probe ob k d)"
proof (induction "d - j" arbitrary: j i)
  case 0
  then have j: "j = d" by simp
  have st: "o_states ob ! unat i = state_at ob k d" using 0 j by (simp add: state_at_def)
  then show ?case using d(2) 0 j by (subst find_occupied_loop.simps) (auto simp: Let_def stops_def)
next
  case (Suc x)
  then have j: "j < d" by simp
  have "o_states ob ! unat i \<noteq> SLOT_EMPTY"
    "\<not> (o_states ob ! unat i = SLOT_OCCUPIED \<and> o_keys ob ! unat i = k)"
    using d(3) j Suc.prems(2) by (auto simp: stops_def state_at_def)
  then have "find_occupied_loop ob k (o_cap ob - 1) i =
      find_occupied_loop ob k (o_cap ob - 1) ((i + 1) AND (o_cap ob - 1))"
    by (subst find_occupied_loop.simps) (auto simp: Let_def)
  moreover have "unat ((i + 1) AND (o_cap ob - 1)) = probe ob k (Suc j)"
    by (rule probe_Suc [OF sh Suc.prems(2)])
  ultimately show ?case using Suc.hyps(1) [of "Suc j"] Suc.hyps(2) j by simp
qed

lemma find_occupied_slot_ok:
  assumes inv: "obj_inv ob" and ready: "present ob k \<or> has_empty ob"
  shows "\<exists>ob' s. find_occupied_slot ob k = Some (ob', s, present ob k) \<and> same_table ob ob' \<and>
    (present ob k \<longrightarrow> occ ob (unat s) \<and> o_keys ob ! unat s = k)"
proof -
  obtain ob1 r where t: "object_ic_try ob k = (ob1, r)" by (cases "object_ic_try ob k")
  have s1: "same_table ob ob1" and h: "\<And>i. r = Some i \<Longrightarrow> slot_holds ob i k"
    using object_ic_try_ok [OF t] by auto
  show ?thesis
  proof (cases r)
    case (Some i)
    then have "occ ob (unat i) \<and> o_keys ob ! unat i = k"
      using h by (simp add: slot_holds_def occ_def cap_of_def word_less_nat_alt)
    then show ?thesis using t s1 Some by (auto simp: find_occupied_slot_def present_def)
  next
    case None
    note e = same_table_eq [OF s1]
    have i1: "obj_inv ob1" by (rule same_table_inv [OF s1 inv])
    then have sh: "shape_ok ob1" by (simp add: obj_inv_def)
    consider (zero) "o_len ob1 = 0" | (tiny) "o_len ob1 \<noteq> 0" "o_len ob1 \<le> 8 \<and> o_cap ob1 \<le> JELLO_OBJECT_INIT_CAP"
      | (big) "o_len ob1 \<noteq> 0" "\<not> (o_len ob1 \<le> 8 \<and> o_cap ob1 \<le> JELLO_OBJECT_INIT_CAP)" by blast
    then show ?thesis
    proof cases
      case zero
      have "\<not> present ob k" using len_0_no_occ [OF i1 zero] e by (simp add: present_def)
      then show ?thesis using zero t None s1 by (simp add: find_occupied_slot_def)
    next
      case tiny
      obtain ob' s f where l: "linear_scan ob1 k [0..<unat (o_cap ob1)] = (ob', s, f)" "same_table ob1 ob'"
        "f \<longleftrightarrow> (\<exists>i\<in>set [0..<unat (o_cap ob1)]. occ ob1 i \<and> o_keys ob1 ! i = k)"
        "f \<longrightarrow> occ ob1 (unat s) \<and> o_keys ob1 ! unat s = k"
        using linear_scan_ok [OF sh, of "[0..<unat (o_cap ob1)]" k] by (auto simp: cap_of_def)
      then have "f \<longleftrightarrow> present ob k" by (auto simp: present_def e occ_def cap_of_def)
      then show ?thesis using l tiny t None same_table_trans [OF s1] e
        by (auto simp: find_occupied_slot_def)
    next
      case big
      obtain d where d: "d < cap_of ob1" "stops ob1 k d" "\<forall>j<d. \<not> stops ob1 k j"
        "present ob1 k \<longleftrightarrow> state_at ob1 k d = SLOT_OCCUPIED"
        using first_stop [OF i1, of k] ready e by metis
      from find_occupied_loop_ok [OF sh d(1-3) le0 probe_0 [OF sh]]
      obtain ob' s where r: "find_occupied_loop ob1 k (o_cap ob1 - 1) (hash_u32 k AND (o_cap ob1 - 1)) =
          Some (ob', s, state_at ob1 k d = SLOT_OCCUPIED)" "same_table ob1 ob'"
          "state_at ob1 k d = SLOT_OCCUPIED \<longrightarrow> unat s = probe ob1 k d"
        by auto
      moreover have "occ ob (probe ob k d) \<and> o_keys ob ! probe ob k d = k" if "present ob k"
        using that d(2,4) sh e probe_less [OF sh, of k d] by (auto simp: stops_def state_at_def occ_def)
      ultimately show ?thesis using big t None d(4) e same_table_trans [OF s1]
        by (auto simp: find_occupied_slot_def Let_def)
    qed
  qed
qed

section \<open>The map of an object\<close>

lemma obj_abs_Some:
  assumes "obj_inv ob"
  shows "obj_abs ob k = Some v \<longleftrightarrow> (\<exists>i. occ ob i \<and> o_keys ob ! i = k \<and> o_vals ob ! i = v)"
proof -
  let ?xs = "[(o_keys ob ! i, o_vals ob ! i). i \<leftarrow> [0..<cap_of ob], o_states ob ! i = SLOT_OCCUPIED]"
  have s: "(k, v) \<in> set ?xs \<longleftrightarrow> (\<exists>i. occ ob i \<and> o_keys ob ! i = k \<and> o_vals ob ! i = v)" for k v
    by (auto simp: occ_def)
  have u: "(k, v) \<in> set ?xs \<Longrightarrow> (k, v') \<in> set ?xs \<Longrightarrow> v = v'" for v v'
    unfolding s using assms by (auto simp: obj_inv_def)
  show ?thesis
    unfolding obj_abs_def s [symmetric]
  proof
    assume "map_of ?xs k = Some v"
    then show "(k, v) \<in> set ?xs" by (rule map_of_SomeD)
  next
    assume m: "(k, v) \<in> set ?xs"
    then obtain w where w: "map_of ?xs k = Some w" using weak_map_of_SomeI by fast
    from u [OF map_of_SomeD [OF w] m] w show "map_of ?xs k = Some v" by (simp only:)
  qed
qed

lemma obj_abs_None: "obj_inv ob \<Longrightarrow> obj_abs ob k = None \<longleftrightarrow> \<not> present ob k"
  using obj_abs_Some [of ob k] by (auto simp: present_def not_Some_eq [symmetric] simp del: not_Some_eq)

lemma obj_abs_eqI:
  assumes "obj_inv ob" "\<And>k v. f k = Some v \<longleftrightarrow> (\<exists>i. occ ob i \<and> o_keys ob ! i = k \<and> o_vals ob ! i = v)"
  shows "obj_abs ob = f"
proof
  fix k
  have "obj_abs ob k = Some v \<longleftrightarrow> f k = Some v" for v
    using obj_abs_Some [OF assms(1), of k v] assms(2) [of k v] by simp
  then show "obj_abs ob k = f k" by (metis not_None_eq)
qed

text \<open>A slot changes state, no other does, and none becomes empty: what was reachable stays so.\<close>

lemma reaches_mono:
  assumes "cap_of ob' = cap_of ob"
    and "\<And>i. i < cap_of ob \<Longrightarrow> o_states ob ! i \<noteq> SLOT_EMPTY \<Longrightarrow> o_states ob' ! i \<noteq> SLOT_EMPTY"
    and "shape_ok ob" "reaches ob k i"
  shows "reaches ob' k i"
proof -
  have "probe ob' k j = probe ob k j" for j by (simp add: probe_def assms(1))
  then show ?thesis using assms unfolding reaches_def state_at_def by force
qed

lemma card_occ_le: "card {i. occ ob i} \<le> cap_of ob"
  using card_mono [of "{..<cap_of ob}" "{i. occ ob i}"] by (auto simp: occ_def)

lemma ex_update:
  assumes "\<not> Q s"
  shows "(\<exists>i. (i = s \<or> Q i) \<and> (if i = s then a else f i) = x \<and> (if i = s then b else g i) = y) \<longleftrightarrow>
    (a = x \<and> b = y) \<or> (\<exists>i. Q i \<and> f i = x \<and> g i = y)"
proof -
  have "(i = s \<or> Q i) \<and> (if i = s then a else f i) = x \<and> (if i = s then b else g i) = y \<longleftrightarrow>
      i = s \<and> a = x \<and> b = y \<or> Q i \<and> f i = x \<and> g i = y" for i
    using assms by (cases "i = s") auto
  then show ?thesis by (simp only: ex_disj_distrib) auto
qed

lemma put_entry_ok:
  assumes inv: "obj_inv ob" and k: "\<not> present ob k" and s: "insertable ob k (unat s)"
  shows "obj_inv (put_entry ob k v s) \<and> obj_abs (put_entry ob k v s) = (obj_abs ob)(k \<mapsto> v) \<and>
    occ (put_entry ob k v s) (unat s) \<and> unat (o_len (put_entry ob k v s)) = unat (o_len ob) + 1"
proof -
  let ?ob = "put_entry ob k v s" and ?s = "unat s"
  have sh: "shape_ok ob" using inv by (simp add: obj_inv_def)
  have sc: "?s < cap_of ob" using s probe_less [OF sh, of k] unfolding insertable_def reaches_def by metis
  have len: "length (o_keys ob) = cap_of ob" "length (o_vals ob) = cap_of ob" "length (o_states ob) = cap_of ob"
    using sh by (simp_all add: shape_ok_def)
  have c: "cap_of ?ob = cap_of ob" by (simp add: cap_of_def put_entry_def)
  have sh': "shape_ok ?ob" using sh c unfolding shape_ok_def by (simp add: put_entry_def)
  have o: "occ ?ob i \<longleftrightarrow> i = ?s \<or> occ ob i" for i
    using sc len by (auto simp: occ_def c) (auto simp: put_entry_def nth_list_update)
  have no: "\<not> occ ob ?s" using s by (simp add: insertable_def occ_def)
  have ks: "o_keys ?ob ! i = (if i = ?s then k else o_keys ob ! i)" "o_vals ?ob ! i = (if i = ?s then v else o_vals ob ! i)"
    for i using sc len by (simp_all add: put_entry_def nth_list_update)
  have r: "reaches ob k' i \<Longrightarrow> reaches ?ob k' i" for k' i
    by (rule reaches_mono [OF c _ sh])
      (auto simp: put_entry_def nth_list_update len sc split: if_splits)
  have "{i. occ ?ob i} = insert ?s {i. occ ob i}" using o by auto
  then have card: "card {i. occ ?ob i} = card {i. occ ob i} + 1" using no by simp
  have "unat (o_len ob) < cap_of ob"
    using card card_occ_le [of ?ob] inv c by (simp add: obj_inv_def)
  then have "unat (o_len ob) + 1 < 4294967296"
    using unat_u32_less [of "o_cap ob"] unfolding cap_of_def by linarith
  then have l: "unat (o_len ?ob) = unat (o_len ob) + 1" by (simp add: put_entry_def unat_word_ariths)
  have inv': "obj_inv ?ob"
    unfolding obj_inv_def
  proof (intro conjI allI impI)
    show "shape_ok ?ob" by (rule sh')
    show "unat (o_len ?ob) = card {i. occ ?ob i}" using l card inv by (simp add: obj_inv_def)
  next
    fix i j assume "occ ?ob i" "occ ?ob j" "o_keys ?ob ! i = o_keys ?ob ! j"
    then show "i = j" using inv k unfolding o ks by (auto simp: obj_inv_def present_def split: if_splits)
  next
    fix i assume "occ ?ob i"
    then show "reaches ?ob (o_keys ?ob ! i) i"
      using inv s r unfolding o ks by (auto simp: obj_inv_def insertable_def)
  qed
  have "obj_abs ?ob = (obj_abs ob)(k \<mapsto> v)"
  proof (rule obj_abs_eqI [OF inv'])
    fix k' v'
    show "((obj_abs ob)(k \<mapsto> v)) k' = Some v' \<longleftrightarrow>
        (\<exists>i. occ ?ob i \<and> o_keys ?ob ! i = k' \<and> o_vals ?ob ! i = v')"
      using obj_abs_Some [OF inv, of k' v'] k unfolding o ks ex_update [of "occ ob", OF no]
      by (auto simp: present_def)
  qed
  then show ?thesis using inv' o l by simp
qed

lemma write_slot_ok:
  assumes inv: "obj_inv ob" and i: "occ ob (unat i)" "o_keys ob ! unat i = k"
  shows "obj_inv (write_slot ob i v) \<and> obj_abs (write_slot ob i v) = (obj_abs ob)(k \<mapsto> v)"
proof -
  let ?ob = "write_slot ob i v"
  have len: "length (o_vals ob) = cap_of ob" using inv by (simp add: obj_inv_def shape_ok_def)
  have e: "cap_of ?ob = cap_of ob" "occ ?ob = occ ob" "reaches ?ob = reaches ob" "o_keys ?ob = o_keys ob"
    by (simp_all add: fun_eq_iff cap_of_def occ_def reaches_def probe_def state_at_def write_slot_def)
  have v: "o_vals ?ob ! j = (if j = unat i then v else o_vals ob ! j)" for j
    using i(1) len by (simp add: write_slot_def occ_def nth_list_update)
  have inv': "obj_inv ?ob" using inv unfolding obj_inv_def shape_ok_def e by (simp add: write_slot_def)
  moreover have "obj_abs ?ob = (obj_abs ob)(k \<mapsto> v)"
  proof (rule obj_abs_eqI [OF inv'])
    fix k' v'
    have "occ ob j \<Longrightarrow> o_keys ob ! j = k \<Longrightarrow> j = unat i" for j
      using inv i by (auto simp: obj_inv_def)
    then show "((obj_abs ob)(k \<mapsto> v)) k' = Some v' \<longleftrightarrow>
        (\<exists>i. occ ?ob i \<and> o_keys ?ob ! i = k' \<and> o_vals ?ob ! i = v')"
      using obj_abs_Some [OF inv, of k' v'] i unfolding e v by (cases "k' = k") fastforce+
  qed
  ultimately show ?thesis ..
qed

section \<open>Growth\<close>

definition no_tomb :: "jello_object \<Rightarrow> bool" where
  "no_tomb ob \<longleftrightarrow> SLOT_TOMB \<notin> set (o_states ob)"

lemma no_tomb_has_empty:
  assumes "obj_inv ob" "no_tomb ob" "unat (o_len ob) < cap_of ob"
  shows "has_empty ob"
proof (rule ccontr)
  assume n: "\<not> has_empty ob"
  have len: "length (o_states ob) = cap_of ob" using assms(1) by (simp add: obj_inv_def shape_ok_def)
  have "o_states ob ! i = SLOT_OCCUPIED" if "i < cap_of ob" for i
    using n assms(2) that len nth_mem [of i "o_states ob"]
    by (cases "o_states ob ! i") (auto simp: has_empty_def no_tomb_def)
  then have "{i. occ ob i} = {..<cap_of ob}" by (auto simp: occ_def)
  then show False using assms by (simp add: obj_inv_def)
qed

lemma no_tomb_put_entry: "no_tomb ob \<Longrightarrow> no_tomb (put_entry ob k v s)"
  using set_update_subset_insert [of "o_states ob" "unat s" SLOT_OCCUPIED]
  by (auto simp: no_tomb_def put_entry_def)

text \<open>The table under construction holds the entries of the old slots processed so far.\<close>

definition rehashed :: "jello_object \<Rightarrow> nat set \<Rightarrow> jello_object \<Rightarrow> bool" where
  "rehashed old P ob \<longleftrightarrow> obj_inv ob \<and> no_tomb ob \<and> cap_of old < cap_of ob \<and>
     (\<forall>k v. obj_abs ob k = Some v \<longleftrightarrow>
        (\<exists>i\<in>P. occ old i \<and> o_keys old ! i = k \<and> o_vals old ! i = v)) \<and>
     unat (o_len ob) = card {i\<in>P. occ old i}"

lemma rehashed_step:
  assumes old: "obj_inv old" and r: "rehashed old P ob" and i: "i \<notin> P" "occ old i"
  shows "\<exists>ob' s. find_slot ob (o_keys old ! i) = Some (ob', s, False) \<and>
    rehashed old (insert i P) (put_entry ob' (o_keys old ! i) (o_vals old ! i) s) \<and>
    cap_of (put_entry ob' (o_keys old ! i) (o_vals old ! i) s) = cap_of ob"
proof -
  let ?k = "o_keys old ! i" and ?v = "o_vals old ! i"
  have inv: "obj_inv ob" and nt: "no_tomb ob" and cap: "cap_of old < cap_of ob"
    and a: "\<And>k v. obj_abs ob k = Some v \<longleftrightarrow>
        (\<exists>i\<in>P. occ old i \<and> o_keys old ! i = k \<and> o_vals old ! i = v)"
    and l: "unat (o_len ob) = card {i\<in>P. occ old i}"
    using r by (simp_all add: rehashed_def)
  have np: "\<not> present ob ?k"
    using a [of ?k] i old obj_abs_None [OF inv, of ?k] by (auto simp: obj_inv_def)
  have "card {i\<in>P. occ old i} \<le> card {i. occ old i}" by (intro card_mono) auto
  then have he: "has_empty ob"
    using no_tomb_has_empty [OF inv nt] l cap card_occ_le [of old] by linarith
  obtain ob' s where f: "find_slot ob ?k = Some (ob', s, False)" "same_table ob ob'" "insertable ob ?k (unat s)"
    using find_slot_ok [OF inv, of ?k] np he by auto
  note e = same_table_eq [OF f(2)]
  have inv': "obj_inv ob'" by (rule same_table_inv [OF f(2) inv])
  have p: "\<not> present ob' ?k" "insertable ob' ?k (unat s)"
    using np f(3) e by (simp_all add: insertable_def)
  note pe = put_entry_ok [OF inv' p, of ?v]
  have fin: "{j \<in> insert i P. occ old j} = insert i {j\<in>P. occ old j}" using i by auto
  have "finite {j\<in>P. occ old j}" by (rule finite_subset [OF _ finite_occ [of old]]) auto
  then have "card {j \<in> insert i P. occ old j} = card {j\<in>P. occ old j} + 1"
    using i unfolding fin by simp
  moreover have "cap_of (put_entry ob' ?k ?v s) = cap_of ob" by (simp add: put_entry_def cap_of_def e)
  moreover have "obj_abs (put_entry ob' ?k ?v s) k = Some v \<longleftrightarrow>
      (\<exists>j\<in>insert i P. occ old j \<and> o_keys old ! j = k \<and> o_vals old ! j = v)" for k v
    using pe a [of k v] i old by (auto simp: e obj_inv_def)
  moreover have "no_tomb ob'" using nt e by (simp add: no_tomb_def)
  ultimately show ?thesis
    using f(1) pe l cap no_tomb_put_entry e by (auto simp: rehashed_def)
qed

lemma rehash_loop_ok:
  assumes old: "obj_inv old"
  shows "rehashed old P ob \<Longrightarrow> distinct is \<Longrightarrow> set is \<inter> P = {} \<Longrightarrow> set is \<subseteq> {..<cap_of old} \<Longrightarrow>
    \<exists>ob'. rehash_loop old ob is = Some ob' \<and> rehashed old (P \<union> set is) ob' \<and> cap_of ob' = cap_of ob"
proof (induction "is" arbitrary: P ob)
  case (Cons i "is")
  show ?case
  proof (cases "occ old i")
    case True
    then have st: "o_states old ! i = SLOT_OCCUPIED" by (simp add: occ_def)
    obtain ob' s where f: "find_slot ob (o_keys old ! i) = Some (ob', s, False)"
      and r: "rehashed old (insert i P) (put_entry ob' (o_keys old ! i) (o_vals old ! i) s)"
      and c: "cap_of (put_entry ob' (o_keys old ! i) (o_vals old ! i) s) = cap_of ob"
      using rehashed_step [OF old Cons.prems(1) _ True] Cons.prems(3) by auto
    from Cons.IH [OF r] Cons.prems f st c show ?thesis by auto
  next
    case False
    then have st: "o_states old ! i \<noteq> SLOT_OCCUPIED" using Cons.prems(4) by (simp add: occ_def)
    have "rehashed old (insert i P) ob"
    proof -
      have "{j. (j = i \<or> j \<in> P) \<and> occ old j} = {j\<in>P. occ old j}" using False by auto
      then show ?thesis using Cons.prems(1) False by (auto simp: rehashed_def)
    qed
    from Cons.IH [OF this] Cons.prems st show ?thesis by auto
  qed
qed simp

lemma fresh_table_ok:
  assumes "unat cap = 2 ^ n" "n < 32" "8 \<le> unat cap" "length (ic_poly_atom ob) = 3" "length (ic_poly_slot ob) = 3"
  shows "obj_inv ((object_bind_table ob b cap)\<lparr>o_len := 0\<rparr>) \<and>
    no_tomb ((object_bind_table ob b cap)\<lparr>o_len := 0\<rparr>) \<and>
    obj_abs ((object_bind_table ob b cap)\<lparr>o_len := 0\<rparr>) = Map.empty \<and>
    cap_of ((object_bind_table ob b cap)\<lparr>o_len := 0\<rparr>) = unat cap"
proof -
  let ?ob = "(object_bind_table ob b cap)\<lparr>o_len := 0\<rparr>"
  have c: "cap_of ?ob = unat cap" by (simp add: cap_of_def object_bind_table_def)
  have no: "\<not> occ ?ob i" for i by (simp add: occ_def c) (simp add: object_bind_table_def)
  have inv: "obj_inv ?ob"
    using assms c no unfolding obj_inv_def shape_ok_def by (auto simp: object_bind_table_def)
  moreover have "obj_abs ?ob = Map.empty"
    by (rule obj_abs_eqI [OF inv]) (simp add: no)
  ultimately show ?thesis using c by (simp add: no_tomb_def object_bind_table_def)
qed

lemma rehash_ok:
  assumes inv: "obj_inv ob" and c: "cap_of ob \<le> 2 ^ 28"
  shows "\<exists>ob'. rehash ob (o_cap ob * 2) = Some ob' \<and> obj_inv ob' \<and> no_tomb ob' \<and>
    obj_abs ob' = obj_abs ob \<and> o_len ob' = o_len ob \<and> cap_of ob' = 2 * cap_of ob"
proof -
  have sh: "shape_ok ob" using inv by (simp add: obj_inv_def)
  obtain n where n: "cap_of ob = 2 ^ n" using sh by (auto simp: shape_ok_def)
  have "(2 :: nat) ^ n \<le> 2 ^ 28" using n c by simp
  then have n28: "n \<le> 28" by (simp only: power_increasing_iff)
  have c2: "unat (o_cap ob * 2) = 2 ^ (n + 1)"
    using n c by (simp add: unat_word_ariths cap_of_def)
  have ic: "length (ic_poly_atom ob) = 3" "length (ic_poly_slot ob) = 3" "8 \<le> cap_of ob"
    using sh by (simp_all add: shape_ok_def)
  let ?new = "(object_bind_table ob False (o_cap ob * 2))\<lparr>o_len := 0\<rparr>"
  have "8 \<le> unat (o_cap ob * 2)" using c2 ic(3) n by simp
  from fresh_table_ok [OF c2 _ this ic(1,2), of False] n28
  have f: "obj_inv ?new" "no_tomb ?new" "obj_abs ?new = Map.empty" "cap_of ?new = 2 ^ (n + 1)"
    using c2 by simp_all
  then have "rehashed ob {} ?new" using n by (simp add: rehashed_def)
  from rehash_loop_ok [OF inv this, of "[0..<unat (o_cap ob)]"] f(4)
  obtain ob' where r: "rehash_loop ob ?new [0..<unat (o_cap ob)] = Some ob'"
    "rehashed ob {0..<unat (o_cap ob)} ob'" "cap_of ob' = 2 ^ (n + 1)"
    by (auto simp: cap_of_def lessThan_atLeast0)
  have "{i \<in> {0..<unat (o_cap ob)}. occ ob i} = {i. occ ob i}" by (auto simp: occ_def cap_of_def)
  then have len: "o_len ob' = o_len ob"
    using r(2) inv by (simp add: rehashed_def obj_inv_def word_unat_eq_iff)
  then have id: "ob'\<lparr>o_len := o_len ob\<rparr> = ob'" by simp
  have inv': "obj_inv ob'" using r(2) by (simp add: rehashed_def)
  have "obj_abs ob' = obj_abs ob"
  proof (rule sym, rule obj_abs_eqI [OF inv])
    fix k v
    show "obj_abs ob' k = Some v \<longleftrightarrow> (\<exists>i. occ ob i \<and> o_keys ob ! i = k \<and> o_vals ob ! i = v)"
      using r(2) by (auto simp: rehashed_def occ_def cap_of_def)
  qed
  moreover have "rehash ob (o_cap ob * 2) = Some (jello_object_invalidate_ic ob')"
    by (simp add: rehash_def r(1) id)
  moreover have s: "same_table ob' (jello_object_invalidate_ic ob')" by simp
  ultimately show ?thesis
    using same_table_inv [OF s inv'] same_table_eq [OF s] r(2,3) len n
    by (auto simp: rehashed_def no_tomb_def)
qed

lemma ensure_cap_ok:
  assumes inv: "obj_inv ob" and c: "cap_of ob \<le> 2 ^ 28"
  shows "\<exists>ob'. ensure_cap ob = Some ob' \<and> obj_inv ob' \<and> obj_abs ob' = obj_abs ob \<and>
    o_len ob' = o_len ob \<and> 10 * (unat (o_len ob') + 1) < 7 * cap_of ob' \<and>
    (ob' = ob \<or> no_tomb ob' \<and> has_empty ob') \<and>
    (cap_of ob' = cap_of ob \<or> 7 * cap_of ob' \<le> 20 * (unat (o_len ob) + 1))"
proof -
  have l: "unat (o_len ob) \<le> cap_of ob" using inv card_occ_le [of ob] by (simp add: obj_inv_def)
  have "unat ((o_len ob + 1) * JELLO_OBJECT_LOAD_NUM) = 10 * (unat (o_len ob) + 1)"
    "unat (o_cap ob * JELLO_OBJECT_LOAD_DEN) = 7 * cap_of ob"
    using l c by (simp_all add: JELLO_OBJECT_LOAD_NUM_def JELLO_OBJECT_LOAD_DEN_def cap_of_def
        unat_word_ariths)
  then have t: "(o_len ob + 1) * JELLO_OBJECT_LOAD_NUM < o_cap ob * JELLO_OBJECT_LOAD_DEN \<longleftrightarrow>
      10 * (unat (o_len ob) + 1) < 7 * cap_of ob"
    by (simp add: word_less_nat_alt)
  show ?thesis
  proof (cases "10 * (unat (o_len ob) + 1) < 7 * cap_of ob")
    case True
    then show ?thesis using t inv by (simp add: ensure_cap_def)
  next
    case False
    from rehash_ok [OF inv c] obtain ob' where
      r: "rehash ob (o_cap ob * 2) = Some ob'" "obj_inv ob'" "no_tomb ob'" "obj_abs ob' = obj_abs ob"
        "o_len ob' = o_len ob" "cap_of ob' = 2 * cap_of ob"
      by blast
    have "8 \<le> cap_of ob" using inv by (simp add: obj_inv_def shape_ok_def)
    then have "10 * (unat (o_len ob') + 1) < 7 * cap_of ob'" "unat (o_len ob') < cap_of ob'"
      "7 * cap_of ob' \<le> 20 * (unat (o_len ob) + 1)"
      using r(5,6) l False by simp_all
    then show ?thesis using r t False no_tomb_has_empty by (auto simp: ensure_cap_def)
  qed
qed

section \<open>The operations on the map\<close>

lemma get_ok:
  assumes inv: "obj_inv ob" and ready: "present ob k \<or> has_empty ob"
  shows "\<exists>ob'. jello_object_get ob k = Some (ob', case obj_abs ob k of None \<Rightarrow> jello_make_null | Some v \<Rightarrow> v) \<and>
    same_table ob ob'"
proof -
  obtain ob' s where f: "find_occupied_slot ob k = Some (ob', s, present ob k)" "same_table ob ob'"
    "present ob k \<longrightarrow> occ ob (unat s) \<and> o_keys ob ! unat s = k"
    using find_occupied_slot_ok [OF inv ready] by blast
  show ?thesis
  proof (cases "present ob k")
    case True
    then have "obj_abs ob k = Some (o_vals ob ! unat s)" using f(3) obj_abs_Some [OF inv] by blast
    then show ?thesis using f True same_table_eq [OF f(2)] by (simp add: jello_object_get_def)
  next
    case False
    then show ?thesis using f obj_abs_None [OF inv, of k] by (simp add: jello_object_get_def)
  qed
qed

lemma has_ok:
  assumes "obj_inv ob" and "present ob k \<or> has_empty ob"
  shows "\<exists>ob'. jello_object_has ob k = Some (ob', k \<in> dom (obj_abs ob)) \<and> same_table ob ob'"
  using find_occupied_slot_ok [OF assms] obj_abs_None [OF assms(1), of k]
  by (auto simp: jello_object_has_def domIff)

text \<open>How far one insertion can change the size of a table.\<close>

definition grown :: "jello_object \<Rightarrow> jello_object \<Rightarrow> bool" where
  "grown ob ob' \<longleftrightarrow> unat (o_len ob) \<le> unat (o_len ob') \<and> unat (o_len ob') \<le> unat (o_len ob) + 1 \<and>
     (cap_of ob' = cap_of ob \<or> 7 * cap_of ob' \<le> 20 * (unat (o_len ob) + 1))"

lemma upsert_ok:
  assumes inv: "obj_inv ob" and c: "cap_of ob \<le> 2 ^ 28" and ready: "present ob k \<or> has_empty ob"
  shows "\<exists>ob' s. jello_object_upsert ob k = Some (ob', s, present ob k) \<and> obj_inv ob' \<and>
    occ ob' (unat s) \<and> o_keys ob' ! unat s = k \<and>
    obj_abs ob' = (if present ob k then obj_abs ob else (obj_abs ob)(k \<mapsto> jello_make_null)) \<and>
    10 * unat (o_len ob') < 7 * cap_of ob' \<and> (no_tomb ob \<longrightarrow> no_tomb ob') \<and> grown ob ob'"
proof -
  obtain ob1 where e: "ensure_cap ob = Some ob1" "obj_inv ob1" "obj_abs ob1 = obj_abs ob"
    "o_len ob1 = o_len ob" "10 * (unat (o_len ob1) + 1) < 7 * cap_of ob1"
    "ob1 = ob \<or> no_tomb ob1 \<and> has_empty ob1" "cap_of ob1 = cap_of ob \<or> 7 * cap_of ob1 \<le> 20 * (unat (o_len ob) + 1)"
    using ensure_cap_ok [OF inv c] by blast
  have p: "present ob1 k = present ob k"
    using obj_abs_None [OF inv, of k] obj_abs_None [OF e(2), of k] e(3) by simp
  have r1: "present ob1 k \<or> has_empty ob1" using e(6) ready by blast
  obtain ob2 s where f: "find_slot ob1 k = Some (ob2, s, present ob1 k)" "same_table ob1 ob2"
    "if present ob1 k then occ ob1 (unat s) \<and> o_keys ob1 ! unat s = k else insertable ob1 k (unat s)"
    using find_slot_ok [OF e(2) r1] by blast
  have inv2: "obj_inv ob2" by (rule same_table_inv [OF f(2) e(2)])
  note q = same_table_eq [OF f(2)]
  show ?thesis
  proof (cases "present ob k")
    case True
    have s: "same_table ob2 (object_ic_store ob2 k s)" by simp
    note q2 = same_table_eq [OF s]
    show ?thesis using True p f e q q2 same_table_inv [OF s inv2]
      by (auto simp: jello_object_upsert_def no_tomb_def grown_def)
  next
    case False
    have i: "\<not> present ob2 k" "insertable ob2 k (unat s)"
      using False p f(3) q by (auto simp: insertable_def)
    have "unat s < cap_of ob2" "length (o_keys ob2) = cap_of ob2"
      using put_entry_ok [OF inv2 i, of jello_make_null] inv2
      by (auto simp: occ_def obj_inv_def shape_ok_def put_entry_def cap_of_def)
    then have ks: "o_keys (put_entry ob2 k jello_make_null s) ! unat s = k" by (simp add: put_entry_def)
    have "cap_of (put_entry ob2 k jello_make_null s) = cap_of ob2" by (simp add: put_entry_def cap_of_def)
    then show ?thesis
      using False p f e q put_entry_ok [OF inv2 i, of jello_make_null] ks
        no_tomb_put_entry [of ob2 k jello_make_null s]
      by (auto simp: jello_object_upsert_def no_tomb_def grown_def)
  qed
qed

lemma set_ok:
  assumes "obj_inv ob" "cap_of ob \<le> 2 ^ 28" "present ob k \<or> has_empty ob"
  shows "\<exists>ob'. jello_object_set ob k v = Some ob' \<and> obj_inv ob' \<and> obj_abs ob' = (obj_abs ob)(k \<mapsto> v) \<and>
    10 * unat (o_len ob') < 7 * cap_of ob' \<and> (no_tomb ob \<longrightarrow> no_tomb ob') \<and> grown ob ob'"
proof -
  obtain ob1 s where u: "jello_object_upsert ob k = Some (ob1, s, present ob k)" "obj_inv ob1"
    "occ ob1 (unat s)" "o_keys ob1 ! unat s = k"
    "obj_abs ob1 = (if present ob k then obj_abs ob else (obj_abs ob)(k \<mapsto> jello_make_null))"
    "10 * unat (o_len ob1) < 7 * cap_of ob1" "no_tomb ob \<longrightarrow> no_tomb ob1" "grown ob ob1"
    using upsert_ok [OF assms] by blast
  have "o_len (write_slot ob1 s v) = o_len ob1" "cap_of (write_slot ob1 s v) = cap_of ob1"
    "no_tomb (write_slot ob1 s v) = no_tomb ob1" "grown ob (write_slot ob1 s v) = grown ob ob1"
    by (simp_all add: write_slot_def cap_of_def no_tomb_def grown_def)
  then show ?thesis using u write_slot_ok [OF u(2-4), of v] by (auto simp: jello_object_set_def)
qed

lemma tomb_slot_ok:
  assumes inv: "obj_inv ob" and s: "occ ob (unat s)" "o_keys ob ! unat s = k"
  defines "ob' \<equiv> ob\<lparr>o_states := (o_states ob)[unat s := SLOT_TOMB], o_len := o_len ob - 1\<rparr>"
  shows "obj_inv ob'" and "obj_abs ob' = (obj_abs ob)(k := None)"
proof -
  have sh: "shape_ok ob" using inv by (simp add: obj_inv_def)
  have len: "length (o_states ob) = cap_of ob" using sh by (simp add: shape_ok_def)
  have c: "cap_of ob' = cap_of ob" by (simp add: cap_of_def ob'_def)
  have keys: "o_keys ob' = o_keys ob" "o_vals ob' = o_vals ob" by (simp_all add: ob'_def)
  have o: "occ ob' i \<longleftrightarrow> occ ob i \<and> i \<noteq> unat s" for i
    using s(1) len by (auto simp: occ_def c) (auto simp: nth_list_update ob'_def split: if_splits)
  have sc: "unat s < cap_of ob" using s(1) by (simp add: occ_def)
  have rm: "reaches ob k' i \<Longrightarrow> reaches ob' k' i" for k' i
    by (rule reaches_mono [OF c _ sh]) (auto simp: nth_list_update len sc ob'_def split: if_splits)
  have "{i. occ ob' i} = {i. occ ob i} - {unat s}" using o by auto
  then have card: "card {i. occ ob' i} = card {i. occ ob i} - 1" using s(1) by simp
  have "card {i. occ ob i} \<noteq> 0" using s(1) by (auto simp: card_eq_0_iff)
  then have "unat (o_len ob - 1) = unat (o_len ob) - 1"
    using inv by (subst unat_minus_one) (auto simp: obj_inv_def)
  then have len2: "unat (o_len ob') = card {i. occ ob' i}"
    using card inv by (simp add: obj_inv_def ob'_def)
  show inv2: "obj_inv ob'"
    unfolding obj_inv_def keys
  proof (intro conjI allI impI)
    show "shape_ok ob'" using sh by (simp add: shape_ok_def c) (simp add: ob'_def)
    show "reaches ob' (o_keys ob ! i) i" if "occ ob' i" for i
      using that rm inv by (simp add: obj_inv_def o)
    show "unat (o_len ob') = card {i. occ ob' i}" by (rule len2)
  qed (use inv in \<open>auto simp: obj_inv_def o\<close>)
  have u: "occ ob j \<Longrightarrow> o_keys ob ! j = k \<Longrightarrow> j = unat s" for j
    using inv s by (auto simp: obj_inv_def)
  have "((obj_abs ob)(k := None)) k' = Some v \<longleftrightarrow> (\<exists>i. occ ob' i \<and> o_keys ob' ! i = k' \<and> o_vals ob' ! i = v)"
    for k' v
  proof (cases "k' = k")
    case True
    then show ?thesis using u by (auto simp: o keys)
  next
    case False
    then have "(\<exists>i. occ ob' i \<and> o_keys ob' ! i = k' \<and> o_vals ob' ! i = v) \<longleftrightarrow>
        (\<exists>i. occ ob i \<and> o_keys ob ! i = k' \<and> o_vals ob ! i = v)"
      using s(2) by (intro iff_exI) (auto simp: o keys)
    then show ?thesis using False obj_abs_Some [OF inv, of k' v] by simp
  qed
  then show "obj_abs ob' = (obj_abs ob)(k := None)" by (rule obj_abs_eqI [OF inv2])
qed

lemma remove_ok:
  assumes inv: "obj_inv ob" and ready: "present ob k \<or> has_empty ob"
  shows "\<exists>ob'. jello_object_remove ob k = Some (ob', present ob k) \<and> obj_inv ob' \<and>
    obj_abs ob' = (obj_abs ob)(k := None)"
proof -
  obtain ob1 s where f: "find_slot ob k = Some (ob1, s, present ob k)" "same_table ob ob1"
    "if present ob k then occ ob (unat s) \<and> o_keys ob ! unat s = k else insertable ob k (unat s)"
    using find_slot_ok [OF inv ready] by blast
  have inv1: "obj_inv ob1" by (rule same_table_inv [OF f(2) inv])
  note q = same_table_eq [OF f(2)]
  show ?thesis
  proof (cases "present ob k")
    case False
    then have "obj_abs ob k = None" using obj_abs_None [OF inv] by simp
    then show ?thesis using False f inv1 q by (auto simp: jello_object_remove_def fun_upd_idem)
  next
    case True
    then have s: "occ ob1 (unat s)" "o_keys ob1 ! unat s = k" using f(3) q by auto
    let ?ob = "ob1\<lparr>o_states := (o_states ob1)[unat s := SLOT_TOMB], o_len := o_len ob1 - 1\<rparr>"
    note inv2 = tomb_slot_ok(1) [OF inv1 s] and abs = tomb_slot_ok(2) [OF inv1 s]
    have t: "same_table ?ob (if ic_atom ?ob = k \<and> ic_cap ?ob = o_cap ?ob \<and> ic_slot ?ob = s then
        jello_object_invalidate_ic ?ob else ?ob)" by simp
    show ?thesis
      using True f(1) same_table_inv [OF t inv2] same_table_eq(8) [OF t] abs q
      by (auto simp: jello_object_remove_def Let_def)
  qed
qed
section \<open>Interfaces of an attribute table\<close>

text \<open>What a client of a table relies on: a lookup answers from the map and changes nothing of it.
  \<open>ready s k\<close> is the condition under which a probe for \<open>k\<close> ends.\<close>

locale lookup_table =
  fixes inv :: "'s \<Rightarrow> bool"
    and ready :: "'s \<Rightarrow> 'k \<Rightarrow> bool"
    and abs :: "'s \<Rightarrow> 'k \<rightharpoonup> 'v"
    and get :: "'s \<Rightarrow> 'k \<Rightarrow> ('s \<times> 'v) option"
    and missing :: 'v
  assumes get_law: "inv s \<Longrightarrow> ready s k \<Longrightarrow>
      \<exists>s'. get s k = Some (s', case abs s k of None \<Rightarrow> missing | Some v \<Rightarrow> v) \<and> inv s' \<and> abs s' = abs s"
    and ready_dom: "inv s \<Longrightarrow> k \<in> dom (abs s) \<Longrightarrow> ready s k"
begin

lemma get_present: "inv s \<Longrightarrow> abs s k = Some v \<Longrightarrow> \<exists>s'. get s k = Some (s', v) \<and> inv s' \<and> abs s' = abs s"
  using get_law [OF _ ready_dom, of s k] by force

end

text \<open>Insertion and removal, each needing a probe that ends; insertion also needs room to grow.\<close>

locale mutable_table = lookup_table inv ready abs get missing
  for inv :: "'s \<Rightarrow> bool" and ready :: "'s \<Rightarrow> 'k \<Rightarrow> bool" and abs :: "'s \<Rightarrow> 'k \<rightharpoonup> 'v"
    and get :: "'s \<Rightarrow> 'k \<Rightarrow> ('s \<times> 'v) option" and missing :: 'v +
  fixes room :: "'s \<Rightarrow> bool"
    and put :: "'s \<Rightarrow> 'k \<Rightarrow> 'v \<Rightarrow> 's option"
    and remove :: "'s \<Rightarrow> 'k \<Rightarrow> ('s \<times> bool) option"
  assumes put_law: "inv s \<Longrightarrow> room s \<Longrightarrow> ready s k \<Longrightarrow>
      \<exists>s'. put s k v = Some s' \<and> inv s' \<and> abs s' = (abs s)(k \<mapsto> v)"
    and remove_law: "inv s \<Longrightarrow> ready s k \<Longrightarrow>
      \<exists>s'. remove s k = Some (s', k \<in> dom (abs s)) \<and> inv s' \<and> abs s' = (abs s)(k := None)"
begin

lemma put_get: "inv s \<Longrightarrow> room s \<Longrightarrow> ready s k \<Longrightarrow>
    \<exists>s' s''. put s k v = Some s' \<and> get s' k = Some (s'', v) \<and> inv s'' \<and> abs s'' = (abs s)(k \<mapsto> v)"
  using put_law [of s k v] get_present [of _ k v] by force

lemma put_get_other: "inv s \<Longrightarrow> room s \<Longrightarrow> ready s k \<Longrightarrow> abs s k' = Some w \<Longrightarrow> k' \<noteq> k \<Longrightarrow>
    \<exists>s' s''. put s k v = Some s' \<and> get s' k' = Some (s'', w)"
  using put_law [of s k v] get_present [of _ k' w] by force

lemma put_remove: "inv s \<Longrightarrow> room s \<Longrightarrow> ready s k \<Longrightarrow>
    \<exists>s' s''. put s k v = Some s' \<and> remove s' k = Some (s'', True) \<and> inv s'' \<and> abs s'' = (abs s)(k := None)"
  using put_law [of s k v] remove_law [OF _ ready_dom, of _ k] by force

end

text \<open>A sequence of insertions.\<close>

fun put_seq :: "('s \<Rightarrow> 'k \<Rightarrow> 'v \<Rightarrow> 's option) \<Rightarrow> 's \<Rightarrow> ('k \<times> 'v) list \<Rightarrow> 's option" where
  "put_seq put s [] = Some s"
| "put_seq put s ((k, v) # kvs) = Option.bind (put s k v) (\<lambda>s. put_seq put s kvs)"

text \<open>A table that only grows: every probe ends, and the load bounds how often one can insert.\<close>

locale growing_table = lookup_table inv "\<lambda>_ _. True" abs get missing
  for inv :: "'s \<Rightarrow> bool" and abs :: "'s \<Rightarrow> 'k \<rightharpoonup> 'v"
    and get :: "'s \<Rightarrow> 'k \<Rightarrow> ('s \<times> 'v) option" and missing :: 'v +
  fixes load :: "'s \<Rightarrow> nat" and limit :: nat
    and put :: "'s \<Rightarrow> 'k \<Rightarrow> 'v \<Rightarrow> 's option"
  assumes put_law: "inv s \<Longrightarrow> load s < limit \<Longrightarrow>
      \<exists>s'. put s k v = Some s' \<and> inv s' \<and> abs s' = (abs s)(k \<mapsto> v) \<and> load s' \<le> load s + 1"
begin

lemma put_seq_ok: "inv s \<Longrightarrow> load s + length kvs \<le> limit \<Longrightarrow>
    \<exists>s'. put_seq put s kvs = Some s' \<and> inv s' \<and> abs s' = abs s ++ map_of (rev kvs)"
proof (induction kvs arbitrary: s)
  case (Cons kv kvs)
  obtain k v where kv: "kv = (k, v)" by force
  from put_law [of s k v] Cons.prems obtain s1 where
    s1: "put s k v = Some s1" "inv s1" "abs s1 = (abs s)(k \<mapsto> v)" "load s1 \<le> load s + 1" by force
  from Cons.IH [OF s1(2)] s1(4) Cons.prems(2) obtain s2 where
    "put_seq put s1 kvs = Some s2" "inv s2" "abs s2 = abs s1 ++ map_of (rev kvs)" by force
  then show ?case using s1 by (auto simp: kv map_add_def fun_eq_iff split: option.splits)
qed simp

lemma get_after_put_seq: "inv s \<Longrightarrow> load s + length kvs \<le> limit \<Longrightarrow> abs s = Map.empty \<Longrightarrow>
    \<exists>s' s''. put_seq put s kvs = Some s' \<and>
      get s' k = Some (s'', case map_of (rev kvs) k of None \<Rightarrow> missing | Some v \<Rightarrow> v)"
  using put_seq_ok [of s kvs] get_law [of _ k] by force

end

section \<open>The object table provides them\<close>

definition obj_ready :: "jello_object \<Rightarrow> u32 \<Rightarrow> bool" where
  "obj_ready ob k \<longleftrightarrow> present ob k \<or> has_empty ob"

definition obj_room :: "jello_object \<Rightarrow> bool" where
  "obj_room ob \<longleftrightarrow> cap_of ob \<le> 2 ^ 28"

definition live_inv :: "jello_object \<Rightarrow> bool" where
  "live_inv ob \<longleftrightarrow> obj_inv ob \<and> no_tomb ob \<and> 10 * unat (o_len ob) < 7 * cap_of ob \<and>
     (cap_of ob \<le> 8 \<or> 7 * cap_of ob \<le> 20 * (unat (o_len ob) + 1))"

lemma obj_abs_dom: "obj_inv ob \<Longrightarrow> k \<in> dom (obj_abs ob) \<longleftrightarrow> present ob k"
  using obj_abs_None [of ob k] by (auto simp: domIff)

interpretation obj: mutable_table obj_inv obj_ready obj_abs jello_object_get jello_make_null obj_room
    jello_object_set jello_object_remove
proof
  fix s k
  assume i: "obj_inv s" "obj_ready s k"
  then obtain s' where "jello_object_get s k = Some (s', case obj_abs s k of None \<Rightarrow> jello_make_null | Some v \<Rightarrow> v)"
    "same_table s s'"
    using get_ok [of s k] unfolding obj_ready_def by blast
  then show "\<exists>s'. jello_object_get s k = Some (s', case obj_abs s k of None \<Rightarrow> jello_make_null | Some v \<Rightarrow> v) \<and>
      obj_inv s' \<and> obj_abs s' = obj_abs s"
    using same_table_inv [of s s'] same_table_eq(8) [of s s'] i(1) by simp
next
  fix s k v
  assume "obj_inv s" "obj_room s" "obj_ready s k"
  then show "\<exists>s'. jello_object_set s k v = Some s' \<and> obj_inv s' \<and> obj_abs s' = (obj_abs s)(k \<mapsto> v)"
    using set_ok [of s k v] by (auto simp: obj_ready_def obj_room_def)
next
  fix s k
  assume "obj_inv s" "obj_ready s k"
  then show "\<exists>s'. jello_object_remove s k = Some (s', k \<in> dom (obj_abs s)) \<and> obj_inv s' \<and>
      obj_abs s' = (obj_abs s)(k := None)"
    using remove_ok [of s k] by (simp add: obj_ready_def obj_abs_dom)
qed (simp add: obj_ready_def obj_abs_dom)

lemma live_has_empty: "live_inv ob \<Longrightarrow> has_empty ob"
  using no_tomb_has_empty [of ob] by (auto simp: live_inv_def)

interpretation live: growing_table live_inv obj_abs jello_object_get jello_make_null
    "\<lambda>ob. unat (o_len ob)" "2 ^ 26" jello_object_set
proof
  fix s k
  assume i: "live_inv s"
  then obtain s' where s': "jello_object_get s k = Some (s', case obj_abs s k of None \<Rightarrow> jello_make_null | Some v \<Rightarrow> v)"
    "same_table s s'"
    using get_ok [of s k] live_has_empty by (auto simp: live_inv_def)
  moreover have "live_inv s'"
    using same_table_inv [OF s'(2)] same_table_eq [OF s'(2)] i by (auto simp: live_inv_def no_tomb_def)
  ultimately show "\<exists>s'. jello_object_get s k = Some (s', case obj_abs s k of None \<Rightarrow> jello_make_null | Some v \<Rightarrow> v) \<and>
      live_inv s' \<and> obj_abs s' = obj_abs s"
    using same_table_eq(8) [of s s'] by auto
next
  fix s k v
  assume i: "live_inv s" and l: "unat (o_len s) < 2 ^ 26"
  have "cap_of s \<le> 2 ^ 28" using i l by (auto simp: live_inv_def)
  then obtain s' where "jello_object_set s k v = Some s'" "obj_inv s'" "obj_abs s' = (obj_abs s)(k \<mapsto> v)"
    "10 * unat (o_len s') < 7 * cap_of s'" "no_tomb s'" "grown s s'"
    using set_ok [of s k v] live_has_empty [OF i] i by (auto simp: live_inv_def)
  then show "\<exists>s'. jello_object_set s k v = Some s' \<and> live_inv s' \<and> obj_abs s' = (obj_abs s)(k \<mapsto> v) \<and>
      unat (o_len s') \<le> unat (o_len s) + 1"
    using i by (auto simp: live_inv_def grown_def)
qed simp

lemma init_empty_ok:
  shows "live_inv (jello_object_init_empty ob t)" and "obj_abs (jello_object_init_empty ob t) = Map.empty"
    and "o_len (jello_object_init_empty ob t) = 0"
proof -
  let ?ob = "ob\<lparr>o_type_id := t, o_proto := 0, ic_poly_atom := replicate 3 0, ic_poly_slot := replicate 3 0\<rparr>"
  let ?ob1 = "(object_bind_table ?ob True JELLO_OBJECT_INIT_CAP)\<lparr>o_len := 0\<rparr>"
  have u: "unat JELLO_OBJECT_INIT_CAP = 2 ^ 3" by (simp add: JELLO_OBJECT_INIT_CAP_def)
  have e: "jello_object_init_empty ob t = jello_object_invalidate_ic ?ob1"
    by (cases ob) (simp add: jello_object_init_empty_def object_bind_table_def jello_object_invalidate_ic_def)
  have s: "same_table ?ob1 (jello_object_invalidate_ic ?ob1)" by simp
  from fresh_table_ok [OF u, of ?ob True] u
  have f: "obj_inv ?ob1" "no_tomb ?ob1" "obj_abs ?ob1 = Map.empty" "cap_of ?ob1 = 8" by simp_all
  note q = same_table_inv [OF s f(1)] same_table_eq [OF s]
  show "live_inv (jello_object_init_empty ob t)" "obj_abs (jello_object_init_empty ob t) = Map.empty"
    "o_len (jello_object_init_empty ob t) = 0"
    unfolding e using q f(2-4) by (simp_all add: live_inv_def no_tomb_def)
qed
lemma reinit_ok:
  assumes "jello_object_is_freelist_recyclable ob" "length (o_keys ob) = 8" "length (o_vals ob) = 8"
  shows "live_inv (jello_object_reinit_from_freelist ob t)"
    and "obj_abs (jello_object_reinit_from_freelist ob t) = Map.empty"
    and "o_len (jello_object_reinit_from_freelist ob t) = 0"
proof -
  let ?ob = "jello_object_reinit_from_freelist ob t"
  have c: "cap_of ?ob = 8" and cap: "o_cap ob = 8"
    using assms(1) by (simp_all add: cap_of_def jello_object_reinit_from_freelist_def jello_object_invalidate_ic_def
        jello_object_is_freelist_recyclable_def JELLO_OBJECT_INIT_CAP_def)
  have st: "o_states ?ob = replicate 8 SLOT_EMPTY" "o_len ?ob = 0" "o_keys ?ob = o_keys ob" "o_vals ?ob = o_vals ob"
    "length (ic_poly_atom ?ob) = 3" "length (ic_poly_slot ?ob) = 3"
    using cap by (simp_all add: jello_object_reinit_from_freelist_def jello_object_invalidate_ic_def)
  have no: "\<not> occ ?ob i" for i by (simp add: occ_def c st)
  have "\<exists>n<32. (8 :: nat) = 2 ^ n" by (rule exI [of _ 3]) simp
  then have inv: "obj_inv ?ob" using assms no by (simp add: obj_inv_def shape_ok_def c st)
  then show "live_inv ?ob" by (simp add: live_inv_def no_tomb_def c st)
  show "obj_abs ?ob = Map.empty" by (rule obj_abs_eqI [OF inv]) (simp add: no)
  show "o_len ?ob = 0" by (rule st(2))
qed

text \<open>What a block on the freelist satisfies: an object with its eight-slot inline table.\<close>

definition recycled_block :: "jello_object \<Rightarrow> bool" where
  "recycled_block ob \<longleftrightarrow> (jello_object_is_freelist_recyclable ob \<longrightarrow> length (o_keys ob) = 8 \<and> length (o_vals ob) = 8)"

lemma new_ok:
  assumes "recycled_block block"
  shows "live_inv (jello_object_new r block t)" and "obj_abs (jello_object_new r block t) = Map.empty"
    and "o_len (jello_object_new r block t) = 0"
  using assms init_empty_ok [of block t] reinit_ok [of block t]
  by (auto simp: jello_object_new_def recycled_block_def)

lemma clear_ok:
  assumes "obj_inv ob"
  shows "obj_inv (jello_object_clear ob) \<and> no_tomb (jello_object_clear ob) \<and> obj_abs (jello_object_clear ob) = Map.empty"
proof -
  let ?ob = "jello_object_clear ob"
  have c: "cap_of ?ob = cap_of ob" by (simp add: cap_of_def jello_object_clear_def jello_object_invalidate_ic_def)
  have no: "\<not> occ ?ob i" for i
    by (simp add: occ_def c) (simp add: jello_object_clear_def jello_object_invalidate_ic_def cap_of_def)
  have "shape_ok ob" using assms by (simp add: obj_inv_def)
  then have "shape_ok ?ob"
    unfolding shape_ok_def c by (simp add: jello_object_clear_def jello_object_invalidate_ic_def cap_of_def)
  moreover have "o_len ?ob = 0" by (simp add: jello_object_clear_def jello_object_invalidate_ic_def)
  ultimately have inv: "obj_inv ?ob" unfolding obj_inv_def by (simp add: no)
  then show ?thesis using obj_abs_eqI [OF inv, of Map.empty] no
    by (simp add: no_tomb_def) (simp add: jello_object_clear_def jello_object_invalidate_ic_def)
qed

section \<open>Slot hints\<close>

text \<open>A caller may pass the slot where it last saw the key: whatever it passes, the answer is that of
  the lookup without a hint.\<close>

lemma slot_holds_occ: "slot_holds ob i k \<longleftrightarrow> occ ob (unat i) \<and> o_keys ob ! unat i = k"
  by (auto simp: slot_holds_def occ_def cap_of_def word_less_nat_alt)

lemma get_slot_ok:
  assumes inv: "obj_inv ob" and "present ob k \<or> has_empty ob"
  shows "map_option snd (jello_object_get_slot ob hint k) = map_option snd (jello_object_get ob k)"
proof (cases "slot_holds ob hint k")
  case True
  then have "obj_abs ob k = Some (o_vals ob ! unat hint)"
    using obj_abs_Some [OF inv, of k] by (auto simp: slot_holds_occ)
  then show ?thesis using True get_ok [OF assms] by (auto simp: jello_object_get_slot_def)
qed (simp add: jello_object_get_slot_def)

lemma set_slot_ok:
  assumes inv: "obj_inv ob" and "cap_of ob \<le> 2 ^ 28" "present ob k \<or> has_empty ob"
  shows "\<exists>ob' s e. jello_object_set_slot ob hint k = Some (ob', s, e) \<and> e = present ob k \<and>
    obj_inv (write_slot ob' s v) \<and> obj_abs (write_slot ob' s v) = (obj_abs ob)(k \<mapsto> v)"
proof (cases "slot_holds ob hint k")
  case True
  then have h: "occ ob (unat hint)" "o_keys ob ! unat hint = k" by (simp_all add: slot_holds_occ)
  then have "present ob k" by (auto simp: present_def)
  then show ?thesis using True write_slot_ok [OF inv h, of v] by (auto simp: jello_object_set_slot_def)
next
  case False
  obtain ob' s where u: "jello_object_upsert ob k = Some (ob', s, present ob k)" "obj_inv ob'"
    "occ ob' (unat s)" "o_keys ob' ! unat s = k"
    "obj_abs ob' = (if present ob k then obj_abs ob else (obj_abs ob)(k \<mapsto> jello_make_null))"
    using upsert_ok [OF assms] by blast
  then show ?thesis
    using False write_slot_ok [OF u(2-4), of v] by (auto simp: jello_object_set_slot_def)
qed

section \<open>Probes that never end\<close>

definition stuck :: "jello_object \<Rightarrow> u32 \<Rightarrow> u32 \<Rightarrow> u32 \<Rightarrow> bool" where
  "stuck ob k m i \<longleftrightarrow> shape_ok ob \<and> \<not> has_empty ob \<and> \<not> present ob k \<and> m = o_cap ob - 1 \<and> unat i < cap_of ob"

lemma stuck_step:
  assumes "stuck ob k m i"
  shows "stuck ob k m ((i + 1) AND m)" and "o_states ob ! unat i \<noteq> SLOT_EMPTY"
    and "\<not> (o_states ob ! unat i = SLOT_OCCUPIED \<and> o_keys ob ! unat i = k)"
proof -
  have sh: "shape_ok ob" using assms by (simp add: stuck_def)
  show "stuck ob k m ((i + 1) AND m)"
    using assms and_cap_mask [OF sh, of "i + 1"] shape_cap [OF sh] by (simp add: stuck_def)
  have "o_states ob ! unat i \<in> set (o_states ob)" using assms sh by (auto simp: stuck_def shape_ok_def)
  then show "o_states ob ! unat i \<noteq> SLOT_EMPTY" using assms by (auto simp: stuck_def has_empty_def)
  show "\<not> (o_states ob ! unat i = SLOT_OCCUPIED \<and> o_keys ob ! unat i = k)"
    using assms by (auto simp: stuck_def present_def occ_def)
qed

lemma find_slot_loop_diverges:
  assumes "find_slot_loop ob k m i t = Some r"
  shows "\<not> stuck ob k m i"
proof (rule find_slot_loop.raw_induct [where P = "\<lambda>ob k m i t r. \<not> stuck ob k m i", OF _ assms])
  fix f ob k m i t r
  assume IH: "\<And>ob k m i t r. f ob k m i t = Some r \<Longrightarrow> \<not> stuck ob k m i"
    and step: "(let st = o_states ob ! unat i in
      if st = SLOT_EMPTY then Some (ob, if t \<noteq> - 1 then t else i, False)
      else if st = SLOT_OCCUPIED \<and> o_keys ob ! unat i = k then Some (object_ic_store ob k i, i, True)
      else (let t = (if st = SLOT_TOMB \<and> t = - 1 then i else t) in f ob k m ((i + 1) AND m) t)) = Some r"
  show "\<not> stuck ob k m i"
  proof
    assume s: "stuck ob k m i"
    with stuck_step [OF s] step obtain t' where "f ob k m ((i + 1) AND m) t' = Some r"
      by (auto simp: Let_def)
    from IH [OF this] stuck_step(1) [OF s] show False by simp
  qed
qed

lemma find_slot_diverges:
  assumes inv: "obj_inv ob" and "\<not> has_empty ob" "\<not> present ob k" "o_len ob \<noteq> 0"
  shows "find_slot ob k = None"
proof -
  have sh: "shape_ok ob" using inv by (simp add: obj_inv_def)
  have "unat (hash_u32 k AND (o_cap ob - 1)) < cap_of ob" using sh by (simp add: probe_0)
  then have "stuck ob k (o_cap ob - 1) (hash_u32 k AND (o_cap ob - 1))"
    using sh assms by (simp add: stuck_def)
  with find_slot_loop_diverges [of ob k] assms(4) show ?thesis
    by (cases "find_slot ob k") (auto simp: find_slot_def Let_def)
qed

lemma table_layout:
  "vals_offset cap mod 8 = 0 \<and> cap * 4 \<le> vals_offset cap \<and>
   vals_offset cap + cap * 8 = states_offset cap \<and> states_offset cap + cap = object_table_bytes cap"
proof -
  have "(cap * 4 + (8 - cap * 4 mod 8) mod 8) mod 8 = 0"
  proof (cases "even cap")
    case True
    then obtain m where "cap = 2 * m" ..
    then show ?thesis by simp
  next
    case False
    then obtain m where "cap = 2 * m + 1" by (rule oddE)
    then have "cap * 4 = 4 + 8 * m" by simp
    then show ?thesis by (simp only: mod_mult_self2) simp
  qed
  then show ?thesis by (simp add: vals_offset_def states_offset_def object_table_bytes_def table_pad_def)
qed

section \<open>Properties\<close>

text \<open>A block whose header and table are all zero bytes, as the allocator hands it out.\<close>

definition zero_block :: jello_object where
  "zero_block = \<lparr>o_type_id = 0, o_proto = 0, o_cap = 0, o_len = 0, o_inline = False, o_keys = [], o_vals = [],
     o_states = [], ic_atom = 0, ic_slot = 0, ic_cap = 0, ic_poly_atom = replicate 3 0,
     ic_poly_slot = replicate 3 0\<rparr>"

lemma zero_block_recycled: "recycled_block zero_block"
  by (simp add: recycled_block_def jello_object_is_freelist_recyclable_def zero_block_def)

text \<open>C9: From a new object (fresh or recycled), any sequence of up to \<open>2^26\<close> assignments ends, and a
  lookup then returns the last value assigned to the key, or null when there is none.\<close>

theorem object_assignments_implement_map:
  assumes "recycled_block block" and "length kvs \<le> 2 ^ 26"
  shows "\<exists>ob ob'. put_seq jello_object_set (jello_object_new r block t) kvs = Some ob \<and>
    jello_object_get ob k = Some (ob', case map_of (rev kvs) k of None \<Rightarrow> jello_make_null | Some v \<Rightarrow> v)"
  using new_ok [OF assms(1), of r t] assms(2) by (intro live.get_after_put_seq) simp_all

theorem object_assignments_implement_map_witness:
  "\<exists>ob ob'. put_seq jello_object_set (jello_object_new False zero_block 3) [(7, 1), (9, 2), (7, 5)] = Some ob \<and>
    jello_object_get ob 7 = Some (ob', 5)"
  using object_assignments_implement_map [OF zero_block_recycled, of "[(7, 1), (9, 2), (7, 5)]" False 3 7] by simp

text \<open>C11: On any table, tombstones included, in which a probe for the key ends: an assignment ends and
  updates the map at the key alone, the value is read back, and a removal then takes the key out of
  the map, the invariant kept all along.\<close>

theorem object_set_get_remove:
  assumes "obj_inv ob" and "obj_room ob" and "obj_ready ob k"
  shows "\<exists>ob1 ob2 ob3. jello_object_set ob k v = Some ob1 \<and> obj_inv ob1 \<and> obj_abs ob1 = (obj_abs ob)(k \<mapsto> v) \<and>
    jello_object_get ob1 k = Some (ob2, v) \<and> obj_inv ob2 \<and> obj_abs ob2 = obj_abs ob1 \<and>
    jello_object_remove ob2 k = Some (ob3, True) \<and> obj_inv ob3 \<and> obj_abs ob3 = (obj_abs ob)(k := None)"
proof -
  obtain ob1 where 1: "jello_object_set ob k v = Some ob1" "obj_inv ob1" "obj_abs ob1 = (obj_abs ob)(k \<mapsto> v)"
    using obj.put_law [OF assms] by blast
  then obtain ob2 where 2: "jello_object_get ob1 k = Some (ob2, v)" "obj_inv ob2" "obj_abs ob2 = obj_abs ob1"
    using obj.get_present [of ob1 k v] by auto
  then have "k \<in> dom (obj_abs ob2)" using 1 by simp
  with obj.remove_law [OF 2(2) obj.ready_dom, of k] 1 2 show ?thesis by auto
qed

lemma new_zero_ready: "obj_inv (jello_object_new False zero_block 3)" "obj_room (jello_object_new False zero_block 3)"
    "obj_ready (jello_object_new False zero_block 3) k"
proof -
  have "live_inv (jello_object_new False zero_block 3)" by (rule new_ok(1) [OF zero_block_recycled])
  moreover have "cap_of (jello_object_new False zero_block 3) = 8"
    by (simp add: jello_object_new_def jello_object_init_empty_def jello_object_invalidate_ic_def
        object_bind_table_def cap_of_def JELLO_OBJECT_INIT_CAP_def)
  ultimately show "obj_inv (jello_object_new False zero_block 3)" "obj_room (jello_object_new False zero_block 3)"
    "obj_ready (jello_object_new False zero_block 3) k"
    using live_has_empty by (simp_all add: live_inv_def obj_room_def obj_ready_def)
qed

theorem object_set_get_remove_witness:
  "\<exists>ob1 ob2 ob3. jello_object_set (jello_object_new False zero_block 3) 7 11 = Some ob1 \<and>
    jello_object_get ob1 7 = Some (ob2, 11) \<and> jello_object_remove ob2 7 = Some (ob3, True) \<and> obj_abs ob3 7 = None"
  using object_set_get_remove [OF new_zero_ready, of 7 11] by auto

text \<open>A slot hint never changes an answer: a read through a hint, right or wrong, returns what the
  lookup returns, and a write through a hint updates the map at the key alone and tells whether the
  key was there.\<close>

theorem object_slot_hints_sound:
  assumes "obj_inv ob" and "obj_room ob" and "obj_ready ob k"
  shows "map_option snd (jello_object_get_slot ob hint k) = map_option snd (jello_object_get ob k) \<and>
    (\<exists>ob' s. jello_object_set_slot ob hint k = Some (ob', s, k \<in> dom (obj_abs ob)) \<and>
       obj_inv (write_slot ob' s v) \<and> obj_abs (write_slot ob' s v) = (obj_abs ob)(k \<mapsto> v))"
  using get_slot_ok [of ob k hint] set_slot_ok [of ob k hint v] assms
  by (auto simp: obj_ready_def obj_room_def obj_abs_dom)

theorem object_slot_hints_sound_witness:
  "\<exists>ob' s. jello_object_set_slot (jello_object_new False zero_block 3) 5 7 = Some (ob', s, False) \<and>
    obj_abs (write_slot ob' s 11) 7 = Some 11"
proof -
  have "obj_abs (jello_object_new False zero_block 3) = Map.empty" by (rule new_ok(2) [OF zero_block_recycled])
  then show ?thesis using object_slot_hints_sound [OF new_zero_ready, of 5 7 11] by auto
qed

text \<open>Growing a table ends, keeps the map and the number of entries, drops every tombstone and
  leaves the load below seven tenths after the next insertion.\<close>

theorem object_growth_keeps_map:
  assumes "obj_inv ob" and "obj_room ob"
  shows "\<exists>ob'. ensure_cap ob = Some ob' \<and> obj_inv ob' \<and> obj_abs ob' = obj_abs ob \<and> o_len ob' = o_len ob \<and>
    10 * (unat (o_len ob') + 1) < 7 * cap_of ob' \<and> (ob' = ob \<or> no_tomb ob')"
  using ensure_cap_ok [of ob] assms by (auto simp: obj_room_def)

theorem object_growth_keeps_map_witness:
  "\<exists>ob'. ensure_cap (jello_object_new False zero_block 3) = Some ob' \<and> obj_abs ob' = Map.empty"
  using object_growth_keeps_map [OF new_zero_ready(1,2)] new_ok(2) [OF zero_block_recycled] by auto

text \<open>A run that wears a table out: each key is set and removed again.\<close>

declare find_slot_loop.simps [code]
declare find_occupied_loop.simps [code]

definition churn :: "jello_object \<Rightarrow> u32 \<Rightarrow> jello_object option" where
  "churn ob k = Option.bind (jello_object_set ob k 0) (\<lambda>ob. map_option fst (jello_object_remove ob k))"

fun churn_all :: "jello_object \<Rightarrow> u32 list \<Rightarrow> jello_object option" where
  "churn_all ob [] = Some ob"
| "churn_all ob (k # ks) = Option.bind (churn ob k) (\<lambda>ob. churn_all ob ks)"

definition worn_out :: "jello_object option" where
  "worn_out = Option.bind (churn_all (jello_object_new False zero_block 3) [0, 2, 8, 6, 12, 3, 5, 15])
     (\<lambda>ob. jello_object_set ob 0 0)"
definition worn :: jello_object where
  "worn = \<lparr>o_type_id = 3, o_proto = 0, o_cap = 8, o_len = 1, o_inline = True,
     o_keys = [0, 2, 8, 6, 12, 3, 5, 15], o_vals = replicate 8 0, o_states = SLOT_OCCUPIED # replicate 7 SLOT_TOMB,
     ic_atom = JELLO_OBJ_IC_NONE, ic_slot = 0, ic_cap = 0, ic_poly_atom = replicate 3 JELLO_OBJ_IC_NONE,
     ic_poly_slot = replicate 3 0\<rparr>"

lemma worn_out_worn: "worn_out = Some worn"
  by code_simp

lemma worn_occ: "occ worn i \<longleftrightarrow> i = 0"
  by (cases i) (auto simp: occ_def cap_of_def worn_def)

lemma worn_inv: "obj_inv worn"
proof -
  have "\<exists>n<32. (8 :: nat) = 2 ^ n" by (rule exI [of _ 3]) simp
  then have sh: "shape_ok worn" by (simp add: shape_ok_def cap_of_def) (simp add: worn_def)
  have "probe worn 0 0 = 0" by (simp add: probe_def hash_u32_def)
  moreover have "cap_of worn = 8" "o_keys worn ! 0 = 0" by (simp_all add: cap_of_def worn_def)
  ultimately have "reaches worn (o_keys worn ! 0) 0" unfolding reaches_def by (intro exI [of _ 0]) simp
  then show ?thesis using sh unfolding obj_inv_def worn_occ by (auto simp: worn_def)
qed

text \<open>C13: When no slot is empty and the table is not, an assignment to an absent key that needs no
  growth, and the removal of an absent key, never end. The witness reaches such a table with ten
  operations on a new object: eight keys with different slots are set and removed, a ninth is set.\<close>

theorem object_tombstones_hang:
  assumes "obj_inv ob" and "\<not> has_empty ob" and "\<not> present ob k" and "o_len ob \<noteq> 0"
    and "(o_len ob + 1) * JELLO_OBJECT_LOAD_NUM < o_cap ob * JELLO_OBJECT_LOAD_DEN"
  shows "jello_object_set ob k v = None \<and> jello_object_remove ob k = None"
  using find_slot_diverges [OF assms(1-4)] assms(5)
  by (simp add: jello_object_set_def jello_object_upsert_def ensure_cap_def jello_object_remove_def)

theorem object_tombstones_hang_witness:
  "worn_out = Some worn \<and> jello_object_set worn 1 0 = None \<and> jello_object_remove worn 1 = None"
proof -
  have "\<not> has_empty worn" "\<not> present worn 1" by (auto simp: has_empty_def present_def worn_occ) (auto simp: worn_def)
  moreover have "o_len worn \<noteq> 0"
    "(o_len worn + 1) * JELLO_OBJECT_LOAD_NUM < o_cap worn * JELLO_OBJECT_LOAD_DEN"
    by (simp_all add: worn_def JELLO_OBJECT_LOAD_NUM_def JELLO_OBJECT_LOAD_DEN_def)
  ultimately show ?thesis using object_tombstones_hang [OF worn_inv, of 1 0] worn_out_worn by simp
qed

end
