(* ===== verification/Jello_Heap.thy ===== *)
theory Jello_Heap
  imports Jello_Object Jello_Bytecode
begin

text \<open>
  The heap of the virtual machine: the object kinds of \<^verbatim>\<open>src/include/jello.h\<close>, the block header of
  \<^verbatim>\<open>src/gc.c\<close>, and the fields of \<^verbatim>\<open>struct jello_vm\<close> (\<^verbatim>\<open>vm_internal.h\<close>) that the collector reads
  and writes. The heap is a map from addresses of objects to blocks; an address that is not in it is
  memory that was never allocated or has been freed, and an access to it is a fault.
\<close>

type_synonym addr = u64

text \<open>An object: its type id and the fields of its C struct. \<open>ORaw\<close> is a block fresh from
  \<^verbatim>\<open>malloc\<close>, whose header is not written yet. Floats are their bit patterns; the bytes of a closure
  with raw captures are a byte list beside their number. \<^verbatim>\<open>ncaps\<close> and \<^verbatim>\<open>length\<close> of the others are the lengths of
  their lists.\<close>

datatype heap_obj =
    OBytes u32 "u8 list"
  | OList u32 jello_value addr
  | OArray u32 "jello_value list"
  | OObject jello_object
  | OFunction u32 u32 jello_value "jello_value list"
  | ORawClosure u32 u32 u32 jello_value "u8 list"
  | OEnum u32 u32 "jello_value list"
  | OAbstract u32 u64 u64
  | OBoxI64 u32 u64
  | OBoxF64 u32 u64
  | OBoxF32 u32 u32
  | OBoxF16 u32 u16
  | ORaw

record gc_block =
  b_total :: u64
  b_marked :: bool
  b_obj :: heap_obj

type_synonym heap = "addr \<rightharpoonup> gc_block"

text \<open>The linked lists of blocks (\<^verbatim>\<open>gc_objects\<close>, \<^verbatim>\<open>gc_box_free\<close>) are lists of addresses, arrays with a
  length field are lists. A register of a call frame is its kind and the word at its offset, which is
  only read for the eight-byte kinds. \<open>finalized\<close> records the calls of finalizers, with the
  finalizer and its payload.\<close>

record jello_vm =
  spill :: "jello_value list"
  vm_heap :: heap
  gc_objects :: "addr list"
  gc_bytes_live :: u64
  gc_next_collect :: u64
  gc_box_free_len :: u32
  gc_box_free :: "addr list"
  gc_roots :: "jello_value list"
  gc_roots_cap :: u32
  gc_collections :: u64
  gc_freed_objects :: u64
  gc_freelist_hits :: u64
  gc_freelist_misses :: u64
  call_frames :: "(jello_type_kind \<times> u64) list list"
  const_fun_cache :: "addr list"
  const_bytes_cache :: "addr list"
  enum_nullary_by_type :: "addr list option list"
  running_module :: bool
  finalized :: "(u64 \<times> u64) list"

text \<open>The addresses that an object refers to, in the order in which the collector visits them.\<close>

definition val_ptrs :: "jello_value list \<Rightarrow> addr list" where
  "val_ptrs vs = map jello_as_ptr (filter jello_is_ptr vs)"

fun obj_ptrs :: "heap_obj \<Rightarrow> addr list" where
  "obj_ptrs (OList t hd' tail) = val_ptrs [hd'] @ [tail]"
| "obj_ptrs (OArray t vs) = val_ptrs vs"
| "obj_ptrs (OObject ob) = o_proto ob #
     val_ptrs [o_vals ob ! i. i \<leftarrow> [0..<unat (o_cap ob)], o_states ob ! i = SLOT_OCCUPIED]"
| "obj_ptrs (OFunction t f this caps) = val_ptrs (this # caps)"
| "obj_ptrs (ORawClosure t f ncaps this bs) = val_ptrs [this]"
| "obj_ptrs (OEnum t tag vs) = val_ptrs vs"
| "obj_ptrs _ = []"

lemma val_ptrs_simps [simp]:
  "val_ptrs [] = []"
  "val_ptrs (v # vs) = (if jello_is_ptr v then jello_as_ptr v # val_ptrs vs else val_ptrs vs)"
  by (simp_all add: val_ptrs_def)

lemma val_ptrs_append [simp]: "val_ptrs (xs @ ys) = val_ptrs xs @ val_ptrs ys"
  by (simp add: val_ptrs_def)

end
