(* ===== verification/Jello_GC.thy ===== *)
theory Jello_GC
  imports Jello_Heap
begin

text \<open>
  The mark-and-sweep collector and allocator of \<^verbatim>\<open>src/gc.c\<close>: root scanning, the mark stack, tracing
  by object kind, the sweep with its recycle freelist, finalizers, the thresholds, and allocation.
  \<open>None\<close> stands for \<^verbatim>\<open>gc_panic\<close>, for an access to memory that is not a block of the heap, and for a
  loop that never ends. \<^verbatim>\<open>malloc\<close> is a parameter. A growing array of the C code (mark stack, temporary
  roots) is a list.

  The lemmas show that on a well-formed heap a collection ends without a fault, keeps exactly the
  objects that are reachable from the roots, with their contents, runs the finalizer of each dead
  object once, accounts for the live bytes, and that an allocation never returns a live object.
\<close>

section \<open>Initialisation and the freelist\<close>

definition jello_gc_init :: "jello_vm \<Rightarrow> jello_vm" where
  "jello_gc_init vm = (if gc_next_collect vm = 0 then vm\<lparr>gc_next_collect := 1024 * 1024\<rparr> else vm)"

definition GC_BOX_FREE_MAX :: u32 where "GC_BOX_FREE_MAX = 8192"

text \<open>\<^verbatim>\<open>sizeof(jello_gc_hdr)\<close>: a pointer, a size and eight bytes with the mark.\<close>

definition gc_hdr_size :: u64 where "gc_hdr_size = 24"

fun gc_is_numbox_kind :: "heap_obj \<Rightarrow> bool" where
  "gc_is_numbox_kind (OBoxI64 _ _) = True"
| "gc_is_numbox_kind (OBoxF64 _ _) = True"
| "gc_is_numbox_kind (OBoxF32 _ _) = True"
| "gc_is_numbox_kind (OBoxF16 _ _) = True"
| "gc_is_numbox_kind _ = False"

fun gc_is_recyclable_object :: "heap_obj \<Rightarrow> bool" where
  "gc_is_recyclable_object (OObject ob) = o_inline ob"
| "gc_is_recyclable_object _ = False"

text \<open>\<^verbatim>\<open>free(h)\<close>.\<close>

definition gc_free :: "jello_vm \<Rightarrow> addr \<Rightarrow> jello_vm" where
  "gc_free vm a = vm\<lparr>vm_heap := (vm_heap vm)(a := None)\<rparr>"

definition gc_box_free_push :: "jello_vm \<Rightarrow> addr \<Rightarrow> gc_block \<Rightarrow> jello_vm" where
  "gc_box_free_push vm a b =
     (if gc_box_free_len vm \<ge> GC_BOX_FREE_MAX then gc_free vm a
      else vm\<lparr>vm_heap := (vm_heap vm)(a \<mapsto> b\<lparr>b_marked := False\<rparr>), gc_box_free := a # gc_box_free vm,
              gc_box_free_len := gc_box_free_len vm + 1\<rparr>)"

text \<open>The first block of the wanted size, and the list without it.\<close>

fun freelist_take :: "heap \<Rightarrow> addr list \<Rightarrow> u64 \<Rightarrow> (addr \<times> addr list) option" where
  "freelist_take h [] tot = None"
| "freelist_take h (a # as) tot =
     (if map_option b_total (h a) = Some tot then Some (a, as)
      else map_option (\<lambda>(x, rest). (x, a # rest)) (freelist_take h as tot))"

definition gc_box_free_pop :: "jello_vm \<Rightarrow> u64 \<Rightarrow> jello_vm \<times> addr option" where
  "gc_box_free_pop vm tot =
     (case freelist_take (vm_heap vm) (gc_box_free vm) tot of
        None \<Rightarrow> (vm, None)
      | Some (a, rest) \<Rightarrow>
          (vm\<lparr>gc_box_free := rest, gc_box_free_len := gc_box_free_len vm - 1\<rparr>, Some a))"

definition gc_box_free_clear :: "jello_vm \<Rightarrow> jello_vm" where
  "gc_box_free_clear vm = (fold (\<lambda>a vm. gc_free vm a) (gc_box_free vm) vm)\<lparr>gc_box_free := [], gc_box_free_len := 0\<rparr>"

section \<open>Temporary roots\<close>

definition jello_gc_push_root :: "jello_vm \<Rightarrow> jello_value \<Rightarrow> jello_vm" where
  "jello_gc_push_root vm v =
     (let vm = (if length (gc_roots vm) = unat (gc_roots_cap vm) then
                  vm\<lparr>gc_roots_cap := (if gc_roots_cap vm \<noteq> 0 then gc_roots_cap vm * 2 else 32)\<rparr> else vm) in
      vm\<lparr>gc_roots := gc_roots vm @ [v]\<rparr>)"

definition jello_gc_pop_roots :: "jello_vm \<Rightarrow> nat \<Rightarrow> jello_vm option" where
  "jello_gc_pop_roots vm n =
     (if n > length (gc_roots vm) then None
      else Some (vm\<lparr>gc_roots := take (length (gc_roots vm) - n) (gc_roots vm)\<rparr>))"

section \<open>Marking\<close>

text \<open>The heap, whose mark bits change, and the mark stack with its top first.\<close>

type_synonym marking = "heap \<times> addr list"

definition mark_ptr :: "marking \<Rightarrow> addr \<Rightarrow> marking option" where
  "mark_ptr ms p =
     (case ms of (h, st) \<Rightarrow>
        if p = 0 then Some ms
        else (case h p of
                None \<Rightarrow> None
              | Some b \<Rightarrow>
                  if b_marked b then Some ms else Some (h(p \<mapsto> b\<lparr>b_marked := True\<rparr>), p # st)))"

definition mark_val :: "marking \<Rightarrow> jello_value \<Rightarrow> marking option" where
  "mark_val ms v = (if jello_is_ptr v then mark_ptr ms (jello_as_ptr v) else Some ms)"

fun mark_vals :: "marking \<Rightarrow> jello_value list \<Rightarrow> marking option" where
  "mark_vals ms [] = Some ms"
| "mark_vals ms (v # vs) = Option.bind (mark_val ms v) (\<lambda>ms. mark_vals ms vs)"

fun mark_ptrs :: "marking \<Rightarrow> addr list \<Rightarrow> marking option" where
  "mark_ptrs ms [] = Some ms"
| "mark_ptrs ms (p # ps) = Option.bind (mark_ptr ms p) (\<lambda>ms. mark_ptrs ms ps)"

fun trace_kind :: "marking \<Rightarrow> heap_obj \<Rightarrow> marking option" where
  "trace_kind ms (OBytes _ _) = Some ms"
| "trace_kind ms (OBoxI64 _ _) = Some ms"
| "trace_kind ms (OBoxF64 _ _) = Some ms"
| "trace_kind ms (OBoxF32 _ _) = Some ms"
| "trace_kind ms (OBoxF16 _ _) = Some ms"
| "trace_kind ms (OList t head tail) = Option.bind (mark_val ms head) (\<lambda>ms. mark_ptr ms tail)"
| "trace_kind ms (OArray t data) = mark_vals ms data"
| "trace_kind ms (OObject ob) =
     Option.bind (mark_ptr ms (o_proto ob)) (\<lambda>ms.
       mark_vals ms [o_vals ob ! i. i \<leftarrow> [0..<unat (o_cap ob)], o_states ob ! i = SLOT_OCCUPIED])"
| "trace_kind ms (OFunction t f bound_this caps) =
     Option.bind (mark_val ms bound_this) (\<lambda>ms. mark_vals ms caps)"
| "trace_kind ms (ORawClosure t f ncaps bound_this bs) = mark_val ms bound_this"
| "trace_kind ms (OEnum t tag fs) = mark_vals ms fs"
| "trace_kind ms (OAbstract _ _ _) = Some ms"
| "trace_kind ms ORaw = Some ms"

definition trace_object :: "marking \<Rightarrow> addr \<Rightarrow> marking option" where
  "trace_object ms p = (case fst ms p of None \<Rightarrow> None | Some b \<Rightarrow> trace_kind ms (b_obj b))"

partial_function (option) mark_loop :: "marking \<Rightarrow> heap option" where
  "mark_loop ms =
     (case ms of
        (h, []) \<Rightarrow> Some h
      | (h, p # st) \<Rightarrow>
          (case trace_object (h, st) p of None \<Rightarrow> None | Some ms \<Rightarrow> mark_loop ms))"

declare mark_loop.simps [code]

section \<open>Roots\<close>

definition is_pointer_kind :: "jello_type_kind \<Rightarrow> bool" where
  "is_pointer_kind k \<longleftrightarrow> k \<in> {JELLO_T_BYTES, JELLO_T_FUNCTION, JELLO_T_LIST, JELLO_T_ARRAY,
     JELLO_T_OBJECT, JELLO_T_ABSTRACT, JELLO_T_ENUM}"

fun scan_regs :: "marking \<Rightarrow> (jello_type_kind \<times> u64) list \<Rightarrow> marking option" where
  "scan_regs ms [] = Some ms"
| "scan_regs ms ((k, w) # rs) =
     Option.bind
       (if k = JELLO_T_DYNAMIC then mark_val ms w
        else if is_pointer_kind k then mark_ptr ms w else Some ms)
       (\<lambda>ms. scan_regs ms rs)"

fun scan_frames :: "marking \<Rightarrow> (jello_type_kind \<times> u64) list list \<Rightarrow> marking option" where
  "scan_frames ms [] = Some ms"
| "scan_frames ms (f # fs) = Option.bind (scan_regs ms f) (\<lambda>ms. scan_frames ms fs)"

definition scan_typed_frames :: "jello_vm \<Rightarrow> marking \<Rightarrow> marking option" where
  "scan_typed_frames vm ms = (if \<not> running_module vm then Some ms else scan_frames ms (call_frames vm))"

fun scan_enum_caches :: "marking \<Rightarrow> addr list option list \<Rightarrow> marking option" where
  "scan_enum_caches ms [] = Some ms"
| "scan_enum_caches ms (None # ts) = scan_enum_caches ms ts"
| "scan_enum_caches ms (Some slots # ts) =
     Option.bind (mark_ptrs ms slots) (\<lambda>ms. scan_enum_caches ms ts)"

definition mark_roots :: "jello_vm \<Rightarrow> marking option" where
  "mark_roots vm =
     Option.bind (mark_vals (vm_heap vm, []) (spill vm)) (\<lambda>ms.
     Option.bind (mark_vals ms (gc_roots vm)) (\<lambda>ms.
     Option.bind (mark_ptrs ms (const_fun_cache vm)) (\<lambda>ms.
     Option.bind (mark_ptrs ms (const_bytes_cache vm)) (\<lambda>ms.
     Option.bind (scan_enum_caches ms (enum_nullary_by_type vm)) (\<lambda>ms.
     scan_typed_frames vm ms)))))"

section \<open>Sweeping\<close>

fun destroy_object :: "jello_vm \<Rightarrow> heap_obj \<Rightarrow> jello_vm \<times> heap_obj" where
  "destroy_object vm (OArray t data) = (vm, OArray t [])"
| "destroy_object vm (OObject ob) =
     (vm, OObject (if o_inline ob then ob else ob\<lparr>o_keys := [], o_vals := [], o_states := []\<rparr>))"
| "destroy_object vm (OAbstract t payload finalizer) =
     ((if finalizer \<noteq> 0 then vm\<lparr>finalized := finalized vm @ [(finalizer, payload)]\<rparr> else vm), OAbstract t 0 0)"
| "destroy_object vm ob = (vm, ob)"

text \<open>What the sweep does to a block it found unmarked, after unlinking it.\<close>

definition release_block :: "jello_vm \<Rightarrow> addr \<Rightarrow> gc_block \<Rightarrow> jello_vm" where
  "release_block vm a b =
     (if gc_is_numbox_kind (b_obj b) \<or> gc_is_recyclable_object (b_obj b) then
        (case b_obj b of
           OObject ob \<Rightarrow>
             gc_box_free_push vm a (b\<lparr>b_obj := OObject (ob\<lparr>o_proto := 0, o_len := 0,
               o_states := replicate (unat (o_cap ob)) SLOT_EMPTY\<rparr>)\<rparr>)
         | _ \<Rightarrow> gc_box_free_push vm a b)
      else gc_free (fst (destroy_object vm (b_obj b))) a)"

text \<open>The loop over the object list: the list that stays linked, and the live bytes.\<close>

fun sweep_loop :: "jello_vm \<Rightarrow> addr list \<Rightarrow> u64 \<Rightarrow> (jello_vm \<times> addr list \<times> u64) option" where
  "sweep_loop vm [] live_bytes = Some (vm, [], live_bytes)"
| "sweep_loop vm (a # as) live_bytes =
     (case vm_heap vm a of
        None \<Rightarrow> None
      | Some b \<Rightarrow>
          if \<not> b_marked b then
            sweep_loop (release_block (vm\<lparr>gc_freed_objects := gc_freed_objects vm + 1\<rparr>) a b) as live_bytes
          else
            map_option (\<lambda>(vm, kept, live_bytes). (vm, a # kept, live_bytes))
              (sweep_loop (vm\<lparr>vm_heap := (vm_heap vm)(a \<mapsto> b\<lparr>b_marked := False\<rparr>)\<rparr>) as
                 (live_bytes + b_total b)))"

definition next_threshold :: "u64 \<Rightarrow> u64" where
  "next_threshold live_bytes =
     (let grown = (if live_bytes < 256 * 1024 then 512 * 1024 else live_bytes * 2);
          with_pool = live_bytes + ucast GC_BOX_FREE_MAX * 192 in
      if grown > with_pool then grown else with_pool)"

definition jello_gc_collect :: "jello_vm \<Rightarrow> jello_vm option" where
  "jello_gc_collect vm =
     (let vm = vm\<lparr>gc_collections := gc_collections vm + 1\<rparr> in
      Option.bind (mark_roots vm) (\<lambda>ms.
      Option.bind (mark_loop ms) (\<lambda>h.
      Option.bind (sweep_loop (vm\<lparr>vm_heap := h\<rparr>) (gc_objects vm) 0) (\<lambda>(vm, kept, live_bytes).
      Some (vm\<lparr>gc_objects := kept, gc_bytes_live := live_bytes,
               gc_next_collect := next_threshold live_bytes\<rparr>)))))"

section \<open>Allocation and shutdown\<close>

text \<open>\<open>malloc h n\<close> is the address of a block for the object (behind its header), \<open>None\<close> when there is
  no memory.\<close>

definition link_block :: "jello_vm \<Rightarrow> addr \<Rightarrow> gc_block \<Rightarrow> jello_vm" where
  "link_block vm a b = vm\<lparr>vm_heap := (vm_heap vm)(a \<mapsto> b\<lparr>b_marked := False\<rparr>),
     gc_objects := a # gc_objects vm, gc_bytes_live := gc_bytes_live vm + b_total b\<rparr>"

definition jello_gc_alloc_recycled ::
  "(heap \<Rightarrow> u64 \<Rightarrow> addr option) \<Rightarrow> jello_vm \<Rightarrow> u64 \<Rightarrow> (jello_vm \<times> addr \<times> bool) option" where
  "jello_gc_alloc_recycled malloc vm size' =
     (let tot = gc_hdr_size + size' in
      Option.bind
        (if gc_next_collect vm \<noteq> 0 \<and> gc_bytes_live vm \<ge> gc_next_collect vm then jello_gc_collect vm
         else Some vm) (\<lambda>vm.
      (case gc_box_free_pop vm tot of
         (vm, Some a) \<Rightarrow>
           (case vm_heap vm a of
              None \<Rightarrow> None
            | Some b \<Rightarrow>
                Some (link_block (vm\<lparr>gc_freelist_hits := gc_freelist_hits vm + 1\<rparr>) a b, a, True))
       | (vm, None) \<Rightarrow>
           (case malloc (vm_heap vm) tot of
              None \<Rightarrow> None
            | Some a \<Rightarrow>
                Some (link_block (vm\<lparr>gc_freelist_misses := gc_freelist_misses vm + 1\<rparr>) a
                  \<lparr>b_total = tot, b_marked = False, b_obj = ORaw\<rparr>, a, False)))))"

definition jello_gc_alloc ::
  "(heap \<Rightarrow> u64 \<Rightarrow> addr option) \<Rightarrow> jello_vm \<Rightarrow> u64 \<Rightarrow> (jello_vm \<times> addr) option" where
  "jello_gc_alloc malloc vm size' =
     map_option (\<lambda>(vm, a, recycled). (vm, a)) (jello_gc_alloc_recycled malloc vm size')"

fun shutdown_loop :: "jello_vm \<Rightarrow> addr list \<Rightarrow> jello_vm option" where
  "shutdown_loop vm [] = Some vm"
| "shutdown_loop vm (a # as) =
     (case vm_heap vm a of
        None \<Rightarrow> None
      | Some b \<Rightarrow> shutdown_loop (gc_free (fst (destroy_object vm (b_obj b))) a) as)"

text \<open>\<open>jello_gc_shutdown\<close> without the frame cache, which holds no heap memory.\<close>

definition jello_gc_shutdown :: "jello_vm \<Rightarrow> jello_vm option" where
  "jello_gc_shutdown vm =
     map_option (\<lambda>vm.
       (gc_box_free_clear (vm\<lparr>gc_objects := [], gc_bytes_live := 0\<rparr>))\<lparr>gc_roots := [], gc_roots_cap := 0\<rparr>)
       (shutdown_loop (vm\<lparr>spill := []\<rparr>) (gc_objects vm))"

section \<open>Marking as a walk over pointers\<close>

lemma mark_val_ptrs: "mark_val ms v = mark_ptrs ms (val_ptrs [v])"
  by (cases "mark_ptr ms (jello_as_ptr v)") (simp_all add: mark_val_def)

lemma mark_ptrs_append: "mark_ptrs ms (ps @ qs) = Option.bind (mark_ptrs ms ps) (\<lambda>ms. mark_ptrs ms qs)"
  by (induction ps arbitrary: ms) (auto simp: Option.bind_assoc)

lemma mark_ptrs_single: "mark_ptrs ms [p] = mark_ptr ms p"
  by (cases "mark_ptr ms p") simp_all

lemma mark_vals_ptrs: "mark_vals ms vs = mark_ptrs ms (val_ptrs vs)"
  by (induction vs arbitrary: ms) (simp_all add: mark_val_def)

lemma trace_kind_ptrs: "trace_kind ms ob = mark_ptrs ms (obj_ptrs ob)"
  by (cases ob) (simp_all add: mark_vals_ptrs mark_val_def mark_ptrs_single)

definition reg_ptrs :: "jello_type_kind \<times> u64 \<Rightarrow> addr list" where
  "reg_ptrs r = (if fst r = JELLO_T_DYNAMIC then val_ptrs [snd r] else if is_pointer_kind (fst r) then [snd r] else [])"

text \<open>All roots, in the order of the scan.\<close>

definition root_ptrs :: "jello_vm \<Rightarrow> addr list" where
  "root_ptrs vm = val_ptrs (spill vm) @ val_ptrs (gc_roots vm) @ const_fun_cache vm @ const_bytes_cache vm @
     concat (map (\<lambda>t. case t of None \<Rightarrow> [] | Some slots \<Rightarrow> slots) (enum_nullary_by_type vm)) @
     (if running_module vm then concat (map (\<lambda>f. concat (map reg_ptrs f)) (call_frames vm)) else [])"

lemma root_ptrs_update [simp]:
  "root_ptrs (vm\<lparr>vm_heap := h\<rparr>) = root_ptrs vm" "root_ptrs (vm\<lparr>gc_objects := as\<rparr>) = root_ptrs vm"
  "root_ptrs (vm\<lparr>gc_bytes_live := n\<rparr>) = root_ptrs vm" "root_ptrs (vm\<lparr>gc_next_collect := n\<rparr>) = root_ptrs vm"
  "root_ptrs (vm\<lparr>gc_box_free := as\<rparr>) = root_ptrs vm" "root_ptrs (vm\<lparr>gc_box_free_len := m\<rparr>) = root_ptrs vm"
  "root_ptrs (vm\<lparr>gc_freelist_hits := n\<rparr>) = root_ptrs vm" "root_ptrs (vm\<lparr>gc_freelist_misses := n\<rparr>) = root_ptrs vm"
  "root_ptrs (vm\<lparr>gc_collections := n\<rparr>) = root_ptrs vm" "root_ptrs (vm\<lparr>gc_freed_objects := n\<rparr>) = root_ptrs vm"
  "root_ptrs (vm\<lparr>finalized := fs\<rparr>) = root_ptrs vm" "root_ptrs (vm\<lparr>gc_roots_cap := m\<rparr>) = root_ptrs vm"
  by (simp_all add: root_ptrs_def)

lemma scan_regs_ptrs: "scan_regs ms f = mark_ptrs ms (concat (map reg_ptrs f))"
proof (induction f arbitrary: ms)
  case (Cons r f)
  obtain k w where r: "r = (k, w)" by force
  show ?case by (auto simp: r reg_ptrs_def mark_val_def Cons)
qed simp

lemma scan_frames_ptrs: "scan_frames ms fs = mark_ptrs ms (concat (map (\<lambda>f. concat (map reg_ptrs f)) fs))"
  by (induction fs arbitrary: ms) (simp_all add: scan_regs_ptrs mark_ptrs_append)

lemma scan_enum_caches_ptrs: "scan_enum_caches ms ts =
    mark_ptrs ms (concat (map (\<lambda>t. case t of None \<Rightarrow> [] | Some slots \<Rightarrow> slots) ts))"
proof (induction ts arbitrary: ms)
  case (Cons t ts)
  then show ?case by (cases t) (simp_all add: mark_ptrs_append)
qed simp

lemma mark_roots_ptrs: "mark_roots vm = mark_ptrs (vm_heap vm, []) (root_ptrs vm)"
  by (simp add: mark_roots_def root_ptrs_def mark_ptrs_append mark_vals_ptrs scan_enum_caches_ptrs
      scan_typed_frames_def scan_frames_ptrs)

section \<open>Reachability\<close>

inductive_set reachable :: "heap \<Rightarrow> addr list \<Rightarrow> addr set" for h :: heap and roots :: "addr list" where
  root: "p \<in> set roots \<Longrightarrow> p \<noteq> 0 \<Longrightarrow> p \<in> reachable h roots"
| field: "p \<in> reachable h roots \<Longrightarrow> h p = Some b \<Longrightarrow> q \<in> set (obj_ptrs (b_obj b)) \<Longrightarrow> q \<noteq> 0 \<Longrightarrow>
    q \<in> reachable h roots"

definition marked :: "heap \<Rightarrow> addr set" where
  "marked h = {p. \<exists>b. h p = Some b \<and> b_marked b}"

definition erase :: "heap \<Rightarrow> heap" where
  "erase h = (\<lambda>p. map_option (\<lambda>b. b\<lparr>b_marked := False\<rparr>) (h p))"

lemma erase_dom [simp]: "dom (erase h) = dom h"
  by (auto simp: erase_def dom_def)

lemma erase_eqD:
  assumes "erase h = erase h'" and "h p = Some b"
  shows "\<exists>b'. h' p = Some b' \<and> b_obj b' = b_obj b \<and> b_total b' = b_total b"
proof -
  have "map_option (\<lambda>b. b\<lparr>b_marked := False\<rparr>) (h' p) = Some (b\<lparr>b_marked := False\<rparr>)"
    using assms by (metis erase_def option.map(2))
  then obtain b' where "h' p = Some b'" "b'\<lparr>b_marked := False\<rparr> = b\<lparr>b_marked := False\<rparr>" by auto
  then show ?thesis by (metis gc_block.select_convs(1,3) gc_block.surjective gc_block.update_convs(2))
qed

lemma reachable_mono:
  assumes "p \<in> reachable h roots"
    and "\<And>p b. p \<in> reachable h roots \<Longrightarrow> h p = Some b \<Longrightarrow> \<exists>b'. h' p = Some b' \<and> b_obj b' = b_obj b"
  shows "p \<in> reachable h' roots"
  using assms(1)
proof induction
  case (field p b q)
  with assms(2) [OF field(1,2)] show ?case by (auto intro: reachable.field)
qed (rule reachable.root)

lemma reachable_cong:
  assumes "\<And>p b. p \<in> reachable h roots \<Longrightarrow> h p = Some b \<Longrightarrow> \<exists>b'. h' p = Some b' \<and> b_obj b' = b_obj b"
    and "\<And>p. p \<in> reachable h roots \<Longrightarrow> h p \<noteq> None"
  shows "reachable h' roots = reachable h roots"
proof (rule set_eqI, rule iffI)
  fix p assume "p \<in> reachable h' roots"
  then show "p \<in> reachable h roots"
  proof induction
    case (field p b q)
    then obtain b0 where b0: "h p = Some b0" using assms(2) by blast
    then have "b_obj b0 = b_obj b" using assms(1) field by fastforce
    then show ?case using reachable.field [OF field.IH b0] field by simp
  qed (rule reachable.root)
qed (rule reachable_mono [OF _ assms(1)])

section \<open>The mark phase\<close>

text \<open>One marking led to another by marking the addresses of \<open>P\<close>, of which those that were not yet
  marked went onto the stack, each once.\<close>

definition marks_to :: "addr set \<Rightarrow> addr set \<Rightarrow> marking \<Rightarrow> marking \<Rightarrow> bool" where
  "marks_to R P ms ms' \<longleftrightarrow> erase (fst ms') = erase (fst ms) \<and> marked (fst ms') = marked (fst ms) \<union> P \<and>
     set (snd ms') = set (snd ms) \<union> (P - marked (fst ms)) \<and>
     length (snd ms') + card (R - marked (fst ms')) = length (snd ms) + card (R - marked (fst ms))"

lemma marks_to_refl: "P \<subseteq> marked (fst ms) \<Longrightarrow> marks_to R P ms ms"
  by (auto simp: marks_to_def)

lemma marks_to_trans: "marks_to R P ms ms1 \<Longrightarrow> marks_to R Q ms1 ms2 \<Longrightarrow> marks_to R (P \<union> Q) ms ms2"
  by (auto simp: marks_to_def simp del: Un_iff)

lemma mark_ptr_ok:
  assumes "p \<noteq> 0 \<Longrightarrow> p \<in> R" and R: "finite R" "R \<subseteq> dom (fst ms)"
  shows "\<exists>ms'. mark_ptr ms p = Some ms' \<and> marks_to R ({p} - {0}) ms ms'"
proof (cases "p = 0 \<or> p \<in> marked (fst ms)")
  case True
  then have "mark_ptr ms p = Some ms" by (auto simp: mark_ptr_def marked_def split: prod.splits)
  moreover have "{p} - {0} \<subseteq> marked (fst ms)" using True by auto
  ultimately show ?thesis using marks_to_refl by blast
next
  case False
  obtain h st where ms: "ms = (h, st)" by force
  obtain b where b: "h p = Some b" "\<not> b_marked b" using False assms ms by (auto simp: marked_def)
  let ?h = "h(p \<mapsto> b\<lparr>b_marked := True\<rparr>)"
  have m: "marked ?h = insert p (marked h)" by (auto simp: marked_def)
  have e: "erase ?h = erase h" using b by (auto simp: erase_def fun_eq_iff)
  have "card (R - marked h) = Suc (card (R - marked h - {p}))"
    using False assms(1) R(1) ms by (intro card.remove) auto
  moreover have "R - marked ?h = R - marked h - {p}" using m by auto
  ultimately have "marks_to R {p} ms (?h, p # st)"
    using False ms m e by (simp add: marks_to_def insert_Diff_if)
  moreover have "mark_ptr ms p = Some (?h, p # st)" using False b ms by (simp add: mark_ptr_def)
  moreover have "{p} - {0} = {p}" using False by auto
  ultimately show ?thesis by metis
qed

lemma mark_ptrs_ok:
  assumes "set ps - {0} \<subseteq> R" "finite R" "R \<subseteq> dom (fst ms)"
  shows "\<exists>ms'. mark_ptrs ms ps = Some ms' \<and> marks_to R (set ps - {0}) ms ms'"
  using assms(1,3)
proof (induction ps arbitrary: ms)
  case Nil
  then show ?case by (simp add: marks_to_refl)
next
  case (Cons p ps)
  have "p \<noteq> 0 \<Longrightarrow> p \<in> R" using Cons.prems by auto
  then obtain ms1 where 1: "mark_ptr ms p = Some ms1" "marks_to R ({p} - {0}) ms ms1"
    using mark_ptr_ok [of p R ms] Cons.prems assms(2) by blast
  have "dom (fst ms1) = dom (fst ms)" using 1(2) erase_dom unfolding marks_to_def by metis
  moreover have "set ps - {0} \<subseteq> R" using Cons.prems by auto
  ultimately obtain ms2 where 2: "mark_ptrs ms1 ps = Some ms2" "marks_to R (set ps - {0}) ms1 ms2"
    using Cons.IH [of ms1] Cons.prems by auto
  have "set (p # ps) - {0} = ({p} - {0}) \<union> (set ps - {0})" by auto
  then show ?case using marks_to_trans [OF 1(2) 2(2)] 1(1) 2(1) by simp
qed

text \<open>The invariant of the mark loop: what is on the stack is marked, marks only cover reachable
  objects, and the fields of a marked object that has left the stack are marked.\<close>

definition mark_inv :: "heap \<Rightarrow> addr set \<Rightarrow> marking \<Rightarrow> bool" where
  "mark_inv h0 R ms \<longleftrightarrow> erase (fst ms) = erase h0 \<and> set (snd ms) \<subseteq> marked (fst ms) \<and> marked (fst ms) \<subseteq> R \<and>
     (\<forall>p b. p \<in> marked (fst ms) - set (snd ms) \<longrightarrow> h0 p = Some b \<longrightarrow>
        set (obj_ptrs (b_obj b)) - {0} \<subseteq> marked (fst ms))"

definition closed_in :: "heap \<Rightarrow> addr set \<Rightarrow> bool" where
  "closed_in h R \<longleftrightarrow> (\<forall>p b. p \<in> R \<longrightarrow> h p = Some b \<longrightarrow> set (obj_ptrs (b_obj b)) - {0} \<subseteq> R)"

lemma mark_step:
  assumes inv: "mark_inv h0 R (h, p # st)" and R: "finite R" "R \<subseteq> dom h0"
    and closed: "closed_in h0 R"
  shows "\<exists>h' st'. trace_object (h, st) p = Some (h', st') \<and> mark_inv h0 R (h', st') \<and>
    marked h \<subseteq> marked h' \<and> length st' + card (R - marked h') < length (p # st) + card (R - marked h)"
proof -
  have e: "erase h = erase h0" and p: "p \<in> R" "p \<in> marked h" "set st \<subseteq> marked h" and m: "marked h \<subseteq> R"
    using inv by (auto simp: mark_inv_def)
  obtain b where b: "h p = Some b" using p(2) by (auto simp: marked_def)
  obtain b0 where b0: "h0 p = Some b0" "b_obj b0 = b_obj b" using erase_eqD [OF e b] by auto
  have d: "R \<subseteq> dom h" using R(2) e erase_dom by metis
  have ps: "set (obj_ptrs (b_obj b)) - {0} \<subseteq> R" using closed p(1) b0 unfolding closed_in_def by metis
  obtain h' st' where 1: "mark_ptrs (h, st) (obj_ptrs (b_obj b)) = Some (h', st')" "erase h' = erase h"
    "marked h' = marked h \<union> (set (obj_ptrs (b_obj b)) - {0})"
    "set st' = set st \<union> (set (obj_ptrs (b_obj b)) - {0} - marked h)"
    "length st' + card (R - marked h') = length st + card (R - marked h)"
    using mark_ptrs_ok [OF ps R(1), of "(h, st)"] d by (auto simp: marks_to_def)
  have c: "set (obj_ptrs (b_obj c)) - {0} \<subseteq> marked h'" if q: "q \<in> marked h' - set st'" "h0 q = Some c" for q c
  proof (cases "q = p")
    case True
    then show ?thesis using q(2) b0 1(3) by auto
  next
    case False
    then have "q \<in> marked h - set (p # st)" using q(1) 1(3,4) by auto
    then have "set (obj_ptrs (b_obj c)) - {0} \<subseteq> marked h" using inv q(2) unfolding mark_inv_def by (metis fst_conv snd_conv)
    then show ?thesis using 1(3) by auto
  qed
  have "mark_inv h0 R (h', st')" using e 1 p m ps c by (auto simp: mark_inv_def)
  then show ?thesis using 1 b by (auto simp: trace_object_def trace_kind_ptrs)
qed

lemma mark_loop_ok:
  assumes "mark_inv h0 R ms" "finite R" "R \<subseteq> dom h0"
    and closed: "closed_in h0 R"
  shows "\<exists>h. mark_loop ms = Some h \<and> mark_inv h0 R (h, []) \<and> marked (fst ms) \<subseteq> marked h"
  using assms(1)
proof (induction "length (snd ms) + card (R - marked (fst ms))" arbitrary: ms rule: less_induct)
  case less
  obtain h st where ms: "ms = (h, st)" by force
  show ?case
  proof (cases st)
    case Nil
    then show ?thesis using ms less.prems by (simp add: mark_loop.simps)
  next
    case (Cons p st0)
    then obtain h' st' where s: "trace_object (h, st0) p = Some (h', st')" "mark_inv h0 R (h', st')"
      "marked h \<subseteq> marked h'" "length st' + card (R - marked h') < length (snd ms) + card (R - marked (fst ms))"
      using mark_step [OF _ assms(2,3) closed, of h p st0] less.prems ms by auto
    from less.hyps [of "(h', st')"] s(2,4) obtain h1 where "mark_loop (h', st') = Some h1"
      "mark_inv h0 R (h1, [])" "marked h' \<subseteq> marked h1" by auto
    moreover have "mark_loop ms = mark_loop (h', st')"
      unfolding ms Cons by (subst mark_loop.simps) (simp add: s(1))
    ultimately show ?thesis using s(3) ms by auto
  qed
qed

text \<open>The mark phase as a whole.\<close>

lemma mark_phase_ok:
  assumes un: "marked h0 = {}" and R: "R = reachable h0 roots" "finite R" "R \<subseteq> dom h0"
  shows "\<exists>ms h. mark_ptrs (h0, []) roots = Some ms \<and> mark_loop ms = Some h \<and> erase h = erase h0 \<and> marked h = R"
proof -
  have rs: "set roots - {0} \<subseteq> R" using R(1) by (auto intro: reachable.root)
  have closed: "closed_in h0 R" using R(1) by (auto simp: closed_in_def intro: reachable.field)
  obtain h1 st1 where 1: "mark_ptrs (h0, []) roots = Some (h1, st1)" "erase h1 = erase h0"
    "marked h1 = set roots - {0}" "set st1 = set roots - {0}"
    using mark_ptrs_ok [OF rs R(2), of "(h0, [])"] R(3) un by (auto simp: marks_to_def)
  then have "mark_inv h0 R (h1, st1)" using rs by (auto simp: mark_inv_def)
  from mark_loop_ok [OF this R(2,3) closed] obtain h where
    h: "mark_loop (h1, st1) = Some h" "mark_inv h0 R (h, [])" "marked h1 \<subseteq> marked h" by auto
  have "p \<in> reachable h0 roots \<Longrightarrow> p \<in> marked h" for p
  proof (induction rule: reachable.induct)
    case (field p b q)
    then show ?case using h(2) by (auto simp: mark_inv_def)
  qed (use 1 h(3) in auto)
  then have "marked h = R" using h(2) R(1) by (auto simp: mark_inv_def)
  then show ?thesis using 1 h by (auto simp: mark_inv_def)
qed

section \<open>The sweep\<close>

text \<open>The finalizer call that the destruction of an object makes.\<close>

fun fin_of :: "heap_obj \<Rightarrow> (u64 \<times> u64) list" where
  "fin_of (OAbstract t payload f) = (if f \<noteq> 0 then [(f, payload)] else [])"
| "fin_of _ = []"

lemma destroy_finalized:
  "fst (destroy_object vm ob) = vm\<lparr>finalized := finalized vm @ fin_of ob\<rparr>"
  by (cases ob) simp_all

definition freelist_ok :: "jello_vm \<Rightarrow> bool" where
  "freelist_ok vm \<longleftrightarrow> unat (gc_box_free_len vm) = length (gc_box_free vm) \<and> length (gc_box_free vm) \<le> 8192"

text \<open>The fields that neither the sweep nor the freelist touches.\<close>

definition same_roots :: "jello_vm \<Rightarrow> jello_vm \<Rightarrow> bool" where
  "same_roots vm vm' \<longleftrightarrow> root_ptrs vm' = root_ptrs vm \<and> gc_objects vm' = gc_objects vm \<and>
     gc_collections vm' = gc_collections vm"

text \<open>A block at \<open>a\<close> was released: it is freed, or it is unmarked on the freelist, of the same size.\<close>

definition released :: "jello_vm \<Rightarrow> addr \<Rightarrow> gc_block \<Rightarrow> jello_vm \<Rightarrow> bool" where
  "released vm a b vm' \<longleftrightarrow> same_roots vm vm' \<and> (\<forall>x. x \<noteq> a \<longrightarrow> vm_heap vm' x = vm_heap vm x) \<and>
     finalized vm' = finalized vm @ fin_of (b_obj b) \<and> freelist_ok vm' \<and>
     (vm_heap vm' a = None \<and> gc_box_free vm' = gc_box_free vm \<or>
      (\<exists>b'. vm_heap vm' a = Some b' \<and> \<not> b_marked b' \<and> b_total b' = b_total b) \<and>
        gc_box_free vm' = a # gc_box_free vm)"

lemma free_push_ok:
  assumes "freelist_ok vm" "b_total b' = b_total b" "fin_of (b_obj b) = []"
  shows "released vm a b (gc_box_free_push vm a b')"
proof (cases "gc_box_free_len vm \<ge> GC_BOX_FREE_MAX")
  case True
  then show ?thesis using assms
    by (simp add: released_def gc_box_free_push_def gc_free_def same_roots_def root_ptrs_def freelist_ok_def)
next
  case False
  then have "length (gc_box_free vm) < 8192"
    using assms(1) by (simp add: freelist_ok_def GC_BOX_FREE_MAX_def word_le_nat_alt)
  then have "unat (gc_box_free_len vm + 1) = length (gc_box_free vm) + 1"
    using assms(1) by (simp add: freelist_ok_def unat_word_ariths)
  then show ?thesis using False assms \<open>length (gc_box_free vm) < 8192\<close>
    by (simp add: released_def gc_box_free_push_def same_roots_def root_ptrs_def freelist_ok_def)
qed

lemma release_block_ok:
  assumes "freelist_ok vm"
  shows "released vm a b (release_block vm a b)"
proof (cases "gc_is_numbox_kind (b_obj b) \<or> gc_is_recyclable_object (b_obj b)")
  case True
  then have "fin_of (b_obj b) = []" by (cases "b_obj b") simp_all
  then show ?thesis using True free_push_ok [OF assms, of _ b a]
    by (auto simp: release_block_def split: heap_obj.splits)
next
  case False
  then show ?thesis using assms
    by (simp add: release_block_def destroy_finalized gc_free_def released_def same_roots_def root_ptrs_def
        freelist_ok_def)
qed

lemma same_roots_trans: "same_roots a b \<Longrightarrow> same_roots b c \<Longrightarrow> same_roots a c"
  by (simp add: same_roots_def)

definition size_at :: "heap \<Rightarrow> addr \<Rightarrow> u64" where
  "size_at h a = (case h a of None \<Rightarrow> 0 | Some b \<Rightarrow> b_total b)"

definition obj_at :: "heap \<Rightarrow> addr \<Rightarrow> heap_obj" where
  "obj_at h a = (case h a of None \<Rightarrow> ORaw | Some b \<Rightarrow> b_obj b)"

text \<open>The sweep over \<open>as\<close> led from \<open>vm\<close> to \<open>vm'\<close>, where \<open>M\<close> are the marked addresses and \<open>new\<close> the blocks
  that went to the freelist.\<close>

definition swept :: "addr set \<Rightarrow> jello_vm \<Rightarrow> addr list \<Rightarrow> addr list \<Rightarrow> jello_vm \<Rightarrow> bool" where
  "swept M vm as new vm' \<longleftrightarrow> same_roots vm vm' \<and> freelist_ok vm' \<and>
     (\<forall>x. x \<notin> set as \<longrightarrow> vm_heap vm' x = vm_heap vm x) \<and>
     (\<forall>x. x \<in> set as \<and> x \<in> M \<longrightarrow> vm_heap vm' x = erase (vm_heap vm) x) \<and>
     finalized vm' = finalized vm @ concat (map (\<lambda>a. fin_of (obj_at (vm_heap vm) a)) (filter (\<lambda>a. a \<notin> M) as)) \<and>
     gc_box_free vm' = new @ gc_box_free vm \<and> distinct new \<and> set new \<subseteq> set as - M \<and>
     (\<forall>x. x \<in> set as - M - set new \<longrightarrow> vm_heap vm' x = None) \<and>
     (\<forall>x. x \<in> set new \<longrightarrow> (\<exists>b. vm_heap vm' x = Some b \<and> \<not> b_marked b \<and> b_total b = size_at (vm_heap vm) x))"

lemma sweptD:
  assumes "swept M vm as new vm'"
  shows "same_roots vm vm'" "freelist_ok vm'" "x \<notin> set as \<Longrightarrow> vm_heap vm' x = vm_heap vm x"
    "x \<in> set as \<Longrightarrow> x \<in> M \<Longrightarrow> vm_heap vm' x = erase (vm_heap vm) x"
    "finalized vm' = finalized vm @ concat (map (\<lambda>a. fin_of (obj_at (vm_heap vm) a)) (filter (\<lambda>a. a \<notin> M) as))"
    "gc_box_free vm' = new @ gc_box_free vm" "distinct new" "set new \<subseteq> set as - M"
    "x \<in> set as \<Longrightarrow> x \<notin> M \<Longrightarrow> x \<notin> set new \<Longrightarrow> vm_heap vm' x = None"
    "x \<in> set new \<Longrightarrow> \<exists>b. vm_heap vm' x = Some b \<and> \<not> b_marked b \<and> b_total b = size_at (vm_heap vm) x"
  using assms by (simp_all add: swept_def)

lemma swept_Nil: "freelist_ok vm \<Longrightarrow> swept M vm [] [] vm"
  by (simp add: swept_def same_roots_def)

lemma swept_live:
  assumes a: "vm_heap vm a = Some b" "a \<in> M" "a \<notin> set as"
    and s: "swept M (vm\<lparr>vm_heap := (vm_heap vm)(a \<mapsto> b\<lparr>b_marked := False\<rparr>)\<rparr>) as new vm'"
  shows "swept M vm (a # as) new vm'"
proof -
  define w where "w = vm\<lparr>vm_heap := (vm_heap vm)(a \<mapsto> b\<lparr>b_marked := False\<rparr>)\<rparr>"
  have h: "vm_heap w x = (if x = a then erase (vm_heap vm) x else vm_heap vm x)"
    "size_at (vm_heap w) x = size_at (vm_heap vm) x" "obj_at (vm_heap w) x = obj_at (vm_heap vm) x"
    "erase (vm_heap w) x = erase (vm_heap vm) x" "finalized w = finalized vm" "gc_box_free w = gc_box_free vm" for x
    using a(1) by (simp_all add: erase_def size_at_def obj_at_def w_def)
  have r: "same_roots vm w" by (simp add: same_roots_def root_ptrs_def w_def)
  note d = sweptD [OF s [folded w_def], unfolded h]
  show ?thesis
    unfolding swept_def
  proof (intro conjI allI impI)
    show "same_roots vm vm'" by (rule same_roots_trans [OF r d(1)])
    show "freelist_ok vm'" by (rule d(2))
    show "vm_heap vm' x = vm_heap vm x" if "x \<notin> set (a # as)" for x using d(3) [of x] that by simp
    show "vm_heap vm' x = erase (vm_heap vm) x" if "x \<in> set (a # as) \<and> x \<in> M" for x
      using d(3) [OF a(3)] d(4) [of x] that by (cases "x = a") simp_all
    show "vm_heap vm' x = None" if "x \<in> set (a # as) - M - set new" for x using d(9) [of x] a that by auto
  qed (use a d(5-8,10) in auto)
qed

lemma swept_dead:
  assumes a: "vm_heap vm a = Some b" "a \<notin> M" "a \<notin> set as"
    and r: "released vm a b w" and s: "swept M w as new vm'"
  shows "\<exists>new'. swept M vm (a # as) new' vm'"
proof -
  define t where "t = (if gc_box_free w = gc_box_free vm then [] else [a])"
  note d = sweptD [OF s]
  have e: "same_roots vm w" "finalized w = finalized vm @ fin_of (b_obj b)"
    "gc_box_free w = t @ gc_box_free vm" "set t \<subseteq> {a}" "distinct t"
    "a \<notin> set t \<Longrightarrow> vm_heap w a = None"
    "a \<in> set t \<Longrightarrow> \<exists>b'. vm_heap w a = Some b' \<and> \<not> b_marked b' \<and> b_total b' = b_total b"
    using r by (auto simp: released_def t_def)
  have h: "x \<noteq> a \<Longrightarrow> vm_heap w x = vm_heap vm x" for x using r by (simp add: released_def)
  then have as: "x \<in> set as \<Longrightarrow> vm_heap w x = vm_heap vm x" for x using a(3) by metis
  then have m: "map (\<lambda>a. fin_of (obj_at (vm_heap w) a)) (filter (\<lambda>a. a \<notin> M) as) =
      map (\<lambda>a. fin_of (obj_at (vm_heap vm) a)) (filter (\<lambda>a. a \<notin> M) as)" by (simp add: obj_at_def)
  have oa: "obj_at (vm_heap vm) a = b_obj b" "size_at (vm_heap vm) a = b_total b"
    using a(1) by (simp_all add: obj_at_def size_at_def)
  have at: "vm_heap vm' a = vm_heap w a" by (rule d(3) [OF a(3)])
  have an: "a \<notin> set new" using d(8) a(3) by auto
  have "swept M vm (a # as) (new @ t) vm'"
    unfolding swept_def
  proof (intro conjI allI impI)
    show "same_roots vm vm'" by (rule same_roots_trans [OF e(1) d(1)])
    show "freelist_ok vm'" by (rule d(2))
    show "vm_heap vm' x = vm_heap vm x" if "x \<notin> set (a # as)" for x using d(3) [of x] h that by simp
    show "vm_heap vm' x = erase (vm_heap vm) x" if "x \<in> set (a # as) \<and> x \<in> M" for x
      using d(4) [of x] as [of x] a that by (auto simp: erase_def)
    show "finalized vm' = finalized vm @
        concat (map (\<lambda>a. fin_of (obj_at (vm_heap vm) a)) (filter (\<lambda>a. a \<notin> M) (a # as)))"
      using d(5) e(2) a(2) m oa(1) by simp
    show "gc_box_free vm' = (new @ t) @ gc_box_free vm" using d(6) e(3) by simp
    show "distinct (new @ t)" using d(7) e(4,5) an by auto
    show "set (new @ t) \<subseteq> set (a # as) - M" using d(8) e(4) a(2) by auto
    show "vm_heap vm' x = None" if x: "x \<in> set (a # as) - M - set (new @ t)" for x
      using x at e(6) d(9) [of x] by (cases "x = a") simp_all
    show "\<exists>b. vm_heap vm' x = Some b \<and> \<not> b_marked b \<and> b_total b = size_at (vm_heap vm) x" if x: "x \<in> set (new @ t)" for x
    proof (cases "x \<in> set new")
      case True
      then have "x \<in> set as" using d(8) by auto
      then have "size_at (vm_heap w) x = size_at (vm_heap vm) x" using as by (simp add: size_at_def)
      then show ?thesis using d(10) [OF True] by simp
    next
      case False
      then have "x = a" "a \<in> set t" using x e(4) by auto
      then show ?thesis using e(7) at oa(2) by simp
    qed
  qed
  then show ?thesis ..
qed

lemma sweep_loop_ok:
  assumes "distinct as" "set as \<subseteq> dom (vm_heap vm)" "freelist_ok vm"
  shows "\<exists>vm' new. sweep_loop vm as n = Some (vm', filter (\<lambda>a. a \<in> marked (vm_heap vm)) as,
      n + sum_list (map (size_at (vm_heap vm)) (filter (\<lambda>a. a \<in> marked (vm_heap vm)) as))) \<and>
    swept (marked (vm_heap vm)) vm as new vm'"
proof -
  define M where "M = marked (vm_heap vm)"
  have "\<And>x. x \<in> set as \<Longrightarrow> x \<in> M \<longleftrightarrow> x \<in> marked (vm_heap vm)" by (simp add: M_def)
  then have "\<exists>vm' new. sweep_loop vm as n = Some (vm', filter (\<lambda>a. a \<in> M) as,
      n + sum_list (map (size_at (vm_heap vm)) (filter (\<lambda>a. a \<in> M) as))) \<and> swept M vm as new vm'"
    using assms
  proof (induction as arbitrary: vm n)
    case Nil
    then show ?case using swept_Nil by fastforce
  next
    case (Cons a as)
    then obtain b where b: "vm_heap vm a = Some b" by auto
    have a: "a \<notin> set as" using Cons.prems by simp
    show ?case
    proof (cases "a \<in> M")
      case True
      let ?vm = "vm\<lparr>vm_heap := (vm_heap vm)(a \<mapsto> b\<lparr>b_marked := False\<rparr>)\<rparr>"
      have bm: "b_marked b" using True Cons.prems(1) [of a] b by (simp add: marked_def)
      have "x \<in> set as \<Longrightarrow> x \<in> M \<longleftrightarrow> x \<in> marked (vm_heap ?vm)" for x
        using a Cons.prems(1) [of x] by (auto simp: marked_def)
      moreover have "set as \<subseteq> dom (vm_heap ?vm)" "distinct as" "freelist_ok ?vm"
        using Cons.prems by (auto simp: freelist_ok_def)
      ultimately obtain vm' new where
        i: "sweep_loop ?vm as (n + b_total b) = Some (vm', filter (\<lambda>a. a \<in> M) as,
          n + b_total b + sum_list (map (size_at (vm_heap ?vm)) (filter (\<lambda>a. a \<in> M) as)))" "swept M ?vm as new vm'"
        using Cons.IH [of ?vm "n + b_total b"] by blast
      have "sum_list (map (size_at (vm_heap ?vm)) (filter (\<lambda>a. a \<in> M) as)) =
          sum_list (map (size_at (vm_heap vm)) (filter (\<lambda>a. a \<in> M) as))"
        using a by (intro arg_cong [where f = sum_list]) (auto simp: size_at_def)
      moreover have "size_at (vm_heap vm) a = b_total b" using b by (simp add: size_at_def)
      ultimately show ?thesis using i swept_live [OF b True a i(2)] True b bm by (auto simp: add.assoc)
    next
      case False
      let ?w = "vm\<lparr>gc_freed_objects := gc_freed_objects vm + 1\<rparr>"
      let ?vm = "release_block ?w a b"
      have bm: "\<not> b_marked b" using False Cons.prems(1) [of a] b by (simp add: marked_def)
      have r0: "released ?w a b ?vm" using Cons.prems by (intro release_block_ok) (simp add: freelist_ok_def)
      then have r: "released vm a b ?vm" by (simp add: released_def same_roots_def root_ptrs_def)
      then have h: "x \<in> set as \<Longrightarrow> vm_heap ?vm x = vm_heap vm x" for x using a by (auto simp: released_def)
      have M: "x \<in> set as \<Longrightarrow> x \<in> M \<longleftrightarrow> x \<in> marked (vm_heap ?vm)" for x
        using h Cons.prems(1) [of x] by (simp add: marked_def)
      have "set as \<subseteq> dom (vm_heap ?vm)" using h Cons.prems by (auto simp: dom_def)
      from Cons.IH [OF M _ this, of n] Cons.prems r obtain vm' new where
        i: "sweep_loop ?vm as n = Some (vm', filter (\<lambda>a. a \<in> M) as,
          n + sum_list (map (size_at (vm_heap ?vm)) (filter (\<lambda>a. a \<in> M) as)))" "swept M ?vm as new vm'"
        by (auto simp: released_def)
      have "sum_list (map (size_at (vm_heap ?vm)) (filter (\<lambda>a. a \<in> M) as)) =
          sum_list (map (size_at (vm_heap vm)) (filter (\<lambda>a. a \<in> M) as))"
        using h by (intro arg_cong [where f = sum_list]) (auto simp: size_at_def)
      then show ?thesis using i swept_dead [OF b False a r i(2)] False b bm by auto
    qed
  qed
  then show ?thesis by (simp add: M_def)
qed

section \<open>The invariant of the heap\<close>

text \<open>The blocks of the heap are those of the object list and of the freelist, each once; no mark is
  set between collections; everything reachable is on the object list; the counters agree.\<close>

definition live :: "jello_vm \<Rightarrow> addr set" where
  "live vm = reachable (vm_heap vm) (root_ptrs vm)"

definition gc_wf :: "jello_vm \<Rightarrow> bool" where
  "gc_wf vm \<longleftrightarrow> distinct (gc_objects vm @ gc_box_free vm) \<and>
     dom (vm_heap vm) = set (gc_objects vm) \<union> set (gc_box_free vm) \<and> 0 \<notin> dom (vm_heap vm) \<and>
     marked (vm_heap vm) = {} \<and> live vm \<subseteq> set (gc_objects vm) \<and> freelist_ok vm \<and>
     gc_bytes_live vm = sum_list (map (size_at (vm_heap vm)) (gc_objects vm))"

lemma erase_at: "a \<notin> marked h \<Longrightarrow> erase h a = h a"
  by (cases "h a") (auto simp: erase_def marked_def)

lemma erase_unmarked: "marked h = {} \<Longrightarrow> erase h = h"
  by (rule ext) (simp add: erase_at)

lemma size_at_erase [simp]: "size_at (erase h) a = size_at h a" "obj_at (erase h) a = obj_at h a"
  by (auto simp: size_at_def obj_at_def erase_def split: option.split)

text \<open>The effect of a collection.\<close>

definition collected :: "jello_vm \<Rightarrow> jello_vm \<Rightarrow> bool" where
  "collected vm vm' \<longleftrightarrow> root_ptrs vm' = root_ptrs vm \<and>
     gc_objects vm' = filter (\<lambda>a. a \<in> live vm) (gc_objects vm) \<and>
     (\<forall>a. a \<in> live vm \<longrightarrow> vm_heap vm' a = vm_heap vm a) \<and>
     (\<exists>new. gc_box_free vm' = new @ gc_box_free vm \<and> set new \<subseteq> set (gc_objects vm) - live vm) \<and>
     (\<forall>a. a \<in> set (gc_objects vm) - live vm \<longrightarrow> vm_heap vm' a = None \<or> a \<in> set (gc_box_free vm')) \<and>
     finalized vm' = finalized vm @
       concat (map (\<lambda>a. fin_of (obj_at (vm_heap vm) a)) (filter (\<lambda>a. a \<notin> live vm) (gc_objects vm))) \<and>
     gc_next_collect vm' = next_threshold (gc_bytes_live vm')"

lemma collect_runs:
  assumes wf: "gc_wf vm"
  shows "\<exists>w vm1 new. marked w = live vm \<and> erase w = vm_heap vm \<and>
    swept (live vm) (vm\<lparr>gc_collections := gc_collections vm + 1, vm_heap := w\<rparr>) (gc_objects vm) new vm1 \<and>
    jello_gc_collect vm = Some (vm1\<lparr>gc_objects := filter (\<lambda>a. a \<in> live vm) (gc_objects vm),
      gc_bytes_live := sum_list (map (size_at (vm_heap vm)) (filter (\<lambda>a. a \<in> live vm) (gc_objects vm))),
      gc_next_collect := next_threshold (sum_list (map (size_at (vm_heap vm)) (filter (\<lambda>a. a \<in> live vm) (gc_objects vm))))\<rparr>)"
proof -
  have un: "marked (vm_heap vm) = {}" and L: "live vm \<subseteq> set (gc_objects vm)" and d: "distinct (gc_objects vm)"
    and dom: "set (gc_objects vm) \<subseteq> dom (vm_heap vm)"
    using wf by (auto simp: gc_wf_def)
  let ?vm = "vm\<lparr>gc_collections := gc_collections vm + 1\<rparr>"
  have rp: "root_ptrs ?vm = root_ptrs vm" by (simp add: root_ptrs_def)
  obtain ms h where 1: "mark_ptrs (vm_heap vm, []) (root_ptrs vm) = Some ms" "mark_loop ms = Some h"
    "erase h = erase (vm_heap vm)" "marked h = live vm"
    using mark_phase_ok [OF un live_def] L dom finite_subset [OF L] by blast
  have e: "erase h = vm_heap vm" using 1(3) erase_unmarked [OF un] by simp
  have dh: "set (gc_objects vm) \<subseteq> dom h" using dom e erase_dom by metis
  have "freelist_ok (?vm\<lparr>vm_heap := h\<rparr>)" using wf by (simp add: gc_wf_def freelist_ok_def)
  from sweep_loop_ok [OF d _ this, of 0] dh 1(4) obtain vm1 new where
    2: "sweep_loop (?vm\<lparr>vm_heap := h\<rparr>) (gc_objects vm) 0 = Some (vm1, filter (\<lambda>a. a \<in> live vm) (gc_objects vm),
      sum_list (map (size_at h) (filter (\<lambda>a. a \<in> live vm) (gc_objects vm))))"
    "swept (live vm) (?vm\<lparr>vm_heap := h\<rparr>) (gc_objects vm) new vm1" by auto
  have "size_at h = size_at (vm_heap vm)" unfolding e [symmetric] by (rule ext) simp
  then show ?thesis using 1 2 e rp
    by (intro exI [of _ h] exI [of _ vm1] exI [of _ new]) (simp add: jello_gc_collect_def mark_roots_ptrs Let_def)
qed

text \<open>The heap after a collection, address by address.\<close>

lemma collect_effect:
  assumes wf: "gc_wf vm"
  obtains vm' new where "jello_gc_collect vm = Some vm'"
    "root_ptrs vm' = root_ptrs vm" "freelist_ok vm'" "gc_box_free vm' = new @ gc_box_free vm"
    "gc_objects vm' = filter (\<lambda>a. a \<in> live vm) (gc_objects vm)"
    "gc_bytes_live vm' = sum_list (map (size_at (vm_heap vm)) (gc_objects vm'))"
    "gc_next_collect vm' = next_threshold (gc_bytes_live vm')"
    "finalized vm' = finalized vm @
       concat (map (\<lambda>a. fin_of (obj_at (vm_heap vm) a)) (filter (\<lambda>a. a \<notin> live vm) (gc_objects vm)))"
    "distinct new" "set new \<subseteq> set (gc_objects vm) - live vm"
    "\<And>x. x \<in> live vm \<or> x \<notin> set (gc_objects vm) \<Longrightarrow> vm_heap vm' x = vm_heap vm x"
    "\<And>x. x \<in> set (gc_objects vm) - live vm - set new \<Longrightarrow> vm_heap vm' x = None"
    "\<And>x. x \<in> set new \<Longrightarrow> \<exists>b. vm_heap vm' x = Some b \<and> \<not> b_marked b"
proof -
  let ?R = "live vm" and ?kept = "filter (\<lambda>a. a \<in> live vm) (gc_objects vm)"
  obtain w vm1 new where w: "marked w = ?R" "erase w = vm_heap vm"
    and s: "swept ?R (vm\<lparr>gc_collections := gc_collections vm + 1, vm_heap := w\<rparr>) (gc_objects vm) new vm1"
    and r: "jello_gc_collect vm = Some (vm1\<lparr>gc_objects := ?kept, gc_bytes_live := sum_list (map (size_at (vm_heap vm)) ?kept),
      gc_next_collect := next_threshold (sum_list (map (size_at (vm_heap vm)) ?kept))\<rparr>)"
    using collect_runs [OF wf] by blast
  have L: "?R \<subseteq> set (gc_objects vm)" using wf by (simp add: gc_wf_def)
  note d = sweptD [OF s, simplified]
  have oa: "obj_at w = obj_at (vm_heap vm)" unfolding w(2) [symmetric] by (rule ext) simp
  have un: "vm_heap vm1 x = vm_heap vm x" if "x \<in> ?R \<or> x \<notin> set (gc_objects vm)" for x
  proof (cases "x \<in> ?R")
    case True
    then show ?thesis using d(4) [of x] L w(2) by auto
  next
    case False
    then show ?thesis using that d(3) [of x] w erase_at [of x w] by simp
  qed
  have rc: "x \<in> set new \<Longrightarrow> \<exists>b. vm_heap vm1 x = Some b \<and> \<not> b_marked b" for x using d(10) [of x] by auto
  have rp: "root_ptrs vm1 = root_ptrs vm" using d(1) by (simp add: same_roots_def root_ptrs_def)
  show thesis
    by (rule that [OF r, of new])
      (use d(2,5-9) un oa rp rc in \<open>auto simp: root_ptrs_def freelist_ok_def\<close>)
qed

lemma collect_ok:
  assumes wf: "gc_wf vm"
  shows "\<exists>vm'. jello_gc_collect vm = Some vm' \<and> gc_wf vm' \<and> collected vm vm'"
proof -
  obtain vm' new where c: "jello_gc_collect vm = Some vm'"
    and rp: "root_ptrs vm' = root_ptrs vm" and fl: "freelist_ok vm'" "gc_box_free vm' = new @ gc_box_free vm"
    and ob: "gc_objects vm' = filter (\<lambda>a. a \<in> live vm) (gc_objects vm)"
    and by': "gc_bytes_live vm' = sum_list (map (size_at (vm_heap vm)) (gc_objects vm'))"
    and th: "gc_next_collect vm' = next_threshold (gc_bytes_live vm')"
    and fin: "finalized vm' = finalized vm @
       concat (map (\<lambda>a. fin_of (obj_at (vm_heap vm) a)) (filter (\<lambda>a. a \<notin> live vm) (gc_objects vm)))"
    and new: "distinct new" "set new \<subseteq> set (gc_objects vm) - live vm"
    and same: "\<And>x. x \<in> live vm \<or> x \<notin> set (gc_objects vm) \<Longrightarrow> vm_heap vm' x = vm_heap vm x"
    and dead: "\<And>x. x \<in> set (gc_objects vm) - live vm - set new \<Longrightarrow> vm_heap vm' x = None"
    and rec: "\<And>x. x \<in> set new \<Longrightarrow> \<exists>b. vm_heap vm' x = Some b \<and> \<not> b_marked b"
    using collect_effect [OF wf] by blast
  have L: "live vm \<subseteq> set (gc_objects vm)" and un: "marked (vm_heap vm) = {}"
    and dm: "dom (vm_heap vm) = set (gc_objects vm) \<union> set (gc_box_free vm)" "0 \<notin> dom (vm_heap vm)"
    and di: "distinct (gc_objects vm @ gc_box_free vm)"
    using wf by (auto simp: gc_wf_def)
  have lv: "live vm' = live vm"
    unfolding live_def rp by (rule reachable_cong) (use same L dm in \<open>force simp: live_def\<close>)+
  have "map (size_at (vm_heap vm')) (gc_objects vm') = map (size_at (vm_heap vm)) (gc_objects vm')"
    using same ob by (auto simp: size_at_def)
  then have "gc_bytes_live vm' = sum_list (map (size_at (vm_heap vm')) (gc_objects vm'))"
    unfolding by' by (simp only:)
  moreover have at: "(x \<in> dom (vm_heap vm') \<longleftrightarrow> x \<in> set (gc_objects vm') \<union> set (gc_box_free vm')) \<and>
      x \<notin> marked (vm_heap vm')" for x
  proof -
    consider "x \<in> live vm \<or> x \<notin> set (gc_objects vm)" | "x \<in> set new" | "x \<in> set (gc_objects vm) - live vm - set new"
      by blast
    then show ?thesis
    proof cases
      case 1
      then have "x \<in> dom (vm_heap vm') \<longleftrightarrow> x \<in> dom (vm_heap vm)" "x \<notin> marked (vm_heap vm')"
        using same [OF 1] un by (auto simp: marked_def domIff)
      then show ?thesis using 1 L dm(1) ob fl(2) new(2) by auto
    next
      case 2
      then show ?thesis using rec [OF 2] fl(2) by (auto simp: marked_def)
    next
      case 3
      then show ?thesis using dead [OF 3] ob fl(2) di by (auto simp: marked_def)
    qed
  qed
  moreover have "distinct (gc_objects vm' @ gc_box_free vm')" using di new ob fl(2) by auto
  ultimately have "gc_wf vm'" using lv L fl(1) ob dm new fl(2) unfolding gc_wf_def by auto
  moreover have "collected vm vm'"
    unfolding collected_def
  proof (intro conjI allI impI)
    show "vm_heap vm' a = None \<or> a \<in> set (gc_box_free vm')" if "a \<in> set (gc_objects vm) - live vm" for a
      using dead [of a] that fl(2) by (cases "a \<in> set new") auto
  qed (use rp ob same fl(2) new fin th in auto)
  ultimately show ?thesis using c by blast
qed

section \<open>Allocation\<close>

text \<open>What the code relies on of \<^verbatim>\<open>malloc\<close>: a block it returns overlaps no block in use and is not
  \<^verbatim>\<open>NULL\<close>.\<close>

definition malloc_ok :: "(heap \<Rightarrow> u64 \<Rightarrow> addr option) \<Rightarrow> bool" where
  "malloc_ok malloc \<longleftrightarrow> (\<forall>h n a. malloc h n = Some a \<longrightarrow> a \<notin> dom h \<and> a \<noteq> 0)"

lemma freelist_take_Some:
  "freelist_take h as tot = Some (a, rest) \<Longrightarrow>
    map_option b_total (h a) = Some tot \<and> a \<in> set as \<and> set as = insert a (set rest) \<and> length as = Suc (length rest) \<and>
    (distinct as \<longrightarrow> distinct rest \<and> a \<notin> set rest)"
  by (induction as arbitrary: rest) (auto split: if_splits)

lemma gc_wfD:
  assumes "gc_wf vm"
  shows "distinct (gc_objects vm @ gc_box_free vm)" "dom (vm_heap vm) = set (gc_objects vm) \<union> set (gc_box_free vm)"
    "0 \<notin> dom (vm_heap vm)" "marked (vm_heap vm) = {}" "live vm \<subseteq> set (gc_objects vm)" "freelist_ok vm"
    "gc_bytes_live vm = sum_list (map (size_at (vm_heap vm)) (gc_objects vm))"
  using assms unfolding gc_wf_def by blast+

text \<open>A block that is not on the object list becomes an object.\<close>

lemma link_block_ok:
  assumes wf: "distinct (gc_objects vm @ gc_box_free vm)" "0 \<notin> dom (vm_heap vm)" "a \<noteq> 0"
    "insert a (dom (vm_heap vm)) = insert a (set (gc_objects vm) \<union> set (gc_box_free vm))"
    "marked (vm_heap vm) = {}" "live vm \<subseteq> set (gc_objects vm)" "live vm \<subseteq> dom (vm_heap vm)" "freelist_ok vm"
    "gc_bytes_live vm = sum_list (map (size_at (vm_heap vm)) (gc_objects vm))"
    and a: "a \<notin> set (gc_objects vm)" "a \<notin> set (gc_box_free vm)"
  shows "gc_wf (link_block vm a b)" "live (link_block vm a b) = live vm"
    "x \<noteq> a \<Longrightarrow> vm_heap (link_block vm a b) x = vm_heap vm x"
proof -
  let ?vm = "link_block vm a b"
  have f: "vm_heap ?vm = (vm_heap vm)(a \<mapsto> b\<lparr>b_marked := False\<rparr>)" "gc_objects ?vm = a # gc_objects vm"
    "gc_box_free ?vm = gc_box_free vm" "root_ptrs ?vm = root_ptrs vm" "freelist_ok ?vm = freelist_ok vm"
    "gc_bytes_live ?vm = gc_bytes_live vm + b_total b"
    by (simp_all add: link_block_def root_ptrs_def freelist_ok_def)
  show "x \<noteq> a \<Longrightarrow> vm_heap ?vm x = vm_heap vm x" by (simp add: f(1))
  have al: "a \<notin> live vm" using wf(6) a(1) by auto
  have in_dom: "p \<in> live vm \<Longrightarrow> vm_heap vm p \<noteq> None" for p using wf(7) by auto
  show lv: "live ?vm = live vm"
    unfolding live_def f(4)
    by (rule reachable_cong) (use al in_dom f(1) in \<open>auto simp: live_def\<close>)
  have m: "marked (vm_heap ?vm) = {}" using wf(5) by (auto simp: f(1) marked_def split: if_splits)
  have sz: "x \<in> set (gc_objects vm) \<Longrightarrow> size_at (vm_heap ?vm) x = size_at (vm_heap vm) x" for x
    using a(1) by (auto simp: f(1) size_at_def)
  have "sum_list (map (size_at (vm_heap ?vm)) (gc_objects ?vm)) =
      b_total b + sum_list (map (size_at (vm_heap vm)) (gc_objects vm))"
    using sz by (simp add: f(2) cong: map_cong) (simp add: f(1) size_at_def)
  then show "gc_wf ?vm"
    unfolding gc_wf_def f lv using wf a m by (auto simp: f(1,2))
qed

lemma gc_wf_freelist:
  assumes "gc_wf vm" "freelist_take (vm_heap vm) (gc_box_free vm) tot = Some (a, rest)"
  defines "vm1 \<equiv> vm\<lparr>gc_box_free := rest, gc_box_free_len := gc_box_free_len vm - 1, gc_freelist_hits := gc_freelist_hits vm + 1\<rparr>"
  shows "gc_wf (link_block vm1 a b) \<and> live (link_block vm1 a b) = live vm"
    and "a \<notin> live vm" "a \<notin> set (gc_objects vm)"
proof -
  note t = freelist_take_Some [OF assms(2)]
  note w = gc_wfD [OF assms(1)]
  have a: "a \<in> set (gc_box_free vm)" "a \<notin> set (gc_objects vm)" "a \<notin> set rest" "a \<noteq> 0"
    using t w(1-3) by auto
  then show "a \<notin> live vm" "a \<notin> set (gc_objects vm)" using w(5) by auto
  have "unat (gc_box_free_len vm) \<noteq> 0" using w(6) t by (simp add: freelist_ok_def)
  then have "unat (gc_box_free_len vm - 1) = unat (gc_box_free_len vm) - 1" by (subst unat_minus_one) auto
  then have fl: "freelist_ok vm1" using w(6) t by (simp add: freelist_ok_def vm1_def)
  have lv: "live vm1 = live vm" by (simp add: live_def root_ptrs_def vm1_def)
  have f: "gc_objects vm1 = gc_objects vm" "gc_box_free vm1 = rest" "vm_heap vm1 = vm_heap vm"
    "gc_bytes_live vm1 = gc_bytes_live vm" by (simp_all add: vm1_def)
  have "gc_wf (link_block vm1 a b)" "live (link_block vm1 a b) = live vm1"
    by (rule link_block_ok; use w a t in \<open>auto simp: f lv fl\<close>)+
  then show "gc_wf (link_block vm1 a b) \<and> live (link_block vm1 a b) = live vm" using lv by simp
qed

lemma gc_wf_malloc:
  assumes "gc_wf vm" "a \<notin> dom (vm_heap vm)" "a \<noteq> 0"
  defines "vm1 \<equiv> vm\<lparr>gc_freelist_misses := gc_freelist_misses vm + 1\<rparr>"
  shows "gc_wf (link_block vm1 a b) \<and> live (link_block vm1 a b) = live vm"
    and "a \<notin> live vm" "a \<notin> set (gc_objects vm)"
proof -
  note w = gc_wfD [OF assms(1)]
  show a: "a \<notin> live vm" "a \<notin> set (gc_objects vm)" using w(2,5) assms(2) by auto
  have f: "live vm1 = live vm" "freelist_ok vm1 = freelist_ok vm" "gc_objects vm1 = gc_objects vm"
    "gc_box_free vm1 = gc_box_free vm" "vm_heap vm1 = vm_heap vm" "gc_bytes_live vm1 = gc_bytes_live vm"
    by (simp_all add: live_def root_ptrs_def vm1_def freelist_ok_def)
  have "gc_wf (link_block vm1 a b)" "live (link_block vm1 a b) = live vm1"
    by (rule link_block_ok; use w a assms(2,3) in \<open>auto simp: f\<close>)+
  then show "gc_wf (link_block vm1 a b) \<and> live (link_block vm1 a b) = live vm" using f by simp
qed

text \<open>What an allocation does to a well-formed heap, collection included: it fails only when \<^verbatim>\<open>malloc\<close>
  does, and otherwise returns a block that was not live and leaves every live object as it was.\<close>

definition allocated :: "jello_vm \<Rightarrow> u64 \<Rightarrow> jello_vm \<Rightarrow> addr \<Rightarrow> bool" where
  "allocated vm size' vm' a \<longleftrightarrow> gc_wf vm' \<and> live vm' = live vm \<and> root_ptrs vm' = root_ptrs vm \<and>
     a \<notin> live vm \<and> a \<noteq> 0 \<and> (\<forall>x. x \<in> live vm \<longrightarrow> vm_heap vm' x = vm_heap vm x) \<and>
     a \<in> set (gc_objects vm') \<and> size_at (vm_heap vm') a = gc_hdr_size + size'"

lemma allocatedI:
  assumes "gc_wf (link_block w a b) \<and> live (link_block w a b) = live vm" "root_ptrs w = root_ptrs vm"
    "a \<notin> live vm" "a \<noteq> 0" "\<And>x. x \<in> live vm \<Longrightarrow> vm_heap w x = vm_heap vm x" "b_total b = gc_hdr_size + size'"
  shows "allocated vm size' (link_block w a b) a"
proof -
  have f: "vm_heap (link_block w a b) = (vm_heap w)(a \<mapsto> b\<lparr>b_marked := False\<rparr>)"
    "gc_objects (link_block w a b) = a # gc_objects w" "root_ptrs (link_block w a b) = root_ptrs w"
    by (simp_all add: link_block_def root_ptrs_def)
  show ?thesis unfolding allocated_def f using assms by (auto simp: size_at_def)
qed

lemma before_alloc_ok:
  assumes "gc_wf vm"
  obtains vm1 where
    "(if gc_next_collect vm \<noteq> 0 \<and> gc_bytes_live vm \<ge> gc_next_collect vm then jello_gc_collect vm else Some vm) = Some vm1"
    "gc_wf vm1" "live vm1 = live vm" "root_ptrs vm1 = root_ptrs vm"
    "\<And>x. x \<in> live vm \<Longrightarrow> vm_heap vm1 x = vm_heap vm x"
proof (cases "gc_next_collect vm \<noteq> 0 \<and> gc_bytes_live vm \<ge> gc_next_collect vm")
  case True
  obtain vm1 where c: "jello_gc_collect vm = Some vm1" "gc_wf vm1" "collected vm vm1" using collect_ok [OF assms] by blast
  then have h: "x \<in> live vm \<Longrightarrow> vm_heap vm1 x = vm_heap vm x" for x by (simp add: collected_def)
  have "root_ptrs vm1 = root_ptrs vm" using c(3) by (simp add: collected_def)
  moreover have "live vm \<subseteq> dom (vm_heap vm)" using assms by (auto simp: gc_wf_def)
  then have "live vm1 = live vm"
    unfolding live_def calculation by (intro reachable_cong) (use h in \<open>auto simp: live_def\<close>)
  ultimately show thesis using that [of vm1] True c h by simp
next
  case False
  show thesis by (rule that [of vm]) (use False assms in auto)
qed

lemma alloc_ok:
  assumes wf: "gc_wf vm" and m: "malloc_ok malloc"
  shows "(\<exists>vm' a r. jello_gc_alloc_recycled malloc vm size' = Some (vm', a, r) \<and> allocated vm size' vm' a) \<or>
    (jello_gc_alloc_recycled malloc vm size' = None \<and> (\<exists>h. malloc h (gc_hdr_size + size') = None))"
proof -
  let ?tot = "gc_hdr_size + size'"
  obtain vm1 where 1: "(if gc_next_collect vm \<noteq> 0 \<and> gc_bytes_live vm \<ge> gc_next_collect vm then jello_gc_collect vm
      else Some vm) = Some vm1" "gc_wf vm1" "live vm1 = live vm" "root_ptrs vm1 = root_ptrs vm"
    "\<And>x. x \<in> live vm \<Longrightarrow> vm_heap vm1 x = vm_heap vm x"
    using before_alloc_ok [OF wf] by blast
  show ?thesis
  proof (cases "freelist_take (vm_heap vm1) (gc_box_free vm1) ?tot")
    case (Some p)
    obtain a rest where p: "p = (a, rest)" by force
    from freelist_take_Some [OF Some [unfolded p]] obtain b where b: "vm_heap vm1 a = Some b" "b_total b = ?tot" by auto
    let ?vm1 = "vm1\<lparr>gc_box_free := rest, gc_box_free_len := gc_box_free_len vm1 - 1,
      gc_freelist_hits := gc_freelist_hits vm1 + 1\<rparr>"
    have "jello_gc_alloc_recycled malloc vm size' = Some (link_block ?vm1 a b, a, True)"
      by (simp add: jello_gc_alloc_recycled_def 1(1) gc_box_free_pop_def Some p b(1))
    moreover have "a \<noteq> 0" using b(1) 1(2) by (auto simp: gc_wf_def)
    then have "allocated vm size' (link_block ?vm1 a b) a"
      using gc_wf_freelist [OF 1(2) Some [unfolded p]] 1(3-5) b
      by (intro allocatedI) simp_all
    ultimately show ?thesis by blast
  next
    case None
    show ?thesis
    proof (cases "malloc (vm_heap vm1) ?tot")
      case None': None
      then show ?thesis using None by (auto simp: jello_gc_alloc_recycled_def 1(1) gc_box_free_pop_def)
    next
      case (Some a)
      let ?b = "\<lparr>b_total = ?tot, b_marked = False, b_obj = ORaw\<rparr>"
      let ?vm1 = "vm1\<lparr>gc_freelist_misses := gc_freelist_misses vm1 + 1\<rparr>"
      have a: "a \<notin> dom (vm_heap vm1)" "a \<noteq> 0" using m Some by (auto simp: malloc_ok_def)
      have "jello_gc_alloc_recycled malloc vm size' = Some (link_block ?vm1 a ?b, a, False)"
        by (simp add: jello_gc_alloc_recycled_def 1(1) gc_box_free_pop_def None Some)
      moreover have "allocated vm size' (link_block ?vm1 a ?b) a"
        using gc_wf_malloc [OF 1(2) a] 1(3-5) a by (intro allocatedI) simp_all
      ultimately show ?thesis by blast
    qed
  qed
qed

section \<open>The interface of the allocator\<close>

text \<open>A sequence of allocations and the blocks they return.\<close>

inductive allocs :: "('s \<Rightarrow> 'n \<Rightarrow> ('s \<times> 'a) option) \<Rightarrow> 's \<Rightarrow> 'a list \<Rightarrow> 's \<Rightarrow> bool"
  for alloc :: "'s \<Rightarrow> 'n \<Rightarrow> ('s \<times> 'a) option" where
  allocs_Nil: "allocs alloc s [] s"
| allocs_step: "alloc s n = Some (s1, a) \<Longrightarrow> allocs alloc s1 as s2 \<Longrightarrow> allocs alloc s (a # as) s2"

text \<open>What the rest of the machine relies on: an allocation keeps the invariant and the live objects,
  and what it returns was not live.\<close>

locale allocator =
  fixes wf :: "'s \<Rightarrow> bool"
    and live_set :: "'s \<Rightarrow> 'a set"
    and contents :: "'s \<Rightarrow> 'a \<rightharpoonup> 'c"
    and alloc :: "'s \<Rightarrow> 'n \<Rightarrow> ('s \<times> 'a) option"
  assumes alloc_law: "wf s \<Longrightarrow> alloc s n = Some (s', a) \<Longrightarrow>
    wf s' \<and> live_set s' = live_set s \<and> a \<notin> live_set s \<and> (\<forall>x. x \<in> live_set s \<longrightarrow> contents s' x = contents s x)"
begin

lemma allocs_ok: "allocs alloc s as s' \<Longrightarrow> wf s \<Longrightarrow>
    wf s' \<and> live_set s' = live_set s \<and> set as \<inter> live_set s = {} \<and>
    (\<forall>x. x \<in> live_set s \<longrightarrow> contents s' x = contents s x)"
proof (induction rule: allocs.induct)
  case (allocs_step s n s1 a as s2)
  from alloc_law [OF allocs_step.prems allocs_step.hyps(1)] allocs_step.IH show ?case by auto
qed simp

end

interpretation gc: allocator "\<lambda>vm. malloc_ok malloc \<and> gc_wf vm" live vm_heap "jello_gc_alloc malloc" for malloc
proof
  fix s n s' a
  assume "malloc_ok malloc \<and> gc_wf s" "jello_gc_alloc malloc s n = Some (s', a)"
  with alloc_ok [of s malloc n]
  show "(malloc_ok malloc \<and> gc_wf s') \<and> live s' = live s \<and> a \<notin> live s \<and> (\<forall>x. x \<in> live s \<longrightarrow> vm_heap s' x = vm_heap s x)"
    by (auto simp: jello_gc_alloc_def allocated_def)
qed

section \<open>Shutdown\<close>

lemma heap_gc_free: "vm_heap (gc_free vm a) |` (- set as) = vm_heap vm |` (- set (a # as))"
  by (auto simp: gc_free_def restrict_map_def fun_eq_iff)

lemma gc_free_update: "(gc_free vm a)\<lparr>vm_heap := h\<rparr> = vm\<lparr>vm_heap := h\<rparr>"
  by (simp add: gc_free_def)

lemma fold_free: "fold (\<lambda>a vm. gc_free vm a) as vm = vm\<lparr>vm_heap := vm_heap vm |` (- set as)\<rparr>"
proof (induction as arbitrary: vm)
  case (Cons a as)
  have "fold (\<lambda>a vm. gc_free vm a) (a # as) vm = (gc_free vm a)\<lparr>vm_heap := vm_heap (gc_free vm a) |` (- set as)\<rparr>"
    using Cons [of "gc_free vm a"] by simp
  then show ?case unfolding heap_gc_free gc_free_update .
qed (simp add: restrict_map_def)

lemma shutdown_loop_ok:
  "distinct as \<Longrightarrow> set as \<subseteq> dom (vm_heap vm) \<Longrightarrow> \<exists>vm'. shutdown_loop vm as = Some vm' \<and>
    vm_heap vm' = vm_heap vm |` (- set as) \<and> gc_box_free vm' = gc_box_free vm \<and>
    finalized vm' = finalized vm @ concat (map (\<lambda>a. fin_of (obj_at (vm_heap vm) a)) as)"
proof (induction as arbitrary: vm)
  case (Cons a as)
  then obtain b where b: "vm_heap vm a = Some b" by auto
  let ?vm = "gc_free (fst (destroy_object vm (b_obj b))) a"
  have h: "vm_heap ?vm = (vm_heap vm)(a := None)" "finalized ?vm = finalized vm @ fin_of (b_obj b)"
    "gc_box_free ?vm = gc_box_free vm" by (simp_all add: gc_free_def destroy_finalized)
  have "set as \<subseteq> dom (vm_heap ?vm)" using Cons.prems h(1) by auto
  then obtain vm' where vm': "shutdown_loop ?vm as = Some vm'" "vm_heap vm' = vm_heap ?vm |` (- set as)"
    "gc_box_free vm' = gc_box_free vm"
    "finalized vm' = finalized ?vm @ concat (map (\<lambda>a. fin_of (obj_at (vm_heap ?vm) a)) as)"
    using Cons.IH [of ?vm] Cons.prems h(3) by auto
  have "concat (map (\<lambda>x. fin_of (obj_at (vm_heap ?vm) x)) as) = concat (map (\<lambda>x. fin_of (obj_at (vm_heap vm) x)) as)"
    using Cons.prems unfolding h(1) by (intro arg_cong [where f = concat]) (auto simp: obj_at_def)
  moreover have "vm_heap ?vm |` (- set as) = vm_heap vm |` (- set (a # as))"
    unfolding heap_gc_free by (simp add: destroy_finalized)
  moreover have "obj_at (vm_heap vm) a = b_obj b" using b by (simp add: obj_at_def)
  ultimately show ?case using vm' b h(2) by simp
qed (simp add: restrict_map_def)

section \<open>A small heap\<close>

text \<open>A two-element list held by a temporary root, a dead abstract value with a finalizer and a dead
  box.\<close>

definition gc_demo :: jello_vm where
  "gc_demo = \<lparr>spill = [], vm_heap = [64 \<mapsto> \<lparr>b_total = 48, b_marked = False, b_obj = OList 0 (jello_make_i32 5) 128\<rparr>,
       128 \<mapsto> \<lparr>b_total = 48, b_marked = False, b_obj = OList 0 (jello_make_i32 6) 0\<rparr>,
       192 \<mapsto> \<lparr>b_total = 48, b_marked = False, b_obj = OAbstract 0 7 9\<rparr>,
       256 \<mapsto> \<lparr>b_total = 40, b_marked = False, b_obj = OBoxI64 0 1\<rparr>],
     gc_objects = [256, 192, 128, 64], gc_bytes_live = 184, gc_next_collect = 100, gc_box_free_len = 0,
     gc_box_free = [], gc_roots = [jello_from_ptr 64], gc_roots_cap = 32, gc_collections = 0,
     gc_freed_objects = 0, gc_freelist_hits = 0, gc_freelist_misses = 0, call_frames = [],
     const_fun_cache = [], const_bytes_cache = [], enum_nullary_by_type = [], running_module = False, finalized = []\<rparr>"

lemma gc_demo_live: "live gc_demo = {64, 128}"
proof -
  have r: "root_ptrs gc_demo = [64]"
    by (simp add: root_ptrs_def gc_demo_def jello_is_ptr_def jello_from_ptr_def jello_as_ptr_def tag_defs)
  have "p \<in> {64, 128}" if "p \<in> live gc_demo" for p
    using that unfolding live_def r
    by (induction rule: reachable.induct) (auto simp: gc_demo_def)
  moreover have "64 \<in> live gc_demo" unfolding live_def r by (rule reachable.root) simp_all
  then have "128 \<in> live gc_demo"
    unfolding live_def by (rule reachable.field) (auto simp: gc_demo_def)
  ultimately show ?thesis using \<open>64 \<in> live gc_demo\<close> by auto
qed

lemma gc_demo_wf: "gc_wf gc_demo"
  by (simp add: gc_wf_def gc_demo_live) (auto simp: gc_demo_def marked_def freelist_ok_def size_at_def split: if_splits)

section \<open>Properties\<close>

text \<open>C8: On a well-formed heap a collection ends without touching memory out of the heap, and it keeps
  exactly the objects reachable from the roots (spill, temporary roots, constant caches, interned
  enums and typed registers), in their order, with their contents.\<close>

theorem gc_keeps_exactly_live:
  assumes "gc_wf vm"
  shows "\<exists>vm'. jello_gc_collect vm = Some vm' \<and> gc_wf vm' \<and>
    gc_objects vm' = filter (\<lambda>a. a \<in> reachable (vm_heap vm) (root_ptrs vm)) (gc_objects vm) \<and>
    (\<forall>a. a \<in> reachable (vm_heap vm) (root_ptrs vm) \<longrightarrow> vm_heap vm' a = vm_heap vm a)"
  using collect_ok [OF assms] by (auto simp: collected_def live_def)

theorem gc_keeps_exactly_live_witness:
  "\<exists>vm'. jello_gc_collect gc_demo = Some vm' \<and> gc_objects vm' = [128, 64] \<and> vm_heap vm' 128 = vm_heap gc_demo 128"
  using gc_keeps_exactly_live [OF gc_demo_wf] gc_demo_live by (auto simp: live_def) (auto simp: gc_demo_def)

text \<open>C12: A collection releases every dead object, to \<^verbatim>\<open>free\<close> or to the freelist, which never holds more
  than 8192 blocks; it calls the finalizer of each dead abstract value exactly once, in the order of
  the object list, and no other.\<close>

theorem gc_releases_dead_objects:
  assumes "gc_wf vm"
  shows "\<exists>vm'. jello_gc_collect vm = Some vm' \<and>
    (\<forall>a. a \<in> set (gc_objects vm) \<and> a \<notin> live vm \<longrightarrow> vm_heap vm' a = None \<or> a \<in> set (gc_box_free vm')) \<and>
    length (gc_box_free vm') \<le> 8192 \<and>
    finalized vm' = finalized vm @
      concat (map (\<lambda>a. fin_of (obj_at (vm_heap vm) a)) (filter (\<lambda>a. a \<notin> live vm) (gc_objects vm)))"
  using collect_ok [OF assms] by (auto simp: collected_def gc_wf_def freelist_ok_def)

theorem gc_releases_dead_objects_witness:
  "\<exists>vm'. jello_gc_collect gc_demo = Some vm' \<and> finalized vm' = [(9, 7)]"
  using gc_releases_dead_objects [OF gc_demo_wf] unfolding gc_demo_live by (auto simp: gc_demo_def obj_at_def)

lemma next_threshold_ge:
  assumes "unat n < 2 ^ 63"
  shows "unat n + 8192 * 192 \<le> unat (next_threshold n)"
proof -
  have "unat (n + ucast GC_BOX_FREE_MAX * 192) = unat n + 8192 * 192"
    using assms by (simp add: GC_BOX_FREE_MAX_def unat_word_ariths)
  then show ?thesis by (simp add: next_threshold_def Let_def word_less_nat_alt)
qed

text \<open>After a collection \<^verbatim>\<open>gc_bytes_live\<close> is the sum of the sizes of the surviving blocks, and the next
  collection is at least \<open>8192 * 192\<close> bytes of allocation away.\<close>

theorem gc_accounting:
  assumes "gc_wf vm"
  shows "\<exists>vm'. jello_gc_collect vm = Some vm' \<and>
    gc_bytes_live vm' = sum_list (map (size_at (vm_heap vm')) (gc_objects vm')) \<and>
    (unat (gc_bytes_live vm') < 2 ^ 63 \<longrightarrow> unat (gc_bytes_live vm') + 8192 * 192 \<le> unat (gc_next_collect vm'))"
  using collect_ok [OF assms] next_threshold_ge by (auto simp: collected_def gc_wf_def)

theorem gc_accounting_witness:
  "\<exists>vm'. jello_gc_collect gc_demo = Some vm' \<and> gc_bytes_live vm' = sum_list (map (size_at (vm_heap vm')) (gc_objects vm'))"
  using gc_accounting [OF gc_demo_wf] by auto

text \<open>C10: An allocation, which may collect first, either returns a block of the asked size that was not
  live, keeping the heap well-formed and every live object as it was, or stops because \<^verbatim>\<open>malloc\<close> failed.\<close>

theorem gc_alloc_fresh:
  assumes "gc_wf vm" and "malloc_ok malloc"
  shows "(\<exists>vm' a r. jello_gc_alloc_recycled malloc vm size' = Some (vm', a, r) \<and> gc_wf vm' \<and>
      a \<notin> live vm \<and> a \<noteq> 0 \<and> a \<in> set (gc_objects vm') \<and> size_at (vm_heap vm') a = gc_hdr_size + size' \<and>
      (\<forall>x. x \<in> live vm \<longrightarrow> vm_heap vm' x = vm_heap vm x)) \<or>
    (jello_gc_alloc_recycled malloc vm size' = None \<and> (\<exists>h. malloc h (gc_hdr_size + size') = None))"
  using alloc_ok [OF assms, of size'] unfolding allocated_def by blast

definition some_malloc :: "heap \<Rightarrow> u64 \<Rightarrow> addr option" where
  "some_malloc h n = (if 512 \<in> dom h then None else Some 512)"

lemma some_malloc_ok: "malloc_ok some_malloc"
  by (simp add: malloc_ok_def some_malloc_def)

theorem gc_alloc_fresh_witness:
  "\<exists>vm' a r. jello_gc_alloc_recycled some_malloc gc_demo 16 = Some (vm', a, r) \<and> a \<notin> live gc_demo"
proof -
  have "jello_gc_alloc_recycled some_malloc gc_demo 16 \<noteq> None" by code_simp
  then show ?thesis using gc_alloc_fresh [OF gc_demo_wf some_malloc_ok, of 16] by auto
qed

text \<open>Over any sequence of allocations, however many collections they trigger, the objects that were
  live keep their addresses and contents, and none of the blocks handed out is one of them.\<close>

theorem gc_alloc_sequence:
  assumes "allocs (jello_gc_alloc malloc) vm as vm'" and "malloc_ok malloc" and "gc_wf vm"
  shows "gc_wf vm' \<and> set as \<inter> live vm = {} \<and> (\<forall>x. x \<in> live vm \<longrightarrow> vm_heap vm' x = vm_heap vm x)"
  using gc.allocs_ok [OF assms(1)] assms(2,3) by blast

theorem gc_alloc_sequence_witness:
  "\<exists>vm' a. allocs (jello_gc_alloc some_malloc) gc_demo [a] vm' \<and> a \<notin> live gc_demo"
proof -
  have "jello_gc_alloc some_malloc gc_demo 16 \<noteq> None" by code_simp
  then obtain vm' a where "jello_gc_alloc some_malloc gc_demo 16 = Some (vm', a)" by auto
  then have "allocs (jello_gc_alloc some_malloc) gc_demo [a] vm'" by (rule allocs_step [OF _ allocs_Nil])
  then show ?thesis using gc_alloc_sequence [OF _ some_malloc_ok gc_demo_wf] by fastforce
qed

text \<open>Shutdown frees every block of the heap and of the freelist, and calls the finalizer of every
  abstract value on the object list exactly once.\<close>

theorem gc_shutdown_frees_all:
  assumes "gc_wf vm"
  shows "\<exists>vm'. jello_gc_shutdown vm = Some vm' \<and> vm_heap vm' = Map.empty \<and> gc_objects vm' = [] \<and>
    gc_box_free vm' = [] \<and> finalized vm' = finalized vm @ concat (map (\<lambda>a. fin_of (obj_at (vm_heap vm) a)) (gc_objects vm))"
proof -
  have d: "distinct (gc_objects vm)" "set (gc_objects vm) \<subseteq> dom (vm_heap (vm\<lparr>spill := []\<rparr>))" using gc_wfD [OF assms] by auto
  obtain w where w: "shutdown_loop (vm\<lparr>spill := []\<rparr>) (gc_objects vm) = Some w"
    "vm_heap w = vm_heap vm |` (- set (gc_objects vm))" "gc_box_free w = gc_box_free vm"
    "finalized w = finalized vm @ concat (map (\<lambda>a. fin_of (obj_at (vm_heap vm) a)) (gc_objects vm))"
    using shutdown_loop_ok [OF d] by auto
  have "vm_heap vm |` (- set (gc_objects vm)) |` (- set (gc_box_free vm)) = Map.empty"
    using gc_wfD(2) [OF assms] by (auto simp: restrict_map_def fun_eq_iff dom_def)
  then show ?thesis using w by (simp add: jello_gc_shutdown_def gc_box_free_clear_def fold_free)
qed

theorem gc_shutdown_frees_all_witness:
  "\<exists>vm'. jello_gc_shutdown gc_demo = Some vm' \<and> vm_heap vm' = Map.empty \<and> finalized vm' = [(9, 7)]"
  using gc_shutdown_frees_all [OF gc_demo_wf] by (auto simp: gc_demo_def obj_at_def)

end
