(* ===== verification/Jello_Types.thy ===== *)
theory Jello_Types
  imports Jello_GC Jello_Bytecode
begin

text \<open>
  The constructors of heap objects (\<^verbatim>\<open>src/types/box.c\<close>, \<^verbatim>\<open>bytes.c\<close>, \<^verbatim>\<open>list.c\<close>, \<^verbatim>\<open>array.c\<close>, \<^verbatim>\<open>enum.c\<close>, \<^verbatim>\<open>function.c\<close>, \<^verbatim>\<open>abstract.c\<close>)
  and the tests on object kinds of \<^verbatim>\<open>jello.h\<close>. A constructor allocates a block and fills in every field; it
  stops, with \<open>None\<close>, when memory runs out. The lemmas show that what a constructor returns is a new object with
  the given contents on a heap that is otherwise the same to the program, and that interned enum values stay unique.
\<close>

section \<open>Object kinds\<close>

fun obj_kind :: "heap_obj \<Rightarrow> u32" where
  "obj_kind (OBytes _ _) = 1"
| "obj_kind (OFunction _ _ _ _) = 2"
| "obj_kind (ORawClosure _ _ _ _ _) = 2"
| "obj_kind (OList _ _ _) = 3"
| "obj_kind (OArray _ _) = 4"
| "obj_kind (OObject _) = 5"
| "obj_kind (OAbstract _ _ _) = 6"
| "obj_kind (OBoxI64 _ _) = 7"
| "obj_kind (OBoxF64 _ _) = 8"
| "obj_kind (OBoxF32 _ _) = 9"
| "obj_kind (OBoxF16 _ _) = 10"
| "obj_kind (OEnum _ _ _) = 11"
| "obj_kind ORaw = 0"

text \<open>The object behind a value; \<open>None\<close> is a read of memory that is not allocated.\<close>

definition object_of :: "heap \<Rightarrow> jello_value \<Rightarrow> heap_obj option" where
  "object_of h v = map_option b_obj (h (jello_as_ptr v))"

definition jello_obj_kind_of :: "heap \<Rightarrow> jello_value \<Rightarrow> u32 option" where
  "jello_obj_kind_of h v = map_option obj_kind (object_of h v)"

definition is_kind :: "u32 \<Rightarrow> heap \<Rightarrow> jello_value \<Rightarrow> bool option" where
  "is_kind k h v = (if jello_is_ptr v then map_option (\<lambda>k'. k' = k) (jello_obj_kind_of h v) else Some False)"

definition jello_is_box_i64 :: "heap \<Rightarrow> jello_value \<Rightarrow> bool option" where "jello_is_box_i64 = is_kind 7"
definition jello_is_box_f64 :: "heap \<Rightarrow> jello_value \<Rightarrow> bool option" where "jello_is_box_f64 = is_kind 8"
definition jello_is_box_f32 :: "heap \<Rightarrow> jello_value \<Rightarrow> bool option" where "jello_is_box_f32 = is_kind 9"
definition jello_is_box_f16 :: "heap \<Rightarrow> jello_value \<Rightarrow> bool option" where "jello_is_box_f16 = is_kind 10"

section \<open>Constructors\<close>

definition put_obj :: "jello_vm \<Rightarrow> addr \<Rightarrow> heap_obj \<Rightarrow> jello_vm" where
  "put_obj vm a ob = vm\<lparr>vm_heap := (vm_heap vm)(a := map_option (\<lambda>b. b\<lparr>b_obj := ob\<rparr>) (vm_heap vm a))\<rparr>"

type_synonym alloc_fun = "heap \<Rightarrow> u64 \<Rightarrow> addr option"

definition new_obj :: "alloc_fun \<Rightarrow> jello_vm \<Rightarrow> u64 \<Rightarrow> heap_obj \<Rightarrow> (jello_vm \<times> addr) option" where
  "new_obj malloc vm size' ob = map_option (\<lambda>(vm, a). (put_obj vm a ob, a)) (jello_gc_alloc malloc vm size')"

definition jello_box_i64_new :: "alloc_fun \<Rightarrow> jello_vm \<Rightarrow> u32 \<Rightarrow> u64 \<Rightarrow> (jello_vm \<times> addr) option" where
  "jello_box_i64_new malloc vm type_id v = new_obj malloc vm 16 (OBoxI64 type_id v)"

definition jello_box_f64_new :: "alloc_fun \<Rightarrow> jello_vm \<Rightarrow> u32 \<Rightarrow> u64 \<Rightarrow> (jello_vm \<times> addr) option" where
  "jello_box_f64_new malloc vm type_id v = new_obj malloc vm 16 (OBoxF64 type_id v)"

definition jello_box_f32_new :: "alloc_fun \<Rightarrow> jello_vm \<Rightarrow> u32 \<Rightarrow> u32 \<Rightarrow> (jello_vm \<times> addr) option" where
  "jello_box_f32_new malloc vm type_id v = new_obj malloc vm 12 (OBoxF32 type_id v)"

definition jello_box_f16_new :: "alloc_fun \<Rightarrow> jello_vm \<Rightarrow> u32 \<Rightarrow> u16 \<Rightarrow> (jello_vm \<times> addr) option" where
  "jello_box_f16_new malloc vm type_id bits = new_obj malloc vm 12 (OBoxF16 type_id bits)"

definition jello_bytes_new :: "alloc_fun \<Rightarrow> jello_vm \<Rightarrow> u32 \<Rightarrow> u32 \<Rightarrow> (jello_vm \<times> addr) option" where
  "jello_bytes_new malloc vm type_id len =
     new_obj malloc vm (12 + ucast len) (OBytes type_id (replicate (unat len) 0))"

definition jello_list_cons ::
  "alloc_fun \<Rightarrow> jello_vm \<Rightarrow> u32 \<Rightarrow> jello_value \<Rightarrow> addr \<Rightarrow> (jello_vm \<times> addr) option" where
  "jello_list_cons malloc vm type_id head tail = new_obj malloc vm 24 (OList type_id head tail)"

definition jello_abstract_new_finalized ::
  "alloc_fun \<Rightarrow> jello_vm \<Rightarrow> u32 \<Rightarrow> u64 \<Rightarrow> u64 \<Rightarrow> (jello_vm \<times> addr) option" where
  "jello_abstract_new_finalized malloc vm type_id payload finalizer =
     new_obj malloc vm 24 (OAbstract type_id payload finalizer)"

definition jello_abstract_new :: "alloc_fun \<Rightarrow> jello_vm \<Rightarrow> u32 \<Rightarrow> u64 \<Rightarrow> (jello_vm \<times> addr) option" where
  "jello_abstract_new malloc vm type_id payload = jello_abstract_new_finalized malloc vm type_id payload 0"

text \<open>\<open>sizeof(jello_function)\<close> is 32 and \<open>offsetof(jello_enum, fields)\<close> is 16. The lengths of lists passed in are the C
  arguments \<^verbatim>\<open>ncaps\<close>, \<^verbatim>\<open>raw_cap_size\<close> and \<^verbatim>\<open>nfields\<close>.\<close>

definition jello_function_new :: "alloc_fun \<Rightarrow> jello_vm \<Rightarrow> u32 \<Rightarrow> u32 \<Rightarrow> (jello_vm \<times> addr) option" where
  "jello_function_new malloc vm type_id func_index =
     new_obj malloc vm 32 (OFunction type_id func_index jello_make_null [])"

definition jello_closure_new ::
  "alloc_fun \<Rightarrow> jello_vm \<Rightarrow> u32 \<Rightarrow> u32 \<Rightarrow> jello_value list \<Rightarrow> (jello_vm \<times> addr) option" where
  "jello_closure_new malloc vm type_id func_index caps =
     new_obj malloc vm (32 + 8 * of_nat (length caps)) (OFunction type_id func_index jello_make_null caps)"

definition jello_closure_new_raw ::
  "alloc_fun \<Rightarrow> jello_vm \<Rightarrow> u32 \<Rightarrow> u32 \<Rightarrow> u32 \<Rightarrow> u8 list \<Rightarrow> (jello_vm \<times> addr) option" where
  "jello_closure_new_raw malloc vm type_id func_index ncaps raw_caps =
     new_obj malloc vm (32 + of_nat (length raw_caps)) (ORawClosure type_id func_index ncaps jello_make_null raw_caps)"

text \<open>\<open>None\<close> is also a read of something that is no function; the first test of the C code, for \<^verbatim>\<open>NULL\<close>, returns \<^verbatim>\<open>NULL\<close>.\<close>

definition jello_function_bind_this ::
  "alloc_fun \<Rightarrow> jello_vm \<Rightarrow> u32 \<Rightarrow> addr \<Rightarrow> jello_value \<Rightarrow> (jello_vm \<times> addr) option" where
  "jello_function_bind_this malloc vm type_id f bound_this =
     (if f = 0 then Some (vm, 0)
      else
        (case vm_heap vm f of
           None \<Rightarrow> None
         | Some b \<Rightarrow>
             (case b_obj b of
                ORawClosure _ func_index ncaps _ bs \<Rightarrow>
                  new_obj malloc vm (32 + of_nat (length bs)) (ORawClosure type_id func_index ncaps bound_this bs)
              | OFunction _ func_index _ caps \<Rightarrow>
                  new_obj malloc vm (32 + 8 * of_nat (length caps)) (OFunction type_id func_index bound_this caps)
              | _ \<Rightarrow> None)))"

text \<open>\<open>side n\<close> says whether the array data of \<open>n\<close> bytes could be allocated.\<close>

definition jello_array_new ::
  "alloc_fun \<Rightarrow> (u64 \<Rightarrow> bool) \<Rightarrow> jello_vm \<Rightarrow> u32 \<Rightarrow> u32 \<Rightarrow> (jello_vm \<times> addr) option" where
  "jello_array_new malloc side vm type_id len =
     (if len = 0 \<or> side (8 * ucast len) then
        new_obj malloc vm 24 (OArray type_id (replicate (unat len) jello_make_null))
      else None)"

definition jello_array_default_elem :: "jello_bc_module \<Rightarrow> u32 \<Rightarrow> jello_value" where
  "jello_array_default_elem m type_id =
     (if type_id < m_ntypes m \<and> te_kind (m_types m ! unat type_id) = JELLO_T_ARRAY \<and>
         te_as (m_types m ! unat type_id) < m_ntypes m then
        (let k = te_kind (m_types m ! unat (te_as (m_types m ! unat type_id))) in
         if k \<in> {JELLO_T_I8, JELLO_T_I16, JELLO_T_I32, JELLO_T_I64} then jello_make_i32 0
         else if k = JELLO_T_BOOL then jello_make_bool False
         else jello_make_null)
      else jello_make_null)"

text \<open>The elements after the call and its result; \<open>limit\<close> is \<^verbatim>\<open>max_array_len\<close>.\<close>

definition jello_array_resize ::
  "(u64 \<Rightarrow> bool) \<Rightarrow> u32 \<Rightarrow> jello_bc_module \<Rightarrow> u32 \<Rightarrow> jello_value list \<Rightarrow> u32 \<Rightarrow> jello_value list \<times> bool" where
  "jello_array_resize side limit m type_id vs new_len =
     (if limit \<noteq> 0 \<and> limit < new_len then (vs, False)
      else if unat new_len = length vs then (vs, True)
      else if new_len = 0 then ([], True)
      else if \<not> side (ucast new_len * 8) then (vs, False)
      else (take (unat new_len) vs @ replicate (unat new_len - length vs) (jello_array_default_elem m type_id), True))"

definition jello_enum_new ::
  "alloc_fun \<Rightarrow> jello_vm \<Rightarrow> u32 \<Rightarrow> u32 \<Rightarrow> jello_value list \<Rightarrow> (jello_vm \<times> addr) option" where
  "jello_enum_new malloc vm type_id tag fields' =
     new_obj malloc vm (16 + 8 * of_nat (length fields')) (OEnum type_id tag fields')"

definition ENUM_NULLARY_TAGS :: u32 where "ENUM_NULLARY_TAGS = 256"

definition vm_enum_nullary_cache_clear :: "jello_vm \<Rightarrow> jello_vm" where
  "vm_enum_nullary_cache_clear vm = vm\<lparr>enum_nullary_by_type := []\<rparr>"

definition vm_enum_nullary_cache_init :: "jello_vm \<Rightarrow> u32 \<Rightarrow> jello_vm" where
  "vm_enum_nullary_cache_init vm ntypes = (vm_enum_nullary_cache_clear vm)\<lparr>enum_nullary_by_type := replicate (unat ntypes) None\<rparr>"

text \<open>The slots of a new table.\<close>

definition no_slots :: "addr list" where "no_slots = replicate 256 0"

text \<open>The table of a type, allocated on first use, and the machine with it; \<open>None\<close> is \<^verbatim>\<open>NULL\<close>.\<close>

definition enum_nullary_type_table :: "jello_vm \<Rightarrow> u32 \<Rightarrow> (jello_vm \<times> addr list) option" where
  "enum_nullary_type_table vm type_id =
     (if length (enum_nullary_by_type vm) \<le> unat type_id then None
      else
        (case enum_nullary_by_type vm ! unat type_id of
           Some slots \<Rightarrow> Some (vm, slots)
         | None \<Rightarrow>
             (let slots = no_slots in
              Some (vm\<lparr>enum_nullary_by_type := (enum_nullary_by_type vm)[unat type_id := Some slots]\<rparr>, slots))))"

definition store_nullary :: "jello_vm \<Rightarrow> u32 \<Rightarrow> u32 \<Rightarrow> addr \<Rightarrow> jello_vm" where
  "store_nullary vm type_id tag e =
     vm\<lparr>enum_nullary_by_type := (enum_nullary_by_type vm)[unat type_id :=
       map_option (\<lambda>slots. slots[unat tag := e]) (enum_nullary_by_type vm ! unat type_id)]\<rparr>"

definition jello_enum_nullary_intern ::
  "alloc_fun \<Rightarrow> jello_vm \<Rightarrow> u32 \<Rightarrow> u32 \<Rightarrow> (jello_vm \<times> addr) option" where
  "jello_enum_nullary_intern malloc vm type_id tag =
     (if ENUM_NULLARY_TAGS \<le> tag then jello_enum_new malloc vm type_id tag []
      else
        (case enum_nullary_type_table vm type_id of
           None \<Rightarrow> jello_enum_new malloc vm type_id tag []
         | Some (vm, slots) \<Rightarrow>
             if slots ! unat tag \<noteq> 0 then Some (vm, slots ! unat tag)
             else map_option (\<lambda>(vm, e). (store_nullary vm type_id tag e, e)) (jello_enum_new malloc vm type_id tag [])))"

section \<open>New objects\<close>

text \<open>The machine \<open>vm'\<close> is \<open>vm\<close> with a new object \<open>ob\<close> at \<open>a\<close>: nothing that was live has changed, and the new object is not
  live before somebody refers to it.\<close>

definition made :: "jello_vm \<Rightarrow> heap_obj \<Rightarrow> jello_vm \<Rightarrow> addr \<Rightarrow> bool" where
  "made vm ob vm' a \<longleftrightarrow> gc_wf vm' \<and> live vm' = live vm \<and> root_ptrs vm' = root_ptrs vm \<and> a \<notin> live vm \<and> a \<noteq> 0 \<and>
     a \<in> set (gc_objects vm') \<and> map_option b_obj (vm_heap vm' a) = Some ob \<and>
     (\<forall>x. x \<in> live vm \<longrightarrow> vm_heap vm' x = vm_heap vm x)"

text \<open>A constructor makes the object or runs out of memory.\<close>

definition makes :: "alloc_fun \<Rightarrow> jello_vm \<Rightarrow> heap_obj \<Rightarrow> (jello_vm \<times> addr) option \<Rightarrow> bool" where
  "makes malloc vm ob r \<longleftrightarrow>
     (case r of None \<Rightarrow> \<exists>h n. malloc h n = None | Some (vm', a) \<Rightarrow> made vm ob vm' a)"

lemma put_obj_simps [simp]:
  "gc_objects (put_obj vm a ob) = gc_objects vm" "gc_box_free (put_obj vm a ob) = gc_box_free vm"
  "root_ptrs (put_obj vm a ob) = root_ptrs vm" "gc_bytes_live (put_obj vm a ob) = gc_bytes_live vm"
  "freelist_ok (put_obj vm a ob) = freelist_ok vm" "dom (vm_heap (put_obj vm a ob)) = dom (vm_heap vm)"
  "marked (vm_heap (put_obj vm a ob)) = marked (vm_heap vm)" "size_at (vm_heap (put_obj vm a ob)) = size_at (vm_heap vm)"
  "x \<noteq> a \<Longrightarrow> vm_heap (put_obj vm a ob) x = vm_heap vm x"
  "vm_heap (put_obj vm a ob) a = map_option (\<lambda>b. b\<lparr>b_obj := ob\<rparr>) (vm_heap vm a)"
  "enum_nullary_by_type (put_obj vm a ob) = enum_nullary_by_type vm"
  by (auto simp: put_obj_def freelist_ok_def marked_def size_at_def dom_def fun_eq_iff split: option.splits)

lemma put_obj_live:
  assumes "gc_wf vm" "a \<notin> live vm"
  shows "live (put_obj vm a ob) = live vm"
  unfolding live_def put_obj_simps
proof (rule reachable_cong)
  fix p b assume "p \<in> reachable (vm_heap vm) (root_ptrs vm)" "vm_heap vm p = Some b"
  then show "\<exists>b'. vm_heap (put_obj vm a ob) p = Some b' \<and> b_obj b' = b_obj b"
    using assms(2) by (cases "p = a") (auto simp: live_def)
qed (use assms(1) in \<open>auto simp: gc_wf_def live_def\<close>)

lemma put_obj_wf:
  assumes "gc_wf vm" "a \<notin> live vm"
  shows "gc_wf (put_obj vm a ob)"
  using gc_wfD [OF assms(1)] unfolding gc_wf_def put_obj_simps put_obj_live [OF assms] by blast

lemma new_obj_makes:
  assumes "gc_wf vm" "malloc_ok malloc"
  shows "makes malloc vm ob (new_obj malloc vm n ob)"
proof (cases "jello_gc_alloc malloc vm n")
  case None
  then show ?thesis using alloc_ok [OF assms, of n] by (auto simp: makes_def new_obj_def jello_gc_alloc_def)
next
  case (Some r)
  then obtain vm1 a where r: "r = (vm1, a)" and al: "allocated vm n vm1 a"
    using alloc_ok [OF assms, of n] by (auto simp: jello_gc_alloc_def)
  then have w: "gc_wf vm1" "a \<notin> live vm1" "a \<in> dom (vm_heap vm1)" by (auto simp: allocated_def gc_wf_def)
  have "vm_heap (put_obj vm1 a ob) x = vm_heap vm x" if "x \<in> live vm" for x
    using that al by (cases "x = a") (auto simp: allocated_def)
  then have "made vm ob (put_obj vm1 a ob) a"
    using al w(3) put_obj_wf [OF w(1,2), of ob] put_obj_live [OF w(1,2), of ob] by (auto simp: made_def allocated_def)
  then show ?thesis by (simp add: makes_def new_obj_def Some r)
qed

text \<open>Every constructor either runs out of memory or returns a new object with exactly the given fields: the object
  was not live before, and every live object keeps its address and contents.\<close>

theorem constructors_make_objects:
  assumes "gc_wf vm" "malloc_ok malloc"
  shows "makes malloc vm (OBoxI64 t v) (jello_box_i64_new malloc vm t v) \<and>
    makes malloc vm (OBoxF64 t v) (jello_box_f64_new malloc vm t v) \<and>
    makes malloc vm (OBoxF32 t w) (jello_box_f32_new malloc vm t w) \<and>
    makes malloc vm (OBoxF16 t u) (jello_box_f16_new malloc vm t u) \<and>
    makes malloc vm (OBytes t (replicate (unat len) 0)) (jello_bytes_new malloc vm t len) \<and>
    makes malloc vm (OList t head tail) (jello_list_cons malloc vm t head tail) \<and>
    makes malloc vm (OArray t (replicate (unat len) jello_make_null)) (jello_array_new malloc (\<lambda>_. True) vm t len) \<and>
    makes malloc vm (OEnum t tag vs) (jello_enum_new malloc vm t tag vs) \<and>
    makes malloc vm (OFunction t f jello_make_null []) (jello_function_new malloc vm t f) \<and>
    makes malloc vm (OFunction t f jello_make_null vs) (jello_closure_new malloc vm t f vs) \<and>
    makes malloc vm (ORawClosure t f ncaps jello_make_null bs) (jello_closure_new_raw malloc vm t f ncaps bs) \<and>
    makes malloc vm (OAbstract t payload fin) (jello_abstract_new_finalized malloc vm t payload fin)"
  unfolding jello_box_i64_new_def jello_box_f64_new_def jello_box_f32_new_def jello_box_f16_new_def jello_bytes_new_def
    jello_list_cons_def jello_array_new_def jello_enum_new_def jello_function_new_def jello_closure_new_def
    jello_closure_new_raw_def jello_abstract_new_finalized_def
  by (simp add: new_obj_makes [OF assms])

lemma constructors_make_objects_witness:
  "\<exists>vm' a. jello_list_cons some_malloc gc_demo 0 (jello_make_i32 4) 64 = Some (vm', a) \<and>
     made gc_demo (OList 0 (jello_make_i32 4) 64) vm' a"
proof -
  have "jello_list_cons some_malloc gc_demo 0 (jello_make_i32 4) 64 \<noteq> None" by code_simp
  then show ?thesis
    using constructors_make_objects [OF gc_demo_wf some_malloc_ok, of 0 _ _ _ _ "jello_make_i32 4" 64] by (auto simp: makes_def)
qed

section \<open>Interned enum values\<close>

lemma release_keeps_enums: "enum_nullary_by_type (release_block vm a b) = enum_nullary_by_type vm"
  by (cases "b_obj b") (simp_all add: release_block_def gc_box_free_push_def gc_free_def Let_def)

lemma sweep_keeps_enums:
  "sweep_loop vm as n = Some (vm', keep, m) \<Longrightarrow> enum_nullary_by_type vm' = enum_nullary_by_type vm"
  by (induction vm as n arbitrary: vm' keep m rule: sweep_loop.induct)
    (auto simp: release_keeps_enums split: option.splits if_splits)

lemma collect_keeps_enums: "jello_gc_collect vm = Some vm' \<Longrightarrow> enum_nullary_by_type vm' = enum_nullary_by_type vm"
  by (auto simp: jello_gc_collect_def Let_def bind_eq_Some_conv dest!: sweep_keeps_enums)

lemma alloc_keeps_enums:
  assumes "jello_gc_alloc_recycled malloc vm n = Some (vm', a, r)"
  shows "enum_nullary_by_type vm' = enum_nullary_by_type vm"
proof -
  obtain vm1 where 1: "(if gc_next_collect vm \<noteq> 0 \<and> gc_bytes_live vm \<ge> gc_next_collect vm then jello_gc_collect vm
      else Some vm) = Some vm1"
    using assms by (fastforce simp: jello_gc_alloc_recycled_def Let_def bind_eq_Some_conv)
  then have "enum_nullary_by_type vm1 = enum_nullary_by_type vm" using collect_keeps_enums by (auto split: if_splits)
  then show ?thesis using assms 1
    by (auto simp: jello_gc_alloc_recycled_def gc_box_free_pop_def link_block_def Let_def split: option.splits)
qed

lemma new_obj_keeps_enums: "new_obj malloc vm n ob = Some (vm', a) \<Longrightarrow> enum_nullary_by_type vm' = enum_nullary_by_type vm"
  using alloc_keeps_enums by (fastforce simp: new_obj_def jello_gc_alloc_def)

text \<open>Reachability only depends on the roots that are not \<^verbatim>\<open>NULL\<close>.\<close>

lemma reachable_roots:
  assumes "set roots' - {0} = set roots - {0}"
  shows "reachable h roots' = reachable h roots"
proof -
  have "p \<in> reachable h b" if "p \<in> reachable h a" "set a - {0} = set b - {0}" for p a b
    using that(1)
  proof induction
    case (root p)
    then have "p \<in> set b" using that(2) by blast
    then show ?case using root(2) by (rule reachable.root)
  qed (rule reachable.field)
  then show ?thesis using assms by blast
qed

lemma reachable_new_root:
  assumes "set roots' - {0} = insert e (set roots - {0})" "h e = Some b" "obj_ptrs (b_obj b) = []" "e \<noteq> 0"
  shows "reachable h roots' = insert e (reachable h roots)"
proof (intro equalityI subsetI)
  fix p assume "p \<in> reachable h roots'"
  then show "p \<in> insert e (reachable h roots)"
  proof induction
    case (root p)
    then have "p = e \<or> p \<in> set roots" using assms(1) by blast
    then show ?case using root(2) by (auto intro: reachable.root)
  next
    case (field p b' q)
    then show ?case using assms(2,3) by (auto intro: reachable.field)
  qed
next
  fix p assume "p \<in> insert e (reachable h roots)"
  moreover have "p \<in> reachable h roots'" if "p \<in> reachable h roots"
    using that
  proof induction
    case (root p)
    then have "p \<in> set roots'" using assms(1) by blast
    then show ?case using root(2) by (rule reachable.root)
  qed (rule reachable.field)
  moreover have "e \<in> set roots'" using assms(1) by blast
  ultimately show "p \<in> reachable h roots'" using assms(4) by (auto intro: reachable.root)
qed
text \<open>Every table has a slot for each small tag, and a slot that is set holds the value without fields of its type and tag.\<close>

definition slot_ok :: "heap \<Rightarrow> nat \<Rightarrow> nat \<Rightarrow> addr \<Rightarrow> bool" where
  "slot_ok h t g e \<longleftrightarrow> e = 0 \<or> map_option b_obj (h e) = Some (OEnum (of_nat t) (of_nat g) [])"

definition enums_ok :: "jello_vm \<Rightarrow> bool" where
  "enums_ok vm \<longleftrightarrow>
     (\<forall>t<length (enum_nullary_by_type vm). \<forall>slots. enum_nullary_by_type vm ! t = Some slots \<longrightarrow>
        length slots = 256 \<and> (\<forall>g<256. slot_ok (vm_heap vm) t g (slots ! g)))"

lemma enum_slot_live:
  assumes "t < length (enum_nullary_by_type vm)" "enum_nullary_by_type vm ! t = Some slots" "g < length slots" "slots ! g \<noteq> 0"
  shows "slots ! g \<in> live vm"
proof -
  have "Some slots \<in> set (enum_nullary_by_type vm)" using assms(1,2) by (metis nth_mem)
  then have "slots ! g \<in> set (root_ptrs vm)" using assms(3) by (force simp: root_ptrs_def)
  then show ?thesis unfolding live_def using assms(4) by (rule reachable.root)
qed

text \<open>The pointers of the tables.\<close>

abbreviation enum_ptrs :: "addr list option list \<Rightarrow> addr set" where
  "enum_ptrs ts \<equiv> set (concat (map (\<lambda>t. case t of None \<Rightarrow> [] | Some slots \<Rightarrow> slots) ts))"

lemma enum_ptrs_update:
  assumes "i < length ts"
  shows "enum_ptrs (ts[i := Some s]) = enum_ptrs (take i ts) \<union> set s \<union> enum_ptrs (drop (Suc i) ts)"
    "enum_ptrs ts = enum_ptrs (take i ts) \<union> (case ts ! i of None \<Rightarrow> {} | Some s \<Rightarrow> set s) \<union> enum_ptrs (drop (Suc i) ts)"
proof -
  show "enum_ptrs (ts[i := Some s]) = enum_ptrs (take i ts) \<union> set s \<union> enum_ptrs (drop (Suc i) ts)"
    using assms by (simp add: upd_conv_take_nth_drop Un_assoc)
  have "enum_ptrs ts = enum_ptrs (take i ts @ ts ! i # drop (Suc i) ts)" using assms by (simp add: id_take_nth_drop [symmetric])
  then show "enum_ptrs ts = enum_ptrs (take i ts) \<union> (case ts ! i of None \<Rightarrow> {} | Some s \<Rightarrow> set s) \<union> enum_ptrs (drop (Suc i) ts)"
    by (simp add: Un_assoc split: option.splits)
qed

lemma root_ptrs_enums:
  obtains rs where "set (root_ptrs vm) = rs \<union> enum_ptrs (enum_nullary_by_type vm)"
    "\<And>ts. set (root_ptrs (vm\<lparr>enum_nullary_by_type := ts\<rparr>)) = rs \<union> enum_ptrs ts"
  by (rule that [of "set (root_ptrs (vm\<lparr>enum_nullary_by_type := []\<rparr>))"]) (auto simp: root_ptrs_def)

lemma gc_wf_enums:
  assumes "gc_wf vm" "live (vm\<lparr>enum_nullary_by_type := ts\<rparr>) \<subseteq> set (gc_objects vm)"
  shows "gc_wf (vm\<lparr>enum_nullary_by_type := ts\<rparr>)"
  using gc_wfD [OF assms(1)] assms(2) unfolding gc_wf_def by (auto simp: freelist_ok_def)

lemma no_slots [simp]: "length no_slots = 256" "k < 256 \<Longrightarrow> no_slots ! k = 0" "set no_slots = {0}"
  by (simp_all add: no_slots_def)

lemma enum_table_ok:
  assumes "gc_wf vm" "enums_ok vm" "unat t < length (enum_nullary_by_type vm)"
  obtains vm' slots where "enum_nullary_type_table vm t = Some (vm', slots)" "gc_wf vm'" "enums_ok vm'" "live vm' = live vm"
    "vm_heap vm' = vm_heap vm" "enum_nullary_by_type vm' ! unat t = Some slots"
    "length (enum_nullary_by_type vm') = length (enum_nullary_by_type vm)"
    "enum_nullary_by_type vm ! unat t = Some slots \<and> vm' = vm \<or> slots = no_slots"
proof (cases "enum_nullary_by_type vm ! unat t")
  case (Some slots)
  then show thesis using that [of vm slots] assms by (simp add: enum_nullary_type_table_def)
next
  case None
  let ?ts = "(enum_nullary_by_type vm)[unat t := Some (no_slots)]"
  let ?vm = "vm\<lparr>enum_nullary_by_type := ?ts\<rparr>"
  obtain rs where rs: "set (root_ptrs vm) = rs \<union> enum_ptrs (enum_nullary_by_type vm)"
    "\<And>ts. set (root_ptrs (vm\<lparr>enum_nullary_by_type := ts\<rparr>)) = rs \<union> enum_ptrs ts" using root_ptrs_enums [of vm] by metis
  have "set (root_ptrs ?vm) - {0} = set (root_ptrs vm) - {0}"
  proof -
    have "enum_ptrs ?ts - {0} = enum_ptrs (enum_nullary_by_type vm) - {0}"
      using enum_ptrs_update(1) [OF assms(3), of no_slots] enum_ptrs_update(2) [OF assms(3)] None by (simp only: no_slots option.case) blast
    then show ?thesis unfolding rs by blast
  qed
  then have lv: "live ?vm = live vm" unfolding live_def by (simp add: reachable_roots [of "root_ptrs ?vm" "root_ptrs vm"])
  have "gc_wf ?vm" using gc_wfD(5) [OF assms(1)] by (intro gc_wf_enums [OF assms(1)]) (simp only: lv)
  moreover have "enums_ok ?vm"
    using assms(2,3) by (auto simp: enums_ok_def nth_list_update slot_ok_def)
  moreover have "enum_nullary_type_table vm t = Some (?vm, no_slots)"
    using assms(3) by (simp only: enum_nullary_type_table_def None Let_def option.case not_le [symmetric] if_False simp_thms)
  moreover have "vm_heap ?vm = vm_heap vm" "enum_nullary_by_type ?vm ! unat t = Some no_slots"
    "length (enum_nullary_by_type ?vm) = length (enum_nullary_by_type vm)"
    using assms(3) by simp_all
  ultimately show thesis using lv by (intro that) blast+
qed

lemma store_nullary_ok:
  assumes "gc_wf vm" "enums_ok vm" "unat t < length (enum_nullary_by_type vm)" "unat g < 256"
    and "enum_nullary_by_type vm ! unat t = Some slots" "slots ! unat g = 0"
    and e: "e \<noteq> 0" "e \<in> set (gc_objects vm)" "map_option b_obj (vm_heap vm e) = Some (OEnum t g [])"
  shows "gc_wf (store_nullary vm t g e)" "enums_ok (store_nullary vm t g e)"
    "enum_nullary_by_type (store_nullary vm t g e) ! unat t = Some (slots[unat g := e])"
    "live vm \<subseteq> live (store_nullary vm t g e)" "e \<in> live (store_nullary vm t g e)"
proof -
  let ?ts = "(enum_nullary_by_type vm)[unat t := Some (slots[unat g := e])]"
  have vm': "store_nullary vm t g e = vm\<lparr>enum_nullary_by_type := ?ts\<rparr>" by (simp add: store_nullary_def assms(5))
  have len: "length slots = 256" using assms(2,3,5) by (auto simp: enums_ok_def)
  obtain rs where rs: "set (root_ptrs vm) = rs \<union> enum_ptrs (enum_nullary_by_type vm)"
    "\<And>ts. set (root_ptrs (vm\<lparr>enum_nullary_by_type := ts\<rparr>)) = rs \<union> enum_ptrs ts" using root_ptrs_enums [of vm] by metis
  have "set (slots[unat g := e]) - {0} = insert e (set slots - {0})"
  proof -
    have "set (slots[unat g := e]) = insert e (set (take (unat g) slots) \<union> set (drop (Suc (unat g)) slots))"
      using assms(4) len by (simp add: upd_conv_take_nth_drop)
    moreover have "set slots = insert 0 (set (take (unat g) slots) \<union> set (drop (Suc (unat g)) slots))"
      using assms(4,6) len id_take_nth_drop [of "unat g" slots] by (metis Un_insert_right list.simps(15) set_append)
    ultimately show ?thesis using e(1) by auto
  qed
  then have "set (root_ptrs (store_nullary vm t g e)) - {0} = insert e (set (root_ptrs vm) - {0})"
    unfolding vm' rs enum_ptrs_update(1) [OF assms(3)] using enum_ptrs_update(2) [OF assms(3)] assms(5) e(1) by auto
  moreover obtain b where "vm_heap vm e = Some b" "b_obj b = OEnum t g []" using e(3) by auto
  ultimately have lv: "live (store_nullary vm t g e) = insert e (live vm)"
    using reachable_new_root [of _ e _ "vm_heap vm" b] e(1) by (simp add: live_def vm')
  then show "live vm \<subseteq> live (store_nullary vm t g e)" "e \<in> live (store_nullary vm t g e)" by auto
  show "gc_wf (store_nullary vm t g e)"
    unfolding vm' by (rule gc_wf_enums [OF assms(1)]) (use lv e(2) gc_wfD(5) [OF assms(1)] in \<open>simp add: vm'\<close>)
  show "enum_nullary_by_type (store_nullary vm t g e) ! unat t = Some (slots[unat g := e])" using assms(3) by (simp add: vm')
  have "slot_ok (vm_heap vm) (unat t) k (slots[unat g := e] ! k)" if "k < 256" for k
  proof (cases "k = unat g")
    case True
    then show ?thesis using that len e(3) by (simp add: slot_ok_def)
  next
    case False
    then show ?thesis using that assms(2,3,5) unfolding enums_ok_def by auto
  qed
  then show "enums_ok (store_nullary vm t g e)"
    using assms(2,3) len by (auto simp: enums_ok_def vm' nth_list_update)
qed

text \<open>Both outcomes of interning: the object is in the table afterwards.\<close>

definition interned :: "jello_vm \<Rightarrow> u32 \<Rightarrow> u32 \<Rightarrow> addr \<Rightarrow> bool" where
  "interned vm t g e \<longleftrightarrow> gc_wf vm \<and> enums_ok vm \<and> unat t < length (enum_nullary_by_type vm) \<and> e \<noteq> 0 \<and>
     (\<exists>slots. enum_nullary_by_type vm ! unat t = Some slots \<and> slots ! unat g = e)"

lemma interned_again: "interned vm t g e \<Longrightarrow> g < 256 \<Longrightarrow> jello_enum_nullary_intern malloc vm t g = Some (vm, e)"
  by (auto simp: interned_def jello_enum_nullary_intern_def enum_nullary_type_table_def ENUM_NULLARY_TAGS_def)

lemma interned_live:
  assumes "interned vm t g e" "unat g < 256"
  shows "e \<in> live vm" "map_option b_obj (vm_heap vm e) = Some (OEnum t g [])"
proof -
  obtain slots where s: "enum_nullary_by_type vm ! unat t = Some slots" "slots ! unat g = e" and t: "unat t < length (enum_nullary_by_type vm)"
    and e: "e \<noteq> 0" using assms(1) by (auto simp: interned_def)
  have "length slots = 256" "slot_ok (vm_heap vm) (unat t) (unat g) (slots ! unat g)"
    using assms s(1) t by (auto simp: interned_def enums_ok_def)
  then show "e \<in> live vm" "map_option b_obj (vm_heap vm e) = Some (OEnum t g [])"
    using enum_slot_live [OF t s(1), of "unat g"] s(2) e assms(2) by (auto simp: slot_ok_def)
qed

lemma made_enums_ok:
  assumes "made vm ob vm' a" "enum_nullary_by_type vm' = enum_nullary_by_type vm" "enums_ok vm"
  shows "enums_ok vm'"
proof -
  have "slot_ok (vm_heap vm') t g (slots ! g)"
    if "t < length (enum_nullary_by_type vm)" "enum_nullary_by_type vm ! t = Some slots" "g < 256" for t slots g
  proof -
    have "length slots = 256" "slot_ok (vm_heap vm) t g (slots ! g)" using assms(3) that by (auto simp: enums_ok_def)
    then show ?thesis using enum_slot_live [OF that(1,2), of g] that(3) assms(1) by (auto simp: slot_ok_def made_def)
  qed
  then show ?thesis using assms(2,3) by (auto simp: enums_ok_def)
qed

lemma intern_interned:
  assumes "gc_wf vm" "enums_ok vm" "malloc_ok malloc" "unat t < length (enum_nullary_by_type vm)" "unat g < 256"
    and "jello_enum_nullary_intern malloc vm t g = Some (vm', e)"
  shows "interned vm' t g e \<and> (\<forall>x. x \<in> live vm \<longrightarrow> vm_heap vm' x = vm_heap vm x)"
proof -
  obtain vm1 slots where 1: "enum_nullary_type_table vm t = Some (vm1, slots)" "gc_wf vm1" "enums_ok vm1" "live vm1 = live vm"
    "vm_heap vm1 = vm_heap vm" "enum_nullary_by_type vm1 ! unat t = Some slots"
    "length (enum_nullary_by_type vm1) = length (enum_nullary_by_type vm)"
    using enum_table_ok [OF assms(1,2,4)] by metis
  have g: "\<not> ENUM_NULLARY_TAGS \<le> g" using assms(5) by (simp add: ENUM_NULLARY_TAGS_def word_le_nat_alt)
  show ?thesis
  proof (cases "slots ! unat g = 0")
    case False
    then show ?thesis using assms(4,6) 1 g by (auto simp: jello_enum_nullary_intern_def interned_def)
  next
    case True
    then obtain vm2 where 2: "jello_enum_new malloc vm1 t g [] = Some (vm2, e)" "vm' = store_nullary vm2 t g e"
      using assms(6) 1(1) g by (auto simp: jello_enum_nullary_intern_def)
    then have m: "made vm1 (OEnum t g []) vm2 e"
      using new_obj_makes [OF 1(2) assms(3), of "OEnum t g []" 16] by (simp add: jello_enum_new_def makes_def)
    have k: "enum_nullary_by_type vm2 = enum_nullary_by_type vm1" using 2(1) new_obj_keeps_enums by (auto simp: jello_enum_new_def)
    note s = store_nullary_ok [of vm2 t g slots e]
    have "gc_wf vm'" "enums_ok vm'" "enum_nullary_by_type vm' ! unat t = Some (slots[unat g := e])"
      unfolding 2(2) by (rule s; use m k 1 True assms(4,5) made_enums_ok [OF m k 1(3)] in \<open>auto simp: made_def\<close>)+
    moreover have "length slots = 256" using 1(3,6,7) assms(4) by (auto simp: enums_ok_def)
    moreover have "length (enum_nullary_by_type vm') = length (enum_nullary_by_type vm)" "vm_heap vm' = vm_heap vm2"
      using k 1(7) by (simp_all add: 2(2) store_nullary_def)
    ultimately show ?thesis using m 1(4,5) assms(4,5) by (auto simp: interned_def made_def)
  qed
qed

text \<open>An enum value without fields is interned: once \<^verbatim>\<open>jello_enum_nullary_intern\<close> has returned it for a type and a tag below 256, it
  returns the same object again, without allocating, also after a collection, which keeps the object; and
  that object has the type and the tag asked for. Comparing such values by address is therefore sound.\<close>

theorem enum_values_interned:
  assumes "gc_wf vm" "enums_ok vm" "malloc_ok malloc" "unat t < length (enum_nullary_by_type vm)" "unat g < 256"
    and "jello_enum_nullary_intern malloc vm t g = Some (vm1, e)"
  shows "jello_enum_nullary_intern malloc vm1 t g = Some (vm1, e) \<and>
    map_option b_obj (vm_heap vm1 e) = Some (OEnum t g []) \<and>
    (\<exists>vm2. jello_gc_collect vm1 = Some vm2 \<and> vm_heap vm2 e = vm_heap vm1 e \<and>
       jello_enum_nullary_intern malloc vm2 t g = Some (vm2, e))"
proof -
  have i: "interned vm1 t g e" using intern_interned [OF assms] by blast
  have g: "g < 256" using assms(5) by (simp add: word_less_nat_alt)
  have w: "gc_wf vm1" using i by (simp add: interned_def)
  obtain vm2 where c: "jello_gc_collect vm1 = Some vm2" "gc_wf vm2" "collected vm1 vm2" using collect_ok [OF w] by blast
  have h: "\<forall>x. x \<in> live vm1 \<longrightarrow> vm_heap vm2 x = vm_heap vm1 x" using c(3) by (simp add: collected_def)
  have k: "enum_nullary_by_type vm2 = enum_nullary_by_type vm1" by (rule collect_keeps_enums [OF c(1)])
  have "slot_ok (vm_heap vm2) t' k (slots ! k)"
    if "t' < length (enum_nullary_by_type vm1)" "enum_nullary_by_type vm1 ! t' = Some slots" "k < 256" for t' slots k
  proof -
    have "length slots = 256" "slot_ok (vm_heap vm1) t' k (slots ! k)" using i that by (auto simp: interned_def enums_ok_def)
    then show ?thesis using enum_slot_live [OF that(1,2), of k] that(3) h by (auto simp: slot_ok_def)
  qed
  then have "enums_ok vm2" using i k by (auto simp: interned_def enums_ok_def)
  then have "interned vm2 t g e" using i k c(2) by (auto simp: interned_def)
  then show ?thesis using interned_again [OF i g] interned_again [OF _ g] interned_live [OF i assms(5)] c(1) h by blast
qed

lemma enum_values_interned_witness:
  "\<exists>vm1 e. jello_enum_nullary_intern some_malloc (vm_enum_nullary_cache_init gc_demo 2) 1 3 = Some (vm1, e) \<and>
     jello_enum_nullary_intern some_malloc vm1 1 3 = Some (vm1, e)"
proof -
  let ?vm = "vm_enum_nullary_cache_init gc_demo 2"
  have "live ?vm = live gc_demo"
    by (simp add: live_def vm_enum_nullary_cache_init_def vm_enum_nullary_cache_clear_def root_ptrs_def)
      (simp add: gc_demo_def eval_nat_numeral)
  then have "gc_wf ?vm"
    using gc_wf_enums [OF gc_demo_wf, of "replicate 2 None"] gc_wfD(5) [OF gc_demo_wf]
    by (simp add: vm_enum_nullary_cache_init_def vm_enum_nullary_cache_clear_def)
  moreover have "enums_ok ?vm" by (simp add: enums_ok_def vm_enum_nullary_cache_init_def)
  moreover have "jello_enum_nullary_intern some_malloc ?vm 1 3 \<noteq> None" by code_simp
  then obtain vm1 e where "jello_enum_nullary_intern some_malloc ?vm 1 3 = Some (vm1, e)" by auto
  moreover have "unat (1 :: u32) < length (enum_nullary_by_type ?vm)" "unat (3 :: u32) < 256"
    by (simp_all add: vm_enum_nullary_cache_init_def)
  ultimately show ?thesis using enum_values_interned [OF _ _ some_malloc_ok] by metis
qed

end
