(* ===== verification/Jello_Copy.thy ===== *)
theory Jello_Copy
  imports Jello_Types
begin

text \<open>
  Values that cross from one virtual machine to another: copies between heaps (\<^verbatim>\<open>src/thread/value_copy.c\<close>), and the cells of a
  channel, which hold a value outside every heap, with the handles that several machines share
  (\<^verbatim>\<open>src/thread/channel.c\<close>). Results are \<open>None\<close> when the C code would read memory that is not allocated or runs out of memory on the
  heap; \<open>Some (vm, None)\<close> is the return value 0.

  The lemmas show that a copy has the contents of the original on a heap where nothing else that is live has changed,
  and that a shared handle is freed with its last reference.
\<close>

section \<open>Copies\<close>

definition is_immediate :: "jello_value \<Rightarrow> bool" where
  "is_immediate v \<longleftrightarrow> jello_is_null v \<or> jello_is_bool v \<or> jello_is_i32 v \<or> jello_is_atom v"

definition jello_value_is_copy_safe :: "heap \<Rightarrow> jello_value \<Rightarrow> bool option" where
  "jello_value_is_copy_safe h v =
     (if is_immediate v then Some True
      else if \<not> jello_is_ptr v then Some False
      else map_option (\<lambda>k. k \<in> {7, 9, 8, 10, 1}) (jello_obj_kind_of h v))"

definition boxed :: "(jello_vm \<times> addr) option \<Rightarrow> (jello_vm \<times> jello_value option) option" where
  "boxed r = map_option (\<lambda>(vm, a). (vm, Some (jello_from_ptr a))) r"

text \<open>\<^verbatim>\<open>jello_bytes_new\<close> and the \<^verbatim>\<open>memcpy\<close> into it.\<close>

definition new_bytes :: "alloc_fun \<Rightarrow> jello_vm \<Rightarrow> u32 \<Rightarrow> u8 list \<Rightarrow> (jello_vm \<times> addr) option" where
  "new_bytes malloc vm type_id bs =
     map_option (\<lambda>(vm, a). (put_obj vm a (OBytes type_id bs), a)) (jello_bytes_new malloc vm type_id (of_nat (length bs)))"

definition jello_value_copy_to_vm ::
  "alloc_fun \<Rightarrow> jello_vm \<Rightarrow> heap \<Rightarrow> jello_value \<Rightarrow> (jello_vm \<times> jello_value option) option" where
  "jello_value_copy_to_vm malloc dst h src =
     Option.bind (jello_value_is_copy_safe h src) (\<lambda>safe.
       if \<not> safe then Some (dst, None)
       else if is_immediate src then Some (dst, Some src)
       else
         (case object_of h src of
            Some (OBoxI64 t v) \<Rightarrow> boxed (jello_box_i64_new malloc dst t v)
          | Some (OBoxF32 t v) \<Rightarrow> boxed (jello_box_f32_new malloc dst t v)
          | Some (OBoxF64 t v) \<Rightarrow> boxed (jello_box_f64_new malloc dst t v)
          | Some (OBoxF16 t v) \<Rightarrow> boxed (jello_box_f16_new malloc dst t v)
          | Some (OBytes t bs) \<Rightarrow> boxed (new_bytes malloc dst t bs)
          | _ \<Rightarrow> Some (dst, None)))"

section \<open>Channel cells\<close>

datatype jello_channel_cell =
    CELL_NULL | CELL_BOOL u32 | CELL_I32 u32 | CELL_ATOM u32 | CELL_I64 u64 | CELL_F32 u32 | CELL_F64 u64 | CELL_F16 u32
  | CELL_BYTES "u8 list"

text \<open>\<open>mem n\<close> says whether \<^verbatim>\<open>malloc(n)\<close> succeeds; the result \<open>Some None\<close> is the return value 0.\<close>

definition channel_cell_from_value :: "(nat \<Rightarrow> bool) \<Rightarrow> heap \<Rightarrow> jello_value \<Rightarrow> jello_channel_cell option option" where
  "channel_cell_from_value mem h v =
     Option.bind (jello_value_is_copy_safe h v) (\<lambda>safe.
       if \<not> safe then Some None
       else if jello_is_null v then Some (Some CELL_NULL)
       else if jello_is_bool v then Some (Some (CELL_BOOL (if jello_as_bool v then 1 else 0)))
       else if jello_is_i32 v then Some (Some (CELL_I32 (jello_as_i32 v)))
       else if jello_is_atom v then Some (Some (CELL_ATOM (jello_as_atom v)))
       else
         (case object_of h v of
            Some (OBoxI64 t x) \<Rightarrow> Some (Some (CELL_I64 x))
          | Some (OBoxF32 t x) \<Rightarrow> Some (Some (CELL_F32 x))
          | Some (OBoxF64 t x) \<Rightarrow> Some (Some (CELL_F64 x))
          | Some (OBoxF16 t x) \<Rightarrow> Some (Some (CELL_F16 (ucast x)))
          | Some (OBytes t bs) \<Rightarrow> if bs = [] \<or> mem (length bs) then Some (Some (CELL_BYTES bs)) else Some None
          | _ \<Rightarrow> Some None))"

definition channel_cell_to_value ::
  "alloc_fun \<Rightarrow> jello_vm \<Rightarrow> jello_channel_cell \<Rightarrow> (jello_vm \<times> jello_value option) option" where
  "channel_cell_to_value malloc vm c =
     (case c of
        CELL_NULL \<Rightarrow> Some (vm, Some jello_make_null)
      | CELL_BOOL w \<Rightarrow> Some (vm, Some (jello_make_bool (w \<noteq> 0)))
      | CELL_I32 w \<Rightarrow> Some (vm, Some (jello_make_i32 w))
      | CELL_ATOM w \<Rightarrow> Some (vm, Some (jello_make_atom w))
      | CELL_I64 w \<Rightarrow> boxed (jello_box_i64_new malloc vm 0 w)
      | CELL_F32 w \<Rightarrow> boxed (jello_box_f32_new malloc vm 0 w)
      | CELL_F64 w \<Rightarrow> boxed (jello_box_f64_new malloc vm 0 w)
      | CELL_F16 w \<Rightarrow> boxed (jello_box_f16_new malloc vm 0 (ucast w))
      | CELL_BYTES bs \<Rightarrow> boxed (new_bytes malloc vm 0 bs))"

section \<open>Shared handles\<close>

text \<open>The handles (\<^verbatim>\<open>jello_channel_user\<close>) by their address; an address without one holds memory whose first word is not the
  magic number. A channel is its address, \<open>0\<close> for \<^verbatim>\<open>NULL\<close>; \<open>freed_channels\<close> collects the channels freed.\<close>

record jello_channel_user =
  u_refs :: u32
  u_channel :: u64

record channel_users =
  users :: "u64 \<rightharpoonup> jello_channel_user"
  freed_channels :: "u64 list"

definition channel_user_release :: "channel_users \<Rightarrow> u64 \<Rightarrow> channel_users" where
  "channel_user_release us p =
     (case users us p of
        None \<Rightarrow> us
      | Some u \<Rightarrow>
          if u_refs u = 0 then us
          else if 0 < u_refs u - 1 then us\<lparr>users := (users us)(p \<mapsto> u\<lparr>u_refs := u_refs u - 1\<rparr>)\<rparr>
          else us\<lparr>users := (users us)(p := None),
                  freed_channels := (if u_channel u \<noteq> 0 then freed_channels us @ [u_channel u] else freed_channels us)\<rparr>)"

text \<open>The address of the new handle is an argument; \<open>0\<close> when \<^verbatim>\<open>calloc\<close> fails.\<close>

definition channel_user_new :: "channel_users \<Rightarrow> u64 \<Rightarrow> u64 \<Rightarrow> channel_users" where
  "channel_user_new us p ch = us\<lparr>users := (users us)(p \<mapsto> \<lparr>u_refs = 1, u_channel = ch\<rparr>)\<rparr>"

definition channel_user_from_abstract :: "channel_users \<Rightarrow> heap \<Rightarrow> jello_value \<Rightarrow> u64 option option" where
  "channel_user_from_abstract us h v =
     (if \<not> jello_is_ptr v then Some None
      else
        (case object_of h v of
           None \<Rightarrow> None
         | Some (OAbstract t payload fin) \<Rightarrow>
             (case users us payload of
                Some u \<Rightarrow> Some (if payload \<noteq> 0 \<and> u_channel u \<noteq> 0 then Some payload else None)
              | None \<Rightarrow> Some None)
         | Some _ \<Rightarrow> Some None))"

definition channel_user_finalizer :: u64 where "channel_user_finalizer = 1"

definition jello_channel_abstract_new ::
  "alloc_fun \<Rightarrow> channel_users \<Rightarrow> jello_vm \<Rightarrow> u64 \<Rightarrow> u64 \<Rightarrow> (channel_users \<times> jello_vm \<times> jello_value) option" where
  "jello_channel_abstract_new malloc us vm p ch =
     (if ch = 0 then Some (us, vm, jello_make_null)
      else if p = 0 then Some (us\<lparr>freed_channels := freed_channels us @ [ch]\<rparr>, vm, jello_make_null)
      else
        map_option (\<lambda>(vm, a). (channel_user_new us p ch, vm, jello_from_ptr a))
          (jello_abstract_new_finalized malloc vm 0 p channel_user_finalizer))"

definition channel_user_retain :: "channel_users \<Rightarrow> u64 \<Rightarrow> channel_users" where
  "channel_user_retain us p = us\<lparr>users := (users us)(p := map_option (\<lambda>u. u\<lparr>u_refs := u_refs u + 1\<rparr>) (users us p))\<rparr>"

definition jello_channel_abstract_share ::
  "alloc_fun \<Rightarrow> channel_users \<Rightarrow> jello_vm \<Rightarrow> heap \<Rightarrow> jello_value \<Rightarrow> (channel_users \<times> jello_vm \<times> jello_value option) option" where
  "jello_channel_abstract_share malloc us dst h src =
     Option.bind (channel_user_from_abstract us h src) (\<lambda>found.
       case found of
         None \<Rightarrow> Some (us, dst, None)
       | Some p \<Rightarrow>
           map_option (\<lambda>(vm, a). (channel_user_retain us p, vm, Some (jello_from_ptr a)))
             (jello_abstract_new_finalized malloc dst 0 p channel_user_finalizer))"

section \<open>What threads may capture\<close>

definition jello_value_is_thread_shareable :: "channel_users \<Rightarrow> heap \<Rightarrow> jello_value \<Rightarrow> bool option" where
  "jello_value_is_thread_shareable us h v =
     Option.bind (jello_value_is_copy_safe h v) (\<lambda>safe.
       if safe then Some True else map_option (\<lambda>p. p \<noteq> None) (channel_user_from_abstract us h v))"

definition jello_value_is_thread_cap_safe :: "channel_users \<Rightarrow> heap \<Rightarrow> jello_value \<Rightarrow> bool option" where
  "jello_value_is_thread_cap_safe us h v =
     Option.bind (jello_value_is_thread_shareable us h v) (\<lambda>s.
       if s then Some True
       else if \<not> jello_is_ptr v then Some False
       else
         (case object_of h v of
            None \<Rightarrow> None
          | Some (OFunction t f this caps) \<Rightarrow> Some (caps = [] \<and> \<not> jello_bound_this_is_set this)
          | Some (ORawClosure t f ncaps this bs) \<Rightarrow> Some (ncaps = 0 \<and> \<not> jello_bound_this_is_set this)
          | Some _ \<Rightarrow> Some False))"

fun caps_ok :: "channel_users \<Rightarrow> heap \<Rightarrow> jello_value list \<Rightarrow> bool option" where
  "caps_ok us h [] = Some True"
| "caps_ok us h (v # vs) =
     Option.bind (jello_value_is_thread_cap_safe us h v) (\<lambda>s. if s then caps_ok us h vs else Some False)"

text \<open>A value that is no function.\<close>

type_synonym sharing = "(channel_users \<times> jello_vm \<times> jello_value option) option"

definition share_plain :: "alloc_fun \<Rightarrow> channel_users \<Rightarrow> jello_vm \<Rightarrow> heap \<Rightarrow> jello_value \<Rightarrow> sharing" where
  "share_plain malloc us dst h src =
     Option.bind (channel_user_from_abstract us h src) (\<lambda>found.
       if found \<noteq> None then jello_channel_abstract_share malloc us dst h src
       else map_option (\<lambda>(vm, v). (us, vm, v)) (jello_value_copy_to_vm malloc dst h src))"

text \<open>Functions with their captures, which may be functions again: \<open>n\<close> bounds the depth of that recursion, and \<open>None\<close> at depth 0 is
  the exhausted C stack. \<open>share_caps\<close> is the loop over the captures.\<close>

function jello_function_share_to_vm :: "alloc_fun \<Rightarrow> heap \<Rightarrow> nat \<Rightarrow> channel_users \<Rightarrow> jello_vm \<Rightarrow> addr \<Rightarrow> sharing"
  and share_caps :: "alloc_fun \<Rightarrow> heap \<Rightarrow> nat \<Rightarrow> channel_users \<Rightarrow> jello_vm \<Rightarrow> jello_value list \<Rightarrow>
    (channel_users \<times> jello_vm \<times> jello_value list option) option" where
  "jello_function_share_to_vm malloc h 0 us dst p = None"
| "jello_function_share_to_vm malloc h (Suc n) us dst p =
     (case map_option b_obj (h p) of
        Some (ORawClosure t f ncaps this bs) \<Rightarrow>
          if jello_bound_this_is_set this then Some (us, dst, None)
          else map_option (\<lambda>(vm, v). (us, vm, v)) (boxed (jello_closure_new_raw malloc dst t f ncaps bs))
      | Some (OFunction t f this caps) \<Rightarrow>
          if jello_bound_this_is_set this then Some (us, dst, None)
          else if caps = [] then map_option (\<lambda>(vm, v). (us, vm, v)) (boxed (jello_function_new malloc dst t f))
          else
            Option.bind (share_caps malloc h n us dst caps) (\<lambda>(us, dst, r).
              case r of
                None \<Rightarrow> Some (us, dst, None)
              | Some vs \<Rightarrow> map_option (\<lambda>(vm, v). (us, vm, v)) (boxed (jello_closure_new malloc dst t f vs)))
      | _ \<Rightarrow> None)"
| "share_caps malloc h n us dst [] = Some (us, dst, Some [])"
| "share_caps malloc h n us dst (v # vs) =
     Option.bind (is_kind 2 h v) (\<lambda>fn.
     Option.bind (if fn then jello_function_share_to_vm malloc h n us dst (jello_as_ptr v) else share_plain malloc us dst h v)
       (\<lambda>(us, dst, r).
         case r of
           None \<Rightarrow> Some (us, dst, None)
         | Some w \<Rightarrow> map_option (\<lambda>(us, dst, ws). (us, dst, map_option ((#) w) ws)) (share_caps malloc h n us dst vs)))"
  by pat_completeness auto
termination
  by (relation "measures [\<lambda>x. case x of Inl (_, _, n, _) \<Rightarrow> 2 * n | Inr (_, _, n, _) \<Rightarrow> 2 * n + 1,
       \<lambda>x. case x of Inl _ \<Rightarrow> 0 | Inr (_, _, _, _, _, vs) \<Rightarrow> length vs]") auto

definition jello_value_share_to_vm :: "alloc_fun \<Rightarrow> heap \<Rightarrow> nat \<Rightarrow> channel_users \<Rightarrow> jello_vm \<Rightarrow> jello_value \<Rightarrow> sharing" where
  "jello_value_share_to_vm malloc h n us dst src =
     Option.bind (channel_user_from_abstract us h src) (\<lambda>found.
       if found \<noteq> None then jello_channel_abstract_share malloc us dst h src
       else
         Option.bind (is_kind 2 h src) (\<lambda>fn.
           if fn then jello_function_share_to_vm malloc h n us dst (jello_as_ptr src)
           else map_option (\<lambda>(vm, v). (us, vm, v)) (jello_value_copy_to_vm malloc dst h src)))"

text \<open>The loop of \<^verbatim>\<open>thread_worker_main\<close> over the arguments of a new thread, on the machine it has just created.\<close>

fun share_args :: "alloc_fun \<Rightarrow> heap \<Rightarrow> nat \<Rightarrow> channel_users \<Rightarrow> jello_vm \<Rightarrow> jello_value list \<Rightarrow>
    (channel_users \<times> jello_vm \<times> jello_value list option) option" where
  "share_args malloc h n us dst [] = Some (us, dst, Some [])"
| "share_args malloc h n us dst (v # vs) =
     Option.bind (jello_value_share_to_vm malloc h n us dst v) (\<lambda>(us, dst, r).
       case r of
         None \<Rightarrow> Some (us, dst, None)
       | Some w \<Rightarrow> map_option (\<lambda>(us, dst, ws). (us, dst, map_option ((#) w) ws)) (share_args malloc h n us dst vs))"

section \<open>What a new object looks like\<close>

lemma new_bytes_makes:
  assumes "gc_wf vm" "malloc_ok malloc"
  shows "makes malloc vm (OBytes t bs) (new_bytes malloc vm t bs)"
proof -
  let ?z = "OBytes t (replicate (unat (of_nat (length bs) :: u32)) 0)"
  have z: "makes malloc vm ?z (jello_bytes_new malloc vm t (of_nat (length bs)))"
    by (simp only: jello_bytes_new_def new_obj_makes [OF assms])
  show ?thesis
  proof (cases "jello_bytes_new malloc vm t (of_nat (length bs))")
    case None
    then show ?thesis using z by (simp add: makes_def new_bytes_def)
  next
    case (Some r)
    then obtain vm1 a where r: "r = (vm1, a)" and m: "made vm ?z vm1 a" using z by (cases r) (simp add: makes_def)
    then have w: "gc_wf vm1" "a \<notin> live vm1" "vm_heap vm1 a \<noteq> None" by (auto simp: made_def)
    have "vm_heap (put_obj vm1 a ob) x = vm_heap vm x" if "x \<in> live vm" for x ob
      using that m by (cases "x = a") (auto simp: made_def)
    then have "made vm (OBytes t bs) (put_obj vm1 a (OBytes t bs)) a"
      using m w(3) put_obj_wf [OF w(1,2)] put_obj_live [OF w(1,2)] by (auto simp: made_def)
    then show ?thesis by (simp add: makes_def new_bytes_def Some r)
  qed
qed

lemmas constructor_defs = jello_box_i64_new_def jello_box_f64_new_def jello_box_f32_new_def jello_box_f16_new_def

lemma boxed_made:
  assumes "makes malloc vm ob r" "boxed r = Some (vm', Some v)"
  shows "made vm ob vm' (jello_as_ptr v)" "object_of (vm_heap vm') v = Some ob"
  using assms by (auto simp: boxed_def makes_def made_def object_of_def)

text \<open>What the value \<open>w\<close> in the heap \<open>h'\<close> has in common with \<open>v\<close> in \<open>h\<close>: an immediate value is the same word, an object has the same
  type and fields.\<close>

definition same_contents :: "heap \<Rightarrow> jello_value \<Rightarrow> heap \<Rightarrow> jello_value \<Rightarrow> bool" where
  "same_contents h v h' w \<longleftrightarrow> (if is_immediate v then w = v else object_of h v \<noteq> None \<and> object_of h' w = object_of h v)"

text \<open>Copying a value to another machine either fails or gives a value with the same contents, type included, in a new
  object of its own; every live object of that machine stays as it was.\<close>

theorem copies_have_same_contents:
  assumes "gc_wf dst" "malloc_ok malloc" "jello_value_copy_to_vm malloc dst h src = Some (dst', Some v)"
  shows "same_contents h src (vm_heap dst') v \<and> gc_wf dst' \<and> live dst' = live dst \<and>
    (\<forall>x. x \<in> live dst \<longrightarrow> vm_heap dst' x = vm_heap dst x) \<and> (is_immediate src \<or> jello_as_ptr v \<notin> live dst)"
proof (cases "is_immediate src")
  case True
  then show ?thesis using assms(1,3) by (simp add: jello_value_copy_to_vm_def jello_value_is_copy_safe_def same_contents_def)
next
  case False
  have n: "makes malloc dst ob (new_obj malloc dst n ob)" for n ob by (rule new_obj_makes [OF assms(1,2)])
  have "\<exists>ob. object_of h src = Some ob \<and> made dst ob dst' (jello_as_ptr v) \<and> object_of (vm_heap dst') v = Some ob"
    using assms(3) False boxed_made [OF n] boxed_made [OF new_bytes_makes [OF assms(1,2)]]
    by (fastforce simp: jello_value_copy_to_vm_def bind_eq_Some_conv constructor_defs split: option.splits if_splits heap_obj.splits)
  then show ?thesis using False by (auto simp: same_contents_def made_def)
qed

section \<open>Through a channel\<close>

text \<open>\<^verbatim>\<open>malloc\<close> returns addresses aligned for every type, so that every block of the heap is, and an address is a pointer value.\<close>

definition malloc_aligned :: "alloc_fun \<Rightarrow> bool" where
  "malloc_aligned malloc \<longleftrightarrow> (\<forall>h n a. malloc h n = Some a \<longrightarrow> unat a mod 8 = 0)"

definition heap_aligned :: "jello_vm \<Rightarrow> bool" where
  "heap_aligned vm \<longleftrightarrow> (\<forall>a. a \<in> dom (vm_heap vm) \<longrightarrow> unat a mod 8 = 0)"

lemma alloc_aligned:
  assumes "gc_wf vm" "malloc_aligned malloc" "heap_aligned vm" "jello_gc_alloc malloc vm n = Some (vm', a)"
  shows "unat a mod 8 = 0"
proof -
  obtain vm1 where 1: "(if gc_next_collect vm \<noteq> 0 \<and> gc_bytes_live vm \<ge> gc_next_collect vm then jello_gc_collect vm
      else Some vm) = Some vm1"
    using assms(4) by (fastforce simp: jello_gc_alloc_def jello_gc_alloc_recycled_def Let_def bind_eq_Some_conv)
  have "set (gc_box_free vm1) \<subseteq> dom (vm_heap vm)"
  proof (cases "jello_gc_collect vm = Some vm1")
    case True
    then have "collected vm vm1" using collect_ok [OF assms(1)] by auto
    then show ?thesis using gc_wfD(2) [OF assms(1)] by (auto simp: collected_def)
  next
    case False
    then have "vm1 = vm" using 1 by (auto split: if_splits)
    then show ?thesis using gc_wfD(2) [OF assms(1)] by auto
  qed
  moreover have "a \<in> set (gc_box_free vm1) \<or> (\<exists>h n. malloc h n = Some a)"
    using assms(4) 1
    by (auto simp: jello_gc_alloc_def jello_gc_alloc_recycled_def gc_box_free_pop_def Let_def dest: freelist_take_Some split: option.splits)
  ultimately show ?thesis using assms(2,3) unfolding malloc_aligned_def heap_aligned_def by blast
qed

lemma new_obj_ptr:
  assumes "gc_wf vm" "malloc_aligned malloc" "heap_aligned vm" "new_obj malloc vm n ob = Some (vm', a)"
  shows "jello_is_ptr (jello_from_ptr a)"
  using alloc_aligned [OF assms(1-3)] assms(4) by (auto simp: new_obj_def is_ptr_aligned)

lemma new_bytes_ptr:
  assumes "gc_wf vm" "malloc_aligned malloc" "heap_aligned vm" "new_bytes malloc vm t bs = Some (vm', a)"
  shows "jello_is_ptr (jello_from_ptr a)"
  using new_obj_ptr [OF assms(1-3)] assms(4) by (auto simp: new_bytes_def jello_bytes_new_def)

lemma is_immediate_ptr: "jello_is_ptr v \<Longrightarrow> \<not> is_immediate v"
  using tags_exclusive(1) by (auto simp: is_immediate_def)

lemma cell_of_object:
  assumes "jello_is_ptr w" "object_of h w = Some ob"
  shows "channel_cell_from_value mem h w =
    (case ob of
       OBoxI64 t x \<Rightarrow> Some (Some (CELL_I64 x)) | OBoxF32 t x \<Rightarrow> Some (Some (CELL_F32 x)) | OBoxF64 t x \<Rightarrow> Some (Some (CELL_F64 x))
     | OBoxF16 t x \<Rightarrow> Some (Some (CELL_F16 (ucast x)))
     | OBytes t bs \<Rightarrow> if bs = [] \<or> mem (length bs) then Some (Some (CELL_BYTES bs)) else Some None
     | _ \<Rightarrow> Some None)"
  using assms tags_exclusive(1) [OF assms(1)] is_immediate_ptr [OF assms(1)]
  by (auto simp: channel_cell_from_value_def jello_value_is_copy_safe_def jello_obj_kind_of_def split: heap_obj.splits)

text \<open>The cell of a value is an immediate one or comes from an object.\<close>

lemma cell_cases:
  assumes "channel_cell_from_value mem h v = Some (Some c)"
  shows "c = CELL_NULL \<or> c = CELL_BOOL 0 \<or> c = CELL_BOOL 1 \<or> (\<exists>w. c = CELL_I32 w) \<or> (\<exists>w. c = CELL_ATOM w) \<or> (\<exists>w. c = CELL_I64 w) \<or>
    (\<exists>w. c = CELL_F32 w) \<or> (\<exists>w. c = CELL_F64 w) \<or> (\<exists>x :: u16. c = CELL_F16 (ucast x)) \<or>
    (\<exists>bs. c = CELL_BYTES bs \<and> (bs = [] \<or> mem (length bs)))"
  using assms
  by (auto simp: channel_cell_from_value_def bind_eq_Some_conv split: if_splits option.splits heap_obj.splits)

lemma ucast_u16_u32 [simp]: "ucast (ucast (x :: u16) :: u32) = x"
  by (rule bit_word_eqI) (simp add: bit_simps)

lemma cell_of_immediate:
  "channel_cell_from_value mem h jello_make_null = Some (Some CELL_NULL)"
  "channel_cell_from_value mem h (jello_make_bool b) = Some (Some (CELL_BOOL (if b then 1 else 0)))"
  "channel_cell_from_value mem h (jello_make_i32 w) = Some (Some (CELL_I32 w))"
  "channel_cell_from_value mem h (jello_make_atom w) = Some (Some (CELL_ATOM w))"
  by (simp_all add: channel_cell_from_value_def jello_value_is_copy_safe_def is_immediate_def)

section \<open>References to a handle\<close>

text \<open>A sequence of events of a handle: \<open>True\<close> shares it with another machine, \<open>False\<close> finalizes one of the values that refer to it.\<close>

fun handle_events :: "channel_users \<Rightarrow> u64 \<Rightarrow> bool list \<Rightarrow> channel_users" where
  "handle_events us p [] = us"
| "handle_events us p (e # es) = handle_events (if e then channel_user_retain us p else channel_user_release us p) p es"

abbreviation shares :: "bool list \<Rightarrow> nat" where "shares es \<equiv> length (filter (\<lambda>e. e) es)"
abbreviation releases :: "bool list \<Rightarrow> nat" where "releases es \<equiv> length (filter (\<lambda>e. \<not> e) es)"

lemma handle_events_refs:
  assumes "users us p = Some u" "\<And>k. k \<le> length es \<Longrightarrow> releases (take k es) < unat (u_refs u) + shares (take k es)"
    and "unat (u_refs u) + shares es < 2 ^ 32"
  shows "freed_channels (handle_events us p es) = freed_channels us \<and>
    (\<exists>u'. users (handle_events us p es) p = Some u' \<and> u_channel u' = u_channel u \<and>
       unat (u_refs u') + releases es = unat (u_refs u) + shares es)"
  using assms
proof (induction es arbitrary: us u)
  case Nil
  then show ?case by simp
next
  case (Cons e es)
  let ?us = "if e then channel_user_retain us p else channel_user_release us p"
  let ?u = "u\<lparr>u_refs := (if e then u_refs u + 1 else u_refs u - 1)\<rparr>"
  have one: "1 < unat (u_refs u)" if "\<not> e" using Cons.prems(2) [of 1] that by simp
  have r: "unat (u_refs ?u) = (if e then unat (u_refs u) + 1 else unat (u_refs u) - 1)"
  proof (cases e)
    case True
    then show ?thesis using Cons.prems(3) by (simp add: unat_word_ariths)
  next
    case False
    then have "u_refs u \<noteq> 0" using one by (auto simp: unat_eq_zero)
    then show ?thesis using False by (simp add: unat_minus_one)
  qed
  have u: "users ?us p = Some ?u" "freed_channels ?us = freed_channels us"
    using Cons.prems(1) one r
    by (cases e; auto simp: channel_user_retain_def channel_user_release_def word_less_nat_alt word_neq_0_conv)+
  have "releases (take k es) < unat (u_refs ?u) + shares (take k es)" if "k \<le> length es" for k
    using Cons.prems(2) [of "Suc k"] that r one by (auto split: if_splits)
  note ih = Cons.IH [OF u(1) this]
  show ?case
  proof (cases e)
    case True
    then show ?thesis using ih Cons.prems(3) r u(2) by simp
  next
    case False
    then have "unat (u_refs ?u) + shares es < 2 ^ 32" using r Cons.prems(3) by simp
    then obtain u' where "users (handle_events ?us p es) p = Some u'" "u_channel u' = u_channel u"
      "unat (u_refs u') + releases es = unat (u_refs ?u) + shares es" "freed_channels (handle_events ?us p es) = freed_channels us"
      using ih u(2) by auto
    then show ?thesis using False r one by auto
  qed
qed

text \<open>A channel handle lives as long as a value refers to it and no longer: in any sequence of shares and finalizations in which
  some value still refers to the handle, the handle is there with the exact number of references; the finalization of the last one frees
  the channel, once, and a further one changes nothing.\<close>

theorem channel_handle_freed_with_last_reference:
  assumes "users us p = Some \<lparr>u_refs = 1, u_channel = ch\<rparr>" "ch \<noteq> 0" "shares es < 2 ^ 32 - 1"
    and "\<And>k. k \<le> length es \<Longrightarrow> releases (take k es) \<le> shares (take k es)"
  shows "freed_channels (handle_events us p es) = freed_channels us \<and>
    map_option (\<lambda>u. unat (u_refs u)) (users (handle_events us p es) p) = Some (1 + shares es - releases es) \<and>
    (shares es = releases es \<longrightarrow>
       freed_channels (handle_events us p (es @ [False])) = freed_channels us @ [ch] \<and>
       users (handle_events us p (es @ [False])) p = None \<and>
       handle_events us p (es @ [False, False]) = handle_events us p (es @ [False]))"
proof -
  have k: "releases (take k es) < unat (u_refs \<lparr>u_refs = 1, u_channel = ch\<rparr>) + shares (take k es)" if "k \<le> length es" for k
    using assms(4) [OF that] by simp
  have b: "unat (u_refs \<lparr>u_refs = 1, u_channel = ch\<rparr>) + shares es < 2 ^ 32" using assms(3) by simp
  obtain u where u: "users (handle_events us p es) p = Some u" "u_channel u = ch" "unat (u_refs u) + releases es = 1 + shares es"
    and f: "freed_channels (handle_events us p es) = freed_channels us"
    using handle_events_refs [OF assms(1) k b] by auto
  have app: "handle_events us p (es @ es') = handle_events (handle_events us p es) p es'" for es'
    by (induction es arbitrary: us) simp_all
  have "u_refs u = 1" if "shares es = releases es" using u(3) that by (intro word_unat_eq_iff [THEN iffD2]) simp
  then show ?thesis using u f assms(2) by (auto simp: app channel_user_release_def)
qed

section \<open>The arguments of a thread\<close>

text \<open>A machine that has not run anything collects nothing (its threshold is 0), so that objects nobody refers to yet stay.\<close>

definition kept :: "jello_vm \<Rightarrow> jello_vm \<Rightarrow> bool" where
  "kept vm vm' \<longleftrightarrow> gc_wf vm' \<and> gc_next_collect vm' = 0 \<and> set (gc_objects vm) \<subseteq> set (gc_objects vm') \<and>
     (\<forall>x. x \<in> set (gc_objects vm) \<longrightarrow> vm_heap vm' x = vm_heap vm x)"

lemma kept_refl: "gc_wf vm \<Longrightarrow> gc_next_collect vm = 0 \<Longrightarrow> kept vm vm"
  by (simp add: kept_def)

lemma kept_trans: "kept a b \<Longrightarrow> kept b c \<Longrightarrow> kept a c"
  by (auto simp: kept_def)

lemma alloc_kept:
  assumes "gc_wf vm" "malloc_ok malloc" "gc_next_collect vm = 0" "jello_gc_alloc malloc vm n = Some (vm', a)"
  shows "kept vm vm' \<and> a \<notin> set (gc_objects vm) \<and> a \<in> set (gc_objects vm') \<and> a \<notin> live vm' \<and> vm_heap vm' a \<noteq> None"
proof -
  obtain r where al: "jello_gc_alloc_recycled malloc vm n = Some (vm', a, r)" using assms(4) by (auto simp: jello_gc_alloc_def)
  then have w: "allocated vm n vm' a" using alloc_ok [OF assms(1,2), of n] by auto
  have a: "a \<in> set (gc_box_free vm) \<or> a \<notin> dom (vm_heap vm)"
    "gc_next_collect vm' = 0" "gc_objects vm' = a # gc_objects vm" "\<And>x. x \<noteq> a \<Longrightarrow> vm_heap vm' x = vm_heap vm x"
    using al assms(2,3)
    by (auto simp: jello_gc_alloc_recycled_def gc_box_free_pop_def link_block_def malloc_ok_def Let_def dest: freelist_take_Some
        split: option.splits)
  then have n: "a \<notin> set (gc_objects vm)" using gc_wfD(1,2) [OF assms(1)] by auto
  have "vm_heap vm' x = vm_heap vm x" if "x \<in> set (gc_objects vm)" for x using a(4) [of x] that n by auto
  moreover have "vm_heap vm' a \<noteq> None" using w by (auto simp: allocated_def gc_wf_def)
  ultimately show ?thesis using a w n by (auto simp: kept_def allocated_def)
qed

lemma put_obj_kept: "kept vm vm1 \<Longrightarrow> a \<notin> set (gc_objects vm) \<Longrightarrow> a \<notin> live vm1 \<Longrightarrow> kept vm (put_obj vm1 a ob)"
  using put_obj_wf [of vm1 a ob] by (auto simp: kept_def put_obj_def)

text \<open>What the constructors give on such a machine.\<close>

definition keeps :: "jello_vm \<Rightarrow> heap_obj \<Rightarrow> (jello_vm \<times> addr) option \<Rightarrow> bool" where
  "keeps vm ob r \<longleftrightarrow>
     (\<forall>vm' a. r = Some (vm', a) \<longrightarrow> kept vm vm' \<and> a \<in> set (gc_objects vm') \<and> map_option b_obj (vm_heap vm' a) = Some ob)"

lemma new_obj_keeps:
  assumes "gc_wf vm" "malloc_ok malloc" "gc_next_collect vm = 0"
  shows "keeps vm ob (new_obj malloc vm n ob)" "keeps vm (OBytes t bs) (new_bytes malloc vm t bs)"
proof -
  have k: "kept vm (put_obj vm1 a ob) \<and> a \<in> set (gc_objects (put_obj vm1 a ob)) \<and>
      map_option b_obj (vm_heap (put_obj vm1 a ob) a) = Some ob \<and> kept vm (put_obj (put_obj vm1 a ob) a ob') \<and>
      map_option b_obj (vm_heap (put_obj (put_obj vm1 a ob) a ob') a) = Some ob'"
    if "jello_gc_alloc malloc vm m = Some (vm1, a)" for m vm1 a ob ob'
  proof -
    note a = alloc_kept [OF assms that]
    have p: "kept vm (put_obj vm1 a ob)" using a put_obj_kept by blast
    moreover have "a \<notin> live (put_obj vm1 a ob)" using a put_obj_live [of vm1 a ob] by (auto simp: kept_def)
    then have "kept vm (put_obj (put_obj vm1 a ob) a ob')" using p a put_obj_kept by blast
    ultimately show ?thesis using a by auto
  qed
  show "keeps vm ob (new_obj malloc vm n ob)" using k by (auto simp: keeps_def new_obj_def)
  show "keeps vm (OBytes t bs) (new_bytes malloc vm t bs)"
    using k by (auto simp: keeps_def new_bytes_def jello_bytes_new_def new_obj_def)
qed

lemma boxed_keeps:
  assumes "keeps vm ob r" "boxed r = Some (vm', Some v)"
  shows "kept vm vm' \<and> jello_as_ptr v \<in> set (gc_objects vm') \<and> object_of (vm_heap vm') v = Some ob"
  using assms by (auto simp: boxed_def keeps_def object_of_def)

text \<open>A shared value: a copy, or another handle on the same channel.\<close>

definition shared_as :: "heap \<Rightarrow> jello_value \<Rightarrow> heap \<Rightarrow> jello_value \<Rightarrow> bool" where
  "shared_as h v h' w \<longleftrightarrow> same_contents h v h' w \<or>
     (\<exists>t p fin. jello_is_ptr v \<and> object_of h v = Some (OAbstract t p fin) \<and> object_of h' w = Some (OAbstract 0 p channel_user_finalizer))"

definition same_handles :: "channel_users \<Rightarrow> channel_users \<Rightarrow> bool" where
  "same_handles us us' \<longleftrightarrow> (\<forall>p. map_option u_channel (users us' p) = map_option u_channel (users us p))"

lemma channel_user_from_abstract_alt:
  "channel_user_from_abstract us h v =
     (if \<not> jello_is_ptr v then Some None
      else
        (case object_of h v of
           None \<Rightarrow> None
         | Some (OAbstract t payload fin) \<Rightarrow>
             Some (if payload \<noteq> 0 \<and> map_option u_channel (users us payload) \<notin> {None, Some 0} then Some payload else None)
         | Some _ \<Rightarrow> Some None))"
  by (auto simp: channel_user_from_abstract_def split: option.splits heap_obj.splits)

lemma channel_user_same_handles:
  "same_handles us us' \<Longrightarrow> channel_user_from_abstract us' h v = channel_user_from_abstract us h v"
  by (auto simp: channel_user_from_abstract_alt same_handles_def split: option.split heap_obj.split)

lemma same_handles_retain: "same_handles us us" "same_handles us (channel_user_retain us p)"
  by (auto simp: same_handles_def channel_user_retain_def option.map_comp o_def)

lemma same_handles_trans: "same_handles a b \<Longrightarrow> same_handles b c \<Longrightarrow> same_handles a c"
  by (simp add: same_handles_def)

lemma shareable_same_handles:
  "same_handles us us' \<Longrightarrow> jello_value_is_thread_shareable us' h v = jello_value_is_thread_shareable us h v"
  by (drule channel_user_same_handles [of us us' h v]) (simp only: jello_value_is_thread_shareable_def)

lemma copy_kept:
  assumes "gc_wf dst" "malloc_ok malloc" "gc_next_collect dst = 0" "jello_value_copy_to_vm malloc dst h v = Some (dst', Some w)"
  shows "kept dst dst' \<and> (is_immediate v \<or> jello_as_ptr w \<in> set (gc_objects dst')) \<and> same_contents h v (vm_heap dst') w"
proof (cases "is_immediate v")
  case True
  then show ?thesis using assms kept_refl
    by (simp add: jello_value_copy_to_vm_def jello_value_is_copy_safe_def same_contents_def)
next
  case False
  note k = boxed_keeps [OF new_obj_keeps(1) [OF assms(1-3)]] boxed_keeps [OF new_obj_keeps(2) [OF assms(1-3)]]
  have "\<exists>ob. object_of h v = Some ob \<and> kept dst dst' \<and> jello_as_ptr w \<in> set (gc_objects dst') \<and> object_of (vm_heap dst') w = Some ob"
    using assms(4) False k
    by (fastforce simp: jello_value_copy_to_vm_def bind_eq_Some_conv constructor_defs split: option.splits if_splits heap_obj.splits)
  then show ?thesis using False by (auto simp: same_contents_def)
qed

lemma share_kept:
  assumes "gc_wf dst" "malloc_ok malloc" "gc_next_collect dst = 0" "jello_value_is_thread_shareable us h v = Some True"
    and "jello_value_share_to_vm malloc h n us dst v = Some (us', dst', Some w)"
  shows "kept dst dst' \<and> (is_immediate v \<or> jello_as_ptr w \<in> set (gc_objects dst')) \<and> shared_as h v (vm_heap dst') w \<and> same_handles us us'"
proof (cases "channel_user_from_abstract us h v")
  case None
  then show ?thesis using assms(5) by (simp add: jello_value_share_to_vm_def)
next
  case (Some found)
  show ?thesis
  proof (cases found)
    case None
    then have c: "jello_value_is_copy_safe h v = Some True"
      using assms(4) Some by (auto simp: jello_value_is_thread_shareable_def bind_eq_Some_conv split: if_splits)
    then have "is_kind 2 h v = Some False"
      using is_immediate_ptr [of v] by (auto simp: jello_value_is_copy_safe_def is_kind_def split: if_splits)
    then show ?thesis using assms(5) Some None copy_kept [OF assms(1-3)] same_handles_retain(1)
      by (auto simp: jello_value_share_to_vm_def shared_as_def)
  next
    case (Some p)
    then have ob: "\<exists>t fin. jello_is_ptr v \<and> object_of h v = Some (OAbstract t p fin)"
      using \<open>channel_user_from_abstract us h v = Some found\<close>
      by (auto simp: channel_user_from_abstract_def split: if_splits option.splits heap_obj.splits)
    have "us' = channel_user_retain us p" "boxed (new_obj malloc dst 24 (OAbstract 0 p channel_user_finalizer)) = Some (dst', Some w)"
      using assms(5) Some \<open>channel_user_from_abstract us h v = Some found\<close>
      by (auto simp: jello_value_share_to_vm_def jello_channel_abstract_share_def jello_abstract_new_finalized_def boxed_def)
    then show ?thesis using boxed_keeps [OF new_obj_keeps(1) [OF assms(1-3)]] ob same_handles_retain(2) by (auto simp: shared_as_def)
  qed
qed

lemma shared_as_kept:
  assumes "shared_as h v (vm_heap vm) w" "is_immediate v \<or> jello_as_ptr w \<in> set (gc_objects vm)" "kept vm vm'"
  shows "shared_as h v (vm_heap vm') w"
proof (cases "is_immediate v")
  case True
  then show ?thesis using is_immediate_ptr [of v] assms(1) by (auto simp: shared_as_def same_contents_def)
next
  case False
  then have "object_of (vm_heap vm') w = object_of (vm_heap vm) w" using assms(2,3) by (simp add: object_of_def kept_def)
  then show ?thesis using False assms(1) by (simp add: shared_as_def same_contents_def)
qed


section \<open>Witnesses\<close>

lemma box_demo: "jello_is_ptr 256" "object_of (vm_heap gc_demo) 256 = Some (OBoxI64 0 1)"
  by (simp_all add: jello_is_ptr_def tag_defs object_of_def jello_as_ptr_def gc_demo_def)

lemma some_malloc_aligned: "malloc_aligned some_malloc"
  by (simp add: malloc_aligned_def some_malloc_def)

lemma gc_demo_aligned: "heap_aligned gc_demo"
  by (auto simp: heap_aligned_def gc_demo_def split: if_splits)

lemma copies_have_same_contents_witness:
  "\<exists>dst' v. jello_value_copy_to_vm some_malloc gc_demo (vm_heap gc_demo) 256 = Some (dst', Some v) \<and>
     object_of (vm_heap dst') v = Some (OBoxI64 0 1)"
proof -
  have "map_option snd (jello_value_copy_to_vm some_malloc gc_demo (vm_heap gc_demo) 256) = Some (Some 256)" by code_simp
  then obtain dst' where r: "jello_value_copy_to_vm some_malloc gc_demo (vm_heap gc_demo) 256 = Some (dst', Some 256)" by auto
  from copies_have_same_contents [OF gc_demo_wf some_malloc_ok this] is_immediate_ptr [OF box_demo(1)] box_demo(2)
  have "object_of (vm_heap dst') 256 = Some (OBoxI64 0 1)" by (simp add: same_contents_def)
  then show ?thesis using r by blast
qed


lemma channel_handle_freed_with_last_reference_witness:
  "users (handle_events \<lparr>users = [8 \<mapsto> \<lparr>u_refs = 1, u_channel = 16\<rparr>], freed_channels = []\<rparr> 8 [True, False, False]) 8 = None"
proof -
  let ?us = "\<lparr>users = [8 \<mapsto> \<lparr>u_refs = 1, u_channel = 16\<rparr>], freed_channels = []\<rparr>"
  have "releases (take k [True, False]) \<le> shares (take k [True, False])" for k
    by (cases k; cases "k - 1"; cases "k - 2") auto
  from channel_handle_freed_with_last_reference [of ?us 8 16 "[True, False]", OF _ _ _ this] show ?thesis by simp
qed


end
