(* ===== verification/Jello_Regs.thy ===== *)
theory Jello_Regs
  imports Jello_Bytecode
begin

text \<open>
  Register frames: the layout of \<^verbatim>\<open>vm_get_frame_layout\<close> (\<^verbatim>\<open>src/vm/frame.c\<close>), the typed loads and stores
  of \<^verbatim>\<open>src/vm/reg.c\<close> and \<^verbatim>\<open>vm_internal.h\<close> on the bytes of a frame, and the binary16 conversions. Floats
  are their IEEE bit patterns. An access outside the frame, and C's undefined behaviour, is \<open>FAULT\<close>;
  \<^verbatim>\<open>jello_vm_panic\<close> is \<open>PANIC\<close>.

  The lemmas show that the layout aligns every register and keeps registers apart, so that a store
  through a register of the right width is read back and changes no other register.
\<close>

section \<open>Results of running code\<close>

datatype stop = FAULT | PANIC | HANG

type_synonym 'a run = "stop + 'a"

section \<open>Layout\<close>

definition align_up :: "u64 \<Rightarrow> u64 \<Rightarrow> u64" where
  "align_up x a = (x + (a - 1)) AND NOT (a - 1)"

definition is_pointer_or_dynamic :: "jello_type_kind \<Rightarrow> bool" where
  "is_pointer_or_dynamic k \<longleftrightarrow>
     k = JELLO_T_DYNAMIC \<or> k = JELLO_T_BYTES \<or> k = JELLO_T_LIST \<or> k = JELLO_T_ARRAY \<or> k = JELLO_T_OBJECT \<or>
     k = JELLO_T_FUNCTION \<or> k = JELLO_T_ABSTRACT \<or> k = JELLO_T_ENUM"

record frame_layout =
  fl_nregs :: u32
  fl_total :: u32
  fl_off :: "u32 list"
  fl_has_pointer_or_dynamic :: bool

text \<open>The loop over the registers: offsets, running total, and whether a register holds a reference.\<close>

fun layout_loop :: "jello_type_kind list \<Rightarrow> u64 \<Rightarrow> bool \<Rightarrow> u32 list \<times> u64 \<times> bool" where
  "layout_loop [] tot any = ([], tot, any)"
| "layout_loop (k # ks) tot any =
     (let sz = of_nat (jello_slot_size k);
          tot = align_up tot sz;
          (offs, tot', any') = layout_loop ks (tot + sz) (any \<or> is_pointer_or_dynamic k) in
      (ucast tot # offs, tot', any'))"

definition layout_of :: "jello_type_kind list \<Rightarrow> frame_layout" where
  "layout_of ks =
     (case layout_loop ks 0 False of
        (offs, tot, any) \<Rightarrow>
          \<lparr>fl_nregs = of_nat (length ks), fl_total = ucast tot, fl_off = offs, fl_has_pointer_or_dynamic = any\<rparr>)"

definition vm_reg_kind :: "jello_bc_module \<Rightarrow> jello_bc_function \<Rightarrow> nat \<Rightarrow> jello_type_kind run" where
  "vm_reg_kind m f r =
     (if r < length (f_reg_types f) \<and> unat (f_reg_types f ! r) < length (m_types m)
      then Inr (te_kind (m_types m ! unat (f_reg_types f ! r))) else Inl FAULT)"

fun reg_kinds_from :: "jello_bc_module \<Rightarrow> jello_bc_function \<Rightarrow> nat list \<Rightarrow> jello_type_kind list run" where
  "reg_kinds_from m f [] = Inr []"
| "reg_kinds_from m f (r # rs) =
     rbind (vm_reg_kind m f r) (\<lambda>k. rbind (reg_kinds_from m f rs) (\<lambda>ks. Inr (k # ks)))"

text \<open>The part of \<^verbatim>\<open>vm_get_frame_layout\<close> that fills a new entry of the layout cache; the JIT flags of the
  entry, which only the JIT reads, are left out.\<close>

definition vm_get_frame_layout :: "jello_bc_module \<Rightarrow> jello_bc_function \<Rightarrow> frame_layout run" where
  "vm_get_frame_layout m f =
     rbind (reg_kinds_from m f [0..<unat (f_nregs f)]) (\<lambda>ks. Inr (layout_of ks))"

section \<open>Loads and stores\<close>

record reg_frame =
  rf_mem :: "u8 list"
  rf_off :: "u32 list"
  rf_nregs :: u32
  rf_total :: u32

definition vm_reg_ptr :: "reg_frame \<Rightarrow> nat \<Rightarrow> nat run" where
  "vm_reg_ptr rf r = (if r < length (rf_off rf) then Inr (unat (rf_off rf ! r)) else Inl FAULT)"

definition read_at :: "reg_frame \<Rightarrow> nat \<Rightarrow> nat \<Rightarrow> u8 list run" where
  "read_at rf p n = (if p + n \<le> length (rf_mem rf) then Inr (mem_read (rf_mem rf) p n) else Inl FAULT)"

definition write_at :: "reg_frame \<Rightarrow> nat \<Rightarrow> u8 list \<Rightarrow> reg_frame run" where
  "write_at rf p bs =
     (if p + length bs \<le> length (rf_mem rf) then Inr (rf\<lparr>rf_mem := mem_write (rf_mem rf) p bs\<rparr>) else Inl FAULT)"

definition u32_of_bytes :: "u8 list \<Rightarrow> u32" where
  "u32_of_bytes bs = of_u32_le (bs ! 0) (bs ! 1) (bs ! 2) (bs ! 3)"

definition u64_of_bytes :: "u8 list \<Rightarrow> u64" where
  "u64_of_bytes bs = of_u64_le (u32_of_bytes bs) (u32_of_bytes (drop 4 bs))"

definition vm_load_u32 :: "reg_frame \<Rightarrow> nat \<Rightarrow> u32 run" where
  "vm_load_u32 rf r = rbind (vm_reg_ptr rf r) (\<lambda>p. rbind (read_at rf p 4) (\<lambda>bs. Inr (u32_of_bytes bs)))"

definition vm_store_u32 :: "reg_frame \<Rightarrow> nat \<Rightarrow> u32 \<Rightarrow> reg_frame run" where
  "vm_store_u32 rf r v = rbind (vm_reg_ptr rf r) (\<lambda>p. write_at rf p (u32_le v))"

definition mask_kind :: "jello_type_kind \<Rightarrow> u32 \<Rightarrow> u32" where
  "mask_kind k v =
     (if k = JELLO_T_I8 then scast (ucast (v AND 0xFF) :: u8)
      else if k = JELLO_T_I16 then scast (ucast (v AND 0xFFFF) :: u16)
      else v)"

definition vm_store_u32_masked :: "reg_frame \<Rightarrow> nat \<Rightarrow> u32 \<Rightarrow> jello_type_kind \<Rightarrow> reg_frame run" where
  "vm_store_u32_masked rf r v k = vm_store_u32 rf r (mask_kind k v)"

definition vm_load_i64 :: "reg_frame \<Rightarrow> nat \<Rightarrow> u64 run" where
  "vm_load_i64 rf r = rbind (vm_reg_ptr rf r) (\<lambda>p. rbind (read_at rf p 8) (\<lambda>bs. Inr (u64_of_bytes bs)))"

definition vm_store_i64 :: "reg_frame \<Rightarrow> nat \<Rightarrow> u64 \<Rightarrow> reg_frame run" where
  "vm_store_i64 rf r v = rbind (vm_reg_ptr rf r) (\<lambda>p. write_at rf p (u64_le v))"

text \<open>The other accessors read and write the same four or eight bytes.\<close>

definition vm_load_i32ish :: "reg_frame \<Rightarrow> nat \<Rightarrow> u32 run" where
  "vm_load_i32ish rf r = vm_load_u32 rf r"

definition vm_load_f32 :: "reg_frame \<Rightarrow> nat \<Rightarrow> u32 run" where
  "vm_load_f32 rf r = vm_load_u32 rf r"

definition vm_store_f32 :: "reg_frame \<Rightarrow> nat \<Rightarrow> u32 \<Rightarrow> reg_frame run" where
  "vm_store_f32 rf r v = vm_store_u32 rf r v"

definition vm_load_f64 :: "reg_frame \<Rightarrow> nat \<Rightarrow> u64 run" where
  "vm_load_f64 rf r = vm_load_i64 rf r"

definition vm_store_f64 :: "reg_frame \<Rightarrow> nat \<Rightarrow> u64 \<Rightarrow> reg_frame run" where
  "vm_store_f64 rf r v = vm_store_i64 rf r v"

definition vm_load_val :: "reg_frame \<Rightarrow> nat \<Rightarrow> jello_value run" where
  "vm_load_val rf r = vm_load_i64 rf r"

definition vm_store_val :: "reg_frame \<Rightarrow> nat \<Rightarrow> jello_value \<Rightarrow> reg_frame run" where
  "vm_store_val rf r v = vm_store_i64 rf r v"

definition vm_load_ptr :: "reg_frame \<Rightarrow> nat \<Rightarrow> u64 run" where
  "vm_load_ptr rf r = vm_load_i64 rf r"

definition vm_store_ptr :: "reg_frame \<Rightarrow> nat \<Rightarrow> u64 \<Rightarrow> reg_frame run" where
  "vm_store_ptr rf r p = vm_store_i64 rf r p"

definition vm_load_f16_bits :: "reg_frame \<Rightarrow> nat \<Rightarrow> u16 run" where
  "vm_load_f16_bits rf r = rbind (vm_load_u32 rf r) (\<lambda>v. Inr (ucast (v AND 0xFFFF)))"

definition vm_store_f16_bits :: "reg_frame \<Rightarrow> nat \<Rightarrow> u16 \<Rightarrow> reg_frame run" where
  "vm_store_f16_bits rf r bits = vm_store_u32 rf r (ucast bits)"

section \<open>Binary16\<close>

text \<open>The normalisation loop of a subnormal, on words that wrap.\<close>

partial_function (option) f16_normalise :: "u32 \<Rightarrow> u32 \<Rightarrow> (u32 \<times> u32) option" where
  "f16_normalise mant exp =
     (if mant AND 0x800000 = 0 then f16_normalise (push_bit 1 mant) (exp - 1) else Some (mant, exp))"

declare f16_normalise.simps [code]

text \<open>\<open>nan negative\<close> is what the floating point unit computes for \<^verbatim>\<open>(sign ? -1.0f : 1.0f) * (0.0f / 0.0f)\<close>.\<close>

definition vm_f16_bits_to_f32 :: "(bool \<Rightarrow> u32) \<Rightarrow> u16 \<Rightarrow> u32 option" where
  "vm_f16_bits_to_f32 nan bits =
     (if bits AND 0x7FFF = 0 then Some (if bits AND 0x8000 \<noteq> 0 then 0x80000000 else 0)
      else
        (let sign = push_bit 16 (ucast bits AND 0x8000) :: u32;
             exp = ucast (drop_bit 10 bits) AND 0x1F :: u32;
             mant = push_bit 13 (ucast (bits AND 0x3FF)) :: u32 in
         if exp = 31 then
           Some (if mant \<noteq> 0 then nan (sign \<noteq> 0) else if sign \<noteq> 0 then 0xFF800000 else 0x7F800000)
         else
           map_option (\<lambda>(mant, exp). sign OR push_bit 23 (exp + (127 - 15)) OR mant)
             (if exp = 0 then map_option (\<lambda>(mant, exp). (mant, exp + 1)) (f16_normalise mant exp)
              else Some (mant, exp))))"

definition vm_f32_to_f16_bits :: "u32 \<Rightarrow> u16" where
  "vm_f32_to_f16_bits u =
     (let sign = drop_bit 16 u AND 0x8000;
          exp = drop_bit 23 u AND 0xFF;
          mant = u AND 0x7FFFFF in
      if exp = 0xFF then ucast (sign OR 0x7C00 OR (if mant \<noteq> 0 then 0x200 else 0))
      else if exp = 0 \<and> mant = 0 then ucast sign
      else
        (let exp16 = sint exp - 127 + 15 in
         if exp16 \<ge> 31 then ucast (sign OR 0x7C00)
         else if exp16 \<le> 0 then ucast sign
         else ucast (sign OR push_bit 10 (of_int exp16) OR drop_bit 13 mant)))"

section \<open>Frames\<close>

text \<open>The offset of a register, and what it means that a frame has the layout of the kinds \<open>ks\<close>.\<close>

definition off_of :: "reg_frame \<Rightarrow> nat \<Rightarrow> nat" where
  "off_of rf r = unat (rf_off rf ! r)"

definition frame_ok :: "jello_type_kind list \<Rightarrow> reg_frame \<Rightarrow> bool" where
  "frame_ok ks rf \<longleftrightarrow> length (rf_off rf) = length ks \<and>
     (\<forall>i<length ks. off_of rf i + jello_slot_size (ks ! i) \<le> length (rf_mem rf)) \<and>
     (\<forall>i<length ks. \<forall>j<length ks. i < j \<longrightarrow> off_of rf i + jello_slot_size (ks ! i) \<le> off_of rf j)"

lemma slot_size_ge: "4 \<le> jello_slot_size k" and slot_size_le: "jello_slot_size k \<le> 8"
  using slot_size_cases [of k] by auto

lemma u32_of_bytes_le [simp]: "u32_of_bytes (u32_le v) = v"
  by (simp add: u32_of_bytes_def u32_le_def)

lemma u64_of_bytes_le [simp]: "u64_of_bytes (u64_le v) = v"
  by (simp add: u64_of_bytes_def u64_le_def u32_of_bytes_def u32_le_def)

text \<open>The bytes of a register.\<close>

definition reg_bytes :: "jello_type_kind list \<Rightarrow> reg_frame \<Rightarrow> nat \<Rightarrow> u8 list" where
  "reg_bytes ks rf r = mem_read (rf_mem rf) (off_of rf r) (jello_slot_size (ks ! r))"

lemma write_reg_ok:
  assumes f: "frame_ok ks rf" and r: "r < length ks" and n: "length bs \<le> jello_slot_size (ks ! r)"
  shows "\<exists>rf'. rbind (vm_reg_ptr rf r) (\<lambda>p. write_at rf p bs) = Inr rf' \<and> frame_ok ks rf' \<and>
    rf_off rf' = rf_off rf \<and> mem_read (rf_mem rf') (off_of rf' r) (length bs) = bs \<and>
    (\<forall>i<length ks. i \<noteq> r \<longrightarrow> reg_bytes ks rf' i = reg_bytes ks rf i)"
proof -
  have in_mem: "off_of rf r + jello_slot_size (ks ! r) \<le> length (rf_mem rf)" and l: "length (rf_off rf) = length ks"
    using f r by (auto simp: frame_ok_def)
  let ?rf = "rf\<lparr>rf_mem := mem_write (rf_mem rf) (off_of rf r) bs\<rparr>"
  have w: "rbind (vm_reg_ptr rf r) (\<lambda>p. write_at rf p bs) = Inr ?rf"
    using in_mem n r l by (simp add: vm_reg_ptr_def write_at_def off_of_def)
  have o: "off_of ?rf i = off_of rf i" for i by (simp add: off_of_def)
  have len: "length (rf_mem ?rf) = length (rf_mem rf)" using in_mem n by simp
  have "frame_ok ks ?rf" using f len unfolding frame_ok_def o by simp
  moreover have "reg_bytes ks ?rf i = reg_bytes ks rf i" if i: "i < length ks" "i \<noteq> r" for i
  proof -
    have "off_of rf i + jello_slot_size (ks ! i) \<le> length (rf_mem rf)" using f i by (simp add: frame_ok_def)
    moreover have "off_of rf i + jello_slot_size (ks ! i) \<le> off_of rf r \<or> off_of rf r + length bs \<le> off_of rf i"
    proof (cases "i < r")
      case True
      then show ?thesis using f i r by (auto simp: frame_ok_def)
    next
      case False
      then have "off_of rf r + jello_slot_size (ks ! r) \<le> off_of rf i" using f i r by (simp add: frame_ok_def)
      then show ?thesis using n by simp
    qed
    ultimately show ?thesis
      unfolding reg_bytes_def o using in_mem n by (simp add: mem_read_write_other)
  qed
  moreover have "mem_read (rf_mem ?rf) (off_of ?rf r) (length bs) = bs" unfolding o using in_mem n by simp
  ultimately show ?thesis using w by auto
qed

lemma read_reg_ok:
  assumes "frame_ok ks rf" "r < length ks" "n \<le> jello_slot_size (ks ! r)"
  shows "rbind (vm_reg_ptr rf r) (\<lambda>p. read_at rf p n) = Inr (take n (reg_bytes ks rf r))"
proof -
  have "off_of rf r + jello_slot_size (ks ! r) \<le> length (rf_mem rf)" "r < length (rf_off rf)"
    using assms by (auto simp: frame_ok_def)
  then show ?thesis using assms(3)
    by (simp add: vm_reg_ptr_def read_at_def reg_bytes_def off_of_def mem_read_def min_absorb1)
qed

section \<open>The layout is sound\<close>

lemma and_not_mask_unat: "unat (x AND NOT (mask n) :: 'a::len word) = unat x div 2 ^ n * 2 ^ n"
proof -
  have "x AND NOT (mask n) = push_bit n (drop_bit n x)"
    by (rule bit_word_eqI) (auto simp: bit_simps)
  moreover have "unat (push_bit n (drop_bit n x)) = push_bit n (drop_bit n (unat x))"
  proof -
    have "push_bit n (drop_bit n (unat x)) \<le> unat x"
      by (simp add: push_bit_eq_mult drop_bit_eq_div)
    then have "push_bit n (drop_bit n (unat x)) < 2 ^ LENGTH('a)"
      by (rule le_less_trans) (rule unsigned_less)
    then show ?thesis
      by (simp add: unsigned_push_bit_eq unsigned_drop_bit_eq take_bit_nat_eq_self)
  qed
  ultimately show ?thesis by (simp add: push_bit_eq_mult drop_bit_eq_div)
qed

lemma align_up_unat:
  assumes "unat x + 8 < 2 ^ 64"
  shows "unat (align_up x (of_nat (jello_slot_size k))) = (unat x + (jello_slot_size k - 1)) div jello_slot_size k * jello_slot_size k"
proof -
  have m: "(3 :: u64) = mask 2" "(7 :: u64) = mask 3" by (simp_all add: mask_eq_exp_minus_1)
  have "unat (x + 3) = unat x + 3" "unat (x + 7) = unat x + 7"
    using assms by (simp_all add: unat_word_ariths)
  then show ?thesis
    using slot_size_cases [of k] and_not_mask_unat [of "x + 3" 2] and_not_mask_unat [of "x + 7" 3]
    by (auto simp: align_up_def m simp flip: m)
qed

lemma align_up_bounds:
  assumes "unat x + 8 < 2 ^ 64" and s_def: "s = jello_slot_size k"
  shows "unat x \<le> unat (align_up x (of_nat s)) \<and> unat (align_up x (of_nat s)) < unat x + s \<and>
    unat (align_up x (of_nat s)) mod s = 0"
proof -
  have "s \<noteq> 0" by (simp add: s_def)
  define d r where "d = (unat x + (s - 1)) div s" and "r = (unat x + (s - 1)) mod s"
  have "unat x + (s - 1) = d * s + r" "r < s" using \<open>s \<noteq> 0\<close> by (simp_all add: d_def r_def)
  moreover have "unat (align_up x (of_nat s)) = d * s" unfolding s_def d_def by (rule align_up_unat [OF assms(1)])
  ultimately have "unat x \<le> d * s \<and> d * s < unat x + s" "unat (align_up x (of_nat s)) = d * s" by linarith+
  then show ?thesis by simp
qed

text \<open>The offsets \<open>offs\<close> place registers of the kinds \<open>ks\<close> one after the other from \<open>lo\<close> on, aligned, and
  end at or before \<open>hi\<close>.\<close>

fun placed :: "jello_type_kind list \<Rightarrow> nat \<Rightarrow> u32 list \<Rightarrow> nat \<Rightarrow> bool" where
  "placed [] lo offs hi \<longleftrightarrow> offs = [] \<and> lo \<le> hi"
| "placed (k # ks) lo offs hi \<longleftrightarrow>
     (\<exists>p ps. offs = p # ps \<and> lo \<le> unat p \<and> unat p mod jello_slot_size k = 0 \<and>
        placed ks (unat p + jello_slot_size k) ps hi)"

lemma layout_loop_placed:
  assumes "layout_loop ks tot any = (offs, tot', any')" "unat tot + 15 * length ks < 2 ^ 32"
  shows "placed ks (unat tot) offs (unat tot') \<and> unat tot' \<le> unat tot + 15 * length ks \<and>
    (any' \<longleftrightarrow> any \<or> (\<exists>k\<in>set ks. is_pointer_or_dynamic k))"
  using assms
proof (induction ks arbitrary: tot any offs tot' any')
  case Nil
  then show ?case by simp
next
  case (Cons k ks)
  let ?s = "jello_slot_size k" and ?p = "align_up tot (of_nat (jello_slot_size k))"
  have b: "unat tot \<le> unat ?p" "unat ?p < unat tot + ?s" "unat ?p mod ?s = 0"
    using align_up_bounds [of tot ?s k] Cons.prems(2) by auto
  have s: "?s \<le> 8" by (rule slot_size_le)
  have u: "unat (?p + of_nat ?s) = unat ?p + ?s"
    using b s Cons.prems(2) by (simp add: unat_word_ariths unat_of_nat)
  obtain ps where r: "layout_loop ks (?p + of_nat ?s) (any \<or> is_pointer_or_dynamic k) = (ps, tot', any')"
    and o: "offs = ucast ?p # ps"
    using Cons.prems(1) by (auto simp: Let_def split: prod.splits)
  have "placed ks (unat (?p + of_nat ?s)) ps (unat tot') \<and>
      unat tot' \<le> unat (?p + of_nat ?s) + 15 * length ks \<and>
      (any' \<longleftrightarrow> (any \<or> is_pointer_or_dynamic k) \<or> (\<exists>k\<in>set ks. is_pointer_or_dynamic k))"
    by (rule Cons.IH [OF r]) (use u b s Cons.prems(2) in simp)
  moreover have "unat (ucast ?p :: u32) = unat ?p"
    using b s Cons.prems(2) by (simp add: unsigned_ucast_eq take_bit_nat_eq_self)
  ultimately show ?case using o u b s by auto
qed

lemma placed_length: "placed ks lo offs hi \<Longrightarrow> length offs = length ks \<and> lo \<le> hi"
  by (induction ks lo offs hi rule: placed.induct) fastforce+

lemma placed_nth:
  "placed ks lo offs hi \<Longrightarrow> i < length ks \<Longrightarrow>
   lo \<le> unat (offs ! i) \<and> unat (offs ! i) mod jello_slot_size (ks ! i) = 0 \<and>
   unat (offs ! i) + jello_slot_size (ks ! i) \<le> hi \<and>
   (\<forall>j<length ks. i < j \<longrightarrow> unat (offs ! i) + jello_slot_size (ks ! i) \<le> unat (offs ! j))"
proof (induction ks lo offs hi arbitrary: i rule: placed.induct)
  case (2 k ks lo offs hi)
  then obtain p ps where o: "offs = p # ps" "lo \<le> unat p" "unat p mod jello_slot_size k = 0"
    and t: "placed ks (unat p + jello_slot_size k) ps hi" by auto
  note IH = 2(1) [OF t]
  show ?case
  proof (cases i)
    case 0
    then show ?thesis using o IH placed_length [OF t] by (auto simp: nth_Cons' less_Suc_eq_0_disj)
  next
    case (Suc n)
    then have n: "n < length ks" using 2(3) by simp
    show ?thesis using o Suc IH [OF n] by (auto simp: nth_Cons' less_Suc_eq_0_disj)
  qed
qed simp

lemma placed_layout_of:
  assumes "length ks \<le> 256"
  shows "placed ks 0 (fl_off (layout_of ks)) (unat (fl_total (layout_of ks))) \<and>
    (fl_has_pointer_or_dynamic (layout_of ks) \<longleftrightarrow> (\<exists>k\<in>set ks. is_pointer_or_dynamic k)) \<and>
    unat (fl_nregs (layout_of ks)) = length ks"
proof -
  obtain offs tot any where l: "layout_loop ks 0 False = (offs, tot, any)" by (cases "layout_loop ks 0 False")
  from layout_loop_placed [OF l] assms
  have p: "placed ks 0 offs (unat tot)" "unat tot \<le> 15 * 256" "any \<longleftrightarrow> (\<exists>k\<in>set ks. is_pointer_or_dynamic k)"
    by auto
  moreover have "unat (ucast tot :: u32) = unat tot"
    using p(2) by (simp add: unsigned_ucast_eq take_bit_nat_eq_self)
  ultimately show ?thesis using l assms by (simp add: layout_of_def unat_of_nat)
qed

lemma layout_frame_ok:
  assumes "length ks \<le> 256" "rf_off rf = fl_off (layout_of ks)"
    and "unat (fl_total (layout_of ks)) \<le> length (rf_mem rf)"
  shows "frame_ok ks rf"
proof -
  have p: "placed ks 0 (rf_off rf) (unat (fl_total (layout_of ks)))"
    using placed_layout_of [OF assms(1)] assms(2) by simp
  show ?thesis
    unfolding frame_ok_def off_of_def
    using placed_length [OF p] placed_nth [OF p] assms(3) by (auto intro: order.trans)
qed

lemma reg_kinds_from_ok:
  assumes "\<forall>r\<in>set rs. r < length (f_reg_types f)" "\<forall>t\<in>set (f_reg_types f). unat t < length (m_types m)"
  shows "reg_kinds_from m f rs = Inr (map (\<lambda>r. te_kind (m_types m ! unat (f_reg_types f ! r))) rs)"
  using assms by (induction rs) (auto simp: vm_reg_kind_def)

text \<open>The kinds of a function's registers.\<close>

definition fun_kinds :: "jello_bc_module \<Rightarrow> jello_bc_function \<Rightarrow> jello_type_kind list" where
  "fun_kinds m f = map (\<lambda>t. te_kind (m_types m ! unat t)) (f_reg_types f)"

lemma length_fun_kinds [simp]: "length (fun_kinds m f) = length (f_reg_types f)"
  by (simp add: fun_kinds_def)

lemma reg_kinds_all:
  assumes "length (f_reg_types f) = unat (f_nregs f)" "\<forall>t\<in>set (f_reg_types f). unat t < length (m_types m)"
  shows "reg_kinds_from m f [0..<unat (f_nregs f)] = Inr (fun_kinds m f)"
proof -
  have "map (\<lambda>r. te_kind (m_types m ! unat (f_reg_types f ! r))) [0..<length (f_reg_types f)] = fun_kinds m f"
    by (rule nth_equalityI) (simp_all add: fun_kinds_def)
  then show ?thesis using reg_kinds_from_ok [OF _ assms(2), of "[0..<length (f_reg_types f)]"] assms(1) by simp
qed

section \<open>Registers as cells\<close>

text \<open>What a client of a frame relies on: a cell that exists can be read, and a write of it succeeds,
  is read back, and leaves every other cell alone.\<close>

locale cells =
  fixes ok :: "'f \<Rightarrow> bool" and has :: "'i \<Rightarrow> bool"
    and get :: "'f \<Rightarrow> 'i \<Rightarrow> stop + 'v" and put :: "'f \<Rightarrow> 'i \<Rightarrow> 'v \<Rightarrow> stop + 'f"
  assumes get_total: "ok s \<Longrightarrow> has i \<Longrightarrow> \<exists>v. get s i = Inr v"
    and put_total: "ok s \<Longrightarrow> has i \<Longrightarrow> \<exists>s'. put s i v = Inr s'"
    and put_keeps: "ok s \<Longrightarrow> has i \<Longrightarrow> put s i v = Inr s' \<Longrightarrow> ok s'"
    and put_get: "ok s \<Longrightarrow> has i \<Longrightarrow> put s i v = Inr s' \<Longrightarrow> get s' i = Inr v"
    and put_other: "ok s \<Longrightarrow> has i \<Longrightarrow> has j \<Longrightarrow> j \<noteq> i \<Longrightarrow> put s i v = Inr s' \<Longrightarrow> get s' j = get s j"
begin

text \<open>A sequence of stores, and the contents of the cells as a function.\<close>

fun puts :: "'f \<Rightarrow> ('i \<times> 'v) list \<Rightarrow> stop + 'f" where
  "puts s [] = Inr s"
| "puts s ((i, v) # ws) = rbind (put s i v) (\<lambda>s'. puts s' ws)"

lemma puts_implement_map:
  "ok s \<Longrightarrow> (\<forall>(i, v)\<in>set ws. has i) \<Longrightarrow>
   \<exists>s'. puts s ws = Inr s' \<and> ok s' \<and>
     (\<forall>j. has j \<longrightarrow> get s' j = (case map_of (rev ws) j of Some v \<Rightarrow> Inr v | None \<Rightarrow> get s j))"
proof (induction ws arbitrary: s)
  case (Cons w ws)
  obtain i v where w: "w = (i, v)" by (cases w)
  then have i: "has i" using Cons.prems by simp
  obtain s1 where s1: "put s i v = Inr s1" using put_total [OF Cons.prems(1) i] by blast
  obtain s' where s': "puts s1 ws = Inr s'" "ok s'"
      "\<And>j. has j \<Longrightarrow> get s' j = (case map_of (rev ws) j of Some v \<Rightarrow> Inr v | None \<Rightarrow> get s1 j)"
    using Cons.IH [OF put_keeps [OF Cons.prems(1) i s1]] Cons.prems(2) by auto
  have "get s' j = (case map_of (rev (w # ws)) j of Some v \<Rightarrow> Inr v | None \<Rightarrow> get s j)" if "has j" for j
    using s'(3) [OF that] put_get [OF Cons.prems(1) i s1] put_other [OF Cons.prems(1) i that _ s1] w
    by (auto simp: map_add_def split: option.splits)
  then show ?case using s' s1 w by auto
qed simp

end

text \<open>The word in a register, and what a store to register \<open>r\<close> may change.\<close>

definition reg_u32 :: "jello_type_kind list \<Rightarrow> reg_frame \<Rightarrow> nat \<Rightarrow> u32" where
  "reg_u32 ks rf r = u32_of_bytes (reg_bytes ks rf r)"

definition reg_u64 :: "jello_type_kind list \<Rightarrow> reg_frame \<Rightarrow> nat \<Rightarrow> u64" where
  "reg_u64 ks rf r = u64_of_bytes (reg_bytes ks rf r)"

definition only_changes :: "jello_type_kind list \<Rightarrow> nat \<Rightarrow> reg_frame \<Rightarrow> reg_frame \<Rightarrow> bool" where
  "only_changes ks r rf rf' \<longleftrightarrow> frame_ok ks rf' \<and> rf_off rf' = rf_off rf \<and>
     (\<forall>i<length ks. i \<noteq> r \<longrightarrow> reg_bytes ks rf' i = reg_bytes ks rf i)"

lemma length_reg_bytes [simp]:
  "frame_ok ks rf \<Longrightarrow> r < length ks \<Longrightarrow> length (reg_bytes ks rf r) = jello_slot_size (ks ! r)"
  by (auto simp: reg_bytes_def frame_ok_def)

lemma u32_of_bytes_take [simp]: "4 \<le> n \<Longrightarrow> u32_of_bytes (take n bs) = u32_of_bytes bs"
  by (simp add: u32_of_bytes_def)

lemma u64_of_bytes_take [simp]: "8 \<le> n \<Longrightarrow> u64_of_bytes (take n bs) = u64_of_bytes bs"
  by (simp add: u64_of_bytes_def drop_take)

lemma load_u32_ok:
  assumes "frame_ok ks rf" "r < length ks"
  shows "vm_load_u32 rf r = Inr (reg_u32 ks rf r)"
proof -
  have "rbind (vm_reg_ptr rf r) (\<lambda>p. rbind (read_at rf p 4) f) =
      rbind (rbind (vm_reg_ptr rf r) (\<lambda>p. read_at rf p 4)) f" for f :: "u8 list \<Rightarrow> u32 run"
    by (cases "vm_reg_ptr rf r") simp_all
  then show ?thesis
    using read_reg_ok [OF assms, of 4] slot_size_ge [of "ks ! r"] by (simp add: vm_load_u32_def reg_u32_def)
qed

lemma load_i64_ok:
  assumes "frame_ok ks rf" "r < length ks" "jello_slot_size (ks ! r) = 8"
  shows "vm_load_i64 rf r = Inr (reg_u64 ks rf r)"
proof -
  have "rbind (vm_reg_ptr rf r) (\<lambda>p. rbind (read_at rf p 8) f) =
      rbind (rbind (vm_reg_ptr rf r) (\<lambda>p. read_at rf p 8)) f" for f :: "u8 list \<Rightarrow> u64 run"
    by (cases "vm_reg_ptr rf r") simp_all
  then show ?thesis
    using read_reg_ok [OF assms(1,2), of 8] assms(3) by (simp add: vm_load_i64_def reg_u64_def)
qed

lemma mem_read_prefix: "n \<le> m \<Longrightarrow> take n (mem_read xs i m) = mem_read xs i n"
  by (simp add: mem_read_def min_absorb1)

lemma store_u32_ok:
  assumes "frame_ok ks rf" "r < length ks"
  obtains rf' where "vm_store_u32 rf r v = Inr rf'" "only_changes ks r rf rf'" "reg_u32 ks rf' r = v"
proof -
  have s: "4 \<le> jello_slot_size (ks ! r)" by (rule slot_size_ge)
  obtain rf' where rf': "vm_store_u32 rf r v = Inr rf'" "only_changes ks r rf rf'"
      "mem_read (rf_mem rf') (off_of rf' r) 4 = u32_le v"
    using write_reg_ok [OF assms, of "u32_le v"] s by (auto simp: vm_store_u32_def only_changes_def)
  have "u32_of_bytes (reg_bytes ks rf' r) = u32_of_bytes (take 4 (reg_bytes ks rf' r))" by simp
  also have "\<dots> = v" unfolding reg_bytes_def mem_read_prefix [OF s] rf'(3) by simp
  finally show ?thesis using that rf' by (simp add: reg_u32_def)
qed

lemma store_i64_ok:
  assumes "frame_ok ks rf" "r < length ks" "jello_slot_size (ks ! r) = 8"
  obtains rf' where "vm_store_i64 rf r v = Inr rf'" "only_changes ks r rf rf'" "reg_u64 ks rf' r = v"
proof -
  obtain rf' where rf': "vm_store_i64 rf r v = Inr rf'" "only_changes ks r rf rf'"
      "mem_read (rf_mem rf') (off_of rf' r) 8 = u64_le v"
    using write_reg_ok [OF assms(1,2), of "u64_le v"] assms(3) by (auto simp: vm_store_i64_def only_changes_def)
  then show ?thesis using that assms(3) by (simp add: reg_u64_def reg_bytes_def)
qed

interpretation r32: cells "frame_ok ks" "\<lambda>r. r < length ks" vm_load_u32 vm_store_u32 for ks
proof
  fix s i j v s'
  assume ok: "frame_ok ks s" and i: "i < length ks"
  show "\<exists>v. vm_load_u32 s i = Inr v" using load_u32_ok [OF ok i] by blast
  obtain rf' where st: "vm_store_u32 s i v = Inr rf'" "only_changes ks i s rf'" "reg_u32 ks rf' i = v"
    by (rule store_u32_ok [OF ok i])
  then show "\<exists>s'. vm_store_u32 s i v = Inr s'" by blast
  assume p: "vm_store_u32 s i v = Inr s'"
  then have ok': "frame_ok ks s'" "only_changes ks i s s'" "reg_u32 ks s' i = v"
    using st by (simp_all add: only_changes_def)
  show "frame_ok ks s'" by (fact ok')
  show "vm_load_u32 s' i = Inr v" using load_u32_ok [OF ok'(1) i] ok'(3) by simp
  assume j: "j < length ks" "j \<noteq> i"
  show "vm_load_u32 s' j = vm_load_u32 s j"
    using load_u32_ok [OF ok'(1) j(1)] load_u32_ok [OF ok j(1)] ok'(2) j by (simp add: only_changes_def reg_u32_def)
qed

interpretation r64: cells "frame_ok ks" "\<lambda>r. r < length ks \<and> jello_slot_size (ks ! r) = 8" vm_load_i64 vm_store_i64 for ks
proof
  fix s i j v s'
  assume ok: "frame_ok ks s" and i: "i < length ks \<and> jello_slot_size (ks ! i) = 8"
  note i1 = conjunct1 [OF i] and i2 = conjunct2 [OF i]
  show "\<exists>v. vm_load_i64 s i = Inr v" using load_i64_ok [OF ok i1 i2] by blast
  obtain rf' where st: "vm_store_i64 s i v = Inr rf'" "only_changes ks i s rf'" "reg_u64 ks rf' i = v"
    by (rule store_i64_ok [OF ok i1 i2])
  then show "\<exists>s'. vm_store_i64 s i v = Inr s'" by blast
  assume p: "vm_store_i64 s i v = Inr s'"
  then have ok': "frame_ok ks s'" "only_changes ks i s s'" "reg_u64 ks s' i = v"
    using st by (simp_all add: only_changes_def)
  show "frame_ok ks s'" by (fact ok')
  show "vm_load_i64 s' i = Inr v" using load_i64_ok [OF ok'(1) i1 i2] ok'(3) by simp
  assume j: "j < length ks \<and> jello_slot_size (ks ! j) = 8" "j \<noteq> i"
  show "vm_load_i64 s' j = vm_load_i64 s j"
    using load_i64_ok [OF ok'(1), of j] load_i64_ok [OF ok, of j] ok'(2) j by (simp add: only_changes_def reg_u64_def)
qed

text \<open>C14: in a frame laid out for at most 256 registers, any sequence of stores to four-byte registers, and
  any sequence to eight-byte registers, succeeds and leaves in every register the value stored last, or
  the one it had before.\<close>

theorem register_stores_implement_map:
  assumes "length ks \<le> 256" "rf_off rf = fl_off (layout_of ks)"
    and "length (rf_mem rf) = unat (fl_total (layout_of ks))"
    and "\<forall>(r, v)\<in>set ws. r < length ks"
    and "\<forall>(r, v)\<in>set ds. r < length ks \<and> jello_slot_size (ks ! r) = 8"
  shows "(\<exists>rf'. r32.puts rf ws = Inr rf' \<and> (\<forall>j<length ks.
      vm_load_u32 rf' j = (case map_of (rev ws) j of Some v \<Rightarrow> Inr v | None \<Rightarrow> vm_load_u32 rf j))) \<and>
    (\<exists>rf'. r64.puts rf ds = Inr rf' \<and> (\<forall>j<length ks. jello_slot_size (ks ! j) = 8 \<longrightarrow>
      vm_load_i64 rf' j = (case map_of (rev ds) j of Some v \<Rightarrow> Inr v | None \<Rightarrow> vm_load_i64 rf j)))"
proof -
  have "frame_ok ks rf" using assms(1-3) by (simp add: layout_frame_ok)
  from r32.puts_implement_map [OF this assms(4)] r64.puts_implement_map [OF this assms(5)]
  show ?thesis by auto
qed

lemma register_stores_implement_map_witness:
  "\<exists>rf'. r32.puts \<lparr>rf_mem = replicate 20 0, rf_off = [0, 8, 16], rf_nregs = 3, rf_total = 20\<rparr>
       [(0, 7), (2, 5), (0, 9)] = Inr rf' \<and>
     vm_load_u32 rf' 0 = Inr 9 \<and> vm_load_u32 rf' 2 = Inr 5"
proof -
  let ?ks = "[JELLO_T_I32, JELLO_T_I64, JELLO_T_BOOL]"
  let ?rf = "\<lparr>rf_mem = replicate 20 0, rf_off = [0, 8, 16], rf_nregs = 3, rf_total = 20\<rparr>"
  let ?ws = "[(0, 7), (2, 5), (0, 9)]"
  have l: "fl_off (layout_of ?ks) = [0, 8, 16]" "unat (fl_total (layout_of ?ks)) = 20"
    by (simp_all add: layout_of_def align_up_def jello_slot_size_def)
  have "length ?ks \<le> 256" "rf_off ?rf = fl_off (layout_of ?ks)"
    "length (rf_mem ?rf) = unat (fl_total (layout_of ?ks))" "\<forall>(r, v)\<in>set ?ws. r < length ?ks"
    using l by simp_all
  from register_stores_implement_map [OF this, of "[]"]
  obtain rf' where r: "r32.puts ?rf ?ws = Inr rf'" and
      c: "\<forall>j<length ?ks. vm_load_u32 rf' j =
        (case map_of (rev ?ws) j of Some v \<Rightarrow> Inr v | None \<Rightarrow> vm_load_u32 ?rf j)"
    by auto
  have "vm_load_u32 rf' 0 = Inr 9" "vm_load_u32 rf' 2 = Inr 5"
    using c [rule_format, of 0] c [rule_format, of 2] by simp_all
  with r show ?thesis by blast
qed

section \<open>Binary16 round trip\<close>

text \<open>The fields of a binary32 word that is put together from a sign, an exponent and a mantissa of ten
  bits, and of a binary16 word.\<close>

lemma mask_lits: "(0xFF :: u32) = mask 8" "(0x7FFFFF :: u32) = mask 23" "(0x1F :: u32) = mask 5"
    "(0x3FF :: u16) = mask 10" "(0x7FFF :: u16) = mask 15"
  by (simp_all add: mask_eq_exp_minus_1)

definition f32_make :: "u32 \<Rightarrow> u32 \<Rightarrow> u32 \<Rightarrow> u32" where
  "f32_make s e x = push_bit 31 s OR push_bit 23 e OR push_bit 13 x"

lemma bit_8000 [bit_simps]: "bit (0x8000 :: nat) n \<longleftrightarrow> n = 15" "bit (0x8000 :: int) n \<longleftrightarrow> n = 15"
proof -
  have "(0x8000 :: nat) = 2 ^ 15" "(0x8000 :: int) = 2 ^ 15" by simp_all
  then show "bit (0x8000 :: nat) n \<longleftrightarrow> n = 15" "bit (0x8000 :: int) n \<longleftrightarrow> n = 15"
    by (simp_all only: bit_exp_iff) auto
qed

lemma f32_make_fields:
  assumes "unat s < 2" "unat e < 256" "unat x < 1024"
  shows "drop_bit 23 (f32_make s e x) AND 0xFF = e" "f32_make s e x AND 0x7FFFFF = push_bit 13 x"
    "drop_bit 16 (f32_make s e x) AND 0x8000 = push_bit 15 s"
proof -
  have s: "bit s n \<Longrightarrow> n < 1" for n using bit_less_exp [of s 1] assms(1) by simp
  have e: "bit e n \<Longrightarrow> n < 8" for n using bit_less_exp [of e 8] assms(2) by simp
  have x: "bit x n \<Longrightarrow> n < 10" for n using bit_less_exp [of x 10] assms(3) by simp
  show "drop_bit 23 (f32_make s e x) AND 0xFF = e"
    by (rule bit_word_eqI) (auto simp: mask_lits f32_make_def bit_simps dest: s e x)
  show "f32_make s e x AND 0x7FFFFF = push_bit 13 x"
    by (rule bit_word_eqI) (auto simp: mask_lits f32_make_def bit_simps dest: s e x)
  show "drop_bit 16 (f32_make s e x) AND 0x8000 = push_bit 15 s"
    by (rule bit_word_eqI) (auto simp: f32_make_def bit_8000 bit_simps dest: s e x)
qed

text \<open>A finite number from the normal range of binary16: rebias, and drop the low mantissa bits.\<close>

lemma f32_to_f16_make:
  assumes "unat s < 2" "unat e < 31" "0 < unat e" "unat x < 1024"
  shows "vm_f32_to_f16_bits (f32_make s (e + 112) x) = ucast (push_bit 15 s OR push_bit 10 e OR x)"
proof -
  have u: "unat (e + 112) = unat e + 112" using assms(2) by (simp add: unat_word_ariths)
  have si: "sint (e + 112) = int (unat e) + 112"
    using sint_small [of "e + 112"] u assms(2) by simp
  have "e + 112 \<noteq> 0xFF" "e + 112 \<noteq> 0"
    using u assms(2) by (auto dest: arg_cong [where f = unat])
  moreover have "drop_bit 13 (push_bit 13 x) = x"
  proof (rule bit_word_eqI)
    fix n show "bit (drop_bit 13 (push_bit 13 x)) n = bit x n"
      using bit_less_exp [of x 10 n] assms(4) by (auto simp: bit_simps)
  qed
  moreover have "of_int (int (unat e)) = e" by simp
  ultimately show ?thesis
    using f32_make_fields [of s "e + 112" x] assms u si
    by (auto simp: vm_f32_to_f16_bits_def Let_def uint_nat simp del: of_nat_unat)
qed

text \<open>The normalisation loop ends as soon as one of the low 24 bits is set.\<close>

lemma f16_normalise_total:
  assumes "bit mant k" "k \<le> 23"
  shows "\<exists>r. f16_normalise mant exp = Some r"
  using assms
proof (induction "23 - k" arbitrary: mant exp k)
  case 0
  then have "k = 23" by simp
  moreover have "bit (0x800000 :: u32) 23" by simp
  ultimately have "mant AND 0x800000 \<noteq> 0" using 0(2) by (metis bit_and_iff bit_0_eq bot_fun_def bot_bool_def)
  then show ?case by (simp add: f16_normalise.simps)
next
  case (Suc n)
  show ?case
  proof (cases "mant AND 0x800000 = 0")
    case True
    have "bit (push_bit 1 mant) (Suc k)" using Suc(2-4) by (subst bit_push_bit_iff) simp
    from Suc(1) [OF _ this, of "exp - 1"] Suc(2) show ?thesis
      using True by (subst f16_normalise.simps) simp
  qed (simp add: f16_normalise.simps)
qed

lemma f16_field_bits:
  "bit (ucast (drop_bit 10 bits) AND 0x1F :: u32) n \<longleftrightarrow> n < 5 \<and> bit (bits :: u16) (n + 10)"
  "bit (ucast (bits AND 0x3FF) :: u32) n \<longleftrightarrow> n < 10 \<and> bit bits n"
  "bit (ucast (drop_bit 15 bits) :: u32) n \<longleftrightarrow> n = 0 \<and> bit bits 15"
  using bit_imp_le_length [of bits] by (fastforce simp: mask_lits bit_simps add.commute)+

lemma f16_to_f32_total: "\<exists>u. vm_f16_bits_to_f32 nan bits = Some u"
proof -
  let ?m = "push_bit 13 (ucast (bits AND 0x3FF)) :: u32"
  have "\<exists>r. f16_normalise ?m 0 = Some r"
    if z: "bits AND 0x7FFF \<noteq> 0" and e: "ucast (drop_bit 10 bits) AND 0x1F = (0 :: u32)"
  proof -
    obtain n where n: "bit (bits AND 0x7FFF) n" using z by (metis bit_eqI bit_0_eq bot_fun_def bot_bool_def)
    then have n': "n < 15" "bit bits n" by (simp_all add: mask_lits bit_simps)
    have "\<not> (n - 10 < 5 \<and> bit bits (n - 10 + 10))" using f16_field_bits(1) [of bits "n - 10"] e by simp
    then have "n < 10" using n' by (cases "n < 10") auto
    then have "bit ?m (n + 13)" using n' by (simp add: bit_push_bit_iff f16_field_bits(2) del: bit_word_ucast_iff)
    then show ?thesis using \<open>n < 10\<close> f16_normalise_total [of ?m "n + 13"] by simp
  qed
  then show ?thesis by (auto simp: vm_f16_bits_to_f32_def Let_def)
qed

lemma f16_to_f32_normal:
  assumes e: "e = (ucast (drop_bit 10 bits) AND 0x1F :: u32)" "0 < unat e" "unat e < 31"
  shows "vm_f16_bits_to_f32 nan bits =
    Some (f32_make (ucast (drop_bit 15 bits)) (e + 112) (ucast (bits AND 0x3FF)))"
proof -
  have "bits AND 0x7FFF \<noteq> 0"
  proof
    assume z: "bits AND 0x7FFF = 0"
    have "\<not> (n < 5 \<and> bit bits (n + 10))" for n
      using arg_cong [OF z, of "\<lambda>w. bit w (n + 10)"] by (auto simp: mask_lits bit_simps)
    then have "e = 0" unfolding e(1) by (intro bit_word_eqI) (simp only: f16_field_bits(1) bit_0_eq bot_apply bot_bool_def)
    then show False using e(2) by simp
  qed
  moreover have "e \<noteq> 31" "e \<noteq> 0" using e(2,3) by auto
  moreover have "ucast bits AND 0x8000 = (push_bit 15 (ucast (drop_bit 15 bits)) :: u32)"
    by (rule bit_word_eqI) (use bit_imp_le_length [of bits] in \<open>fastforce simp: bit_simps\<close>)
  then have "push_bit 16 (ucast bits AND 0x8000) = (push_bit 31 (ucast (drop_bit 15 bits)) :: u32)"
    by (simp only: push_bit_push_bit) simp
  ultimately show ?thesis by (simp add: vm_f16_bits_to_f32_def Let_def f32_make_def flip: e(1))
qed

lemma f16_fields_small:
  "unat (ucast (drop_bit 15 (bits :: u16)) :: u32) < 2" "unat (ucast (bits AND 0x3FF) :: u32) < 1024"
proof -
  have "unat (drop_bit 15 bits) = unat bits div 2 ^ 15"
    by (simp only: unsigned_drop_bit_eq) (simp add: drop_bit_eq_div take_bit_nat_eq_self)
  then have "unat (drop_bit 15 bits) < 2" using unat_u16_less [of bits] by (simp add: less_mult_imp_div_less)
  then show "unat (ucast (drop_bit 15 bits) :: u32) < 2" by simp
  have "unat (bits AND mask 10) < 2 ^ 10" by (simp add: unat_and_mask_mod)
  then show "unat (ucast (bits AND 0x3FF) :: u32) < 1024" by (simp add: mask_lits)
qed

lemma f16_reassemble:
  assumes "s = ucast (drop_bit 15 bits)" "e = ucast (drop_bit 10 bits) AND 0x1F" "x = ucast (bits AND 0x3FF)"
  shows "ucast (push_bit 15 s OR push_bit 10 e OR x :: u32) = (bits :: u16)"
proof (rule bit_word_eqI)
  note b = f16_field_bits [of bits, folded assms]
  fix n assume "n < LENGTH(16)"
  then consider "n < 10" | "10 \<le> n" "n < 15" | "n = 15" by fastforce
  then show "bit (ucast (push_bit 15 s OR push_bit 10 e OR x) :: u16) n = bit bits n"
    by cases (simp_all add: bit_ucast_iff bit_or_iff bit_push_bit_iff b less_diff_conv2)
qed

lemma f16_specials:
  assumes "bits \<in> {0, 0x8000, 0x7C00, 0xFC00}"
  shows "map_option vm_f32_to_f16_bits (vm_f16_bits_to_f32 nan bits) = Some bits"
proof -
  consider "bits = 0" | "bits = 0x8000" | "bits = 0x7C00" | "bits = 0xFC00" using assms by auto
  then show ?thesis by cases (simp_all add: vm_f16_bits_to_f32_def vm_f32_to_f16_bits_def)
qed

text \<open>Reading a binary16 register always ends, and for every zero, normal number and infinity widening
  to binary32 and narrowing again gives the same sixteen bits back.\<close>

theorem f16_roundtrip:
  "(\<exists>u. vm_f16_bits_to_f32 nan bits = Some u) \<and>
   ((0 < drop_bit 10 bits AND 0x1F \<and> drop_bit 10 bits AND 0x1F < 31 \<or> bits AND 0x3FF = 0) \<longrightarrow>
      map_option vm_f32_to_f16_bits (vm_f16_bits_to_f32 nan bits) = Some bits)"
proof (intro conjI impI)
  show "\<exists>u. vm_f16_bits_to_f32 nan bits = Some u" by (rule f16_to_f32_total)
  let ?e = "ucast (drop_bit 10 bits) AND 0x1F :: u32"
  assume h: "0 < drop_bit 10 bits AND 0x1F \<and> drop_bit 10 bits AND 0x1F < 31 \<or> bits AND 0x3FF = 0"
  have "?e = ucast (drop_bit 10 bits AND 0x1F)"
    by (rule bit_word_eqI) (use bit_imp_le_length [of bits] in \<open>fastforce simp: bit_simps\<close>)
  then have c: "unat ?e = unat (drop_bit 10 bits AND 0x1F)" by simp
  show "map_option vm_f32_to_f16_bits (vm_f16_bits_to_f32 nan bits) = Some bits"
  proof (cases "0 < unat ?e \<and> unat ?e < 31")
    case True
    then show ?thesis
      using f16_to_f32_normal [OF refl] f32_to_f16_make [OF f16_fields_small(1) _ _ f16_fields_small(2)]
        f16_reassemble [OF refl refl refl, of bits] by simp
  next
    case False
    have x: "bits AND 0x3FF = 0" using h False c by (auto simp: word_less_nat_alt)
    have "unat ?e < 32"
      using unat_and_mask_mod [of "ucast (drop_bit 10 bits) :: u32" 5] by (simp add: mask_lits)
    then have "unat ?e = 0 \<or> unat ?e = 31" using False by linarith
    then have e: "?e = 0 \<or> ?e = 31" by (auto simp: word_unat_eq_iff)
    have s: "ucast (drop_bit 15 bits) = (0 :: u32) \<or> ucast (drop_bit 15 bits) = (1 :: u32)"
      using f16_fields_small(1) [of bits] by (auto simp: word_unat_eq_iff)
    obtain s' e' where d: "s' = (ucast (drop_bit 15 bits) :: u32)" "e' = ?e" by simp
    have "bits \<in> {0, 0x8000, 0x7C00, 0xFC00}"
      using f16_reassemble [OF d refl] e s unfolding d(1,2) [symmetric] x by auto
    then show ?thesis by (rule f16_specials)
  qed
qed

lemma f16_roundtrip_witness:
  "vm_f16_bits_to_f32 (\<lambda>_. 0x7FC00000) 0x3C01 = Some 0x3F802000 \<and> vm_f32_to_f16_bits 0x3F802000 = 0x3C01"
  using f16_roundtrip [of "\<lambda>_. 0x7FC00000" "0x3C01"] by (simp add: vm_f16_bits_to_f32_def Let_def)

text \<open>Subnormal binary16 numbers are widened wrongly when their leading bit is at an odd position, for the
  implicit leading bit is left in the mantissa and lands in the exponent: the numbers 2, 3 and 4 times
  the smallest subnormal become \<^verbatim>\<open>2^-22\<close>, \<^verbatim>\<open>1.5 * 2^-22\<close> and \<^verbatim>\<open>2^-22\<close>, so the conversion is not even monotone.\<close>

theorem f16_subnormals_misread:
  "vm_f16_bits_to_f32 nan 1 = Some 0x33800000 \<and> vm_f16_bits_to_f32 nan 2 = Some 0x34800000 \<and>
   vm_f16_bits_to_f32 nan 3 = Some 0x34C00000 \<and> vm_f16_bits_to_f32 nan 4 = Some 0x34800000"
  by (simp add: vm_f16_bits_to_f32_def Let_def f16_normalise.simps)

end
