(* ===== verification/Jello_Exec.thy ===== *)
theory Jello_Exec
  imports Jello_Regs Jello_Heap
begin

text \<open>
  The state an opcode handler works on (\<^verbatim>\<open>exec_ctx\<close>, \<^verbatim>\<open>call_frame\<close> and the execution fields of \<^verbatim>\<open>jello_vm\<close>,
  \<^verbatim>\<open>vm_internal.h\<close>), traps with their source locations and the handler stack (\<^verbatim>\<open>src/vm/exc.c\<close>), fuel
  (\<^verbatim>\<open>src/vm.c\<close>), and the handlers of \<^verbatim>\<open>src/vm/ops/ops_control.c\<close> and \<^verbatim>\<open>ops_const.c\<close> that neither allocate nor
  return from a frame.

  The frame that \<^verbatim>\<open>ctx->fr\<close> points to is always the top one: \<open>x_fr\<close> is that frame and \<open>x_below\<close> are the
  frames under it, so \<^verbatim>\<open>call_frames_len\<close> is one more than the length of \<open>x_below\<close>. The pointer \<^verbatim>\<open>fr->f\<close> is the function
  \<open>cf_f\<close> together with its position \<open>cf_idx\<close> in \<^verbatim>\<open>m->funcs\<close>. \<open>x_out\<close> is the variable behind \<^verbatim>\<open>ctx->out\<close>, and \<open>x_out_exports\<close> the
  one behind \<^verbatim>\<open>ctx->out_exports\<close>, \<open>None\<close> for a \<^verbatim>\<open>NULL\<close> pointer. Buffers for messages
  are strings of bytes; \<open>snprintf_cap\<close> is the truncation \<^verbatim>\<open>snprintf\<close> does.
\<close>

section \<open>State\<close>

datatype jello_trap_code =
    JELLO_TRAP_NONE | JELLO_TRAP_TYPE_MISMATCH | JELLO_TRAP_BOUNDS | JELLO_TRAP_NULL_DEREF
  | JELLO_TRAP_THROWN | JELLO_TRAP_STACK_OVERFLOW | JELLO_TRAP_FUEL | JELLO_TRAP_LIMIT

fun trap_number :: "jello_trap_code \<Rightarrow> u32" where
  "trap_number JELLO_TRAP_NONE = 0"
| "trap_number JELLO_TRAP_TYPE_MISMATCH = 1"
| "trap_number JELLO_TRAP_BOUNDS = 2"
| "trap_number JELLO_TRAP_NULL_DEREF = 3"
| "trap_number JELLO_TRAP_THROWN = 4"
| "trap_number JELLO_TRAP_STACK_OVERFLOW = 5"
| "trap_number JELLO_TRAP_FUEL = 6"
| "trap_number JELLO_TRAP_LIMIT = 7"

record call_frame =
  cf_f :: jello_bc_function
  cf_rf :: reg_frame
  cf_pc :: u32
  cf_caller_dst :: u32
  cf_exc_base :: u32
  cf_has_caller :: bool
  cf_idx :: u32
  cf_has_pointer_or_dynamic :: bool

record exc_handler =
  h_frame_index :: u32
  h_catch_pc :: u32
  h_dst_reg :: u32
  h_trap_only :: bool

record exec_ctx =
  x_vm :: jello_vm
  x_m :: jello_bc_module
  x_below :: "call_frame list"
  x_fr :: call_frame
  x_exc_handlers :: "exc_handler list"
  x_exc_pending :: bool
  x_exc_payload :: jello_value
  x_trap_code :: jello_trap_code
  x_trap_msg :: "string option"
  x_fuel_limit :: u64
  x_fuel_remaining :: u64
  x_call_frames_max :: u32
  x_max_bytes_len :: u32
  x_max_array_len :: u32
  x_out :: jello_value
  x_out_exports :: "jello_value option"
  x_entry_module_idx :: u32

datatype op_result = OP_CONTINUE | OP_RETURN | OP_TRAP

type_synonym handler = "exec_ctx \<Rightarrow> jello_insn \<Rightarrow> (op_result \<times> exec_ctx) run"

text \<open>\<open>x_rf\<close> is \<^verbatim>\<open>ctx->fr->rf\<close>, \<open>x_f\<close> is \<^verbatim>\<open>ctx->f\<close>, which is always \<^verbatim>\<open>ctx->fr->f\<close>.\<close>

abbreviation x_rf :: "exec_ctx \<Rightarrow> reg_frame" where "x_rf x \<equiv> cf_rf (x_fr x)"
abbreviation x_f :: "exec_ctx \<Rightarrow> jello_bc_function" where "x_f x \<equiv> cf_f (x_fr x)"
abbreviation x_pc :: "exec_ctx \<Rightarrow> u32" where "x_pc x \<equiv> cf_pc (x_fr x)"

definition set_rf :: "exec_ctx \<Rightarrow> reg_frame \<Rightarrow> exec_ctx" where
  "set_rf x rf = x\<lparr>x_fr := (x_fr x)\<lparr>cf_rf := rf\<rparr>\<rparr>"

definition set_pc :: "exec_ctx \<Rightarrow> u32 \<Rightarrow> exec_ctx" where
  "set_pc x pc = x\<lparr>x_fr := (x_fr x)\<lparr>cf_pc := pc\<rparr>\<rparr>"

text \<open>A store to the top frame followed by \<^verbatim>\<open>return OP_CONTINUE\<close>.\<close>

definition continue_with :: "exec_ctx \<Rightarrow> reg_frame run \<Rightarrow> (op_result \<times> exec_ctx) run" where
  "continue_with x st = rbind st (\<lambda>rf. Inr (OP_CONTINUE, set_rf x rf))"

definition call_frames_len :: "exec_ctx \<Rightarrow> u32" where
  "call_frames_len x = of_nat (length (x_below x)) + 1"

section \<open>Trap locations\<close>

definition snprintf_cap :: "nat \<Rightarrow> string \<Rightarrow> string" where
  "snprintf_cap n s = take (n - 1) s"

definition byte_string :: "u8 list \<Rightarrow> string" where
  "byte_string bs = map (\<lambda>b. char_of (unat b)) (takeWhile (\<lambda>b. b \<noteq> 0) bs)"

text \<open>The digits of \<^verbatim>\<open>%u\<close>.\<close>

fun digits :: "nat \<Rightarrow> string" where
  "digits n = (if n < 10 then [char_of (48 + n)] else digits (n div 10) @ [char_of (48 + n mod 10)])"

declare digits.simps [simp del]

text \<open>\<open>after_last c s\<close> is what follows the last \<open>c\<close> in \<open>s\<close>, the string at \<^verbatim>\<open>strrchr(s, c) + 1\<close>.\<close>

definition after_last :: "char \<Rightarrow> string \<Rightarrow> string option" where
  "after_last c s = (if c \<in> set s then Some (rev (takeWhile (\<lambda>x. x \<noteq> c) (rev s))) else None)"

definition trap_source_basename :: "string \<Rightarrow> string" where
  "trap_source_basename path =
     (case after_last (CHR ''/'') path of
        Some b \<Rightarrow> b
      | None \<Rightarrow> (case after_last (CHR 0x5C) path of Some b \<Rightarrow> b | None \<Rightarrow> path))"

fun has_substring :: "string \<Rightarrow> string \<Rightarrow> bool" where
  "has_substring pat [] \<longleftrightarrow> pat = []"
| "has_substring pat (c # s) \<longleftrightarrow> take (length pat) (c # s) = pat \<or> has_substring pat s"

definition trap_msg_has_location :: "string \<Rightarrow> bool" where
  "trap_msg_has_location msg = has_substring ''.jello:'' msg"

definition format_trap_loc :: "nat \<Rightarrow> string \<Rightarrow> u32 \<Rightarrow> string" where
  "format_trap_loc cap file loc =
     (let line = ucast (loc AND 0xFFFF) :: u16; col = ucast (drop_bit 16 loc) :: u16 in
      snprintf_cap cap
        (if 0 < col then file @ '':'' @ digits (unat line) @ '':'' @ digits (unat col) @ '': ''
         else file @ '':'' @ digits (unat line) @ '': ''))"

text \<open>The message with the location of the trapping instruction in front, when the module has a line
  table: \<open>None\<close> is an early return that leaves \<^verbatim>\<open>trap_msg\<close> alone. While a frame exists the module is
  running.\<close>

definition maybe_prefix_trap_location :: "exec_ctx \<Rightarrow> string \<Rightarrow> string option" where
  "maybe_prefix_trap_location x msg =
     (let m = x_m x; f = x_f x; pc = x_pc x - 1; loc = f_lines f ! unat pc in
      if trap_msg_has_location msg then None
      else if \<not> running_module (x_vm x) then None
      else if \<not> has_feat (m_features m) JELLO_BC_FEAT_LINE_TABLE \<or> m_nsource_files m = 0 then None
      else if f_lines f = [] \<or> f_nlines f \<noteq> f_ninsns f \<or> x_pc x = 0 then None
      else if f_nlines f \<le> pc then None
      else if (ucast (loc AND 0xFFFF) :: u16) = 0 then None
      else if m_nsource_files m \<le> ucast (f_source_file f) then None
      else
        (let file = trap_source_basename (byte_string (m_source_files m ! unat (f_source_file f))) in
         Some (snprintf_cap 512 (format_trap_loc 512 file loc @ msg))))"

definition jello_vm_trap :: "exec_ctx \<Rightarrow> jello_trap_code \<Rightarrow> string option \<Rightarrow> exec_ctx" where
  "jello_vm_trap x code msg =
     x\<lparr>x_trap_code := code,
       x_trap_msg :=
         (case msg of
            None \<Rightarrow> None
          | Some s \<Rightarrow> Some (case maybe_prefix_trap_location x s of Some t \<Rightarrow> t | None \<Rightarrow> snprintf_cap 512 s)),
       x_exc_pending := True,
       x_exc_payload := jello_make_i32 (trap_number code)\<rparr>"

definition jello_vm_clear_trap :: "exec_ctx \<Rightarrow> exec_ctx" where
  "jello_vm_clear_trap x = x\<lparr>x_trap_code := JELLO_TRAP_NONE, x_trap_msg := None\<rparr>"

text \<open>\<open>Inl\<close> is the return value \<open>-1\<close>, with the trap set.\<close>

definition jello_vm_fuel_charge :: "exec_ctx \<Rightarrow> exec_ctx + exec_ctx" where
  "jello_vm_fuel_charge x =
     (if x_fuel_limit x = 0 then Inr x
      else if x_fuel_remaining x = 0 then
        Inl (jello_vm_trap x JELLO_TRAP_FUEL (Some ''instruction limit exceeded''))
      else Inr (x\<lparr>x_fuel_remaining := x_fuel_remaining x - 1\<rparr>))"

section \<open>Exception handlers\<close>

text \<open>The handler stack, top last; the array behind it grows before a push, which \<^verbatim>\<open>jello_vm_panic\<close>s only
  when memory runs out.\<close>

definition vm_exc_push :: "exec_ctx \<Rightarrow> u32 \<Rightarrow> u32 \<Rightarrow> u32 \<Rightarrow> bool \<Rightarrow> exec_ctx" where
  "vm_exc_push x frame_index catch_pc dst_reg trap_only =
     x\<lparr>x_exc_handlers := x_exc_handlers x @
       [\<lparr>h_frame_index = frame_index, h_catch_pc = catch_pc, h_dst_reg = dst_reg, h_trap_only = trap_only\<rparr>]\<rparr>"

definition vm_exc_pop :: "exec_ctx \<Rightarrow> (exc_handler \<times> exec_ctx) option" where
  "vm_exc_pop x =
     (if x_exc_handlers x = [] then None
      else Some (last (x_exc_handlers x), x\<lparr>x_exc_handlers := butlast (x_exc_handlers x)\<rparr>))"

fun pop_while_frame :: "u32 \<Rightarrow> exc_handler list \<Rightarrow> exc_handler list" where
  "pop_while_frame i [] = []"
| "pop_while_frame i (h # hs) = (if h_frame_index h = i then pop_while_frame i hs else h # hs)"

definition vm_exc_pop_for_frame :: "exec_ctx \<Rightarrow> u32 \<Rightarrow> exec_ctx" where
  "vm_exc_pop_for_frame x frame_index =
     x\<lparr>x_exc_handlers := rev (pop_while_frame frame_index (rev (x_exc_handlers x)))\<rparr>"

section \<open>Control\<close>

definition op_nop :: handler where
  "op_nop x ins = Inr (OP_CONTINUE, x)"

text \<open>\<^verbatim>\<open>int32_t npc = (int32_t)fr->pc + d; if(npc < 0 || npc > (int32_t)f->ninsns) jello_vm_panic();\<close>\<close>

definition jump_target :: "exec_ctx \<Rightarrow> u32 \<Rightarrow> u32 run" where
  "jump_target x d =
     (let npc = x_pc x + d in
      if sint npc < 0 \<or> sint (f_ninsns (x_f x)) < sint npc then Inl PANIC else Inr npc)"

definition op_jmp :: handler where
  "op_jmp x ins =
     rbind (jump_target x (i_imm ins)) (\<lambda>npc.
       if sint (i_imm ins) < 0 then
         (case jello_vm_fuel_charge x of
            Inl x' \<Rightarrow> Inr (OP_TRAP, x')
          | Inr x' \<Rightarrow> Inr (OP_CONTINUE, set_pc x' npc))
       else Inr (OP_CONTINUE, set_pc x npc))"

definition op_jmp_if :: handler where
  "op_jmp_if x ins =
     rbind (vm_load_u32 (x_rf x) (unat (i_a ins))) (\<lambda>cond.
       if cond \<noteq> 0 then rbind (jump_target x (i_imm ins)) (\<lambda>npc. Inr (OP_CONTINUE, set_pc x npc))
       else Inr (OP_CONTINUE, x))"

definition op_try :: handler where
  "op_try x ins =
     (let frame_index = call_frames_len x - 1 in
      rbind (jump_target x (i_imm ins)) (\<lambda>catch_pc.
        Inr (OP_CONTINUE, vm_exc_push x frame_index catch_pc (ucast (i_a ins)) (i_b ins \<noteq> 0))))"

definition op_endtry :: handler where
  "op_endtry x ins =
     (let frame_index = call_frames_len x - 1 in
      case vm_exc_pop x of
        None \<Rightarrow> Inl PANIC
      | Some (h, x') \<Rightarrow> if h_frame_index h \<noteq> frame_index then Inl PANIC else Inr (OP_CONTINUE, x'))"

definition op_throw :: handler where
  "op_throw x ins =
     rbind (vm_load_val (x_rf x) (unat (i_a ins))) (\<lambda>payload.
       Inr (OP_TRAP, x\<lparr>x_trap_code := JELLO_TRAP_THROWN, x_trap_msg := Some ''unhandled throw'',
         x_exc_pending := True, x_exc_payload := payload\<rparr>))"

section \<open>Moves and constants\<close>

definition op_mov :: handler where
  "op_mov x ins =
     rbind (vm_reg_kind (x_m x) (x_f x) (unat (i_a ins))) (\<lambda>k.
     rbind (vm_reg_ptr (x_rf x) (unat (i_a ins))) (\<lambda>dst.
     rbind (vm_reg_ptr (x_rf x) (unat (i_b ins))) (\<lambda>src.
     rbind (read_at (x_rf x) src (jello_slot_size k)) (\<lambda>bs.
       continue_with x (write_at (x_rf x) dst bs)))))"

definition op_const_i8_imm :: handler where
  "op_const_i8_imm x ins = continue_with x (vm_store_u32 (x_rf x) (unat (i_a ins)) (scast (i_c ins)))"

definition op_const_i32 :: handler where
  "op_const_i32 x ins = continue_with x (vm_store_u32 (x_rf x) (unat (i_a ins)) (i_imm ins))"

text \<open>An index into a constant pool outside the pool reads past the array.\<close>

definition pool_at :: "'a list \<Rightarrow> u32 \<Rightarrow> 'a run" where
  "pool_at xs i = (if unat i < length xs then Inr (xs ! unat i) else Inl FAULT)"

definition op_const_i64 :: handler where
  "op_const_i64 x ins =
     rbind (pool_at (m_const_i64 (x_m x)) (i_imm ins)) (\<lambda>v.
       continue_with x (vm_store_i64 (x_rf x) (unat (i_a ins)) v))"

definition op_const_f16 :: handler where
  "op_const_f16 x ins =
     continue_with x (vm_store_f16_bits (x_rf x) (unat (i_a ins)) (ucast (i_imm ins AND 0xFFFF)))"

definition op_const_bool :: handler where
  "op_const_bool x ins = continue_with x (vm_store_u32 (x_rf x) (unat (i_a ins)) (ucast (i_c ins AND 1)))"

definition op_const_atom :: handler where
  "op_const_atom x ins = continue_with x (vm_store_u32 (x_rf x) (unat (i_a ins)) (i_imm ins))"

definition op_const_null :: handler where
  "op_const_null x ins = continue_with x (vm_store_val (x_rf x) (unat (i_a ins)) jello_make_null)"

definition op_const_f32 :: handler where
  "op_const_f32 x ins = continue_with x (vm_store_f32 (x_rf x) (unat (i_a ins)) (i_imm ins))"

definition op_const_f64 :: handler where
  "op_const_f64 x ins =
     rbind (pool_at (m_const_f64 (x_m x)) (i_imm ins)) (\<lambda>v.
       continue_with x (vm_store_f64 (x_rf x) (unat (i_a ins)) v))"

end
