(* ===== verification/Jello_Channel.thy ===== *)
theory Jello_Channel
  imports Jello_Copy Jello_Exec
begin

text \<open>
  Channels between threads (\<^verbatim>\<open>src/thread/channel.c\<close>): a ring of cells behind a mutex and two condition variables. What a thread does
  while it holds the mutex is one function; \<open>chan_step\<close> interleaves the threads at the points where they take the mutex,
  wait or are woken. A wait may end without a signal, as POSIX allows.

  The lemmas show that messages come out in the order they went in, whatever the threads do, that no wake-up is lost, and what
  happens when the 32-bit positions wrap around.
\<close>

section \<open>The ring\<close>

definition JELLO_CHANNEL_DEFAULT_CAP :: u32 where "JELLO_CHANNEL_DEFAULT_CAP = 64"

record jello_channel =
  ch_cap :: u32
  ch_head :: u32
  ch_tail :: u32
  ch_count :: u32
  ch_closed :: bool
  ch_cells :: "jello_channel_cell list"

text \<open>\<open>mem n\<close> says whether the cells could be allocated; the mutex and the condition variables are initialised without error.\<close>

definition jello_channel_new :: "(nat \<Rightarrow> bool) \<Rightarrow> u32 \<Rightarrow> jello_channel option" where
  "jello_channel_new mem capacity =
     (let capacity = (if capacity = 0 then JELLO_CHANNEL_DEFAULT_CAP else capacity) in
      if \<not> mem (unat capacity) then None
      else Some \<lparr>ch_cap = capacity, ch_head = 0, ch_tail = 0, ch_count = 0, ch_closed = False,
             ch_cells = replicate (unat capacity) CELL_NULL\<rparr>)"

definition channel_slot :: "jello_channel \<Rightarrow> u32 \<Rightarrow> nat" where
  "channel_slot ch index = unat (index mod ch_cap ch)"

text \<open>What a thread finds when it holds the mutex: it has to wait, it is refused, or it is done.\<close>

datatype 'a locked = WAIT | REFUSED | DONE 'a

definition send_locked :: "jello_channel \<Rightarrow> jello_channel_cell \<Rightarrow> jello_channel locked" where
  "send_locked ch c =
     (if \<not> ch_closed ch \<and> ch_cap ch \<le> ch_count ch then WAIT
      else if ch_closed ch then REFUSED
      else DONE (ch\<lparr>ch_cells := (ch_cells ch)[channel_slot ch (ch_tail ch) := c],
                   ch_tail := ch_tail ch + 1, ch_count := ch_count ch + 1\<rparr>))"

definition channel_recv_locked :: "jello_channel \<Rightarrow> bool \<Rightarrow> (jello_channel_cell \<times> jello_channel) locked" where
  "channel_recv_locked ch block =
     (if block \<and> ch_count ch = 0 \<and> \<not> ch_closed ch then WAIT
      else if ch_count ch = 0 then REFUSED
      else
        (let i = channel_slot ch (ch_head ch) in
         DONE (ch_cells ch ! i,
               ch\<lparr>ch_cells := (ch_cells ch)[i := CELL_NULL], ch_head := ch_head ch + 1, ch_count := ch_count ch - 1\<rparr>)))"

definition jello_channel_close :: "jello_channel \<Rightarrow> bool \<times> jello_channel" where
  "jello_channel_close ch = (if ch_closed ch then (False, ch) else (True, ch\<lparr>ch_closed := True\<rparr>))"

section \<open>The calls of one thread\<close>

text \<open>\<^verbatim>\<open>jello_channel_send\<close> up to the mutex: the cell, or the return value 0 with a trap (\<open>Inl\<close>); \<open>None\<close> as in \<open>Jello_Copy\<close>.\<close>

definition send_prepare :: "(nat \<Rightarrow> bool) \<Rightarrow> exec_ctx \<Rightarrow> jello_value \<Rightarrow> (exec_ctx + jello_channel_cell) option" where
  "send_prepare mem x msg =
     Option.bind (jello_value_is_copy_safe (vm_heap (x_vm x)) msg) (\<lambda>safe.
       if \<not> safe then Some (Inl (jello_vm_trap x JELLO_TRAP_TYPE_MISMATCH (Some ''channel send: value not copy-safe'')))
       else
         map_option (\<lambda>c. case c of
             None \<Rightarrow> Inl (jello_vm_trap x JELLO_TRAP_TYPE_MISMATCH (Some ''channel send: marshal failed''))
           | Some c \<Rightarrow> Inr c)
           (channel_cell_from_value mem (vm_heap (x_vm x)) msg))"

text \<open>\<^verbatim>\<open>channel_recv_locked\<close> after the mutex: the value for a cell, or for none (an empty channel gives null).\<close>

definition recv_finish :: "alloc_fun \<Rightarrow> exec_ctx \<Rightarrow> jello_channel_cell option \<Rightarrow> (exec_ctx \<times> jello_value option) option" where
  "recv_finish malloc x c =
     (case c of
        None \<Rightarrow> Some (x, Some jello_make_null)
      | Some c \<Rightarrow>
          map_option (\<lambda>(vm, v).
              case v of
                None \<Rightarrow> (jello_vm_trap (x\<lparr>x_vm := vm\<rparr>) JELLO_TRAP_TYPE_MISMATCH (Some ''channel recv: copy failed''), None)
              | Some v \<Rightarrow> (x\<lparr>x_vm := vm\<rparr>, Some v))
            (channel_cell_to_value malloc (x_vm x) c))"

section \<open>Threads\<close>

text \<open>A thread is about to take the mutex, waits, has been woken, or has returned.\<close>

datatype thread =
    Sending jello_channel_cell | Wait_not_full jello_channel_cell | Woken_not_full jello_channel_cell
  | Receiving bool | Wait_not_empty | Woken_not_empty
  | Closing
  | Sent bool | Received "jello_channel_cell option" | Closed bool

fun wake :: "thread \<Rightarrow> thread" where
  "wake (Wait_not_full c) = Woken_not_full c"
| "wake Wait_not_empty = Woken_not_empty"
| "wake t = t"

fun waits_not_full :: "thread \<Rightarrow> bool" where
  "waits_not_full (Wait_not_full c) = True"
| "waits_not_full _ = False"

fun waits_not_empty :: "thread \<Rightarrow> bool" where
  "waits_not_empty Wait_not_empty = True"
| "waits_not_empty _ = False"

fun sends :: "thread \<Rightarrow> jello_channel_cell option" where
  "sends (Sending c) = Some c"
| "sends (Woken_not_full c) = Some c"
| "sends _ = None"

fun receives :: "thread \<Rightarrow> bool option" where
  "receives (Receiving block) = Some block"
| "receives Woken_not_empty = Some True"
| "receives _ = None"

text \<open>\<^verbatim>\<open>pthread_cond_signal\<close> wakes one of the threads that wait, if there is one.\<close>

definition signalled :: "(thread \<Rightarrow> bool) \<Rightarrow> thread list \<Rightarrow> thread list \<Rightarrow> bool" where
  "signalled waits ts ts' \<longleftrightarrow>
     (\<exists>j<length ts. waits (ts ! j) \<and> ts' = ts[j := wake (ts ! j)]) \<or> (\<forall>t\<in>set ts. \<not> waits t) \<and> ts' = ts"

text \<open>\<open>s_sent\<close> and \<open>s_got\<close> record the messages put into and taken from the ring, in order.\<close>

record chan_sys =
  s_ch :: jello_channel
  s_threads :: "thread list"
  s_sent :: "jello_channel_cell list"
  s_got :: "jello_channel_cell list"

inductive chan_step :: "chan_sys \<Rightarrow> chan_sys \<Rightarrow> bool" where
  send_wait: "i < length (s_threads s) \<Longrightarrow> sends (s_threads s ! i) = Some c \<Longrightarrow> send_locked (s_ch s) c = WAIT \<Longrightarrow>
    chan_step s (s\<lparr>s_threads := (s_threads s)[i := Wait_not_full c]\<rparr>)"
| send_refused: "i < length (s_threads s) \<Longrightarrow> sends (s_threads s ! i) = Some c \<Longrightarrow> send_locked (s_ch s) c = REFUSED \<Longrightarrow>
    chan_step s (s\<lparr>s_threads := (s_threads s)[i := Sent False]\<rparr>)"
| send_done: "i < length (s_threads s) \<Longrightarrow> sends (s_threads s ! i) = Some c \<Longrightarrow> send_locked (s_ch s) c = DONE ch \<Longrightarrow>
    signalled waits_not_empty ((s_threads s)[i := Sent True]) ts \<Longrightarrow>
    chan_step s (s\<lparr>s_ch := ch, s_threads := ts, s_sent := s_sent s @ [c]\<rparr>)"
| recv_wait: "i < length (s_threads s) \<Longrightarrow> receives (s_threads s ! i) = Some block \<Longrightarrow> channel_recv_locked (s_ch s) block = WAIT \<Longrightarrow>
    chan_step s (s\<lparr>s_threads := (s_threads s)[i := Wait_not_empty]\<rparr>)"
| recv_refused: "i < length (s_threads s) \<Longrightarrow> receives (s_threads s ! i) = Some block \<Longrightarrow> channel_recv_locked (s_ch s) block = REFUSED \<Longrightarrow>
    chan_step s (s\<lparr>s_threads := (s_threads s)[i := Received None]\<rparr>)"
| recv_done: "i < length (s_threads s) \<Longrightarrow> receives (s_threads s ! i) = Some block \<Longrightarrow> channel_recv_locked (s_ch s) block = DONE (c, ch) \<Longrightarrow>
    signalled waits_not_full ((s_threads s)[i := Received (Some c)]) ts \<Longrightarrow>
    chan_step s (s\<lparr>s_ch := ch, s_threads := ts, s_got := s_got s @ [c]\<rparr>)"
| close: "i < length (s_threads s) \<Longrightarrow> s_threads s ! i = Closing \<Longrightarrow> jello_channel_close (s_ch s) = (r, ch) \<Longrightarrow>
    chan_step s (s\<lparr>s_ch := ch, s_threads := (if r then map wake ((s_threads s)[i := Closed r]) else (s_threads s)[i := Closed r])\<rparr>)"
| spurious: "i < length (s_threads s) \<Longrightarrow> waits_not_full (s_threads s ! i) \<or> waits_not_empty (s_threads s ! i) \<Longrightarrow>
    chan_step s (s\<lparr>s_threads := (s_threads s)[i := wake (s_threads s ! i)]\<rparr>)"
| call: "t \<in> {Sending c, Receiving block, Closing} \<Longrightarrow> chan_step s (s\<lparr>s_threads := s_threads s @ [t]\<rparr>)"

definition chan_start :: "jello_channel \<Rightarrow> chan_sys" where
  "chan_start ch = \<lparr>s_ch = ch, s_threads = [], s_sent = [], s_got = []\<rparr>"

section \<open>First in, first out\<close>

text \<open>What the clients of a bounded queue rely on: \<open>rep q sent got\<close> says that \<open>q\<close> holds what was put in (\<open>sent\<close>) and not yet
  taken out (\<open>got\<close>); \<open>room q n\<close> that the queue can count \<open>n\<close> messages.\<close>

inductive transfer ::
  "('q \<Rightarrow> 'a \<Rightarrow> 'q locked) \<Rightarrow> ('q \<Rightarrow> bool \<Rightarrow> ('a \<times> 'q) locked) \<Rightarrow> ('q \<Rightarrow> bool \<times> 'q) \<Rightarrow>
    'q \<times> 'a list \<times> 'a list \<Rightarrow> 'q \<times> 'a list \<times> 'a list \<Rightarrow> bool"
  for put :: "'q \<Rightarrow> 'a \<Rightarrow> 'q locked" and get :: "'q \<Rightarrow> bool \<Rightarrow> ('a \<times> 'q) locked" and shut :: "'q \<Rightarrow> bool \<times> 'q" where
  put: "put q c = DONE q' \<Longrightarrow> transfer put get shut (q, sent, got) (q', sent @ [c], got)"
| get: "get q block = DONE (c, q') \<Longrightarrow> transfer put get shut (q, sent, got) (q', sent, got @ [c])"
| shut: "shut q = (r, q') \<Longrightarrow> transfer put get shut (q, sent, got) (q', sent, got)"

locale fifo =
  fixes rep :: "'q \<Rightarrow> 'a list \<Rightarrow> 'a list \<Rightarrow> bool"
    and room :: "'q \<Rightarrow> nat \<Rightarrow> bool"
    and put :: "'q \<Rightarrow> 'a \<Rightarrow> 'q locked"
    and get :: "'q \<Rightarrow> bool \<Rightarrow> ('a \<times> 'q) locked"
    and shut :: "'q \<Rightarrow> bool \<times> 'q"
  assumes put_law: "rep q sent got \<Longrightarrow> room q (length sent + 1) \<Longrightarrow> put q c = DONE q' \<Longrightarrow> rep q' (sent @ [c]) got"
    and get_law: "rep q sent got \<Longrightarrow> room q (length sent) \<Longrightarrow> get q block = DONE (c, q') \<Longrightarrow> rep q' sent (got @ [c])"
    and shut_law: "rep q sent got \<Longrightarrow> shut q = (r, q') \<Longrightarrow> rep q' sent got"
    and put_room: "put q c = DONE q' \<Longrightarrow> room q' n \<longleftrightarrow> room q n"
    and get_room: "get q block = DONE (c, q') \<Longrightarrow> room q' n \<longleftrightarrow> room q n"
    and shut_room: "shut q = (r, q') \<Longrightarrow> room q' n \<longleftrightarrow> room q n"
    and room_mono: "room q (n + 1) \<Longrightarrow> room q n"
begin

lemma transfer_rep:
  assumes "(transfer put get shut)\<^sup>*\<^sup>* a b" "rep (fst a) (fst (snd a)) (snd (snd a))" "room (fst b) (length (fst (snd b)))"
  shows "rep (fst b) (fst (snd b)) (snd (snd b))"
  using assms
proof (induction rule: rtranclp_induct)
  case base
  then show ?case by simp
next
  case (step b b')
  from step(2) show ?case
  proof cases
    case (put q c q' sent got)
    have "room q (length sent + 1)" using step(5) put put_room by auto
    then show ?thesis using put put_law step(3) [OF step(4)] room_mono by auto
  next
    case (get q block c q' sent got)
    have "room q (length sent)" using step(5) get get_room by auto
    then show ?thesis using get get_law step(3) [OF step(4)] by auto
  next
    case (shut q r q' sent got)
    have "room q (length sent)" using step(5) shut shut_room by auto
    then show ?thesis using shut shut_law step(3) [OF step(4)] by auto
  qed
qed

end

text \<open>The ring: positions run freely and are reduced modulo the capacity, which gives the right slot while they have not wrapped around
  at \<open>2^32\<close>, or for ever when the capacity divides \<open>2^32\<close>.\<close>

definition ring_room :: "jello_channel \<Rightarrow> nat \<Rightarrow> bool" where
  "ring_room ch n \<longleftrightarrow> unat (ch_cap ch) dvd 2 ^ 32 \<or> n \<le> 2 ^ 32"

definition ring_rep :: "jello_channel \<Rightarrow> jello_channel_cell list \<Rightarrow> jello_channel_cell list \<Rightarrow> bool" where
  "ring_rep ch sent got \<longleftrightarrow> 0 < ch_cap ch \<and> length (ch_cells ch) = unat (ch_cap ch) \<and> length got \<le> length sent \<and>
     length sent = length got + unat (ch_count ch) \<and> unat (ch_count ch) \<le> unat (ch_cap ch) \<and>
     unat (ch_head ch) = length got mod 2 ^ 32 \<and> unat (ch_tail ch) = length sent mod 2 ^ 32 \<and>
     sent = got @ map (\<lambda>k. ch_cells ch ! (k mod unat (ch_cap ch))) [length got..<length sent]"

lemma ring_slot:
  assumes "unat index = n mod 2 ^ 32" "ring_room ch (n + 1)"
  shows "channel_slot ch index = n mod unat (ch_cap ch)"
proof -
  have "channel_slot ch index = (n mod 2 ^ 32) mod unat (ch_cap ch)" by (simp add: channel_slot_def unat_mod assms(1))
  moreover have "n mod 2 ^ 32 mod unat (ch_cap ch) = n mod unat (ch_cap ch)"
    using assms(2) by (auto simp: ring_room_def mod_mod_cancel)
  ultimately show ?thesis by simp
qed

text \<open>Positions less than the capacity apart have different slots.\<close>

lemma mod_slot_neq: "m mod c \<noteq> n mod c" if "m < n" "n < m + c" for m n c :: nat
proof
  assume "m mod c = n mod c"
  then have "c dvd n - m" using that(1) mod_eq_dvd_iff_nat [of m n c] by simp
  then show False using that dvd_imp_le [of c "n - m"] by linarith
qed

lemma unat_inc: "unat (w :: u32) = n mod 2 ^ 32 \<Longrightarrow> unat (w + 1) = (n + 1) mod 2 ^ 32"
  by (simp add: unat_word_ariths mod_Suc_eq)

lemma unat_inc_less:
  assumes "unat (v :: u32) < unat (w :: u32)"
  shows "unat (v + 1) = unat v + 1"
proof -
  have "unat w < 2 ^ LENGTH(32)" by (rule unsigned_less)
  then have "unat v + 1 < 2 ^ LENGTH(32)" using assms by linarith
  then show ?thesis by (simp add: unat_word_ariths)
qed

lemma ring_put:
  assumes "ring_rep ch sent got" "ring_room ch (length sent + 1)" "send_locked ch c = DONE ch'"
  shows "ring_rep ch' (sent @ [c]) got"
proof -
  let ?cap = "unat (ch_cap ch)"
  let ?f = "\<lambda>k. ch_cells ch ! (k mod ?cap)"
  have r: "0 < ?cap" "length (ch_cells ch) = ?cap" "length sent = length got + unat (ch_count ch)"
    "unat (ch_head ch) = length got mod 2 ^ 32" "unat (ch_tail ch) = length sent mod 2 ^ 32" "sent = got @ map ?f [length got..<length sent]"
    using assms(1) by (auto simp: ring_rep_def unat_gt_0)
  have n: "unat (ch_count ch) < ?cap" and i: "channel_slot ch (ch_tail ch) = length sent mod ?cap"
    and ch': "ch' = ch\<lparr>ch_cells := (ch_cells ch)[length sent mod ?cap := c], ch_tail := ch_tail ch + 1, ch_count := ch_count ch + 1\<rparr>"
    using assms(3) ring_slot [OF r(5) assms(2)] by (auto simp: send_locked_def word_le_nat_alt not_le split: if_splits)
  have cnt: "unat (ch_count ch + 1) = unat (ch_count ch) + 1"
    using unat_inc_less [OF n] .
  let ?g = "\<lambda>k. (ch_cells ch)[length sent mod ?cap := c] ! (k mod ?cap)"
  have "?g k = ?f k" if "k \<in> {length got..<length sent}" for k
    using that r(3) n mod_slot_neq [of k "length sent" ?cap] by simp
  then have "map ?g [length got..<length sent] = map ?f [length got..<length sent]" by simp
  moreover have "?g (length sent) = c" using r(1,2) by simp
  ultimately have "sent @ [c] = got @ map ?g [length got..<length (sent @ [c])]"
    using r(3,6) by (simp add: upt_Suc_append)
  then show ?thesis
    using r n cnt unat_inc [OF r(5)] by (simp add: ring_rep_def ch' word_greater_zero_iff unat_gt_0)
qed

lemma ring_get:
  assumes "ring_rep ch sent got" "ring_room ch (length sent)" "channel_recv_locked ch block = DONE (c, ch')"
  shows "ring_rep ch' sent (got @ [c])"
proof -
  let ?cap = "unat (ch_cap ch)"
  let ?f = "\<lambda>k. ch_cells ch ! (k mod ?cap)"
  have r: "0 < ?cap" "length (ch_cells ch) = ?cap" "length sent = length got + unat (ch_count ch)" "unat (ch_count ch) \<le> ?cap"
    "unat (ch_head ch) = length got mod 2 ^ 32" "unat (ch_tail ch) = length sent mod 2 ^ 32" "sent = got @ map ?f [length got..<length sent]"
    using assms(1) by (auto simp: ring_rep_def unat_gt_0)
  have n: "ch_count ch \<noteq> 0" using assms(3) by (auto simp: channel_recv_locked_def split: if_splits)
  then have n': "0 < unat (ch_count ch)" by (simp add: unat_gt_0)
  have room: "ring_room ch (length got + 1)" using assms(2) r(3) n' by (auto simp: ring_room_def)
  have c: "c = ?f (length got)"
    and ch': "ch' = ch\<lparr>ch_cells := (ch_cells ch)[length got mod ?cap := CELL_NULL], ch_head := ch_head ch + 1, ch_count := ch_count ch - 1\<rparr>"
    using assms(3) ring_slot [OF r(5) room] n by (auto simp: channel_recv_locked_def Let_def split: if_splits)
  have cnt: "unat (ch_count ch - 1) = unat (ch_count ch) - 1" using n by (simp add: unat_minus_one)
  let ?g = "\<lambda>k. (ch_cells ch)[length got mod ?cap := CELL_NULL] ! (k mod ?cap)"
  have "?g k = ?f k" if "k \<in> {Suc (length got)..<length sent}" for k
    using that r(3,4) mod_slot_neq [of "length got" k ?cap] by simp
  then have m: "map ?g [Suc (length got)..<length sent] = map ?f [Suc (length got)..<length sent]" by simp
  have u: "[length got..<length sent] = length got # [Suc (length got)..<length sent]" using r(3) n' by (simp add: upt_conv_Cons)
  have "sent = got @ map ?f (length got # [Suc (length got)..<length sent])" using r(7) unfolding u .
  then have "sent = (got @ [c]) @ map ?g [length (got @ [c])..<length sent]"
    unfolding length_append_singleton m c by simp
  then show ?thesis
    using r n' cnt unat_inc [OF r(5)] by (simp add: ring_rep_def ch' word_greater_zero_iff unat_gt_0) (use n' in linarith)
qed

lemma locked_cap:
  "send_locked ch c = DONE ch' \<Longrightarrow> ch_cap ch' = ch_cap ch" "channel_recv_locked ch block = DONE (c', ch') \<Longrightarrow> ch_cap ch' = ch_cap ch"
  "jello_channel_close ch = (r, ch') \<Longrightarrow> ch_cap ch' = ch_cap ch"
  by (auto simp: send_locked_def channel_recv_locked_def jello_channel_close_def Let_def split: if_splits)

interpretation ring: fifo ring_rep ring_room send_locked channel_recv_locked jello_channel_close
proof
  show "ring_rep q sent got \<Longrightarrow> jello_channel_close q = (r, q') \<Longrightarrow> ring_rep q' sent got" for q sent got r q'
    by (auto simp: ring_rep_def jello_channel_close_def split: if_splits)
qed (auto simp: ring_put ring_get ring_room_def dest: locked_cap)

text \<open>Every step of the threads is a transfer on the ring, or leaves it alone.\<close>

abbreviation ring_of :: "chan_sys \<Rightarrow> jello_channel \<times> jello_channel_cell list \<times> jello_channel_cell list" where
  "ring_of s \<equiv> (s_ch s, s_sent s, s_got s)"

lemma chan_step_transfer:
  "chan_step s s' \<Longrightarrow> (transfer send_locked channel_recv_locked jello_channel_close)\<^sup>*\<^sup>* (ring_of s) (ring_of s')"
  by (induction rule: chan_step.induct) (auto intro: transfer.intros)

lemma chan_steps_transfer:
  "chan_step\<^sup>*\<^sup>* s s' \<Longrightarrow> (transfer send_locked channel_recv_locked jello_channel_close)\<^sup>*\<^sup>* (ring_of s) (ring_of s')"
  by (induction rule: rtranclp_induct) (auto dest: chan_step_transfer)

lemma ring_new: "jello_channel_new mem capacity = Some ch \<Longrightarrow> ring_rep ch [] [] \<and> ch_count ch = 0 \<and> \<not> ch_closed ch"
  by (auto simp: jello_channel_new_def Let_def ring_rep_def JELLO_CHANNEL_DEFAULT_CAP_def word_greater_zero_iff split: if_splits)

text \<open>C29: messages come out of a channel in the order they went in, none lost and none twice: after any steps of any number of threads
  that send, receive and close, the messages received followed by the messages in the ring are the messages sent, and the ring
  holds at most its capacity. This needs a capacity that divides \<open>2^32\<close>, or fewer than \<open>2^32\<close> messages.\<close>

theorem channel_is_fifo:
  assumes "jello_channel_new mem capacity = Some ch" "chan_step\<^sup>*\<^sup>* (chan_start ch) s"
    and "unat (ch_cap (s_ch s)) dvd 2 ^ 32 \<or> length (s_sent s) \<le> 2 ^ 32"
  shows "\<exists>queue. s_sent s = s_got s @ queue \<and> length queue = unat (ch_count (s_ch s)) \<and> length queue \<le> unat (ch_cap (s_ch s))"
proof -
  have "(transfer send_locked channel_recv_locked jello_channel_close)\<^sup>*\<^sup>* (ring_of (chan_start ch)) (ring_of s)"
    by (rule chan_steps_transfer [OF assms(2)])
  moreover have "ring_rep ch [] []" using ring_new [OF assms(1)] by blast
  moreover have "ring_room (s_ch s) (length (s_sent s))" using assms(3) by (simp add: ring_room_def)
  ultimately have "ring_rep (s_ch s) (s_sent s) (s_got s)"
    using ring.transfer_rep [of "ring_of (chan_start ch)" "ring_of s"] by (simp add: chan_start_def)
  then show ?thesis unfolding ring_rep_def by (metis (no_types, lifting) add_diff_cancel_left' length_append)
qed

section \<open>Wake-ups\<close>

fun woken_not_full :: "thread \<Rightarrow> bool" where
  "woken_not_full (Woken_not_full c) = True"
| "woken_not_full _ = False"

fun woken_not_empty :: "thread \<Rightarrow> bool" where
  "woken_not_empty Woken_not_empty = True"
| "woken_not_empty _ = False"

abbreviation howmany :: "('a \<Rightarrow> bool) \<Rightarrow> 'a list \<Rightarrow> nat" where
  "howmany P ts \<equiv> length (filter P ts)"

lemma howmany_update:
  "i < length ts \<Longrightarrow> howmany P (ts[i := t]) + of_bool (P (ts ! i)) = howmany P ts + of_bool (P t)"
proof (induction ts arbitrary: i)
  case (Cons u ts)
  then show ?case by (cases i) auto
qed simp

text \<open>While a receiver waits, the channel is open and every message in it has a woken receiver coming for it; likewise for senders and
  free slots.\<close>

definition wakeups_ok :: "jello_channel \<Rightarrow> thread list \<Rightarrow> bool" where
  "wakeups_ok ch ts \<longleftrightarrow>
     (0 < howmany waits_not_empty ts \<longrightarrow> \<not> ch_closed ch \<and> unat (ch_count ch) \<le> howmany woken_not_empty ts) \<and>
     (0 < howmany waits_not_full ts \<longrightarrow> \<not> ch_closed ch \<and> unat (ch_cap ch) \<le> unat (ch_count ch) + howmany woken_not_full ts)"

lemma sends_kind: "sends t = Some c \<Longrightarrow> \<not> waits_not_full t \<and> \<not> waits_not_empty t \<and> \<not> woken_not_empty t"
  by (cases t) auto

lemma receives_kind: "receives t = Some b \<Longrightarrow> \<not> waits_not_full t \<and> \<not> waits_not_empty t \<and> \<not> woken_not_full t"
  by (cases t) auto

lemma wake_kind:
  "waits_not_full t \<Longrightarrow> woken_not_full (wake t) \<and> \<not> woken_not_empty (wake t) \<and> \<not> waits_not_empty t \<and> \<not> woken_not_full t \<and> \<not> woken_not_empty t"
  "waits_not_empty t \<Longrightarrow> woken_not_empty (wake t) \<and> \<not> woken_not_full (wake t) \<and> \<not> waits_not_full t \<and> \<not> woken_not_full t \<and> \<not> woken_not_empty t"
  "\<not> waits_not_full (wake t) \<and> \<not> waits_not_empty (wake t)"
  by (cases t; simp)+

lemma counts_update:
  assumes "i < length ts"
  shows "howmany waits_not_full (ts[i := t]) + of_bool (waits_not_full (ts ! i)) = howmany waits_not_full ts + of_bool (waits_not_full t)"
    "howmany woken_not_full (ts[i := t]) + of_bool (woken_not_full (ts ! i)) = howmany woken_not_full ts + of_bool (woken_not_full t)"
    "howmany waits_not_empty (ts[i := t]) + of_bool (waits_not_empty (ts ! i)) = howmany waits_not_empty ts + of_bool (waits_not_empty t)"
    "howmany woken_not_empty (ts[i := t]) + of_bool (woken_not_empty (ts ! i)) = howmany woken_not_empty ts + of_bool (woken_not_empty t)"
  using howmany_update [OF assms] by blast+

text \<open>A signal, in numbers.\<close>

lemma signalled_counts:
  "signalled waits_not_empty ts ts' \<Longrightarrow>
    howmany waits_not_full ts' = howmany waits_not_full ts \<and> howmany woken_not_full ts' = howmany woken_not_full ts \<and>
    (howmany waits_not_empty ts = 0 \<and> ts' = ts \<or>
     howmany waits_not_empty ts = howmany waits_not_empty ts' + 1 \<and> howmany woken_not_empty ts' = howmany woken_not_empty ts + 1)"
  "signalled waits_not_full ts ts' \<Longrightarrow>
    howmany waits_not_empty ts' = howmany waits_not_empty ts \<and> howmany woken_not_empty ts' = howmany woken_not_empty ts \<and>
    (howmany waits_not_full ts = 0 \<and> ts' = ts \<or>
     howmany waits_not_full ts = howmany waits_not_full ts' + 1 \<and> howmany woken_not_full ts' = howmany woken_not_full ts + 1)"
proof -
  have n: "(\<forall>t\<in>set ts. \<not> P t) \<Longrightarrow> howmany P ts = 0" for P :: "thread \<Rightarrow> bool" by (simp add: filter_empty_conv)
  show "signalled waits_not_empty ts ts' \<Longrightarrow> howmany waits_not_full ts' = howmany waits_not_full ts \<and> howmany woken_not_full ts' = howmany woken_not_full ts \<and>
    (howmany waits_not_empty ts = 0 \<and> ts' = ts \<or>
     howmany waits_not_empty ts = howmany waits_not_empty ts' + 1 \<and> howmany woken_not_empty ts' = howmany woken_not_empty ts + 1)"
    unfolding signalled_def
  proof (elim disjE exE conjE)
    fix j assume j: "j < length ts" "waits_not_empty (ts ! j)" "ts' = ts[j := wake (ts ! j)]"
    show "howmany waits_not_full ts' = howmany waits_not_full ts \<and> howmany woken_not_full ts' = howmany woken_not_full ts \<and>
    (howmany waits_not_empty ts = 0 \<and> ts' = ts \<or>
     howmany waits_not_empty ts = howmany waits_not_empty ts' + 1 \<and> howmany woken_not_empty ts' = howmany woken_not_empty ts + 1)" using counts_update [OF j(1), of "wake (ts ! j)"] wake_kind(2,3) [of "ts ! j"] j(2)
      unfolding j(3) by (simp add: of_bool_def del: length_0_conv)
  qed (use n in blast)
  show "signalled waits_not_full ts ts' \<Longrightarrow> howmany waits_not_empty ts' = howmany waits_not_empty ts \<and> howmany woken_not_empty ts' = howmany woken_not_empty ts \<and>
    (howmany waits_not_full ts = 0 \<and> ts' = ts \<or>
     howmany waits_not_full ts = howmany waits_not_full ts' + 1 \<and> howmany woken_not_full ts' = howmany woken_not_full ts + 1)"
    unfolding signalled_def
  proof (elim disjE exE conjE)
    fix j assume j: "j < length ts" "waits_not_full (ts ! j)" "ts' = ts[j := wake (ts ! j)]"
    show "howmany waits_not_empty ts' = howmany waits_not_empty ts \<and> howmany woken_not_empty ts' = howmany woken_not_empty ts \<and>
    (howmany waits_not_full ts = 0 \<and> ts' = ts \<or>
     howmany waits_not_full ts = howmany waits_not_full ts' + 1 \<and> howmany woken_not_full ts' = howmany woken_not_full ts + 1)" using counts_update [OF j(1), of "wake (ts ! j)"] wake_kind(1,3) [of "ts ! j"] j(2)
      unfolding j(3) by (simp add: of_bool_def del: length_0_conv)
  qed (use n in blast)
qed

lemma chan_step_wakeups:
  assumes "chan_step s s'" "wakeups_ok (s_ch s) (s_threads s)"
  shows "wakeups_ok (s_ch s') (s_threads s')"
  using assms
proof cases
  case (send_wait i c)
  then have "ch_cap (s_ch s) \<le> ch_count (s_ch s)" "\<not> ch_closed (s_ch s)" by (auto simp: send_locked_def split: if_splits)
  then show ?thesis using send_wait assms(2) counts_update [OF send_wait(2), of "Wait_not_full c"] sends_kind [OF send_wait(3)]
    by (auto simp: wakeups_ok_def word_le_nat_alt)
next
  case (send_refused i c)
  then have "ch_closed (s_ch s)" by (auto simp: send_locked_def split: if_splits)
  then show ?thesis using send_refused assms(2) counts_update [OF send_refused(2), of "Sent False"] sends_kind [OF send_refused(3)]
    by (auto simp: wakeups_ok_def)
next
  case (send_done i c ch ts)
  then have ch: "unat (ch_count (s_ch s)) < unat (ch_cap (s_ch s))" "ch_cap ch = ch_cap (s_ch s)" "\<not> ch_closed ch"
    "ch_count ch = ch_count (s_ch s) + 1" by (auto simp: send_locked_def word_le_nat_alt not_le split: if_splits)
  let ?ts = "(s_threads s)[i := Sent True]"
  note u = counts_update [OF send_done(2), of "Sent True"] sends_kind [OF send_done(3)]
  have c: "howmany waits_not_full ?ts = howmany waits_not_full (s_threads s)" "howmany waits_not_empty ?ts = howmany waits_not_empty (s_threads s)"
    "howmany woken_not_empty ?ts = howmany woken_not_empty (s_threads s)" "howmany woken_not_full (s_threads s) \<le> howmany woken_not_full ?ts + 1"
    using u by (simp_all add: of_bool_def split: if_splits)
  have "0 < howmany waits_not_empty ts \<longrightarrow> unat (ch_count (s_ch s)) + 1 \<le> howmany woken_not_empty ts"
    using signalled_counts(1) [OF send_done(5)] c assms(2) by (auto simp: wakeups_ok_def)
  moreover have "0 < howmany waits_not_full ts \<longrightarrow> unat (ch_cap (s_ch s)) \<le> unat (ch_count (s_ch s)) + 1 + howmany woken_not_full ts"
    using signalled_counts(1) [OF send_done(5)] c assms(2) unfolding wakeups_ok_def by linarith
  ultimately show ?thesis using ch unat_inc_less [OF ch(1)] by (simp add: send_done(1) wakeups_ok_def)
next
  case (recv_wait i block)
  then have "ch_count (s_ch s) = 0" "\<not> ch_closed (s_ch s)" by (auto simp: channel_recv_locked_def Let_def split: if_splits)
  then show ?thesis using recv_wait assms(2) counts_update [OF recv_wait(2), of Wait_not_empty] receives_kind [OF recv_wait(3)]
    by (auto simp: wakeups_ok_def)
next
  case (recv_refused i block)
  then have "ch_count (s_ch s) = 0" by (auto simp: channel_recv_locked_def Let_def split: if_splits)
  then show ?thesis using recv_refused assms(2) counts_update [OF recv_refused(2), of "Received None"] receives_kind [OF recv_refused(3)]
    by (auto simp: wakeups_ok_def)
next
  case (recv_done i block c ch ts)
  then have n: "ch_count (s_ch s) \<noteq> 0" and ch: "ch_cap ch = ch_cap (s_ch s)" "ch_closed ch = ch_closed (s_ch s)"
    "ch_count ch = ch_count (s_ch s) - 1" by (auto simp: channel_recv_locked_def Let_def split: if_splits)
  have m: "unat (ch_count (s_ch s) - 1) = unat (ch_count (s_ch s)) - 1" "0 < unat (ch_count (s_ch s))"
    using n by (simp_all add: unat_minus_one unat_gt_0)
  let ?ts = "(s_threads s)[i := Received (Some c)]"
  note u = counts_update [OF recv_done(2), of "Received (Some c)"] receives_kind [OF recv_done(3)]
  have c: "howmany waits_not_full ?ts = howmany waits_not_full (s_threads s)" "howmany waits_not_empty ?ts = howmany waits_not_empty (s_threads s)"
    "howmany woken_not_full ?ts = howmany woken_not_full (s_threads s)" "howmany woken_not_empty (s_threads s) \<le> howmany woken_not_empty ?ts + 1"
    using u by (simp_all add: of_bool_def split: if_splits)
  have "0 < howmany waits_not_empty ts \<longrightarrow> \<not> ch_closed (s_ch s) \<and> unat (ch_count (s_ch s)) - 1 \<le> howmany woken_not_empty ts"
    using signalled_counts(2) [OF recv_done(5)] c assms(2) by (auto simp: wakeups_ok_def)
  moreover have "0 < howmany waits_not_full ts \<longrightarrow>
      \<not> ch_closed (s_ch s) \<and> unat (ch_cap (s_ch s)) \<le> unat (ch_count (s_ch s)) - 1 + howmany woken_not_full ts"
    using signalled_counts(2) [OF recv_done(5)] c assms(2) m(2) by (auto simp: wakeups_ok_def)
  ultimately show ?thesis using ch m by (simp add: recv_done(1) wakeups_ok_def)
next
  case (close i r ch)
  show ?thesis
  proof (cases r)
    case True
    then show ?thesis using close wake_kind(3) by (auto simp: wakeups_ok_def filter_empty_conv)
  next
    case False
    then show ?thesis using close assms(2) counts_update [OF close(2), of "Closed r"]
      by (auto simp: wakeups_ok_def jello_channel_close_def split: if_splits)
  qed
next
  case (spurious i)
  note u = counts_update [OF spurious(2), of "wake (s_threads s ! i)"]
  show ?thesis
  proof (cases "waits_not_full (s_threads s ! i)")
    case True
    from wake_kind(1) [OF True] wake_kind(3) [of "s_threads s ! i"] True u assms(2) show ?thesis
      by (auto simp: spurious(1) wakeups_ok_def)
  next
    case False
    then have "waits_not_empty (s_threads s ! i)" using spurious(3) by blast
    from wake_kind(2) [OF this] wake_kind(3) [of "s_threads s ! i"] this u assms(2) show ?thesis
      by (auto simp: spurious(1) wakeups_ok_def)
  qed
next
  case (call t c block)
  then show ?thesis using assms(2) by (auto simp: wakeups_ok_def)
qed
lemma chan_steps_wakeups:
  "chan_step\<^sup>*\<^sup>* s s' \<Longrightarrow> wakeups_ok (s_ch s) (s_threads s) \<Longrightarrow> wakeups_ok (s_ch s') (s_threads s')"
  by (induction rule: rtranclp_induct) (auto dest: chan_step_wakeups)

lemma woken_kind: "woken_not_empty t \<Longrightarrow> receives t \<noteq> None" "woken_not_full t \<Longrightarrow> sends t \<noteq> None"
  by (cases t; simp)+

text \<open>No thread is about to take the mutex: all have returned or wait.\<close>

definition idle :: "thread list \<Rightarrow> bool" where
  "idle ts \<longleftrightarrow> list_all (\<lambda>t. sends t = None \<and> receives t = None \<and> t \<noteq> Closing) ts"

text \<open>C30: no wake-up is lost: whatever happened before, when every thread has returned or waits, then a receiver waits only for an open
  channel that is empty and a sender only for an open channel that is full; in particular they never wait for each other, and
  nobody waits for a closed channel.\<close>

theorem channel_no_lost_wakeups:
  assumes "jello_channel_new mem capacity = Some ch" "chan_step\<^sup>*\<^sup>* (chan_start ch) s" "idle (s_threads s)"
  shows "(Wait_not_empty \<in> set (s_threads s) \<longrightarrow> ch_count (s_ch s) = 0 \<and> \<not> ch_closed (s_ch s)) \<and>
    (Wait_not_full c \<in> set (s_threads s) \<longrightarrow> ch_cap (s_ch s) \<le> ch_count (s_ch s) \<and> \<not> ch_closed (s_ch s))"
proof -
  have "wakeups_ok (s_ch s) (s_threads s)"
    by (rule chan_steps_wakeups [OF assms(2)]) (simp add: chan_start_def wakeups_ok_def)
  moreover have "howmany woken_not_empty (s_threads s) = 0" "howmany woken_not_full (s_threads s) = 0"
    using assms(3) woken_kind unfolding idle_def list_all_iff length_0_conv filter_empty_conv by blast+
  moreover have "0 < howmany waits_not_empty (s_threads s)" if "Wait_not_empty \<in> set (s_threads s)"
    using that by (simp add: filter_empty_conv) force
  moreover have "0 < howmany waits_not_full (s_threads s)" if "Wait_not_full c \<in> set (s_threads s)"
    using that by (simp add: filter_empty_conv) force
  ultimately show ?thesis by (auto simp: wakeups_ok_def word_le_nat_alt unat_eq_zero)
qed

section \<open>When positions wrap around\<close>

text \<open>A message sent and received at once.\<close>

definition pass :: "jello_channel_cell \<Rightarrow> jello_channel \<Rightarrow> jello_channel" where
  "pass c ch =
     (case send_locked ch c of
        DONE ch' \<Rightarrow> (case channel_recv_locked ch' False of DONE (c', ch'') \<Rightarrow> ch'' | _ \<Rightarrow> ch')
      | _ \<Rightarrow> ch)"

definition ring3 :: "nat \<Rightarrow> jello_channel" where
  "ring3 n = \<lparr>ch_cap = 3, ch_head = of_nat n, ch_tail = of_nat n, ch_count = 0, ch_closed = False,
     ch_cells = [CELL_NULL, CELL_NULL, CELL_NULL]\<rparr>"

lemma replicate_3: "replicate 3 x = [x, x, x]"
  by (simp add: numeral_3_eq_3)

lemma list_update_2: "[a, b, c][2 := d] = [a, b, d]" "[a, b, c] ! 2 = c"
  by (simp_all add: numeral_2_eq_2)

lemma ring3_new: "jello_channel_new (\<lambda>_. True) 3 = Some (ring3 0)"
  by (simp add: jello_channel_new_def ring3_def replicate_3)

lemma pass_ring3: "pass c (ring3 n) = ring3 (Suc n)"
proof -
  let ?i = "channel_slot (ring3 n) (of_nat n)"
  have "?i < 3"
    by (simp add: channel_slot_def ring3_def unat_mod)
  then consider "?i = 0" | "?i = 1" | "?i = 2" by linarith
  then show ?thesis
    by cases (simp_all add: pass_def send_locked_def channel_recv_locked_def ring3_def Let_def channel_slot_def list_update_2 word_le_nat_alt)
qed

lemma passes_ring3: "(pass c ^^ n) (ring3 0) = ring3 n"
  by (induction n) (simp_all add: pass_ring3)

text \<open>C39: a channel whose capacity does not divide \<open>2^32\<close> loses messages: a channel of capacity 3 that has passed \<open>2^32 - 1\<close> messages, one at
  a time, and is then sent 1 and 2 delivers 2 first, and a null that nobody sent after it.\<close>

theorem channel_wraparound_loses_message:
  "\<exists>ch0 a b c d. jello_channel_new (\<lambda>_. True) 3 = Some ch0 \<and>
     send_locked ((pass CELL_NULL ^^ (2 ^ 32 - 1)) ch0) (CELL_I32 1) = DONE a \<and> send_locked a (CELL_I32 2) = DONE b \<and>
     channel_recv_locked b True = DONE (CELL_I32 2, c) \<and> channel_recv_locked c True = DONE (CELL_NULL, d)"
proof -
  have "(pass CELL_NULL ^^ (2 ^ 32 - 1)) (ring3 0) = (ring3 0)\<lparr>ch_head := - 1, ch_tail := - 1\<rparr>"
  proof -
    have "(of_nat (2 ^ 32 - 1) :: u32) = - 1" by simp
    then show ?thesis unfolding passes_ring3 by (simp only: ring3_def jello_channel.simps)
  qed
  then show ?thesis
    unfolding ring3_new
    by (simp add: send_locked_def channel_recv_locked_def ring3_def channel_slot_def word_le_nat_alt Let_def)
qed

section \<open>Witnesses\<close>

lemma ring3_sent:
  "chan_step\<^sup>*\<^sup>* (chan_start (ring3 0)) \<lparr>s_ch = (ring3 0)\<lparr>ch_tail := 1, ch_count := 1, ch_cells := [CELL_I32 7, CELL_NULL, CELL_NULL]\<rparr>,
     s_threads = [Sent True], s_sent = [CELL_I32 7], s_got = []\<rparr>"
proof -
  let ?s = "(chan_start (ring3 0))\<lparr>s_threads := [Sending (CELL_I32 7)]\<rparr>"
  have "chan_step (chan_start (ring3 0)) ?s"
    using chan_step.call [of "Sending (CELL_I32 7)" "CELL_I32 7" True "chan_start (ring3 0)"] by (simp add: chan_start_def)
  moreover have "send_locked (s_ch ?s) (CELL_I32 7) =
      DONE ((ring3 0)\<lparr>ch_tail := 1, ch_count := 1, ch_cells := [CELL_I32 7, CELL_NULL, CELL_NULL]\<rparr>)"
    by (simp add: send_locked_def ring3_def chan_start_def channel_slot_def)
  then have "chan_step ?s \<lparr>s_ch = (ring3 0)\<lparr>ch_tail := 1, ch_count := 1, ch_cells := [CELL_I32 7, CELL_NULL, CELL_NULL]\<rparr>,
     s_threads = [Sent True], s_sent = [CELL_I32 7], s_got = []\<rparr>"
    using chan_step.send_done [of 0 ?s "CELL_I32 7" _ "[Sent True]"] by (simp add: chan_start_def signalled_def)
  ultimately show ?thesis by (rule converse_rtranclp_into_rtranclp [OF _ r_into_rtranclp])
qed

lemma channel_is_fifo_witness: "\<exists>queue. [CELL_I32 7] = [] @ queue \<and> length queue = 1"
  using channel_is_fifo [OF ring3_new ring3_sent] by (simp add: ring3_def)

lemma channel_no_lost_wakeups_witness:
  "chan_step\<^sup>*\<^sup>* (chan_start (ring3 0)) \<lparr>s_ch = ring3 0, s_threads = [Wait_not_empty], s_sent = [], s_got = []\<rparr> \<and> ch_count (ring3 0) = 0"
proof -
  let ?s = "(chan_start (ring3 0))\<lparr>s_threads := [Receiving True]\<rparr>"
  have "chan_step (chan_start (ring3 0)) ?s"
    using chan_step.call [of "Receiving True" CELL_NULL True "chan_start (ring3 0)"] by (simp add: chan_start_def)
  moreover have "chan_step ?s \<lparr>s_ch = ring3 0, s_threads = [Wait_not_empty], s_sent = [], s_got = []\<rparr>"
    using chan_step.recv_wait [of 0 ?s True] by (simp add: chan_start_def channel_recv_locked_def ring3_def)
  ultimately have r: "chan_step\<^sup>*\<^sup>* (chan_start (ring3 0)) \<lparr>s_ch = ring3 0, s_threads = [Wait_not_empty], s_sent = [], s_got = []\<rparr>"
    by (rule converse_rtranclp_into_rtranclp [OF _ r_into_rtranclp])
  then show ?thesis using channel_no_lost_wakeups [OF ring3_new r] by (simp add: idle_def)
qed

end
