(* ===== verification/Jello_Float.thy ===== *)
theory Jello_Float
  imports Jello_Prelude
begin

text \<open>
  The floating point arithmetic that the C sources use, on the bit patterns of IEEE 754 binary32 and binary64
  numbers: comparison, rounding to nearest even, the four operations and the conversions of C on a target with
  \<^verbatim>\<open>FLT_EVAL_METHOD = 0\<close>. A finite number is an exact integer times a power of two, operations compute
  exactly on these and round once. Which NaN an operation delivers is up to the processor: the record \<open>fpu\<close>
  holds its choices.

  The lemmas relate a bit pattern to the number it stands for and show that integers that fit the precision are
  represented exactly.
\<close>

record float_fmt =
  prec :: nat
  expw :: nat

definition binary32 :: float_fmt where "binary32 = \<lparr>prec = 24, expw = 8\<rparr>"
definition binary64 :: float_fmt where "binary64 = \<lparr>prec = 53, expw = 11\<rparr>"

lemma fmt_simps [simp]:
  "prec binary32 = 24" "expw binary32 = 8" "prec binary64 = 53" "expw binary64 = 11"
  by (simp_all add: binary32_def binary64_def)

text \<open>The exponent of the last place of a subnormal number.\<close>

definition emin :: "float_fmt \<Rightarrow> int" where
  "emin F = 3 - 2 ^ (expw F - 1) - int (prec F)"

lemma emin_simps [simp]: "emin binary32 = - 149" "emin binary64 = - 1074"
  by (simp_all add: emin_def)

datatype fval = FNaN | FInf bool | FFin bool nat int

definition f_decode :: "float_fmt \<Rightarrow> nat \<Rightarrow> fval" where
  "f_decode F n =
     (let s = (n div 2 ^ (prec F - 1 + expw F)) mod 2 = 1;
          e = (n div 2 ^ (prec F - 1)) mod 2 ^ expw F;
          f = n mod 2 ^ (prec F - 1) in
      if e = 2 ^ expw F - 1 then (if f = 0 then FInf s else FNaN)
      else if e = 0 then FFin s f (emin F)
      else FFin s (f + 2 ^ (prec F - 1)) (emin F + int e - 1))"

fun bitlen :: "nat \<Rightarrow> nat" where
  "bitlen n = (if n = 0 then 0 else Suc (bitlen (n div 2)))"

declare bitlen.simps [simp del]

definition rne :: "nat \<Rightarrow> nat \<Rightarrow> nat" where
  "rne m k =
     (let q = m div 2 ^ k; r = m mod 2 ^ k in
      if 2 ^ k < 2 * r \<or> (2 * r = 2 ^ k \<and> odd q) then q + 1 else q)"

definition sign_bit :: "float_fmt \<Rightarrow> bool \<Rightarrow> nat" where
  "sign_bit F s = (if s then 2 ^ (prec F - 1 + expw F) else 0)"

definition inf_bits :: "float_fmt \<Rightarrow> nat" where
  "inf_bits F = (2 ^ expw F - 1) * 2 ^ (prec F - 1)"

text \<open>The bit pattern of \<open>m * 2^e\<close>, rounded to nearest even.\<close>

definition f_round :: "float_fmt \<Rightarrow> bool \<Rightarrow> nat \<Rightarrow> int \<Rightarrow> nat" where
  "f_round F s m e =
     (let u = max (e + int (bitlen m) - int (prec F)) (emin F);
          m' = (if u \<le> e then m * 2 ^ nat (e - u) else rne m (nat (u - e)));
          n = (if m' < 2 ^ (prec F - 1) then m'
               else nat (u - emin F + 1) * 2 ^ (prec F - 1) + (m' - 2 ^ (prec F - 1))) in
      sign_bit F s + (if inf_bits F \<le> n then inf_bits F else n))"

definition f_signed :: "bool \<Rightarrow> nat \<Rightarrow> int" where
  "f_signed s m = (if s then - int m else int m)"

text \<open>Results are the bit pattern of a number, or \<open>None\<close> for an invalid operation or a NaN operand.\<close>

definition f_add :: "float_fmt \<Rightarrow> fval \<Rightarrow> fval \<Rightarrow> nat option" where
  "f_add F a b =
     (case (a, b) of
        (FFin s1 m1 e1, FFin s2 m2 e2) \<Rightarrow>
          (let e = min e1 e2;
               i = f_signed s1 m1 * 2 ^ nat (e1 - e) + f_signed s2 m2 * 2 ^ nat (e2 - e) in
           Some (if i = 0 then sign_bit F (s1 \<and> s2) else f_round F (i < 0) (nat \<bar>i\<bar>) e))
      | (FInf s1, FInf s2) \<Rightarrow> if s1 = s2 then Some (sign_bit F s1 + inf_bits F) else None
      | (FInf s1, FFin _ _ _) \<Rightarrow> Some (sign_bit F s1 + inf_bits F)
      | (FFin _ _ _, FInf s2) \<Rightarrow> Some (sign_bit F s2 + inf_bits F)
      | _ \<Rightarrow> None)"

fun f_negate :: "fval \<Rightarrow> fval" where
  "f_negate FNaN = FNaN"
| "f_negate (FInf s) = FInf (\<not> s)"
| "f_negate (FFin s m e) = FFin (\<not> s) m e"

definition f_sub :: "float_fmt \<Rightarrow> fval \<Rightarrow> fval \<Rightarrow> nat option" where
  "f_sub F a b = f_add F a (f_negate b)"

definition f_mul :: "float_fmt \<Rightarrow> fval \<Rightarrow> fval \<Rightarrow> nat option" where
  "f_mul F a b =
     (case (a, b) of
        (FFin s1 m1 e1, FFin s2 m2 e2) \<Rightarrow> Some (f_round F (s1 \<noteq> s2) (m1 * m2) (e1 + e2))
      | (FInf s1, FInf s2) \<Rightarrow> Some (sign_bit F (s1 \<noteq> s2) + inf_bits F)
      | (FInf s1, FFin s2 m e) \<Rightarrow> if m = 0 then None else Some (sign_bit F (s1 \<noteq> s2) + inf_bits F)
      | (FFin s1 m e, FInf s2) \<Rightarrow> if m = 0 then None else Some (sign_bit F (s1 \<noteq> s2) + inf_bits F)
      | _ \<Rightarrow> None)"

text \<open>The quotient is computed to more than \<open>prec\<close> places, with a last place for the remainder.\<close>

definition f_div :: "float_fmt \<Rightarrow> fval \<Rightarrow> fval \<Rightarrow> nat option" where
  "f_div F a b =
     (case (a, b) of
        (FFin s1 m1 e1, FFin s2 m2 e2) \<Rightarrow>
          if m2 = 0 then (if m1 = 0 then None else Some (sign_bit F (s1 \<noteq> s2) + inf_bits F))
          else
            (let k = bitlen m2 + prec F + 2; q = m1 * 2 ^ k div m2; r = m1 * 2 ^ k mod m2 in
             Some (f_round F (s1 \<noteq> s2) (2 * q + (if r = 0 then 0 else 1)) (e1 - e2 - int k - 1)))
      | (FInf s1, FFin s2 _ _) \<Rightarrow> Some (sign_bit F (s1 \<noteq> s2) + inf_bits F)
      | (FFin s1 _ _, FInf s2) \<Rightarrow> Some (sign_bit F (s1 \<noteq> s2))
      | _ \<Rightarrow> None)"

definition f_eq :: "fval \<Rightarrow> fval \<Rightarrow> bool" where
  "f_eq a b =
     (case (a, b) of
        (FFin s1 m1 e1, FFin s2 m2 e2) \<Rightarrow>
          (let e = min e1 e2 in
           f_signed s1 m1 * 2 ^ nat (e1 - e) = f_signed s2 m2 * 2 ^ nat (e2 - e))
      | (FInf s1, FInf s2) \<Rightarrow> s1 = s2
      | _ \<Rightarrow> False)"

definition f_lt :: "fval \<Rightarrow> fval \<Rightarrow> bool" where
  "f_lt a b =
     (case (a, b) of
        (FFin s1 m1 e1, FFin s2 m2 e2) \<Rightarrow>
          (let e = min e1 e2 in
           f_signed s1 m1 * 2 ^ nat (e1 - e) < f_signed s2 m2 * 2 ^ nat (e2 - e))
      | (FInf s1, FInf s2) \<Rightarrow> s1 \<and> \<not> s2
      | (FInf s1, FFin _ _ _) \<Rightarrow> s1
      | (FFin _ _ _, FInf s2) \<Rightarrow> \<not> s2
      | _ \<Rightarrow> False)"

definition f_finite :: "fval \<Rightarrow> bool" where
  "f_finite a = (case a of FFin _ _ _ \<Rightarrow> True | _ \<Rightarrow> False)"

definition f_trunc :: "fval \<Rightarrow> int" where
  "f_trunc a =
     (case a of
        FFin s m e \<Rightarrow> f_signed s (if 0 \<le> e then m * 2 ^ nat e else m div 2 ^ nat (- e))
      | _ \<Rightarrow> 0)"

definition f_of_int :: "float_fmt \<Rightarrow> int \<Rightarrow> nat" where
  "f_of_int F i = f_round F (i < 0) (nat \<bar>i\<bar>) 0"

section \<open>Words\<close>

abbreviation dec32 :: "u32 \<Rightarrow> fval" where "dec32 u \<equiv> f_decode binary32 (unat u)"
abbreviation dec64 :: "u64 \<Rightarrow> fval" where "dec64 u \<equiv> f_decode binary64 (unat u)"

text \<open>The NaNs the processor delivers: for a binary operation, a widening, a narrowing, and
  \<^verbatim>\<open>(sign ? -1.0f : 1.0f) * (0.0f / 0.0f)\<close>.\<close>

record fpu =
  nan32 :: "u32 \<Rightarrow> u32 \<Rightarrow> u32"
  nan64 :: "u64 \<Rightarrow> u64 \<Rightarrow> u64"
  nan_widen :: "u32 \<Rightarrow> u64"
  nan_narrow :: "u64 \<Rightarrow> u32"
  nan_f16 :: "bool \<Rightarrow> u32"

definition op32 :: "fpu \<Rightarrow> (float_fmt \<Rightarrow> fval \<Rightarrow> fval \<Rightarrow> nat option) \<Rightarrow> u32 \<Rightarrow> u32 \<Rightarrow> u32" where
  "op32 fp op a b = (case op binary32 (dec32 a) (dec32 b) of Some n \<Rightarrow> of_nat n | None \<Rightarrow> nan32 fp a b)"

definition op64 :: "fpu \<Rightarrow> (float_fmt \<Rightarrow> fval \<Rightarrow> fval \<Rightarrow> nat option) \<Rightarrow> u64 \<Rightarrow> u64 \<Rightarrow> u64" where
  "op64 fp op a b = (case op binary64 (dec64 a) (dec64 b) of Some n \<Rightarrow> of_nat n | None \<Rightarrow> nan64 fp a b)"

definition f32_neg :: "u32 \<Rightarrow> u32" where "f32_neg u = u XOR 0x80000000"
definition f64_neg :: "u64 \<Rightarrow> u64" where "f64_neg u = u XOR 0x8000000000000000"

definition f_convert :: "float_fmt \<Rightarrow> fval \<Rightarrow> nat option" where
  "f_convert F a =
     (case a of
        FNaN \<Rightarrow> None
      | FInf s \<Rightarrow> Some (sign_bit F s + inf_bits F)
      | FFin s m e \<Rightarrow> Some (f_round F s m e))"

definition f64_of_f32 :: "fpu \<Rightarrow> u32 \<Rightarrow> u64" where
  "f64_of_f32 fp u = (case f_convert binary64 (dec32 u) of Some n \<Rightarrow> of_nat n | None \<Rightarrow> nan_widen fp u)"

definition f32_of_f64 :: "fpu \<Rightarrow> u64 \<Rightarrow> u32" where
  "f32_of_f64 fp u = (case f_convert binary32 (dec64 u) of Some n \<Rightarrow> of_nat n | None \<Rightarrow> nan_narrow fp u)"

definition f32_of_int :: "int \<Rightarrow> u32" where "f32_of_int i = of_nat (f_of_int binary32 i)"
definition f64_of_int :: "int \<Rightarrow> u64" where "f64_of_int i = of_nat (f_of_int binary64 i)"

section \<open>Integers are exact\<close>

lemma bitlen_bounds: "n < 2 ^ bitlen n \<and> (0 < n \<longrightarrow> 2 ^ (bitlen n - 1) \<le> n)"
proof (induction n rule: bitlen.induct)
  case (1 n)
  show ?case
  proof (cases "n = 0")
    case False
    then have IH: "n div 2 < 2 ^ bitlen (n div 2)" "0 < n div 2 \<Longrightarrow> 2 ^ (bitlen (n div 2) - 1) \<le> n div 2"
      using 1 by auto
    have b: "bitlen n = Suc (bitlen (n div 2))" using False by (simp add: bitlen.simps [of n])
    have "n < 2 ^ bitlen n" using IH(1) by (simp add: b)
    moreover have "2 ^ bitlen (n div 2) \<le> n"
    proof (cases "n div 2 = 0")
      case True
      then show ?thesis using False by (simp add: bitlen.simps)
    next
      case n2: False
      then have "bitlen (n div 2) = Suc (bitlen (n div 2) - 1)" by (subst (1 2) bitlen.simps) simp
      moreover have "2 * 2 ^ (bitlen (n div 2) - 1) \<le> 2 * (n div 2)" using IH(2) n2 by simp
      ultimately have "2 ^ bitlen (n div 2) \<le> 2 * (n div 2)" by (metis power_Suc)
      then show ?thesis by linarith
    qed
    ultimately show ?thesis by (simp add: b)
  qed (simp add: bitlen.simps)
qed

lemma bitlen_le: "n < 2 ^ k \<Longrightarrow> bitlen n \<le> k"
proof (rule ccontr)
  assume n: "n < 2 ^ k" "\<not> bitlen n \<le> k"
  then have "0 < n" by (cases "n = 0") (simp_all add: bitlen.simps)
  then have "2 ^ (bitlen n - 1) \<le> n" using bitlen_bounds by blast
  moreover have "(2 :: nat) ^ k \<le> 2 ^ (bitlen n - 1)" using n(2) by (intro power_increasing) auto
  ultimately show False using n(1) by linarith
qed

text \<open>A nonzero integer below \<open>2^53\<close> is encoded with its mantissa shifted up to 53 bits.\<close>

lemma f_of_int_exact:
  assumes "i \<noteq> 0" "\<bar>i\<bar> < 2 ^ 53"
  defines "m \<equiv> nat \<bar>i\<bar>"
  shows "f_decode binary64 (f_of_int binary64 i) = FFin (i < 0) (m * 2 ^ (53 - bitlen m)) (int (bitlen m) - 53)"
    and "f_of_int binary64 i < 2 ^ 64"
proof -
  let ?L = "bitlen m"
  have m: "0 < m" "m < 2 ^ 53" using assms by auto
  have L: "?L \<le> 53" "0 < ?L" using bitlen_le [OF m(2)] m(1) by (auto simp: bitlen.simps [of m])
  define M where "M = m * 2 ^ (53 - ?L)"
  have "m < 2 ^ ?L" "2 ^ (?L - 1) \<le> m" using bitlen_bounds [of m] m(1) by auto
  then have "M < 2 ^ ?L * 2 ^ (53 - ?L)" "2 ^ (?L - 1) * 2 ^ (53 - ?L) \<le> M" by (simp_all add: M_def)
  then have M: "2 ^ 52 \<le> M" "M < 2 ^ 53" using L by (simp_all flip: power_add)
  have k: "nat (int ?L - 53 + 1074 + 1) = ?L + 1022" using L by simp
  have r: "f_of_int binary64 i = sign_bit binary64 (i < 0) + ((?L + 1022) * 2 ^ 52 + (M - 2 ^ 52))"
    unfolding f_of_int_def f_round_def
    using L M k by (simp add: Let_def m_def [symmetric] M_def [symmetric] inf_bits_def nat_diff_distrib' max_def)
  define F E s where "F = M - 2 ^ 52" and "E = ?L + 1022" and "s = (if i < 0 then 1 else 0 :: nat)"
  have F: "F < 2 ^ 52" "M = F + 2 ^ 52" and E: "E < 2047" "E \<noteq> 0" using M L by (simp_all add: F_def E_def)
  have n: "f_of_int binary64 i = F + 2 ^ 52 * (E + 2 ^ 11 * s)"
    by (simp add: r F_def E_def s_def sign_bit_def)
  have "(F + 2 ^ 52 * k) mod 2 ^ 52 = F" "(F + 2 ^ 52 * k) div 2 ^ 52 = k" for k using F(1) by simp_all
  then have "f_of_int binary64 i mod 2 ^ 52 = F" "f_of_int binary64 i div 2 ^ 52 = E + 2 ^ 11 * s"
    unfolding n by blast+
  moreover have "f_of_int binary64 i div 2 ^ 63 = f_of_int binary64 i div 2 ^ 52 div 2 ^ 11"
    by (simp add: div_mult2_eq [symmetric])
  moreover have "(E + 2 ^ 11 * k) mod 2 ^ 11 = E" "(E + 2 ^ 11 * k) div 2 ^ 11 = k" for k using E(1) by simp_all
  moreover have "s mod 2 = 1 \<longleftrightarrow> i < 0" by (simp add: s_def)
  moreover have "- 1074 + int E - 1 = int ?L - 53" by (simp add: E_def)
  ultimately show "f_decode binary64 (f_of_int binary64 i) = FFin (i < 0) (m * 2 ^ (53 - ?L)) (int ?L - 53)"
    using E F unfolding M_def [symmetric] by (simp add: f_decode_def Let_def)
  have "s \<le> 1" by (simp add: s_def)
  then show "f_of_int binary64 i < 2 ^ 64" unfolding n using F(1) E(1) by simp
qed

lemma f64_of_int_trunc:
  assumes "\<bar>i\<bar> < 2 ^ 53"
  shows "f_finite (dec64 (f64_of_int i)) \<and> f_trunc (dec64 (f64_of_int i)) = i"
proof (cases "i = 0")
  case True
  have "f_of_int binary64 0 = 0" by (simp add: f_of_int_def f_round_def Let_def bitlen.simps sign_bit_def inf_bits_def)
  then show ?thesis by (simp add: True f64_of_int_def f_decode_def Let_def f_finite_def f_trunc_def f_signed_def)
next
  case False
  note e = f_of_int_exact [OF False assms]
  have u: "unat (f64_of_int i) = f_of_int binary64 i" using e(2) by (simp add: f64_of_int_def unat_of_nat)
  have t: "f_trunc (FFin s (m * 2 ^ (53 - L)) (int L - 53)) = f_signed s m" if "L \<le> 53" for s m L
    using that by (cases "L = 53") (simp_all add: f_trunc_def nat_diff_distrib')
  have "bitlen (nat \<bar>i\<bar>) \<le> 53" using assms by (intro bitlen_le) auto
  from t [OF this] show ?thesis unfolding u e(1) by (simp add: f_finite_def f_signed_def)
qed

lemma f_lt_simps [simp]:
  "f_lt (FFin s1 m1 0) (FFin s2 m2 e) \<longleftrightarrow>
     (if 0 \<le> e then f_signed s1 m1 < f_signed s2 m2 * 2 ^ nat e else f_signed s1 m1 * 2 ^ nat (- e) < f_signed s2 m2)"
  "f_lt (FFin s2 m2 e) (FFin s1 m1 0) \<longleftrightarrow>
     (if 0 \<le> e then f_signed s2 m2 * 2 ^ nat e < f_signed s1 m1 else f_signed s2 m2 < f_signed s1 m1 * 2 ^ nat (- e))"
  by (auto simp: f_lt_def Let_def min_def)


lemma f64_of_int_lt:
  assumes "\<bar>i\<bar> < 2 ^ 53"
  shows "f_lt (FFin s M 0) (dec64 (f64_of_int i)) \<longleftrightarrow> f_signed s M < i"
    and "f_lt (dec64 (f64_of_int i)) (FFin s M 0) \<longleftrightarrow> i < f_signed s M"
proof -
  have "\<exists>s' m k. dec64 (f64_of_int i) = FFin s' (m * 2 ^ k) (- int k) \<and> f_signed s' m = i"
  proof (cases "i = 0")
    case True
    have "f_of_int binary64 0 = 0" by (simp add: f_of_int_def f_round_def Let_def bitlen.simps sign_bit_def inf_bits_def)
    then have "dec64 (f64_of_int i) = FFin False (0 * 2 ^ 1074) (- int 1074)"
      by (simp add: True f64_of_int_def f_decode_def Let_def)
    moreover have "f_signed False 0 = i" by (simp add: True f_signed_def)
    ultimately show ?thesis by blast
  next
    case False
    have "bitlen (nat \<bar>i\<bar>) \<le> 53" using assms by (intro bitlen_le) auto
    then have "int (bitlen (nat \<bar>i\<bar>)) - 53 = - int (53 - bitlen (nat \<bar>i\<bar>))" by simp
    moreover have "unat (f64_of_int i) = f_of_int binary64 i"
      using f_of_int_exact(2) [OF False assms] by (simp add: f64_of_int_def unat_of_nat)
    ultimately have "dec64 (f64_of_int i) =
        FFin (i < 0) (nat \<bar>i\<bar> * 2 ^ (53 - bitlen (nat \<bar>i\<bar>))) (- int (53 - bitlen (nat \<bar>i\<bar>)))"
      using f_of_int_exact(1) [OF False assms] by (simp only:)
    moreover have "f_signed (i < 0) (nat \<bar>i\<bar>) = i" by (simp add: f_signed_def)
    ultimately show ?thesis by blast
  qed
  then obtain s' m k where d: "dec64 (f64_of_int i) = FFin s' (m * 2 ^ k) (- int k)" and i: "f_signed s' m = i"
    by blast
  have "f_signed s' (m * 2 ^ k) = i * 2 ^ k" using i by (auto simp: f_signed_def)
  then show "f_lt (FFin s M 0) (dec64 (f64_of_int i)) \<longleftrightarrow> f_signed s M < i"
    and "f_lt (dec64 (f64_of_int i)) (FFin s M 0) \<longleftrightarrow> i < f_signed s M"
    unfolding d using i by simp_all
qed

end
