(* ===== verification/Jello_Arith.thy ===== *)
theory Jello_Arith
  imports Jello_Check Jello_Exec Jello_Float "HOL-Library.Signed_Division"
begin

text \<open>
  The arithmetic, comparison, conversion, bitwise and kind-switch handlers of \<^verbatim>\<open>src/vm/ops/ops_arith.c\<close> and
  the checked conversions of \<^verbatim>\<open>src/vm/box.c\<close>. The macros that stamp out the handlers are the combinators
  \<open>OP_BIN_I32_MASKED\<close> and so on, in the order of the source; a macro's \<^verbatim>\<open>EXPR\<close> is a function of the operands.
  An expression with undefined behaviour (a division by zero or with an unrepresentable quotient, a conversion out of
  range) is \<open>FAULT\<close>. Signed shifts are two's complement shifts, as the compilers the build supports define
  them.

  The lemmas show that on registers of the kinds the verifier demands every handler succeeds, changes only its
  destination register and the program counter, and stores the exact wrapped result; that
  unchecked division is the only exception; and that a kind switch selects the first matching case.
\<close>

section \<open>Macros\<close>

definition OP_UN_I32_MASKED :: "(u32 \<Rightarrow> u32) \<Rightarrow> handler" where
  "OP_UN_I32_MASKED e x ins =
     rbind (vm_reg_kind (x_m x) (x_f x) (unat (i_a ins))) (\<lambda>k.
     rbind (vm_load_u32 (x_rf x) (unat (i_b ins))) (\<lambda>v.
       continue_with x (vm_store_u32_masked (x_rf x) (unat (i_a ins)) (e v) k)))"

definition OP_UN_I64 :: "(u64 \<Rightarrow> u64) \<Rightarrow> handler" where
  "OP_UN_I64 e x ins =
     rbind (vm_load_i64 (x_rf x) (unat (i_b ins))) (\<lambda>v.
       continue_with x (vm_store_i64 (x_rf x) (unat (i_a ins)) (e v)))"

definition OP_UN_F32 :: "(u32 \<Rightarrow> u32) \<Rightarrow> handler" where
  "OP_UN_F32 e x ins =
     rbind (vm_load_f32 (x_rf x) (unat (i_b ins))) (\<lambda>v.
       continue_with x (vm_store_f32 (x_rf x) (unat (i_a ins)) (e v)))"

definition OP_UN_F64 :: "(u64 \<Rightarrow> u64) \<Rightarrow> handler" where
  "OP_UN_F64 e x ins =
     rbind (vm_load_f64 (x_rf x) (unat (i_b ins))) (\<lambda>v.
       continue_with x (vm_store_f64 (x_rf x) (unat (i_a ins)) (e v)))"

definition bool_u32 :: "bool \<Rightarrow> u32" where
  "bool_u32 b = (if b then 1 else 0)"

definition OP_NOT_BOOL :: handler where
  "OP_NOT_BOOL x ins =
     rbind (vm_load_u32 (x_rf x) (unat (i_b ins))) (\<lambda>v.
       continue_with x (vm_store_u32 (x_rf x) (unat (i_a ins)) (bool_u32 (v = 0))))"

definition OP_BIN_I32_MASKED :: "(u32 \<Rightarrow> u32 \<Rightarrow> u32 run) \<Rightarrow> handler" where
  "OP_BIN_I32_MASKED e x ins =
     rbind (vm_reg_kind (x_m x) (x_f x) (unat (i_a ins))) (\<lambda>k.
     rbind (vm_load_u32 (x_rf x) (unat (i_b ins))) (\<lambda>a.
     rbind (vm_load_u32 (x_rf x) (unat (i_c ins))) (\<lambda>b.
     rbind (e a b) (\<lambda>v.
       continue_with x (vm_store_u32_masked (x_rf x) (unat (i_a ins)) v k)))))"

definition OP_BIN_I32_IMM_MASKED :: "(u32 \<Rightarrow> u32 \<Rightarrow> u32) \<Rightarrow> handler" where
  "OP_BIN_I32_IMM_MASKED e x ins =
     rbind (vm_reg_kind (x_m x) (x_f x) (unat (i_a ins))) (\<lambda>k.
     rbind (vm_load_u32 (x_rf x) (unat (i_b ins))) (\<lambda>a.
       continue_with x (vm_store_u32_masked (x_rf x) (unat (i_a ins)) (e a (scast (i_c ins))) k)))"

definition OP_BIN_F32 :: "(u32 \<Rightarrow> u32 \<Rightarrow> u32) \<Rightarrow> handler" where
  "OP_BIN_F32 e x ins =
     rbind (vm_load_f32 (x_rf x) (unat (i_b ins))) (\<lambda>a.
     rbind (vm_load_f32 (x_rf x) (unat (i_c ins))) (\<lambda>b.
       continue_with x (vm_store_f32 (x_rf x) (unat (i_a ins)) (e a b))))"

definition OP_BIN_F64 :: "(u64 \<Rightarrow> u64 \<Rightarrow> u64) \<Rightarrow> handler" where
  "OP_BIN_F64 e x ins =
     rbind (vm_load_f64 (x_rf x) (unat (i_b ins))) (\<lambda>a.
     rbind (vm_load_f64 (x_rf x) (unat (i_c ins))) (\<lambda>b.
       continue_with x (vm_store_f64 (x_rf x) (unat (i_a ins)) (e a b))))"

text \<open>\<open>Jello_Regs\<close> shows that the conversion from binary16 always returns; a loop that did not would be a
  \<open>FAULT\<close> here.\<close>

definition f16_operand :: "fpu \<Rightarrow> reg_frame \<Rightarrow> nat \<Rightarrow> u32 run" where
  "f16_operand fp rf r =
     rbind (vm_load_f16_bits rf r) (\<lambda>bits.
       case vm_f16_bits_to_f32 (nan_f16 fp) bits of Some u \<Rightarrow> Inr u | None \<Rightarrow> Inl FAULT)"

definition OP_BIN_F16 :: "fpu \<Rightarrow> (u32 \<Rightarrow> u32 \<Rightarrow> u32) \<Rightarrow> handler" where
  "OP_BIN_F16 fp e x ins =
     rbind (f16_operand fp (x_rf x) (unat (i_b ins))) (\<lambda>a.
     rbind (f16_operand fp (x_rf x) (unat (i_c ins))) (\<lambda>b.
       continue_with x (vm_store_f16_bits (x_rf x) (unat (i_a ins)) (vm_f32_to_f16_bits (e a b)))))"

definition OP_BIN_I64 :: "(u64 \<Rightarrow> u64 \<Rightarrow> u64 run) \<Rightarrow> handler" where
  "OP_BIN_I64 e x ins =
     rbind (vm_load_i64 (x_rf x) (unat (i_b ins))) (\<lambda>a.
     rbind (vm_load_i64 (x_rf x) (unat (i_c ins))) (\<lambda>b.
     rbind (e a b) (\<lambda>v.
       continue_with x (vm_store_i64 (x_rf x) (unat (i_a ins)) v))))"

definition OP_CMP_I32 :: "(int \<Rightarrow> int \<Rightarrow> bool) \<Rightarrow> handler" where
  "OP_CMP_I32 e x ins =
     rbind (vm_load_i32ish (x_rf x) (unat (i_b ins))) (\<lambda>a.
     rbind (vm_load_i32ish (x_rf x) (unat (i_c ins))) (\<lambda>b.
       continue_with x (vm_store_u32 (x_rf x) (unat (i_a ins)) (bool_u32 (e (sint a) (sint b))))))"

definition OP_CMP_I32_IMM :: "(int \<Rightarrow> int \<Rightarrow> bool) \<Rightarrow> handler" where
  "OP_CMP_I32_IMM e x ins =
     rbind (vm_load_i32ish (x_rf x) (unat (i_b ins))) (\<lambda>a.
       continue_with x (vm_store_u32 (x_rf x) (unat (i_a ins)) (bool_u32 (e (sint a) (sint (i_c ins))))))"

definition OP_CMP_F32 :: "(fval \<Rightarrow> fval \<Rightarrow> bool) \<Rightarrow> handler" where
  "OP_CMP_F32 e x ins =
     rbind (vm_load_f32 (x_rf x) (unat (i_b ins))) (\<lambda>a.
     rbind (vm_load_f32 (x_rf x) (unat (i_c ins))) (\<lambda>b.
       continue_with x (vm_store_u32 (x_rf x) (unat (i_a ins)) (bool_u32 (e (dec32 a) (dec32 b))))))"

definition OP_CMP_F64 :: "(fval \<Rightarrow> fval \<Rightarrow> bool) \<Rightarrow> handler" where
  "OP_CMP_F64 e x ins =
     rbind (vm_load_f64 (x_rf x) (unat (i_b ins))) (\<lambda>a.
     rbind (vm_load_f64 (x_rf x) (unat (i_c ins))) (\<lambda>b.
       continue_with x (vm_store_u32 (x_rf x) (unat (i_a ins)) (bool_u32 (e (dec64 a) (dec64 b))))))"

definition OP_CMP_I64 :: "(int \<Rightarrow> int \<Rightarrow> bool) \<Rightarrow> handler" where
  "OP_CMP_I64 e x ins =
     rbind (vm_load_i64 (x_rf x) (unat (i_b ins))) (\<lambda>a.
     rbind (vm_load_i64 (x_rf x) (unat (i_c ins))) (\<lambda>b.
       continue_with x (vm_store_u32 (x_rf x) (unat (i_a ins)) (bool_u32 (e (sint a) (sint b))))))"

section \<open>Integer division of C\<close>

text \<open>\<open>signed_op\<close> is \<^verbatim>\<open>/\<close> or \<^verbatim>\<open>%\<close> on two signed operands: undefined for a zero divisor and when the quotient does
  not fit, which leaves the most negative number divided by \<open>-1\<close>.\<close>

definition signed_op :: "(int \<Rightarrow> int \<Rightarrow> int) \<Rightarrow> 'a::len word \<Rightarrow> 'a word \<Rightarrow> 'a word run" where
  "signed_op op a b =
     (if b = 0 \<or> (sint a = - (2 ^ (LENGTH('a) - 1)) \<and> sint b = - 1) then Inl FAULT
      else Inr (of_int (op (sint a) (sint b))))"

section \<open>32-bit integers\<close>

definition op_add_i32 :: handler where
  "op_add_i32 = OP_BIN_I32_MASKED (\<lambda>a b. Inr (a + b))"

definition op_sub_i32 :: handler where
  "op_sub_i32 = OP_BIN_I32_MASKED (\<lambda>a b. Inr (a - b))"

definition op_mul_i32 :: handler where
  "op_mul_i32 = OP_BIN_I32_MASKED (\<lambda>a b. Inr (a * b))"

definition op_div_i32 :: handler where
  "op_div_i32 = OP_BIN_I32_MASKED (signed_op (sdiv))"

definition op_mod_i32 :: handler where
  "op_mod_i32 = OP_BIN_I32_MASKED (signed_op (smod))"

definition op_shl_i32 :: handler where
  "op_shl_i32 x ins =
     rbind (vm_reg_kind (x_m x) (x_f x) (unat (i_a ins))) (\<lambda>k.
     rbind (vm_load_u32 (x_rf x) (unat (i_b ins))) (\<lambda>a.
     rbind (vm_load_u32 (x_rf x) (unat (i_c ins))) (\<lambda>b.
       continue_with x (vm_store_u32_masked (x_rf x) (unat (i_a ins)) (push_bit (unat (b AND 31)) a) k))))"

definition op_shr_i32 :: handler where
  "op_shr_i32 x ins =
     rbind (vm_reg_kind (x_m x) (x_f x) (unat (i_a ins))) (\<lambda>k.
     rbind (vm_load_u32 (x_rf x) (unat (i_b ins))) (\<lambda>a.
     rbind (vm_load_u32 (x_rf x) (unat (i_c ins))) (\<lambda>b.
       continue_with x (vm_store_u32_masked (x_rf x) (unat (i_a ins)) (signed_drop_bit (unat (b AND 31)) a) k))))"

definition op_add_i32_imm :: handler where
  "op_add_i32_imm = OP_BIN_I32_IMM_MASKED (\<lambda>a imm. a + imm)"

definition op_sub_i32_imm :: handler where
  "op_sub_i32_imm = OP_BIN_I32_IMM_MASKED (\<lambda>a imm. a - imm)"

definition op_mul_i32_imm :: handler where
  "op_mul_i32_imm = OP_BIN_I32_IMM_MASKED (\<lambda>a imm. a * imm)"

section \<open>64-bit integers\<close>

definition op_add_i64 :: handler where
  "op_add_i64 = OP_BIN_I64 (\<lambda>a b. Inr (a + b))"

definition op_sub_i64 :: handler where
  "op_sub_i64 = OP_BIN_I64 (\<lambda>a b. Inr (a - b))"

definition op_mul_i64 :: handler where
  "op_mul_i64 = OP_BIN_I64 (\<lambda>a b. Inr (a * b))"

definition op_div_i64 :: handler where
  "op_div_i64 = OP_BIN_I64 (signed_op (sdiv))"

definition op_mod_i64 :: handler where
  "op_mod_i64 = OP_BIN_I64 (signed_op (smod))"

definition op_shl_i64 :: handler where
  "op_shl_i64 x ins =
     rbind (vm_load_i64 (x_rf x) (unat (i_b ins))) (\<lambda>a.
     rbind (vm_load_i64 (x_rf x) (unat (i_c ins))) (\<lambda>b.
       continue_with x (vm_store_i64 (x_rf x) (unat (i_a ins)) (push_bit (unat (b AND 63)) a))))"

definition op_shr_i64 :: handler where
  "op_shr_i64 x ins =
     rbind (vm_load_i64 (x_rf x) (unat (i_b ins))) (\<lambda>a.
     rbind (vm_load_i64 (x_rf x) (unat (i_c ins))) (\<lambda>b.
       continue_with x (vm_store_i64 (x_rf x) (unat (i_a ins)) (signed_drop_bit (unat (b AND 63)) a))))"

section \<open>Floating point\<close>

definition op_add_f16 :: "fpu \<Rightarrow> handler" where
  "op_add_f16 fp = OP_BIN_F16 fp (op32 fp f_add)"

definition op_sub_f16 :: "fpu \<Rightarrow> handler" where
  "op_sub_f16 fp = OP_BIN_F16 fp (op32 fp f_sub)"

definition op_mul_f16 :: "fpu \<Rightarrow> handler" where
  "op_mul_f16 fp = OP_BIN_F16 fp (op32 fp f_mul)"

definition op_add_f32 :: "fpu \<Rightarrow> handler" where
  "op_add_f32 fp = OP_BIN_F32 (op32 fp f_add)"

definition op_sub_f32 :: "fpu \<Rightarrow> handler" where
  "op_sub_f32 fp = OP_BIN_F32 (op32 fp f_sub)"

definition op_mul_f32 :: "fpu \<Rightarrow> handler" where
  "op_mul_f32 fp = OP_BIN_F32 (op32 fp f_mul)"

definition op_div_f32 :: "fpu \<Rightarrow> handler" where
  "op_div_f32 fp = OP_BIN_F32 (op32 fp f_div)"

definition op_add_f64 :: "fpu \<Rightarrow> handler" where
  "op_add_f64 fp = OP_BIN_F64 (op64 fp f_add)"

definition op_sub_f64 :: "fpu \<Rightarrow> handler" where
  "op_sub_f64 fp = OP_BIN_F64 (op64 fp f_sub)"

definition op_mul_f64 :: "fpu \<Rightarrow> handler" where
  "op_mul_f64 fp = OP_BIN_F64 (op64 fp f_mul)"

definition op_div_f64 :: "fpu \<Rightarrow> handler" where
  "op_div_f64 fp = OP_BIN_F64 (op64 fp f_div)"

section \<open>Unary operations and comparisons\<close>

definition op_neg_i32 :: handler where
  "op_neg_i32 = OP_UN_I32_MASKED (\<lambda>x. 0 - x)"

definition op_neg_i64 :: handler where
  "op_neg_i64 = OP_UN_I64 (\<lambda>x. 0 - x)"

definition op_neg_f32 :: handler where
  "op_neg_f32 = OP_UN_F32 f32_neg"

definition op_neg_f64 :: handler where
  "op_neg_f64 = OP_UN_F64 f64_neg"

definition op_not_bool :: handler where
  "op_not_bool = OP_NOT_BOOL"

definition op_eq_i32 :: handler where
  "op_eq_i32 = OP_CMP_I32 (=)"

definition op_lt_i32 :: handler where
  "op_lt_i32 = OP_CMP_I32 (<)"

definition op_eq_i32_imm :: handler where
  "op_eq_i32_imm = OP_CMP_I32_IMM (=)"

definition op_lt_i32_imm :: handler where
  "op_lt_i32_imm = OP_CMP_I32_IMM (<)"

definition op_eq_i64 :: handler where
  "op_eq_i64 = OP_CMP_I64 (=)"

definition op_lt_i64 :: handler where
  "op_lt_i64 = OP_CMP_I64 (<)"

definition op_eq_f32 :: handler where
  "op_eq_f32 = OP_CMP_F32 f_eq"

definition op_lt_f32 :: handler where
  "op_lt_f32 = OP_CMP_F32 f_lt"

definition op_eq_f64 :: handler where
  "op_eq_f64 = OP_CMP_F64 f_eq"

definition op_lt_f64 :: handler where
  "op_lt_f64 = OP_CMP_F64 f_lt"

section \<open>Checked conversions\<close>

text \<open>The trap both functions of \<^verbatim>\<open>box.c\<close> raise; it sets the message without a location.\<close>

definition conversion_trap :: "exec_ctx \<Rightarrow> string \<Rightarrow> exec_ctx" where
  "conversion_trap x msg =
     x\<lparr>x_trap_code := JELLO_TRAP_TYPE_MISMATCH, x_trap_msg := Some msg, x_exc_pending := True,
       x_exc_payload := jello_make_i32 (trap_number JELLO_TRAP_TYPE_MISMATCH)\<rparr>"

text \<open>\<^verbatim>\<open>(intN_t)x\<close> truncates towards zero and is undefined when the result does not fit. The literal
  \<^verbatim>\<open>9223372036854775807.0\<close> is the double \<open>2^63\<close>. \<open>Inl\<close> is the return value 0, with the trap set.\<close>

definition c_int_cast :: "fval \<Rightarrow> 'a::len word run" where
  "c_int_cast a =
     (if f_finite a \<and> - (2 ^ (LENGTH('a) - 1)) \<le> f_trunc a \<and> f_trunc a < 2 ^ (LENGTH('a) - 1)
      then Inr (of_int (f_trunc a)) else Inl FAULT)"

definition vm_checked_f64_to_i32 :: "exec_ctx \<Rightarrow> u64 \<Rightarrow> (exec_ctx + u32) run" where
  "vm_checked_f64_to_i32 x d =
     (let v = dec64 d in
      if \<not> f_finite v then Inr (Inl (conversion_trap x ''f64->i32 conversion overflow''))
      else if f_lt (FFin False 2147483647 0) v \<or> f_lt v (FFin True 2147483648 0) then
        Inr (Inl (conversion_trap x ''f64->i32 conversion overflow''))
      else rbind (c_int_cast v) (\<lambda>i. Inr (Inr i)))"

definition vm_checked_f64_to_i64 :: "exec_ctx \<Rightarrow> u64 \<Rightarrow> (exec_ctx + u64) run" where
  "vm_checked_f64_to_i64 x d =
     (let v = dec64 d in
      if \<not> f_finite v then Inr (Inl (conversion_trap x ''f64->i64 conversion overflow''))
      else if f_lt (FFin False 9223372036854775808 0) v \<or> f_lt v (FFin True 9223372036854775808 0) then
        Inr (Inl (conversion_trap x ''f64->i64 conversion overflow''))
      else rbind (c_int_cast v) (\<lambda>i. Inr (Inr i)))"

text \<open>\<^verbatim>\<open>if(!vm_checked_...) return OP_CONTINUE; vm_store_...\<close>: the trap is pending when the handler returns.\<close>

definition store_checked ::
  "exec_ctx \<Rightarrow> (exec_ctx + 'v) run \<Rightarrow> ('v \<Rightarrow> reg_frame run) \<Rightarrow> (op_result \<times> exec_ctx) run" where
  "store_checked x r st =
     rbind r (\<lambda>c. case c of Inl x' \<Rightarrow> Inr (OP_CONTINUE, x') | Inr v \<Rightarrow> continue_with x (st v))"

section \<open>Conversions\<close>

definition op_sext_i64 :: handler where
  "op_sext_i64 x ins =
     rbind (vm_load_u32 (x_rf x) (unat (i_b ins))) (\<lambda>v.
       continue_with x (vm_store_i64 (x_rf x) (unat (i_a ins)) (scast v)))"

definition op_sext_i16 :: handler where
  "op_sext_i16 x ins =
     rbind (vm_load_u32 (x_rf x) (unat (i_b ins))) (\<lambda>v.
       continue_with x (vm_store_u32 (x_rf x) (unat (i_a ins)) (scast (scast (ucast (v AND 0xFF) :: u8) :: u16))))"

definition op_trunc_i8 :: handler where
  "op_trunc_i8 x ins =
     rbind (vm_load_u32 (x_rf x) (unat (i_b ins))) (\<lambda>v.
       continue_with x (vm_store_u32_masked (x_rf x) (unat (i_a ins)) v JELLO_T_I8))"

definition op_trunc_i16 :: handler where
  "op_trunc_i16 x ins =
     rbind (vm_load_u32 (x_rf x) (unat (i_b ins))) (\<lambda>v.
       continue_with x (vm_store_u32_masked (x_rf x) (unat (i_a ins)) v JELLO_T_I16))"

definition op_i32_from_i64 :: handler where
  "op_i32_from_i64 x ins =
     rbind (vm_load_i64 (x_rf x) (unat (i_b ins))) (\<lambda>v.
       continue_with x (vm_store_u32 (x_rf x) (unat (i_a ins)) (ucast v)))"

definition op_f64_from_i32 :: handler where
  "op_f64_from_i32 x ins =
     rbind (vm_load_u32 (x_rf x) (unat (i_b ins))) (\<lambda>v.
       continue_with x (vm_store_f64 (x_rf x) (unat (i_a ins)) (f64_of_int (sint v))))"

definition op_i32_from_f64 :: handler where
  "op_i32_from_f64 x ins =
     rbind (vm_load_f64 (x_rf x) (unat (i_b ins))) (\<lambda>v.
       store_checked x (vm_checked_f64_to_i32 x (v)) (vm_store_u32 (x_rf x) (unat (i_a ins))))"

definition op_f64_from_i64 :: handler where
  "op_f64_from_i64 x ins =
     rbind (vm_load_i64 (x_rf x) (unat (i_b ins))) (\<lambda>v.
       continue_with x (vm_store_f64 (x_rf x) (unat (i_a ins)) (f64_of_int (sint v))))"

definition op_i64_from_f64 :: handler where
  "op_i64_from_f64 x ins =
     rbind (vm_load_f64 (x_rf x) (unat (i_b ins))) (\<lambda>v.
       store_checked x (vm_checked_f64_to_i64 x (v)) (vm_store_i64 (x_rf x) (unat (i_a ins))))"

definition op_f32_from_i32 :: handler where
  "op_f32_from_i32 x ins =
     rbind (vm_load_u32 (x_rf x) (unat (i_b ins))) (\<lambda>v.
       continue_with x (vm_store_f32 (x_rf x) (unat (i_a ins)) (f32_of_int (sint v))))"

definition op_i32_from_f32 :: "fpu \<Rightarrow> handler" where
  "op_i32_from_f32 fp x ins =
     rbind (vm_load_f32 (x_rf x) (unat (i_b ins))) (\<lambda>v.
       store_checked x (vm_checked_f64_to_i32 x (f64_of_f32 fp v)) (vm_store_u32 (x_rf x) (unat (i_a ins))))"

definition op_f64_from_f32 :: "fpu \<Rightarrow> handler" where
  "op_f64_from_f32 fp x ins =
     rbind (vm_load_f32 (x_rf x) (unat (i_b ins))) (\<lambda>v.
       continue_with x (vm_store_f64 (x_rf x) (unat (i_a ins)) (f64_of_f32 fp v)))"

definition op_f32_from_f64 :: "fpu \<Rightarrow> handler" where
  "op_f32_from_f64 fp x ins =
     rbind (vm_load_f64 (x_rf x) (unat (i_b ins))) (\<lambda>v.
       continue_with x (vm_store_f32 (x_rf x) (unat (i_a ins)) (f32_of_f64 fp v)))"

definition op_f32_from_i64 :: handler where
  "op_f32_from_i64 x ins =
     rbind (vm_load_i64 (x_rf x) (unat (i_b ins))) (\<lambda>v.
       continue_with x (vm_store_f32 (x_rf x) (unat (i_a ins)) (f32_of_int (sint v))))"

definition op_i64_from_f32 :: "fpu \<Rightarrow> handler" where
  "op_i64_from_f32 fp x ins =
     rbind (vm_load_f32 (x_rf x) (unat (i_b ins))) (\<lambda>v.
       store_checked x (vm_checked_f64_to_i64 x (f64_of_f32 fp v)) (vm_store_i64 (x_rf x) (unat (i_a ins))))"

definition op_f16_from_f32 :: handler where
  "op_f16_from_f32 x ins =
     rbind (vm_load_f32 (x_rf x) (unat (i_b ins))) (\<lambda>v.
       continue_with x (vm_store_f16_bits (x_rf x) (unat (i_a ins)) (vm_f32_to_f16_bits v)))"

definition op_f32_from_f16 :: "fpu \<Rightarrow> handler" where
  "op_f32_from_f16 fp x ins =
     rbind (f16_operand fp (x_rf x) (unat (i_b ins))) (\<lambda>v.
       continue_with x (vm_store_f32 (x_rf x) (unat (i_a ins)) (v)))"

definition op_f16_from_i32 :: handler where
  "op_f16_from_i32 x ins =
     rbind (vm_load_u32 (x_rf x) (unat (i_b ins))) (\<lambda>v.
       continue_with x (vm_store_f16_bits (x_rf x) (unat (i_a ins)) (vm_f32_to_f16_bits (f32_of_int (sint v)))))"

definition op_i32_from_f16 :: "fpu \<Rightarrow> handler" where
  "op_i32_from_f16 fp x ins =
     rbind (f16_operand fp (x_rf x) (unat (i_b ins))) (\<lambda>v.
       store_checked x (vm_checked_f64_to_i32 x (f64_of_f32 fp v)) (vm_store_u32 (x_rf x) (unat (i_a ins))))"

section \<open>Bitwise operations\<close>

definition op_bitand_i32 :: handler where
  "op_bitand_i32 x ins =
     rbind (vm_reg_kind (x_m x) (x_f x) (unat (i_a ins))) (\<lambda>k.
     rbind (vm_load_u32 (x_rf x) (unat (i_b ins))) (\<lambda>a.
     rbind (vm_load_u32 (x_rf x) (unat (i_c ins))) (\<lambda>b.
       continue_with x (vm_store_u32_masked (x_rf x) (unat (i_a ins)) (a AND b) k))))"

definition op_bitand_i64 :: handler where
  "op_bitand_i64 x ins =
     rbind (vm_load_i64 (x_rf x) (unat (i_b ins))) (\<lambda>a.
     rbind (vm_load_i64 (x_rf x) (unat (i_c ins))) (\<lambda>b.
       continue_with x (vm_store_i64 (x_rf x) (unat (i_a ins)) (a AND b))))"

definition op_bitor_i32 :: handler where
  "op_bitor_i32 x ins =
     rbind (vm_reg_kind (x_m x) (x_f x) (unat (i_a ins))) (\<lambda>k.
     rbind (vm_load_u32 (x_rf x) (unat (i_b ins))) (\<lambda>a.
     rbind (vm_load_u32 (x_rf x) (unat (i_c ins))) (\<lambda>b.
       continue_with x (vm_store_u32_masked (x_rf x) (unat (i_a ins)) (a OR b) k))))"

definition op_bitor_i64 :: handler where
  "op_bitor_i64 x ins =
     rbind (vm_load_i64 (x_rf x) (unat (i_b ins))) (\<lambda>a.
     rbind (vm_load_i64 (x_rf x) (unat (i_c ins))) (\<lambda>b.
       continue_with x (vm_store_i64 (x_rf x) (unat (i_a ins)) (a OR b))))"

definition op_bitxor_i32 :: handler where
  "op_bitxor_i32 x ins =
     rbind (vm_reg_kind (x_m x) (x_f x) (unat (i_a ins))) (\<lambda>k.
     rbind (vm_load_u32 (x_rf x) (unat (i_b ins))) (\<lambda>a.
     rbind (vm_load_u32 (x_rf x) (unat (i_c ins))) (\<lambda>b.
       continue_with x (vm_store_u32_masked (x_rf x) (unat (i_a ins)) (a XOR b) k))))"

definition op_bitxor_i64 :: handler where
  "op_bitxor_i64 x ins =
     rbind (vm_load_i64 (x_rf x) (unat (i_b ins))) (\<lambda>a.
     rbind (vm_load_i64 (x_rf x) (unat (i_c ins))) (\<lambda>b.
       continue_with x (vm_store_i64 (x_rf x) (unat (i_a ins)) (a XOR b))))"

section \<open>Kind switches\<close>

text \<open>The loop over the case table: the displacement of the first entry whose \<^verbatim>\<open>a\<close> is the kind. An entry
  outside the code would be read past the array.\<close>

fun find_case :: "jello_insn list \<Rightarrow> u32 \<Rightarrow> u32 \<Rightarrow> nat \<Rightarrow> u32 \<Rightarrow> u32 run" where
  "find_case insns kind first 0 d = Inr d"
| "find_case insns kind first (Suc n) d =
     (if unat first < length insns then
        (let ci = insns ! unat first in
         if ucast (i_a ci) = kind then Inr (i_imm ci) else find_case insns kind (first + 1) n d)
      else Inl FAULT)"

definition op_switch_kind :: handler where
  "op_switch_kind x ins =
     (let f = x_f x in
      rbind (vm_load_u32 (x_rf x) (unat (i_a ins))) (\<lambda>kind.
        (let ncases = ucast (i_b ins) :: u32; table_first = x_pc x; table_end = table_first + ncases in
         if f_ninsns f < table_end then Inl PANIC
         else
           rbind (find_case (f_insns f) kind table_first (unat ncases) (i_imm ins)) (\<lambda>d.
             (let npc = table_end + d in
              if sint npc < 0 \<or> sint (f_ninsns f) < sint npc then Inl PANIC
              else Inr (OP_CONTINUE, set_pc x npc))))))"

definition op_case_kind :: handler where
  "op_case_kind x ins = Inl PANIC"

section \<open>Verified contexts\<close>

text \<open>The frame has the layout of the function's register types, which are types of the module.\<close>

abbreviation x_kinds :: "exec_ctx \<Rightarrow> jello_type_kind list" where
  "x_kinds x \<equiv> fun_kinds (x_m x) (x_f x)"

definition ctx_ok :: "exec_ctx \<Rightarrow> bool" where
  "ctx_ok x \<longleftrightarrow> frame_ok (x_kinds x) (x_rf x) \<and> length (f_reg_types (x_f x)) = unat (f_nregs (x_f x)) \<and>
     (\<forall>t\<in>set (f_reg_types (x_f x)). unat t < length (m_types (x_m x)))"

abbreviation x32 :: "exec_ctx \<Rightarrow> u8 \<Rightarrow> u32" where "x32 x r \<equiv> reg_u32 (x_kinds x) (x_rf x) (unat r)"
abbreviation x64 :: "exec_ctx \<Rightarrow> u8 \<Rightarrow> u64" where "x64 x r \<equiv> reg_u64 (x_kinds x) (x_rf x) (unat r)"

definition has_reg :: "exec_ctx \<Rightarrow> u8 \<Rightarrow> bool" where
  "has_reg x r \<longleftrightarrow> unat r < unat (f_nregs (x_f x))"

definition wide :: "exec_ctx \<Rightarrow> u8 \<Rightarrow> bool" where
  "wide x r \<longleftrightarrow> has_reg x r \<and> jello_slot_size (x_kinds x ! unat r) = 8"

lemma wide_has: "wide x r \<Longrightarrow> has_reg x r" by (simp add: wide_def)

lemma ctx_ok_frame [simp]: "ctx_ok x \<Longrightarrow> frame_ok (x_kinds x) (x_rf x)"
  and ctx_ok_length: "ctx_ok x \<Longrightarrow> length (f_reg_types (x_f x)) = unat (f_nregs (x_f x))"
  by (simp_all add: ctx_ok_def)

named_theorems reg_run \<open>evaluation of register accesses in a verified context\<close>

lemma kind_run [reg_run]:
  "ctx_ok x \<Longrightarrow> has_reg x r \<Longrightarrow> vm_reg_kind (x_m x) (x_f x) (unat r) = Inr (x_kinds x ! unat r)"
  by (auto simp: ctx_ok_def has_reg_def vm_reg_kind_def fun_kinds_def)

lemma load_run [reg_run]:
  assumes "ctx_ok x"
  shows "has_reg x r \<Longrightarrow> vm_load_u32 (x_rf x) (unat r) = Inr (x32 x r)"
    and "has_reg x r \<Longrightarrow> vm_load_i32ish (x_rf x) (unat r) = Inr (x32 x r)"
    and "has_reg x r \<Longrightarrow> vm_load_f32 (x_rf x) (unat r) = Inr (x32 x r)"
    and "has_reg x r \<Longrightarrow> vm_load_f16_bits (x_rf x) (unat r) = Inr (ucast (x32 x r AND 0xFFFF))"
    and "wide x r \<Longrightarrow> vm_load_i64 (x_rf x) (unat r) = Inr (x64 x r)"
    and "wide x r \<Longrightarrow> vm_load_f64 (x_rf x) (unat r) = Inr (x64 x r)"
  using assms load_u32_ok [of "x_kinds x" "x_rf x" "unat r"] load_i64_ok [of "x_kinds x" "x_rf x" "unat r"]
  by (auto simp: has_reg_def wide_def ctx_ok_length vm_load_i32ish_def vm_load_f32_def vm_load_f16_bits_def
      vm_load_f64_def)

lemma f16_operand_run [reg_run]:
  "ctx_ok x \<Longrightarrow> has_reg x r \<Longrightarrow>
   f16_operand fp (x_rf x) (unat r) = Inr (the (vm_f16_bits_to_f32 (nan_f16 fp) (ucast (x32 x r AND 0xFFFF))))"
  using f16_to_f32_total [of "nan_f16 fp" "ucast (x32 x r AND 0xFFFF)"]
  by (auto simp: f16_operand_def load_run)

text \<open>The handler continues with a frame in which only register \<open>a\<close> has changed, to \<open>v\<close>.\<close>

definition sets_u32 :: "exec_ctx \<Rightarrow> u8 \<Rightarrow> u32 \<Rightarrow> (op_result \<times> exec_ctx) run \<Rightarrow> bool" where
  "sets_u32 x a v r \<longleftrightarrow> (\<exists>rf'. r = Inr (OP_CONTINUE, set_rf x rf') \<and>
     only_changes (x_kinds x) (unat a) (x_rf x) rf' \<and> reg_u32 (x_kinds x) rf' (unat a) = v)"

definition sets_u64 :: "exec_ctx \<Rightarrow> u8 \<Rightarrow> u64 \<Rightarrow> (op_result \<times> exec_ctx) run \<Rightarrow> bool" where
  "sets_u64 x a v r \<longleftrightarrow> (\<exists>rf'. r = Inr (OP_CONTINUE, set_rf x rf') \<and>
     only_changes (x_kinds x) (unat a) (x_rf x) rf' \<and> reg_u64 (x_kinds x) rf' (unat a) = v)"

lemma store_run:
  assumes "ctx_ok x"
  shows "has_reg x a \<Longrightarrow> sets_u32 x a v (continue_with x (vm_store_u32 (x_rf x) (unat a) v))"
    and "has_reg x a \<Longrightarrow> sets_u32 x a v (continue_with x (vm_store_f32 (x_rf x) (unat a) v))"
    and "has_reg x a \<Longrightarrow> sets_u32 x a (mask_kind k v) (continue_with x (vm_store_u32_masked (x_rf x) (unat a) v k))"
    and "has_reg x a \<Longrightarrow> sets_u32 x a (ucast w) (continue_with x (vm_store_f16_bits (x_rf x) (unat a) w))"
    and "wide x a \<Longrightarrow> sets_u64 x a d (continue_with x (vm_store_i64 (x_rf x) (unat a) d))"
    and "wide x a \<Longrightarrow> sets_u64 x a d (continue_with x (vm_store_f64 (x_rf x) (unat a) d))"
proof -
  have 32: "sets_u32 x a v (continue_with x (vm_store_u32 (x_rf x) (unat a) v))" if "has_reg x a" for v
  proof -
    have r: "unat a < length (x_kinds x)" using assms that by (simp add: has_reg_def ctx_ok_length)
    show ?thesis
      by (rule store_u32_ok [OF ctx_ok_frame [OF assms] r, of v]) (auto simp: sets_u32_def continue_with_def)
  qed
  have 64: "sets_u64 x a d (continue_with x (vm_store_i64 (x_rf x) (unat a) d))" if "wide x a"
  proof -
    have r: "unat a < length (x_kinds x)" "jello_slot_size (x_kinds x ! unat a) = 8"
      using assms that by (auto simp: wide_def has_reg_def ctx_ok_length)
    show ?thesis
      by (rule store_i64_ok [OF ctx_ok_frame [OF assms] r, of d]) (auto simp: sets_u64_def continue_with_def)
  qed
  show "has_reg x a \<Longrightarrow> sets_u32 x a v (continue_with x (vm_store_u32 (x_rf x) (unat a) v))"
    "has_reg x a \<Longrightarrow> sets_u32 x a v (continue_with x (vm_store_f32 (x_rf x) (unat a) v))"
    "has_reg x a \<Longrightarrow> sets_u32 x a (mask_kind k v) (continue_with x (vm_store_u32_masked (x_rf x) (unat a) v k))"
    "has_reg x a \<Longrightarrow> sets_u32 x a (ucast w) (continue_with x (vm_store_f16_bits (x_rf x) (unat a) w))"
    "wide x a \<Longrightarrow> sets_u64 x a d (continue_with x (vm_store_i64 (x_rf x) (unat a) d))"
    "wide x a \<Longrightarrow> sets_u64 x a d (continue_with x (vm_store_f64 (x_rf x) (unat a) d))"
    using 32 64 by (simp_all add: vm_store_f32_def vm_store_u32_masked_def vm_store_f16_bits_def vm_store_f64_def)
qed
section \<open>Dispatch\<close>

text \<open>The entries of \<^verbatim>\<open>op_dispatch\<close> (\<^verbatim>\<open>src/vm/ops/dispatch.c\<close>) for the handlers of this development, in the order of the
  source: control and constants, and the numeric operations.\<close>

definition control_table :: "(nat \<times> handler) list" where
  "control_table =
     [(JOP_NOP, op_nop),
      (JOP_JMP, op_jmp),
      (JOP_JMP_IF, op_jmp_if),
      (JOP_MOV, op_mov),
      (JOP_TRY, op_try),
      (JOP_ENDTRY, op_endtry),
      (JOP_THROW, op_throw),
      (JOP_CONST_I32, op_const_i32),
      (JOP_CONST_I8_IMM, op_const_i8_imm),
      (JOP_CONST_BOOL, op_const_bool),
      (JOP_CONST_NULL, op_const_null),
      (JOP_CONST_ATOM, op_const_atom),
      (JOP_CONST_F16, op_const_f16),
      (JOP_CONST_F32, op_const_f32),
      (JOP_CONST_I64, op_const_i64),
      (JOP_CONST_F64, op_const_f64),
      (JOP_SWITCH_KIND, op_switch_kind),
      (JOP_CASE_KIND, op_case_kind)]"

definition numeric_table :: "fpu \<Rightarrow> (nat \<times> handler) list" where
  "numeric_table fp =
     [(JOP_ADD_I32, op_add_i32),
      (JOP_SUB_I32, op_sub_i32),
      (JOP_MUL_I32, op_mul_i32),
      (JOP_DIV_I32, op_div_i32),
      (JOP_MOD_I32, op_mod_i32),
      (JOP_SHL_I32, op_shl_i32),
      (JOP_SHR_I32, op_shr_i32),
      (JOP_ADD_I32_IMM, op_add_i32_imm),
      (JOP_SUB_I32_IMM, op_sub_i32_imm),
      (JOP_MUL_I32_IMM, op_mul_i32_imm),
      (JOP_ADD_I64, op_add_i64),
      (JOP_SUB_I64, op_sub_i64),
      (JOP_MUL_I64, op_mul_i64),
      (JOP_DIV_I64, op_div_i64),
      (JOP_MOD_I64, op_mod_i64),
      (JOP_SHL_I64, op_shl_i64),
      (JOP_SHR_I64, op_shr_i64),
      (JOP_ADD_F16, op_add_f16 fp),
      (JOP_SUB_F16, op_sub_f16 fp),
      (JOP_MUL_F16, op_mul_f16 fp),
      (JOP_ADD_F32, op_add_f32 fp),
      (JOP_SUB_F32, op_sub_f32 fp),
      (JOP_MUL_F32, op_mul_f32 fp),
      (JOP_DIV_F32, op_div_f32 fp),
      (JOP_ADD_F64, op_add_f64 fp),
      (JOP_SUB_F64, op_sub_f64 fp),
      (JOP_MUL_F64, op_mul_f64 fp),
      (JOP_DIV_F64, op_div_f64 fp),
      (JOP_NEG_I32, op_neg_i32),
      (JOP_NEG_I64, op_neg_i64),
      (JOP_NEG_F32, op_neg_f32),
      (JOP_NEG_F64, op_neg_f64),
      (JOP_NOT_BOOL, op_not_bool),
      (JOP_EQ_I32, op_eq_i32),
      (JOP_LT_I32, op_lt_i32),
      (JOP_EQ_I32_IMM, op_eq_i32_imm),
      (JOP_LT_I32_IMM, op_lt_i32_imm),
      (JOP_EQ_I64, op_eq_i64),
      (JOP_LT_I64, op_lt_i64),
      (JOP_EQ_F32, op_eq_f32),
      (JOP_LT_F32, op_lt_f32),
      (JOP_EQ_F64, op_eq_f64),
      (JOP_LT_F64, op_lt_f64),
      (JOP_SEXT_I64, op_sext_i64),
      (JOP_SEXT_I16, op_sext_i16),
      (JOP_TRUNC_I8, op_trunc_i8),
      (JOP_TRUNC_I16, op_trunc_i16),
      (JOP_I32_FROM_I64, op_i32_from_i64),
      (JOP_F64_FROM_I32, op_f64_from_i32),
      (JOP_I32_FROM_F64, op_i32_from_f64),
      (JOP_F64_FROM_I64, op_f64_from_i64),
      (JOP_I64_FROM_F64, op_i64_from_f64),
      (JOP_F32_FROM_I32, op_f32_from_i32),
      (JOP_I32_FROM_F32, op_i32_from_f32 fp),
      (JOP_F64_FROM_F32, op_f64_from_f32 fp),
      (JOP_F32_FROM_F64, op_f32_from_f64 fp),
      (JOP_F32_FROM_I64, op_f32_from_i64),
      (JOP_I64_FROM_F32, op_i64_from_f32 fp),
      (JOP_F16_FROM_F32, op_f16_from_f32),
      (JOP_F32_FROM_F16, op_f32_from_f16 fp),
      (JOP_F16_FROM_I32, op_f16_from_i32),
      (JOP_I32_FROM_F16, op_i32_from_f16 fp),
      (JOP_BITAND_I32, op_bitand_i32),
      (JOP_BITAND_I64, op_bitand_i64),
      (JOP_BITOR_I32, op_bitor_i32),
      (JOP_BITOR_I64, op_bitor_i64),
      (JOP_BITXOR_I32, op_bitxor_i32),
      (JOP_BITXOR_I64, op_bitxor_i64)]"

definition op_dispatch :: "fpu \<Rightarrow> nat \<Rightarrow> handler option" where
  "op_dispatch fp op = map_of (control_table @ numeric_table fp) op"

section \<open>Results of the macros\<close>

lemma rbind_run: "rbind (Inr v) f = f v" by simp

lemmas macro_defs = OP_UN_I32_MASKED_def OP_UN_I64_def OP_UN_F32_def OP_UN_F64_def OP_NOT_BOOL_def OP_BIN_I32_MASKED_def
  OP_BIN_I32_IMM_MASKED_def OP_BIN_F32_def OP_BIN_F64_def OP_BIN_F16_def OP_BIN_I64_def OP_CMP_I32_def OP_CMP_I32_IMM_def
  OP_CMP_F32_def OP_CMP_F64_def OP_CMP_I64_def

lemma macro32_run:
  assumes "ctx_ok x" "has_reg x (i_a ins)" "has_reg x (i_b ins)"
  shows "sets_u32 x (i_a ins) (mask_kind (x_kinds x ! unat (i_a ins)) (e1 (x32 x (i_b ins)))) (OP_UN_I32_MASKED e1 x ins)"
    "sets_u32 x (i_a ins) (e1 (x32 x (i_b ins))) (OP_UN_F32 e1 x ins)"
    "sets_u32 x (i_a ins) (bool_u32 (x32 x (i_b ins) = 0)) (OP_NOT_BOOL x ins)"
    "sets_u32 x (i_a ins) (mask_kind (x_kinds x ! unat (i_a ins)) (e2 (x32 x (i_b ins)) (scast (i_c ins))))
       (OP_BIN_I32_IMM_MASKED e2 x ins)"
    "sets_u32 x (i_a ins) (bool_u32 (p (sint (x32 x (i_b ins))) (sint (i_c ins)))) (OP_CMP_I32_IMM p x ins)"
    "has_reg x (i_c ins) \<Longrightarrow> sets_u32 x (i_a ins) (e2 (x32 x (i_b ins)) (x32 x (i_c ins))) (OP_BIN_F32 e2 x ins)"
    "has_reg x (i_c ins) \<Longrightarrow> e3 (x32 x (i_b ins)) (x32 x (i_c ins)) = Inr v \<Longrightarrow>
       sets_u32 x (i_a ins) (mask_kind (x_kinds x ! unat (i_a ins)) v) (OP_BIN_I32_MASKED e3 x ins)"
    "has_reg x (i_c ins) \<Longrightarrow>
       sets_u32 x (i_a ins) (bool_u32 (p (sint (x32 x (i_b ins))) (sint (x32 x (i_c ins))))) (OP_CMP_I32 p x ins)"
    "has_reg x (i_c ins) \<Longrightarrow>
       sets_u32 x (i_a ins) (bool_u32 (q (dec32 (x32 x (i_b ins))) (dec32 (x32 x (i_c ins))))) (OP_CMP_F32 q x ins)"
    "has_reg x (i_c ins) \<Longrightarrow> \<exists>v. sets_u32 x (i_a ins) v (OP_BIN_F16 fp e2 x ins)"
  using assms store_run [OF assms(1)] unfolding macro_defs by (auto simp: reg_run) blast

lemma macro64_run:
  assumes "ctx_ok x" "wide x (i_b ins)"
  shows "wide x (i_a ins) \<Longrightarrow> sets_u64 x (i_a ins) (e1 (x64 x (i_b ins))) (OP_UN_I64 e1 x ins)"
    "wide x (i_a ins) \<Longrightarrow> sets_u64 x (i_a ins) (e1 (x64 x (i_b ins))) (OP_UN_F64 e1 x ins)"
    "wide x (i_a ins) \<Longrightarrow> wide x (i_c ins) \<Longrightarrow>
       sets_u64 x (i_a ins) (e2 (x64 x (i_b ins)) (x64 x (i_c ins))) (OP_BIN_F64 e2 x ins)"
    "wide x (i_a ins) \<Longrightarrow> wide x (i_c ins) \<Longrightarrow> e3 (x64 x (i_b ins)) (x64 x (i_c ins)) = Inr v \<Longrightarrow>
       sets_u64 x (i_a ins) v (OP_BIN_I64 e3 x ins)"
    "has_reg x (i_a ins) \<Longrightarrow> wide x (i_c ins) \<Longrightarrow>
       sets_u32 x (i_a ins) (bool_u32 (p (sint (x64 x (i_b ins))) (sint (x64 x (i_c ins))))) (OP_CMP_I64 p x ins)"
    "has_reg x (i_a ins) \<Longrightarrow> wide x (i_c ins) \<Longrightarrow>
       sets_u32 x (i_a ins) (bool_u32 (q (dec64 (x64 x (i_b ins))) (dec64 (x64 x (i_c ins))))) (OP_CMP_F64 q x ins)"
  using assms store_run [OF assms(1)] unfolding macro_defs by (auto simp: reg_run)

section \<open>What the verifier guarantees to a handler\<close>

definition accepted :: "exec_ctx \<Rightarrow> jello_insn \<Rightarrow> u32 \<Rightarrow> bool" where
  "accepted x ins pc \<longleftrightarrow>
     jello_bc_validate_insn (x_m x) (f_reg_types (x_f x)) ins (f_nregs (x_f x)) pc (f_ninsns (x_f x)) (m_nfuncs (x_m x)) = ok"

lemma rk_kinds: "ctx_ok x \<Longrightarrow> has_reg x r \<Longrightarrow> rk (x_m x) (f_reg_types (x_f x)) r = x_kinds x ! unat r"
  by (simp add: rk_def fun_kinds_def has_reg_def ctx_ok_length)

lemma not_oor: "\<not> oor (f_nregs (x_f x)) r \<longleftrightarrow> has_reg x r"
  by (simp add: has_reg_def not_le)

lemma wideI:
  assumes "ctx_ok x" "has_reg x r" "rk (x_m x) (f_reg_types (x_f x)) r \<in> {JELLO_T_I64, JELLO_T_F64, JELLO_T_DYNAMIC}"
  shows "wide x r"
  using assms rk_kinds [OF assms(1,2)] by (auto simp: wide_def jello_slot_size_def)

lemmas validate_defs = jello_bc_validate_insn_def validate_control_def validate_calls_def validate_consts_def
  validate_arith_def validate_convs_def validate_cmps_def validate_dyn_def validate_unary_def

lemmas accepted_simps = accepted_def validate_defs Let_def not_oor


text \<open>The numeric opcodes by the registers they take, four-byte (32) or eight-byte (64), three or two of them; those
  whose handlers are partial; and the handlers of the larger groups.\<close>

definition ops32 :: "nat set" where
  "ops32 = {JOP_ADD_I32, JOP_SUB_I32, JOP_MUL_I32, JOP_DIV_I32, JOP_MOD_I32, JOP_SHL_I32, JOP_SHR_I32,
      JOP_BITAND_I32, JOP_BITOR_I32, JOP_BITXOR_I32, JOP_EQ_I32, JOP_LT_I32, JOP_ADD_F32, JOP_SUB_F32, JOP_MUL_F32,
      JOP_DIV_F32, JOP_ADD_F16, JOP_SUB_F16, JOP_MUL_F16, JOP_EQ_F32, JOP_LT_F32}"

definition ops32_2 :: "nat set" where
  "ops32_2 = {JOP_ADD_I32_IMM, JOP_SUB_I32_IMM, JOP_MUL_I32_IMM, JOP_NEG_I32, JOP_NEG_F32, JOP_NOT_BOOL, JOP_EQ_I32_IMM,
      JOP_LT_I32_IMM, JOP_SEXT_I16, JOP_TRUNC_I8, JOP_TRUNC_I16, JOP_F32_FROM_I32, JOP_I32_FROM_F32,
      JOP_F16_FROM_F32, JOP_F32_FROM_F16, JOP_F16_FROM_I32, JOP_I32_FROM_F16}"

definition ops64 :: "nat set" where
  "ops64 = {JOP_ADD_I64, JOP_SUB_I64, JOP_MUL_I64, JOP_DIV_I64, JOP_MOD_I64, JOP_SHL_I64, JOP_SHR_I64, JOP_BITAND_I64,
      JOP_BITOR_I64, JOP_BITXOR_I64, JOP_ADD_F64, JOP_SUB_F64, JOP_MUL_F64, JOP_DIV_F64}"

definition ops64_2 :: "nat set" where
  "ops64_2 = {JOP_NEG_I64, JOP_NEG_F64, JOP_F64_FROM_I64, JOP_I64_FROM_F64}"

definition ops_cmp64 :: "nat set" where
  "ops_cmp64 = {JOP_EQ_I64, JOP_LT_I64, JOP_EQ_F64, JOP_LT_F64}"

definition ops_widening :: "nat set" where
  "ops_widening = {JOP_SEXT_I64, JOP_F64_FROM_I32, JOP_F64_FROM_F32, JOP_I64_FROM_F32}"

definition ops_narrowing :: "nat set" where
  "ops_narrowing = {JOP_I32_FROM_I64, JOP_I32_FROM_F64, JOP_F32_FROM_F64, JOP_F32_FROM_I64}"

definition ops_partial :: "nat set" where
  "ops_partial = {JOP_DIV_I32, JOP_MOD_I32, JOP_DIV_I64, JOP_MOD_I64, JOP_I64_FROM_F64, JOP_I64_FROM_F32}"

definition hs32 :: "fpu \<Rightarrow> handler set" where
  "hs32 fp = {op_add_i32, op_sub_i32, op_mul_i32, op_shl_i32, op_shr_i32, op_bitand_i32, op_bitor_i32, op_bitxor_i32, op_eq_i32,
      op_lt_i32, op_add_f32 fp, op_sub_f32 fp, op_mul_f32 fp, op_div_f32 fp, op_add_f16 fp, op_sub_f16 fp, op_mul_f16 fp,
      op_eq_f32, op_lt_f32}"

definition hs32_2 :: "fpu \<Rightarrow> handler set" where
  "hs32_2 fp = {op_add_i32_imm, op_sub_i32_imm, op_mul_i32_imm, op_neg_i32, op_neg_f32, op_not_bool, op_eq_i32_imm, op_lt_i32_imm,
      op_sext_i16, op_trunc_i8, op_trunc_i16, op_f32_from_i32, op_f16_from_f32, op_f32_from_f16 fp, op_f16_from_i32}"

definition hs64 :: "fpu \<Rightarrow> handler set" where
  "hs64 fp = {op_add_i64, op_sub_i64, op_mul_i64, op_shl_i64, op_shr_i64, op_bitand_i64, op_bitor_i64, op_bitxor_i64,
      op_add_f64 fp, op_sub_f64 fp, op_mul_f64 fp, op_div_f64 fp}"

lemma accepted_i32:
  assumes "accepted x ins pc" "i_opc ins \<in> ops32"
  shows "has_reg x (i_a ins) \<and> has_reg x (i_b ins) \<and> has_reg x (i_c ins)"
  using assms unfolding ops32_def by (elim insertE emptyE) (simp_all add: accepted_simps del: oor_iff)

lemma accepted_i32_2:
  assumes "accepted x ins pc" "i_opc ins \<in> ops32_2"
  shows "has_reg x (i_a ins) \<and> has_reg x (i_b ins)"
  using assms unfolding ops32_2_def by (elim insertE emptyE) (simp_all add: accepted_simps del: oor_iff)

lemma accepted_i64:
  assumes "ctx_ok x" "accepted x ins pc" "i_opc ins \<in> ops64"
  shows "wide x (i_a ins) \<and> wide x (i_b ins) \<and> wide x (i_c ins)"
  using assms(2,3) unfolding ops64_def by (elim insertE emptyE) (auto simp: accepted_simps simp del: oor_iff intro: wideI [OF assms(1)])

lemma accepted_i64_2:
  assumes "ctx_ok x" "accepted x ins pc" "i_opc ins \<in> ops64_2"
  shows "wide x (i_a ins) \<and> wide x (i_b ins)"
  using assms(2,3) unfolding ops64_2_def by (elim insertE emptyE) (auto simp: accepted_simps simp del: oor_iff intro: wideI [OF assms(1)])

lemma accepted_cmp64:
  assumes "ctx_ok x" "accepted x ins pc" "i_opc ins \<in> ops_cmp64"
  shows "has_reg x (i_a ins) \<and> wide x (i_b ins) \<and> wide x (i_c ins)"
  using assms(2,3) unfolding ops_cmp64_def by (elim insertE emptyE) (auto simp: accepted_simps simp del: oor_iff intro: wideI [OF assms(1)])

lemma accepted_widening:
  assumes "ctx_ok x" "accepted x ins pc"
    "i_opc ins \<in> ops_widening"
  shows "wide x (i_a ins) \<and> has_reg x (i_b ins)"
  using assms(2,3) unfolding ops_widening_def by (elim insertE emptyE) (auto simp: accepted_simps simp del: oor_iff intro: wideI [OF assms(1)])

lemma accepted_narrowing:
  assumes "ctx_ok x" "accepted x ins pc"
    "i_opc ins \<in> ops_narrowing"
  shows "has_reg x (i_a ins) \<and> wide x (i_b ins)"
  using assms(2,3) unfolding ops_narrowing_def by (elim insertE emptyE) (auto simp: accepted_simps simp del: oor_iff intro: wideI [OF assms(1)])

section \<open>Checked conversions never leave the range\<close>

lemma f_trunc_upper:
  assumes "f_finite v" "\<not> f_lt (FFin False M 0) v"
  shows "f_trunc v \<le> int M"
proof -
  obtain s m e where v: "v = FFin s m e" using assms(1) by (cases v) (auto simp: f_finite_def)
  show ?thesis
  proof (cases "0 \<le> e")
    case True
    then show ?thesis using assms(2) by (auto simp: v f_trunc_def f_signed_def split: if_splits)
  next
    case False
    have "f_signed s m \<le> int M * 2 ^ nat (- e)" using assms(2) False by (simp add: v f_signed_def)
    then have "s \<or> m \<le> M * 2 ^ nat (- e)"
      by (auto simp: f_signed_def split: if_splits) (metis of_nat_le_iff of_nat_mult of_nat_numeral of_nat_power)
    then have "s \<or> m div 2 ^ nat (- e) \<le> M" by (auto dest: div_le_mono [where k = "2 ^ nat (- e)"])
    then show ?thesis using False by (auto simp: v f_trunc_def f_signed_def)
  qed
qed

lemma f_trunc_lower:
  assumes "f_finite v" "\<not> f_lt v (FFin True M 0)"
  shows "- int M \<le> f_trunc v"
proof -
  obtain s m e where v: "v = FFin s m e" using assms(1) by (cases v) (auto simp: f_finite_def)
  have "f_lt (FFin False M 0) (f_negate v) \<longleftrightarrow> f_lt v (FFin True M 0)"
    by (auto simp: v f_signed_def)
  moreover have "f_trunc (f_negate v) = - f_trunc v" by (simp add: v f_trunc_def f_signed_def)
  moreover have "f_finite (f_negate v)" by (simp add: v f_finite_def)
  ultimately show ?thesis using f_trunc_upper [of "f_negate v" M] assms(2) by simp
qed

lemma sint_of_int: "- (2 ^ (LENGTH('a) - 1)) \<le> i \<Longrightarrow> i < 2 ^ (LENGTH('a) - 1) \<Longrightarrow> sint (of_int i :: 'a::len word) = i"
  by (simp add: sint_sbintrunc' signed_take_bit_int_eq_self)

section \<open>Every numeric handler is safe\<close>

definition reg_step :: "exec_ctx \<Rightarrow> u8 \<Rightarrow> (op_result \<times> exec_ctx) run \<Rightarrow> bool" where
  "reg_step x a r \<longleftrightarrow>
     (\<exists>rf'. r = Inr (OP_CONTINUE, set_rf x rf') \<and> only_changes (x_kinds x) (unat a) (x_rf x) rf') \<or>
     (\<exists>msg. r = Inr (OP_CONTINUE, conversion_trap x msg))"

lemma sets_reg_step: "sets_u32 x a v r \<Longrightarrow> reg_step x a r" "sets_u64 x a w r \<Longrightarrow> reg_step x a r"
  by (auto simp: sets_u32_def sets_u64_def reg_step_def)

lemma store_checked_step:
  assumes "r = Inr (Inl (conversion_trap x msg)) \<or> (\<exists>v. r = Inr (Inr v))"
    and "\<And>v. \<exists>w. sets_u32 x a w (continue_with x (st v)) \<or> (\<exists>w. sets_u64 x a w (continue_with x (st v)))"
  shows "reg_step x a (store_checked x r st)"
proof (cases "r = Inr (Inl (conversion_trap x msg))")
  case True
  then show ?thesis by (auto simp: store_checked_def reg_step_def)
next
  case False
  then obtain v where "r = Inr (Inr v)" using assms(1) by auto
  moreover have "reg_step x a (continue_with x (st v))" using assms(2) [of v] sets_reg_step by blast
  ultimately show ?thesis by (simp add: store_checked_def)
qed

lemma checked_i32_total:
  "vm_checked_f64_to_i32 x d = Inr (Inl (conversion_trap x ''f64->i32 conversion overflow'')) \<or>
   vm_checked_f64_to_i32 x d = Inr (Inr (of_int (f_trunc (dec64 d))))"
  using f_trunc_upper [of "dec64 d" 2147483647] f_trunc_lower [of "dec64 d" 2147483648]
  by (auto simp: vm_checked_f64_to_i32_def Let_def c_int_cast_def)

lemmas op32_defs = op_add_i32_def op_sub_i32_def op_mul_i32_def op_shl_i32_def op_shr_i32_def op_add_i32_imm_def
  op_sub_i32_imm_def op_mul_i32_imm_def op_neg_i32_def op_not_bool_def op_eq_i32_def op_lt_i32_def op_eq_i32_imm_def
  op_lt_i32_imm_def op_sext_i16_def op_trunc_i8_def op_trunc_i16_def op_bitand_i32_def op_bitor_i32_def op_bitxor_i32_def

lemmas opf_defs = op_add_f16_def op_sub_f16_def op_mul_f16_def op_add_f32_def op_sub_f32_def op_mul_f32_def op_div_f32_def
  op_neg_f32_def op_eq_f32_def op_lt_f32_def op_f32_from_i32_def op_f16_from_f32_def op_f32_from_f16_def op_f16_from_i32_def

lemmas op64_defs = op_add_i64_def op_sub_i64_def op_mul_i64_def op_shl_i64_def op_shr_i64_def op_neg_i64_def op_bitand_i64_def
  op_bitor_i64_def op_bitxor_i64_def op_eq_i64_def op_lt_i64_def op_sext_i64_def op_i32_from_i64_def op_add_f64_def op_sub_f64_def
  op_mul_f64_def op_div_f64_def op_neg_f64_def op_eq_f64_def op_lt_f64_def op_f64_from_i32_def op_f64_from_i64_def
  op_f64_from_f32_def op_f32_from_f64_def op_f32_from_i64_def

lemma steps32:
  assumes "ctx_ok x" "has_reg x (i_a ins)" "has_reg x (i_b ins)" "has_reg x (i_c ins)"
    and "h \<in> hs32 fp"
  shows "\<exists>v. sets_u32 x (i_a ins) v (h x ins)"
proof -
  note m = macro32_run [OF assms(1-3)] and s = store_run [OF assms(1)]
  have b: "\<exists>v. sets_u32 x (i_a ins) v (OP_BIN_I32_MASKED (\<lambda>a b. Inr (f a b)) x ins)" for f
    by (rule exI) (rule m(7) [OF assms(4) refl])
  show ?thesis
    using assms(5) unfolding hs32_def
    by (elim insertE emptyE; simp only: op32_defs opf_defs; (simp add: reg_run assms(1-4))?)
      (use assms(2,4) b [of "(+)"] b [of "(-)"] b [of "(*)"] m(6,8-10) s(3) in blast)+
qed

lemma steps32_2:
  assumes "ctx_ok x" "has_reg x (i_a ins)" "has_reg x (i_b ins)"
    and "h \<in> hs32_2 fp"
  shows "\<exists>v. sets_u32 x (i_a ins) v (h x ins)"
proof -
  note m = macro32_run [OF assms(1-3)] and s = store_run [OF assms(1)]
  show ?thesis
    using assms(4) unfolding hs32_2_def
    by (elim insertE emptyE; simp only: op32_defs opf_defs; (simp add: reg_run assms(1-3))?)
      (use assms(2) m(1-5) s(1-4) in blast)+
qed

lemma steps64:
  assumes "ctx_ok x" "wide x (i_a ins)" "wide x (i_b ins)" "wide x (i_c ins)"
    and "h \<in> hs64 fp"
  shows "\<exists>v. sets_u64 x (i_a ins) v (h x ins)"
proof -
  note m = macro64_run [OF assms(1,3)] and s = store_run [OF assms(1)]
  have b: "\<exists>v. sets_u64 x (i_a ins) v (OP_BIN_I64 (\<lambda>a b. Inr (f a b)) x ins)" for f
    by (rule exI) (rule m(4) [OF assms(2,4) refl])
  show ?thesis
    using assms(5) unfolding hs64_def
    by (elim insertE emptyE; simp only: op64_defs; (simp add: reg_run assms(1-4))?)
      (use assms(2,4) b [of "(+)"] b [of "(-)"] b [of "(*)"] m(3) s(5) in blast)+
qed

lemma steps64_2:
  assumes "ctx_ok x" "wide x (i_a ins)" "wide x (i_b ins)" "h \<in> {op_neg_i64, op_neg_f64, op_f64_from_i64}"
  shows "\<exists>v. sets_u64 x (i_a ins) v (h x ins)"
  using assms(4) macro64_run(1,2) [OF assms(1,3,2)] store_run(5,6) [OF assms(1,2)]
  by (elim insertE emptyE; simp only: op64_defs; (simp add: reg_run assms(1-3))?) blast+

lemma steps_cmp64:
  assumes "ctx_ok x" "has_reg x (i_a ins)" "wide x (i_b ins)" "wide x (i_c ins)" "h \<in> {op_eq_i64, op_lt_i64, op_eq_f64, op_lt_f64}"
  shows "\<exists>v. sets_u32 x (i_a ins) v (h x ins)"
  using assms(5) macro64_run(5,6) [OF assms(1,3,2,4)] by (elim insertE emptyE; simp only: op64_defs) blast+

lemma steps_widening:
  assumes "ctx_ok x" "wide x (i_a ins)" "has_reg x (i_b ins)" "h \<in> {op_sext_i64, op_f64_from_i32, op_f64_from_f32 fp}"
  shows "\<exists>v. sets_u64 x (i_a ins) v (h x ins)"
  using assms(4) store_run(5,6) [OF assms(1,2)]
  by (elim insertE emptyE; simp only: op64_defs; (simp add: reg_run assms(1-3))?) blast+

lemma steps_narrowing:
  assumes "ctx_ok x" "has_reg x (i_a ins)" "wide x (i_b ins)" "h \<in> {op_i32_from_i64, op_f32_from_f64 fp, op_f32_from_i64}"
  shows "\<exists>v. sets_u32 x (i_a ins) v (h x ins)"
  using assms(4) store_run(1-4) [OF assms(1,2)]
  by (elim insertE emptyE; simp only: op64_defs; (simp add: reg_run assms(1-3))?) blast+

lemma steps_checked_i32:
  assumes "ctx_ok x" "has_reg x (i_a ins)"
  shows "wide x (i_b ins) \<Longrightarrow> reg_step x (i_a ins) (op_i32_from_f64 x ins)"
    and "has_reg x (i_b ins) \<Longrightarrow> h \<in> {op_i32_from_f32 fp, op_i32_from_f16 fp} \<Longrightarrow> reg_step x (i_a ins) (h x ins)"
proof -
  have c: "reg_step x (i_a ins) (store_checked x (vm_checked_f64_to_i32 x d) (vm_store_u32 (x_rf x) (unat (i_a ins))))" for d
    by (rule store_checked_step) (use checked_i32_total [of x d] store_run(1) [OF assms] in blast)+
  show "wide x (i_b ins) \<Longrightarrow> reg_step x (i_a ins) (op_i32_from_f64 x ins)"
    using c by (simp add: op_i32_from_f64_def reg_run assms)
  show "has_reg x (i_b ins) \<Longrightarrow> h \<in> {op_i32_from_f32 fp, op_i32_from_f16 fp} \<Longrightarrow> reg_step x (i_a ins) (h x ins)"
    using c by (auto simp: op_i32_from_f32_def op_i32_from_f16_def reg_run assms)
qed

text \<open>The rows of the table by the operands their instructions take.\<close>

lemmas group_defs = ops32_def ops32_2_def ops64_def ops64_2_def ops_cmp64_def ops_widening_def ops_narrowing_def
  ops_partial_def hs32_def hs32_2_def hs64_def

lemma numeric_groups:
  assumes "map_of (numeric_table fp) op = Some h"
  shows "op \<in> ops_partial \<or> (op \<in> ops32 \<and> h \<in> hs32 fp) \<or> (op \<in> ops32_2 \<and> h \<in> hs32_2 fp) \<or>
    (op \<in> ops32_2 \<and> h \<in> {op_i32_from_f32 fp, op_i32_from_f16 fp}) \<or> (op \<in> ops64 \<and> h \<in> hs64 fp) \<or>
    (op \<in> ops64_2 \<and> h \<in> {op_neg_i64, op_neg_f64, op_f64_from_i64}) \<or>
    (op \<in> ops_cmp64 \<and> h \<in> {op_eq_i64, op_lt_i64, op_eq_f64, op_lt_f64}) \<or>
    (op \<in> ops_widening \<and> h \<in> {op_sext_i64, op_f64_from_i32, op_f64_from_f32 fp}) \<or>
    (op \<in> ops_narrowing \<and> h \<in> {op_i32_from_i64, op_f32_from_f64 fp, op_f32_from_i64}) \<or>
    (op \<in> ops_narrowing \<and> h = op_i32_from_f64)"
  using map_of_SomeD [OF assms] unfolding numeric_table_def list.set
  by (elim insertE emptyE) (simp_all add: group_defs)

lemma numeric_step:
  assumes "ctx_ok x" "accepted x ins pc" "map_of (numeric_table fp) (i_opc ins) = Some h" "i_opc ins \<notin> ops_partial"
  shows "reg_step x (i_a ins) (h x ins)"
proof -
  note a = accepted_i32 [OF assms(2)] accepted_i32_2 [OF assms(2)] accepted_i64 [OF assms(1,2)] accepted_i64_2 [OF assms(1,2)]
    accepted_cmp64 [OF assms(1,2)] accepted_widening [OF assms(1,2)] accepted_narrowing [OF assms(1,2)]
  note s = steps32 [OF assms(1)] steps32_2 [OF assms(1)] steps64 [OF assms(1)] steps64_2 [OF assms(1)]
    steps_cmp64 [OF assms(1)] steps_widening [OF assms(1)] steps_narrowing [OF assms(1)]
  have "(\<exists>v. sets_u32 x (i_a ins) v (h x ins)) \<or> (\<exists>v. sets_u64 x (i_a ins) v (h x ins)) \<or> reg_step x (i_a ins) (h x ins)"
    using numeric_groups [OF assms(3)]
  proof (elim disjE conjE)
    assume "i_opc ins \<in> ops_partial" then show ?thesis using assms(4) by simp
  next
    assume "i_opc ins \<in> ops32" "h \<in> hs32 fp" then show ?thesis using a(1) s(1) by blast
  next
    assume "i_opc ins \<in> ops32_2" "h \<in> hs32_2 fp" then show ?thesis using a(2) s(2) by blast
  next
    assume "i_opc ins \<in> ops32_2" "h \<in> {op_i32_from_f32 fp, op_i32_from_f16 fp}"
    then show ?thesis using a(2) steps_checked_i32(2) [OF assms(1)] by blast
  next
    assume "i_opc ins \<in> ops64" "h \<in> hs64 fp" then show ?thesis using a(3) s(3) by blast
  next
    assume "i_opc ins \<in> ops64_2" "h \<in> {op_neg_i64, op_neg_f64, op_f64_from_i64}"
    then show ?thesis using a(4) s(4) by blast
  next
    assume "i_opc ins \<in> ops_cmp64" "h \<in> {op_eq_i64, op_lt_i64, op_eq_f64, op_lt_f64}"
    then show ?thesis using a(5) s(5) by blast
  next
    assume "i_opc ins \<in> ops_widening" "h \<in> {op_sext_i64, op_f64_from_i32, op_f64_from_f32 fp}"
    then show ?thesis using a(6) s(6) by blast
  next
    assume "i_opc ins \<in> ops_narrowing" "h \<in> {op_i32_from_i64, op_f32_from_f64 fp, op_f32_from_i64}"
    then show ?thesis using a(7) s(7) by blast
  next
    assume "i_opc ins \<in> ops_narrowing" "h = op_i32_from_f64"
    then show ?thesis using a(7) steps_checked_i32(1) [OF assms(1)] by blast
  qed
  then show ?thesis using sets_reg_step by blast
qed


section \<open>Exact results\<close>

text \<open>\<open>wrap n z\<close> is \<open>z\<close> reduced to \<open>n\<close> bits in two's complement.\<close>

definition wrap :: "nat \<Rightarrow> int \<Rightarrow> int" where
  "wrap n z = (z + 2 ^ (n - 1)) mod 2 ^ n - 2 ^ (n - 1)"

definition int_bits :: "jello_type_kind \<Rightarrow> nat" where
  "int_bits k = (if k = JELLO_T_I8 then 8 else if k = JELLO_T_I16 then 16 else 32)"

lemma wrap_signed_take_bit: "0 < n \<Longrightarrow> wrap n z = signed_take_bit (n - 1) z"
  by (simp add: wrap_def signed_take_bit_eq_take_bit_shift take_bit_eq_mod)

lemma mask_kind_sint: "sint (mask_kind k v) = signed_take_bit (int_bits k - 1) (sint v)"
proof -
  have m: "(0xFF :: u32) = mask 8" "(0xFFFF :: u32) = mask 16" by (simp_all add: mask_eq_exp_minus_1)
  have 8: "sint (scast (ucast (v AND mask 8) :: u8) :: u32) = signed_take_bit 7 (sint v)"
    by (rule bit_eqI) (auto simp: bit_simps min_def)
  have 16: "sint (scast (ucast (v AND mask 16) :: u16) :: u32) = signed_take_bit 15 (sint v)"
    by (rule bit_eqI) (auto simp: bit_simps min_def)
  have 32: "signed_take_bit 31 (sint v) = sint v"
    by (rule bit_eqI) (auto simp: bit_simps min_def)
  show ?thesis unfolding mask_kind_def int_bits_def m using 8 16 32 by simp
qed

lemma mask_kind_wrap:
  assumes "sint v = signed_take_bit 31 z"
  shows "sint (mask_kind k v) = wrap (int_bits k) z"
proof -
  have "min (int_bits k - 1) 31 = int_bits k - 1" "0 < int_bits k" by (auto simp: int_bits_def)
  then show ?thesis unfolding mask_kind_sint assms by (simp add: wrap_signed_take_bit)
qed

lemma i32_result:
  assumes "ctx_ok x" "accepted x ins pc" "i_opc ins \<in> ops32"
    and "e (x32 x (i_b ins)) (x32 x (i_c ins)) = Inr v" "sint v = signed_take_bit 31 z"
  shows "\<exists>rf'. OP_BIN_I32_MASKED e x ins = Inr (OP_CONTINUE, set_rf x rf') \<and>
    only_changes (x_kinds x) (unat (i_a ins)) (x_rf x) rf' \<and>
    sint (reg_u32 (x_kinds x) rf' (unat (i_a ins))) = wrap (int_bits (x_kinds x ! unat (i_a ins))) z"
proof -
  have "has_reg x (i_a ins)" "has_reg x (i_b ins)" "has_reg x (i_c ins)" using accepted_i32 [OF assms(2,3)] by auto
  from macro32_run(7) [where ?e3.0 = e, OF assms(1) this(1,2,3) assms(4)] mask_kind_wrap [OF assms(5)]
  show ?thesis by (auto simp: sets_u32_def)
qed

lemma i64_result:
  assumes "ctx_ok x" "accepted x ins pc" "i_opc ins \<in> ops64"
    and "e (x64 x (i_b ins)) (x64 x (i_c ins)) = Inr v" "sint v = signed_take_bit 63 z"
  shows "\<exists>rf'. OP_BIN_I64 e x ins = Inr (OP_CONTINUE, set_rf x rf') \<and>
    only_changes (x_kinds x) (unat (i_a ins)) (x_rf x) rf' \<and>
    sint (reg_u64 (x_kinds x) rf' (unat (i_a ins))) = wrap 64 z"
proof -
  have "wide x (i_a ins)" "wide x (i_b ins)" "wide x (i_c ins)" using accepted_i64 [OF assms(1-3)] by auto
  from macro64_run(4) [where ?e3.0 = e, OF assms(1) this(2,1,3) assms(4)] assms(5) show ?thesis
    by (auto simp: sets_u64_def wrap_signed_take_bit)
qed

text \<open>An accepted integer addition, subtraction or multiplication stores the exact mathematical result of its
  signed operands, reduced to the width of the destination's type (8, 16, 32 or 64 bits) in two's complement,
  whatever the widths of the operands, and changes no other register.\<close>

theorem integer_arithmetic_wraps:
  assumes "ctx_ok x" "accepted x ins pc"
  shows "((i_opc ins, h, f) \<in> {(JOP_ADD_I32, op_add_i32, (+)), (JOP_SUB_I32, op_sub_i32, (-)), (JOP_MUL_I32, op_mul_i32, (*))} \<longrightarrow>
      (\<exists>rf'. h x ins = Inr (OP_CONTINUE, set_rf x rf') \<and> only_changes (x_kinds x) (unat (i_a ins)) (x_rf x) rf' \<and>
        sint (reg_u32 (x_kinds x) rf' (unat (i_a ins))) =
          wrap (int_bits (x_kinds x ! unat (i_a ins))) (f (sint (x32 x (i_b ins))) (sint (x32 x (i_c ins)))))) \<and>
    ((i_opc ins, h, f) \<in> {(JOP_ADD_I64, op_add_i64, (+)), (JOP_SUB_I64, op_sub_i64, (-)), (JOP_MUL_I64, op_mul_i64, (*))} \<longrightarrow>
      (\<exists>rf'. h x ins = Inr (OP_CONTINUE, set_rf x rf') \<and> only_changes (x_kinds x) (unat (i_a ins)) (x_rf x) rf' \<and>
        sint (reg_u64 (x_kinds x) rf' (unat (i_a ins))) = wrap 64 (f (sint (x64 x (i_b ins))) (sint (x64 x (i_c ins))))))"
proof (intro conjI impI, goal_cases)
  case 1
  then have o: "i_opc ins \<in> ops32" by (auto simp: ops32_def)
  have w: "sint (a + b) = signed_take_bit 31 (sint a + sint b)" "sint (a - b) = signed_take_bit 31 (sint a - sint b)"
      "sint (a * b) = signed_take_bit 31 (sint a * sint b)" for a b :: u32
    by (simp_all add: sint_word_add sint_word_diff sint_word_mult)
  have r: "\<exists>rf'. OP_BIN_I32_MASKED (\<lambda>a b. Inr (g a b)) x ins = Inr (OP_CONTINUE, set_rf x rf') \<and>
      only_changes (x_kinds x) (unat (i_a ins)) (x_rf x) rf' \<and> sint (reg_u32 (x_kinds x) rf' (unat (i_a ins))) =
        wrap (int_bits (x_kinds x ! unat (i_a ins))) (k (sint (x32 x (i_b ins))) (sint (x32 x (i_c ins))))"
    if "\<And>a b :: u32. sint (g a b) = signed_take_bit 31 (k (sint a) (sint b))" for g k
    by (rule i32_result [where e = "\<lambda>a b. Inr (g a b)", OF assms o refl that])
  from 1 show ?case
    using r [of "(+)" "(+)", OF w(1)] r [of "(-)" "(-)", OF w(2)] r [of "(*)" "(*)", OF w(3)]
    by (elim insertE emptyE Pair_inject) (simp_all only: op_add_i32_def op_sub_i32_def op_mul_i32_def)
next
  case 2
  then have o: "i_opc ins \<in> ops64" by (auto simp: ops64_def)
  have w: "sint (a + b) = signed_take_bit 63 (sint a + sint b)" "sint (a - b) = signed_take_bit 63 (sint a - sint b)"
      "sint (a * b) = signed_take_bit 63 (sint a * sint b)" for a b :: u64
    by (simp_all add: sint_word_add sint_word_diff sint_word_mult)
  have r: "\<exists>rf'. OP_BIN_I64 (\<lambda>a b. Inr (g a b)) x ins = Inr (OP_CONTINUE, set_rf x rf') \<and>
      only_changes (x_kinds x) (unat (i_a ins)) (x_rf x) rf' \<and> sint (reg_u64 (x_kinds x) rf' (unat (i_a ins))) =
        wrap 64 (k (sint (x64 x (i_b ins))) (sint (x64 x (i_c ins))))"
    if "\<And>a b :: u64. sint (g a b) = signed_take_bit 63 (k (sint a) (sint b))" for g k
    by (rule i64_result [where e = "\<lambda>a b. Inr (g a b)", OF assms o refl that])
  from 2 show ?case
    using r [of "(+)" "(+)", OF w(1)] r [of "(-)" "(-)", OF w(2)] r [of "(*)" "(*)", OF w(3)]
    by (elim insertE emptyE Pair_inject) (simp_all only: op_add_i64_def op_sub_i64_def op_mul_i64_def)
qed

lemma signed_op_run:
  "signed_op f a b = (if sint b = 0 \<or> (sint a = - (2 ^ (LENGTH('a) - 1)) \<and> sint b = - 1) then Inl FAULT
     else Inr (of_int (f (sint a) (sint b)) :: 'a::len word))"
  by (auto simp: signed_op_def signed_eq_0_iff)

lemma sint_of_int_wrap: "sint (of_int z :: 'a::len word) = signed_take_bit (LENGTH('a) - 1) z"
  by (simp add: sint_sbintrunc')

lemma division_faults:
  assumes "ctx_ok x" "accepted x ins pc"
  shows "i_opc ins \<in> ops32 \<Longrightarrow> e (x32 x (i_b ins)) (x32 x (i_c ins)) = Inl s \<Longrightarrow> OP_BIN_I32_MASKED e x ins = Inl s"
    and "i_opc ins \<in> ops64 \<Longrightarrow> d (x64 x (i_b ins)) (x64 x (i_c ins)) = Inl s \<Longrightarrow> OP_BIN_I64 d x ins = Inl s"
  using accepted_i32 [OF assms(2)] accepted_i64 [OF assms] assms(1)
  by (auto simp: OP_BIN_I32_MASKED_def OP_BIN_I64_def reg_run)

text \<open>An accepted integer division or remainder is undefined behaviour exactly when the divisor is zero or the
  quotient of the most negative number and \<open>-1\<close> does not fit: neither the verifier nor the handler excludes
  it. In all other cases it stores the quotient rounded towards zero, or the remainder with the sign of
  the dividend.\<close>

theorem integer_division:
  assumes "ctx_ok x" "accepted x ins pc"
  shows "((i_opc ins, h, f) \<in> {(JOP_DIV_I32, op_div_i32, (sdiv)), (JOP_MOD_I32, op_mod_i32, (smod))} \<longrightarrow>
      (let a = sint (x32 x (i_b ins)); b = sint (x32 x (i_c ins)) in
       if b = 0 \<or> (a = - (2 ^ 31) \<and> b = - 1) then h x ins = Inl FAULT
       else \<exists>rf'. h x ins = Inr (OP_CONTINUE, set_rf x rf') \<and> only_changes (x_kinds x) (unat (i_a ins)) (x_rf x) rf' \<and>
         sint (reg_u32 (x_kinds x) rf' (unat (i_a ins))) = wrap (int_bits (x_kinds x ! unat (i_a ins))) (f a b))) \<and>
    ((i_opc ins, h, f) \<in> {(JOP_DIV_I64, op_div_i64, (sdiv)), (JOP_MOD_I64, op_mod_i64, (smod))} \<longrightarrow>
      (let a = sint (x64 x (i_b ins)); b = sint (x64 x (i_c ins)) in
       if b = 0 \<or> (a = - (2 ^ 63) \<and> b = - 1) then h x ins = Inl FAULT
       else \<exists>rf'. h x ins = Inr (OP_CONTINUE, set_rf x rf') \<and> only_changes (x_kinds x) (unat (i_a ins)) (x_rf x) rf' \<and>
         sint (reg_u64 (x_kinds x) rf' (unat (i_a ins))) = wrap 64 (f a b)))"
proof (intro conjI impI, goal_cases)
  case 1
  then have o: "i_opc ins \<in> ops32" and h: "h = OP_BIN_I32_MASKED (signed_op f)"
    by (auto simp: ops32_def op_div_i32_def op_mod_i32_def)
  let ?a = "x32 x (i_b ins)" and ?b = "x32 x (i_c ins)"
  show ?case
  proof (cases "sint ?b = 0 \<or> (sint ?a = - (2 ^ 31) \<and> sint ?b = - 1)")
    case True
    then have "signed_op f ?a ?b = Inl FAULT" by (simp only: signed_op_run) simp
    with True division_faults(1) [where e = "signed_op f", OF assms o] show ?thesis by (simp only: h Let_def if_True)
  next
    case False
    then have "signed_op f ?a ?b = Inr (of_int (f (sint ?a) (sint ?b)))" by (simp only: signed_op_run) simp
    from i32_result [where e = "signed_op f", OF assms o this, of "f (sint ?a) (sint ?b)"] False
    show ?thesis by (simp only: h Let_def if_False) (simp add: sint_of_int_wrap)
  qed
next
  case 2
  then have o: "i_opc ins \<in> ops64" and h: "h = OP_BIN_I64 (signed_op f)"
    by (auto simp: ops64_def op_div_i64_def op_mod_i64_def)
  let ?a = "x64 x (i_b ins)" and ?b = "x64 x (i_c ins)"
  show ?case
  proof (cases "sint ?b = 0 \<or> (sint ?a = - (2 ^ 63) \<and> sint ?b = - 1)")
    case True
    then have "signed_op f ?a ?b = Inl FAULT" by (simp only: signed_op_run) simp
    with True division_faults(2) [where d = "signed_op f", OF assms o] show ?thesis by (simp only: h Let_def if_True)
  next
    case False
    then have "signed_op f ?a ?b = Inr (of_int (f (sint ?a) (sint ?b)))" by (simp only: signed_op_run) simp
    from i64_result [where e = "signed_op f", OF assms o this, of "f (sint ?a) (sint ?b)"] False
    show ?thesis by (simp only: h Let_def if_False) (simp add: sint_of_int_wrap)
  qed
qed

section \<open>Conversions\<close>

lemma checked_i64_cases:
  "vm_checked_f64_to_i64 x d = Inr (Inl (conversion_trap x ''f64->i64 conversion overflow'')) \<or>
   (f_finite (dec64 d) \<and> f_trunc (dec64 d) = 2 ^ 63 \<and> vm_checked_f64_to_i64 x d = Inl FAULT) \<or>
   (f_finite (dec64 d) \<and> - (2 ^ 63) \<le> f_trunc (dec64 d) \<and> f_trunc (dec64 d) < 2 ^ 63 \<and>
      vm_checked_f64_to_i64 x d = Inr (Inr (of_int (f_trunc (dec64 d)))))"
  using f_trunc_upper [of "dec64 d" 9223372036854775808] f_trunc_lower [of "dec64 d" 9223372036854775808]
  by (auto simp: vm_checked_f64_to_i64_def Let_def c_int_cast_def)

text \<open>The conversion of a double to a 32-bit integer never has undefined behaviour: it delivers the exact truncation when
  the double lies in the 32-bit range and raises a type mismatch otherwise. The conversion to a 64-bit
  integer has undefined behaviour for the double \<open>2^63\<close>, and only for it, since the range check compares with
  \<^verbatim>\<open>9223372036854775807.0\<close>, which is \<open>2^63\<close>.\<close>

theorem checked_conversions:
  "(vm_checked_f64_to_i32 x d = Inr (Inl (conversion_trap x ''f64->i32 conversion overflow'')) \<or>
    (\<exists>v. vm_checked_f64_to_i32 x d = Inr (Inr v) \<and> f_finite (dec64 d) \<and> sint v = f_trunc (dec64 d))) \<and>
   (vm_checked_f64_to_i64 x d = Inr (Inl (conversion_trap x ''f64->i64 conversion overflow'')) \<or>
    (vm_checked_f64_to_i64 x d = Inl FAULT \<and> f_finite (dec64 d) \<and> f_trunc (dec64 d) = 2 ^ 63) \<or>
    (\<exists>v. vm_checked_f64_to_i64 x d = Inr (Inr v) \<and> f_finite (dec64 d) \<and> sint v = f_trunc (dec64 d))) \<and>
   vm_checked_f64_to_i64 x 0x43E0000000000000 = Inl FAULT"
proof (intro conjI)
  have "f_finite (dec64 d)" "- (2 ^ 31) \<le> f_trunc (dec64 d)" "f_trunc (dec64 d) < 2 ^ 31"
    if "vm_checked_f64_to_i32 x d \<noteq> Inr (Inl (conversion_trap x ''f64->i32 conversion overflow''))"
    using that f_trunc_upper [of "dec64 d" 2147483647] f_trunc_lower [of "dec64 d" 2147483648]
    by (auto simp: vm_checked_f64_to_i32_def Let_def split: if_splits)
  then show "vm_checked_f64_to_i32 x d = Inr (Inl (conversion_trap x ''f64->i32 conversion overflow'')) \<or>
    (\<exists>v. vm_checked_f64_to_i32 x d = Inr (Inr v) \<and> f_finite (dec64 d) \<and> sint v = f_trunc (dec64 d))"
    using checked_i32_total [of x d] sint_of_int [where 'a = 32, of "f_trunc (dec64 d)"] by auto
  show "vm_checked_f64_to_i64 x d = Inr (Inl (conversion_trap x ''f64->i64 conversion overflow'')) \<or>
    (vm_checked_f64_to_i64 x d = Inl FAULT \<and> f_finite (dec64 d) \<and> f_trunc (dec64 d) = 2 ^ 63) \<or>
    (\<exists>v. vm_checked_f64_to_i64 x d = Inr (Inr v) \<and> f_finite (dec64 d) \<and> sint v = f_trunc (dec64 d))"
    using checked_i64_cases [of x d] sint_of_int [where 'a = 64, of "f_trunc (dec64 d)"] by auto
  show "vm_checked_f64_to_i64 x 0x43E0000000000000 = Inl FAULT"
    by (simp add: vm_checked_f64_to_i64_def Let_def f_decode_def f_finite_def f_signed_def c_int_cast_def f_trunc_def)
qed

lemma ctx_ok_set_rf:
  "ctx_ok x \<Longrightarrow> only_changes (x_kinds x) a (x_rf x) rf' \<Longrightarrow> ctx_ok (set_rf x rf')"
  by (simp add: ctx_ok_def only_changes_def set_rf_def)

lemma set_rf_simps [simp]: "x_m (set_rf x rf) = x_m x" "x_f (set_rf x rf) = x_f x" "x_rf (set_rf x rf) = rf"
  by (simp_all add: set_rf_def)

text \<open>A 32-bit integer converted to a double by \<^verbatim>\<open>f64_from_i32\<close> and back by \<^verbatim>\<open>i32_from_f64\<close> is unchanged, and
  neither instruction traps.\<close>

theorem i32_f64_roundtrip:
  assumes "ctx_ok x" "accepted x ins pc" "i_opc ins = JOP_F64_FROM_I32"
    and "accepted x ins' pc'" "i_opc ins' = JOP_I32_FROM_F64" "i_b ins' = i_a ins"
  shows "\<exists>x' rf'. op_f64_from_i32 x ins = Inr (OP_CONTINUE, x') \<and>
    op_i32_from_f64 x' ins' = Inr (OP_CONTINUE, set_rf x' rf') \<and>
    reg_u32 (x_kinds x) rf' (unat (i_a ins')) = x32 x (i_b ins)"
proof -
  have r: "wide x (i_a ins)" "has_reg x (i_b ins)" "has_reg x (i_a ins')"
    using accepted_widening [OF assms(1,2)] accepted_narrowing [OF assms(1,4)] assms(3,5)
    by (auto simp: ops_widening_def ops_narrowing_def)
  let ?i = "sint (x32 x (i_b ins))"
  obtain rf where rf: "op_f64_from_i32 x ins = Inr (OP_CONTINUE, set_rf x rf)"
      "only_changes (x_kinds x) (unat (i_a ins)) (x_rf x) rf" "reg_u64 (x_kinds x) rf (unat (i_a ins)) = f64_of_int ?i"
    using store_run(6) [OF assms(1) r(1), of "f64_of_int ?i"] r assms(1)
    by (auto simp: op_f64_from_i32_def reg_run sets_u64_def)
  let ?x = "set_rf x rf"
  have ok: "ctx_ok ?x" by (rule ctx_ok_set_rf [OF assms(1) rf(2)])
  have r': "wide ?x (i_b ins')" "has_reg ?x (i_a ins')" using r assms(6) by (simp_all add: wide_def has_reg_def)
  have i: "- (2 ^ 31) \<le> ?i" "?i < 2 ^ 31" using sint_ge [of "x32 x (i_b ins)"] sint_lt [of "x32 x (i_b ins)"] by simp_all
  then have b: "\<bar>?i\<bar> < 2 ^ 53" by simp
  have "vm_checked_f64_to_i32 ?x (f64_of_int ?i) = Inr (Inr (x32 x (i_b ins)))"
    using f64_of_int_trunc [OF b] f64_of_int_lt [OF b] i
    by (simp add: vm_checked_f64_to_i32_def Let_def c_int_cast_def f_signed_def)
  then have "op_i32_from_f64 ?x ins' = continue_with ?x (vm_store_u32 (x_rf ?x) (unat (i_a ins')) (x32 x (i_b ins)))"
    using load_run(6) [OF ok r'(1)] rf(3) assms(6) by (simp add: op_i32_from_f64_def store_checked_def)
  with store_run(1) [OF ok r'(2), of "x32 x (i_b ins)"] rf(1) show ?thesis by (auto simp: sets_u32_def)
qed

section \<open>Kind switches take the first match\<close>

definition first_match :: "jello_insn list \<Rightarrow> u32 \<Rightarrow> u32 \<Rightarrow> u32" where
  "first_match cases kind d = (case find (\<lambda>ci. ucast (i_a ci) = kind) cases of Some ci \<Rightarrow> i_imm ci | None \<Rightarrow> d)"

lemma find_case_run:
  assumes "length insns < 2 ^ 32"
  shows "unat first + n \<le> length insns \<Longrightarrow>
    find_case insns kind first n d = Inr (first_match (take n (drop (unat first) insns)) kind d)"
proof (induction n arbitrary: first)
  case 0
  then show ?case by (simp add: first_match_def)
next
  case (Suc n)
  then have f: "unat first < length insns" "unat (first + 1) = unat first + 1"
    using assms by (simp_all add: unat_word_ariths)
  have "take (Suc n) (drop (unat first) insns) = insns ! unat first # take n (drop (unat (first + 1)) insns)"
    using f by (simp add: Cons_nth_drop_Suc [symmetric])
  moreover have "find_case insns kind (first + 1) n d = Inr (first_match (take n (drop (unat (first + 1)) insns)) kind d)"
    using Suc f by simp
  ultimately show ?case using f(1) by (simp add: Let_def first_match_def)
qed

lemma first_match_cases:
  "first_match cases kind d = d \<or> (\<exists>ci\<in>set cases. first_match cases kind d = i_imm ci)"
  by (auto simp: first_match_def find_Some_iff split: option.splits)

lemma jump_in_range:
  assumes "\<not> bad_target base d n" "unat base < 2 ^ 31" "unat n < 2 ^ 31"
  shows "int (unat (base + d)) = int (unat base) + sint d \<and> unat (base + d) \<le> unat n"
proof -
  have t: "0 \<le> int (unat base) + sint d" "int (unat base) + sint d \<le> int (unat n)"
    using assms(1) bad_target_iff [OF assms(3,2)] by (auto simp: target_ok_def)
  then have s: "sint (base + d) = int (unat base) + sint d"
    using sint_add_wrap [OF assms(2), of d] assms(3) by (simp add: Let_def del: of_nat_unat)
  have "uint (base + d) = sint (base + d)"
  proof -
    have "uint (base + d) = uint (word_of_int (int (unat base) + sint d) :: u32)" by simp
    also have "\<dots> = int (unat base) + sint d"
      using t assms(3) by (simp only: uint_word_of_int) (simp del: of_nat_unat)
    finally show ?thesis using s by simp
  qed
  then have "int (unat (base + d)) = int (unat base) + sint d" using s by simp
  then show ?thesis using t by linarith
qed

text \<open>In verified code a kind switch never panics: it continues after the table at the displacement of the first
  case whose kind is the one in the register, or of the default when there is none, and that is a
  position of the function.\<close>

theorem switch_kind_takes_first_match:
  assumes "ctx_ok x" "has_reg x (i_a ins)" "i_opc ins = JOP_SWITCH_KIND"
    and "j < length (f_insns (x_f x))" "f_insns (x_f x) ! j = ins" "x_pc x = of_nat (j + 1)"
    and "tables_ok (f_insns (x_f x))" "length (f_insns (x_f x)) = unat (f_ninsns (x_f x))" "length (f_insns (x_f x)) < 2 ^ 31"
  shows "\<exists>npc. op_switch_kind x ins = Inr (OP_CONTINUE, set_pc x npc) \<and> unat npc \<le> length (f_insns (x_f x)) \<and>
    int (unat npc) = int (j + 1 + unat (i_b ins)) +
      sint (first_match (take (unat (i_b ins)) (drop (j + 1) (f_insns (x_f x)))) (x32 x (i_a ins)) (i_imm ins))"
proof -
  let ?code = "f_insns (x_f x)"
  let ?cases = "take (unat (i_b ins)) (drop (j + 1) ?code)"
  let ?d = "first_match ?cases (x32 x (i_a ins)) (i_imm ins)"
  let ?te = "x_pc x + ucast (i_b ins)"
  have tok: "table_ok ?code j" using assms(3-5,7) by (auto simp: tables_ok_from_def is_switch_def)
  then have te: "j + 1 + unat (i_b ins) \<le> length ?code" using assms(5) by (simp add: table_ok_def Let_def table_len_def)
  have pc: "unat (x_pc x) = j + 1" using assms(4,9) by (simp only: assms(6) unat_of_nat) simp
  then have ute: "unat ?te = j + 1 + unat (i_b ins)" using te assms(9) unat_add_u8 [of "x_pc x" "i_b ins"] by simp
  have "target_ok (j + 1 + unat (i_b ins)) ?d (length ?code)"
    using first_match_cases [of ?cases "x32 x (i_a ins)" "i_imm ins"]
  proof
    assume "?d = i_imm ins" then show ?thesis using tok assms(5) by (simp add: table_ok_def Let_def table_len_def)
  next
    assume "\<exists>ci\<in>set ?cases. ?d = i_imm ci"
    then obtain k where "k < unat (i_b ins)" "?d = i_imm (?code ! (j + 1 + k))"
      using te by (auto simp: in_set_conv_nth)
    then show ?thesis using tok assms(5) by (auto simp: table_ok_def Let_def table_len_def entry_ok_def)
  qed
  then have nb: "\<not> bad_target ?te ?d (f_ninsns (x_f x))"
    using bad_target_iff [of "f_ninsns (x_f x)" ?te ?d] ute te assms(8,9) by simp
  have fc: "find_case ?code (x32 x (i_a ins)) (x_pc x) (unat (ucast (i_b ins) :: u32)) (i_imm ins) = Inr ?d"
    using find_case_run [of ?code "x_pc x" "unat (i_b ins)"] te assms(9) pc by simp
  have run: "op_switch_kind x ins = Inr (OP_CONTINUE, set_pc x (?te + ?d))"
    using nb fc ute te assms(8) load_run(1) [OF assms(1,2)]
    by (simp add: op_switch_kind_def Let_def bad_target_def word_less_nat_alt)
  have "int (unat (?te + ?d)) = int (unat ?te) + sint ?d \<and> unat (?te + ?d) \<le> unat (f_ninsns (x_f x))"
    by (rule jump_in_range [OF nb]) (use ute te assms(8,9) in simp_all)
  then show ?thesis using run ute assms(8) by auto
qed

section \<open>A concrete context\<close>

text \<open>A function of three 32-bit integer registers, a 64-bit one, a double and a bool, holding 7, -2, 5, 9, 0.0 and false,
  with a switch on register 0 and a case for kind 7.\<close>

definition demo_function :: jello_bc_function where
  "demo_function =
     \<lparr>f_nregs = 6, f_cap_start = 0, f_reg_types = [0, 0, 0, 1, 2, 3], f_ninsns = 4,
      f_insns =
        [\<lparr>i_op = 105, i_a = 0, i_b = 2, i_c = 0, i_imm = 0\<rparr>,
         \<lparr>i_op = 106, i_a = 3, i_b = 0, i_c = 0, i_imm = 0\<rparr>,
         \<lparr>i_op = 106, i_a = 7, i_b = 0, i_c = 0, i_imm = 1\<rparr>,
         \<lparr>i_op = 1, i_a = 0, i_b = 0, i_c = 0, i_imm = 0\<rparr>],
      f_source_file = 0, f_lines = [], f_nlines = 4\<rparr>"

definition demo_module :: jello_bc_module where
  "demo_module = zero_module
     \<lparr>m_ntypes := 4, m_types := map (\<lambda>k. \<lparr>te_kind = k, te_as = 0\<rparr>) [JELLO_T_I32, JELLO_T_I64, JELLO_T_F64, JELLO_T_BOOL],
      m_nfuncs := 1, m_funcs := [demo_function]\<rparr>"

definition demo_frame :: reg_frame where
  "demo_frame =
     \<lparr>rf_mem = u32_le 7 @ u32_le (- 2) @ u32_le 5 @ u32_le 0 @ u64_le 9 @ u64_le 0 @ u32_le 0,
      rf_off = [0, 4, 8, 16, 24, 32], rf_nregs = 6, rf_total = 36\<rparr>"

definition demo_vm :: jello_vm where
  "demo_vm =
     \<lparr>spill = [], vm_heap = (\<lambda>_. None), gc_objects = [], gc_bytes_live = 0, gc_next_collect = 0, gc_box_free_len = 0,
      gc_box_free = [], gc_roots = [], gc_roots_cap = 0, gc_collections = 0, gc_freed_objects = 0, gc_freelist_hits = 0,
      gc_freelist_misses = 0, call_frames = [], const_fun_cache = [], const_bytes_cache = [],
      enum_nullary_by_type = [], running_module = True, finalized = []\<rparr>"

definition demo_ctx :: exec_ctx where
  "demo_ctx =
     \<lparr>x_vm = demo_vm, x_m = demo_module, x_below = [],
      x_fr = \<lparr>cf_f = demo_function, cf_rf = demo_frame, cf_pc = 1, cf_caller_dst = 0, cf_exc_base = 0, cf_has_caller = False,
        cf_idx = 0, cf_has_pointer_or_dynamic = True\<rparr>,
      x_exc_handlers = [], x_exc_pending = False, x_exc_payload = jello_make_null, x_trap_code = JELLO_TRAP_NONE,
      x_trap_msg = None, x_fuel_limit = 10, x_fuel_remaining = 10, x_call_frames_max = 100, x_max_bytes_len = 0,
      x_max_array_len = 0, x_out = 0, x_out_exports = None, x_entry_module_idx = 0xFFFFFFFF\<rparr>"

definition demo_fpu :: fpu where
  "demo_fpu = \<lparr>nan32 = (\<lambda>_ _. 0x7FC00000), nan64 = (\<lambda>_ _. 0x7FF8000000000000), nan_widen = (\<lambda>_. 0x7FF8000000000000),
     nan_narrow = (\<lambda>_. 0x7FC00000), nan_f16 = (\<lambda>_. 0x7FC00000)\<rparr>"

lemma demo_kinds [simp]:
  "fun_kinds demo_module demo_function = [JELLO_T_I32, JELLO_T_I32, JELLO_T_I32, JELLO_T_I64, JELLO_T_F64, JELLO_T_BOOL]"
  by (simp add: fun_kinds_def demo_module_def demo_function_def zero_module_def)

lemma demo_parts [simp]: "x_m demo_ctx = demo_module" "x_f demo_ctx = demo_function" "x_rf demo_ctx = demo_frame"
  by (simp_all add: demo_ctx_def)

lemma demo_ok: "ctx_ok demo_ctx"
proof -
  let ?ks = "fun_kinds demo_module demo_function"
  have "fl_off (layout_of ?ks) = [0, 4, 8, 16, 24, 32]" "unat (fl_total (layout_of ?ks)) = 36"
    by (simp_all add: layout_of_def align_up_def jello_slot_size_def)
  then have "frame_ok ?ks demo_frame" by (intro layout_frame_ok) (simp_all add: demo_frame_def)
  then show ?thesis by (simp add: ctx_ok_def) (simp add: demo_function_def demo_module_def)
qed

lemma demo_values:
  "x32 demo_ctx 0 = 7" "x32 demo_ctx 1 = - 2" "x32 demo_ctx 2 = 5" "x64 demo_ctx 3 = 9"
  by (simp_all add: reg_u32_def reg_u64_def reg_bytes_def off_of_def demo_frame_def mem_read_def
      jello_slot_size_def u32_of_bytes_def u64_of_bytes_def u32_le_def u64_le_def of_u32_le_def of_u64_le_def)

lemma demo_regs: "has_reg demo_ctx 0" "has_reg demo_ctx 1" "has_reg demo_ctx 2"
  by (simp_all add: has_reg_def demo_function_def)

lemma demo_rk: "rk demo_module (f_reg_types demo_function) r = fun_kinds demo_module demo_function ! unat r" if "unat r < 6"
  using rk_kinds [OF demo_ok, of r] that by (simp add: has_reg_def demo_function_def)

definition demo_insn :: "u8 \<Rightarrow> u8 \<Rightarrow> u8 \<Rightarrow> u8 \<Rightarrow> jello_insn" where
  "demo_insn op a b c = \<lparr>i_op = op, i_a = a, i_b = b, i_c = c, i_imm = 0\<rparr>"

lemma demo_accepted:
  "accepted demo_ctx (demo_insn 28 0 1 2) 0" "accepted demo_ctx (demo_insn 31 0 1 2) 0"
  "accepted demo_ctx (demo_insn 76 4 1 0) 0" "accepted demo_ctx (demo_insn 77 0 4 0) 0"
  unfolding accepted_def demo_parts
  by (simp_all add: validate_defs Let_def demo_insn_def demo_rk not_small_def) (simp_all add: demo_function_def)


lemma integer_arithmetic_wraps_witness:
  "\<exists>rf'. op_add_i32 demo_ctx (demo_insn 28 0 1 2) = Inr (OP_CONTINUE, set_rf demo_ctx rf') \<and>
     sint (reg_u32 (x_kinds demo_ctx) rf' 0) = 3"
  using integer_arithmetic_wraps [OF demo_ok demo_accepted(1), of op_add_i32 "(+)"] demo_values(2,3)
  by (auto simp: demo_insn_def int_bits_def wrap_def)

lemma integer_division_witness:
  "\<exists>rf'. op_div_i32 demo_ctx (demo_insn 31 0 2 1) = Inr (OP_CONTINUE, set_rf demo_ctx rf') \<and>
     sint (reg_u32 (x_kinds demo_ctx) rf' 0) = - 2"
proof -
  have "accepted demo_ctx (demo_insn 31 0 2 1) 0"
    unfolding accepted_def demo_parts
    by (simp add: validate_defs Let_def demo_insn_def demo_rk not_small_def) (simp add: demo_function_def)
  from integer_division [OF demo_ok this, of op_div_i32 "(sdiv)"] demo_values(2,3) show ?thesis
    by (auto simp: demo_insn_def int_bits_def wrap_def signed_divide_int_def)
qed

lemma i32_f64_roundtrip_witness:
  "\<exists>x' rf'. op_f64_from_i32 demo_ctx (demo_insn 76 4 1 0) = Inr (OP_CONTINUE, x') \<and>
     op_i32_from_f64 x' (demo_insn 77 0 4 0) = Inr (OP_CONTINUE, set_rf x' rf') \<and> reg_u32 (x_kinds demo_ctx) rf' 0 = - 2"
  using i32_f64_roundtrip [OF demo_ok demo_accepted(3) _ demo_accepted(4)] demo_values(2)
  by (simp add: demo_insn_def)

lemma demo_tables: "tables_ok (f_insns demo_function)"
proof -
  let ?c = "f_insns demo_function"
  have "{Suc 0..<Suc (Suc (Suc 0))} = {1, 2}" by auto
  then have "is_switch ?c 0" "table_ok ?c 0" "table_len ?c 0 = 2"
    by (simp_all add: demo_function_def is_switch_def is_case_def table_ok_def table_len_def entry_ok_def target_ok_def)
  then have "tables_ok ?c \<longleftrightarrow> tables_ok_from ?c 3" using tables_ok_table [of ?c 0] by (simp add: eval_nat_numeral)
  moreover have "tables_ok_from ?c 3 \<longleftrightarrow> tables_ok_from ?c 4"
    using tables_ok_plain [of 3 ?c] by (simp add: demo_function_def is_switch_def is_case_def)
  moreover have "tables_ok_from ?c 4" by (rule tables_ok_end) (simp add: demo_function_def)
  ultimately show ?thesis by simp
qed

lemma switch_kind_takes_first_match_witness:
  "\<exists>npc. op_switch_kind demo_ctx (f_insns demo_function ! 0) = Inr (OP_CONTINUE, set_pc demo_ctx npc) \<and> unat npc = 4"
proof -
  let ?ins = "f_insns demo_function ! 0"
  have "\<exists>npc. op_switch_kind demo_ctx ?ins = Inr (OP_CONTINUE, set_pc demo_ctx npc) \<and> unat npc \<le> length (f_insns (x_f demo_ctx)) \<and>
    int (unat npc) = int (0 + 1 + unat (i_b ?ins)) +
      sint (first_match (take (unat (i_b ?ins)) (drop (0 + 1) (f_insns (x_f demo_ctx)))) (x32 demo_ctx (i_a ?ins)) (i_imm ?ins))"
    by (rule switch_kind_takes_first_match [OF demo_ok]) (use demo_tables demo_regs in \<open>simp_all add: demo_function_def demo_ctx_def\<close>)
  then show ?thesis using demo_values(1) by (auto simp: demo_function_def first_match_def simp del: of_nat_unat)
qed

end
