(* ===== verification/Jello_Machine.thy ===== *)
theory Jello_Machine
  imports Jello_Copy Jello_Arith
begin

text \<open>
  Where execution meets the collector. A handler that allocates may collect, and the collector scans the registers of
  all frames: \<open>gc_view\<close> is the machine as the collector sees it, with \<^verbatim>\<open>call_frames\<close> filled in from the frames of the
  execution context, and \<open>x_new\<close> runs a constructor on it.

  \<open>mach S x\<close> says that the machine is well formed and that the set \<open>S\<close> of blocks contains everything the roots refer to
  and is closed under references. Handlers preserve it step by step: what they hold in C variables has to be in \<open>S\<close>,
  and an allocation cuts \<open>S\<close> down to what is reachable from the roots and the new object.
\<close>

section \<open>The collector's view of a context\<close>

text \<open>\<open>scan_typed_frames\<close> reads eight bytes at the offset of each register that holds a reference.\<close>

definition reg_word :: "jello_type_kind \<Rightarrow> reg_frame \<Rightarrow> nat \<Rightarrow> jello_type_kind \<times> u64" where
  "reg_word k rf r =
     (k, if jello_slot_size k = 8 then u64_of_bytes (mem_read (rf_mem rf) (off_of rf r) 8) else 0)"

definition frame_words :: "jello_bc_module \<Rightarrow> call_frame \<Rightarrow> (jello_type_kind \<times> u64) list" where
  "frame_words m fr =
     map (\<lambda>r. reg_word (te_kind (m_types m ! unat (f_reg_types (cf_f fr) ! r))) (cf_rf fr) r)
       [0..<length (rf_off (cf_rf fr))]"

definition gc_view :: "exec_ctx \<Rightarrow> jello_vm" where
  "gc_view x = (x_vm x)\<lparr>call_frames := map (frame_words (x_m x)) (x_below x @ [x_fr x])\<rparr>"

definition gc_due :: "jello_vm \<Rightarrow> bool" where
  "gc_due vm \<longleftrightarrow> gc_next_collect vm \<noteq> 0 \<and> gc_bytes_live vm \<ge> gc_next_collect vm"

text \<open>A constructor called from a handler. When it does not return, a collection met a dangling reference or memory
  ran out, which aborts.\<close>

definition x_new :: "exec_ctx \<Rightarrow> (jello_vm \<Rightarrow> (jello_vm \<times> addr) option) \<Rightarrow> (exec_ctx \<times> addr) run" where
  "x_new x new =
     (case new (gc_view x) of
        Some (vm, a) \<Rightarrow> Inr (x\<lparr>x_vm := vm\<rparr>, a)
      | None \<Rightarrow> Inl (if gc_due (gc_view x) \<and> jello_gc_collect (gc_view x) = None then FAULT else PANIC))"

definition obj_of :: "exec_ctx \<Rightarrow> addr \<Rightarrow> heap_obj run" where
  "obj_of x a = (case vm_heap (x_vm x) a of None \<Rightarrow> Inl FAULT | Some b \<Rightarrow> Inr (b_obj b))"

text \<open>The object behind a value, \<open>None\<close> for a value that is no pointer: the common part of the tests \<^verbatim>\<open>jello_is_box_f64(v)\<close> and so on.\<close>

definition box_of :: "exec_ctx \<Rightarrow> jello_value \<Rightarrow> heap_obj option run" where
  "box_of x v = (if jello_is_ptr v then rbind (obj_of x (jello_as_ptr v)) (\<lambda>ob. Inr (Some ob)) else Inr None)"

definition x_put :: "exec_ctx \<Rightarrow> addr \<Rightarrow> heap_obj \<Rightarrow> exec_ctx" where
  "x_put x a ob = x\<lparr>x_vm := put_obj (x_vm x) a ob\<rparr>"

definition x_store :: "exec_ctx \<Rightarrow> reg_frame run \<Rightarrow> exec_ctx run" where
  "x_store x st = rbind st (\<lambda>rf. Inr (set_rf x rf))"

text \<open>\<^verbatim>\<open>(void)jello_vm_trap(...); return OP_CONTINUE;\<close>\<close>

definition trap_continue :: "exec_ctx \<Rightarrow> jello_trap_code \<Rightarrow> string \<Rightarrow> (op_result \<times> exec_ctx) run" where
  "trap_continue x code msg = Inr (OP_CONTINUE, jello_vm_trap x code (Some msg))"

definition and_continue :: "exec_ctx run \<Rightarrow> (op_result \<times> exec_ctx) run" where
  "and_continue r = rbind r (\<lambda>x. Inr (OP_CONTINUE, x))"

section \<open>Sets of reachable blocks\<close>

text \<open>The values and the addresses among the fields of an object.\<close>

fun obj_vals :: "heap_obj \<Rightarrow> jello_value list" where
  "obj_vals (OList _ head _) = [head]"
| "obj_vals (OArray _ vs) = vs"
| "obj_vals (OObject ob) = [o_vals ob ! i. i \<leftarrow> [0..<unat (o_cap ob)], o_states ob ! i = SLOT_OCCUPIED]"
| "obj_vals (OFunction _ _ this caps) = this # caps"
| "obj_vals (ORawClosure _ _ _ this _) = [this]"
| "obj_vals (OEnum _ _ vs) = vs"
| "obj_vals _ = []"

fun obj_addrs :: "heap_obj \<Rightarrow> addr list" where
  "obj_addrs (OList _ _ tail) = [tail]"
| "obj_addrs (OObject ob) = [o_proto ob]"
| "obj_addrs _ = []"

lemma obj_ptrs_split: "set (obj_ptrs ob) = set (val_ptrs (obj_vals ob)) \<union> set (obj_addrs ob)"
  by (cases ob) auto

definition val_ok :: "addr set \<Rightarrow> jello_value \<Rightarrow> bool" where
  "val_ok S v \<longleftrightarrow> (jello_is_ptr v \<longrightarrow> jello_as_ptr v \<in> S)"

definition ptr_ok :: "addr set \<Rightarrow> addr \<Rightarrow> bool" where
  "ptr_ok S p \<longleftrightarrow> p = 0 \<or> p \<in> S"

definition obj_ok :: "addr set \<Rightarrow> heap_obj \<Rightarrow> bool" where
  "obj_ok S ob \<longleftrightarrow> (\<forall>v\<in>set (obj_vals ob). val_ok S v) \<and> (\<forall>p\<in>set (obj_addrs ob). ptr_ok S p)"

definition reg_ok :: "addr set \<Rightarrow> jello_type_kind \<times> u64 \<Rightarrow> bool" where
  "reg_ok S r \<longleftrightarrow> (if fst r = JELLO_T_DYNAMIC then val_ok S (snd r)
     else if is_pointer_kind (fst r) then ptr_ok S (snd r) else True)"

definition roots_ok :: "addr set \<Rightarrow> jello_vm \<Rightarrow> bool" where
  "roots_ok S vm \<longleftrightarrow> (\<forall>v\<in>set (spill vm) \<union> set (gc_roots vm). val_ok S v) \<and>
     (\<forall>p\<in>set (const_fun_cache vm) \<union> set (const_bytes_cache vm). ptr_ok S p) \<and>
     (\<forall>slots. Some slots \<in> set (enum_nullary_by_type vm) \<longrightarrow> (\<forall>p\<in>set slots. ptr_ok S p)) \<and>
     (\<forall>f\<in>set (call_frames vm). \<forall>r\<in>set f. reg_ok S r)"

definition heap_ok :: "addr set \<Rightarrow> heap \<Rightarrow> bool" where
  "heap_ok S h \<longleftrightarrow> (\<forall>p\<in>S. \<exists>b. h p = Some b \<and> obj_ok S (b_obj b))"

lemma val_ok_mono: "val_ok S v \<Longrightarrow> S \<subseteq> T \<Longrightarrow> val_ok T v" by (auto simp: val_ok_def)
lemma ptr_ok_mono: "ptr_ok S p \<Longrightarrow> S \<subseteq> T \<Longrightarrow> ptr_ok T p" by (auto simp: ptr_ok_def)
lemma obj_ok_mono: "obj_ok S ob \<Longrightarrow> S \<subseteq> T \<Longrightarrow> obj_ok T ob"
  by (auto simp: obj_ok_def intro: val_ok_mono ptr_ok_mono)
lemma reg_ok_mono: "reg_ok S r \<Longrightarrow> S \<subseteq> T \<Longrightarrow> reg_ok T r"
  by (auto simp: reg_ok_def intro: val_ok_mono ptr_ok_mono)
lemma roots_ok_mono: "roots_ok S vm \<Longrightarrow> S \<subseteq> T \<Longrightarrow> roots_ok T vm"
  unfolding roots_ok_def by (blast intro: val_ok_mono ptr_ok_mono reg_ok_mono)

lemma val_ok_simps [simp]:
  "val_ok S jello_make_null" "val_ok S (jello_make_i32 i)" "val_ok S (jello_make_bool b)" "val_ok S (jello_make_atom n)"
  by (simp_all add: val_ok_def is_make)

lemma ptr_ok_0 [simp]: "ptr_ok S 0" by (simp add: ptr_ok_def)

lemma val_ptrs_ok: "set (val_ptrs vs) \<subseteq> S \<longleftrightarrow> (\<forall>v\<in>set vs. val_ok S v)"
  by (auto simp: val_ptrs_def val_ok_def)

lemma obj_ok_ptrs: "obj_ok S ob \<Longrightarrow> set (obj_ptrs ob) \<subseteq> insert 0 S"
  using val_ptrs_ok [of "obj_vals ob" S] by (auto simp: obj_ptrs_split obj_ok_def ptr_ok_def)

lemma reg_ok_ptrs: "reg_ok S r \<Longrightarrow> set (reg_ptrs r) \<subseteq> insert 0 S"
  using val_ptrs_ok [of "[snd r]" S] by (auto simp: reg_ok_def reg_ptrs_def ptr_ok_def)

lemma roots_ok_ptrs:
  assumes "roots_ok S vm"
  shows "set (root_ptrs vm) \<subseteq> insert 0 S"
proof -
  have "set (val_ptrs (spill vm)) \<subseteq> S" "set (val_ptrs (gc_roots vm)) \<subseteq> S"
    using assms by (auto simp: roots_ok_def val_ptrs_ok)
  moreover have "set (reg_ptrs r) \<subseteq> insert 0 S" if "f \<in> set (call_frames vm)" "r \<in> set f" for f r
    using assms that reg_ok_ptrs unfolding roots_ok_def by blast
  moreover have "p \<in> insert 0 S" if "Some slots \<in> set (enum_nullary_by_type vm)" "p \<in> set slots" for p slots
    using assms that unfolding roots_ok_def ptr_ok_def by blast
  moreover have "set (const_fun_cache vm) \<union> set (const_bytes_cache vm) \<subseteq> insert 0 S"
    using assms by (auto simp: roots_ok_def ptr_ok_def)
  ultimately show ?thesis unfolding root_ptrs_def by (fastforce split: option.splits if_splits)
qed

lemma heap_ok_closed:
  assumes "heap_ok S h" "set roots \<subseteq> insert 0 S"
  shows "reachable h roots \<subseteq> S"
proof
  fix p assume "p \<in> reachable h roots"
  then show "p \<in> S"
  proof induction
    case (field p b q)
    then have "obj_ok S (b_obj b)" using assms(1) by (fastforce simp: heap_ok_def)
    then show ?case using obj_ok_ptrs field by blast
  qed (use assms(2) in auto)
qed
section \<open>Well-formed machines\<close>

definition frame_ctx_ok :: "jello_bc_module \<Rightarrow> call_frame \<Rightarrow> bool" where
  "frame_ctx_ok m fr \<longleftrightarrow> frame_ok (fun_kinds m (cf_f fr)) (cf_rf fr) \<and>
     length (f_reg_types (cf_f fr)) = unat (f_nregs (cf_f fr)) \<and>
     (\<forall>t\<in>set (f_reg_types (cf_f fr)). unat t < length (m_types m))"

definition mach :: "addr set \<Rightarrow> exec_ctx \<Rightarrow> bool" where
  "mach S x \<longleftrightarrow> gc_wf (gc_view x) \<and> heap_aligned (x_vm x) \<and> running_module (x_vm x) \<and>
     S \<subseteq> set (gc_objects (x_vm x)) \<and> roots_ok S (gc_view x) \<and> heap_ok S (vm_heap (x_vm x)) \<and>
     (\<forall>fr\<in>set (x_below x @ [x_fr x]). frame_ctx_ok (x_m x) fr)"

definition mach_ok :: "exec_ctx \<Rightarrow> bool" where
  "mach_ok x \<longleftrightarrow> mach (live (gc_view x)) x"

lemma gc_view_simps [simp]:
  "vm_heap (gc_view x) = vm_heap (x_vm x)" "gc_objects (gc_view x) = gc_objects (x_vm x)"
  "gc_box_free (gc_view x) = gc_box_free (x_vm x)" "gc_bytes_live (gc_view x) = gc_bytes_live (x_vm x)"
  "freelist_ok (gc_view x) = freelist_ok (x_vm x)" "running_module (gc_view x) = running_module (x_vm x)"
  "spill (gc_view x) = spill (x_vm x)" "gc_roots (gc_view x) = gc_roots (x_vm x)"
  "const_fun_cache (gc_view x) = const_fun_cache (x_vm x)" "const_bytes_cache (gc_view x) = const_bytes_cache (x_vm x)"
  "enum_nullary_by_type (gc_view x) = enum_nullary_by_type (x_vm x)" "heap_aligned (gc_view x) = heap_aligned (x_vm x)"
  "call_frames (gc_view x) = map (frame_words (x_m x)) (x_below x @ [x_fr x])"
  by (simp_all add: gc_view_def freelist_ok_def heap_aligned_def)

lemma mach_ctx_ok: "mach S x \<Longrightarrow> ctx_ok x"
  by (simp add: mach_def frame_ctx_ok_def ctx_ok_def)

lemma gc_wf_change:
  assumes "gc_wf vm" "gc_objects vm' = gc_objects vm" "gc_box_free vm' = gc_box_free vm"
    "freelist_ok vm' = freelist_ok vm" "dom (vm_heap vm') = dom (vm_heap vm)" "marked (vm_heap vm') = marked (vm_heap vm)"
    "size_at (vm_heap vm') = size_at (vm_heap vm)" "gc_bytes_live vm' = gc_bytes_live vm"
    and "roots_ok S vm'" "heap_ok S (vm_heap vm')" "S \<subseteq> set (gc_objects vm)"
  shows "gc_wf vm'"
proof -
  have "live vm' \<subseteq> S" unfolding live_def by (rule heap_ok_closed [OF assms(10) roots_ok_ptrs [OF assms(9)]])
  then show ?thesis using assms unfolding gc_wf_def by auto
qed

lemma live_least: "mach S x \<Longrightarrow> live (gc_view x) \<subseteq> S"
  unfolding live_def mach_def using heap_ok_closed roots_ok_ptrs by (metis gc_view_simps(1))

lemma mach_nonzero: "mach S x \<Longrightarrow> 0 \<notin> S"
  unfolding mach_def gc_wf_def by auto

lemma mach_live:
  assumes "mach S x"
  shows "mach_ok x"
proof -
  let ?L = "live (gc_view x)"
  note m = assms [unfolded mach_def] and L = live_least [OF assms] and z = mach_nonzero [OF assms]
  have root: "p \<in> ?L" if "p \<in> set (root_ptrs (gc_view x))" "p \<in> S" for p
    unfolding live_def using that z by (intro reachable.root) auto
  have v: "val_ok ?L v" if "v \<in> set (spill (x_vm x)) \<union> set (gc_roots (x_vm x))" for v
    using that m root unfolding val_ok_def by (auto simp: roots_ok_def root_ptrs_def val_ok_def val_ptrs_def)
  have c: "ptr_ok ?L p" if "p \<in> set (const_fun_cache (x_vm x)) \<union> set (const_bytes_cache (x_vm x))" for p
    using that m root unfolding ptr_ok_def by (auto simp: roots_ok_def root_ptrs_def ptr_ok_def)
  have e: "ptr_ok ?L p" if "Some slots \<in> set (enum_nullary_by_type (x_vm x))" "p \<in> set slots" for p slots
  proof -
    have "ptr_ok S p" using that m by (auto simp: roots_ok_def)
    moreover have "p \<in> set (root_ptrs (gc_view x))" using that by (auto simp: root_ptrs_def intro!: bexI [of _ "Some slots"])
    ultimately show ?thesis using root by (auto simp: ptr_ok_def)
  qed
  have r: "reg_ok ?L r" if "f \<in> set (call_frames (gc_view x))" "r \<in> set f" for f r
  proof -
    have "reg_ok S r" using that m unfolding roots_ok_def by blast
    moreover have "set (reg_ptrs r) \<subseteq> set (root_ptrs (gc_view x))" using that m by (auto simp: root_ptrs_def)
    ultimately show ?thesis using root
      by (auto simp: reg_ok_def val_ok_def ptr_ok_def reg_ptrs_def split: if_splits)
  qed
  have "roots_ok ?L (gc_view x)" unfolding roots_ok_def using v c e r by auto
  moreover have "heap_ok ?L (vm_heap (x_vm x))" unfolding heap_ok_def
  proof
    fix p assume p: "p \<in> ?L"
    then obtain b where b: "vm_heap (x_vm x) p = Some b" "obj_ok S (b_obj b)" using m L unfolding heap_ok_def by blast
    have "q \<in> ?L" if "q \<in> set (obj_ptrs (b_obj b))" "q \<in> S" for q
      using p b(1) that z unfolding live_def by (auto intro: reachable.field)
    then have "obj_ok ?L (b_obj b)" using b(2)
      by (auto simp: obj_ok_def obj_ptrs_split val_ok_def ptr_ok_def val_ptrs_def)
    then show "\<exists>b. vm_heap (x_vm x) p = Some b \<and> obj_ok ?L (b_obj b)" using b(1) by blast
  qed
  ultimately show ?thesis using m L unfolding mach_ok_def mach_def by auto
qed

section \<open>Steps of handlers\<close>

text \<open>Nothing but the machine's state of execution changes.\<close>

lemma mach_trap [simp]: "mach S (jello_vm_trap x code msg) = mach S x" "mach S (set_pc x pc) = mach S x"
  by (simp_all add: mach_def gc_view_def jello_vm_trap_def set_pc_def frame_words_def frame_ctx_ok_def)

lemma mach_frames:
  "mach S x \<Longrightarrow> fr \<in> set (x_below x @ [x_fr x]) \<Longrightarrow> frame_ctx_ok (x_m x) fr"
  unfolding mach_def by blast

lemma frame_words_length: "frame_ctx_ok m fr \<Longrightarrow> length (frame_words m fr) = length (f_reg_types (cf_f fr))"
  by (simp add: frame_ctx_ok_def frame_ok_def frame_words_def)

lemma frame_words_nth:
  assumes "frame_ctx_ok m fr" "r < length (f_reg_types (cf_f fr))"
  shows "frame_words m fr ! r = (fun_kinds m (cf_f fr) ! r,
      if jello_slot_size (fun_kinds m (cf_f fr) ! r) = 8 then reg_u64 (fun_kinds m (cf_f fr)) (cf_rf fr) r else 0)"
  using assms by (simp add: frame_ctx_ok_def frame_ok_def frame_words_def reg_word_def fun_kinds_def reg_u64_def reg_bytes_def)

text \<open>Registers of any frame.\<close>

lemma frame_reg_run:
  assumes "frame_ctx_ok m fr" "r < length (f_reg_types (cf_f fr))"
  shows "vm_reg_kind m (cf_f fr) r = Inr (fun_kinds m (cf_f fr) ! r)"
    and "vm_load_u32 (cf_rf fr) r = Inr (reg_u32 (fun_kinds m (cf_f fr)) (cf_rf fr) r)"
    and "jello_slot_size (fun_kinds m (cf_f fr) ! r) = 8 \<Longrightarrow>
      vm_load_i64 (cf_rf fr) r = Inr (reg_u64 (fun_kinds m (cf_f fr)) (cf_rf fr) r)"
proof -
  have f: "frame_ok (fun_kinds m (cf_f fr)) (cf_rf fr)" "r < length (fun_kinds m (cf_f fr))"
    using assms by (simp_all add: frame_ctx_ok_def)
  show "vm_reg_kind m (cf_f fr) r = Inr (fun_kinds m (cf_f fr) ! r)"
    using assms by (auto simp: vm_reg_kind_def fun_kinds_def frame_ctx_ok_def)
  show "vm_load_u32 (cf_rf fr) r = Inr (reg_u32 (fun_kinds m (cf_f fr)) (cf_rf fr) r)"
    by (rule load_u32_ok [OF f])
  show "vm_load_i64 (cf_rf fr) r = Inr (reg_u64 (fun_kinds m (cf_f fr)) (cf_rf fr) r)"
    if "jello_slot_size (fun_kinds m (cf_f fr) ! r) = 8"
    by (rule load_i64_ok [OF f that])
qed

lemma frame_reg_ok:
  assumes "mach S x" "fr \<in> set (x_below x @ [x_fr x])" "r < length (f_reg_types (cf_f fr))"
  shows "reg_ok S (fun_kinds (x_m x) (cf_f fr) ! r,
    if jello_slot_size (fun_kinds (x_m x) (cf_f fr) ! r) = 8 then reg_u64 (fun_kinds (x_m x) (cf_f fr)) (cf_rf fr) r else 0)"
proof -
  have f: "frame_ctx_ok (x_m x) fr" by (rule mach_frames [OF assms(1,2)])
  have "frame_words (x_m x) fr \<in> set (call_frames (gc_view x))" using assms(2) by auto
  moreover have "frame_words (x_m x) fr ! r \<in> set (frame_words (x_m x) fr)"
    using frame_words_length [OF f] assms(3) by simp
  ultimately have "reg_ok S (frame_words (x_m x) fr ! r)" using assms(1) unfolding mach_def roots_ok_def by blast
  then show ?thesis unfolding frame_words_nth [OF f assms(3)] .
qed

text \<open>Registers of the top frame, by number.\<close>

definition reg_in :: "exec_ctx \<Rightarrow> nat \<Rightarrow> bool" where
  "reg_in x n \<longleftrightarrow> n < unat (f_nregs (x_f x))"

definition wide_in :: "exec_ctx \<Rightarrow> nat \<Rightarrow> bool" where
  "wide_in x n \<longleftrightarrow> reg_in x n \<and> jello_slot_size (x_kinds x ! n) = 8"

abbreviation rg32 :: "exec_ctx \<Rightarrow> nat \<Rightarrow> u32" where "rg32 x n \<equiv> reg_u32 (x_kinds x) (x_rf x) n"
abbreviation rg64 :: "exec_ctx \<Rightarrow> nat \<Rightarrow> u64" where "rg64 x n \<equiv> reg_u64 (x_kinds x) (x_rf x) n"

lemma has_reg_in: "has_reg x r = reg_in x (unat r)" and wide_wide_in: "wide x r = wide_in x (unat r)"
  by (simp_all add: has_reg_def reg_in_def wide_def wide_in_def)

lemma reg_in_types: "mach S x \<Longrightarrow> reg_in x n \<Longrightarrow> n < length (f_reg_types (x_f x))"
  using mach_frames [of S x "x_fr x"] by (simp add: reg_in_def frame_ctx_ok_def)

lemma top_reg_run:
  assumes "mach S x" "reg_in x n"
  shows "vm_reg_kind (x_m x) (x_f x) n = Inr (x_kinds x ! n)" "vm_load_u32 (x_rf x) n = Inr (rg32 x n)"
    "jello_slot_size (x_kinds x ! n) = 8 \<Longrightarrow> vm_load_i64 (x_rf x) n = Inr (rg64 x n)"
  using frame_reg_run [OF mach_frames [OF assms(1)] reg_in_types [OF assms]] by simp_all

lemma top_reg_ok:
  assumes "mach S x" "reg_in x n"
  shows "reg_ok S (x_kinds x ! n, if jello_slot_size (x_kinds x ! n) = 8 then rg64 x n else 0)"
  using frame_reg_ok [OF assms(1) _ reg_in_types [OF assms]] by simp

lemma pointer_kind_slot: "is_pointer_kind k \<Longrightarrow> jello_slot_size k = 8"
  by (cases k) (simp_all add: is_pointer_kind_def jello_slot_size_def)

lemma dyn_reg_ok: "mach S x \<Longrightarrow> reg_in x n \<Longrightarrow> x_kinds x ! n = JELLO_T_DYNAMIC \<Longrightarrow> val_ok S (rg64 x n)"
  using top_reg_ok [of S x n] by (simp add: reg_ok_def jello_slot_size_def)

lemma ptr_reg_ok: "mach S x \<Longrightarrow> reg_in x n \<Longrightarrow> is_pointer_kind (x_kinds x ! n) \<Longrightarrow> ptr_ok S (rg64 x n)"
  using top_reg_ok [of S x n] by (auto simp: reg_ok_def pointer_kind_slot is_pointer_kind_def)

text \<open>A store to a register of the top frame.\<close>

lemma mach_set_rf:
  assumes m: "mach S x" and r: "reg_in x a" and o: "only_changes (x_kinds x) (a) (x_rf x) rf'"
    and v: "reg_ok S (x_kinds x ! a, if jello_slot_size (x_kinds x ! a) = 8 then reg_u64 (x_kinds x) rf' (a) else 0)"
  shows "mach S (set_rf x rf')"
proof -
  let ?x = "set_rf x rf'" and ?ks = "x_kinds x"
  have f: "frame_ctx_ok (x_m x) (x_fr x)" using mach_frames [OF m] by simp
  then have f': "frame_ctx_ok (x_m x) (x_fr ?x)" using o by (simp add: frame_ctx_ok_def only_changes_def set_rf_def)
  have w: "\<forall>w\<in>set (frame_words (x_m x) (x_fr ?x)). reg_ok S w"
  proof
    fix w assume "w \<in> set (frame_words (x_m x) (x_fr ?x))"
    then obtain i where i: "i < length (f_reg_types (x_f x))" "w = frame_words (x_m x) (x_fr ?x) ! i"
      using frame_words_length [OF f'] by (auto simp: in_set_conv_nth set_rf_def)
    then have w: "w = (?ks ! i, if jello_slot_size (?ks ! i) = 8 then reg_u64 ?ks rf' i else 0)"
      using frame_words_nth [OF f', of i] by (simp add: set_rf_def)
    show "reg_ok S w"
    proof (cases "i = a")
      case True
      show ?thesis unfolding w True by (rule v)
    next
      case False
      then have "reg_u64 ?ks rf' i = reg_u64 ?ks (x_rf x) i" using o i by (simp add: only_changes_def reg_u64_def)
      then have "w = frame_words (x_m x) (x_fr x) ! i" using frame_words_nth [OF f i(1)] w by simp
      then have "w \<in> set (frame_words (x_m x) (x_fr x))" using frame_words_length [OF f] i(1) by simp
      then show ?thesis using m by (simp add: mach_def roots_ok_def)
    qed
  qed
  have rt: "roots_ok S (gc_view ?x)" using m w unfolding mach_def roots_ok_def by (simp add: set_rf_def)
  have "gc_wf (gc_view ?x)"
    by (rule gc_wf_change [where S = S and vm = "gc_view x"])
      (use m rt in \<open>simp_all add: mach_def set_rf_def\<close>)
  then show ?thesis using m rt f' by (simp add: mach_def set_rf_def)
qed
text \<open>A change of an object, and of a root outside the frames.\<close>

lemma mach_x_put:
  assumes "mach S x" "p \<in> S" "obj_ok S ob"
  shows "mach S (x_put x p ob)"
proof -
  have h: "heap_ok S (vm_heap (put_obj (x_vm x) p ob))"
    unfolding heap_ok_def
  proof
    fix q assume q: "q \<in> S"
    obtain b where b: "vm_heap (x_vm x) q = Some b" "obj_ok S (b_obj b)"
      using q assms(1) unfolding mach_def heap_ok_def by blast
    show "\<exists>b. vm_heap (put_obj (x_vm x) p ob) q = Some b \<and> obj_ok S (b_obj b)"
      using b assms(3) by (cases "q = p") auto
  qed
  have r: "roots_ok S (gc_view (x_put x p ob))"
    using assms(1) by (simp add: mach_def roots_ok_def x_put_def put_obj_def)
  have "gc_wf (gc_view (x_put x p ob))"
    by (rule gc_wf_change [where S = S and vm = "gc_view x"])
      (use assms(1) r h in \<open>simp_all add: mach_def x_put_def\<close>)
  moreover have "heap_aligned (put_obj (x_vm x) p ob)" using assms(1) by (simp add: mach_def heap_aligned_def)
  moreover have "running_module (put_obj (x_vm x) p ob)" using assms(1) by (simp add: mach_def put_obj_def)
  ultimately show ?thesis using assms(1) h r by (simp add: mach_def x_put_def)
qed

text \<open>\<open>set_roots\<close> stands for any change of the roots that are not registers.\<close>

lemma mach_set_roots:
  assumes "mach S x" "roots_ok S (gc_view (x\<lparr>x_vm := vm\<rparr>))" "vm_heap vm = vm_heap (x_vm x)" "gc_objects vm = gc_objects (x_vm x)"
    "gc_box_free vm = gc_box_free (x_vm x)" "freelist_ok vm = freelist_ok (x_vm x)"
    "gc_bytes_live vm = gc_bytes_live (x_vm x)" "running_module vm = running_module (x_vm x)"
  shows "mach S (x\<lparr>x_vm := vm\<rparr>)"
proof -
  have "gc_wf (gc_view (x\<lparr>x_vm := vm\<rparr>))"
    by (rule gc_wf_change [where S = S and vm = "gc_view x"]) (use assms in \<open>simp_all add: mach_def\<close>)
  then show ?thesis using assms by (simp add: mach_def heap_aligned_def)
qed

lemma freelist_ok_roots [simp]:
  "freelist_ok (vm\<lparr>spill := vs\<rparr>) = freelist_ok vm" "freelist_ok (vm\<lparr>gc_roots := vs\<rparr>) = freelist_ok vm"
  "freelist_ok (vm\<lparr>gc_roots_cap := n\<rparr>) = freelist_ok vm"
  "freelist_ok (vm\<lparr>const_fun_cache := ps\<rparr>) = freelist_ok vm" "freelist_ok (vm\<lparr>const_bytes_cache := ps\<rparr>) = freelist_ok vm"
  "freelist_ok (vm\<lparr>enum_nullary_by_type := ts\<rparr>) = freelist_ok vm"
  by (simp_all add: freelist_ok_def)

text \<open>Allocation keeps everything but the heap and the collector's own counters.\<close>

definition same_fields :: "jello_vm \<Rightarrow> jello_vm \<Rightarrow> bool" where
  "same_fields vm vm' \<longleftrightarrow> spill vm' = spill vm \<and> gc_roots vm' = gc_roots vm \<and> const_fun_cache vm' = const_fun_cache vm \<and>
     const_bytes_cache vm' = const_bytes_cache vm \<and> enum_nullary_by_type vm' = enum_nullary_by_type vm \<and>
     call_frames vm' = call_frames vm \<and> running_module vm' = running_module vm"

lemma same_fields_refl [simp]: "same_fields vm vm" by (simp add: same_fields_def)
lemma same_fields_trans: "same_fields a b \<Longrightarrow> same_fields b c \<Longrightarrow> same_fields a c" by (simp add: same_fields_def)

lemma destroy_same_fields: "same_fields vm (fst (destroy_object vm ob))"
  by (cases ob) (simp_all add: same_fields_def)

lemma release_same_fields: "same_fields vm (release_block vm a b)"
  using destroy_same_fields [of vm "b_obj b"]
  by (auto simp: release_block_def gc_box_free_push_def gc_free_def same_fields_def split: heap_obj.splits)

lemma sweep_same_fields: "sweep_loop vm as n = Some (vm', keep, k) \<Longrightarrow> same_fields vm vm'"
proof (induction vm as n arbitrary: vm' keep k rule: sweep_loop.induct)
  case (2 vm a as n)
  obtain b where b: "vm_heap vm a = Some b" using 2(3) by (auto split: option.splits)
  show ?case
  proof (cases "b_marked b")
    case True
    then obtain ks where "sweep_loop (vm\<lparr>vm_heap := (vm_heap vm)(a \<mapsto> b\<lparr>b_marked := False\<rparr>)\<rparr>) as (n + b_total b) = Some (vm', ks, k)"
      using 2(3) b by auto
    from 2(2) [OF b _ this] True show ?thesis by (simp add: same_fields_def)
  next
    case False
    then have "sweep_loop (release_block (vm\<lparr>gc_freed_objects := gc_freed_objects vm + 1\<rparr>) a b) as n = Some (vm', keep, k)"
      using 2(3) b by simp
    from 2(1) [OF b False this] release_same_fields [of "vm\<lparr>gc_freed_objects := gc_freed_objects vm + 1\<rparr>" a b]
    show ?thesis by (simp add: same_fields_def)
  qed
qed simp

lemma collect_same_fields: "jello_gc_collect vm = Some vm' \<Longrightarrow> same_fields vm vm'"
  by (auto simp: jello_gc_collect_def Let_def bind_eq_Some_conv same_fields_def dest!: sweep_same_fields)

lemma new_obj_same_fields:
  assumes "new_obj malloc vm n ob = Some (vm', a)"
  shows "same_fields vm vm'"
proof -
  obtain w r where al: "jello_gc_alloc_recycled malloc vm n = Some (w, a, r)" and vm': "vm' = put_obj w a ob"
    using assms by (auto simp: new_obj_def jello_gc_alloc_def)
  obtain vm1 where 1: "(if gc_next_collect vm \<noteq> 0 \<and> gc_bytes_live vm \<ge> gc_next_collect vm then jello_gc_collect vm
      else Some vm) = Some vm1"
    using al by (fastforce simp: jello_gc_alloc_recycled_def Let_def bind_eq_Some_conv)
  then have "same_fields vm vm1" using collect_same_fields by (auto split: if_splits)
  moreover have "same_fields vm1 w" using al 1
    by (auto simp: jello_gc_alloc_recycled_def gc_box_free_pop_def link_block_def Let_def same_fields_def split: option.splits)
  ultimately show ?thesis by (simp add: vm' put_obj_def same_fields_def)
qed
text \<open>What a handler knows after an allocation: the new object and everything that was live, unchanged.\<close>

definition new_object :: "exec_ctx \<Rightarrow> heap_obj \<Rightarrow> exec_ctx \<Rightarrow> addr \<Rightarrow> bool" where
  "new_object x ob x' a \<longleftrightarrow> (\<exists>vm. x' = x\<lparr>x_vm := vm\<rparr> \<and> same_fields (gc_view x) vm \<and> gc_view x' = vm) \<and>
     mach (insert a (live (gc_view x))) x' \<and> live (gc_view x') = live (gc_view x) \<and> a \<notin> live (gc_view x) \<and> a \<noteq> 0 \<and>
     jello_is_ptr a \<and> map_option b_obj (vm_heap (x_vm x') a) = Some ob \<and>
     (\<forall>p\<in>live (gc_view x). vm_heap (x_vm x') p = vm_heap (x_vm x) p)"

definition allocator_ok :: "alloc_fun \<Rightarrow> bool" where
  "allocator_ok malloc \<longleftrightarrow> malloc_ok malloc \<and> malloc_aligned malloc"

lemma same_fields_view:
  assumes "same_fields (gc_view x) vm"
  shows "gc_view (x\<lparr>x_vm := vm\<rparr>) = vm"
  using assms unfolding same_fields_def gc_view_def by (cases vm) auto

lemma alloc_dom:
  assumes "gc_wf vm" "jello_gc_alloc malloc vm n = Some (vm', a)"
  shows "dom (vm_heap vm') \<subseteq> insert a (dom (vm_heap vm))"
proof -
  obtain vm1 where 1: "(if gc_next_collect vm \<noteq> 0 \<and> gc_bytes_live vm \<ge> gc_next_collect vm then jello_gc_collect vm
      else Some vm) = Some vm1"
    using assms(2) by (fastforce simp: jello_gc_alloc_def jello_gc_alloc_recycled_def Let_def bind_eq_Some_conv)
  have "dom (vm_heap vm1) \<subseteq> dom (vm_heap vm)"
  proof (cases "jello_gc_collect vm = Some vm1")
    case True
    then have "collected vm vm1" "gc_wf vm1" using collect_ok [OF assms(1)] by auto
    then show ?thesis using gc_wfD(2) [OF assms(1)] gc_wfD(2) [of vm1] by (auto simp: collected_def)
  next
    case False
    then show ?thesis using 1 by (auto split: if_splits)
  qed
  moreover have "dom (vm_heap vm') \<subseteq> insert a (dom (vm_heap vm1))"
    using assms(2) 1 by (auto simp: jello_gc_alloc_def jello_gc_alloc_recycled_def gc_box_free_pop_def link_block_def Let_def
        split: option.splits if_splits)
  ultimately show ?thesis by blast
qed

lemma new_obj_aligned:
  assumes "gc_wf vm" "malloc_aligned malloc" "heap_aligned vm" "new_obj malloc vm n ob = Some (vm', a)"
  shows "heap_aligned vm'"
proof -
  obtain w where w: "jello_gc_alloc malloc vm n = Some (w, a)" "vm' = put_obj w a ob"
    using assms(4) by (auto simp: new_obj_def)
  show ?thesis unfolding heap_aligned_def w(2) put_obj_simps
  proof (intro allI impI)
    fix q assume "q \<in> dom (vm_heap w)"
    then have "q \<in> insert a (dom (vm_heap vm))" using alloc_dom [OF assms(1) w(1)] by (rule rev_subsetD)
    then show "unat q mod 8 = 0" using alloc_aligned [OF assms(1-3) w(1)] assms(3) unfolding heap_aligned_def by auto
  qed
qed

lemma x_new_ok:
  assumes m: "mach S x" and al: "allocator_ok malloc" and ob: "obj_ok (live (gc_view x)) ob"
  shows "x_new x (\<lambda>vm. new_obj malloc vm n ob) = Inl PANIC \<or>
    (\<exists>x' a. x_new x (\<lambda>vm. new_obj malloc vm n ob) = Inr (x', a) \<and> new_object x ob x' a)"
proof (cases "new_obj malloc (gc_view x) n ob")
  case None
  have "jello_gc_collect (gc_view x) \<noteq> None" using collect_ok [of "gc_view x"] m by (auto simp: mach_def)
  then show ?thesis using None by (simp add: x_new_def)
next
  case (Some r)
  obtain vm a where r: "r = (vm, a)" by force
  let ?x = "x\<lparr>x_vm := vm\<rparr>" and ?L = "live (gc_view x)"
  note some = Some [unfolded r]
  have wf: "gc_wf (gc_view x)" "heap_aligned (gc_view x)" using m by (simp_all add: mach_def)
  have mk: "made (gc_view x) ob vm a"
    using new_obj_makes [OF wf(1), of malloc ob n] al some by (simp add: makes_def allocator_ok_def)
  have v: "gc_view ?x = vm" and s: "same_fields (gc_view x) vm"
    using same_fields_view new_obj_same_fields [OF some] by blast+
  have p: "jello_is_ptr a" using new_obj_ptr [OF wf(1) _ wf(2) some] al by (simp add: allocator_ok_def jello_from_ptr_def)
  have h: "heap_aligned vm" using new_obj_aligned [OF wf(1) _ wf(2) some] al by (simp add: allocator_ok_def)
  have L: "mach ?L x" using mach_live [OF m] by (simp add: mach_ok_def)
  have "roots_ok ?L vm" using L s unfolding mach_def roots_ok_def same_fields_def by metis
  then have rt: "roots_ok (insert a ?L) vm" by (rule roots_ok_mono) auto
  have hp: "heap_ok (insert a ?L) (vm_heap vm)"
    unfolding heap_ok_def
  proof
    fix q assume "q \<in> insert a ?L"
    then show "\<exists>b. vm_heap vm q = Some b \<and> obj_ok (insert a ?L) (b_obj b)"
    proof
      assume "q = a"
      then show ?thesis using mk obj_ok_mono [OF ob, of "insert a ?L"] by (auto simp: made_def)
    next
      assume q: "q \<in> ?L"
      then obtain b where b: "vm_heap (x_vm x) q = Some b" "obj_ok ?L (b_obj b)"
        using L unfolding mach_def heap_ok_def by blast
      then show ?thesis using mk q obj_ok_mono [OF b(2), of "insert a ?L"] by (auto simp: made_def)
    qed
  qed
  have "insert a ?L \<subseteq> set (gc_objects vm)" using mk by (auto simp: made_def gc_wf_def)
  moreover have "gc_wf vm" "live vm = ?L" using mk by (simp_all add: made_def)
  moreover have "running_module vm" using m s by (simp add: mach_def same_fields_def)
  ultimately have "mach (insert a ?L) ?x"
    using rt hp h m unfolding mach_def v by simp
  then have "new_object x ob ?x a"
    using mk p s v unfolding new_object_def made_def by auto
  then show ?thesis using some by (simp add: x_new_def)
qed

lemma new_objectD:
  assumes "new_object x ob x' a"
  shows "x_m x' = x_m x" "x_fr x' = x_fr x" "x_below x' = x_below x" "x_exc_pending x' = x_exc_pending x"
    "mach (insert a (live (gc_view x))) x'" "live (gc_view x') = live (gc_view x)" "a \<noteq> 0" "jello_is_ptr a"
    "a \<notin> live (gc_view x)"
proof -
  obtain vm where x': "x' = x\<lparr>x_vm := vm\<rparr>" using assms by (auto simp: new_object_def)
  show "x_m x' = x_m x" "x_fr x' = x_fr x" "x_below x' = x_below x" "x_exc_pending x' = x_exc_pending x"
    by (simp_all add: x')
qed (use assms in \<open>simp_all add: new_object_def\<close>)
lemma new_object_obj: "new_object x ob x' a \<Longrightarrow> obj_of x' a = Inr ob"
  by (auto simp: new_object_def obj_of_def)

lemma new_object_ctx: "new_object x ob x' a \<Longrightarrow> ctx_ok x' = ctx_ok x"
  using new_objectD(1,2) [of x ob x' a] by (simp add: ctx_ok_def)

text \<open>A handler changes registers of the top frame and the heap; all else is as before.\<close>

definition same_code :: "exec_ctx \<Rightarrow> exec_ctx \<Rightarrow> bool" where
  "same_code x x' \<longleftrightarrow> x_m x' = x_m x \<and> x_below x' = x_below x \<and> cf_f (x_fr x') = cf_f (x_fr x) \<and>
     cf_pc (x_fr x') = cf_pc (x_fr x)"

lemma same_code_refl [simp]: "same_code x x" by (simp add: same_code_def)
lemma same_code_trans: "same_code x y \<Longrightarrow> same_code y z \<Longrightarrow> same_code x z" by (simp add: same_code_def)

lemma same_code_simps [simp]:
  "same_code x (set_rf y rf) = same_code x y" "same_code x (jello_vm_trap y c s) = same_code x y"
  "same_code x (x_put y a ob) = same_code x y" "same_code x (y\<lparr>x_vm := vm\<rparr>) = same_code x y"
  by (simp_all add: same_code_def set_rf_def jello_vm_trap_def x_put_def)

lemma new_object_code: "new_object x ob x' a \<Longrightarrow> same_code x x'"
  by (simp add: same_code_def new_objectD(1-3) [of x ob x' a])

text \<open>A run of a handler is sound when it ends in a well-formed machine or aborts; it never faults.\<close>

definition sound_ctx :: "exec_ctx \<Rightarrow> exec_ctx run \<Rightarrow> bool" where
  "sound_ctx x r \<longleftrightarrow> (case r of Inl s \<Rightarrow> s = PANIC | Inr x' \<Rightarrow> mach_ok x' \<and> same_code x x')"

definition sound :: "exec_ctx \<Rightarrow> (op_result \<times> exec_ctx) run \<Rightarrow> bool" where
  "sound x r \<longleftrightarrow> (case r of Inl s \<Rightarrow> s = PANIC | Inr (res, x') \<Rightarrow> mach_ok x' \<and> same_code x x')"

lemma sound_PANIC [simp]: "sound x (Inl PANIC)" "sound_ctx x (Inl PANIC)"
  by (simp_all add: sound_def sound_ctx_def)

lemma sound_trap: "mach S x' \<Longrightarrow> same_code x x' \<Longrightarrow> sound x (trap_continue x' c s)"
  using mach_live [of S x'] mach_live [of S "jello_vm_trap x' c (Some s)"] by (simp add: sound_def trap_continue_def)

lemma sound_and_continue: "sound_ctx x r \<Longrightarrow> sound x (and_continue r)"
  by (cases r) (auto simp: sound_def sound_ctx_def and_continue_def)

lemma sound_Inr: "mach S x' \<Longrightarrow> same_code x x' \<Longrightarrow> sound x (Inr (OP_CONTINUE, x'))"
  using mach_live by (simp add: sound_def)

text \<open>Stores of handlers, by the kind of the register.\<close>

lemma scalar_reg_ok: "\<not> is_pointer_or_dynamic k \<Longrightarrow> reg_ok S (k, w)"
  by (cases k) (simp_all add: is_pointer_or_dynamic_def reg_ok_def is_pointer_kind_def)

lemma store_u32_mach:
  assumes "mach S x" "reg_in x r" "\<not> is_pointer_or_dynamic (x_kinds x ! r)"
  obtains rf' where "vm_store_u32 (x_rf x) (r) v = Inr rf'" "mach S (set_rf x rf')"
    "only_changes (x_kinds x) (r) (x_rf x) rf'" "reg_u32 (x_kinds x) rf' (r) = v"
proof -
  have c: "ctx_ok x" by (rule mach_ctx_ok [OF assms(1)])
  have r: "r < length (x_kinds x)" using assms(2) c by (simp add: reg_in_def ctx_ok_length)
  obtain rf' where rf': "vm_store_u32 (x_rf x) (r) v = Inr rf'" "only_changes (x_kinds x) (r) (x_rf x) rf'"
      "reg_u32 (x_kinds x) rf' (r) = v"
    by (rule store_u32_ok [OF ctx_ok_frame [OF c] r])
  show thesis by (rule that [OF rf'(1) mach_set_rf [OF assms(1,2) rf'(2) scalar_reg_ok [OF assms(3)]] rf'(2,3)])
qed

lemma wide_in_reg: "wide_in x n \<Longrightarrow> reg_in x n" by (simp add: wide_in_def)

lemma store_i64_mach:
  assumes "mach S x" "wide_in x r" "reg_ok S (x_kinds x ! r, v)"
  obtains rf' where "vm_store_i64 (x_rf x) (r) v = Inr rf'" "mach S (set_rf x rf')"
    "only_changes (x_kinds x) (r) (x_rf x) rf'" "reg_u64 (x_kinds x) rf' (r) = v"
proof -
  have c: "ctx_ok x" by (rule mach_ctx_ok [OF assms(1)])
  have r: "r < length (x_kinds x)" "jello_slot_size (x_kinds x ! r) = 8"
    using assms(2) c by (auto simp: wide_in_def reg_in_def ctx_ok_length)
  obtain rf' where rf': "vm_store_i64 (x_rf x) (r) v = Inr rf'" "only_changes (x_kinds x) (r) (x_rf x) rf'"
      "reg_u64 (x_kinds x) rf' (r) = v"
    by (rule store_i64_ok [OF ctx_ok_frame [OF c] r])
  have "mach S (set_rf x rf')"
    by (rule mach_set_rf [OF assms(1) wide_in_reg [OF assms(2)] rf'(2)]) (use assms(3) rf'(3) r(2) in simp)
  then show thesis using that rf' by blast
qed

lemma sound_store_u32:
  assumes "mach S x'" "same_code x x'" "reg_in x' r" "\<not> is_pointer_or_dynamic (x_kinds x' ! r)"
  shows "sound x (continue_with x' (vm_store_u32 (x_rf x') (r) v))"
    and "sound_ctx x (x_store x' (vm_store_u32 (x_rf x') (r) v))"
proof -
  obtain rf' where "vm_store_u32 (x_rf x') (r) v = Inr rf'" "mach S (set_rf x' rf')"
    by (rule store_u32_mach [OF assms(1,3,4)])
  then show "sound x (continue_with x' (vm_store_u32 (x_rf x') (r) v))"
    "sound_ctx x (x_store x' (vm_store_u32 (x_rf x') (r) v))"
    using mach_live assms(2) by (auto simp: sound_def sound_ctx_def continue_with_def x_store_def)
qed

lemma sound_store_i64:
  assumes "mach S x'" "same_code x x'" "wide_in x' r" "reg_ok S (x_kinds x' ! r, v)"
  shows "sound x (continue_with x' (vm_store_i64 (x_rf x') (r) v))"
    and "sound_ctx x (x_store x' (vm_store_i64 (x_rf x') (r) v))"
proof -
  obtain rf' where "vm_store_i64 (x_rf x') (r) v = Inr rf'" "mach S (set_rf x' rf')"
    by (rule store_i64_mach [OF assms(1,3,4)])
  then show "sound x (continue_with x' (vm_store_i64 (x_rf x') (r) v))"
    "sound_ctx x (x_store x' (vm_store_i64 (x_rf x') (r) v))"
    using mach_live assms(2) by (auto simp: sound_def sound_ctx_def continue_with_def x_store_def)
qed

lemmas load_store_defs = vm_load_f32_def vm_store_f32_def vm_load_f64_def vm_store_f64_def vm_load_val_def vm_store_val_def
  vm_load_ptr_def vm_store_ptr_def vm_load_f16_bits_def vm_store_f16_bits_def vm_store_u32_masked_def vm_load_i32ish_def

lemma obj_of_live:
  assumes "mach S x" "p \<in> S"
  obtains ob where "obj_of x p = Inr ob" "obj_ok S ob"
  using assms unfolding mach_def heap_ok_def obj_of_def by force

lemma box_of_ok:
  assumes "mach S x" "val_ok S v"
  obtains ob where "box_of x v = Inr ob" "\<And>b. ob = Some b \<Longrightarrow> obj_ok S b \<and> jello_is_ptr v \<and> obj_of x (jello_as_ptr v) = Inr b"
    "jello_is_ptr v \<longleftrightarrow> ob \<noteq> None"
proof (cases "jello_is_ptr v")
  case True
  then have "jello_as_ptr v \<in> S" using assms(2) by (simp add: val_ok_def)
  from obj_of_live [OF assms(1) this] that True show ?thesis unfolding box_of_def by (metis option.inject option.distinct(1) rbind_Inr)
next
  case False
  then show ?thesis using that [of None] by (simp add: box_of_def)
qed

end
