(* ===== verification/Jello_Box.thy ===== *)
theory Jello_Box
  imports Jello_Machine
begin

text \<open>
  Boxing: typed registers to tagged values and back (\<^verbatim>\<open>src/vm/box.c\<close>), the spill stack (\<^verbatim>\<open>src/vm/spill.c\<close>), the
  handlers of \<^verbatim>\<open>src/vm/ops/ops_box.c\<close> and the two constants of \<^verbatim>\<open>ops_const.c\<close> that live on the heap.
\<close>

section \<open>Boxing\<close>

fun vm_expected_obj_kind_for_typed_ptr :: "jello_type_kind \<Rightarrow> u32" where
  "vm_expected_obj_kind_for_typed_ptr JELLO_T_BYTES = 1"
| "vm_expected_obj_kind_for_typed_ptr JELLO_T_FUNCTION = 2"
| "vm_expected_obj_kind_for_typed_ptr JELLO_T_LIST = 3"
| "vm_expected_obj_kind_for_typed_ptr JELLO_T_ARRAY = 4"
| "vm_expected_obj_kind_for_typed_ptr JELLO_T_OBJECT = 5"
| "vm_expected_obj_kind_for_typed_ptr JELLO_T_ENUM = 11"
| "vm_expected_obj_kind_for_typed_ptr JELLO_T_ABSTRACT = 6"
| "vm_expected_obj_kind_for_typed_ptr _ = 0"

text \<open>\<open>0x7fffffff\<close> is \<^verbatim>\<open>JELLO_KINDOF_UNKNOWN\<close>; the codes of objects are their kind plus three, and enums come last.\<close>

definition vm_kindof_dynamic :: "exec_ctx \<Rightarrow> jello_value \<Rightarrow> u32 run" where
  "vm_kindof_dynamic x v =
     (if jello_is_null v then Inr 0
      else if jello_is_bool v then Inr 1
      else if jello_is_i32 v then Inr 2
      else if jello_is_atom v then Inr 3
      else if \<not> jello_is_ptr v then Inr 0x7fffffff
      else rbind (obj_of x (jello_as_ptr v)) (\<lambda>ob. Inr (if obj_kind ob = 0 then 0x7fffffff else 3 + obj_kind ob)))"

definition vm_box_from_typed ::
  "alloc_fun \<Rightarrow> exec_ctx \<Rightarrow> jello_bc_function \<Rightarrow> reg_frame \<Rightarrow> nat \<Rightarrow> (exec_ctx \<times> jello_value) run" where
  "vm_box_from_typed malloc x f rf r =
     (let boxed = (\<lambda>new. rbind (x_new x new) (\<lambda>(x, a). Inr (x, jello_from_ptr a)));
          type_id = f_reg_types f ! r in
      rbind (vm_reg_kind (x_m x) f r) (\<lambda>k.
        case k of
          JELLO_T_I8 \<Rightarrow> rbind (vm_load_u32 rf r) (\<lambda>v. Inr (x, jello_make_i32 v))
        | JELLO_T_I16 \<Rightarrow> rbind (vm_load_u32 rf r) (\<lambda>v. Inr (x, jello_make_i32 v))
        | JELLO_T_I32 \<Rightarrow> rbind (vm_load_u32 rf r) (\<lambda>v. Inr (x, jello_make_i32 v))
        | JELLO_T_F32 \<Rightarrow> rbind (vm_load_f32 rf r) (\<lambda>v. boxed (\<lambda>vm. jello_box_f32_new malloc vm type_id v))
        | JELLO_T_F16 \<Rightarrow> rbind (vm_load_f16_bits rf r) (\<lambda>v. boxed (\<lambda>vm. jello_box_f16_new malloc vm type_id v))
        | JELLO_T_I64 \<Rightarrow> rbind (vm_load_i64 rf r) (\<lambda>v. boxed (\<lambda>vm. jello_box_i64_new malloc vm type_id v))
        | JELLO_T_BOOL \<Rightarrow> rbind (vm_load_u32 rf r) (\<lambda>v. Inr (x, jello_make_bool (v \<noteq> 0)))
        | JELLO_T_ATOM \<Rightarrow> rbind (vm_load_u32 rf r) (\<lambda>v. Inr (x, jello_make_atom v))
        | JELLO_T_F64 \<Rightarrow> rbind (vm_load_f64 rf r) (\<lambda>v. boxed (\<lambda>vm. jello_box_f64_new malloc vm type_id v))
        | JELLO_T_DYNAMIC \<Rightarrow> rbind (vm_load_val rf r) (\<lambda>v. Inr (x, v))
        | _ \<Rightarrow> rbind (vm_load_ptr rf r) (\<lambda>p. Inr (x, if p = 0 then jello_make_null else jello_from_ptr p))))"

definition vm_clone_numbox :: "alloc_fun \<Rightarrow> exec_ctx \<Rightarrow> jello_value \<Rightarrow> (exec_ctx \<times> jello_value) run" where
  "vm_clone_numbox malloc x v =
     (let boxed = (\<lambda>new. rbind (x_new x new) (\<lambda>(x, a). Inr (x, jello_from_ptr a))) in
      if \<not> jello_is_ptr v then Inr (x, v)
      else
        rbind (obj_of x (jello_as_ptr v)) (\<lambda>ob.
          case ob of
            OBoxF64 t d \<Rightarrow> boxed (\<lambda>vm. jello_box_f64_new malloc vm t d)
          | OBoxF32 t d \<Rightarrow> boxed (\<lambda>vm. jello_box_f32_new malloc vm t d)
          | OBoxF16 t d \<Rightarrow> boxed (\<lambda>vm. jello_box_f16_new malloc vm t d)
          | OBoxI64 t i \<Rightarrow> boxed (\<lambda>vm. jello_box_i64_new malloc vm t i)
          | _ \<Rightarrow> Inr (x, v)))"

text \<open>The slot is passed by value: the result is the context, the value the slot holds afterwards, and whether the
  number was stored in place.\<close>

definition vm_store_num_inplace :: "exec_ctx \<Rightarrow> nat \<Rightarrow> jello_value \<Rightarrow> (exec_ctx \<times> jello_value \<times> bool) run" where
  "vm_store_num_inplace x src_reg cur =
     (let rf = x_rf x; put = (\<lambda>ob. Inr (x_put x (jello_as_ptr cur) ob, cur, True)); no = Inr (x, cur, False);
          int32 = (if jello_is_i32 cur then rbind (vm_load_u32 rf src_reg) (\<lambda>v. Inr (x, jello_make_i32 v, True))
                   else rbind (box_of x cur) (\<lambda>ob. case ob of
                       Some (OBoxI64 t i) \<Rightarrow> Inr (x, jello_make_i32 (ucast i), True) | _ \<Rightarrow> no)) in
      rbind (vm_reg_kind (x_m x) (x_f x) src_reg) (\<lambda>k.
        case k of
          JELLO_T_F64 \<Rightarrow> rbind (box_of x cur) (\<lambda>ob. case ob of
              Some (OBoxF64 t _) \<Rightarrow> rbind (vm_load_f64 rf src_reg) (\<lambda>v. put (OBoxF64 t v)) | _ \<Rightarrow> no)
        | JELLO_T_F32 \<Rightarrow> rbind (box_of x cur) (\<lambda>ob. case ob of
              Some (OBoxF32 t _) \<Rightarrow> rbind (vm_load_f32 rf src_reg) (\<lambda>v. put (OBoxF32 t v)) | _ \<Rightarrow> no)
        | JELLO_T_F16 \<Rightarrow> rbind (box_of x cur) (\<lambda>ob. case ob of
              Some (OBoxF16 t _) \<Rightarrow> rbind (vm_load_f16_bits rf src_reg) (\<lambda>v. put (OBoxF16 t v)) | _ \<Rightarrow> no)
        | JELLO_T_I64 \<Rightarrow> rbind (box_of x cur) (\<lambda>ob. case ob of
              Some (OBoxI64 t _) \<Rightarrow> rbind (vm_load_i64 rf src_reg) (\<lambda>v. put (OBoxI64 t v)) | _ \<Rightarrow> no)
        | JELLO_T_I8 \<Rightarrow> int32
        | JELLO_T_I16 \<Rightarrow> int32
        | JELLO_T_I32 \<Rightarrow> int32
        | _ \<Rightarrow> no))"

text \<open>The destination is a register of the top frame, as in every call. Pointers are stored without a look at the kind
  of object.\<close>

definition unbox_to_int :: "exec_ctx \<Rightarrow> nat \<Rightarrow> jello_value \<Rightarrow> exec_ctx run" where
  "unbox_to_int x dst v =
     (let st = (\<lambda>u. x_store x (vm_store_u32 (x_rf x) dst u)) in
      if jello_is_null v then st 0
      else if jello_is_i32 v then st (jello_as_i32 v)
      else rbind (box_of x v) (\<lambda>ob. case ob of
          Some (OBoxF64 _ d) \<Rightarrow> rbind (c_int_cast (dec64 d)) st
        | Some (OBoxI64 _ i) \<Rightarrow> st (ucast i)
        | _ \<Rightarrow> Inl PANIC))"

definition unbox_to_f32 :: "fpu \<Rightarrow> exec_ctx \<Rightarrow> nat \<Rightarrow> jello_value \<Rightarrow> exec_ctx run" where
  "unbox_to_f32 fp x dst v =
     (let st = (\<lambda>u. x_store x (vm_store_f32 (x_rf x) dst u)) in
      if jello_is_i32 v then st (f32_of_int (sint (jello_as_i32 v)))
      else if jello_is_null v then st 0
      else rbind (box_of x v) (\<lambda>ob. case ob of
          Some (OBoxF64 _ d) \<Rightarrow> st (f32_of_f64 fp d)
        | Some (OBoxF32 _ u) \<Rightarrow> st u
        | _ \<Rightarrow> Inl PANIC))"

definition unbox_to_f16 :: "fpu \<Rightarrow> exec_ctx \<Rightarrow> nat \<Rightarrow> jello_value \<Rightarrow> exec_ctx run" where
  "unbox_to_f16 fp x dst v =
     (let st = (\<lambda>u. x_store x (vm_store_f16_bits (x_rf x) dst u)) in
      if jello_is_i32 v then st (vm_f32_to_f16_bits (f32_of_int (sint (jello_as_i32 v))))
      else if jello_is_null v then st 0
      else rbind (box_of x v) (\<lambda>ob. case ob of
          Some (OBoxF64 _ d) \<Rightarrow> st (vm_f32_to_f16_bits (f32_of_f64 fp d))
        | Some (OBoxF16 _ u) \<Rightarrow> st u
        | _ \<Rightarrow> Inl PANIC))"

definition unbox_to_i64 :: "exec_ctx \<Rightarrow> nat \<Rightarrow> jello_value \<Rightarrow> exec_ctx run" where
  "unbox_to_i64 x dst v =
     (let st = (\<lambda>u. x_store x (vm_store_i64 (x_rf x) dst u)) in
      if jello_is_i32 v then st (scast (jello_as_i32 v))
      else if jello_is_null v then st 0
      else rbind (box_of x v) (\<lambda>ob. case ob of
          Some (OBoxF64 _ d) \<Rightarrow> rbind (c_int_cast (dec64 d)) st
        | Some (OBoxI64 _ i) \<Rightarrow> st i
        | _ \<Rightarrow> Inl PANIC))"

definition unbox_to_f64 :: "fpu \<Rightarrow> exec_ctx \<Rightarrow> nat \<Rightarrow> jello_value \<Rightarrow> exec_ctx run" where
  "unbox_to_f64 fp x dst v =
     (let st = (\<lambda>u. x_store x (vm_store_f64 (x_rf x) dst u)) in
      if jello_is_i32 v then st (f64_of_int (sint (jello_as_i32 v)))
      else if jello_is_null v then st 0
      else rbind (box_of x v) (\<lambda>ob. case ob of
          Some (OBoxF32 _ u) \<Rightarrow> st (f64_of_f32 fp u)
        | Some (OBoxF64 _ d) \<Rightarrow> st d
        | _ \<Rightarrow> Inl PANIC))"

definition vm_store_from_boxed :: "fpu \<Rightarrow> alloc_fun \<Rightarrow> exec_ctx \<Rightarrow> nat \<Rightarrow> jello_value \<Rightarrow> exec_ctx run" where
  "vm_store_from_boxed fp malloc x dst v =
     rbind (vm_reg_kind (x_m x) (x_f x) dst) (\<lambda>k.
       case k of
         JELLO_T_I8 \<Rightarrow> unbox_to_int x dst v
       | JELLO_T_I16 \<Rightarrow> unbox_to_int x dst v
       | JELLO_T_I32 \<Rightarrow> unbox_to_int x dst v
       | JELLO_T_F32 \<Rightarrow> unbox_to_f32 fp x dst v
       | JELLO_T_F16 \<Rightarrow> unbox_to_f16 fp x dst v
       | JELLO_T_I64 \<Rightarrow> unbox_to_i64 x dst v
       | JELLO_T_BOOL \<Rightarrow>
           if \<not> jello_is_bool v then Inl PANIC else x_store x (vm_store_u32 (x_rf x) dst (bool_u32 (jello_as_bool v)))
       | JELLO_T_ATOM \<Rightarrow>
           if \<not> jello_is_atom v then Inl PANIC else x_store x (vm_store_u32 (x_rf x) dst (jello_as_atom v))
       | JELLO_T_F64 \<Rightarrow> unbox_to_f64 fp x dst v
       | JELLO_T_DYNAMIC \<Rightarrow>
           rbind (vm_clone_numbox malloc x v) (\<lambda>(x, v). x_store x (vm_store_val (x_rf x) dst v))
       | _ \<Rightarrow>
           if jello_is_null v then x_store x (vm_store_ptr (x_rf x) dst 0)
           else if \<not> jello_is_ptr v then Inl PANIC
           else x_store x (vm_store_ptr (x_rf x) dst (jello_as_ptr v)))"

section \<open>The spill stack\<close>

definition vm_spill_push :: "exec_ctx \<Rightarrow> jello_value \<Rightarrow> exec_ctx" where
  "vm_spill_push x v = x\<lparr>x_vm := (x_vm x)\<lparr>spill := spill (x_vm x) @ [v]\<rparr>\<rparr>"

definition vm_spill_pop :: "exec_ctx \<Rightarrow> (exec_ctx \<times> jello_value) run" where
  "vm_spill_pop x =
     (if spill (x_vm x) = [] then Inl PANIC
      else Inr (x\<lparr>x_vm := (x_vm x)\<lparr>spill := butlast (spill (x_vm x))\<rparr>\<rparr>, last (spill (x_vm x))))"

section \<open>Handlers\<close>

definition op_to_dyn :: "alloc_fun \<Rightarrow> handler" where
  "op_to_dyn malloc x ins =
     rbind (vm_box_from_typed malloc x (x_f x) (x_rf x) (unat (i_b ins))) (\<lambda>(x, v).
       continue_with x (vm_store_val (x_rf x) (unat (i_a ins)) v))"

text \<open>\<open>None\<close> is \<^verbatim>\<open>*ok = 0\<close>.\<close>

definition from_dyn_int_value :: "exec_ctx \<Rightarrow> jello_value \<Rightarrow> u32 option run" where
  "from_dyn_int_value x v =
     (if jello_is_i32 v then Inr (Some (jello_as_i32 v))
      else rbind (box_of x v) (\<lambda>ob. case ob of Some (OBoxI64 _ i) \<Rightarrow> Inr (Some (ucast i)) | _ \<Rightarrow> Inr None))"

definition from_dyn_int :: "string \<Rightarrow> (reg_frame \<Rightarrow> nat \<Rightarrow> u32 \<Rightarrow> reg_frame run) \<Rightarrow> handler" where
  "from_dyn_int msg st x ins =
     rbind (vm_load_val (x_rf x) (unat (i_b ins))) (\<lambda>v.
     rbind (from_dyn_int_value x v) (\<lambda>r.
       case r of
         None \<Rightarrow> trap_continue x JELLO_TRAP_TYPE_MISMATCH msg
       | Some u \<Rightarrow> continue_with x (st (x_rf x) (unat (i_a ins)) u)))"

definition op_from_dyn_i8 :: handler where
  "op_from_dyn_i8 = from_dyn_int ''from_dyn_i8 type mismatch'' (\<lambda>rf r u. vm_store_u32_masked rf r u JELLO_T_I8)"

definition op_from_dyn_i16 :: handler where
  "op_from_dyn_i16 = from_dyn_int ''from_dyn_i16 type mismatch'' (\<lambda>rf r u. vm_store_u32_masked rf r u JELLO_T_I16)"

definition op_from_dyn_i32 :: handler where
  "op_from_dyn_i32 = from_dyn_int ''from_dyn_i32 type mismatch'' vm_store_u32"

definition op_from_dyn_i64 :: handler where
  "op_from_dyn_i64 x ins =
     rbind (vm_load_val (x_rf x) (unat (i_b ins))) (\<lambda>v.
       if jello_is_i32 v then continue_with x (vm_store_i64 (x_rf x) (unat (i_a ins)) (scast (jello_as_i32 v)))
       else rbind (box_of x v) (\<lambda>ob. case ob of
           Some (OBoxI64 _ i) \<Rightarrow> continue_with x (vm_store_i64 (x_rf x) (unat (i_a ins)) i)
         | _ \<Rightarrow> trap_continue x JELLO_TRAP_TYPE_MISMATCH ''from_dyn_i64 type mismatch''))"

definition op_from_dyn_f16 :: handler where
  "op_from_dyn_f16 x ins =
     rbind (vm_load_val (x_rf x) (unat (i_b ins))) (\<lambda>v.
     rbind (box_of x v) (\<lambda>ob. case ob of
         Some (OBoxF16 _ u) \<Rightarrow> continue_with x (vm_store_f16_bits (x_rf x) (unat (i_a ins)) u)
       | _ \<Rightarrow> trap_continue x JELLO_TRAP_TYPE_MISMATCH ''from_dyn_f16 type mismatch''))"

definition op_from_dyn_f32 :: handler where
  "op_from_dyn_f32 x ins =
     rbind (vm_load_val (x_rf x) (unat (i_b ins))) (\<lambda>v.
       if jello_is_i32 v then
         continue_with x (vm_store_f32 (x_rf x) (unat (i_a ins)) (f32_of_int (sint (jello_as_i32 v))))
       else rbind (box_of x v) (\<lambda>ob. case ob of
           Some (OBoxF32 _ u) \<Rightarrow> continue_with x (vm_store_f32 (x_rf x) (unat (i_a ins)) u)
         | _ \<Rightarrow> trap_continue x JELLO_TRAP_TYPE_MISMATCH ''from_dyn_f32 type mismatch''))"

definition op_from_dyn_f64 :: handler where
  "op_from_dyn_f64 x ins =
     rbind (vm_load_val (x_rf x) (unat (i_b ins))) (\<lambda>v.
       if jello_is_i32 v then
         continue_with x (vm_store_f64 (x_rf x) (unat (i_a ins)) (f64_of_int (sint (jello_as_i32 v))))
       else if jello_is_null v then continue_with x (vm_store_f64 (x_rf x) (unat (i_a ins)) 0)
       else rbind (box_of x v) (\<lambda>ob. case ob of
           Some (OBoxF64 _ d) \<Rightarrow> continue_with x (vm_store_f64 (x_rf x) (unat (i_a ins)) d)
         | _ \<Rightarrow> trap_continue x JELLO_TRAP_TYPE_MISMATCH ''from_dyn_f64 type mismatch''))"

definition op_from_dyn_bool :: handler where
  "op_from_dyn_bool x ins =
     rbind (vm_load_val (x_rf x) (unat (i_b ins))) (\<lambda>v.
       if \<not> jello_is_bool v then trap_continue x JELLO_TRAP_TYPE_MISMATCH ''from_dyn_bool type mismatch''
       else continue_with x (vm_store_u32 (x_rf x) (unat (i_a ins)) (bool_u32 (jello_as_bool v))))"

definition op_from_dyn_atom :: handler where
  "op_from_dyn_atom x ins =
     rbind (vm_load_val (x_rf x) (unat (i_b ins))) (\<lambda>v.
       if \<not> jello_is_atom v then trap_continue x JELLO_TRAP_TYPE_MISMATCH ''from_dyn_atom type mismatch''
       else continue_with x (vm_store_u32 (x_rf x) (unat (i_a ins)) (jello_as_atom v)))"

definition op_from_dyn_ptr :: handler where
  "op_from_dyn_ptr x ins =
     rbind (vm_load_val (x_rf x) (unat (i_b ins))) (\<lambda>v.
     rbind (vm_reg_kind (x_m x) (x_f x) (unat (i_a ins))) (\<lambda>dk.
       let want = vm_expected_obj_kind_for_typed_ptr dk in
       if want = 0 then trap_continue x JELLO_TRAP_TYPE_MISMATCH ''from_dyn_ptr dst not pointer-kind''
       else if jello_is_null v then continue_with x (vm_store_ptr (x_rf x) (unat (i_a ins)) 0)
       else if \<not> jello_is_ptr v then trap_continue x JELLO_TRAP_TYPE_MISMATCH ''from_dyn_ptr type mismatch''
       else
         rbind (obj_of x (jello_as_ptr v)) (\<lambda>ob.
           if obj_kind ob \<noteq> want then trap_continue x JELLO_TRAP_TYPE_MISMATCH ''from_dyn_ptr kind mismatch''
           else continue_with x (vm_store_ptr (x_rf x) (unat (i_a ins)) (jello_as_ptr v)))))"

definition op_spill_push :: "alloc_fun \<Rightarrow> handler" where
  "op_spill_push malloc x ins =
     rbind (vm_box_from_typed malloc x (x_f x) (x_rf x) (unat (i_a ins))) (\<lambda>(x, v).
       Inr (OP_CONTINUE, vm_spill_push x v))"

definition op_spill_pop :: "fpu \<Rightarrow> alloc_fun \<Rightarrow> handler" where
  "op_spill_pop fp malloc x ins =
     rbind (vm_spill_pop x) (\<lambda>(x, v). and_continue (vm_store_from_boxed fp malloc x (unat (i_a ins)) v))"

definition op_physeq :: "alloc_fun \<Rightarrow> handler" where
  "op_physeq malloc x ins =
     rbind (vm_box_from_typed malloc x (x_f x) (x_rf x) (unat (i_b ins))) (\<lambda>(x, vb).
     rbind (vm_box_from_typed malloc x (x_f x) (x_rf x) (unat (i_c ins))) (\<lambda>(x, vc).
       continue_with x (vm_store_u32 (x_rf x) (unat (i_a ins)) (bool_u32 (vb = vc)))))"

definition op_kindof :: handler where
  "op_kindof x ins =
     rbind (vm_load_val (x_rf x) (unat (i_b ins))) (\<lambda>v.
     rbind (vm_kindof_dynamic x v) (\<lambda>k. continue_with x (vm_store_u32 (x_rf x) (unat (i_a ins)) k)))"

section \<open>Constants on the heap\<close>

text \<open>A constant is made on first use and cached; the cache is a root of the collector. The bytes of a constant
  outside the pool's data would be read past the array.\<close>

definition op_const_bytes :: "alloc_fun \<Rightarrow> handler" where
  "op_const_bytes malloc x ins =
     (let m = x_m x; idx = i_imm ins; cache = const_bytes_cache (x_vm x);
          type_id = f_reg_types (x_f x) ! unat (i_a ins) in
      if length cache \<le> unat idx then
        (if m_nconst_bytes m \<le> idx then trap_continue x JELLO_TRAP_BOUNDS ''const_bytes out of range'' else Inl PANIC)
      else if cache ! unat idx = 0 then
        rbind (pool_at (m_const_bytes_len m) idx) (\<lambda>len.
        rbind (pool_at (m_const_bytes_off m) idx) (\<lambda>off.
        rbind (x_new x (\<lambda>vm. jello_bytes_new malloc vm type_id len)) (\<lambda>(x, b).
          if length (m_const_bytes_data m) < unat off + unat len then Inl FAULT
          else
            (let x = x_put x b (OBytes type_id (mem_read (m_const_bytes_data m) (unat off) (unat len)));
                 x = x\<lparr>x_vm := (x_vm x)\<lparr>const_bytes_cache := (const_bytes_cache (x_vm x))[unat idx := b]\<rparr>\<rparr> in
             continue_with x (vm_store_ptr (x_rf x) (unat (i_a ins)) b)))))
      else continue_with x (vm_store_ptr (x_rf x) (unat (i_a ins)) (cache ! unat idx)))"

definition op_const_fun :: "alloc_fun \<Rightarrow> handler" where
  "op_const_fun malloc x ins =
     (let idx = i_imm ins; cache = const_fun_cache (x_vm x); type_id = f_reg_types (x_f x) ! unat (i_a ins) in
      if length cache \<le> unat idx then Inl PANIC
      else if cache ! unat idx = 0 then
        rbind (x_new x (\<lambda>vm. jello_function_new malloc vm type_id idx)) (\<lambda>(x, f).
          let x = x\<lparr>x_vm := (x_vm x)\<lparr>const_fun_cache := (const_fun_cache (x_vm x))[unat idx := f]\<rparr>\<rparr> in
          continue_with x (vm_store_ptr (x_rf x) (unat (i_a ins)) f))
      else continue_with x (vm_store_ptr (x_rf x) (unat (i_a ins)) (cache ! unat idx)))"

section \<open>Boxing keeps the machine well formed\<close>

definition is_numbox :: "heap_obj \<Rightarrow> bool" where
  "is_numbox ob \<longleftrightarrow> obj_kind ob \<in> {7, 8, 9, 10}"

lemma numbox_ok: "is_numbox ob \<Longrightarrow> obj_ok S ob"
  by (cases ob) (simp_all add: is_numbox_def obj_ok_def)

text \<open>A value was boxed_val: it is immediate or already known, or it is a new box.\<close>

definition boxed_val :: "addr set \<Rightarrow> exec_ctx \<Rightarrow> exec_ctx \<Rightarrow> jello_value \<Rightarrow> bool" where
  "boxed_val S x x' v \<longleftrightarrow> x' = x \<and> val_ok S v \<or> (\<exists>ob. new_object x ob x' v \<and> is_numbox ob)"

lemma boxed_val_mach:
  assumes "boxed_val S x x' v" "mach S x"
  obtains T where "mach T x'" "val_ok T v" "live (gc_view x) \<subseteq> T" "T \<subseteq> insert v S"
  using assms(1) unfolding boxed_val_def
proof
  assume "x' = x \<and> val_ok S v"
  then show thesis using that [of S] assms(2) live_least by blast
next
  assume "\<exists>ob. new_object x ob x' v \<and> is_numbox ob"
  then obtain ob where n: "new_object x ob x' v" by blast
  show thesis using that [of "insert v (live (gc_view x))"] new_objectD(5) [OF n] live_least [OF assms(2)]
    by (auto simp: val_ok_def jello_as_ptr_def)
qed

lemma boxed_val_same:
  assumes "boxed_val S x x' v"
  shows "x_m x' = x_m x" "x_fr x' = x_fr x" "x_below x' = x_below x" "same_code x x'" "live (gc_view x') = live (gc_view x)"
  using assms new_objectD [of x _ x' v] by (auto simp: boxed_val_def same_code_def)

text \<open>What boxing makes of a register with the low word \<open>u\<close> and the double word \<open>w\<close>: a new box or a value.\<close>

fun typed_box :: "jello_type_kind \<Rightarrow> u32 \<Rightarrow> u32 \<Rightarrow> u64 \<Rightarrow> heap_obj option" where
  "typed_box JELLO_T_F32 t u w = Some (OBoxF32 t u)"
| "typed_box JELLO_T_F16 t u w = Some (OBoxF16 t (ucast (u AND 0xFFFF)))"
| "typed_box JELLO_T_I64 t u w = Some (OBoxI64 t w)"
| "typed_box JELLO_T_F64 t u w = Some (OBoxF64 t w)"
| "typed_box _ t u w = None"

definition typed_val :: "jello_type_kind \<Rightarrow> u32 \<Rightarrow> u64 \<Rightarrow> jello_value" where
  "typed_val k u w =
     (if k = JELLO_T_BOOL then jello_make_bool (u \<noteq> 0)
      else if k = JELLO_T_ATOM then jello_make_atom u
      else if k = JELLO_T_DYNAMIC then w
      else if is_pointer_kind k then (if w = 0 then jello_make_null else jello_from_ptr w)
      else jello_make_i32 u)"

definition box_size :: "heap_obj \<Rightarrow> u64" where
  "box_size ob = (if obj_kind ob \<in> {9, 10} then 12 else 16)"

definition new_box :: "alloc_fun \<Rightarrow> exec_ctx \<Rightarrow> heap_obj \<Rightarrow> (exec_ctx \<times> jello_value) run" where
  "new_box malloc x ob = rbind (x_new x (\<lambda>vm. new_obj malloc vm (box_size ob) ob)) (\<lambda>(x, a). Inr (x, jello_from_ptr a))"

lemmas box_news = jello_box_i64_new_def jello_box_f64_new_def jello_box_f32_new_def jello_box_f16_new_def

lemma box_from_typed_run:
  assumes "frame_ctx_ok (x_m x) fr" "r < length (f_reg_types (cf_f fr))"
  defines "ks \<equiv> fun_kinds (x_m x) (cf_f fr)"
  defines "u \<equiv> reg_u32 ks (cf_rf fr) r" and "w \<equiv> reg_u64 ks (cf_rf fr) r"
  shows "vm_box_from_typed malloc x (cf_f fr) (cf_rf fr) r =
    (case typed_box (ks ! r) (f_reg_types (cf_f fr) ! r) u w of
       Some ob \<Rightarrow> new_box malloc x ob | None \<Rightarrow> Inr (x, typed_val (ks ! r) u w))"
  using frame_reg_run [OF assms(1,2)] unfolding u_def w_def ks_def
  by (cases "fun_kinds (x_m x) (cf_f fr) ! r")
    (simp_all add: vm_box_from_typed_def load_store_defs box_news jello_slot_size_def new_box_def box_size_def typed_val_def
      is_pointer_kind_def)

lemma new_box_ok:
  assumes "mach S x" "allocator_ok malloc" "is_numbox ob"
  shows "new_box malloc x ob = Inl PANIC \<or> (\<exists>x' v. new_box malloc x ob = Inr (x', v) \<and> new_object x ob x' v)"
  using x_new_ok [OF assms(1,2) numbox_ok [OF assms(3)], of "box_size ob"] by (auto simp: new_box_def jello_from_ptr_def)

lemma pointer_val_ok: "ptr_ok S p \<Longrightarrow> val_ok S (if p = 0 then jello_make_null else jello_from_ptr p)"
  by (auto simp: ptr_ok_def val_ok_def jello_as_ptr_def jello_from_ptr_def is_make)

lemma typed_box_numbox: "typed_box k t u w = Some ob \<Longrightarrow> is_numbox ob"
  by (cases k) (auto simp: is_numbox_def)

lemma typed_val_ok: "reg_ok S (k, if jello_slot_size k = 8 then w else 0) \<Longrightarrow> val_ok S (typed_val k u w)"
  using pointer_val_ok [of S w] by (cases k) (simp_all add: typed_val_def reg_ok_def is_pointer_kind_def jello_slot_size_def)

lemma box_from_typed_ok:
  assumes m: "mach S x" and al: "allocator_ok malloc" and fr: "fr \<in> set (x_below x @ [x_fr x])"
    and r: "r < length (f_reg_types (cf_f fr))"
  shows "vm_box_from_typed malloc x (cf_f fr) (cf_rf fr) r = Inl PANIC \<or>
    (\<exists>x' v. vm_box_from_typed malloc x (cf_f fr) (cf_rf fr) r = Inr (x', v) \<and> boxed_val S x x' v)"
proof -
  note run = box_from_typed_run [OF mach_frames [OF m fr] r, of malloc]
  show ?thesis
  proof (cases "typed_box (fun_kinds (x_m x) (cf_f fr) ! r) (f_reg_types (cf_f fr) ! r)
      (reg_u32 (fun_kinds (x_m x) (cf_f fr)) (cf_rf fr) r) (reg_u64 (fun_kinds (x_m x) (cf_f fr)) (cf_rf fr) r)")
    case None
    then show ?thesis using run typed_val_ok [OF frame_reg_ok [OF m fr r]] by (simp add: boxed_val_def)
  next
    case (Some ob)
    then show ?thesis using run new_box_ok [OF m al typed_box_numbox [OF Some]] typed_box_numbox [OF Some]
      by (auto simp: boxed_val_def)
  qed
qed

lemma clone_numbox_ok:
  assumes m: "mach S x" and al: "allocator_ok malloc" and v: "val_ok S v"
  shows "vm_clone_numbox malloc x v = Inl PANIC \<or>
    (\<exists>x' v'. vm_clone_numbox malloc x v = Inr (x', v') \<and> boxed_val S x x' v')"
proof (cases "jello_is_ptr v")
  case False
  then show ?thesis using v by (simp add: vm_clone_numbox_def boxed_val_def)
next
  case True
  then obtain ob where ob: "obj_of x (jello_as_ptr v) = Inr ob"
    using obj_of_live [OF m, of "jello_as_ptr v"] v by (auto simp: val_ok_def)
  show ?thesis
  proof (cases "is_numbox ob")
    case n: True
    then have "vm_clone_numbox malloc x v = new_box malloc x ob" using True ob
      by (cases ob) (simp_all add: vm_clone_numbox_def box_news new_box_def box_size_def is_numbox_def)
    then show ?thesis using new_box_ok [OF m al n] n by (auto simp: boxed_val_def)
  next
    case False
    then have "vm_clone_numbox malloc x v = Inr (x, v)" using True ob
      by (cases ob) (simp_all add: vm_clone_numbox_def is_numbox_def)
    then show ?thesis using v by (simp add: boxed_val_def)
  qed
qed

section \<open>Unboxing keeps the machine well formed\<close>

text \<open>The C cast of a boxed double to an integer register is defined.\<close>

definition int_cast_ok :: "exec_ctx \<Rightarrow> nat \<Rightarrow> jello_value \<Rightarrow> bool" where
  "int_cast_ok x dst v \<longleftrightarrow> (\<forall>t d. jello_is_ptr v \<longrightarrow> obj_of x (jello_as_ptr v) = Inr (OBoxF64 t d) \<longrightarrow>
     (x_kinds x ! dst \<in> {JELLO_T_I8, JELLO_T_I16, JELLO_T_I32} \<longrightarrow> (c_int_cast (dec64 d) :: u32 run) \<noteq> Inl FAULT) \<and>
     (x_kinds x ! dst = JELLO_T_I64 \<longrightarrow> (c_int_cast (dec64 d) :: u64 run) \<noteq> Inl FAULT))"

lemma c_int_cast_cases: "(c_int_cast a :: 'a::len word run) \<noteq> Inl FAULT \<Longrightarrow> \<exists>i :: 'a word. c_int_cast a = Inr i"
  by (auto simp: c_int_cast_def split: if_splits)

lemma store_from_boxed_ok:
  assumes m: "mach S x" and al: "allocator_ok malloc" and r: "reg_in x dst" and v: "val_ok S v"
    and c: "int_cast_ok x dst v"
  shows "sound_ctx x (vm_store_from_boxed fp malloc x dst v)"
proof -
  let ?k = "x_kinds x ! dst"
  note k = top_reg_run(1) [OF m r]
  obtain ob where ob: "box_of x v = Inr ob"
      "\<And>b. ob = Some b \<Longrightarrow> obj_ok S b \<and> jello_is_ptr v \<and> obj_of x (jello_as_ptr v) = Inr b"
    using box_of_ok [OF m v] by metis
  have s4: "sound_ctx x (x_store x (vm_store_u32 (x_rf x) dst u))" if "\<not> is_pointer_or_dynamic ?k" for u
    by (rule sound_store_u32(2) [OF m _ r that]) simp
  have s8: "sound_ctx x (x_store x (vm_store_i64 (x_rf x) dst u))" if "jello_slot_size ?k = 8" "reg_ok S (?k, u)" for u
    by (rule sound_store_i64(2) [OF m _ _ that(2)]) (simp_all add: wide_in_def r that(1))
  show ?thesis
  proof (cases "is_pointer_or_dynamic ?k")
    case False
    have s8': "sound_ctx x (x_store x (vm_store_i64 (x_rf x) dst u))" if "jello_slot_size ?k = 8" for u
      by (rule s8 [OF that scalar_reg_ok [OF False]])
    have cast: "ob = Some (OBoxF64 t d) \<Longrightarrow> ?k \<in> {JELLO_T_I8, JELLO_T_I16, JELLO_T_I32} \<Longrightarrow> \<exists>i :: u32. c_int_cast (dec64 d) = Inr i"
      "ob = Some (OBoxF64 t d) \<Longrightarrow> ?k = JELLO_T_I64 \<Longrightarrow> \<exists>i :: u64. c_int_cast (dec64 d) = Inr i" for t d
      using ob(2) c c_int_cast_cases unfolding int_cast_ok_def by blast+
    show ?thesis using False k s4 s8' cast
      by (cases ?k) (auto simp: vm_store_from_boxed_def unbox_to_int_def unbox_to_f32_def unbox_to_f16_def unbox_to_i64_def
          unbox_to_f64_def ob(1) load_store_defs jello_slot_size_def is_pointer_or_dynamic_def Let_def
          split: option.splits heap_obj.splits)
  next
    case True
    show ?thesis
    proof (cases "?k = JELLO_T_DYNAMIC")
      case d: True
      have run: "vm_store_from_boxed fp malloc x dst v =
          rbind (vm_clone_numbox malloc x v) (\<lambda>(x, v). x_store x (vm_store_i64 (x_rf x) dst v))"
        by (simp add: vm_store_from_boxed_def k d load_store_defs)
      from clone_numbox_ok [OF m al v] show ?thesis
      proof
        assume "\<exists>x' v'. vm_clone_numbox malloc x v = Inr (x', v') \<and> boxed_val S x x' v'"
        then obtain x' v' where cl: "vm_clone_numbox malloc x v = Inr (x', v')" "boxed_val S x x' v'" by blast
        obtain T where T: "mach T x'" "val_ok T v'" by (rule boxed_val_mach [OF cl(2) m])
        note same = boxed_val_same [OF cl(2)]
        have "sound_ctx x (x_store x' (vm_store_i64 (x_rf x') dst v'))"
          by (rule sound_store_i64(2) [OF T(1) same(4)])
            (use r d T(2) same(1,2) in \<open>simp_all add: wide_in_def reg_in_def reg_ok_def jello_slot_size_def\<close>)
        then show ?thesis by (simp add: run cl(1))
      qed (simp add: run)
    next
      case False
      then have p: "is_pointer_kind ?k" using True by (cases ?k) (simp_all add: is_pointer_kind_def is_pointer_or_dynamic_def)
      then have "vm_store_from_boxed fp malloc x dst v =
          (if jello_is_null v then x_store x (vm_store_i64 (x_rf x) dst 0)
           else if \<not> jello_is_ptr v then Inl PANIC else x_store x (vm_store_i64 (x_rf x) dst (jello_as_ptr v)))"
        by (cases ?k) (simp_all add: vm_store_from_boxed_def k load_store_defs is_pointer_kind_def)
      moreover have "reg_ok S (?k, 0)" "jello_is_ptr v \<Longrightarrow> reg_ok S (?k, jello_as_ptr v)"
        using p v False by (auto simp: reg_ok_def ptr_ok_def val_ok_def)
      ultimately show ?thesis using s8 [OF pointer_kind_slot [OF p]] by auto
    qed
  qed
qed

section \<open>The boxing handlers are safe\<close>

definition box_table :: "fpu \<Rightarrow> alloc_fun \<Rightarrow> (nat \<times> handler) list" where
  "box_table fp malloc =
     [(JOP_CONST_BYTES, op_const_bytes malloc),
      (JOP_CONST_FUN, op_const_fun malloc),
      (JOP_TO_DYN, op_to_dyn malloc),
      (JOP_FROM_DYN_I8, op_from_dyn_i8),
      (JOP_FROM_DYN_I16, op_from_dyn_i16),
      (JOP_FROM_DYN_I32, op_from_dyn_i32),
      (JOP_FROM_DYN_I64, op_from_dyn_i64),
      (JOP_FROM_DYN_F16, op_from_dyn_f16),
      (JOP_FROM_DYN_F32, op_from_dyn_f32),
      (JOP_FROM_DYN_F64, op_from_dyn_f64),
      (JOP_FROM_DYN_BOOL, op_from_dyn_bool),
      (JOP_FROM_DYN_ATOM, op_from_dyn_atom),
      (JOP_FROM_DYN_PTR, op_from_dyn_ptr),
      (JOP_SPILL_PUSH, op_spill_push malloc),
      (JOP_SPILL_POP, op_spill_pop fp malloc),
      (JOP_PHYSEQ, op_physeq malloc),
      (JOP_KINDOF, op_kindof)]"

lemma accepted_reg:
  assumes "mach S x" "\<not> oor (f_nregs (x_f x)) r"
  shows "reg_in x (unat r)" "rk (x_m x) (f_reg_types (x_f x)) r = x_kinds x ! unat r"
  using assms(2) rk_kinds [OF mach_ctx_ok [OF assms(1)]] not_oor [of x r] by (simp_all add: has_reg_in)

text \<open>The shape of a \<^verbatim>\<open>from_dyn\<close> handler: load the value, look at its object, store or trap.\<close>

lemma sound_load_dyn:
  assumes "mach S x" "reg_in x b" "x_kinds x ! b = JELLO_T_DYNAMIC"
    and "\<And>v. val_ok S v \<Longrightarrow> sound x (g v)"
  shows "sound x (rbind (vm_load_val (x_rf x) b) g)"
  using top_reg_run(3) [OF assms(1,2)] dyn_reg_ok [OF assms(1-3)] assms(3,4) by (simp add: load_store_defs jello_slot_size_def)

lemma sound_box_of:
  assumes "mach S x" "val_ok S v" "\<And>ob. (\<And>b. ob = Some b \<Longrightarrow> obj_ok S b \<and> jello_is_ptr v) \<Longrightarrow> sound y (g ob)"
  shows "sound y (rbind (box_of x v) g)"
proof -
  obtain ob where "box_of x v = Inr ob" "\<And>b. ob = Some b \<Longrightarrow> obj_ok S b \<and> jello_is_ptr v"
    using box_of_ok [OF assms(1,2)] by metis
  then show ?thesis using assms(3) by simp
qed

lemma rbind_assoc: "rbind (rbind r f) g = rbind r (\<lambda>v. rbind (f v) g)"
  by (cases r) simp_all

lemma sound_from_dyn:
  assumes m: "mach S x" and a: "reg_in x (unat (i_a ins))" and b: "reg_in x (unat (i_b ins))"
    and kb: "x_kinds x ! unat (i_b ins) = JELLO_T_DYNAMIC" and ka: "\<not> is_pointer_or_dynamic (x_kinds x ! unat (i_a ins))"
  shows "sound x (op_from_dyn_i8 x ins)" "sound x (op_from_dyn_i16 x ins)" "sound x (op_from_dyn_i32 x ins)"
    "sound x (op_from_dyn_f16 x ins)" "sound x (op_from_dyn_f32 x ins)"
    "sound x (op_from_dyn_bool x ins)" "sound x (op_from_dyn_atom x ins)"
    and "jello_slot_size (x_kinds x ! unat (i_a ins)) = 8 \<Longrightarrow> sound x (op_from_dyn_i64 x ins)"
    and "jello_slot_size (x_kinds x ! unat (i_a ins)) = 8 \<Longrightarrow> sound x (op_from_dyn_f64 x ins)"
proof -
  note s = sound_store_u32(1) [OF m same_code_refl a ka] sound_trap [OF m same_code_refl]
  note load = sound_load_dyn [OF m b kb] and box = sound_box_of [OF m]
  have 8: "sound x (continue_with x (vm_store_i64 (x_rf x) (unat (i_a ins)) v))"
    if "jello_slot_size (x_kinds x ! unat (i_a ins)) = 8" for v
    by (rule sound_store_i64(1) [OF m same_code_refl _ scalar_reg_ok [OF ka]]) (use a that in \<open>simp add: wide_in_def\<close>)
  have int: "sound x (from_dyn_int msg st x ins)"
    if "\<And>u. sound x (continue_with x (st (x_rf x) (unat (i_a ins)) u))" for msg st
    unfolding from_dyn_int_def from_dyn_int_value_def
    by (rule load) (auto simp: that s(2) rbind_assoc split: option.split heap_obj.split intro!: box)
  show "sound x (op_from_dyn_i8 x ins)" "sound x (op_from_dyn_i16 x ins)" "sound x (op_from_dyn_i32 x ins)"
    unfolding op_from_dyn_i8_def op_from_dyn_i16_def op_from_dyn_i32_def by (rule int; simp add: load_store_defs s(1))+
  show "sound x (op_from_dyn_f16 x ins)" "sound x (op_from_dyn_f32 x ins)"
    "sound x (op_from_dyn_bool x ins)" "sound x (op_from_dyn_atom x ins)"
    unfolding op_from_dyn_f16_def op_from_dyn_f32_def op_from_dyn_bool_def op_from_dyn_atom_def
    by (rule load; auto simp: s load_store_defs split: option.split heap_obj.split intro!: box)+
  show "sound x (op_from_dyn_i64 x ins)" "sound x (op_from_dyn_f64 x ins)"
    if "jello_slot_size (x_kinds x ! unat (i_a ins)) = 8"
    unfolding op_from_dyn_i64_def op_from_dyn_f64_def
    by (rule load; auto simp: s(2) 8 [OF that] load_store_defs split: option.split heap_obj.split intro!: box)+
qed

text \<open>Handlers that box a register and go on with the value.\<close>

lemma sound_boxing:
  assumes m: "mach S x" and al: "allocator_ok malloc" and r: "reg_in x r" and c: "same_code y x"
    and g: "\<And>x' v T. boxed_val S x x' v \<Longrightarrow> mach T x' \<Longrightarrow> val_ok T v \<Longrightarrow> sound y (g (x', v))"
  shows "sound y (rbind (vm_box_from_typed malloc x (x_f x) (x_rf x) r) g)"
proof -
  have "x_fr x \<in> set (x_below x @ [x_fr x])" by simp
  from box_from_typed_ok [OF m al this reg_in_types [OF m r]] show ?thesis
  proof
    assume "\<exists>x' v. vm_box_from_typed malloc x (x_f x) (x_rf x) r = Inr (x', v) \<and> boxed_val S x x' v"
    then obtain x' v where b: "vm_box_from_typed malloc x (x_f x) (x_rf x) r = Inr (x', v)" "boxed_val S x x' v" by blast
    obtain T where "mach T x'" "val_ok T v" by (rule boxed_val_mach [OF b(2) m])
    then show ?thesis using g [OF b(2)] b(1) by simp
  qed simp
qed

lemma sound_to_dyn:
  assumes "mach S x" "allocator_ok malloc" "reg_in x (unat (i_a ins))" "reg_in x (unat (i_b ins))"
    and "x_kinds x ! unat (i_a ins) = JELLO_T_DYNAMIC"
  shows "sound x (op_to_dyn malloc x ins)"
  unfolding op_to_dyn_def
proof (rule sound_boxing [OF assms(1,2,4) same_code_refl])
  fix x' v T assume b: "boxed_val S x x' v" "mach T x'" "val_ok T v"
  note same = boxed_val_same [OF b(1)]
  have "sound x (continue_with x' (vm_store_i64 (x_rf x') (unat (i_a ins)) v))"
    by (rule sound_store_i64(1) [OF b(2) same(4)])
      (use assms(3,5) b(3) same in \<open>simp_all add: wide_in_def reg_in_def reg_ok_def jello_slot_size_def\<close>)
  then show "sound x (case (x', v) of (x, v) \<Rightarrow> continue_with x (vm_store_val (x_rf x) (unat (i_a ins)) v))"
    by (simp add: load_store_defs)
qed

lemma sound_physeq:
  assumes "mach S x" "allocator_ok malloc" "reg_in x (unat (i_a ins))" "reg_in x (unat (i_b ins))" "reg_in x (unat (i_c ins))"
    and "x_kinds x ! unat (i_a ins) = JELLO_T_BOOL"
  shows "sound x (op_physeq malloc x ins)"
  unfolding op_physeq_def
proof (rule sound_boxing [OF assms(1,2,4) same_code_refl], simp only: prod.case)
  fix x1 v1 T1 assume b1: "boxed_val S x x1 v1" "mach T1 x1"
  note s1 = boxed_val_same [OF b1(1)]
  have c1: "reg_in x1 (unat (i_c ins))" using assms(5) s1 by (simp add: reg_in_def)
  show "sound x (rbind (vm_box_from_typed malloc x1 (x_f x1) (x_rf x1) (unat (i_c ins)))
      (\<lambda>(x, vc). continue_with x (vm_store_u32 (x_rf x) (unat (i_a ins)) (bool_u32 (v1 = vc)))))"
  proof (rule sound_boxing [OF b1(2) assms(2) c1 s1(4)], simp only: prod.case)
    fix x2 v2 T2 assume b2: "boxed_val T1 x1 x2 v2" "mach T2 x2"
    note s2 = boxed_val_same [OF b2(1)]
    show "sound x (continue_with x2 (vm_store_u32 (x_rf x2) (unat (i_a ins)) (bool_u32 (v1 = v2))))"
      by (rule sound_store_u32(1) [OF b2(2) same_code_trans [OF s1(4) s2(4)]])
        (use assms(3,6) s1 s2 in \<open>simp_all add: reg_in_def is_pointer_or_dynamic_def\<close>)
  qed
qed

lemma mach_spill:
  assumes "mach S x" "set vs \<subseteq> set (spill (x_vm x)) \<union> {v. val_ok S v}"
  shows "mach S (x\<lparr>x_vm := (x_vm x)\<lparr>spill := vs\<rparr>\<rparr>)"
proof (rule mach_set_roots [OF assms(1)])
  have "\<forall>v\<in>set vs. val_ok S v" using assms by (auto simp: mach_def roots_ok_def)
  then show "roots_ok S (gc_view (x\<lparr>x_vm := (x_vm x)\<lparr>spill := vs\<rparr>\<rparr>))" using assms(1)
    by (auto simp: mach_def roots_ok_def)
qed simp_all

lemma sound_spill_push:
  assumes "mach S x" "allocator_ok malloc" "reg_in x (unat (i_a ins))"
  shows "sound x (op_spill_push malloc x ins)"
  unfolding op_spill_push_def
proof (rule sound_boxing [OF assms same_code_refl], simp only: prod.case)
  fix x' v T assume b: "boxed_val S x x' v" "mach T x'" "val_ok T v"
  have "mach T (vm_spill_push x' v)" unfolding vm_spill_push_def by (rule mach_spill [OF b(2)]) (use b(3) in auto)
  then show "sound x (Inr (OP_CONTINUE, vm_spill_push x' v))"
    by (rule sound_Inr) (simp add: vm_spill_push_def boxed_val_same(4) [OF b(1)])
qed

lemma sound_spill_pop:
  assumes "mach S x" "allocator_ok malloc" "reg_in x (unat (i_a ins))"
    and "spill (x_vm x) \<noteq> [] \<Longrightarrow> int_cast_ok x (unat (i_a ins)) (last (spill (x_vm x)))"
  shows "sound x (op_spill_pop fp malloc x ins)"
proof (cases "spill (x_vm x) = []")
  case False
  let ?x = "x\<lparr>x_vm := (x_vm x)\<lparr>spill := butlast (spill (x_vm x))\<rparr>\<rparr>" and ?v = "last (spill (x_vm x))"
  have m: "mach S ?x" by (rule mach_spill [OF assms(1)]) (auto dest: in_set_butlastD)
  have v: "val_ok S ?v" using assms(1) False by (simp add: mach_def roots_ok_def)
  have i: "int_cast_ok ?x (unat (i_a ins)) ?v" using assms(4) [OF False] by (simp add: int_cast_ok_def obj_of_def)
  have "sound_ctx ?x (vm_store_from_boxed fp malloc ?x (unat (i_a ins)) ?v)"
    by (rule store_from_boxed_ok [OF m assms(2) _ v i]) (use assms(3) in \<open>simp add: reg_in_def\<close>)
  then have "sound_ctx x (vm_store_from_boxed fp malloc ?x (unat (i_a ins)) ?v)"
    by (auto simp: sound_ctx_def same_code_def split: sum.splits)
  then show ?thesis using False by (simp add: op_spill_pop_def vm_spill_pop_def sound_and_continue)
qed (simp add: op_spill_pop_def vm_spill_pop_def)

lemma sound_from_dyn_ptr:
  assumes m: "mach S x" and a: "reg_in x (unat (i_a ins))" and b: "reg_in x (unat (i_b ins))"
    and kb: "x_kinds x ! unat (i_b ins) = JELLO_T_DYNAMIC" and ka: "is_pointer_kind (x_kinds x ! unat (i_a ins))"
  shows "sound x (op_from_dyn_ptr x ins)"
  unfolding op_from_dyn_ptr_def
proof (rule sound_load_dyn [OF m b kb])
  fix v assume v: "val_ok S v"
  have "sound x (continue_with x (vm_store_i64 (x_rf x) (unat (i_a ins)) p))" if "ptr_ok S p" for p
    by (rule sound_store_i64(1) [OF m same_code_refl])
      (use a ka that in \<open>auto simp: wide_in_def reg_ok_def is_pointer_kind_def pointer_kind_slot jello_slot_size_def\<close>)
  moreover obtain ob where "jello_is_ptr v \<Longrightarrow> obj_of x (jello_as_ptr v) = Inr ob"
    using obj_of_live [OF m, of "jello_as_ptr v"] v by (auto simp: val_ok_def)
  moreover have "jello_is_ptr v \<Longrightarrow> ptr_ok S (jello_as_ptr v)" using v by (simp add: val_ok_def ptr_ok_def)
  ultimately show "sound x (rbind (vm_reg_kind (x_m x) (x_f x) (unat (i_a ins))) (\<lambda>dk.
       let want = vm_expected_obj_kind_for_typed_ptr dk in
       if want = 0 then trap_continue x JELLO_TRAP_TYPE_MISMATCH ''from_dyn_ptr dst not pointer-kind''
       else if jello_is_null v then continue_with x (vm_store_ptr (x_rf x) (unat (i_a ins)) 0)
       else if \<not> jello_is_ptr v then trap_continue x JELLO_TRAP_TYPE_MISMATCH ''from_dyn_ptr type mismatch''
       else
         rbind (obj_of x (jello_as_ptr v)) (\<lambda>ob.
           if obj_kind ob \<noteq> want then trap_continue x JELLO_TRAP_TYPE_MISMATCH ''from_dyn_ptr kind mismatch''
           else continue_with x (vm_store_ptr (x_rf x) (unat (i_a ins)) (jello_as_ptr v)))))"
    using top_reg_run(1) [OF m a] sound_trap [OF m same_code_refl] by (simp add: Let_def load_store_defs)
qed

lemma sound_kindof:
  assumes m: "mach S x" and a: "reg_in x (unat (i_a ins))" and b: "reg_in x (unat (i_b ins))"
    and kb: "x_kinds x ! unat (i_b ins) = JELLO_T_DYNAMIC" and ka: "\<not> is_pointer_or_dynamic (x_kinds x ! unat (i_a ins))"
  shows "sound x (op_kindof x ins)"
  unfolding op_kindof_def
proof (rule sound_load_dyn [OF m b kb])
  fix v assume v: "val_ok S v"
  obtain ob where "jello_is_ptr v \<Longrightarrow> obj_of x (jello_as_ptr v) = Inr ob"
    using obj_of_live [OF m, of "jello_as_ptr v"] v by (auto simp: val_ok_def)
  then have "\<exists>k. vm_kindof_dynamic x v = Inr k" by (cases "jello_is_ptr v") (simp_all add: vm_kindof_dynamic_def)
  then obtain k where "vm_kindof_dynamic x v = Inr k" ..
  then show "sound x (rbind (vm_kindof_dynamic x v) (\<lambda>k. continue_with x (vm_store_u32 (x_rf x) (unat (i_a ins)) k)))"
    using sound_store_u32(1) [OF m same_code_refl a ka] by simp
qed

section \<open>Steps on live machines\<close>

definition holds_kind :: "exec_ctx \<Rightarrow> nat \<Rightarrow> bool" where
  "holds_kind x r \<longleftrightarrow> rg64 x r = 0 \<or>
     (\<exists>ob. obj_of x (rg64 x r) = Inr ob \<and> obj_kind ob = vm_expected_obj_kind_for_typed_ptr (x_kinds x ! r))"

text \<open>Every register of a pointer kind is null or refers to an object of that kind.\<close>

definition well_typed :: "exec_ctx \<Rightarrow> bool" where
  "well_typed x \<longleftrightarrow> (\<forall>r. reg_in x r \<longrightarrow> is_pointer_kind (x_kinds x ! r) \<longrightarrow> holds_kind x r)"

text \<open>The casts from boxed doubles to the integer register \<open>dst\<close> are defined.\<close>

definition casts_ok :: "exec_ctx \<Rightarrow> nat \<Rightarrow> bool" where
  "casts_ok x dst \<longleftrightarrow> (\<forall>p\<in>live (gc_view x). \<forall>t d. obj_of x p = Inr (OBoxF64 t d) \<longrightarrow>
     (x_kinds x ! dst \<in> {JELLO_T_I8, JELLO_T_I16, JELLO_T_I32} \<longrightarrow> (c_int_cast (dec64 d) :: u32 run) \<noteq> Inl FAULT) \<and>
     (x_kinds x ! dst = JELLO_T_I64 \<longrightarrow> (c_int_cast (dec64 d) :: u64 run) \<noteq> Inl FAULT))"

lemma casts_ok_int: "casts_ok x dst \<Longrightarrow> val_ok (live (gc_view x)) v \<Longrightarrow> int_cast_ok x dst v"
  unfolding casts_ok_def int_cast_ok_def val_ok_def by blast

text \<open>From \<open>x\<close> to \<open>x'\<close> objects were allocated: frames and live objects are the same, and \<open>T\<close> are the blocks in use.\<close>

definition grown_to :: "exec_ctx \<Rightarrow> exec_ctx \<Rightarrow> addr set \<Rightarrow> bool" where
  "grown_to x x' T \<longleftrightarrow> mach T x' \<and> x_m x' = x_m x \<and> x_fr x' = x_fr x \<and> x_below x' = x_below x \<and>
     gc_roots (x_vm x') = gc_roots (x_vm x) \<and> live (gc_view x) \<subseteq> T \<and> (\<forall>p\<in>live (gc_view x). obj_of x' p = obj_of x p)"

lemma grown_refl: "mach_ok x \<Longrightarrow> grown_to x x (live (gc_view x))"
  by (simp add: grown_to_def mach_ok_def)

lemma grown_code: "grown_to x x' T \<Longrightarrow> same_code x x'"
  by (simp add: grown_to_def same_code_def)

lemma grown_regs:
  assumes "grown_to x x' T"
  shows "reg_in x' = reg_in x" "wide_in x' = wide_in x" "x_kinds x' = x_kinds x" "x_rf x' = x_rf x" "x_f x' = x_f x"
  using assms by (simp_all add: grown_to_def reg_in_def wide_in_def fun_eq_iff)

lemma new_object_grown:
  assumes "new_object x ob x' a"
  shows "grown_to x x' (insert a (live (gc_view x)))"
  using assms new_objectD [OF assms] unfolding grown_to_def by (auto simp: new_object_def obj_of_def same_fields_def)

lemma boxed_grown:
  assumes "mach_ok x" "boxed_val (live (gc_view x)) x x' v"
  obtains T where "grown_to x x' T" "val_ok T v"
  using assms(2) unfolding boxed_val_def
proof
  assume "x' = x \<and> val_ok (live (gc_view x)) v"
  then show thesis using that grown_refl [OF assms(1)] by blast
next
  assume "\<exists>ob. new_object x ob x' v \<and> is_numbox ob"
  then obtain ob where n: "new_object x ob x' v" by blast
  show thesis by (rule that [OF new_object_grown [OF n]]) (simp add: val_ok_def jello_as_ptr_def)
qed

text \<open>Operands in registers are live.\<close>

lemma live_ptr_reg:
  assumes "mach_ok x" "reg_in x r" "is_pointer_kind (x_kinds x ! r)"
  shows "ptr_ok (live (gc_view x)) (rg64 x r)"
  by (rule ptr_reg_ok) (use assms in \<open>simp_all add: mach_ok_def\<close>)

lemma live_dyn_reg:
  assumes "mach_ok x" "reg_in x r" "x_kinds x ! r = JELLO_T_DYNAMIC"
  shows "val_ok (live (gc_view x)) (rg64 x r)"
  by (rule dyn_reg_ok) (use assms in \<open>simp_all add: mach_ok_def\<close>)

lemma load_ptr_run:
  assumes "mach_ok x" "reg_in x r" "is_pointer_kind (x_kinds x ! r)"
  shows "vm_load_ptr (x_rf x) r = Inr (rg64 x r)"
  using top_reg_run(3) [of _ x r] assms pointer_kind_slot by (simp add: load_store_defs mach_ok_def)

lemma sound_new:
  assumes "mach_ok x" "allocator_ok malloc" "obj_ok (live (gc_view x)) ob"
    and "\<And>x' a. new_object x ob x' a \<Longrightarrow> sound y (g (x', a))"
  shows "sound y (rbind (x_new x (\<lambda>vm. new_obj malloc vm n ob)) g)"
  using x_new_ok [OF assms(1) [unfolded mach_ok_def] assms(2,3), of n] assms(4) by auto

text \<open>Stores of pointers and of new objects.\<close>

lemma sound_store_ptr:
  assumes "mach S x'" "same_code x x'" "reg_in x' r" "is_pointer_kind (x_kinds x' ! r)" "ptr_ok S p"
  shows "sound x (continue_with x' (vm_store_ptr (x_rf x') r p))"
proof -
  have "reg_ok S (x_kinds x' ! r, p)" using assms(4,5) by (auto simp: reg_ok_def is_pointer_kind_def)
  then show ?thesis unfolding vm_store_ptr_def
    by (intro sound_store_i64(1) [OF assms(1,2)]) (use assms pointer_kind_slot in \<open>auto simp: wide_in_def\<close>)
qed

lemma store_ptr_run:
  assumes "mach S x" "reg_in x r" "is_pointer_kind (x_kinds x ! r)" "ptr_ok S p"
  obtains rf where "vm_store_ptr (x_rf x) r p = Inr rf" "mach S (set_rf x rf)"
proof -
  have "reg_ok S (x_kinds x ! r, p)" using assms(3,4) by (auto simp: reg_ok_def is_pointer_kind_def)
  moreover have "wide_in x r" using assms pointer_kind_slot by (auto simp: wide_in_def)
  ultimately show thesis using that store_i64_mach [OF assms(1)] unfolding vm_store_ptr_def by metis
qed

lemma sound_store_new:
  assumes "new_object x ob x' a" "reg_in x r" "is_pointer_kind (x_kinds x ! r)"
  shows "sound x (continue_with x' (vm_store_ptr (x_rf x') r a))"
  using new_object_grown [OF assms(1)] assms(2,3)
  by (intro sound_store_ptr [of "insert a (live (gc_view x))"])
    (auto simp: grown_to_def same_code_def reg_in_def ptr_ok_def)

lemma sound_from_boxed:
  assumes "mach_ok x" "allocator_ok malloc" "reg_in x dst" "casts_ok x dst" "val_ok (live (gc_view x)) v"
  shows "sound x (and_continue (vm_store_from_boxed fp malloc x dst v))"
  using assms store_from_boxed_ok [OF _ assms(2,3,5) casts_ok_int [OF assms(4,5)]]
  by (intro sound_and_continue) (simp add: mach_ok_def)

lemma obj_kind_cases:
  "obj_kind ob = 1 \<Longrightarrow> \<exists>t bs. ob = OBytes t bs" "obj_kind ob = 3 \<Longrightarrow> \<exists>t h tl. ob = OList t h tl"
  "obj_kind ob = 4 \<Longrightarrow> \<exists>t vs. ob = OArray t vs" "obj_kind ob = 11 \<Longrightarrow> \<exists>t g vs. ob = OEnum t g vs"
  "obj_kind ob = 5 \<Longrightarrow> \<exists>o'. ob = OObject o'"
  by (cases ob; simp)+

abbreviation ra :: "jello_insn \<Rightarrow> nat" where "ra ins \<equiv> unat (i_a ins)"
abbreviation rb :: "jello_insn \<Rightarrow> nat" where "rb ins \<equiv> unat (i_b ins)"
abbreviation rc :: "jello_insn \<Rightarrow> nat" where "rc ins \<equiv> unat (i_c ins)"

lemma sound_u32_result:
  assumes "mach_ok x" "reg_in x r" "\<not> is_pointer_or_dynamic (x_kinds x ! r)"
  shows "sound x (continue_with x (vm_store_u32 (x_rf x) r v))"
  by (rule sound_store_u32(1) [OF assms(1) [unfolded mach_ok_def] same_code_refl assms(2,3)])

lemma sound_trap_here: "mach_ok x \<Longrightarrow> sound x (trap_continue x code msg)"
  by (rule sound_trap [OF _ same_code_refl]) (simp add: mach_ok_def)

lemma sound_put:
  assumes "mach_ok x" "p \<in> live (gc_view x)" "obj_ok (live (gc_view x)) ob"
  shows "sound x (Inr (OP_CONTINUE, x_put x p ob))"
  by (rule sound_Inr [OF mach_x_put [OF assms(1) [unfolded mach_ok_def] assms(2,3)]]) simp

lemma load_u32_run: "mach_ok x \<Longrightarrow> reg_in x r \<Longrightarrow> vm_load_u32 (x_rf x) r = Inr (rg32 x r)"
  by (rule top_reg_run(2)) (simp_all add: mach_ok_def)

lemma obj_of_put_other: "p \<noteq> a \<Longrightarrow> obj_of (x_put x a ob) p = obj_of x p"
  by (simp add: obj_of_def x_put_def)

lemma x_put_simps [simp]:
  "x_m (x_put x a ob) = x_m x" "x_fr (x_put x a ob) = x_fr x" "x_below (x_put x a ob) = x_below x"
  "gc_roots (x_vm (x_put x a ob)) = gc_roots (x_vm x)"
  by (simp_all add: x_put_def put_obj_def)

lemma mach_ok_collect: "mach_ok x \<Longrightarrow> jello_gc_collect (gc_view x) \<noteq> None"
  using collect_ok [of "gc_view x"] by (auto simp: mach_ok_def mach_def)

lemma map_of_cases: "map_of ((k, v) # xs) i = Some h \<Longrightarrow> (i = k \<Longrightarrow> h = v \<Longrightarrow> P) \<Longrightarrow> (map_of xs i = Some h \<Longrightarrow> P) \<Longrightarrow> P"
  by (cases "i = k") auto

lemma accepted_regs:
  assumes "mach_ok x"
  shows "oor (f_nregs (x_f x)) r \<longleftrightarrow> \<not> reg_in x (unat r)"
    and "reg_in x (unat r) \<Longrightarrow> rk (x_m x) (f_reg_types (x_f x)) r = x_kinds x ! unat r"
  using accepted_reg(2) [OF assms [unfolded mach_ok_def], of r] not_oor [of x r] has_reg_in by blast+

section \<open>All boxing opcodes\<close>

text \<open>The pool of byte constants as the loader leaves it, and caches of the right sizes.\<close>

definition const_pools_ok :: "exec_ctx \<Rightarrow> bool" where
  "const_pools_ok x \<longleftrightarrow>
     length (const_bytes_cache (x_vm x)) = length (m_const_bytes_len (x_m x)) \<and>
     length (m_const_bytes_off (x_m x)) = length (m_const_bytes_len (x_m x)) \<and>
     (\<forall>i<length (m_const_bytes_len (x_m x)).
        unat (m_const_bytes_off (x_m x) ! i) + unat (m_const_bytes_len (x_m x) ! i) \<le> length (m_const_bytes_data (x_m x)))"

lemma mach_const_caches:
  assumes "mach S x" "ptr_ok S p"
  shows "mach S (x\<lparr>x_vm := (x_vm x)\<lparr>const_bytes_cache := (const_bytes_cache (x_vm x))[i := p]\<rparr>\<rparr>)"
    and "mach S (x\<lparr>x_vm := (x_vm x)\<lparr>const_fun_cache := (const_fun_cache (x_vm x))[i := p]\<rparr>\<rparr>)"
  by (rule mach_set_roots [OF assms(1)];
      use assms set_update_subset_insert [of "const_bytes_cache (x_vm x)" i p] set_update_subset_insert [of "const_fun_cache (x_vm x)" i p]
      in \<open>auto simp: mach_def roots_ok_def\<close>)+

lemma cached_ok:
  assumes "mach_ok x"
  shows "i < length (const_bytes_cache (x_vm x)) \<Longrightarrow> ptr_ok (live (gc_view x)) (const_bytes_cache (x_vm x) ! i)"
    and "i < length (const_fun_cache (x_vm x)) \<Longrightarrow> ptr_ok (live (gc_view x)) (const_fun_cache (x_vm x) ! i)"
  using assms by (auto simp: mach_ok_def mach_def roots_ok_def)

lemma sound_const_bytes:
  assumes m: "mach_ok x" and al: "allocator_ok malloc" and r: "reg_in x (ra ins)" and k: "x_kinds x ! ra ins = JELLO_T_BYTES"
    and c: "const_pools_ok x"
  shows "sound x (op_const_bytes malloc x ins)"
proof -
  let ?i = "unat (i_imm ins)" and ?cache = "const_bytes_cache (x_vm x)" and ?t = "f_reg_types (x_f x) ! ra ins"
  have kp: "is_pointer_kind (x_kinds x ! ra ins)" by (simp add: k is_pointer_kind_def)
  consider "length ?cache \<le> ?i" | "?i < length ?cache" "?cache ! ?i \<noteq> 0" | "?i < length ?cache" "?cache ! ?i = 0" by linarith
  then show ?thesis
  proof cases
    case 2
    then show ?thesis using sound_store_ptr [OF m [unfolded mach_ok_def] same_code_refl r kp cached_ok(1) [OF m]]
      by (simp add: op_const_bytes_def)
  next
    case 3
    let ?len = "m_const_bytes_len (x_m x) ! ?i" and ?off = "m_const_bytes_off (x_m x) ! ?i"
    let ?bs = "mem_read (m_const_bytes_data (x_m x)) (unat ?off) (unat ?len)"
    have p: "?i < length (m_const_bytes_len (x_m x))" "?i < length (m_const_bytes_off (x_m x))"
      "\<not> length (m_const_bytes_data (x_m x)) < unat ?off + unat ?len" using c 3(1) by (auto simp: const_pools_ok_def not_less)
    have "sound x (rbind (x_new x (\<lambda>vm. new_obj malloc vm (12 + ucast ?len) (OBytes ?t (replicate (unat ?len) 0)))) (\<lambda>(x, b).
        let x = x_put x b (OBytes ?t ?bs);
            x = x\<lparr>x_vm := (x_vm x)\<lparr>const_bytes_cache := (const_bytes_cache (x_vm x))[?i := b]\<rparr>\<rparr> in
        continue_with x (vm_store_ptr (x_rf x) (ra ins) b)))"
    proof (rule sound_new [OF m al], simp_all only: prod.case Let_def)
      fix x1 b assume n: "new_object x (OBytes ?t (replicate (unat ?len) 0)) x1 b"
      note d = new_objectD [OF n]
      let ?x2 = "x_put x1 b (OBytes ?t ?bs)"
      let ?x3 = "?x2\<lparr>x_vm := (x_vm ?x2)\<lparr>const_bytes_cache := (const_bytes_cache (x_vm ?x2))[?i := b]\<rparr>\<rparr>"
      have "mach (insert b (live (gc_view x))) ?x3"
        by (rule mach_const_caches(1) [OF mach_x_put [OF d(5)]]) (simp_all add: obj_ok_def ptr_ok_def)
      then show "sound x (continue_with ?x3 (vm_store_ptr (x_rf ?x3) (ra ins) b))"
        by (rule sound_store_ptr) (use d r kp in \<open>simp_all add: same_code_def reg_in_def ptr_ok_def\<close>)
    qed (simp add: obj_ok_def)
    then show ?thesis using 3 p by (simp add: op_const_bytes_def pool_at_def jello_bytes_new_def Let_def)
  qed (simp add: op_const_bytes_def Let_def sound_trap_here [OF m])
qed

lemma sound_const_fun:
  assumes m: "mach_ok x" and al: "allocator_ok malloc" and r: "reg_in x (ra ins)" and k: "x_kinds x ! ra ins = JELLO_T_FUNCTION"
  shows "sound x (op_const_fun malloc x ins)"
proof -
  let ?i = "unat (i_imm ins)" and ?cache = "const_fun_cache (x_vm x)" and ?t = "f_reg_types (x_f x) ! ra ins"
  have kp: "is_pointer_kind (x_kinds x ! ra ins)" by (simp add: k is_pointer_kind_def)
  consider "length ?cache \<le> ?i" | "?i < length ?cache" "?cache ! ?i \<noteq> 0" | "?i < length ?cache" "?cache ! ?i = 0" by linarith
  then show ?thesis
  proof cases
    case 2
    then show ?thesis using sound_store_ptr [OF m [unfolded mach_ok_def] same_code_refl r kp cached_ok(2) [OF m]]
      by (simp add: op_const_fun_def)
  next
    case 3
    have "sound x (rbind (x_new x (\<lambda>vm. new_obj malloc vm 32 (OFunction ?t (i_imm ins) jello_make_null []))) (\<lambda>(x, f).
        let x = x\<lparr>x_vm := (x_vm x)\<lparr>const_fun_cache := (const_fun_cache (x_vm x))[?i := f]\<rparr>\<rparr> in
        continue_with x (vm_store_ptr (x_rf x) (ra ins) f)))"
    proof (rule sound_new [OF m al], simp_all only: prod.case Let_def)
      fix x1 f assume n: "new_object x (OFunction ?t (i_imm ins) jello_make_null []) x1 f"
      note d = new_objectD [OF n]
      let ?x2 = "x1\<lparr>x_vm := (x_vm x1)\<lparr>const_fun_cache := (const_fun_cache (x_vm x1))[?i := f]\<rparr>\<rparr>"
      have "mach (insert f (live (gc_view x))) ?x2"
        by (rule mach_const_caches(2) [OF d(5)]) (simp add: ptr_ok_def)
      then show "sound x (continue_with ?x2 (vm_store_ptr (x_rf ?x2) (ra ins) f))"
        by (rule sound_store_ptr) (use d r kp in \<open>simp_all add: same_code_def reg_in_def ptr_ok_def\<close>)
    qed (simp add: obj_ok_def)
    then show ?thesis using 3 by (simp add: op_const_fun_def jello_function_new_def Let_def)
  qed (simp add: op_const_fun_def Let_def)
qed

lemma accepted_box:
  assumes "mach_ok x" "accepted x ins pc"
  shows "i_opc ins = JOP_CONST_BYTES \<Longrightarrow> reg_in x (ra ins) \<and> x_kinds x ! ra ins = JELLO_T_BYTES"
    and "i_opc ins = JOP_CONST_FUN \<Longrightarrow> reg_in x (ra ins) \<and> x_kinds x ! ra ins = JELLO_T_FUNCTION"
    and "i_opc ins = JOP_TO_DYN \<Longrightarrow> reg_in x (ra ins) \<and> reg_in x (rb ins) \<and> x_kinds x ! ra ins = JELLO_T_DYNAMIC"
    and "i_opc ins = JOP_FROM_DYN_PTR \<Longrightarrow> reg_in x (ra ins) \<and> reg_in x (rb ins) \<and> x_kinds x ! rb ins = JELLO_T_DYNAMIC \<and>
      is_pointer_kind (x_kinds x ! ra ins)"
    and "i_opc ins = JOP_SPILL_PUSH \<Longrightarrow> reg_in x (ra ins)" and "i_opc ins = JOP_SPILL_POP \<Longrightarrow> reg_in x (ra ins)"
    and "i_opc ins = JOP_PHYSEQ \<Longrightarrow> reg_in x (ra ins) \<and> reg_in x (rb ins) \<and> reg_in x (rc ins) \<and> x_kinds x ! ra ins = JELLO_T_BOOL"
    and "i_opc ins = JOP_KINDOF \<Longrightarrow> reg_in x (ra ins) \<and> reg_in x (rb ins) \<and> x_kinds x ! rb ins = JELLO_T_DYNAMIC \<and>
      x_kinds x ! ra ins = JELLO_T_I32"
  using assms(2) accepted_regs(2) [OF assms(1)]
  by (simp_all add: accepted_def validate_defs Let_def accepted_regs(1) [OF assms(1)] is_pointer_kind_def del: oor_iff cong: conj_cong)

definition from_dyn_ops :: "nat set" where
  "from_dyn_ops = {JOP_FROM_DYN_I8, JOP_FROM_DYN_I16, JOP_FROM_DYN_I32, JOP_FROM_DYN_F16, JOP_FROM_DYN_F32,
     JOP_FROM_DYN_BOOL, JOP_FROM_DYN_ATOM, JOP_FROM_DYN_I64, JOP_FROM_DYN_F64}"

lemma accepted_from_dyn:
  assumes "mach_ok x" "accepted x ins pc" "i_opc ins \<in> from_dyn_ops"
  shows "reg_in x (ra ins) \<and> reg_in x (rb ins) \<and> x_kinds x ! rb ins = JELLO_T_DYNAMIC \<and>
      \<not> is_pointer_or_dynamic (x_kinds x ! ra ins) \<and>
      (i_opc ins = JOP_FROM_DYN_I64 \<longrightarrow> jello_slot_size (x_kinds x ! ra ins) = 8) \<and>
      (i_opc ins = JOP_FROM_DYN_F64 \<longrightarrow> jello_slot_size (x_kinds x ! ra ins) = 8)"
  using assms(3) unfolding from_dyn_ops_def
  by (elim insertE emptyE; use assms(2) accepted_regs(2) [OF assms(1)] in
      \<open>simp add: accepted_def validate_defs Let_def accepted_regs(1) [OF assms(1)] is_pointer_or_dynamic_def jello_slot_size_def
        del: oor_iff cong: conj_cong\<close>)


section \<open>Types of registers\<close>

lemma set_rf_machine [simp]:
  "x_m (set_rf x rf) = x_m x" "x_vm (set_rf x rf) = x_vm x" "x_f (set_rf x rf) = x_f x" "x_rf (set_rf x rf) = rf"
  "reg_in (set_rf x rf) = reg_in x" "obj_of (set_rf x rf) = obj_of x"
  by (simp_all add: set_rf_def reg_in_def obj_of_def fun_eq_iff)

text \<open>A pointer store of an object of the right kind keeps the registers well typed.\<close>

lemma store_ptr_typed:
  assumes m: "mach_ok x" and t: "well_typed x" and r: "reg_in x r" "is_pointer_kind (x_kinds x ! r)"
    and p: "p = 0 \<or> p \<in> live (gc_view x) \<and> (\<exists>ob. obj_of x p = Inr ob \<and> obj_kind ob = vm_expected_obj_kind_for_typed_ptr (x_kinds x ! r))"
  obtains rf where "vm_store_ptr (x_rf x) r p = Inr rf" "rg64 (set_rf x rf) r = p" "only_changes (x_kinds x) r (x_rf x) rf"
    "well_typed (set_rf x rf)"
proof -
  have "ptr_ok (live (gc_view x)) p" using p unfolding ptr_ok_def by blast
  then have "reg_ok (live (gc_view x)) (x_kinds x ! r, p)" using r(2) by (auto simp: reg_ok_def is_pointer_kind_def)
  moreover have "wide_in x r" using r pointer_kind_slot by (simp add: wide_in_def)
  ultimately obtain rf where rf: "vm_store_i64 (x_rf x) r p = Inr rf" "only_changes (x_kinds x) r (x_rf x) rf" "reg_u64 (x_kinds x) rf r = p"
    using store_i64_mach [OF m [unfolded mach_ok_def], of r p] by metis
  have "holds_kind (set_rf x rf) q" if q: "reg_in x q" "is_pointer_kind (x_kinds x ! q)" for q
  proof (cases "q = r")
    case True
    then show ?thesis using p rf(3) by (auto simp: holds_kind_def)
  next
    case False
    have "q < length (x_kinds x)" using q(1) reg_in_types [OF m [unfolded mach_ok_def]] by (simp add: fun_kinds_def)
    then have "reg_u64 (x_kinds x) rf q = rg64 x q" using rf(2) False by (simp add: only_changes_def reg_u64_def)
    moreover have "holds_kind x q" using t q by (simp add: well_typed_def)
    ultimately show ?thesis by (simp add: holds_kind_def)
  qed
  then have "well_typed (set_rf x rf)" by (simp add: well_typed_def)
  then show thesis using that rf by (simp add: vm_store_ptr_def)
qed

lemma well_typed_trap [simp]: "well_typed (jello_vm_trap x c s) = well_typed x"
  by (simp add: well_typed_def holds_kind_def jello_vm_trap_def reg_in_def obj_of_def)

text \<open>C23: \<open>FROM_DYN_PTR\<close> is a checked cast. On an accepted instruction it keeps every pointer register at null or at an
  object of its kind: a null or an object of the kind that the destination expects is stored, anything else is a type
  trap that leaves all registers alone.\<close>

theorem from_dyn_ptr_is_checked:
  assumes m: "mach_ok x" and t: "well_typed x" and a: "accepted x ins pc" "i_opc ins = JOP_FROM_DYN_PTR"
  shows "\<exists>x'. op_from_dyn_ptr x ins = Inr (OP_CONTINUE, x') \<and> well_typed x' \<and>
    (x_exc_pending x' = x_exc_pending x \<and>
       rg64 x' (ra ins) = (if jello_is_null (rg64 x (rb ins)) then 0 else jello_as_ptr (rg64 x (rb ins))) \<or>
     x_trap_code x' = JELLO_TRAP_TYPE_MISMATCH \<and> x_fr x' = x_fr x)"
    (is "\<exists>x'. ?post x'")
proof -
  note acc = accepted_box(4) [OF m a]
  let ?v = "rg64 x (rb ins)" and ?k = "vm_expected_obj_kind_for_typed_ptr (x_kinds x ! ra ins)"
  have ra: "reg_in x (ra ins)" "is_pointer_kind (x_kinds x ! ra ins)" and kb: "reg_in x (rb ins)" "x_kinds x ! rb ins = JELLO_T_DYNAMIC"
    using acc by auto
  have v: "val_ok (live (gc_view x)) ?v" by (rule live_dyn_reg [OF m kb])
  have k0: "?k \<noteq> 0" using ra(2) by (cases "x_kinds x ! ra ins") (simp_all add: is_pointer_kind_def)
  have run: "op_from_dyn_ptr x ins =
      (if jello_is_null ?v then continue_with x (vm_store_ptr (x_rf x) (ra ins) 0)
       else if \<not> jello_is_ptr ?v then trap_continue x JELLO_TRAP_TYPE_MISMATCH ''from_dyn_ptr type mismatch''
       else rbind (obj_of x (jello_as_ptr ?v)) (\<lambda>ob.
         if obj_kind ob \<noteq> ?k then trap_continue x JELLO_TRAP_TYPE_MISMATCH ''from_dyn_ptr kind mismatch''
         else continue_with x (vm_store_ptr (x_rf x) (ra ins) (jello_as_ptr ?v))))"
    using top_reg_run [OF m [unfolded mach_ok_def]] ra(1) kb k0
    by (simp add: op_from_dyn_ptr_def vm_load_val_def jello_slot_size_def Let_def)
  have store: "\<exists>x'. ?post x'"
    if h: "op_from_dyn_ptr x ins = continue_with x (vm_store_ptr (x_rf x) (ra ins) p)"
      "p = 0 \<or> p \<in> live (gc_view x) \<and> (\<exists>ob. obj_of x p = Inr ob \<and> obj_kind ob = ?k)"
      "p = (if jello_is_null ?v then 0 else jello_as_ptr ?v)" for p
  proof -
    obtain rf where "vm_store_ptr (x_rf x) (ra ins) p = Inr rf" "rg64 (set_rf x rf) (ra ins) = p" "well_typed (set_rf x rf)"
      by (rule store_ptr_typed [OF m t ra h(2)])
    then have "?post (set_rf x rf)" using h(1,3) by (simp add: continue_with_def set_rf_def)
    then show ?thesis ..
  qed
  have trap: "\<exists>x'. ?post x'" if "op_from_dyn_ptr x ins = trap_continue x JELLO_TRAP_TYPE_MISMATCH msg" for msg
  proof -
    have "x_trap_code (jello_vm_trap x JELLO_TRAP_TYPE_MISMATCH (Some msg)) = JELLO_TRAP_TYPE_MISMATCH"
      "x_fr (jello_vm_trap x JELLO_TRAP_TYPE_MISMATCH (Some msg)) = x_fr x" by (simp_all add: jello_vm_trap_def)
    then have "?post (jello_vm_trap x JELLO_TRAP_TYPE_MISMATCH (Some msg))" using that t by (simp add: trap_continue_def)
    then show ?thesis ..
  qed
  show ?thesis
  proof (cases "jello_is_null ?v \<or> \<not> jello_is_ptr ?v")
    case True
    then show ?thesis using run store [of 0] trap by (cases "jello_is_null ?v") simp_all
  next
    case False
    then have l: "jello_as_ptr ?v \<in> live (gc_view x)" using v by (simp add: val_ok_def)
    then obtain ob where ob: "obj_of x (jello_as_ptr ?v) = Inr ob" using obj_of_live m unfolding mach_ok_def by metis
    show ?thesis
      by (cases "obj_kind ob = ?k") (use run store [of "jello_as_ptr ?v"] trap False ob l in simp_all)
  qed
qed

section \<open>A concrete machine\<close>

text \<open>One frame with a register of most kinds, a heap with a boxed 1.5, four bytes, an array of an integer and the box,
  and an empty object; \<open>threshold\<close> is the number of live bytes from which on an allocation collects, 0 for never.\<close>

definition bx_function :: jello_bc_function where
  "bx_function =
     \<lparr>f_nregs = 10, f_cap_start = 0, f_reg_types = [0, 1, 1, 2, 3, 4, 5, 6, 7, 8], f_ninsns = 1,
      f_insns = [\<lparr>i_op = 1, i_a = 0, i_b = 0, i_c = 0, i_imm = 0\<rparr>], f_source_file = 0, f_lines = [], f_nlines = 1\<rparr>"

definition bx_module :: jello_bc_module where
  "bx_module = zero_module
     \<lparr>m_ntypes := 9, m_types := map (\<lambda>(k, n). \<lparr>te_kind = k, te_as = n\<rparr>)
        [(JELLO_T_I32, 0), (JELLO_T_F64, 0), (JELLO_T_DYNAMIC, 0), (JELLO_T_BYTES, 0), (JELLO_T_LIST, 0), (JELLO_T_ENUM, 0),
         (JELLO_T_BOOL, 0), (JELLO_T_ARRAY, 2), (JELLO_T_OBJECT, 0)],
      m_natoms := 2, m_nfuncs := 1, m_funcs := [bx_function]\<rparr>"

definition bx_frame :: reg_frame where
  "bx_frame =
     \<lparr>rf_mem = u32_le 7 @ u32_le 0 @ u64_le 0x3FF8000000000000 @ u64_le 0x4004000000000000 @ u64_le 64 @ u64_le 128 @
        u64_le 0 @ u64_le 0 @ u32_le 0 @ u32_le 0 @ u64_le 192 @ u64_le 256,
      rf_off = [0, 8, 16, 24, 32, 40, 48, 56, 64, 72], rf_nregs = 10, rf_total = 80\<rparr>"

definition bx_vm :: "u64 \<Rightarrow> jello_vm" where
  "bx_vm threshold =
     \<lparr>spill = [], vm_heap =
        [64 \<mapsto> \<lparr>b_total = 40, b_marked = False, b_obj = OBoxF64 1 0x3FF8000000000000\<rparr>,
         128 \<mapsto> \<lparr>b_total = 40, b_marked = False, b_obj = OBytes 3 [1, 2, 3, 4]\<rparr>,
         192 \<mapsto> \<lparr>b_total = 48, b_marked = False, b_obj = OArray 7 [jello_make_i32 1, 64]\<rparr>,
         256 \<mapsto> \<lparr>b_total = 216, b_marked = False, b_obj = OObject (jello_object_new False zero_block 8)\<rparr>],
      gc_objects = [256, 192, 128, 64], gc_bytes_live = 344, gc_next_collect = threshold, gc_box_free_len = 0,
      gc_box_free = [], gc_roots = [], gc_roots_cap = 0, gc_collections = 0, gc_freed_objects = 0, gc_freelist_hits = 0,
      gc_freelist_misses = 0, call_frames = [], const_fun_cache = [], const_bytes_cache = [],
      enum_nullary_by_type = [], running_module = True, finalized = []\<rparr>"

definition bx_ctx :: "u64 \<Rightarrow> exec_ctx" where
  "bx_ctx threshold =
     \<lparr>x_vm = bx_vm threshold, x_m = bx_module, x_below = [],
      x_fr = \<lparr>cf_f = bx_function, cf_rf = bx_frame, cf_pc = 1, cf_caller_dst = 0, cf_exc_base = 0, cf_has_caller = False,
        cf_idx = 0, cf_has_pointer_or_dynamic = True\<rparr>,
      x_exc_handlers = [], x_exc_pending = False, x_exc_payload = jello_make_null, x_trap_code = JELLO_TRAP_NONE,
      x_trap_msg = None, x_fuel_limit = 0, x_fuel_remaining = 0, x_call_frames_max = 100, x_max_bytes_len = 0,
      x_max_array_len = 0, x_out = 0, x_out_exports = None, x_entry_module_idx = 0xFFFFFFFF\<rparr>"

definition bx_malloc :: alloc_fun where
  "bx_malloc h n = (case filter (\<lambda>a. h a = None) [512, 1024, 1536, 2048] of [] \<Rightarrow> None | a # _ \<Rightarrow> Some a)"

lemma bx_malloc_ok: "allocator_ok bx_malloc"
  by (auto simp: allocator_ok_def malloc_ok_def malloc_aligned_def bx_malloc_def dom_def split: list.splits if_splits)

lemma bx_parts [simp]: "x_m (bx_ctx n) = bx_module" "x_f (bx_ctx n) = bx_function" "x_rf (bx_ctx n) = bx_frame" "x_vm (bx_ctx n) = bx_vm n"
  "x_below (bx_ctx n) = []" "cf_f (x_fr (bx_ctx n)) = bx_function"
  by (simp_all add: bx_ctx_def)

lemma bx_kinds [simp]:
  "fun_kinds bx_module bx_function = [JELLO_T_I32, JELLO_T_F64, JELLO_T_F64, JELLO_T_DYNAMIC, JELLO_T_BYTES, JELLO_T_LIST,
     JELLO_T_ENUM, JELLO_T_BOOL, JELLO_T_ARRAY, JELLO_T_OBJECT]"
  by (simp add: fun_kinds_def bx_module_def bx_function_def zero_module_def)

lemma bx_frame_ok: "frame_ctx_ok bx_module (x_fr (bx_ctx n))"
proof -
  let ?ks = "fun_kinds bx_module bx_function"
  have "fl_off (layout_of ?ks) = [0, 8, 16, 24, 32, 40, 48, 56, 64, 72]" "unat (fl_total (layout_of ?ks)) = 80"
    by (simp_all add: layout_of_def align_up_def jello_slot_size_def)
  then have "frame_ok ?ks bx_frame" by (intro layout_frame_ok) (simp_all add: bx_frame_def)
  moreover have "length (f_reg_types bx_function) = unat (f_nregs bx_function)" "\<forall>t\<in>set (f_reg_types bx_function). unat t < length (m_types bx_module)"
    by (simp_all add: bx_function_def bx_module_def)
  ultimately show ?thesis by (simp add: frame_ctx_ok_def bx_parts del: bx_kinds)
qed

lemma bx_words:
  "frame_words bx_module (x_fr (bx_ctx n)) =
     [(JELLO_T_I32, 0), (JELLO_T_F64, 0x3FF8000000000000), (JELLO_T_F64, 0x4004000000000000), (JELLO_T_DYNAMIC, 64),
      (JELLO_T_BYTES, 128), (JELLO_T_LIST, 0), (JELLO_T_ENUM, 0), (JELLO_T_BOOL, 0), (JELLO_T_ARRAY, 192), (JELLO_T_OBJECT, 256)]"
  by (simp add: frame_words_def bx_ctx_def bx_frame_def bx_function_def bx_module_def reg_word_def off_of_def mem_read_def
      jello_slot_size_def u64_of_bytes_def u32_of_bytes_def u32_le_def u64_le_def of_u32_le_def of_u64_le_def upt_rec)

lemma bx_object_vals: "obj_vals (OObject (jello_object_new False zero_block 8)) = []"
    "obj_addrs (OObject (jello_object_new False zero_block 8)) = [0]"
  by (simp_all add: jello_object_new_def jello_object_init_empty_def jello_object_invalidate_ic_def object_bind_table_def
      JELLO_OBJECT_INIT_CAP_def upt_rec)

lemma bx_mach: "mach {64, 128, 192, 256} (bx_ctx n)"
proof -
  have r: "roots_ok {64, 128, 192, 256} (gc_view (bx_ctx n))"
    by (simp add: roots_ok_def bx_words) (simp add: bx_vm_def reg_ok_def val_ok_def ptr_ok_def jello_as_ptr_def is_pointer_kind_def)
  have h: "heap_ok {64, 128, 192, 256} (vm_heap (bx_vm n))"
    by (simp add: heap_ok_def bx_vm_def obj_ok_def bx_object_vals val_ok_def ptr_ok_def jello_as_ptr_def del: obj_vals.simps(3) obj_addrs.simps(2))
  have "live (gc_view (bx_ctx n)) \<subseteq> {64, 128, 192, 256}"
    unfolding live_def using heap_ok_closed [OF h roots_ok_ptrs [OF r]] by simp
  then have "gc_wf (gc_view (bx_ctx n))"
    by (auto simp: gc_wf_def) (auto simp: bx_vm_def marked_def freelist_ok_def size_at_def split: if_splits)
  then show ?thesis using r h bx_frame_ok by (simp add: mach_def) (auto simp: bx_vm_def heap_aligned_def)
qed

lemma bx_ok: "mach_ok (bx_ctx n)"
  by (rule mach_live [OF bx_mach])

lemma bx_reg_in: "reg_in (bx_ctx n) r \<longleftrightarrow> r < 10"
  by (simp add: reg_in_def bx_function_def)

lemma bx_pools: "const_pools_ok (bx_ctx n)"
  by (simp add: const_pools_ok_def bx_vm_def bx_module_def zero_module_def)

lemma bx_regs:
  "rg64 (bx_ctx n) 3 = 64" "rg64 (bx_ctx n) 4 = 128" "rg64 (bx_ctx n) 5 = 0" "rg64 (bx_ctx n) 6 = 0" "rg64 (bx_ctx n) 8 = 192"
  "rg64 (bx_ctx n) 9 = 256"
  by (simp_all add: reg_u64_def reg_bytes_def off_of_def mem_read_def bx_frame_def jello_slot_size_def u64_of_bytes_def
      u32_le_def u64_le_def of_u64_le_def of_u32_le_def u32_of_bytes_def)

lemma bx_typed: "well_typed (bx_ctx n)"
proof -
  have "holds_kind (bx_ctx n) r" if "r \<in> {4, 5, 6, 8, 9}" for r
    using that bx_regs [of n]
    by (auto simp: holds_kind_def obj_of_def bx_vm_def)
  moreover have "r \<in> {4, 5, 6, 8, 9}" if "r < 10" "is_pointer_kind (x_kinds (bx_ctx n) ! r)" for r
  proof -
    have "r \<in> set [0..<10]" using that(1) by simp
    then show ?thesis using that(2) by (auto simp: upt_rec is_pointer_kind_def)
  qed
  ultimately show ?thesis by (simp add: well_typed_def bx_reg_in)
qed

lemma bx_casts: "casts_ok (bx_ctx n) 3" "casts_ok (bx_ctx n) 4"
  by (simp_all add: casts_ok_def)

lemma bx_rk:
  "map (rk bx_module (f_reg_types bx_function)) [0, 1, 2, 3, 4, 5, 6, 7, 8, 9] =
    [JELLO_T_I32, JELLO_T_F64, JELLO_T_F64, JELLO_T_DYNAMIC, JELLO_T_BYTES, JELLO_T_LIST,
     JELLO_T_ENUM, JELLO_T_BOOL, JELLO_T_ARRAY, JELLO_T_OBJECT]"
  by (simp add: rk_def bx_function_def bx_module_def)

definition bx_insn :: "u8 \<Rightarrow> u8 \<Rightarrow> u8 \<Rightarrow> u8 \<Rightarrow> jello_insn" where
  "bx_insn op a b c = \<lparr>i_op = op, i_a = a, i_b = b, i_c = c, i_imm = 0\<rparr>"

lemma bx_accepted:
  "accepted (bx_ctx n) (bx_insn 90 3 1 0) 0" "accepted (bx_ctx n) (bx_insn 100 4 3 0) 0"
  unfolding accepted_def bx_parts using bx_rk
  by (simp_all add: validate_defs Let_def bx_insn_def) (simp_all add: bx_function_def)


lemma from_dyn_ptr_is_checked_witness:
  "\<exists>x'. op_from_dyn_ptr (bx_ctx 0) (bx_insn 100 4 3 0) = Inr (OP_CONTINUE, x') \<and> well_typed x' \<and>
    (\<not> x_exc_pending x' \<and> rg64 x' 4 = 64 \<or> x_trap_code x' = JELLO_TRAP_TYPE_MISMATCH \<and> x_fr x' = x_fr (bx_ctx 0))"
proof -
  have "\<not> x_exc_pending (bx_ctx 0)" "\<not> jello_is_null 64" "jello_as_ptr 64 = 64"
    by (simp_all add: bx_ctx_def jello_is_null_def jello_as_ptr_def jello_make_null_def JELLO_TAG_NULL_def)
  then show ?thesis using from_dyn_ptr_is_checked [OF bx_ok bx_typed bx_accepted(2), of 0] bx_regs(1) [of 0] by (simp add: bx_insn_def)
qed

end
