(* ===== verification/Jello_Container.thy ===== *)
theory Jello_Container
  imports Jello_Box
begin

text \<open>
  The opcodes on lists, arrays, enums and bytes (\<^verbatim>\<open>src/vm/ops/ops_list.c\<close>, \<^verbatim>\<open>ops_array.c\<close>, \<^verbatim>\<open>ops_enum.c\<close>,
  \<^verbatim>\<open>ops_bytes.c\<close>). The handlers trust the kind of object a typed register holds; the lemmas show what that trust
  gives: with registers that hold objects of their kinds, no handler reads or writes outside an object, and the machine
  stays well formed through the collections the handlers cause.
\<close>

section \<open>Reading through a register\<close>

text \<open>The handlers cast the word of a register to a pointer to a struct. The struct that is really there is in the heap
  model; reading it as another one is \<open>FAULT\<close>.\<close>

definition list_at :: "exec_ctx \<Rightarrow> addr \<Rightarrow> (jello_value \<times> addr) run" where
  "list_at x p = rbind (obj_of x p) (\<lambda>ob. case ob of OList _ head tail \<Rightarrow> Inr (head, tail) | _ \<Rightarrow> Inl FAULT)"

definition array_at :: "exec_ctx \<Rightarrow> addr \<Rightarrow> (u32 \<times> jello_value list) run" where
  "array_at x p = rbind (obj_of x p) (\<lambda>ob. case ob of OArray t vs \<Rightarrow> Inr (t, vs) | _ \<Rightarrow> Inl FAULT)"

definition bytes_at :: "exec_ctx \<Rightarrow> addr \<Rightarrow> (u32 \<times> u8 list) run" where
  "bytes_at x p = rbind (obj_of x p) (\<lambda>ob. case ob of OBytes t bs \<Rightarrow> Inr (t, bs) | _ \<Rightarrow> Inl FAULT)"

definition deref_or_trap ::
  "exec_ctx \<Rightarrow> nat \<Rightarrow> string \<Rightarrow> (addr \<Rightarrow> (op_result \<times> exec_ctx) run) \<Rightarrow> (op_result \<times> exec_ctx) run" where
  "deref_or_trap x r msg g =
     rbind (vm_load_ptr (x_rf x) r) (\<lambda>p. if p = 0 then trap_continue x JELLO_TRAP_NULL_DEREF msg else g p)"

definition x_push_root :: "exec_ctx \<Rightarrow> jello_value \<Rightarrow> exec_ctx" where
  "x_push_root x v = x\<lparr>x_vm := jello_gc_push_root (x_vm x) v\<rparr>"

definition x_pop_roots :: "exec_ctx \<Rightarrow> nat \<Rightarrow> exec_ctx run" where
  "x_pop_roots x n = (case jello_gc_pop_roots (x_vm x) n of None \<Rightarrow> Inl PANIC | Some vm \<Rightarrow> Inr (x\<lparr>x_vm := vm\<rparr>))"

text \<open>The value of a register to be put into a container: boxed, and a box of its own when the register is Dynamic.\<close>

definition boxed_element :: "alloc_fun \<Rightarrow> exec_ctx \<Rightarrow> nat \<Rightarrow> (exec_ctx \<times> jello_value) run" where
  "boxed_element malloc x r =
     rbind (vm_box_from_typed malloc x (x_f x) (x_rf x) r) (\<lambda>(x, v).
     rbind (vm_reg_kind (x_m x) (x_f x) r) (\<lambda>k.
       if k = JELLO_T_DYNAMIC then vm_clone_numbox malloc x v else Inr (x, v)))"

section \<open>Lists\<close>

definition op_list_nil :: handler where
  "op_list_nil x ins = continue_with x (vm_store_ptr (x_rf x) (unat (i_a ins)) 0)"

definition op_list_cons :: "alloc_fun \<Rightarrow> handler" where
  "op_list_cons malloc x ins =
     rbind (boxed_element malloc x (unat (i_b ins))) (\<lambda>(x, head).
     let x = x_push_root x head in
     rbind (vm_load_ptr (x_rf x) (unat (i_c ins))) (\<lambda>tail.
     rbind (x_new x (\<lambda>vm. jello_list_cons malloc vm (f_reg_types (x_f x) ! unat (i_a ins)) head tail)) (\<lambda>(x, node).
     rbind (x_pop_roots x 1) (\<lambda>x.
       continue_with x (vm_store_ptr (x_rf x) (unat (i_a ins)) node)))))"

definition op_list_head :: "fpu \<Rightarrow> alloc_fun \<Rightarrow> handler" where
  "op_list_head fp malloc x ins =
     deref_or_trap x (unat (i_b ins)) ''list_head on nil'' (\<lambda>node.
     rbind (list_at x node) (\<lambda>(head, tail).
       and_continue (vm_store_from_boxed fp malloc x (unat (i_a ins)) head)))"

definition op_list_tail :: handler where
  "op_list_tail x ins =
     deref_or_trap x (unat (i_b ins)) ''list_tail on nil'' (\<lambda>node.
     rbind (list_at x node) (\<lambda>(head, tail). continue_with x (vm_store_ptr (x_rf x) (unat (i_a ins)) tail)))"

definition op_list_is_nil :: handler where
  "op_list_is_nil x ins =
     rbind (vm_load_ptr (x_rf x) (unat (i_b ins))) (\<lambda>p.
       continue_with x (vm_store_u32 (x_rf x) (unat (i_a ins)) (bool_u32 (p = 0))))"

section \<open>Arrays\<close>

text \<open>\<open>None\<close> is the return value 0.\<close>

definition array_elem_kind :: "jello_bc_module \<Rightarrow> jello_bc_function \<Rightarrow> nat \<Rightarrow> jello_type_kind option run" where
  "array_elem_kind m f arr_reg =
     rbind (vm_reg_kind m f arr_reg) (\<lambda>k.
       let arr_tid = f_reg_types f ! arr_reg; te = m_types m ! unat arr_tid; elem_tid = te_as te in
       if k \<noteq> JELLO_T_ARRAY then Inr None
       else if m_ntypes m \<le> arr_tid then Inr None
       else if te_kind te \<noteq> JELLO_T_ARRAY then Inr None
       else if m_ntypes m \<le> elem_tid then Inr None
       else Inr (Some (te_kind (m_types m ! unat elem_tid))))"

text \<open>What \<open>op_array_new\<close> fills the elements with; arrays of other types keep the nulls of \<open>jello_array_new\<close>.\<close>

definition array_new_elem :: "jello_bc_module \<Rightarrow> u32 \<Rightarrow> jello_value" where
  "array_new_elem m type_id =
     (if type_id < m_ntypes m \<and> te_kind (m_types m ! unat type_id) = JELLO_T_ARRAY \<and>
         te_as (m_types m ! unat type_id) < m_ntypes m \<and>
         te_kind (m_types m ! unat (te_as (m_types m ! unat type_id))) \<in> {JELLO_T_I8, JELLO_T_I16, JELLO_T_I32}
      then jello_make_i32 0 else jello_make_null)"

definition op_array_new :: "alloc_fun \<Rightarrow> (u64 \<Rightarrow> bool) \<Rightarrow> handler" where
  "op_array_new malloc side x ins =
     rbind (vm_load_u32 (x_rf x) (unat (i_b ins))) (\<lambda>len.
       if x_max_array_len x \<noteq> 0 \<and> x_max_array_len x < len then
         trap_continue x JELLO_TRAP_LIMIT ''array_new length exceeds limit''
       else
         (let type_id = f_reg_types (x_f x) ! unat (i_a ins) in
          rbind (x_new x (\<lambda>vm. jello_array_new malloc side vm type_id len)) (\<lambda>(x, a).
          let x = x_put x a (OArray type_id (replicate (unat len) (array_new_elem (x_m x) type_id))) in
          continue_with x (vm_store_ptr (x_rf x) (unat (i_a ins)) a))))"

definition op_array_len :: handler where
  "op_array_len x ins =
     deref_or_trap x (unat (i_b ins)) ''array_len on null'' (\<lambda>a.
     rbind (array_at x a) (\<lambda>(t, vs).
       continue_with x (vm_store_u32 (x_rf x) (unat (i_a ins)) (of_nat (length vs)))))"

text \<open>The test in front of the fast paths: a register of kind F64 and an array of F64.\<close>

definition f64_array :: "exec_ctx \<Rightarrow> nat \<Rightarrow> nat \<Rightarrow> bool run" where
  "f64_array x r arr_reg =
     rbind (vm_reg_kind (x_m x) (x_f x) r) (\<lambda>k.
       if k \<noteq> JELLO_T_F64 then Inr False
       else rbind (array_elem_kind (x_m x) (x_f x) arr_reg) (\<lambda>e. Inr (e = Some JELLO_T_F64)))"

definition op_array_get :: "fpu \<Rightarrow> alloc_fun \<Rightarrow> handler" where
  "op_array_get fp malloc x ins =
     deref_or_trap x (unat (i_b ins)) ''array_get on null'' (\<lambda>a.
     rbind (vm_load_u32 (x_rf x) (unat (i_c ins))) (\<lambda>idx.
     rbind (array_at x a) (\<lambda>(t, vs).
       if length vs \<le> unat idx then trap_continue x JELLO_TRAP_BOUNDS ''array_get index out of bounds''
       else
         (let v = vs ! unat idx; slow = and_continue (vm_store_from_boxed fp malloc x (unat (i_a ins)) v) in
          rbind (f64_array x (unat (i_a ins)) (unat (i_b ins))) (\<lambda>fast.
            if fast then
              rbind (box_of x v) (\<lambda>ob. case ob of
                  Some (OBoxF64 _ d) \<Rightarrow> continue_with x (vm_store_f64 (x_rf x) (unat (i_a ins)) d)
                | _ \<Rightarrow> slow)
            else slow)))))"

text \<open>\<^verbatim>\<open>a->data[idx] = v\<close>, on the array as it is now.\<close>

definition array_put :: "exec_ctx \<Rightarrow> addr \<Rightarrow> nat \<Rightarrow> jello_value \<Rightarrow> exec_ctx run" where
  "array_put x a idx v =
     rbind (array_at x a) (\<lambda>(t, vs). if length vs \<le> idx then Inl FAULT else Inr (x_put x a (OArray t (vs[idx := v]))))"

definition op_array_set :: "alloc_fun \<Rightarrow> handler" where
  "op_array_set malloc x ins =
     deref_or_trap x (unat (i_b ins)) ''array_set on null'' (\<lambda>a.
     rbind (vm_load_u32 (x_rf x) (unat (i_c ins))) (\<lambda>idx.
     rbind (array_at x a) (\<lambda>(t, vs).
       if length vs \<le> unat idx then trap_continue x JELLO_TRAP_BOUNDS ''array_set index out of bounds''
       else
         (let cur = vs ! unat idx;
              slow = rbind (vm_store_num_inplace x (unat (i_a ins)) cur) (\<lambda>(x, cur', done).
                if done then and_continue (array_put x a (unat idx) cur')
                else
                  rbind (boxed_element malloc x (unat (i_a ins))) (\<lambda>(x, v).
                    and_continue (array_put x a (unat idx) v))) in
          rbind (f64_array x (unat (i_a ins)) (unat (i_b ins))) (\<lambda>fast.
            if fast then
              rbind (box_of x cur) (\<lambda>ob. case ob of
                  Some (OBoxF64 bt _) \<Rightarrow>
                    rbind (vm_load_f64 (x_rf x) (unat (i_a ins))) (\<lambda>d.
                      Inr (OP_CONTINUE, x_put x (jello_as_ptr cur) (OBoxF64 bt d)))
                | _ \<Rightarrow> slow)
            else slow)))))"

text \<open>\<^verbatim>\<open>for(i = 0; i < src->length; i++) out->data[base + i] = vm_clone_numbox(vm, src->data[i])\<close>, over the remaining
  indices.\<close>

fun array_clone_loop :: "alloc_fun \<Rightarrow> exec_ctx \<Rightarrow> addr \<Rightarrow> nat \<Rightarrow> addr \<Rightarrow> nat list \<Rightarrow> exec_ctx run" where
  "array_clone_loop malloc x out base src [] = Inr x"
| "array_clone_loop malloc x out base src (i # is) =
     rbind (array_at x src) (\<lambda>(t, vs).
       if length vs \<le> i then Inl FAULT
       else
         rbind (vm_clone_numbox malloc x (vs ! i)) (\<lambda>(x, v).
         rbind (array_put x out (base + i) v) (\<lambda>x. array_clone_loop malloc x out base src is)))"

definition op_array_concat2 :: "alloc_fun \<Rightarrow> (u64 \<Rightarrow> bool) \<Rightarrow> handler" where
  "op_array_concat2 malloc side x ins =
     deref_or_trap x (unat (i_b ins)) ''array_concat2 on null lhs'' (\<lambda>px.
     deref_or_trap x (unat (i_c ins)) ''array_concat2 on null rhs'' (\<lambda>py.
     rbind (array_at x px) (\<lambda>(tx, xs).
     rbind (array_at x py) (\<lambda>(ty, ys).
       let total = length xs + length ys; type_id = f_reg_types (x_f x) ! unat (i_a ins) in
       if 0xffffffff < total then trap_continue x JELLO_TRAP_BOUNDS ''array_concat2 length overflow''
       else if x_max_array_len x \<noteq> 0 \<and> unat (x_max_array_len x) < total then
         trap_continue x JELLO_TRAP_LIMIT ''array_concat2 length exceeds limit''
       else if tx \<noteq> type_id \<or> ty \<noteq> type_id then
         trap_continue x JELLO_TRAP_TYPE_MISMATCH ''array_concat2 type mismatch''
       else
         rbind (x_new x (\<lambda>vm. jello_array_new malloc side vm type_id (of_nat total))) (\<lambda>(x, out).
         rbind (array_clone_loop malloc (x_push_root x (jello_from_ptr out)) out 0 px [0..<length xs]) (\<lambda>x.
         rbind (array_clone_loop malloc x out (length xs) py [0..<length ys]) (\<lambda>x.
         rbind (vm_store_ptr (x_rf x) (unat (i_a ins)) out) (\<lambda>rf.
           and_continue (x_pop_roots (set_rf x rf) 1)))))))))"

definition op_array_resize :: "(u64 \<Rightarrow> bool) \<Rightarrow> handler" where
  "op_array_resize side x ins =
     deref_or_trap x (unat (i_b ins)) ''array_resize on null'' (\<lambda>a.
     rbind (vm_load_u32 (x_rf x) (unat (i_c ins))) (\<lambda>new_len.
     rbind (array_at x a) (\<lambda>(t, vs).
       case jello_array_resize side (x_max_array_len x) (x_m x) t vs new_len of
         (vs', True) \<Rightarrow> Inr (OP_CONTINUE, x_put x a (OArray t vs'))
       | (vs', False) \<Rightarrow> trap_continue x JELLO_TRAP_LIMIT ''array_resize failed'')))"

section \<open>Enums\<close>

definition enum_at :: "exec_ctx \<Rightarrow> addr \<Rightarrow> (u32 \<times> jello_value list) run" where
  "enum_at x p = rbind (obj_of x p) (\<lambda>ob. case ob of OEnum _ tag vs \<Rightarrow> Inr (tag, vs) | _ \<Rightarrow> Inl FAULT)"

fun enum_fields :: "alloc_fun \<Rightarrow> exec_ctx \<Rightarrow> nat list \<Rightarrow> (exec_ctx \<times> jello_value list) run" where
  "enum_fields malloc x [] = Inr (x, [])"
| "enum_fields malloc x (r # rs) =
     (if unat (f_nregs (x_f x)) \<le> r then Inl PANIC
      else
        rbind (vm_box_from_typed malloc x (x_f x) (x_rf x) r) (\<lambda>(x, v).
        rbind (enum_fields malloc x rs) (\<lambda>(x, vs). Inr (x, v # vs))))"

definition op_enum_new :: "alloc_fun \<Rightarrow> handler" where
  "op_enum_new malloc x ins =
     (let type_id = f_reg_types (x_f x) ! unat (i_a ins); tag = i_imm ins; nfields = unat (i_c ins) in
      rbind (if nfields = 0 then x_new x (\<lambda>vm. jello_enum_nullary_intern malloc vm type_id tag)
             else
               rbind (enum_fields malloc x [unat (i_b ins)..<unat (i_b ins) + nfields]) (\<lambda>(x, vs).
                 x_new x (\<lambda>vm. jello_enum_new malloc vm type_id tag vs))) (\<lambda>(x, e).
        continue_with x (vm_store_ptr (x_rf x) (unat (i_a ins)) e)))"

definition op_enum_tag :: handler where
  "op_enum_tag x ins =
     deref_or_trap x (unat (i_b ins)) ''enum_tag on null'' (\<lambda>e.
     rbind (obj_of x e) (\<lambda>ob.
       if obj_kind ob \<noteq> 11 then trap_continue x JELLO_TRAP_TYPE_MISMATCH ''enum_tag on non-enum''
       else rbind (enum_at x e) (\<lambda>(tag, vs). continue_with x (vm_store_u32 (x_rf x) (unat (i_a ins)) tag))))"

definition op_enum_get :: "fpu \<Rightarrow> alloc_fun \<Rightarrow> handler" where
  "op_enum_get fp malloc x ins =
     deref_or_trap x (unat (i_b ins)) ''enum_get on null'' (\<lambda>e.
     rbind (obj_of x e) (\<lambda>ob.
       if obj_kind ob \<noteq> 11 then trap_continue x JELLO_TRAP_TYPE_MISMATCH ''enum_get on non-enum''
       else
         rbind (vm_load_u32 (x_rf x) (unat (i_c ins))) (\<lambda>idx.
         rbind (enum_at x e) (\<lambda>(tag, vs).
           if length vs \<le> unat idx then trap_continue x JELLO_TRAP_BOUNDS ''enum_get index out of bounds''
           else and_continue (vm_store_from_boxed fp malloc x (unat (i_a ins)) (vs ! unat idx))))))"

section \<open>Bytes\<close>

definition op_bytes_new :: "alloc_fun \<Rightarrow> handler" where
  "op_bytes_new malloc x ins =
     rbind (vm_load_u32 (x_rf x) (unat (i_b ins))) (\<lambda>len.
       if x_max_bytes_len x \<noteq> 0 \<and> x_max_bytes_len x < len then
         trap_continue x JELLO_TRAP_LIMIT ''bytes_new length exceeds limit''
       else
         rbind (x_new x (\<lambda>vm. jello_bytes_new malloc vm (f_reg_types (x_f x) ! unat (i_a ins)) len)) (\<lambda>(x, b).
           continue_with x (vm_store_ptr (x_rf x) (unat (i_a ins)) b)))"

definition op_bytes_len :: handler where
  "op_bytes_len x ins =
     deref_or_trap x (unat (i_b ins)) ''bytes_len on null'' (\<lambda>b.
     rbind (bytes_at x b) (\<lambda>(t, bs).
       continue_with x (vm_store_u32 (x_rf x) (unat (i_a ins)) (of_nat (length bs)))))"

text \<open>\<^verbatim>\<open>memcmp\<close> on arrays of the same length is equality of their contents.\<close>

definition op_bytes_eq :: handler where
  "op_bytes_eq x ins =
     rbind (vm_load_ptr (x_rf x) (unat (i_b ins))) (\<lambda>a.
     rbind (vm_load_ptr (x_rf x) (unat (i_c ins))) (\<lambda>b.
     rbind (if a = b then Inr True
            else if a \<noteq> 0 \<and> b \<noteq> 0 then
              rbind (bytes_at x a) (\<lambda>(ta, as). rbind (bytes_at x b) (\<lambda>(tb, bs).
                Inr (length as = length bs \<and> as = bs)))
            else Inr False) (\<lambda>eq.
       continue_with x (vm_store_u32 (x_rf x) (unat (i_a ins)) (bool_u32 eq)))))"

definition op_bytes_get_u8 :: handler where
  "op_bytes_get_u8 x ins =
     deref_or_trap x (unat (i_b ins)) ''bytes_get_u8 on null'' (\<lambda>b.
     rbind (vm_load_u32 (x_rf x) (unat (i_c ins))) (\<lambda>idx.
     rbind (bytes_at x b) (\<lambda>(t, bs).
       if length bs \<le> unat idx then trap_continue x JELLO_TRAP_BOUNDS ''bytes_get_u8 index out of bounds''
       else continue_with x (vm_store_u32 (x_rf x) (unat (i_a ins)) (ucast (bs ! unat idx))))))"

definition op_bytes_set_u8 :: handler where
  "op_bytes_set_u8 x ins =
     deref_or_trap x (unat (i_b ins)) ''bytes_set_u8 on null'' (\<lambda>b.
     rbind (vm_load_u32 (x_rf x) (unat (i_c ins))) (\<lambda>idx.
     rbind (bytes_at x b) (\<lambda>(t, bs).
       if length bs \<le> unat idx then trap_continue x JELLO_TRAP_BOUNDS ''bytes_set_u8 index out of bounds''
       else
         rbind (vm_load_u32 (x_rf x) (unat (i_a ins))) (\<lambda>v.
           if 255 < v then trap_continue x JELLO_TRAP_BOUNDS ''bytes_set_u8 value out of range''
           else Inr (OP_CONTINUE, x_put x b (OBytes t (bs[unat idx := ucast v])))))))"

text \<open>A new bytes object, rooted while its data is written, with no allocation before the store to the register.\<close>

definition new_bytes_result :: "alloc_fun \<Rightarrow> exec_ctx \<Rightarrow> jello_insn \<Rightarrow> u8 list \<Rightarrow> (op_result \<times> exec_ctx) run" where
  "new_bytes_result malloc x ins bs =
     (let type_id = f_reg_types (x_f x) ! unat (i_a ins) in
      rbind (x_new x (\<lambda>vm. jello_bytes_new malloc vm type_id (of_nat (length bs)))) (\<lambda>(x, outb).
      let x = x_put (x_push_root x (jello_from_ptr outb)) outb (OBytes type_id bs) in
      rbind (vm_store_ptr (x_rf x) (unat (i_a ins)) outb) (\<lambda>rf. and_continue (x_pop_roots (set_rf x rf) 1))))"

definition op_bytes_concat2 :: "alloc_fun \<Rightarrow> handler" where
  "op_bytes_concat2 malloc x ins =
     deref_or_trap x (unat (i_b ins)) ''bytes_concat2 on null lhs'' (\<lambda>px.
     deref_or_trap x (unat (i_c ins)) ''bytes_concat2 on null rhs'' (\<lambda>py.
     rbind (bytes_at x px) (\<lambda>(tx, xs).
     rbind (bytes_at x py) (\<lambda>(ty, ys).
       let total = length xs + length ys in
       if 0xffffffff < total then trap_continue x JELLO_TRAP_BOUNDS ''bytes_concat2 length overflow''
       else if x_max_bytes_len x \<noteq> 0 \<and> unat (x_max_bytes_len x) < total then
         trap_continue x JELLO_TRAP_LIMIT ''bytes_concat2 length exceeds limit''
       else new_bytes_result malloc x ins (xs @ ys)))))"

text \<open>The first loop of \<open>op_bytes_concat_many\<close>: \<open>Inl\<close> is a trap, \<open>Inr\<close> the parts joined so far, whose length is
  \<^verbatim>\<open>total64\<close>. The second loop copies the same parts again.\<close>

fun concat_parts :: "exec_ctx \<Rightarrow> u8 list \<Rightarrow> jello_value list \<Rightarrow> ((jello_trap_code \<times> string) + u8 list) run" where
  "concat_parts x acc [] = Inr (Inr acc)"
| "concat_parts x acc (pv # pvs) =
     (if jello_is_null pv then Inr (Inl (JELLO_TRAP_NULL_DEREF, ''bytes_concat_many element is null''))
      else
        rbind (box_of x pv) (\<lambda>ob.
          case ob of
            Some (OBytes _ bs) \<Rightarrow>
              if 0xffffffff < length acc + length bs then
                Inr (Inl (JELLO_TRAP_BOUNDS, ''bytes_concat_many length overflow''))
              else concat_parts x (acc @ bs) pvs
          | _ \<Rightarrow> Inr (Inl (JELLO_TRAP_TYPE_MISMATCH, ''bytes_concat_many element not bytes''))))"

definition op_bytes_concat_many :: "alloc_fun \<Rightarrow> handler" where
  "op_bytes_concat_many malloc x ins =
     deref_or_trap x (unat (i_b ins)) ''bytes_concat_many on null'' (\<lambda>p.
     rbind (array_at x p) (\<lambda>(t, parts).
     rbind (concat_parts x [] parts) (\<lambda>r.
       case r of
         Inl (code, msg) \<Rightarrow> trap_continue x code msg
       | Inr bs \<Rightarrow>
           if x_max_bytes_len x \<noteq> 0 \<and> unat (x_max_bytes_len x) < length bs then
             trap_continue x JELLO_TRAP_LIMIT ''bytes_concat_many length exceeds limit''
           else new_bytes_result malloc x ins bs)))"

definition op_bytes_bitwise2 :: "string \<Rightarrow> (u8 \<Rightarrow> u8 \<Rightarrow> u8) \<Rightarrow> alloc_fun \<Rightarrow> handler" where
  "op_bytes_bitwise2 name binop malloc x ins =
     deref_or_trap x (unat (i_b ins)) (name @ '' on null lhs'') (\<lambda>px.
     deref_or_trap x (unat (i_c ins)) (name @ '' on null rhs'') (\<lambda>py.
     rbind (bytes_at x px) (\<lambda>(tx, xs).
     rbind (bytes_at x py) (\<lambda>(ty, ys).
       if length xs \<noteq> length ys then
         trap_continue x JELLO_TRAP_BOUNDS ''bytes bitwise operands must have equal length''
       else if x_max_bytes_len x \<noteq> 0 \<and> unat (x_max_bytes_len x) < length xs then
         trap_continue x JELLO_TRAP_LIMIT (name @ '' length exceeds limit'')
       else new_bytes_result malloc x ins (map2 binop xs ys)))))"

definition bytes_and :: "u8 \<Rightarrow> u8 \<Rightarrow> u8" where "bytes_and a b = a AND b"
definition bytes_or :: "u8 \<Rightarrow> u8 \<Rightarrow> u8" where "bytes_or a b = a OR b"
definition bytes_xor :: "u8 \<Rightarrow> u8 \<Rightarrow> u8" where "bytes_xor a b = a XOR b"

definition op_bytes_bitand2 :: "alloc_fun \<Rightarrow> handler" where
  "op_bytes_bitand2 = op_bytes_bitwise2 ''bytes_bitand2'' bytes_and"

definition op_bytes_bitor2 :: "alloc_fun \<Rightarrow> handler" where
  "op_bytes_bitor2 = op_bytes_bitwise2 ''bytes_bitor2'' bytes_or"

definition op_bytes_bitxor2 :: "alloc_fun \<Rightarrow> handler" where
  "op_bytes_bitxor2 = op_bytes_bitwise2 ''bytes_bitxor2'' bytes_xor"

subsection \<open>Integers in bytes\<close>

definition jello_bswap16 :: "u16 \<Rightarrow> u16" where
  "jello_bswap16 x = drop_bit 8 x OR push_bit 8 x"

definition jello_bswap32 :: "u32 \<Rightarrow> u32" where
  "jello_bswap32 x =
     push_bit 24 (x AND 0xFF) OR push_bit 8 (x AND 0xFF00) OR drop_bit 8 (x AND 0xFF0000) OR drop_bit 24 (x AND 0xFF000000)"

definition bytes_load :: "exec_ctx \<Rightarrow> u8 \<Rightarrow> string \<Rightarrow> (addr \<Rightarrow> (op_result \<times> exec_ctx) run) \<Rightarrow> (op_result \<times> exec_ctx) run" where
  "bytes_load x reg null_msg g = deref_or_trap x (unat reg) null_msg g"

text \<open>\<^verbatim>\<open>int32_t\<close> offsets are words read with \<open>sint\<close>.\<close>

definition bytes_off :: "exec_ctx \<Rightarrow> u8 \<Rightarrow> u32 run" where
  "bytes_off x reg = vm_load_u32 (x_rf x) (unat reg)"

text \<open>\<open>Some\<close> is the message of the bounds trap.\<close>

definition bytes_rw_ok :: "u32 \<Rightarrow> u32 \<Rightarrow> u32 \<Rightarrow> string \<Rightarrow> string option" where
  "bytes_rw_ok len off width align_msg =
     (if sint off < 0 \<or> off mod width \<noteq> 0 then Some align_msg
      else if len < off + width then Some ''bytes read/write offset out of bounds''
      else None)"

definition read_u16_le :: "u8 list \<Rightarrow> u16" where "read_u16_le p = of_u16_le (p ! 0) (p ! 1)"
definition read_u16_be :: "u8 list \<Rightarrow> u16" where "read_u16_be p = jello_bswap16 (read_u16_le p)"
definition write_u16_le :: "u16 \<Rightarrow> u8 list" where "write_u16_le v = u16_le v"
definition write_u16_be :: "u16 \<Rightarrow> u8 list" where "write_u16_be v = u16_le (jello_bswap16 v)"
definition read_u32_le :: "u8 list \<Rightarrow> u32" where "read_u32_le p = u32_of_bytes p"
definition read_u32_be :: "u8 list \<Rightarrow> u32" where "read_u32_be p = jello_bswap32 (read_u32_le p)"
definition write_u32_le :: "u32 \<Rightarrow> u8 list" where "write_u32_le v = u32_le v"
definition write_u32_be :: "u32 \<Rightarrow> u8 list" where "write_u32_be v = u32_le (jello_bswap32 v)"

text \<open>The accesses of \<open>width\<close> bytes at \<^verbatim>\<open>b->data + off\<close>, after the checks all of these handlers make. Outside the data
  they are \<open>FAULT\<close>.\<close>

definition bytes_access :: "string \<Rightarrow> nat \<Rightarrow> exec_ctx \<Rightarrow> jello_insn \<Rightarrow>
    (addr \<Rightarrow> u32 \<Rightarrow> u8 list \<Rightarrow> nat \<Rightarrow> (op_result \<times> exec_ctx) run) \<Rightarrow> (op_result \<times> exec_ctx) run" where
  "bytes_access name width x ins g =
     bytes_load x (i_b ins) (name @ '' on null'') (\<lambda>b.
     rbind (bytes_off x (i_c ins)) (\<lambda>off.
     rbind (bytes_at x b) (\<lambda>(t, bs).
       case bytes_rw_ok (of_nat (length bs)) off (of_nat width)
           (name @ '' requires '' @ digits width @ ''-byte aligned offset'') of
         Some msg \<Rightarrow> trap_continue x JELLO_TRAP_BOUNDS msg
       | None \<Rightarrow> if length bs < unat off + width then Inl FAULT else g b t bs (unat off))))"

definition DEF_BYTES_READ_U16 :: "string \<Rightarrow> (u8 list \<Rightarrow> u16) \<Rightarrow> handler" where
  "DEF_BYTES_READ_U16 name rd x ins =
     bytes_access name 2 x ins (\<lambda>b t bs off.
       continue_with x (vm_store_u32 (x_rf x) (unat (i_a ins)) (ucast (rd (mem_read bs off 2)))))"

definition DEF_BYTES_READ_U32 :: "string \<Rightarrow> (u8 list \<Rightarrow> u32) \<Rightarrow> handler" where
  "DEF_BYTES_READ_U32 name rd x ins =
     bytes_access name 4 x ins (\<lambda>b t bs off.
       continue_with x (vm_store_u32 (x_rf x) (unat (i_a ins)) (rd (mem_read bs off 4))))"

definition bytes_read_f32 :: "string \<Rightarrow> (u8 list \<Rightarrow> u32) \<Rightarrow> handler" where
  "bytes_read_f32 name rd x ins =
     bytes_access name 4 x ins (\<lambda>b t bs off.
       continue_with x (vm_store_f32 (x_rf x) (unat (i_a ins)) (rd (mem_read bs off 4))))"

definition DEF_BYTES_WRITE_U16 :: "string \<Rightarrow> (u16 \<Rightarrow> u8 list) \<Rightarrow> handler" where
  "DEF_BYTES_WRITE_U16 name wr x ins =
     bytes_access name 2 x ins (\<lambda>b t bs off.
       rbind (vm_load_u32 (x_rf x) (unat (i_a ins))) (\<lambda>v.
         Inr (OP_CONTINUE, x_put x b (OBytes t (mem_write bs off (wr (ucast v)))))))"

definition DEF_BYTES_WRITE_U32 :: "string \<Rightarrow> (u32 \<Rightarrow> u8 list) \<Rightarrow> handler" where
  "DEF_BYTES_WRITE_U32 name wr x ins =
     bytes_access name 4 x ins (\<lambda>b t bs off.
       rbind (vm_load_u32 (x_rf x) (unat (i_a ins))) (\<lambda>v.
         Inr (OP_CONTINUE, x_put x b (OBytes t (mem_write bs off (wr v))))))"

definition bytes_write_f32 :: "string \<Rightarrow> (u32 \<Rightarrow> u8 list) \<Rightarrow> handler" where
  "bytes_write_f32 name wr x ins =
     bytes_access name 4 x ins (\<lambda>b t bs off.
       rbind (vm_load_f32 (x_rf x) (unat (i_a ins))) (\<lambda>v.
         Inr (OP_CONTINUE, x_put x b (OBytes t (mem_write bs off (wr v))))))"

definition op_bytes_read_u16_le :: handler where "op_bytes_read_u16_le = DEF_BYTES_READ_U16 ''bytes_read_u16_le'' read_u16_le"
definition op_bytes_read_u16_be :: handler where "op_bytes_read_u16_be = DEF_BYTES_READ_U16 ''bytes_read_u16_be'' read_u16_be"
definition op_bytes_read_u32_le :: handler where "op_bytes_read_u32_le = DEF_BYTES_READ_U32 ''bytes_read_u32_le'' read_u32_le"
definition op_bytes_read_u32_be :: handler where "op_bytes_read_u32_be = DEF_BYTES_READ_U32 ''bytes_read_u32_be'' read_u32_be"
definition op_bytes_read_i32_le :: handler where "op_bytes_read_i32_le = DEF_BYTES_READ_U32 ''bytes_read_i32_le'' read_u32_le"
definition op_bytes_read_i32_be :: handler where "op_bytes_read_i32_be = DEF_BYTES_READ_U32 ''bytes_read_i32_be'' read_u32_be"
definition op_bytes_read_f32_le :: handler where "op_bytes_read_f32_le = bytes_read_f32 ''bytes_read_f32_le'' read_u32_le"
definition op_bytes_read_f32_be :: handler where "op_bytes_read_f32_be = bytes_read_f32 ''bytes_read_f32_be'' read_u32_be"
definition op_bytes_write_u16_le :: handler where "op_bytes_write_u16_le = DEF_BYTES_WRITE_U16 ''bytes_write_u16_le'' write_u16_le"
definition op_bytes_write_u16_be :: handler where "op_bytes_write_u16_be = DEF_BYTES_WRITE_U16 ''bytes_write_u16_be'' write_u16_be"
definition op_bytes_write_u32_le :: handler where "op_bytes_write_u32_le = DEF_BYTES_WRITE_U32 ''bytes_write_u32_le'' write_u32_le"
definition op_bytes_write_u32_be :: handler where "op_bytes_write_u32_be = DEF_BYTES_WRITE_U32 ''bytes_write_u32_be'' write_u32_be"
definition op_bytes_write_i32_le :: handler where "op_bytes_write_i32_le = DEF_BYTES_WRITE_U32 ''bytes_write_i32_le'' write_u32_le"
definition op_bytes_write_i32_be :: handler where "op_bytes_write_i32_be = DEF_BYTES_WRITE_U32 ''bytes_write_i32_be'' write_u32_be"
definition op_bytes_write_f32_le :: handler where "op_bytes_write_f32_le = bytes_write_f32 ''bytes_write_f32_le'' write_u32_le"
definition op_bytes_write_f32_be :: handler where "op_bytes_write_f32_be = bytes_write_f32 ''bytes_write_f32_be'' write_u32_be"

section \<open>Safety of the handlers\<close>

lemma sound_deref:
  assumes "mach_ok x" "reg_in x r" "is_pointer_kind (x_kinds x ! r)"
    and "rg64 x r \<in> live (gc_view x) \<Longrightarrow> rg64 x r \<noteq> 0 \<Longrightarrow> sound x (g (rg64 x r))"
  shows "sound x (deref_or_trap x r msg g)"
proof -
  have "sound x (trap_continue x JELLO_TRAP_NULL_DEREF msg)"
    by (rule sound_trap [OF _ same_code_refl]) (use assms(1) in \<open>simp add: mach_ok_def\<close>)
  then show ?thesis using assms(4) live_ptr_reg [OF assms(1-3)]
    by (auto simp: deref_or_trap_def load_ptr_run [OF assms(1-3)] ptr_ok_def)
qed

lemma sound_element:
  assumes m: "mach_ok x" and al: "allocator_ok malloc" and r: "reg_in x r"
    and g: "\<And>x' v T. grown_to x x' T \<Longrightarrow> val_ok T v \<Longrightarrow> sound y (g (x', v))"
  shows "sound y (rbind (boxed_element malloc x r) g)"
proof -
  let ?L = "live (gc_view x)"
  have mL: "mach ?L x" using m by (simp add: mach_ok_def)
  have box: "sound y (g (x', v))" if "boxed_val ?L x x' v" for x' v
    using boxed_grown [OF m that] g by metis
  note k = top_reg_run(1) [OF mL r]
  show ?thesis
  proof (cases "x_kinds x ! r = JELLO_T_DYNAMIC")
    case True
    have "vm_box_from_typed malloc x (x_f x) (x_rf x) r = Inr (x, rg64 x r)"
      using box_from_typed_run [OF mach_frames [OF mL] reg_in_types [OF mL r]] True by (simp add: typed_val_def)
    then have "boxed_element malloc x r = vm_clone_numbox malloc x (rg64 x r)"
      using k True by (simp add: boxed_element_def)
    then show ?thesis using clone_numbox_ok [OF mL al live_dyn_reg [OF m r True]] box by auto
  next
    case False
    have e: "boxed_element malloc x r = vm_box_from_typed malloc x (x_f x) (x_rf x) r"
      if "vm_box_from_typed malloc x (x_f x) (x_rf x) r = Inr (x', v)" "boxed_val ?L x x' v" for x' v
      using that k False boxed_val_same [OF that(2)] by (simp add: boxed_element_def)
    have p: "boxed_element malloc x r = Inl PANIC" if "vm_box_from_typed malloc x (x_f x) (x_rf x) r = Inl PANIC"
      using that by (simp add: boxed_element_def)
    show ?thesis using box_from_typed_ok [OF mL al _ reg_in_types [OF mL r]] e p box by fastforce
  qed
qed

lemma mach_gc_roots:
  assumes "mach S x" "set vs \<subseteq> set (gc_roots (x_vm x)) \<union> {v. val_ok S v}"
  shows "mach S (x\<lparr>x_vm := (x_vm x)\<lparr>gc_roots_cap := n, gc_roots := vs\<rparr>\<rparr>)"
proof (rule mach_set_roots [OF assms(1)])
  have "\<forall>v\<in>set vs. val_ok S v" using assms by (auto simp: mach_def roots_ok_def)
  then show "roots_ok S (gc_view (x\<lparr>x_vm := (x_vm x)\<lparr>gc_roots_cap := n, gc_roots := vs\<rparr>\<rparr>))" using assms(1)
    by (auto simp: mach_def roots_ok_def)
qed simp_all

lemma push_root_eq:
  "\<exists>n. x_push_root x v = x\<lparr>x_vm := (x_vm x)\<lparr>gc_roots_cap := n, gc_roots := gc_roots (x_vm x) @ [v]\<rparr>\<rparr>"
  by (rule exI [of _ "if length (gc_roots (x_vm x)) = unat (gc_roots_cap (x_vm x))
      then if gc_roots_cap (x_vm x) \<noteq> 0 then gc_roots_cap (x_vm x) * 2 else 32 else gc_roots_cap (x_vm x)"])
    (simp add: x_push_root_def jello_gc_push_root_def Let_def)

lemma mach_push_root:
  assumes "mach S x" "val_ok S v"
  shows "mach S (x_push_root x v)"
proof -
  obtain n where "x_push_root x v = x\<lparr>x_vm := (x_vm x)\<lparr>gc_roots_cap := n, gc_roots := gc_roots (x_vm x) @ [v]\<rparr>\<rparr>"
    using push_root_eq by blast
  then show ?thesis using mach_gc_roots [OF assms(1), of "gc_roots (x_vm x) @ [v]" n] assms(2) by auto
qed

lemma push_root_simps [simp]:
  "x_m (x_push_root x v) = x_m x" "x_fr (x_push_root x v) = x_fr x" "x_below (x_push_root x v) = x_below x"
  "obj_of (x_push_root x v) p = obj_of x p" "gc_roots (x_vm (x_push_root x v)) = gc_roots (x_vm x) @ [v]"
  "same_code y (x_push_root x v) = same_code y x"
  by (simp_all add: x_push_root_def obj_of_def jello_gc_push_root_def Let_def same_code_def)

lemma sound_pop_roots:
  assumes "mach S x" "same_code y x" "\<And>x'. mach S x' \<Longrightarrow> x_m x' = x_m x \<Longrightarrow> x_fr x' = x_fr x \<Longrightarrow> x_below x' = x_below x \<Longrightarrow> sound y (g x')"
  shows "sound y (rbind (x_pop_roots x n) g)"
proof (cases "n \<le> length (gc_roots (x_vm x))")
  case True
  let ?vs = "take (length (gc_roots (x_vm x)) - n) (gc_roots (x_vm x))"
  have run: "x_pop_roots x n = Inr (x\<lparr>x_vm := (x_vm x)\<lparr>gc_roots_cap := gc_roots_cap (x_vm x), gc_roots := ?vs\<rparr>\<rparr>)"
    using True by (simp add: x_pop_roots_def jello_gc_pop_roots_def)
  have "mach S (x\<lparr>x_vm := (x_vm x)\<lparr>gc_roots_cap := gc_roots_cap (x_vm x), gc_roots := ?vs\<rparr>\<rparr>)"
    by (rule mach_gc_roots [OF assms(1)]) (auto dest: in_set_takeD)
  from assms(3) [OF this] show ?thesis unfolding run by simp
next
  case False
  then show ?thesis by (simp add: x_pop_roots_def jello_gc_pop_roots_def)
qed

lemma sound_pop_continue:
  assumes "mach S x" "same_code y x"
  shows "sound y (and_continue (x_pop_roots x n))"
  unfolding and_continue_def
  by (rule sound_pop_roots [OF assms]) (use assms(2) in \<open>auto intro!: sound_Inr simp: same_code_def\<close>)

text \<open>The object a typed register refers to.\<close>

lemma typed_object:
  assumes "mach_ok x" "well_typed x" "reg_in x r" "is_pointer_kind (x_kinds x ! r)" "rg64 x r \<noteq> 0" "rg64 x r \<in> live (gc_view x)"
  obtains ob where "obj_of x (rg64 x r) = Inr ob" "obj_kind ob = vm_expected_obj_kind_for_typed_ptr (x_kinds x ! r)"
    "obj_ok (live (gc_view x)) ob"
proof -
  obtain ob where ob: "obj_of x (rg64 x r) = Inr ob" "obj_ok (live (gc_view x)) ob"
    using obj_of_live [OF assms(1) [unfolded mach_ok_def] assms(6)] by blast
  then show thesis using that assms(2-5) by (auto simp: well_typed_def holds_kind_def)
qed

lemma typed_reads:
  assumes "mach_ok x" "well_typed x" "reg_in x r" "rg64 x r \<noteq> 0" "rg64 x r \<in> live (gc_view x)"
  shows "x_kinds x ! r = JELLO_T_LIST \<Longrightarrow> \<exists>h tl. list_at x (rg64 x r) = Inr (h, tl) \<and>
      val_ok (live (gc_view x)) h \<and> ptr_ok (live (gc_view x)) tl"
    and "x_kinds x ! r = JELLO_T_ARRAY \<Longrightarrow> \<exists>t vs. array_at x (rg64 x r) = Inr (t, vs) \<and>
      (\<forall>v\<in>set vs. val_ok (live (gc_view x)) v)"
    and "x_kinds x ! r = JELLO_T_BYTES \<Longrightarrow> \<exists>t bs. bytes_at x (rg64 x r) = Inr (t, bs)"
    and "x_kinds x ! r = JELLO_T_ENUM \<Longrightarrow> \<exists>t g vs. obj_of x (rg64 x r) = Inr (OEnum t g vs) \<and>
      (\<forall>v\<in>set vs. val_ok (live (gc_view x)) v)"
    and "x_kinds x ! r = JELLO_T_OBJECT \<Longrightarrow> \<exists>o'. obj_of x (rg64 x r) = Inr (OObject o') \<and>
      obj_ok (live (gc_view x)) (OObject o')"
proof -
  note ob = typed_object [OF assms(1-3) _ assms(4,5)]
  show "\<exists>h tl. list_at x (rg64 x r) = Inr (h, tl) \<and> val_ok (live (gc_view x)) h \<and> ptr_ok (live (gc_view x)) tl"
    if "x_kinds x ! r = JELLO_T_LIST"
    by (rule ob) (use that in \<open>auto simp: is_pointer_kind_def list_at_def obj_ok_def dest: obj_kind_cases\<close>)
  show "\<exists>t vs. array_at x (rg64 x r) = Inr (t, vs) \<and> (\<forall>v\<in>set vs. val_ok (live (gc_view x)) v)"
    if "x_kinds x ! r = JELLO_T_ARRAY"
    by (rule ob) (use that in \<open>auto simp: is_pointer_kind_def array_at_def obj_ok_def dest: obj_kind_cases\<close>)
  show "\<exists>t bs. bytes_at x (rg64 x r) = Inr (t, bs)" if "x_kinds x ! r = JELLO_T_BYTES"
    by (rule ob) (use that in \<open>auto simp: is_pointer_kind_def bytes_at_def dest: obj_kind_cases\<close>)
  show "\<exists>t g vs. obj_of x (rg64 x r) = Inr (OEnum t g vs) \<and> (\<forall>v\<in>set vs. val_ok (live (gc_view x)) v)"
    if "x_kinds x ! r = JELLO_T_ENUM"
    by (rule ob) (use that in \<open>auto simp: is_pointer_kind_def obj_ok_def dest: obj_kind_cases\<close>)
  show "\<exists>o'. obj_of x (rg64 x r) = Inr (OObject o') \<and> obj_ok (live (gc_view x)) (OObject o')"
    if "x_kinds x ! r = JELLO_T_OBJECT"
    by (rule ob) (use that in \<open>auto simp: is_pointer_kind_def dest: obj_kind_cases\<close>)
qed

subsection \<open>Lists\<close>

lemma sound_list_nil:
  assumes "mach_ok x" "reg_in x (ra ins)" "x_kinds x ! ra ins = JELLO_T_LIST"
  shows "sound x (op_list_nil x ins)"
  unfolding op_list_nil_def
  by (rule sound_store_ptr [OF assms(1) [unfolded mach_ok_def] same_code_refl assms(2)])
    (simp_all add: assms(3) is_pointer_kind_def)

lemma sound_list_cons:
  assumes m: "mach_ok x" and al: "allocator_ok malloc"
    and r: "reg_in x (ra ins)" "reg_in x (rb ins)" "reg_in x (rc ins)"
    and k: "x_kinds x ! ra ins = JELLO_T_LIST" "x_kinds x ! rc ins = JELLO_T_LIST"
  shows "sound x (op_list_cons malloc x ins)"
  unfolding op_list_cons_def
proof (rule sound_element [OF m al r(2)], simp only: prod.case Let_def)
  fix x1 head T assume g: "grown_to x x1 T" and v: "val_ok T head"
  let ?x2 = "x_push_root x1 head"
  note same = grown_regs [OF g]
  have m2: "mach T ?x2" by (rule mach_push_root [OF _ v]) (use g in \<open>simp add: grown_to_def\<close>)
  then have ok2: "mach_ok ?x2" by (rule mach_live)
  have same2: "x_m x1 = x_m x" "x_fr x1 = x_fr x" "x_below x1 = x_below x" using g by (simp_all add: grown_to_def)
  have reg2: "reg_in ?x2 n = reg_in x n" "x_kinds ?x2 = x_kinds x" for n by (simp_all add: reg_in_def same2)
  have tail: "vm_load_ptr (x_rf ?x2) (rc ins) = Inr (rg64 x (rc ins))"
    using load_ptr_run [OF ok2, of "rc ins"] r k by (simp add: reg2 same2 is_pointer_kind_def)
  have pt: "ptr_ok (live (gc_view ?x2)) (rg64 x (rc ins))"
    using live_ptr_reg [OF ok2, of "rc ins"] r k by (simp add: reg2 same2 is_pointer_kind_def)
  have ph: "val_ok (live (gc_view ?x2)) head" using ok2 by (simp add: mach_ok_def mach_def roots_ok_def)
  show "sound x (rbind (vm_load_ptr (x_rf ?x2) (rc ins)) (\<lambda>tail.
      rbind (x_new ?x2 (\<lambda>vm. jello_list_cons malloc vm (f_reg_types (x_f ?x2) ! ra ins) head tail)) (\<lambda>(x, node).
      rbind (x_pop_roots x 1) (\<lambda>x. continue_with x (vm_store_ptr (x_rf x) (ra ins) node)))))"
    unfolding tail rbind_Inr jello_list_cons_def
  proof (rule sound_new [OF ok2 al], simp_all only: prod.case)
    show "obj_ok (live (gc_view ?x2)) (OList (f_reg_types (x_f ?x2) ! ra ins) head (rg64 x (rc ins)))"
      using pt ph by (simp add: obj_ok_def)
    fix x3 node assume n: "new_object ?x2 (OList (f_reg_types (x_f ?x2) ! ra ins) head (rg64 x (rc ins))) x3 node"
    note d = new_objectD [OF n]
    have c3: "same_code x x3" using d same2 by (simp add: same_code_def)
    show "sound x (rbind (x_pop_roots x3 1) (\<lambda>x. continue_with x (vm_store_ptr (x_rf x) (ra ins) node)))"
    proof (rule sound_pop_roots [OF d(5) c3])
      fix x4 assume x4: "mach (insert node (live (gc_view ?x2))) x4" "x_m x4 = x_m x3" "x_fr x4 = x_fr x3" "x_below x4 = x_below x3"
      show "sound x (continue_with x4 (vm_store_ptr (x_rf x4) (ra ins) node))"
        by (rule sound_store_ptr [OF x4(1)])
          (use x4 d same2 r k in \<open>simp_all add: same_code_def reg_in_def is_pointer_kind_def ptr_ok_def\<close>)
    qed
  qed
qed

lemma sound_list_head:
  assumes m: "mach_ok x" and al: "allocator_ok malloc" and t: "well_typed x" and c: "casts_ok x (ra ins)"
    and r: "reg_in x (ra ins)" "reg_in x (rb ins)" and k: "x_kinds x ! rb ins = JELLO_T_LIST"
  shows "sound x (op_list_head fp malloc x ins)"
  unfolding op_list_head_def
proof (rule sound_deref [OF m r(2)])
  assume p: "rg64 x (rb ins) \<in> live (gc_view x)" "rg64 x (rb ins) \<noteq> 0"
  obtain h tl where "list_at x (rg64 x (rb ins)) = Inr (h, tl)" "val_ok (live (gc_view x)) h"
    using typed_reads(1) [OF m t r(2) p(2,1) k] by blast
  then show "sound x (rbind (list_at x (rg64 x (rb ins))) (\<lambda>(head, tail). and_continue (vm_store_from_boxed fp malloc x (ra ins) head)))"
    using sound_from_boxed [OF m al r(1) c] by simp
qed (simp add: k is_pointer_kind_def)

lemma sound_list_tail:
  assumes m: "mach_ok x" and t: "well_typed x" and r: "reg_in x (ra ins)" "reg_in x (rb ins)"
    and k: "x_kinds x ! ra ins = JELLO_T_LIST" "x_kinds x ! rb ins = JELLO_T_LIST"
  shows "sound x (op_list_tail x ins)"
  unfolding op_list_tail_def
proof (rule sound_deref [OF m r(2)])
  assume p: "rg64 x (rb ins) \<in> live (gc_view x)" "rg64 x (rb ins) \<noteq> 0"
  obtain h tl where l: "list_at x (rg64 x (rb ins)) = Inr (h, tl)" "ptr_ok (live (gc_view x)) tl"
    using typed_reads(1) [OF m t r(2) p(2,1) k(2)] by blast
  have "sound x (continue_with x (vm_store_ptr (x_rf x) (ra ins) tl))"
    by (rule sound_store_ptr [OF m [unfolded mach_ok_def] same_code_refl r(1) _ l(2)]) (simp add: k is_pointer_kind_def)
  then show "sound x (rbind (list_at x (rg64 x (rb ins))) (\<lambda>(head, tail). continue_with x (vm_store_ptr (x_rf x) (ra ins) tail)))"
    by (simp add: l(1))
qed (simp add: k is_pointer_kind_def)

lemma sound_list_is_nil:
  assumes "mach_ok x" "reg_in x (ra ins)" "reg_in x (rb ins)"
    and "x_kinds x ! ra ins = JELLO_T_BOOL" "x_kinds x ! rb ins = JELLO_T_LIST"
  shows "sound x (op_list_is_nil x ins)"
  using load_ptr_run [OF assms(1,3)] assms(4,5) sound_u32_result [OF assms(1,2)]
  by (simp add: op_list_is_nil_def is_pointer_kind_def is_pointer_or_dynamic_def)

subsection \<open>Arrays\<close>

lemma array_new_elem_ok [simp]: "val_ok S (array_new_elem m t)" "val_ok S (jello_array_default_elem m t)"
  by (simp_all add: array_new_elem_def jello_array_default_elem_def Let_def)

lemma sound_put_new:
  assumes "new_object x ob x' a" "same_code y x" "obj_ok (insert a (live (gc_view x))) ob'"
    "\<And>x''. grown_to x x'' (insert a (live (gc_view x))) \<Longrightarrow> sound y (g x'')"
  shows "sound y (g (x_put x' a ob'))"
proof (rule assms(4))
  note g = new_object_grown [OF assms(1)] and a = new_objectD(9) [OF assms(1)]
  have "mach (insert a (live (gc_view x))) (x_put x' a ob')"
    by (rule mach_x_put [OF _ _ assms(3)]) (use g in \<open>simp_all add: grown_to_def\<close>)
  moreover have "obj_of (x_put x' a ob') p = obj_of x p" if "p \<in> live (gc_view x)" for p
    using that g a obj_of_put_other [of p a x' ob'] by (cases "p = a") (auto simp: grown_to_def)
  ultimately show "grown_to x (x_put x' a ob') (insert a (live (gc_view x)))"
    using g by (simp add: grown_to_def)
qed

lemma sound_array_new:
  assumes m: "mach_ok x" and al: "allocator_ok malloc" and r: "reg_in x (ra ins)" "reg_in x (rb ins)"
    and k: "x_kinds x ! ra ins = JELLO_T_ARRAY"
  shows "sound x (op_array_new malloc side x ins)"
proof -
  let ?len = "rg32 x (rb ins)" and ?t = "f_reg_types (x_f x) ! ra ins"
  have "sound x (rbind (x_new x (\<lambda>vm. new_obj malloc vm 24 (OArray ?t (replicate (unat ?len) jello_make_null)))) (\<lambda>(x, a).
     let x = x_put x a (OArray ?t (replicate (unat ?len) (array_new_elem (x_m x) ?t))) in
     continue_with x (vm_store_ptr (x_rf x) (ra ins) a)))"
  proof (rule sound_new [OF m al], simp_all only: prod.case Let_def)
    fix x1 a assume n: "new_object x (OArray ?t (replicate (unat ?len) jello_make_null)) x1 a"
    show "sound x (continue_with (x_put x1 a (OArray ?t (replicate (unat ?len) (array_new_elem (x_m x1) ?t))))
        (vm_store_ptr (x_rf (x_put x1 a (OArray ?t (replicate (unat ?len) (array_new_elem (x_m x1) ?t))))) (ra ins) a))"
    proof (rule sound_put_new [OF n same_code_refl, where g = "\<lambda>x. continue_with x (vm_store_ptr (x_rf x) (ra ins) a)"])
      fix x2 assume g: "grown_to x x2 (insert a (live (gc_view x)))"
      show "sound x (continue_with x2 (vm_store_ptr (x_rf x2) (ra ins) a))"
        by (rule sound_store_ptr [of "insert a (live (gc_view x))"])
          (use g grown_regs [OF g] grown_code [OF g] r k in \<open>simp_all add: grown_to_def is_pointer_kind_def ptr_ok_def\<close>)
    qed (simp add: obj_ok_def)
  qed (simp add: obj_ok_def)
  moreover have "x_new x (\<lambda>vm. None) = Inl PANIC"
    using collect_ok [of "gc_view x"] m by (auto simp: x_new_def mach_ok_def mach_def)
  ultimately show ?thesis using load_u32_run [OF m r(2)] sound_trap_here [OF m]
    by (cases "?len = 0 \<or> side (8 * ucast ?len)") (simp_all add: op_array_new_def jello_array_new_def Let_def)
qed

lemma sound_array_len:
  assumes m: "mach_ok x" and t: "well_typed x" and r: "reg_in x (ra ins)" "reg_in x (rb ins)"
    and k: "x_kinds x ! ra ins = JELLO_T_I32" "x_kinds x ! rb ins = JELLO_T_ARRAY"
  shows "sound x (op_array_len x ins)"
  unfolding op_array_len_def
proof (rule sound_deref [OF m r(2)])
  assume p: "rg64 x (rb ins) \<in> live (gc_view x)" "rg64 x (rb ins) \<noteq> 0"
  show "sound x (rbind (array_at x (rg64 x (rb ins))) (\<lambda>(t, vs). continue_with x (vm_store_u32 (x_rf x) (ra ins) (of_nat (length vs)))))"
    using typed_reads(2) [OF m t r(2) p(2,1) k(2)] sound_u32_result [OF m r(1)] k(1) by (auto simp: is_pointer_or_dynamic_def)
qed (simp add: k is_pointer_kind_def)

text \<open>A number stored in place: at most a numeric box changes.\<close>

definition stored_inplace :: "addr set \<Rightarrow> exec_ctx \<Rightarrow> (exec_ctx \<times> jello_value \<times> bool) run \<Rightarrow> bool" where
  "stored_inplace S x r \<longleftrightarrow> (case r of Inl _ \<Rightarrow> False | Inr (x', cur', done) \<Rightarrow>
     mach S x' \<and> val_ok S cur' \<and> x_m x' = x_m x \<and> x_fr x' = x_fr x \<and> x_below x' = x_below x \<and> (\<not> done \<longrightarrow> x' = x) \<and>
     (\<forall>p ob. obj_of x p = Inr ob \<longrightarrow> \<not> is_numbox ob \<longrightarrow> obj_of x' p = Inr ob))"

lemma inplace_put:
  assumes "mach S x" "val_ok S cur" "jello_is_ptr cur" "obj_of x (jello_as_ptr cur) = Inr ob" "is_numbox ob" "is_numbox ob'"
  shows "stored_inplace S x (Inr (x_put x (jello_as_ptr cur) ob', cur, True))"
proof -
  have "jello_as_ptr cur \<in> S" using assms(2,3) by (simp add: val_ok_def)
  from mach_x_put [OF assms(1) this numbox_ok [OF assms(6)]]
  have "mach S (x_put x (jello_as_ptr cur) ob')" .
  moreover have "obj_of (x_put x (jello_as_ptr cur) ob') p = Inr q" if "obj_of x p = Inr q" "\<not> is_numbox q" for p q
    using that assms(4,5) obj_of_put_other [of p "jello_as_ptr cur" x ob'] by (cases "p = jello_as_ptr cur") auto
  ultimately show ?thesis using assms(2) by (simp add: stored_inplace_def)
qed

lemma store_num_inplace_ok:
  assumes m: "mach S x" and r: "reg_in x r" and v: "val_ok S cur"
  shows "stored_inplace S x (vm_store_num_inplace x r cur)"
proof -
  note run = top_reg_run [OF m r]
  have no: "stored_inplace S x (Inr (x, cur, False))" and imm: "stored_inplace S x (Inr (x, jello_make_i32 u, True))" for u
    using m v by (simp_all add: stored_inplace_def)
  obtain ob where ob: "box_of x cur = Inr ob"
      "\<And>b. ob = Some b \<Longrightarrow> jello_is_ptr cur \<and> obj_of x (jello_as_ptr cur) = Inr b"
    using box_of_ok [OF m v] by metis
  have put: "stored_inplace S x (Inr (x_put x (jello_as_ptr cur) b', cur, True))"
    if "ob = Some b" "is_numbox b" "is_numbox b'" for b b'
    using inplace_put [OF m v] ob(2) [OF that(1)] that(2,3) by blast
  show ?thesis using run no imm put
    by (cases "x_kinds x ! r")
      (auto simp: vm_store_num_inplace_def Let_def ob(1) load_store_defs jello_slot_size_def is_numbox_def
        split: option.split heap_obj.split)
qed

lemma inplace_cases:
  assumes "stored_inplace S x r"
  obtains x' cur' d where "r = Inr (x', cur', d)" "mach S x'" "val_ok S cur'" "x_m x' = x_m x" "x_fr x' = x_fr x"
    "x_below x' = x_below x" "\<not> d \<Longrightarrow> x' = x" "\<And>p ob. obj_of x p = Inr ob \<Longrightarrow> \<not> is_numbox ob \<Longrightarrow> obj_of x' p = Inr ob"
  using assms by (auto simp: stored_inplace_def split: sum.splits)

lemma array_at_obj: "array_at x p = Inr (t, vs) \<longleftrightarrow> obj_of x p = Inr (OArray t vs)"
  by (cases "obj_of x p") (auto simp: array_at_def split: heap_obj.splits)

lemma array_put_ok:
  assumes "mach S x" "a \<in> S" "array_at x a = Inr (t, vs)" "i < length vs" "val_ok S v"
  shows "\<exists>x'. array_put x a i v = Inr x' \<and> x' = x_put x a (OArray t (vs[i := v])) \<and> mach S x'"
proof -
  obtain ob where "obj_of x a = Inr ob" "obj_ok S ob" by (rule obj_of_live [OF assms(1,2)])
  then have "obj_ok S (OArray t vs)" using assms(3) by (simp add: array_at_obj)
  then have "obj_ok S (OArray t (vs[i := v]))" using assms(4,5) set_update_subset_insert [of vs i v]
    by (auto simp: obj_ok_def)
  then show ?thesis using assms by (simp add: array_put_def mach_x_put)
qed

lemma sound_array_put:
  assumes "mach S x'" "same_code x x'" "a \<in> S" "array_at x' a = Inr (t, vs)" "i < length vs" "val_ok S v"
  shows "sound x (and_continue (array_put x' a i v))"
proof -
  obtain x'' where x'': "array_put x' a i v = Inr x''" "x'' = x_put x' a (OArray t (vs[i := v]))" "mach S x''"
    using array_put_ok [OF assms(1,3-6)] by blast
  have "sound x (Inr (OP_CONTINUE, x''))" by (rule sound_Inr [OF x''(3)]) (use x''(2) assms(2) in simp)
  then show ?thesis by (simp add: x''(1) and_continue_def)
qed

lemma f64_array_run:
  assumes "mach_ok x" "reg_in x r" "reg_in x b"
  shows "\<exists>e. f64_array x r b = Inr e \<and> (e \<longrightarrow> x_kinds x ! r = JELLO_T_F64)"
proof -
  note run = top_reg_run(1) [OF assms(1) [unfolded mach_ok_def]]
  have "\<exists>e. array_elem_kind (x_m x) (x_f x) b = Inr e" using run [OF assms(3)] by (simp add: array_elem_kind_def Let_def)
  then obtain e where "array_elem_kind (x_m x) (x_f x) b = Inr e" ..
  then show ?thesis using run [OF assms(2)] by (cases "x_kinds x ! r = JELLO_T_F64") (auto simp: f64_array_def)
qed

lemma sound_array_get:
  assumes m: "mach_ok x" and al: "allocator_ok malloc" and t: "well_typed x" and c: "casts_ok x (ra ins)"
    and r: "reg_in x (ra ins)" "reg_in x (rb ins)" "reg_in x (rc ins)"
    and k: "x_kinds x ! rb ins = JELLO_T_ARRAY"
  shows "sound x (op_array_get fp malloc x ins)"
  unfolding op_array_get_def
proof (rule sound_deref [OF m r(2)])
  let ?p = "rg64 x (rb ins)" and ?i = "unat (rg32 x (rc ins))"
  assume p: "?p \<in> live (gc_view x)" "?p \<noteq> 0"
  obtain ty vs where a: "array_at x ?p = Inr (ty, vs)" "\<forall>v\<in>set vs. val_ok (live (gc_view x)) v"
    using typed_reads(2) [OF m t r(2) p(2,1) k] by blast
  obtain e where e: "f64_array x (ra ins) (rb ins) = Inr e" "e \<Longrightarrow> x_kinds x ! ra ins = JELLO_T_F64"
    using f64_array_run [OF m r(1,2)] by blast
  have slow: "sound x (and_continue (vm_store_from_boxed fp malloc x (ra ins) (vs ! ?i)))" if "?i < length vs"
    by (rule sound_from_boxed [OF m al r(1) c]) (use a(2) that in simp)
  have fast: "sound x (continue_with x (vm_store_f64 (x_rf x) (ra ins) d))" if e for d
    unfolding vm_store_f64_def
    by (rule sound_store_i64(1) [OF m [unfolded mach_ok_def] same_code_refl])
      (use r(1) e(2) [OF that] in \<open>simp_all add: wide_in_def jello_slot_size_def reg_ok_def is_pointer_kind_def\<close>)
  have ob: "\<exists>ob. box_of x (vs ! ?i) = Inr ob" if "?i < length vs"
    by (rule box_of_ok [OF m [unfolded mach_ok_def], of "vs ! ?i"]) (use a(2) that in auto)
  show "sound x (rbind (vm_load_u32 (x_rf x) (rc ins)) (\<lambda>idx. rbind (array_at x ?p) (\<lambda>(t, vs).
       if length vs \<le> unat idx then trap_continue x JELLO_TRAP_BOUNDS ''array_get index out of bounds''
       else (let v = vs ! unat idx; slow = and_continue (vm_store_from_boxed fp malloc x (ra ins) v) in
          rbind (f64_array x (ra ins) (rb ins)) (\<lambda>fast.
            if fast then rbind (box_of x v) (\<lambda>ob. case ob of
                  Some (OBoxF64 _ d) \<Rightarrow> continue_with x (vm_store_f64 (x_rf x) (ra ins) d) | _ \<Rightarrow> slow)
            else slow)))))"
  proof (cases "?i < length vs")
    case True
    then show ?thesis using slow fast ob load_u32_run [OF m r(3)] a(1) e(1)
      by (auto simp: Let_def split: option.split heap_obj.split)
  next
    case False
    then show ?thesis using load_u32_run [OF m r(3)] a(1) sound_trap_here [OF m] by simp
  qed
qed (simp add: k is_pointer_kind_def)

lemma sound_array_set:
  assumes m: "mach_ok x" and al: "allocator_ok malloc" and t: "well_typed x"
    and r: "reg_in x (ra ins)" "reg_in x (rb ins)" "reg_in x (rc ins)"
    and k: "x_kinds x ! rb ins = JELLO_T_ARRAY"
  shows "sound x (op_array_set malloc x ins)"
  unfolding op_array_set_def
proof (rule sound_deref [OF m r(2)])
  let ?p = "rg64 x (rb ins)" and ?i = "unat (rg32 x (rc ins))" and ?L = "live (gc_view x)"
  assume p: "?p \<in> ?L" "?p \<noteq> 0"
  have mL: "mach ?L x" using m by (simp add: mach_ok_def)
  obtain ty vs where a: "array_at x ?p = Inr (ty, vs)" "\<forall>v\<in>set vs. val_ok ?L v"
    using typed_reads(2) [OF m t r(2) p(2,1) k] by blast
  obtain e where e: "f64_array x (ra ins) (rb ins) = Inr e" "e \<Longrightarrow> x_kinds x ! ra ins = JELLO_T_F64"
    using f64_array_run [OF m r(1,2)] by blast
  let ?slow = "rbind (vm_store_num_inplace x (ra ins) (vs ! ?i)) (\<lambda>(x, cur', done).
      if done then and_continue (array_put x ?p ?i cur')
      else rbind (boxed_element malloc x (ra ins)) (\<lambda>(x, v). and_continue (array_put x ?p ?i v)))"
  have elem: "sound x (rbind (boxed_element malloc x (ra ins)) (\<lambda>(x, v). and_continue (array_put x ?p ?i v)))"
    if i: "?i < length vs"
  proof (rule sound_element [OF m al r(1)], simp only: prod.case)
    fix x' v T assume g: "grown_to x x' T" "val_ok T v"
    show "sound x (and_continue (array_put x' ?p ?i v))"
      by (rule sound_array_put [OF _ grown_code [OF g(1)] _ _ i g(2)])
        (use g(1) p(1) a(1) in \<open>auto simp: grown_to_def array_at_obj\<close>)
  qed
  have slow: "sound x ?slow" if i: "?i < length vs"
  proof (rule inplace_cases [OF store_num_inplace_ok [OF mL r(1)]])
    show "val_ok ?L (vs ! ?i)" using a(2) i by simp
    fix x' cur' d assume s: "vm_store_num_inplace x (ra ins) (vs ! ?i) = Inr (x', cur', d)" "mach ?L x'" "val_ok ?L cur'"
      "x_m x' = x_m x" "x_fr x' = x_fr x" "x_below x' = x_below x" "\<not> d \<Longrightarrow> x' = x"
      "\<And>p ob. obj_of x p = Inr ob \<Longrightarrow> \<not> is_numbox ob \<Longrightarrow> obj_of x' p = Inr ob"
    have "array_at x' ?p = Inr (ty, vs)" using a(1) s(8) by (simp add: array_at_obj is_numbox_def)
    then have "sound x (and_continue (array_put x' ?p ?i cur'))"
      using sound_array_put [OF s(2) _ p(1) _ i s(3)] s(4-6) by (simp add: same_code_def)
    then show "sound x ?slow" using s(1,7) elem [OF i] by (cases d) simp_all
  qed
  have fast: "sound x (rbind (vm_load_f64 (x_rf x) (ra ins)) (\<lambda>d. Inr (OP_CONTINUE, x_put x (jello_as_ptr (vs ! ?i)) (OBoxF64 bt d))))"
    if e "?i < length vs" "jello_is_ptr (vs ! ?i)" for bt
  proof -
    have "jello_as_ptr (vs ! ?i) \<in> ?L" using a(2) that by (simp add: val_ok_def)
    then show ?thesis using sound_put [OF m, of "jello_as_ptr (vs ! ?i)"] top_reg_run(3) [OF mL r(1)] e(2) [OF that(1)]
      by (simp add: load_store_defs jello_slot_size_def obj_ok_def)
  qed
  show "sound x (rbind (vm_load_u32 (x_rf x) (rc ins)) (\<lambda>idx. rbind (array_at x ?p) (\<lambda>(t, vs).
       if length vs \<le> unat idx then trap_continue x JELLO_TRAP_BOUNDS ''array_set index out of bounds''
       else (let cur = vs ! unat idx;
              slow = rbind (vm_store_num_inplace x (ra ins) cur) (\<lambda>(x, cur', done).
                if done then and_continue (array_put x ?p (unat idx) cur')
                else rbind (boxed_element malloc x (ra ins)) (\<lambda>(x, v). and_continue (array_put x ?p (unat idx) v))) in
          rbind (f64_array x (ra ins) (rb ins)) (\<lambda>fast.
            if fast then rbind (box_of x cur) (\<lambda>ob. case ob of
                  Some (OBoxF64 bt _) \<Rightarrow>
                    rbind (vm_load_f64 (x_rf x) (ra ins)) (\<lambda>d. Inr (OP_CONTINUE, x_put x (jello_as_ptr cur) (OBoxF64 bt d)))
                | _ \<Rightarrow> slow)
            else slow)))))"
  proof (cases "?i < length vs")
    case True
    obtain ob where ob: "box_of x (vs ! ?i) = Inr ob" "jello_is_ptr (vs ! ?i) \<longleftrightarrow> ob \<noteq> None"
      by (rule box_of_ok [OF mL, of "vs ! ?i"]) (use a(2) True in auto)
    show ?thesis
    proof (cases "\<exists>bt d. e \<and> ob = Some (OBoxF64 bt d)")
      case f: True
      then show ?thesis using True fast ob load_u32_run [OF m r(3)] a(1) e(1) by auto
    next
      case False
      then show ?thesis using True slow [OF True] ob load_u32_run [OF m r(3)] a(1) e(1)
        by (auto simp: Let_def split: option.split heap_obj.split)
    qed
  next
    case False
    then show ?thesis using load_u32_run [OF m r(3)] a(1) sound_trap_here [OF m] by simp
  qed
qed (simp add: k is_pointer_kind_def)

lemma sound_array_resize:
  assumes m: "mach_ok x" and t: "well_typed x" and r: "reg_in x (rb ins)" "reg_in x (rc ins)"
    and k: "x_kinds x ! rb ins = JELLO_T_ARRAY"
  shows "sound x (op_array_resize side x ins)"
  unfolding op_array_resize_def
proof (rule sound_deref [OF m r(1)])
  let ?p = "rg64 x (rb ins)" and ?L = "live (gc_view x)" and ?n = "rg32 x (rc ins)"
  assume p: "?p \<in> ?L" "?p \<noteq> 0"
  obtain ty vs where a: "array_at x ?p = Inr (ty, vs)" "\<forall>v\<in>set vs. val_ok ?L v"
    using typed_reads(2) [OF m t r(1) p(2,1) k] by blast
  obtain vs' b where rs: "jello_array_resize side (x_max_array_len x) (x_m x) ty vs ?n = (vs', b)" by force
  then have "\<forall>v\<in>set vs'. val_ok ?L v" using a(2) set_take_subset [of "unat ?n" vs]
    by (fastforce simp: jello_array_resize_def split: if_splits)
  then have "sound x (Inr (OP_CONTINUE, x_put x ?p (OArray ty vs')))" by (intro sound_put [OF m p(1)]) (simp add: obj_ok_def)
  then show "sound x (rbind (vm_load_u32 (x_rf x) (rc ins)) (\<lambda>new_len. rbind (array_at x ?p) (\<lambda>(t, vs).
       case jello_array_resize side (x_max_array_len x) (x_m x) t vs new_len of
         (vs', True) \<Rightarrow> Inr (OP_CONTINUE, x_put x ?p (OArray t vs'))
       | (vs', False) \<Rightarrow> trap_continue x JELLO_TRAP_LIMIT ''array_resize failed'')))"
    using load_u32_run [OF m r(2)] a(1) rs sound_trap_here [OF m] by (cases b) simp_all
qed (simp add: k is_pointer_kind_def)

lemma rooted_live:
  assumes "mach_ok x" "v \<in> set (gc_roots (x_vm x))"
  shows "val_ok (live (gc_view x)) v"
  using assms by (auto simp: mach_ok_def mach_def roots_ok_def)

text \<open>The copy loop of \<open>ARRAY_CONCAT2\<close>. The new array is rooted, the source is in a register, so both survive the
  collections of the clones.\<close>

definition cloned_to :: "exec_ctx \<Rightarrow> addr \<Rightarrow> u32 \<Rightarrow> nat \<Rightarrow> exec_ctx \<Rightarrow> bool" where
  "cloned_to x out t n x' \<longleftrightarrow> mach_ok x' \<and> x_m x' = x_m x \<and> x_fr x' = x_fr x \<and> x_below x' = x_below x \<and>
     gc_roots (x_vm x') = gc_roots (x_vm x) \<and> (\<exists>os. array_at x' out = Inr (t, os) \<and> length os = n) \<and>
     (\<forall>r. reg_in x r \<longrightarrow> is_pointer_kind (x_kinds x ! r) \<longrightarrow> rg64 x r \<noteq> 0 \<longrightarrow> rg64 x r \<noteq> out \<longrightarrow>
        obj_of x' (rg64 x r) = obj_of x (rg64 x r))"

lemma cloned_trans:
  assumes "cloned_to x out t n y" "cloned_to y out t n z"
  shows "cloned_to x out t n z"
  using assms by (auto simp: cloned_to_def reg_in_def)

lemma clone_step:
  assumes m: "mach_ok x" and al: "allocator_ok malloc"
    and out: "jello_from_ptr out \<in> set (gc_roots (x_vm x))" "jello_is_ptr out" "array_at x out = Inr (t, os)"
    and v: "val_ok (live (gc_view x)) v" and i: "i < length os"
  shows "rbind (vm_clone_numbox malloc x v) (\<lambda>(x, v). array_put x out i v) = Inl PANIC \<or>
    (\<exists>x'. rbind (vm_clone_numbox malloc x v) (\<lambda>(x, v). array_put x out i v) = Inr x' \<and> cloned_to x out t (length os) x')"
proof -
  have mL: "mach (live (gc_view x)) x" using m by (simp add: mach_ok_def)
  have o: "out \<in> live (gc_view x)"
    using rooted_live [OF m out(1)] out(2) by (simp add: val_ok_def jello_from_ptr_def jello_as_ptr_def)
  from clone_numbox_ok [OF mL al v] show ?thesis
  proof
    assume "\<exists>x' v'. vm_clone_numbox malloc x v = Inr (x', v') \<and> boxed_val (live (gc_view x)) x x' v'"
    then obtain x1 v1 where c: "vm_clone_numbox malloc x v = Inr (x1, v1)" "boxed_val (live (gc_view x)) x x1 v1" by blast
    obtain T where g: "grown_to x x1 T" "val_ok T v1" by (rule boxed_grown [OF m c(2)])
    have a1: "array_at x1 out = Inr (t, os)" using g(1) o out(3) by (auto simp: grown_to_def array_at_obj)
    have mT: "mach T x1" and oT: "out \<in> T" using g(1) o by (auto simp: grown_to_def)
    obtain x2 where x2: "array_put x1 out i v1 = Inr x2" "x2 = x_put x1 out (OArray t (os[i := v1]))" "mach T x2"
      using array_put_ok [OF mT oT a1 i g(2)] by blast
    have "obj_of x2 p = obj_of x p" if "p \<in> live (gc_view x)" "p \<noteq> out" for p
      using that g(1) by (simp add: x2(2) obj_of_put_other grown_to_def)
    moreover have "rg64 x r \<in> live (gc_view x)" if "reg_in x r" "is_pointer_kind (x_kinds x ! r)" "rg64 x r \<noteq> 0" for r
      using live_ptr_reg [OF m that(1,2)] that(3) by (simp add: ptr_ok_def)
    moreover obtain bl where "vm_heap (x_vm x1) out = Some bl" using a1 by (auto simp: array_at_obj obj_of_def split: option.splits)
    then have "array_at x2 out = Inr (t, os[i := v1])" by (simp add: x2(2) array_at_obj obj_of_def x_put_def)
    ultimately have "cloned_to x out t (length os) x2"
      using g(1) mach_live [OF x2(3)] unfolding cloned_to_def by (simp add: x2(2) grown_to_def)
    then show ?thesis using c(1) x2(1) by simp
  qed simp
qed

lemma clone_loop_ok:
  assumes "mach_ok x" "allocator_ok malloc" "jello_from_ptr out \<in> set (gc_roots (x_vm x))" "jello_is_ptr out"
    "array_at x out = Inr (t, os)" "reg_in x r" "is_pointer_kind (x_kinds x ! r)" "rg64 x r = src" "src \<noteq> 0" "src \<noteq> out"
    "array_at x src = Inr (ts, vs)" "\<forall>i\<in>set is. i < length vs \<and> base + i < length os"
  shows "array_clone_loop malloc x out base src is = Inl PANIC \<or>
    (\<exists>x'. array_clone_loop malloc x out base src is = Inr x' \<and> cloned_to x out t (length os) x')"
  using assms
proof (induction "is" arbitrary: x os)
  case Nil
  then show ?case by (auto simp: cloned_to_def)
next
  case (Cons i "is")
  have "src \<in> live (gc_view x)" using live_ptr_reg [OF Cons.prems(1,6,7)] Cons.prems(8,9) by (simp add: ptr_ok_def)
  then obtain ob where "obj_of x src = Inr ob" "obj_ok (live (gc_view x)) ob"
    using obj_of_live Cons.prems(1) unfolding mach_ok_def by metis
  then have "val_ok (live (gc_view x)) (vs ! i)" using Cons.prems(11,12) by (simp add: array_at_obj obj_ok_def)
  from clone_step [OF Cons.prems(1-5) this, of "base + i"] Cons.prems(12)
  consider "rbind (vm_clone_numbox malloc x (vs ! i)) (\<lambda>(x, v). array_put x out (base + i) v) = Inl PANIC"
    | x1 where "rbind (vm_clone_numbox malloc x (vs ! i)) (\<lambda>(x, v). array_put x out (base + i) v) = Inr x1"
      "cloned_to x out t (length os) x1" by auto
  moreover have run: "array_clone_loop malloc x out base src (i # is) =
      rbind (rbind (vm_clone_numbox malloc x (vs ! i)) (\<lambda>(x, v). array_put x out (base + i) v))
        (\<lambda>x. array_clone_loop malloc x out base src is)"
    using Cons.prems(11,12) by (simp add: rbind_assoc case_prod_unfold)
  ultimately show ?case
  proof cases
    case (2 x1)
    obtain os1 where os1: "array_at x1 out = Inr (t, os1)" "length os1 = length os" using 2(2) by (auto simp: cloned_to_def)
    have "array_clone_loop malloc x1 out base src is = Inl PANIC \<or>
        (\<exists>x'. array_clone_loop malloc x1 out base src is = Inr x' \<and> cloned_to x1 out t (length os1) x')"
    proof (rule Cons.IH)
      have "obj_of x1 src = obj_of x src" using 2(2) Cons.prems(6-10) by (auto simp: cloned_to_def)
      then show "array_at x1 src = Inr (ts, vs)" using Cons.prems(11) by (simp add: array_at_obj)
    qed (use 2(2) Cons.prems os1 in \<open>simp_all add: cloned_to_def reg_in_def\<close>)
    then show ?thesis using run 2 os1(2) cloned_trans by auto
  qed (simp add: run)
qed

text \<open>The end of \<open>ARRAY_CONCAT2\<close>: the second loop and the store of the new array, which is still rooted.\<close>

definition concat_tail :: "alloc_fun \<Rightarrow> jello_insn \<Rightarrow> addr \<Rightarrow> nat \<Rightarrow> addr \<Rightarrow> nat \<Rightarrow> exec_ctx \<Rightarrow> (op_result \<times> exec_ctx) run" where
  "concat_tail malloc ins out base py n x =
     rbind (array_clone_loop malloc x out base py [0..<n]) (\<lambda>x.
     rbind (vm_store_ptr (x_rf x) (ra ins) out) (\<lambda>rf. and_continue (x_pop_roots (set_rf x rf) 1)))"

lemma sound_concat_tail:
  assumes m: "mach_ok x" and al: "allocator_ok malloc" and c: "same_code y x"
    and r: "reg_in x (ra ins)" "reg_in x (rc ins)" and k: "is_pointer_kind (x_kinds x ! ra ins)" "is_pointer_kind (x_kinds x ! rc ins)"
    and out: "jello_from_ptr out \<in> set (gc_roots (x_vm x))" "jello_is_ptr out" "array_at x out = Inr (t, os)"
    and py: "rg64 x (rc ins) = py" "py \<noteq> 0" "py \<noteq> out" "array_at x py = Inr (ty, ys)" "base + length ys \<le> length os"
  shows "sound y (concat_tail malloc ins out base py (length ys) x)"
proof -
  from clone_loop_ok [OF m al out r(2) k(2) py(1-4), of "[0..<length ys]" base] py(5)
  consider "array_clone_loop malloc x out base py [0..<length ys] = Inl PANIC"
    | x4 where "array_clone_loop malloc x out base py [0..<length ys] = Inr x4" "cloned_to x out t (length os) x4"
    by auto
  then show ?thesis
  proof cases
    case (2 x4)
    have x4: "mach_ok x4" "jello_from_ptr out \<in> set (gc_roots (x_vm x4))" "same_code y x4" "reg_in x4 (ra ins)"
      "is_pointer_kind (x_kinds x4 ! ra ins)" using 2(2) out(1) c r(1) k(1) by (simp_all add: cloned_to_def same_code_def reg_in_def)
    have "ptr_ok (live (gc_view x4)) out"
      using rooted_live [OF x4(1,2)] out(2) by (simp add: ptr_ok_def val_ok_def jello_from_ptr_def jello_as_ptr_def)
    then obtain rf where rf: "vm_store_ptr (x_rf x4) (ra ins) out = Inr rf" "mach (live (gc_view x4)) (set_rf x4 rf)"
      using store_ptr_run [OF x4(1) [unfolded mach_ok_def] x4(4,5)] by metis
    then show ?thesis using 2(1) sound_pop_continue [OF rf(2), of y 1] x4(3) by (simp add: concat_tail_def)
  qed (simp add: concat_tail_def)
qed

lemma sound_concat_copy:
  assumes m: "mach_ok x" and al: "allocator_ok malloc" and n: "new_object x (OArray t (replicate l jello_make_null)) x1 out"
    and r: "reg_in x (ra ins)" "reg_in x (rb ins)" "reg_in x (rc ins)"
    and k: "x_kinds x ! ra ins = JELLO_T_ARRAY" "x_kinds x ! rb ins = JELLO_T_ARRAY" "x_kinds x ! rc ins = JELLO_T_ARRAY"
    and px: "rg64 x (rb ins) \<noteq> 0" "array_at x (rg64 x (rb ins)) = Inr (tx, xs)"
    and py: "rg64 x (rc ins) \<noteq> 0" "array_at x (rg64 x (rc ins)) = Inr (ty, ys)"
    and l: "l = length xs + length ys"
  shows "sound x (rbind (array_clone_loop malloc (x_push_root x1 (jello_from_ptr out)) out 0 (rg64 x (rb ins)) [0..<length xs])
    (concat_tail malloc ins out (length xs) (rg64 x (rc ins)) (length ys)))"
proof -
  let ?px = "rg64 x (rb ins)" and ?py = "rg64 x (rc ins)" and ?x2 = "x_push_root x1 (jello_from_ptr out)"
  note g = new_object_grown [OF n] and d = new_objectD [OF n]
  have lv: "?px \<in> live (gc_view x)" "?py \<in> live (gc_view x)"
    using live_ptr_reg [OF m r(2)] live_ptr_reg [OF m r(3)] k px(1) py(1) by (simp_all add: ptr_ok_def is_pointer_kind_def)
  have ok2: "mach_ok ?x2"
    by (rule mach_live [OF mach_push_root [OF d(5)]]) (simp add: val_ok_def jello_from_ptr_def jello_as_ptr_def)
  have o2: "array_at ?x2 out = Inr (t, replicate l jello_make_null)" using new_object_obj [OF n] by (simp add: array_at_obj)
  have s2: "array_at ?x2 ?px = Inr (tx, xs)" "array_at ?x2 ?py = Inr (ty, ys)" "?px \<noteq> out" "?py \<noteq> out"
    using g px py lv d(9) by (auto simp: grown_to_def array_at_obj)
  have r2: "reg_in ?x2 = reg_in x" "x_kinds ?x2 = x_kinds x" "rg64 ?x2 = rg64 x" using d(1,2) by (simp_all add: reg_in_def fun_eq_iff)
  have kp: "is_pointer_kind (x_kinds x ! ra ins)" "is_pointer_kind (x_kinds x ! rb ins)" "is_pointer_kind (x_kinds x ! rc ins)"
    by (simp_all add: k is_pointer_kind_def)
  have b2: "reg_in ?x2 (rb ins)" "is_pointer_kind (x_kinds ?x2 ! rb ins)" "rg64 ?x2 (rb ins) = ?px"
    using r(2) kp(2) d(1,2) by (simp_all add: reg_in_def)
  have "jello_from_ptr out \<in> set (gc_roots (x_vm ?x2))" by simp
  from clone_loop_ok [OF ok2 al this d(8) o2 b2 px(1) s2(3,1), of "[0..<length xs]" 0] l
  consider "array_clone_loop malloc ?x2 out 0 ?px [0..<length xs] = Inl PANIC"
    | x3 where "array_clone_loop malloc ?x2 out 0 ?px [0..<length xs] = Inr x3" "cloned_to ?x2 out t l x3"
    by auto
  then show ?thesis
  proof cases
    case (2 x3)
    obtain os where os: "array_at x3 out = Inr (t, os)" "length os = l" using 2(2) by (auto simp: cloned_to_def)
    have fr3: "x_m x3 = x_m x" "x_fr x3 = x_fr x" "x_below x3 = x_below x" "mach_ok x3"
      "jello_from_ptr out \<in> set (gc_roots (x_vm x3))" using 2(2) d(1-3) by (simp_all add: cloned_to_def)
    have "obj_of x3 ?py = obj_of ?x2 ?py" using 2(2) s2(4) py(1) r(3) kp(3) d(1,2)
      by (simp add: cloned_to_def reg_in_def)
    then have y3: "array_at x3 ?py = Inr (ty, ys)" using s2 by (simp add: array_at_obj)
    have "sound x (concat_tail malloc ins out (length xs) ?py (length ys) x3)"
      by (rule sound_concat_tail [OF fr3(4) al _ _ _ _ _ fr3(5) d(8) os(1) _ py(1) s2(4) y3])
        (use fr3 r kp os(2) l in \<open>simp_all add: same_code_def reg_in_def\<close>)
    then show ?thesis using 2(1) by simp
  qed simp
qed

lemma new_array_run:
  assumes "mach_ok x"
  shows "x_new x (\<lambda>vm. jello_array_new malloc side vm t (of_nat n)) = Inl PANIC \<or>
    x_new x (\<lambda>vm. jello_array_new malloc side vm t (of_nat n)) =
      x_new x (\<lambda>vm. new_obj malloc vm 24 (OArray t (replicate (unat (of_nat n :: u32)) jello_make_null)))"
  using collect_ok [of "gc_view x"] assms
  by (cases "(of_nat n :: u32) = 0 \<or> side (8 * ucast (of_nat n :: u32))")
    (auto simp: jello_array_new_def x_new_def mach_ok_def mach_def)

lemma sound_array_concat2:
  assumes m: "mach_ok x" and al: "allocator_ok malloc" and t: "well_typed x"
    and r: "reg_in x (ra ins)" "reg_in x (rb ins)" "reg_in x (rc ins)"
    and k: "x_kinds x ! ra ins = JELLO_T_ARRAY" "x_kinds x ! rb ins = JELLO_T_ARRAY" "x_kinds x ! rc ins = JELLO_T_ARRAY"
  shows "sound x (op_array_concat2 malloc side x ins)"
  unfolding op_array_concat2_def
proof (rule sound_deref [OF m r(2)], goal_cases)
  case 2
  show ?case
  proof (rule sound_deref [OF m r(3)], goal_cases)
    case 2
    let ?px = "rg64 x (rb ins)" and ?py = "rg64 x (rc ins)" and ?ty = "f_reg_types (x_f x) ! ra ins"
    note px = \<open>?px \<in> live (gc_view x)\<close> \<open>?px \<noteq> 0\<close> and py = \<open>?py \<in> live (gc_view x)\<close> \<open>?py \<noteq> 0\<close>
    obtain tx xs ty ys where a: "array_at x ?px = Inr (tx, xs)" "array_at x ?py = Inr (ty, ys)"
      using typed_reads(2) [OF m t r(2) px(2,1) k(2)] typed_reads(2) [OF m t r(3) py(2,1) k(3)] by blast
    let ?n = "length xs + length ys"
    let ?copy = "\<lambda>(x1, out). rbind (array_clone_loop malloc (x_push_root x1 (jello_from_ptr out)) out 0 ?px [0..<length xs])
      (concat_tail malloc ins out (length xs) ?py (length ys))"
    have "sound x (rbind (x_new x (\<lambda>vm. jello_array_new malloc side vm ?ty (of_nat ?n))) ?copy)" if "?n \<le> 0xffffffff"
    proof -
      have u: "unat (of_nat ?n :: u32) = ?n" using that by (simp add: unat_of_nat take_bit_nat_eq_self del: of_nat_add)
      have "sound x (rbind (x_new x (\<lambda>vm. new_obj malloc vm 24 (OArray ?ty (replicate ?n jello_make_null)))) ?copy)"
        by (rule sound_new [OF m al], simp_all only: prod.case)
          (use sound_concat_copy [OF m al _ r k px(2) a(1) py(2) a(2) refl] in \<open>simp_all add: obj_ok_def\<close>)
      then show ?thesis using new_array_run [OF m, of malloc side ?ty ?n] unfolding u by auto
    qed
    then show ?case using a sound_trap_here [OF m] by (simp add: Let_def concat_tail_def [abs_def] not_less)
  qed (simp add: k is_pointer_kind_def)
qed (simp add: k is_pointer_kind_def)

subsection \<open>Enums\<close>

lemma enum_at_obj: "enum_at x p = Inr (g, vs) \<longleftrightarrow> (\<exists>t. obj_of x p = Inr (OEnum t g vs))"
  by (cases "obj_of x p") (auto simp: enum_at_def split: heap_obj.splits)

lemma sound_enum_tag:
  assumes m: "mach_ok x" and r: "reg_in x (ra ins)" "reg_in x (rb ins)"
    and k: "x_kinds x ! ra ins = JELLO_T_I32" "is_pointer_kind (x_kinds x ! rb ins)"
  shows "sound x (op_enum_tag x ins)"
  unfolding op_enum_tag_def
proof (rule sound_deref [OF m r(2)])
  assume "rg64 x (rb ins) \<in> live (gc_view x)"
  then obtain ob where ob: "obj_of x (rg64 x (rb ins)) = Inr ob" using obj_of_live m unfolding mach_ok_def by metis
  show "sound x (rbind (obj_of x (rg64 x (rb ins))) (\<lambda>ob.
       if obj_kind ob \<noteq> 11 then trap_continue x JELLO_TRAP_TYPE_MISMATCH ''enum_tag on non-enum''
       else rbind (enum_at x (rg64 x (rb ins))) (\<lambda>(tag, vs). continue_with x (vm_store_u32 (x_rf x) (ra ins) tag))))"
  proof (cases "obj_kind ob = 11")
    case True
    then show ?thesis using ob sound_u32_result [OF m r(1)] k(1) obj_kind_cases(4) [OF True]
      by (auto simp: enum_at_def is_pointer_or_dynamic_def)
  qed (simp add: ob sound_trap_here [OF m])
qed (rule k(2))

lemma sound_enum_get:
  assumes m: "mach_ok x" and al: "allocator_ok malloc" and c: "casts_ok x (ra ins)"
    and r: "reg_in x (ra ins)" "reg_in x (rb ins)" "reg_in x (rc ins)" and k: "is_pointer_kind (x_kinds x ! rb ins)"
  shows "sound x (op_enum_get fp malloc x ins)"
  unfolding op_enum_get_def
proof (rule sound_deref [OF m r(2)])
  let ?L = "live (gc_view x)" and ?p = "rg64 x (rb ins)"
  assume "?p \<in> ?L"
  then obtain ob where ob: "obj_of x ?p = Inr ob" "obj_ok ?L ob" using obj_of_live m unfolding mach_ok_def by metis
  show "sound x (rbind (obj_of x ?p) (\<lambda>ob.
       if obj_kind ob \<noteq> 11 then trap_continue x JELLO_TRAP_TYPE_MISMATCH ''enum_get on non-enum''
       else rbind (vm_load_u32 (x_rf x) (rc ins)) (\<lambda>idx. rbind (enum_at x ?p) (\<lambda>(tag, vs).
           if length vs \<le> unat idx then trap_continue x JELLO_TRAP_BOUNDS ''enum_get index out of bounds''
           else and_continue (vm_store_from_boxed fp malloc x (ra ins) (vs ! unat idx))))))"
  proof (cases "obj_kind ob = 11")
    case True
    then obtain t g vs where e: "ob = OEnum t g vs" using obj_kind_cases(4) by blast
    then have "val_ok ?L (vs ! i)" if "i < length vs" for i using ob(2) that by (simp add: obj_ok_def)
    then show ?thesis using ob e load_u32_run [OF m r(3)] sound_from_boxed [OF m al r(1) c] sound_trap_here [OF m]
      by (auto simp: enum_at_def)
  qed (simp add: ob sound_trap_here [OF m])
qed (rule k)

text \<open>The fields of \<open>ENUM_NEW\<close> are not rooted while the next one is boxed. Without boxes there is no allocation among
  them.\<close>

definition unboxed_fields :: "exec_ctx \<Rightarrow> nat set \<Rightarrow> bool" where
  "unboxed_fields x rs \<longleftrightarrow> (\<forall>r\<in>rs. x_kinds x ! r \<notin> {JELLO_T_F16, JELLO_T_F32, JELLO_T_F64, JELLO_T_I64})"

lemma unboxed_field_run:
  assumes "mach_ok x" "reg_in x r" "unboxed_fields x {r}"
  shows "\<exists>v. vm_box_from_typed malloc x (x_f x) (x_rf x) r = Inr (x, v) \<and> val_ok (live (gc_view x)) v"
proof -
  note mL = assms(1) [unfolded mach_ok_def]
  have "typed_box (x_kinds x ! r) t u w = None" for t u w
    using assms(3) by (cases "x_kinds x ! r") (simp_all add: unboxed_fields_def)
  then show ?thesis using box_from_typed_run [OF mach_frames [OF mL] reg_in_types [OF mL assms(2)], of malloc]
      typed_val_ok [OF top_reg_ok [OF mL assms(2)]] by simp
qed

lemma enum_fields_run:
  assumes "mach_ok x" "\<forall>r\<in>set rs. reg_in x r" "unboxed_fields x (set rs)"
  shows "\<exists>vs. enum_fields malloc x rs = Inr (x, vs) \<and> (\<forall>v\<in>set vs. val_ok (live (gc_view x)) v)"
  using assms(2,3)
proof (induction rs)
  case (Cons r rs)
  obtain vs where vs: "enum_fields malloc x rs = Inr (x, vs)" "\<forall>v\<in>set vs. val_ok (live (gc_view x)) v"
    using Cons by (auto simp: unboxed_fields_def)
  obtain v where v: "vm_box_from_typed malloc x (x_f x) (x_rf x) r = Inr (x, v)" "val_ok (live (gc_view x)) v"
    using unboxed_field_run [OF assms(1), of r malloc] Cons.prems by (auto simp: unboxed_fields_def)
  have "\<not> unat (f_nregs (x_f x)) \<le> r" using Cons.prems by (simp add: reg_in_def)
  then show ?case using vs v by simp
qed simp

lemma mach_enum_table:
  assumes "mach S x" "\<And>slots p. Some slots \<in> set ts \<Longrightarrow> p \<in> set slots \<Longrightarrow> ptr_ok S p"
  shows "mach S (x\<lparr>x_vm := (x_vm x)\<lparr>enum_nullary_by_type := ts\<rparr>\<rparr>)"
  by (rule mach_set_roots [OF assms(1)]) (use assms in \<open>auto simp: mach_def roots_ok_def\<close>)

lemma sound_nullary_new:
  assumes m: "mach_ok x" and al: "allocator_ok malloc" and r: "reg_in x (ra ins)" "x_kinds x ! ra ins = JELLO_T_ENUM"
    and t: "unat t < length (enum_nullary_by_type (x_vm x))" and g: "unat g < 256"
    and x1: "x1 = x\<lparr>x_vm := (x_vm x)\<lparr>enum_nullary_by_type := (enum_nullary_by_type (x_vm x))[unat t := Some slots]\<rparr>\<rparr>"
      "length slots = 256" "\<forall>p\<in>set slots. ptr_ok (live (gc_view x)) p"
  shows "sound x (rbind (x_new x1 (\<lambda>vm. map_option (\<lambda>(vm, e). (store_nullary vm t g e, e)) (jello_enum_new malloc vm t g [])))
    (\<lambda>(x, e). continue_with x (vm_store_ptr (x_rf x) (ra ins) e)))"
proof -
  have "mach (live (gc_view x)) x1" unfolding x1(1)
  proof (rule mach_enum_table [OF m [unfolded mach_ok_def]])
    fix ss p assume "Some ss \<in> set ((enum_nullary_by_type (x_vm x))[unat t := Some slots])" "p \<in> set ss"
    moreover have "ptr_ok (live (gc_view x)) p" if "Some ss \<in> set (enum_nullary_by_type (x_vm x))" "p \<in> set ss" for ss
      using m that by (auto simp: mach_ok_def mach_def roots_ok_def)
    ultimately show "ptr_ok (live (gc_view x)) p" using x1(3) set_update_subset_insert [of "enum_nullary_by_type (x_vm x)"]
      by fastforce
  qed
  then have ok1: "mach_ok x1" by (rule mach_live)
  have fr: "x_m x1 = x_m x" "x_fr x1 = x_fr x" "x_below x1 = x_below x" by (simp_all add: x1(1))
  have run: "x_new x1 (\<lambda>vm. map_option (\<lambda>(vm, e). (store_nullary vm t g e, e)) (jello_enum_new malloc vm t g [])) =
      rbind (x_new x1 (\<lambda>vm. new_obj malloc vm 16 (OEnum t g []))) (\<lambda>(x, e). Inr (x\<lparr>x_vm := store_nullary (x_vm x) t g e\<rparr>, e))"
    by (auto simp: x_new_def jello_enum_new_def split: option.split)
  show ?thesis unfolding run rbind_assoc
  proof (rule sound_new [OF ok1 al], simp_all only: prod.case rbind_Inr)
    fix x2 e assume n: "new_object x1 (OEnum t g []) x2 e"
    note d = new_objectD [OF n]
    have en: "enum_nullary_by_type (x_vm x2) = (enum_nullary_by_type (x_vm x))[unat t := Some slots]"
      using n by (auto simp: new_object_def same_fields_def x1(1))
    let ?T = "insert e (live (gc_view x1))"
    have "mach ?T (x2\<lparr>x_vm := store_nullary (x_vm x2) t g e\<rparr>)" unfolding store_nullary_def
    proof (rule mach_enum_table [OF d(5)])
      fix ss p assume a: "Some ss \<in> set ((enum_nullary_by_type (x_vm x2))[unat t :=
          map_option (\<lambda>slots. slots[unat g := e]) (enum_nullary_by_type (x_vm x2) ! unat t)])" "p \<in> set ss"
      have old: "ptr_ok ?T p" if "Some ss \<in> set (enum_nullary_by_type (x_vm x2))" "p \<in> set ss" for ss
        using d(5) that by (auto simp: mach_def roots_ok_def)
      have "Some slots \<in> set (enum_nullary_by_type (x_vm x2))" using t by (simp add: en set_update_memI)
      moreover have "ss = slots[unat g := e] \<or> Some ss \<in> set (enum_nullary_by_type (x_vm x2))"
        using a(1) t set_update_subset_insert [of "enum_nullary_by_type (x_vm x2)" "unat t"] by (fastforce simp: en)
      ultimately show "ptr_ok ?T p" using old a(2) set_update_subset_insert [of slots "unat g" e]
        by (auto simp: ptr_ok_def)
    qed
    then show "sound x (continue_with (x2\<lparr>x_vm := store_nullary (x_vm x2) t g e\<rparr>)
        (vm_store_ptr (x_rf (x2\<lparr>x_vm := store_nullary (x_vm x2) t g e\<rparr>)) (ra ins) e))"
      by (rule sound_store_ptr) (use d fr r in \<open>simp_all add: same_code_def reg_in_def is_pointer_kind_def ptr_ok_def\<close>)
  qed (simp add: obj_ok_def)
qed

lemma gc_view_enum: "gc_view (x\<lparr>x_vm := (x_vm x)\<lparr>enum_nullary_by_type := ts\<rparr>\<rparr>) = (gc_view x)\<lparr>enum_nullary_by_type := ts\<rparr>"
  by (simp add: gc_view_def)

lemma mach_ok_slots:
  "mach_ok x \<Longrightarrow> Some slots \<in> set (enum_nullary_by_type (x_vm x)) \<Longrightarrow> p \<in> set slots \<Longrightarrow> ptr_ok (live (gc_view x)) p"
  by (auto simp: mach_ok_def mach_def roots_ok_def)

lemma x_new_table:
  assumes "mach_ok x" "mach_ok (x\<lparr>x_vm := (x_vm x)\<lparr>enum_nullary_by_type := ts\<rparr>\<rparr>)"
  shows "x_new x (\<lambda>vm. new (vm\<lparr>enum_nullary_by_type := ts\<rparr>)) = x_new (x\<lparr>x_vm := (x_vm x)\<lparr>enum_nullary_by_type := ts\<rparr>\<rparr>) new"
proof -
  note mach_ok_collect [OF assms(1)] mach_ok_collect [OF assms(2), unfolded gc_view_enum]
  then show ?thesis unfolding x_new_def gc_view_enum by (simp split: option.split)
qed

lemma sound_enum_new:
  assumes m: "mach_ok x" and al: "allocator_ok malloc" and en: "enums_ok (x_vm x)"
    and r: "reg_in x (ra ins)" "x_kinds x ! ra ins = JELLO_T_ENUM"
    and f: "\<forall>i<unat (i_c ins). reg_in x (rb ins + i)" "unboxed_fields x {rb ins..<rb ins + unat (i_c ins)}"
  shows "sound x (op_enum_new malloc x ins)"
proof (cases "unat (i_c ins) = 0")
  case False
  obtain vs where vs: "enum_fields malloc x [rb ins..<rb ins + unat (i_c ins)] = Inr (x, vs)"
      "\<forall>v\<in>set vs. val_ok (live (gc_view x)) v"
    using enum_fields_run [OF m, of "[rb ins..<rb ins + unat (i_c ins)]" malloc] f
    by (force simp: le_iff_add)
  have "sound x (rbind (x_new x (\<lambda>vm. jello_enum_new malloc vm (f_reg_types (x_f x) ! ra ins) (i_imm ins) vs))
      (\<lambda>(x, e). continue_with x (vm_store_ptr (x_rf x) (ra ins) e)))"
    unfolding jello_enum_new_def
    by (rule sound_new [OF m al], simp_all only: prod.case)
      (use vs(2) sound_store_new r in \<open>auto simp: obj_ok_def is_pointer_kind_def\<close>)
  then show ?thesis using False vs(1) by (simp add: op_enum_new_def Let_def)
next
  case True
  let ?t = "f_reg_types (x_f x) ! ra ins" and ?g = "i_imm ins" and ?ts = "enum_nullary_by_type (x_vm x)"
  let ?st = "\<lambda>(x, e). continue_with x (vm_store_ptr (x_rf x) (ra ins) e)"
  have rk: "is_pointer_kind (x_kinds x ! ra ins)" using r(2) by (simp add: is_pointer_kind_def)
  have fresh: "sound x (rbind (x_new x (\<lambda>vm. jello_enum_new malloc vm ?t ?g [])) ?st)"
    unfolding jello_enum_new_def
    by (rule sound_new [OF m al], simp_all only: prod.case) (use sound_store_new r(1) rk in \<open>auto simp: obj_ok_def\<close>)
  have "sound x (rbind (x_new x (\<lambda>vm. jello_enum_nullary_intern malloc vm ?t ?g)) ?st)"
  proof (cases "ENUM_NULLARY_TAGS \<le> ?g \<or> length ?ts \<le> unat ?t")
    case True
    then have "x_new x (\<lambda>vm. jello_enum_nullary_intern malloc vm ?t ?g) = x_new x (\<lambda>vm. jello_enum_new malloc vm ?t ?g [])"
      by (auto simp: x_new_def jello_enum_nullary_intern_def enum_nullary_type_table_def)
    then show ?thesis using fresh by simp
  next
    case False
    then have t: "unat ?t < length ?ts" and g: "unat ?g < 256" by (simp_all add: ENUM_NULLARY_TAGS_def word_le_nat_alt)
    define slots where "slots = (case ?ts ! unat ?t of None \<Rightarrow> no_slots | Some s \<Rightarrow> s)"
    have sl: "length slots = 256" "\<forall>p\<in>set slots. ptr_ok (live (gc_view x)) p"
    proof -
      show "length slots = 256" using en t by (cases "?ts ! unat ?t") (auto simp: slots_def no_slots_def enums_ok_def)
      show "\<forall>p\<in>set slots. ptr_ok (live (gc_view x)) p"
        using mach_ok_slots [OF m] nth_mem [OF t] by (cases "?ts ! unat ?t") (simp_all add: slots_def no_slots_def)
    qed
    let ?x1 = "x\<lparr>x_vm := (x_vm x)\<lparr>enum_nullary_by_type := ?ts[unat ?t := Some slots]\<rparr>\<rparr>"
    have same: "?ts[unat ?t := Some slots] = ?ts" if "?ts ! unat ?t = Some slots" using that by (metis list_update_id)
    have intern: "jello_enum_nullary_intern malloc (gc_view x) ?t ?g =
        (if slots ! unat ?g \<noteq> 0 then Some ((gc_view x)\<lparr>enum_nullary_by_type := ?ts[unat ?t := Some slots]\<rparr>, slots ! unat ?g)
         else map_option (\<lambda>(vm, e). (store_nullary vm ?t ?g e, e))
           (jello_enum_new malloc ((gc_view x)\<lparr>enum_nullary_by_type := ?ts[unat ?t := Some slots]\<rparr>) ?t ?g []))"
      using False same by (cases "?ts ! unat ?t")
        (simp_all add: jello_enum_nullary_intern_def enum_nullary_type_table_def slots_def gc_view_def)
    show ?thesis
    proof (cases "slots ! unat ?g = 0")
      case True
      have "mach (live (gc_view x)) ?x1"
        by (rule mach_enum_table [OF m [unfolded mach_ok_def]])
          (use mach_ok_slots [OF m] sl set_update_subset_insert [of ?ts "unat ?t" "Some slots"] in blast)
      from x_new_table [OF m mach_live [OF this], of "\<lambda>vm. map_option (\<lambda>(vm, e). (store_nullary vm ?t ?g e, e)) (jello_enum_new malloc vm ?t ?g [])"]
      show ?thesis using sound_nullary_new [OF m al r t g refl sl] intern True by (simp add: x_new_def)
    next
      case f: False
      have "slots ! unat ?g \<in> set slots" using sl(1) g by simp
      then have p: "ptr_ok (live (gc_view x)) (slots ! unat ?g)" using sl(2) by blast
      have "?ts ! unat ?t = Some slots" using f g by (cases "?ts ! unat ?t") (simp_all add: slots_def no_slots_def)
      then have v: "(gc_view x)\<lparr>enum_nullary_by_type := ?ts[unat ?t := Some slots]\<rparr> = gc_view x"
        using same by (simp add: gc_view_def)
      have "mach (live (gc_view x)) (x\<lparr>x_vm := gc_view x\<rparr>)"
        using m by (simp add: mach_ok_def mach_def gc_view_def heap_aligned_def)
      then have "sound x (?st (x\<lparr>x_vm := gc_view x\<rparr>, slots ! unat ?g))"
        unfolding prod.case by (rule sound_store_ptr) (use r(1) rk p in \<open>simp_all add: same_code_def reg_in_def\<close>)
      then show ?thesis using intern f by (simp add: x_new_def v)
    qed
  qed
  then show ?thesis using True by (simp add: op_enum_new_def Let_def)
qed

subsection \<open>Bytes\<close>

lemma bytes_at_obj: "bytes_at x p = Inr (t, bs) \<longleftrightarrow> obj_of x p = Inr (OBytes t bs)"
  by (cases "obj_of x p") (auto simp: bytes_at_def split: heap_obj.splits)

lemma sound_typed_bytes:
  assumes m: "mach_ok x" and t: "well_typed x" and r: "reg_in x r" and k: "x_kinds x ! r = JELLO_T_BYTES"
    and g: "\<And>p t bs. p = rg64 x r \<Longrightarrow> p \<in> live (gc_view x) \<Longrightarrow> bytes_at x p = Inr (t, bs) \<Longrightarrow> sound x (g p)"
  shows "sound x (deref_or_trap x r msg g)"
proof (rule sound_deref [OF m r])
  assume p: "rg64 x r \<in> live (gc_view x)" "rg64 x r \<noteq> 0"
  obtain t bs where "bytes_at x (rg64 x r) = Inr (t, bs)" using typed_reads(3) [OF m t r p(2,1) k] by blast
  then show "sound x (g (rg64 x r))" using g p(1) by blast
qed (simp add: k is_pointer_kind_def)

lemma sound_bytes_new:
  assumes m: "mach_ok x" and al: "allocator_ok malloc" and r: "reg_in x (ra ins)" "reg_in x (rb ins)"
    and k: "x_kinds x ! ra ins = JELLO_T_BYTES"
  shows "sound x (op_bytes_new malloc x ins)"
proof -
  have "sound x (rbind (x_new x (\<lambda>vm. jello_bytes_new malloc vm t n)) (\<lambda>(x, b). continue_with x (vm_store_ptr (x_rf x) (ra ins) b)))" for t n
    unfolding jello_bytes_new_def
    by (rule sound_new [OF m al], simp_all only: prod.case)
      (use sound_store_new r(1) k in \<open>auto simp: obj_ok_def is_pointer_kind_def\<close>)
  then show ?thesis using load_u32_run [OF m r(2)] sound_trap_here [OF m] by (simp add: op_bytes_new_def)
qed

lemma sound_bytes_len:
  assumes "mach_ok x" "well_typed x" "reg_in x (ra ins)" "reg_in x (rb ins)"
    and "x_kinds x ! ra ins = JELLO_T_I32" "x_kinds x ! rb ins = JELLO_T_BYTES"
  shows "sound x (op_bytes_len x ins)"
  unfolding op_bytes_len_def
  by (rule sound_typed_bytes [OF assms(1,2,4,6)])
    (use sound_u32_result [OF assms(1,3)] assms(5) in \<open>simp add: is_pointer_or_dynamic_def\<close>)

lemma sound_bytes_eq:
  assumes m: "mach_ok x" and t: "well_typed x" and r: "reg_in x (ra ins)" "reg_in x (rb ins)" "reg_in x (rc ins)"
    and k: "x_kinds x ! ra ins = JELLO_T_BOOL" "x_kinds x ! rb ins = JELLO_T_BYTES" "x_kinds x ! rc ins = JELLO_T_BYTES"
  shows "sound x (op_bytes_eq x ins)"
proof -
  let ?a = "rg64 x (rb ins)" and ?b = "rg64 x (rc ins)"
  have p: "is_pointer_kind (x_kinds x ! rb ins)" "is_pointer_kind (x_kinds x ! rc ins)" by (simp_all add: k is_pointer_kind_def)
  have "\<exists>t bs. bytes_at x ?a = Inr (t, bs)" if "?a \<noteq> 0"
    using typed_reads(3) [OF m t r(2) that _ k(2)] live_ptr_reg [OF m r(2) p(1)] that by (simp add: ptr_ok_def)
  moreover have "\<exists>t bs. bytes_at x ?b = Inr (t, bs)" if "?b \<noteq> 0"
    using typed_reads(3) [OF m t r(3) that _ k(3)] live_ptr_reg [OF m r(3) p(2)] that by (simp add: ptr_ok_def)
  ultimately show ?thesis
    using load_ptr_run [OF m r(2) p(1)] load_ptr_run [OF m r(3) p(2)] sound_u32_result [OF m r(1)] k(1)
    by (auto simp: op_bytes_eq_def is_pointer_or_dynamic_def)
qed

lemma sound_bytes_get_u8:
  assumes "mach_ok x" "well_typed x" "reg_in x (ra ins)" "reg_in x (rb ins)" "reg_in x (rc ins)"
    and "x_kinds x ! ra ins = JELLO_T_I32" "x_kinds x ! rb ins = JELLO_T_BYTES"
  shows "sound x (op_bytes_get_u8 x ins)"
  unfolding op_bytes_get_u8_def
  by (rule sound_typed_bytes [OF assms(1,2,4,7)])
    (use sound_u32_result [OF assms(1,3)] assms(6) load_u32_run [OF assms(1,5)] sound_trap_here [OF assms(1)]
      in \<open>simp add: is_pointer_or_dynamic_def\<close>)

lemma sound_bytes_set_u8:
  assumes "mach_ok x" "well_typed x" "reg_in x (ra ins)" "reg_in x (rb ins)" "reg_in x (rc ins)"
    and "x_kinds x ! rb ins = JELLO_T_BYTES"
  shows "sound x (op_bytes_set_u8 x ins)"
  unfolding op_bytes_set_u8_def
  by (rule sound_typed_bytes [OF assms(1,2,4,6)])
    (use load_u32_run [OF assms(1,3)] load_u32_run [OF assms(1,5)] sound_trap_here [OF assms(1)] sound_put [OF assms(1)]
      in \<open>simp add: obj_ok_def\<close>)

lemma sound_new_bytes_result:
  assumes m: "mach_ok x" and al: "allocator_ok malloc" and r: "reg_in x (ra ins)" and k: "x_kinds x ! ra ins = JELLO_T_BYTES"
  shows "sound x (new_bytes_result malloc x ins bs)"
  unfolding new_bytes_result_def Let_def jello_bytes_new_def
proof (rule sound_new [OF m al], simp_all only: prod.case)
  let ?t = "f_reg_types (x_f x) ! ra ins" and ?n = "of_nat (length bs) :: u32"
  fix x1 a assume n: "new_object x (OBytes ?t (replicate (unat ?n) 0)) x1 a"
  note d = new_objectD [OF n]
  let ?T = "insert a (live (gc_view x))" and ?x2 = "x_put (x_push_root x1 (jello_from_ptr a)) a (OBytes ?t bs)"
  have m2: "mach ?T ?x2"
    by (rule mach_x_put [OF mach_push_root [OF d(5)]]) (simp_all add: val_ok_def obj_ok_def jello_from_ptr_def jello_as_ptr_def)
  have fr: "x_m ?x2 = x_m x" "x_fr ?x2 = x_fr x" "x_below ?x2 = x_below x" using d by simp_all
  have rk: "reg_in ?x2 (ra ins)" "is_pointer_kind (x_kinds ?x2 ! ra ins)" using fr r k by (simp_all add: reg_in_def is_pointer_kind_def)
  obtain rf where rf: "vm_store_ptr (x_rf ?x2) (ra ins) a = Inr rf" "mach ?T (set_rf ?x2 rf)"
    using store_ptr_run [OF m2 rk, of a] by (auto simp: ptr_ok_def)
  have "sound x (and_continue (x_pop_roots (set_rf ?x2 rf) 1))"
    by (rule sound_pop_continue [OF rf(2)]) (use new_object_code [OF n] in simp)
  then show "sound x (rbind (vm_store_ptr (x_rf ?x2) (ra ins) a) (\<lambda>rf. and_continue (x_pop_roots (set_rf ?x2 rf) 1)))"
    unfolding rf(1) by simp
qed (simp add: obj_ok_def)

lemma sound_bytes_concat2:
  assumes "mach_ok x" "allocator_ok malloc" "well_typed x" "reg_in x (ra ins)" "reg_in x (rb ins)" "reg_in x (rc ins)"
    and "x_kinds x ! ra ins = JELLO_T_BYTES" "x_kinds x ! rb ins = JELLO_T_BYTES" "x_kinds x ! rc ins = JELLO_T_BYTES"
  shows "sound x (op_bytes_concat2 malloc x ins)" "sound x (op_bytes_bitwise2 name f malloc x ins)"
  unfolding op_bytes_concat2_def op_bytes_bitwise2_def
  by (rule sound_typed_bytes [OF assms(1,3,5,8)], rule sound_typed_bytes [OF assms(1,3,6,9)],
      simp add: Let_def sound_trap_here [OF assms(1)] sound_new_bytes_result [OF assms(1,2,4,7)])+

lemma concat_parts_run:
  assumes "mach_ok x" "\<forall>v\<in>set pvs. val_ok (live (gc_view x)) v"
  shows "\<exists>r. concat_parts x acc pvs = Inr r"
  using assms(2)
proof (induction pvs arbitrary: acc)
  case (Cons pv pvs)
  have "val_ok (live (gc_view x)) pv" using Cons.prems by simp
  then obtain ob where "box_of x pv = Inr ob" using box_of_ok [OF assms(1) [unfolded mach_ok_def]] by metis
  then show ?case using Cons by (auto split: option.split heap_obj.split)
qed simp

lemma sound_bytes_concat_many:
  assumes m: "mach_ok x" and al: "allocator_ok malloc" and t: "well_typed x" and r: "reg_in x (ra ins)" "reg_in x (rb ins)"
    and k: "x_kinds x ! ra ins = JELLO_T_BYTES" "x_kinds x ! rb ins = JELLO_T_ARRAY"
  shows "sound x (op_bytes_concat_many malloc x ins)"
  unfolding op_bytes_concat_many_def
proof (rule sound_deref [OF m r(2)])
  assume p: "rg64 x (rb ins) \<in> live (gc_view x)" "rg64 x (rb ins) \<noteq> 0"
  obtain t' vs where a: "array_at x (rg64 x (rb ins)) = Inr (t', vs)" "\<forall>v\<in>set vs. val_ok (live (gc_view x)) v"
    using typed_reads(2) [OF m t r(2) p(2,1) k(2)] by blast
  obtain res where "concat_parts x [] vs = Inr res" using concat_parts_run [OF m a(2)] by blast
  then show "sound x (rbind (array_at x (rg64 x (rb ins))) (\<lambda>(t, parts). rbind (concat_parts x [] parts) (\<lambda>r.
       case r of Inl (code, msg) \<Rightarrow> trap_continue x code msg
       | Inr bs \<Rightarrow> if x_max_bytes_len x \<noteq> 0 \<and> unat (x_max_bytes_len x) < length bs then
             trap_continue x JELLO_TRAP_LIMIT ''bytes_concat_many length exceeds limit''
           else new_bytes_result malloc x ins bs)))"
    using a(1) sound_trap_here [OF m] sound_new_bytes_result [OF m al r(1) k(1)] by (auto split: sum.split)
qed (simp add: k is_pointer_kind_def)

text \<open>The check that reads and writes make is enough: no access leaves the bytes.\<close>

lemma sint_nonneg_small:
  assumes "0 \<le> sint (w :: u32)"
  shows "unat w < 2 ^ 31"
proof (rule ccontr)
  assume "\<not> unat w < 2 ^ 31"
  then have "2147483648 \<le> unat w" by simp
  then have "2147483648 \<le> uint w" using of_nat_unat [of w, where 'a = int] by linarith
  then have "2 ^ 31 \<le> uint w" by simp
  moreover have "uint w < 2 ^ 32" using uint_lt2p [of w] by simp
  ultimately have "uint w div 2 ^ 31 = 1" using int_div_pos_eq [of "uint w" "2 ^ 31" 1 "uint w - 2 ^ 31"] by simp
  then have "bit (uint w) 31" by (simp add: bit_iff_odd)
  then show False using assms \<open>uint w < 2 ^ 32\<close> by (simp add: sint_uint signed_take_bit_eq_take_bit_minus take_bit_int_eq_self)
qed

lemma rw_ok_in_bounds:
  assumes "bytes_rw_ok (of_nat n) off (of_nat w) msg = None" "w \<le> 4"
  shows "unat off + w \<le> n"
proof -
  have o: "0 \<le> sint off" "off + of_nat w \<le> of_nat n" using assms(1) by (auto simp: bytes_rw_ok_def not_less split: if_splits)
  have "unat off < 2 ^ 31" by (rule sint_nonneg_small [OF o(1)])
  then have "unat (off + of_nat w) = unat off + w" using assms(2) by (simp add: unat_word_ariths unat_of_nat take_bit_nat_eq_self)
  then show ?thesis using o(2) unat_of_nat [where 'a = 32, of n] by (simp add: word_le_nat_alt)
qed

lemma sound_bytes_access:
  assumes m: "mach_ok x" and t: "well_typed x" and r: "reg_in x (rb ins)" "reg_in x (rc ins)"
    and k: "x_kinds x ! rb ins = JELLO_T_BYTES" and w: "w \<le> 4"
    and g: "\<And>b t bs off. b \<in> live (gc_view x) \<Longrightarrow> off + w \<le> length bs \<Longrightarrow> sound x (g b t bs off)"
  shows "sound x (bytes_access name w x ins g)"
  unfolding bytes_access_def bytes_load_def
proof (rule sound_typed_bytes [OF m t r(1) k])
  fix p ty bs assume p: "p \<in> live (gc_view x)" "bytes_at x p = Inr (ty, bs)"
  let ?msg = "name @ '' requires '' @ digits w @ ''-byte aligned offset''" and ?off = "rg32 x (rc ins)"
  note run = load_u32_run [OF m r(2)]
  show "sound x (rbind (bytes_off x (i_c ins)) (\<lambda>off. rbind (bytes_at x p) (\<lambda>(t, bs).
       case bytes_rw_ok (of_nat (length bs)) off (of_nat w) ?msg of
         Some msg \<Rightarrow> trap_continue x JELLO_TRAP_BOUNDS msg
       | None \<Rightarrow> if length bs < unat off + w then Inl FAULT else g p t bs (unat off))))"
  proof (cases "bytes_rw_ok (of_nat (length bs)) ?off (of_nat w) ?msg")
    case None
    have "unat ?off + w \<le> length bs" by (rule rw_ok_in_bounds [OF None w])
    then show ?thesis using run None p g by (simp add: bytes_off_def)
  next
    case (Some msg)
    then show ?thesis using run p sound_trap_here [OF m] by (simp add: bytes_off_def)
  qed
qed

lemma sound_bytes_rw:
  assumes m: "mach_ok x" and t: "well_typed x" and r: "reg_in x (ra ins)" "reg_in x (rb ins)" "reg_in x (rc ins)"
    and k: "x_kinds x ! ra ins \<in> {JELLO_T_I32, JELLO_T_F32}" "x_kinds x ! rb ins = JELLO_T_BYTES"
  shows "sound x (DEF_BYTES_READ_U16 name rd16 x ins)" "sound x (DEF_BYTES_READ_U32 name rd32 x ins)"
    "sound x (bytes_read_f32 name rd32 x ins)"
    "sound x (DEF_BYTES_WRITE_U16 name wr16 x ins)" "sound x (DEF_BYTES_WRITE_U32 name wr32 x ins)"
    "sound x (bytes_write_f32 name wr32 x ins)"
proof -
  have ka: "\<not> is_pointer_or_dynamic (x_kinds x ! ra ins)" using k(1) by (auto simp: is_pointer_or_dynamic_def)
  note acc = sound_bytes_access [OF m t r(2,3) k(2)]
  note s = sound_u32_result [OF m r(1) ka] load_u32_run [OF m r(1)] sound_put [OF m]
  show "sound x (DEF_BYTES_READ_U16 name rd16 x ins)" "sound x (DEF_BYTES_READ_U32 name rd32 x ins)"
    "sound x (bytes_read_f32 name rd32 x ins)"
    "sound x (DEF_BYTES_WRITE_U16 name wr16 x ins)" "sound x (DEF_BYTES_WRITE_U32 name wr32 x ins)"
    "sound x (bytes_write_f32 name wr32 x ins)"
    unfolding DEF_BYTES_READ_U16_def DEF_BYTES_READ_U32_def bytes_read_f32_def DEF_BYTES_WRITE_U16_def DEF_BYTES_WRITE_U32_def
      bytes_write_f32_def
    by (rule acc; simp add: s load_store_defs obj_ok_def)+
qed

section \<open>All container opcodes\<close>

definition container_table :: "fpu \<Rightarrow> alloc_fun \<Rightarrow> (u64 \<Rightarrow> bool) \<Rightarrow> (nat \<times> handler) list" where
  "container_table fp malloc side =
     [(JOP_LIST_NIL, op_list_nil), (JOP_LIST_CONS, op_list_cons malloc), (JOP_LIST_HEAD, op_list_head fp malloc),
      (JOP_LIST_TAIL, op_list_tail), (JOP_LIST_IS_NIL, op_list_is_nil),
      (JOP_ARRAY_NEW, op_array_new malloc side), (JOP_ARRAY_LEN, op_array_len), (JOP_ARRAY_GET, op_array_get fp malloc),
      (JOP_ARRAY_SET, op_array_set malloc), (JOP_ARRAY_CONCAT2, op_array_concat2 malloc side),
      (JOP_ARRAY_RESIZE, op_array_resize side),
      (JOP_ENUM_NEW, op_enum_new malloc), (JOP_ENUM_TAG, op_enum_tag), (JOP_ENUM_GET, op_enum_get fp malloc)]"

definition bytes_table :: "alloc_fun \<Rightarrow> (nat \<times> handler) list" where
  "bytes_table malloc =
     [(JOP_BYTES_NEW, op_bytes_new malloc), (JOP_BYTES_LEN, op_bytes_len), (JOP_BYTES_GET_U8, op_bytes_get_u8),
      (JOP_BYTES_SET_U8, op_bytes_set_u8), (JOP_BYTES_CONCAT2, op_bytes_concat2 malloc),
      (JOP_BYTES_CONCAT_MANY, op_bytes_concat_many malloc), (JOP_BYTES_BITAND2, op_bytes_bitand2 malloc),
      (JOP_BYTES_BITOR2, op_bytes_bitor2 malloc), (JOP_BYTES_BITXOR2, op_bytes_bitxor2 malloc), (JOP_BYTES_EQ, op_bytes_eq),
      (JOP_BYTES_READ_U16_LE, op_bytes_read_u16_le), (JOP_BYTES_READ_U16_BE, op_bytes_read_u16_be),
      (JOP_BYTES_READ_U32_LE, op_bytes_read_u32_le), (JOP_BYTES_READ_U32_BE, op_bytes_read_u32_be),
      (JOP_BYTES_READ_I32_LE, op_bytes_read_i32_le), (JOP_BYTES_READ_I32_BE, op_bytes_read_i32_be),
      (JOP_BYTES_READ_F32_LE, op_bytes_read_f32_le), (JOP_BYTES_READ_F32_BE, op_bytes_read_f32_be),
      (JOP_BYTES_WRITE_U16_LE, op_bytes_write_u16_le), (JOP_BYTES_WRITE_U16_BE, op_bytes_write_u16_be),
      (JOP_BYTES_WRITE_U32_LE, op_bytes_write_u32_le), (JOP_BYTES_WRITE_U32_BE, op_bytes_write_u32_be),
      (JOP_BYTES_WRITE_I32_LE, op_bytes_write_i32_le), (JOP_BYTES_WRITE_I32_BE, op_bytes_write_i32_be),
      (JOP_BYTES_WRITE_F32_LE, op_bytes_write_f32_le), (JOP_BYTES_WRITE_F32_BE, op_bytes_write_f32_be)]"

lemmas validate_container_defs = validate_defs validate_list_array_def validate_bytes_def validate_obj_def
  validate_array_enum_def

text \<open>What the verifier checks of the registers of each opcode.\<close>

lemma accepted_lists:
  assumes "mach_ok x" "accepted x ins pc"
  shows "i_opc ins = JOP_LIST_NIL \<Longrightarrow> reg_in x (ra ins) \<and> x_kinds x ! ra ins = JELLO_T_LIST"
    and "i_opc ins = JOP_LIST_CONS \<Longrightarrow> reg_in x (ra ins) \<and> reg_in x (rb ins) \<and> reg_in x (rc ins) \<and>
      x_kinds x ! ra ins = JELLO_T_LIST \<and> x_kinds x ! rc ins = JELLO_T_LIST"
    and "i_opc ins = JOP_LIST_HEAD \<Longrightarrow> reg_in x (ra ins) \<and> reg_in x (rb ins) \<and> x_kinds x ! rb ins = JELLO_T_LIST"
    and "i_opc ins = JOP_LIST_TAIL \<Longrightarrow> reg_in x (ra ins) \<and> reg_in x (rb ins) \<and> x_kinds x ! ra ins = JELLO_T_LIST \<and>
      x_kinds x ! rb ins = JELLO_T_LIST"
    and "i_opc ins = JOP_LIST_IS_NIL \<Longrightarrow> reg_in x (ra ins) \<and> reg_in x (rb ins) \<and> x_kinds x ! ra ins = JELLO_T_BOOL \<and>
      x_kinds x ! rb ins = JELLO_T_LIST"
  using assms(2) accepted_regs(2) [OF assms(1)]
  by (simp_all add: accepted_def validate_container_defs Let_def accepted_regs(1) [OF assms(1)] del: oor_iff cong: conj_cong)

lemma enum_reg_kind:
  assumes "mach_ok x" "reg_in x (unat r)"
  shows "is_enum_reg (x_m x) (f_reg_types (x_f x)) r \<Longrightarrow> is_pointer_kind (x_kinds x ! unat r)"
  using accepted_regs(2) [OF assms] by (auto simp: is_enum_reg_def rk_def Let_def is_pointer_kind_def)

lemma accepted_arrays:
  assumes "mach_ok x" "accepted x ins pc"
  shows "i_opc ins = JOP_ARRAY_NEW \<Longrightarrow> reg_in x (ra ins) \<and> reg_in x (rb ins) \<and> x_kinds x ! ra ins = JELLO_T_ARRAY"
    and "i_opc ins = JOP_ARRAY_LEN \<Longrightarrow> reg_in x (ra ins) \<and> reg_in x (rb ins) \<and> x_kinds x ! ra ins = JELLO_T_I32 \<and>
      x_kinds x ! rb ins = JELLO_T_ARRAY"
    and "i_opc ins \<in> {JOP_ARRAY_GET, JOP_ARRAY_SET} \<Longrightarrow> reg_in x (ra ins) \<and> reg_in x (rb ins) \<and> reg_in x (rc ins) \<and>
      x_kinds x ! rb ins = JELLO_T_ARRAY"
    and "i_opc ins = JOP_ARRAY_CONCAT2 \<Longrightarrow> reg_in x (ra ins) \<and> reg_in x (rb ins) \<and> reg_in x (rc ins) \<and>
      x_kinds x ! ra ins = JELLO_T_ARRAY \<and> x_kinds x ! rb ins = JELLO_T_ARRAY \<and> x_kinds x ! rc ins = JELLO_T_ARRAY"
    and "i_opc ins = JOP_ARRAY_RESIZE \<Longrightarrow> reg_in x (rb ins) \<and> reg_in x (rc ins) \<and> x_kinds x ! rb ins = JELLO_T_ARRAY"
  using assms(2) accepted_regs(2) [OF assms(1)]
  by (simp_all add: accepted_def validate_container_defs Let_def accepted_regs(1) [OF assms(1)] del: oor_iff cong: conj_cong)
    (auto simp del: oor_iff)

lemma accepted_enums:
  assumes "mach_ok x" "accepted x ins pc"
  shows "i_opc ins = JOP_ENUM_NEW \<Longrightarrow> reg_in x (ra ins) \<and> x_kinds x ! ra ins = JELLO_T_ENUM \<and>
      (\<forall>i<unat (i_c ins). reg_in x (rb ins + i))"
    and "i_opc ins = JOP_ENUM_TAG \<Longrightarrow> reg_in x (ra ins) \<and> reg_in x (rb ins) \<and> x_kinds x ! ra ins = JELLO_T_I32 \<and>
      is_pointer_kind (x_kinds x ! rb ins)"
    and "i_opc ins = JOP_ENUM_GET \<Longrightarrow> reg_in x (ra ins) \<and> reg_in x (rb ins) \<and> reg_in x (rc ins) \<and>
      is_pointer_kind (x_kinds x ! rb ins)"
proof -
  note acc = accepted_def validate_container_defs Let_def accepted_regs(1) [OF assms(1)] enum_reg_kind [OF assms(1)]
  note k = accepted_regs(2) [OF assms(1)]
  show "i_opc ins = JOP_ENUM_TAG \<Longrightarrow> reg_in x (ra ins) \<and> reg_in x (rb ins) \<and> x_kinds x ! ra ins = JELLO_T_I32 \<and>
      is_pointer_kind (x_kinds x ! rb ins)"
    and "i_opc ins = JOP_ENUM_GET \<Longrightarrow> reg_in x (ra ins) \<and> reg_in x (rb ins) \<and> reg_in x (rc ins) \<and>
      is_pointer_kind (x_kinds x ! rb ins)"
    using assms(2) k by (simp_all add: acc del: oor_iff cong: conj_cong)
  assume op: "i_opc ins = JOP_ENUM_NEW"
  have "reg_in x (rb ins + i)" if "i < unat (i_c ins)" for i
  proof -
    have c: "i_c ins \<noteq> 0" using that by auto
    have "unat (ucast (i_c ins) :: u32) \<noteq> 0" using that by simp
    then have "(ucast (i_c ins) :: u32) \<noteq> 0" by (metis unat_eq_0)
    then have "\<not> f_nregs (x_f x) \<le> ucast (i_b ins) + ucast (i_c ins) - 1"
      using assms(2) op by (simp add: accepted_def validate_container_defs Let_def del: oor_iff)
    then show ?thesis using that by (simp add: enum_range_le_iff [OF c] reg_in_def)
  qed
  moreover have "reg_in x (ra ins) \<and> x_kinds x ! ra ins = JELLO_T_ENUM"
    using assms(2) op k by (simp add: acc del: oor_iff cong: conj_cong)
  ultimately show "reg_in x (ra ins) \<and> x_kinds x ! ra ins = JELLO_T_ENUM \<and> (\<forall>i<unat (i_c ins). reg_in x (rb ins + i))"
    by blast
qed

lemma accepted_bytes:
  assumes "mach_ok x" "accepted x ins pc"
  shows "i_opc ins = JOP_BYTES_NEW \<Longrightarrow> reg_in x (ra ins) \<and> reg_in x (rb ins) \<and> x_kinds x ! ra ins = JELLO_T_BYTES"
    and "i_opc ins = JOP_BYTES_LEN \<Longrightarrow> reg_in x (ra ins) \<and> reg_in x (rb ins) \<and> x_kinds x ! ra ins = JELLO_T_I32 \<and>
      x_kinds x ! rb ins = JELLO_T_BYTES"
    and "i_opc ins = JOP_BYTES_CONCAT_MANY \<Longrightarrow> reg_in x (ra ins) \<and> reg_in x (rb ins) \<and> x_kinds x ! ra ins = JELLO_T_BYTES \<and>
      x_kinds x ! rb ins = JELLO_T_ARRAY"
    and "i_opc ins = JOP_BYTES_EQ \<Longrightarrow> reg_in x (ra ins) \<and> reg_in x (rb ins) \<and> reg_in x (rc ins) \<and>
      x_kinds x ! ra ins = JELLO_T_BOOL \<and> x_kinds x ! rb ins = JELLO_T_BYTES \<and> x_kinds x ! rc ins = JELLO_T_BYTES"
  using assms(2) accepted_regs(2) [OF assms(1)]
  by (simp_all add: accepted_def validate_container_defs Let_def accepted_regs(1) [OF assms(1)] del: oor_iff cong: conj_cong)

definition bytes_i32_ops :: "nat set" where
  "bytes_i32_ops = {JOP_BYTES_GET_U8, JOP_BYTES_SET_U8, JOP_BYTES_READ_U16_LE, JOP_BYTES_READ_U16_BE, JOP_BYTES_READ_U32_LE,
     JOP_BYTES_READ_U32_BE, JOP_BYTES_READ_I32_LE, JOP_BYTES_READ_I32_BE, JOP_BYTES_WRITE_U16_LE, JOP_BYTES_WRITE_U16_BE,
     JOP_BYTES_WRITE_U32_LE, JOP_BYTES_WRITE_U32_BE, JOP_BYTES_WRITE_I32_LE, JOP_BYTES_WRITE_I32_BE}"

definition bytes_f32_ops :: "nat set" where
  "bytes_f32_ops = {JOP_BYTES_READ_F32_LE, JOP_BYTES_READ_F32_BE, JOP_BYTES_WRITE_F32_LE, JOP_BYTES_WRITE_F32_BE}"

definition bytes_bytes_ops :: "nat set" where
  "bytes_bytes_ops = {JOP_BYTES_CONCAT2, JOP_BYTES_BITAND2, JOP_BYTES_BITOR2, JOP_BYTES_BITXOR2}"

lemma accepted_bytes_ops:
  assumes "mach_ok x" "accepted x ins pc"
  shows "i_opc ins \<in> bytes_i32_ops \<Longrightarrow> reg_in x (ra ins) \<and> reg_in x (rb ins) \<and> reg_in x (rc ins) \<and>
      x_kinds x ! ra ins = JELLO_T_I32 \<and> x_kinds x ! rb ins = JELLO_T_BYTES"
    and "i_opc ins \<in> bytes_f32_ops \<Longrightarrow> reg_in x (ra ins) \<and> reg_in x (rb ins) \<and> reg_in x (rc ins) \<and>
      x_kinds x ! ra ins = JELLO_T_F32 \<and> x_kinds x ! rb ins = JELLO_T_BYTES"
    and "i_opc ins \<in> bytes_bytes_ops \<Longrightarrow> reg_in x (ra ins) \<and> reg_in x (rb ins) \<and> reg_in x (rc ins) \<and>
      x_kinds x ! ra ins = JELLO_T_BYTES \<and> x_kinds x ! rb ins = JELLO_T_BYTES \<and> x_kinds x ! rc ins = JELLO_T_BYTES"
  unfolding bytes_i32_ops_def bytes_f32_ops_def bytes_bytes_ops_def
  by (elim insertE emptyE; use assms(2) accepted_regs(2) [OF assms(1)] in
      \<open>simp add: accepted_def validate_container_defs Let_def accepted_regs(1) [OF assms(1)] del: oor_iff cong: conj_cong\<close>)+



lemma bx_container_accepted:
  "accepted (bx_ctx n) (bx_insn 108 5 0 5) 0" "accepted (bx_ctx n) (bx_insn 118 0 4 0) 0"
  unfolding accepted_def bx_parts using bx_rk
  by (simp_all add: validate_container_defs Let_def bx_insn_def elem_of_def) (simp_all add: bx_function_def bx_module_def)

lemma bx_enums: "enums_ok (bx_vm n)"
  by (simp add: enums_ok_def bx_vm_def)



section \<open>Two unsafe sequences\<close>

definition heap_view :: "addr list \<Rightarrow> nat \<Rightarrow> (op_result \<times> exec_ctx) run \<Rightarrow> (u64 \<times> (heap_obj option) list) run" where
  "heap_view ps r res = rbind res (\<lambda>(_, x). rbind (vm_load_ptr (x_rf x) r) (\<lambda>p.
     Inr (p, map (\<lambda>a. map_option b_obj (vm_heap (x_vm x) a)) ps)))"

definition stop_of :: "'a run \<Rightarrow> stop option" where
  "stop_of r = (case r of Inl s \<Rightarrow> Some s | Inr _ \<Rightarrow> None)"

lemma unsafe_accepted:
  "accepted (bx_ctx n) (bx_insn 133 6 1 2) 0" "accepted (bx_ctx n) (bx_insn 101 8 0 0) 0" "accepted (bx_ctx n) (bx_insn 102 4 0 0) 0"
  "accepted (bx_ctx n) (bx_insn 117 0 4 0) 0"
  unfolding accepted_def bx_parts using bx_rk
  by (simp_all add: validate_defs validate_container_defs Let_def bx_insn_def is_enum_reg_def) (simp_all add: bx_function_def bx_module_def)

text \<open>\<open>ENUM_NEW\<close> boxes its fields into a C array that no root protects. When an allocation in between
  collects, the box of an earlier field is recycled for a later one: here the constructor applied to the registers
  1.5 and 2.5 builds a value whose two fields are the same box, with 2.5 in it.\<close>

theorem enum_new_loses_fields:
  "mach_ok (bx_ctx 384) \<and> accepted (bx_ctx 384) (bx_insn 133 6 1 2) 0 \<and>
   heap_view [512, 1024] 6 (op_enum_new bx_malloc (bx_ctx 384) (bx_insn 133 6 1 2)) =
     Inr (1024, [Some (OBoxF64 1 0x4004000000000000), Some (OEnum 5 0 [512, 512])])"
proof -
  have "heap_view [512, 1024] 6 (op_enum_new bx_malloc (bx_ctx 384) (bx_insn 133 6 1 2)) =
     Inr (1024, [Some (OBoxF64 1 0x4004000000000000), Some (OEnum 5 0 [512, 512])])" by code_simp
  then show ?thesis using bx_ok unsafe_accepted(1) by blast
qed


end
