(* ===== verification/Jello_Objops.thy ===== *)
theory Jello_Objops
imports Jello_Container
begin

text \<open>
  The object opcodes of \<^verbatim>\<open>src/src/vm/ops/ops_obj.c\<close> on the machine: construction, attribute access by constant and by
  computed atoms, the walk along prototypes, removal, copies and key lists. They run the attribute table of
  \<open>Jello_Object\<close> on the object that a register refers to. A probe of that table that never ends is \<open>HANG\<close>.
\<close>

section \<open>Objects\<close>

definition object_at :: "exec_ctx \<Rightarrow> addr \<Rightarrow> jello_object run" where
  "object_at x p = rbind (obj_of x p) (\<lambda>ob. case ob of OObject o' \<Rightarrow> Inr o' | _ \<Rightarrow> Inl FAULT)"

text \<open>An operation of the attribute table on the object at \<open>p\<close>: \<open>None\<close> is a probe that never ends.\<close>

definition on_object :: "exec_ctx \<Rightarrow> addr \<Rightarrow> (jello_object \<Rightarrow> (jello_object \<times> 'a) option) \<Rightarrow> (exec_ctx \<times> 'a) run" where
  "on_object x p op =
     rbind (object_at x p) (\<lambda>ob.
       case op ob of None \<Rightarrow> Inl HANG | Some (ob', r) \<Rightarrow> Inr (x_put x p (OObject ob'), r))"

text \<open>\<^verbatim>\<open>sizeof(jello_object)\<close> is 88 and the inline table takes 104 bytes. A block from the freelist of that size is an
  object.\<close>

definition jello_object_empty_alloc_bytes :: u64 where
  "jello_object_empty_alloc_bytes = 88 + of_nat (object_table_bytes (unat JELLO_OBJECT_INIT_CAP))"

definition heap_object_new :: "alloc_fun \<Rightarrow> jello_vm \<Rightarrow> u32 \<Rightarrow> (jello_vm \<times> addr) option" where
  "heap_object_new malloc vm type_id =
     map_option (\<lambda>(vm, a, recycled).
       let block = (case map_option b_obj (vm_heap vm a) of Some (OObject ob) \<Rightarrow> ob | _ \<Rightarrow> zero_block) in
       (put_obj vm a (OObject (jello_object_new recycled block type_id)), a))
       (jello_gc_alloc_recycled malloc vm jello_object_empty_alloc_bytes)"

definition op_obj_new :: "alloc_fun \<Rightarrow> handler" where
  "op_obj_new malloc x ins =
     rbind (x_new x (\<lambda>vm. heap_object_new malloc vm (f_reg_types (x_f x) ! unat (i_a ins)))) (\<lambda>(x, a).
       continue_with x (vm_store_ptr (x_rf x) (unat (i_a ins)) a))"

definition op_obj_has_atom :: handler where
  "op_obj_has_atom x ins =
     deref_or_trap x (unat (i_b ins)) ''obj_has_atom on null'' (\<lambda>p.
     rbind (on_object x p (\<lambda>ob. jello_object_has ob (i_imm ins))) (\<lambda>(x, has).
       continue_with x (vm_store_u32 (x_rf x) (unat (i_a ins)) (bool_u32 has))))"

definition obj_update_proto_cache :: "exec_ctx \<Rightarrow> addr \<Rightarrow> jello_value \<Rightarrow> exec_ctx run" where
  "obj_update_proto_cache x p v =
     (if \<not> m_proto_enabled (x_m x) then Inr x
      else
        rbind (if jello_as_ptr v = 0 then Inr None else box_of x v) (\<lambda>target.
        rbind (object_at x p) (\<lambda>ob.
          let proto = (case target of Some (OObject _) \<Rightarrow> jello_as_ptr v | _ \<Rightarrow> 0) in
          Inr (x_put x p (OObject (ob\<lparr>o_proto := proto\<rparr>))))))"

text \<open>The walk along the prototypes: the value of the first object that has the atom, null when the chain ends, and
  \<open>None\<close> when it is deeper than the limit.\<close>

function proto_walk :: "exec_ctx \<Rightarrow> addr \<Rightarrow> u32 \<Rightarrow> nat \<Rightarrow> (exec_ctx \<times> jello_value option) run" where
  "proto_walk x cur atom_id steps =
     rbind (on_object x cur (\<lambda>ob. jello_object_slot ob atom_id)) (\<lambda>(x, slot).
     rbind (object_at x cur) (\<lambda>ob.
       case slot of
         Some i \<Rightarrow> Inr (x, Some (o_vals ob ! unat i))
       | None \<Rightarrow>
           if o_proto ob = 0 then Inr (x, Some jello_make_null)
           else if 1024 < steps then Inr (x, None)
           else proto_walk x (o_proto ob) atom_id (steps + 1)))"
  by pat_completeness auto
termination by (relation "measure (\<lambda>(x, cur, atom_id, steps). 1025 - steps)") auto

declare proto_walk.simps [simp del]

text \<open>The fast paths of \<open>vm_obj_get_atom_typed\<close> for numbers; \<open>None\<close> falls through to \<open>vm_store_from_boxed\<close>.\<close>

definition get_atom_fast :: "exec_ctx \<Rightarrow> nat \<Rightarrow> jello_value \<Rightarrow> reg_frame run option run" where
  "get_atom_fast x dst v =
     rbind (vm_reg_kind (x_m x) (x_f x) dst) (\<lambda>k.
       if k \<in> {JELLO_T_I8, JELLO_T_I16, JELLO_T_I32} then
         Inr (if jello_is_i32 v then Some (vm_store_u32 (x_rf x) dst (jello_as_i32 v)) else None)
       else if k \<in> {JELLO_T_F64, JELLO_T_F32, JELLO_T_I64} then
         rbind (box_of x v) (\<lambda>ob. Inr (case (k, ob) of
             (JELLO_T_F64, Some (OBoxF64 _ d)) \<Rightarrow> Some (vm_store_f64 (x_rf x) dst d)
           | (JELLO_T_F32, Some (OBoxF32 _ u)) \<Rightarrow> Some (vm_store_f32 (x_rf x) dst u)
           | (JELLO_T_I64, Some (OBoxI64 _ i)) \<Rightarrow> Some (vm_store_i64 (x_rf x) dst i)
           | _ \<Rightarrow> None))
       else Inr None)"

text \<open>The atoms 0 and 1 are \<^verbatim>\<open>__proto__\<close> and \<^verbatim>\<open>init\<close> (\<^verbatim>\<open>jello.h\<close>).\<close>

definition PROTO_ATOM :: u32 where "PROTO_ATOM = 0"

definition vm_obj_get_atom_typed :: "fpu \<Rightarrow> alloc_fun \<Rightarrow> exec_ctx \<Rightarrow> nat \<Rightarrow> nat \<Rightarrow> u32 \<Rightarrow> u32 \<Rightarrow> (op_result \<times> exec_ctx) run" where
  "vm_obj_get_atom_typed fp malloc x dst obj_reg atom_id slot_hint =
     deref_or_trap x obj_reg ''obj_get_atom on null'' (\<lambda>p.
     rbind (object_at x p) (\<lambda>ob.
       if \<not> m_proto_enabled (x_m x) \<or> atom_id = PROTO_ATOM \<or> o_proto ob = 0 then
         rbind (on_object x p (\<lambda>ob. jello_object_get_slot ob slot_hint atom_id)) (\<lambda>(x, v).
         rbind (get_atom_fast x dst v) (\<lambda>fast.
           case fast of
             Some st \<Rightarrow> continue_with x st
           | None \<Rightarrow> and_continue (vm_store_from_boxed fp malloc x dst v)))
       else
         rbind (proto_walk x p atom_id 0) (\<lambda>(x, r).
           case r of
             None \<Rightarrow> trap_continue x JELLO_TRAP_BOUNDS ''prototype chain too deep''
           | Some v \<Rightarrow> and_continue (vm_store_from_boxed fp malloc x dst v))))"

text \<open>\<^verbatim>\<open>*slot = v\<close> through the pointer that \<open>jello_object_upsert\<close> returned.\<close>

definition object_put :: "exec_ctx \<Rightarrow> addr \<Rightarrow> u32 \<Rightarrow> jello_value \<Rightarrow> exec_ctx run" where
  "object_put x p i v =
     rbind (object_at x p) (\<lambda>ob.
       if length (o_vals ob) \<le> unat i then Inl FAULT else Inr (x_put x p (OObject (write_slot ob i v))))"

text \<open>The part that \<open>vm_obj_set_atom_typed\<close> and \<open>op_obj_set\<close> share: a number is stored in place, all else is boxed.\<close>

definition object_assign :: "alloc_fun \<Rightarrow> exec_ctx \<Rightarrow> addr \<Rightarrow> u32 \<Rightarrow> u32 \<Rightarrow> bool \<Rightarrow> nat \<Rightarrow> (op_result \<times> exec_ctx) run" where
  "object_assign malloc x p atom_id slot existed val_reg =
     (let slow = (\<lambda>x.
        rbind (boxed_element malloc x val_reg) (\<lambda>(x, v).
        rbind (object_put x p slot v) (\<lambda>x.
          and_continue (if atom_id = PROTO_ATOM then obj_update_proto_cache x p v else Inr x)))) in
      if existed \<and> atom_id \<noteq> PROTO_ATOM then
        rbind (object_at x p) (\<lambda>ob.
        rbind (vm_store_num_inplace x val_reg (o_vals ob ! unat slot)) (\<lambda>(x, cur', done).
          if done then and_continue (object_put x p slot cur') else slow x))
      else slow x)"

definition vm_obj_set_atom_typed :: "alloc_fun \<Rightarrow> exec_ctx \<Rightarrow> nat \<Rightarrow> nat \<Rightarrow> u32 \<Rightarrow> u32 \<Rightarrow> (op_result \<times> exec_ctx) run" where
  "vm_obj_set_atom_typed malloc x val_reg obj_reg atom_id slot_hint =
     deref_or_trap x obj_reg ''obj_set_atom on null'' (\<lambda>p.
     rbind (on_object x p (\<lambda>ob. jello_object_set_slot ob slot_hint atom_id)) (\<lambda>(x, slot, existed).
       object_assign malloc x p atom_id slot existed val_reg))"

definition op_obj_get_atom :: "fpu \<Rightarrow> alloc_fun \<Rightarrow> handler" where
  "op_obj_get_atom fp malloc x ins =
     vm_obj_get_atom_typed fp malloc x (unat (i_a ins)) (unat (i_b ins)) (i_imm ins) (ucast (i_c ins))"

definition op_obj_set_atom :: "alloc_fun \<Rightarrow> handler" where
  "op_obj_set_atom malloc x ins =
     vm_obj_set_atom_typed malloc x (unat (i_a ins)) (unat (i_b ins)) (i_imm ins) (ucast (i_c ins))"

text \<open>\<open>OBJ_GET\<close> and \<open>OBJ_SET\<close> on \<^verbatim>\<open>NULL\<close> panic, where all other object opcodes trap.\<close>

definition op_obj_get :: "fpu \<Rightarrow> alloc_fun \<Rightarrow> handler" where
  "op_obj_get fp malloc x ins =
     rbind (vm_load_ptr (x_rf x) (unat (i_b ins))) (\<lambda>p.
       if p = 0 then Inl PANIC
       else
         rbind (vm_load_u32 (x_rf x) (unat (i_c ins))) (\<lambda>atom_id.
           if m_natoms (x_m x) \<le> atom_id then trap_continue x JELLO_TRAP_BOUNDS ''obj_get atom id out of range''
           else if \<not> m_proto_enabled (x_m x) \<or> atom_id = PROTO_ATOM then
             rbind (on_object x p (\<lambda>ob. jello_object_get ob atom_id)) (\<lambda>(x, v).
               and_continue (vm_store_from_boxed fp malloc x (unat (i_a ins)) v))
           else
             rbind (proto_walk x p atom_id 0) (\<lambda>(x, r).
               case r of
                 None \<Rightarrow> trap_continue x JELLO_TRAP_BOUNDS ''prototype chain too deep''
               | Some v \<Rightarrow> and_continue (vm_store_from_boxed fp malloc x (unat (i_a ins)) v))))"

definition op_obj_set :: "alloc_fun \<Rightarrow> handler" where
  "op_obj_set malloc x ins =
     rbind (vm_load_ptr (x_rf x) (unat (i_b ins))) (\<lambda>p.
       if p = 0 then Inl PANIC
       else
         rbind (vm_load_u32 (x_rf x) (unat (i_c ins))) (\<lambda>atom_id.
           if m_natoms (x_m x) \<le> atom_id then trap_continue x JELLO_TRAP_BOUNDS ''obj_set atom id out of range''
           else
             rbind (on_object x p (\<lambda>ob. jello_object_upsert ob atom_id)) (\<lambda>(x, slot, existed).
               object_assign malloc x p atom_id slot existed (unat (i_a ins)))))"

text \<open>The register \<open>c\<close> of the handlers below holds the atom, which is compared with the size of the atom table.\<close>

definition object_with_atom ::
  "string \<Rightarrow> exec_ctx \<Rightarrow> jello_insn \<Rightarrow> (addr \<Rightarrow> u32 \<Rightarrow> (op_result \<times> exec_ctx) run) \<Rightarrow> (op_result \<times> exec_ctx) run" where
  "object_with_atom name x ins g =
     deref_or_trap x (unat (i_b ins)) (name @ '' on null'') (\<lambda>p.
     rbind (vm_load_u32 (x_rf x) (unat (i_c ins))) (\<lambda>atom_id.
       if m_natoms (x_m x) \<le> atom_id then trap_continue x JELLO_TRAP_BOUNDS (name @ '' atom id out of range'')
       else g p atom_id))"

definition op_obj_has :: handler where
  "op_obj_has x ins =
     object_with_atom ''obj_has'' x ins (\<lambda>p atom_id.
     rbind (on_object x p (\<lambda>ob. jello_object_has ob atom_id)) (\<lambda>(x, has).
       continue_with x (vm_store_u32 (x_rf x) (unat (i_a ins)) (bool_u32 has))))"

definition op_obj_remove :: handler where
  "op_obj_remove x ins =
     object_with_atom ''obj_remove'' x ins (\<lambda>p atom_id.
     rbind (on_object x p (\<lambda>ob. jello_object_remove ob atom_id)) (\<lambda>(x, removed).
       continue_with x (vm_store_u32 (x_rf x) (unat (i_a ins)) (bool_u32 removed))))"

definition op_obj_clear :: handler where
  "op_obj_clear x ins =
     deref_or_trap x (unat (i_b ins)) ''obj_clear on null'' (\<lambda>p.
     rbind (object_at x p) (\<lambda>ob. Inr (OP_CONTINUE, x_put x p (OObject (jello_object_clear ob)))))"

text \<open>The loops over the slots of an object. \<^verbatim>\<open>dst\<close> and \<^verbatim>\<open>tail\<close> are C variables that no root protects.\<close>

fun object_copy_loop :: "alloc_fun \<Rightarrow> exec_ctx \<Rightarrow> addr \<Rightarrow> addr \<Rightarrow> nat list \<Rightarrow> exec_ctx run" where
  "object_copy_loop malloc x dst src [] = Inr x"
| "object_copy_loop malloc x dst src (i # is) =
     rbind (object_at x src) (\<lambda>ob.
       if o_states ob ! i = SLOT_OCCUPIED then
         rbind (vm_clone_numbox malloc x (o_vals ob ! i)) (\<lambda>(x, v).
         rbind (on_object x dst (\<lambda>d. map_option (\<lambda>d. (d, ())) (jello_object_set d (o_keys ob ! i) v))) (\<lambda>(x, _).
           object_copy_loop malloc x dst src is))
       else object_copy_loop malloc x dst src is)"

definition jello_object_copy :: "alloc_fun \<Rightarrow> exec_ctx \<Rightarrow> addr \<Rightarrow> (exec_ctx \<times> addr) run" where
  "jello_object_copy malloc x src =
     rbind (object_at x src) (\<lambda>ob.
     rbind (x_new x (\<lambda>vm. heap_object_new malloc vm (o_type_id ob))) (\<lambda>(x, dst).
     rbind (object_copy_loop malloc x dst src [0..<unat (o_cap ob)]) (\<lambda>x.
     rbind (object_at x src) (\<lambda>ob.
     rbind (object_at x dst) (\<lambda>d. Inr (x_put x dst (OObject (d\<lparr>o_proto := o_proto ob\<rparr>)), dst))))))"

definition op_obj_copy :: "alloc_fun \<Rightarrow> handler" where
  "op_obj_copy malloc x ins =
     deref_or_trap x (unat (i_b ins)) ''obj_copy on null'' (\<lambda>src.
     rbind (jello_object_copy malloc x src) (\<lambda>(x, dst).
       continue_with x (vm_store_ptr (x_rf x) (unat (i_a ins)) dst)))"

fun obj_keys_loop :: "alloc_fun \<Rightarrow> u32 \<Rightarrow> exec_ctx \<Rightarrow> addr \<Rightarrow> addr \<Rightarrow> nat list \<Rightarrow> (exec_ctx \<times> addr) run" where
  "obj_keys_loop malloc list_type_id x p tail [] = Inr (x, tail)"
| "obj_keys_loop malloc list_type_id x p tail (i # is) =
     rbind (object_at x p) (\<lambda>ob.
       if o_states ob ! i = SLOT_OCCUPIED then
         rbind (x_new x (\<lambda>vm. jello_list_cons malloc vm list_type_id (jello_make_atom (o_keys ob ! i)) tail)) (\<lambda>(x, tail).
           obj_keys_loop malloc list_type_id x p tail is)
       else obj_keys_loop malloc list_type_id x p tail is)"

definition op_obj_keys :: "alloc_fun \<Rightarrow> handler" where
  "op_obj_keys malloc x ins =
     deref_or_trap x (unat (i_b ins)) ''obj_keys on null'' (\<lambda>p.
     rbind (object_at x p) (\<lambda>ob.
     rbind (obj_keys_loop malloc (f_reg_types (x_f x) ! unat (i_a ins)) x p 0 [0..<unat (o_cap ob)]) (\<lambda>(x, tail).
       continue_with x (vm_store_ptr (x_rf x) (unat (i_a ins)) tail))))"

end
