(* ===== verification/Jello_Stack.thy ===== *)
theory Jello_Stack
  imports Jello_Regs
begin

text \<open>
  The memory of register frames (\<^verbatim>\<open>vm_frame_stack_grow\<close>, \<^verbatim>\<open>vm_frame_stack_bump\<close> and \<^verbatim>\<open>vm_rf_release\<close> of \<^verbatim>\<open>src/vm/frame.c\<close> and
  \<^verbatim>\<open>vm_internal.h\<close>): one block that grows and is used as a stack. Addresses are offsets into the block, which is what
  the rebasing after \<^verbatim>\<open>realloc\<close> keeps. Frames come from this stack alone; the size buckets of \<^verbatim>\<open>rf_free_by_size\<close> are
  never filled.

  The frames of a run share no byte as long as no tail call shrinks a frame. When one does, the frame of the next
  call overlaps it.
\<close>

section \<open>The stack\<close>

record frame_stack =
  fs_top :: u32
  fs_cap :: u32

definition FRAME_STACK_INITIAL :: u32 where "FRAME_STACK_INITIAL = 64 * 1024"

text \<open>\<^verbatim>\<open>while(new_cap < vm->frame_stack_top + need) new_cap *= 4u\<close>, on words that wrap.\<close>

partial_function (option) grow_cap :: "u32 \<Rightarrow> u32 \<Rightarrow> u32 option" where
  "grow_cap new_cap want = (if new_cap < want then grow_cap (new_cap * 4) want else Some new_cap)"

declare grow_cap.simps [code]

text \<open>\<open>realloc n\<close> says whether \<open>n\<close> bytes could be allocated.\<close>

definition vm_frame_stack_grow :: "(u32 \<Rightarrow> bool) \<Rightarrow> frame_stack \<Rightarrow> u32 \<Rightarrow> frame_stack run" where
  "vm_frame_stack_grow realloc fs need =
     (if fs_top fs + need \<le> fs_cap fs then Inr fs
      else
        (case grow_cap (if fs_cap fs \<noteq> 0 then fs_cap fs * 4 else FRAME_STACK_INITIAL) (fs_top fs + need) of
           None \<Rightarrow> Inl HANG
         | Some new_cap \<Rightarrow> if realloc new_cap then Inr (fs\<lparr>fs_cap := new_cap\<rparr>) else Inl PANIC))"

text \<open>The result is the address of the new bytes, \<open>None\<close> for \<^verbatim>\<open>NULL\<close>.\<close>

definition vm_frame_stack_bump :: "(u32 \<Rightarrow> bool) \<Rightarrow> frame_stack \<Rightarrow> u32 \<Rightarrow> (frame_stack \<times> u32 option) run" where
  "vm_frame_stack_bump realloc fs n =
     (if n = 0 then Inr (fs, None)
      else
        rbind (if fs_cap fs < fs_top fs + n then vm_frame_stack_grow realloc fs n else Inr fs) (\<lambda>fs.
          Inr (fs\<lparr>fs_top := fs_top fs + n\<rparr>, Some (fs_top fs))))"

text \<open>The memory of a frame: \<^verbatim>\<open>rf->mem\<close> and \<^verbatim>\<open>rf->total\<close>.\<close>

type_synonym frame_mem = "u32 option \<times> u32"

definition vm_rf_release :: "frame_stack \<Rightarrow> frame_mem \<Rightarrow> frame_stack" where
  "vm_rf_release fs fm = (case fm of (None, _) \<Rightarrow> fs | (Some _, tot) \<Rightarrow> fs\<lparr>fs_top := fs_top fs - tot\<rparr>)"

text \<open>The memory that \<open>vm_replace_frame\<close> gives the frame of a tail call.\<close>

definition replace_frame_mem :: "(u32 \<Rightarrow> bool) \<Rightarrow> frame_stack \<Rightarrow> frame_mem \<Rightarrow> u32 \<Rightarrow> (frame_stack \<times> frame_mem) run" where
  "replace_frame_mem realloc fs fm tot =
     (case fm of (mem, oldtot) \<Rightarrow>
        if tot \<le> oldtot then
          (let delta = oldtot - tot in
           if tot < oldtot then
             Inr (fs\<lparr>fs_top := fs_top fs - delta\<rparr>, map_option (\<lambda>p. p + delta) mem, tot)
           else Inr (fs, mem, tot))
        else
          rbind (vm_frame_stack_bump realloc (vm_rf_release fs fm) tot) (\<lambda>(fs, mem). Inr (fs, mem, tot)))"

section \<open>Sequences of calls\<close>

text \<open>The frames of a run, the top one first, under calls, returns and tail calls of functions with the given
  frame sizes. \<open>Inl PANIC\<close> is also a return with no frame left.\<close>

datatype stack_op = Call u32 | Return | Tail u32

fun stack_step :: "(u32 \<Rightarrow> bool) \<Rightarrow> stack_op \<Rightarrow> frame_stack \<times> frame_mem list \<Rightarrow> (frame_stack \<times> frame_mem list) run" where
  "stack_step realloc (Call tot) (fs, fms) =
     rbind (vm_frame_stack_bump realloc (if fms = [] then fs\<lparr>fs_top := 0\<rparr> else fs) tot) (\<lambda>(fs, mem). Inr (fs, (mem, tot) # fms))"
| "stack_step realloc Return (fs, []) = Inl PANIC"
| "stack_step realloc Return (fs, fm # fms) = Inr (vm_rf_release fs fm, fms)"
| "stack_step realloc (Tail tot) (fs, []) = Inl PANIC"
| "stack_step realloc (Tail tot) (fs, fm # fms) =
     rbind (replace_frame_mem realloc fs fm tot) (\<lambda>(fs, fm). Inr (fs, fm # fms))"

fun stack_run :: "(u32 \<Rightarrow> bool) \<Rightarrow> stack_op list \<Rightarrow> frame_stack \<times> frame_mem list \<Rightarrow> (frame_stack \<times> frame_mem list) run" where
  "stack_run realloc [] st = Inr st"
| "stack_run realloc (op # ops) st = rbind (stack_step realloc op st) (stack_run realloc ops)"

text \<open>The bytes of a frame.\<close>

fun frame_span :: "frame_mem \<Rightarrow> nat set" where
  "frame_span (None, tot) = {}"
| "frame_span (Some p, tot) = {unat p..<unat p + unat tot}"


section \<open>Disjoint frames\<close>

text \<open>Growth ends exactly up to 1 GiB: the capacities are \<open>2^16\<close>, \<open>2^18\<close> and so on up to \<open>2^30\<close>, and the next one wraps
  to 0.\<close>

lemma grow_cap_hit: "want \<le> c \<Longrightarrow> grow_cap c want = Some c"
  by (subst grow_cap.simps) (simp add: not_less [symmetric])

lemma grow_cap_step: "c < want \<Longrightarrow> grow_cap c want = grow_cap (c * 4) want"
  by (subst grow_cap.simps) simp

definition stack_caps :: "u32 set" where
  "stack_caps = {2 ^ 16, 2 ^ 18, 2 ^ 20, 2 ^ 22, 2 ^ 24, 2 ^ 26, 2 ^ 28, 2 ^ 30}"

definition grows_to :: "u32 \<Rightarrow> u32 \<Rightarrow> bool" where
  "grows_to c want \<longleftrightarrow> (\<exists>c'\<in>stack_caps. grow_cap c want = Some c' \<and> want \<le> c')"

lemma grows_to_next: "c \<in> stack_caps \<Longrightarrow> grows_to (c * 4) want \<Longrightarrow> grows_to c want"
  using grow_cap_step [of c want] grow_cap_hit [of want c] by (cases "c < want") (auto simp: grows_to_def not_less)

lemma grow_cap_ends:
  assumes "c \<in> stack_caps" "want \<le> 2 ^ 30"
  shows "grows_to c want"
proof -
  have g30: "grows_to (2 ^ 30) want" using assms(2) grow_cap_hit [of want "2 ^ 30"] by (auto simp: grows_to_def stack_caps_def)
  have g28: "grows_to (2 ^ 28) want" by (rule grows_to_next) (use g30 in \<open>simp_all add: stack_caps_def\<close>)
  have g26: "grows_to (2 ^ 26) want" by (rule grows_to_next) (use g28 in \<open>simp_all add: stack_caps_def\<close>)
  have g24: "grows_to (2 ^ 24) want" by (rule grows_to_next) (use g26 in \<open>simp_all add: stack_caps_def\<close>)
  have g22: "grows_to (2 ^ 22) want" by (rule grows_to_next) (use g24 in \<open>simp_all add: stack_caps_def\<close>)
  have g20: "grows_to (2 ^ 20) want" by (rule grows_to_next) (use g22 in \<open>simp_all add: stack_caps_def\<close>)
  have g18: "grows_to (2 ^ 18) want" by (rule grows_to_next) (use g20 in \<open>simp_all add: stack_caps_def\<close>)
  have g16: "grows_to (2 ^ 16) want" by (rule grows_to_next) (use g18 in \<open>simp_all add: stack_caps_def\<close>)
  show ?thesis using assms(1) g16 g18 g20 g22 g24 g26 g28 g30 unfolding stack_caps_def by blast
qed

text \<open>From 0 the loop never ends.\<close>

lemma grow_cap_zero: "0 < want \<Longrightarrow> grow_cap 0 want = None"
proof (rule ccontr)
  assume w: "0 < want" and "grow_cap 0 want \<noteq> None"
  then obtain r where r: "grow_cap 0 want = Some r" by blast
  have "0 = (0 :: u32) \<longrightarrow> want = want \<longrightarrow> False"
    by (rule grow_cap.raw_induct [OF _ r, where P = "\<lambda>c v _. c = 0 \<longrightarrow> v = want \<longrightarrow> False"]) (use w in \<open>auto split: if_splits\<close>)
  then show False by simp
qed

text \<open>The frames fill the stack from the bottom, one above the other; a frame of no bytes has no memory.\<close>

fun stacked :: "frame_mem list \<Rightarrow> nat \<Rightarrow> bool" where
  "stacked [] t \<longleftrightarrow> t = 0"
| "stacked ((mem, tot) # fms) t \<longleftrightarrow>
     (case mem of None \<Rightarrow> tot = 0 \<and> stacked fms t
      | Some b \<Rightarrow> tot \<noteq> 0 \<and> t = unat b + unat tot \<and> stacked fms (unat b))"

definition room_ok :: "frame_stack \<Rightarrow> bool" where
  "room_ok fs \<longleftrightarrow> fs_top fs \<le> fs_cap fs \<and> fs_cap fs \<in> insert 0 stack_caps"

lemma bump_ok:
  assumes "\<forall>n. realloc n" "room_ok fs" "unat (fs_top fs) + unat n \<le> 2 ^ 30"
  shows "\<exists>fs' mem. vm_frame_stack_bump realloc fs n = Inr (fs', mem) \<and> room_ok fs' \<and>
    unat (fs_top fs') = unat (fs_top fs) + unat n \<and> mem = (if n = 0 then None else Some (fs_top fs))"
proof (cases "n = 0")
  case True
  then show ?thesis using assms(2) by (simp add: vm_frame_stack_bump_def)
next
  case False
  let ?w = "fs_top fs + n" and ?c = "if fs_cap fs \<noteq> 0 then fs_cap fs * 4 else FRAME_STACK_INITIAL"
  have w: "unat ?w = unat (fs_top fs) + unat n" using assms(3) by (simp add: unat_word_ariths)
  then have w30: "?w \<le> 2 ^ 30" using assms(3) by (simp add: word_le_nat_alt)
  show ?thesis
  proof (cases "?w \<le> fs_cap fs")
    case True
    then have "\<not> fs_cap fs < ?w" by simp
    then show ?thesis using True False assms(2) w by (simp add: vm_frame_stack_bump_def room_ok_def)
  next
    case more: False
    then have "fs_cap fs < 2 ^ 30" using w30 by simp
    then have "?c \<in> stack_caps" using assms(2) unfolding room_ok_def stack_caps_def FRAME_STACK_INITIAL_def by auto
    then obtain c where "c \<in> stack_caps" "grow_cap ?c ?w = Some c" "?w \<le> c" using grow_cap_ends w30 unfolding grows_to_def by blast
    moreover from this have "vm_frame_stack_grow realloc fs n = Inr (fs\<lparr>fs_cap := c\<rparr>)"
      unfolding vm_frame_stack_grow_def using more assms(1) by auto
    ultimately show ?thesis using False more w by (simp add: vm_frame_stack_bump_def room_ok_def not_le [symmetric])
  qed
qed

lemma release_stacked:
  assumes "stacked (fm # fms) (unat (fs_top fs))" "room_ok fs"
  shows "stacked fms (unat (fs_top (vm_rf_release fs fm)))" and "room_ok (vm_rf_release fs fm)"
    and "unat (fs_top fs) = unat (fs_top (vm_rf_release fs fm)) + unat (snd fm)"
proof -
  obtain mem tot where fm: "fm = (mem, tot)" by force
  have "stacked fms (unat (fs_top (vm_rf_release fs fm))) \<and> room_ok (vm_rf_release fs fm) \<and>
    unat (fs_top fs) = unat (fs_top (vm_rf_release fs fm)) + unat (snd fm)"
  proof (cases mem)
    case None
    then show ?thesis using assms fm by (simp add: vm_rf_release_def)
  next
    case (Some b)
    then have t: "unat (fs_top fs) = unat b + unat tot" "stacked fms (unat b)" using assms(1) fm by auto
    then have "unat (fs_top fs - tot) = unat b" by (simp add: unat_sub word_le_nat_alt)
    moreover from this have "fs_top fs - tot \<le> fs_cap fs" using assms(2) t(1) by (simp add: room_ok_def word_le_nat_alt)
    ultimately show ?thesis using t assms(2) fm Some by (simp add: vm_rf_release_def room_ok_def)
  qed
  then show "stacked fms (unat (fs_top (vm_rf_release fs fm)))" and "room_ok (vm_rf_release fs fm)"
    and "unat (fs_top fs) = unat (fs_top (vm_rf_release fs fm)) + unat (snd fm)" by blast+
qed

text \<open>Sequences in which no tail call shrinks a frame, and the frame sizes they lead to.\<close>

fun keeps_room :: "stack_op list \<Rightarrow> u32 list \<Rightarrow> u32 list option" where
  "keeps_room [] ss = Some ss"
| "keeps_room (Call n # ops) ss = keeps_room ops (n # ss)"
| "keeps_room (Return # ops) (s # ss) = keeps_room ops ss"
| "keeps_room (Tail n # ops) (s # ss) = (if s \<le> n then keeps_room ops (n # ss) else None)"
| "keeps_room _ [] = None"

fun op_bytes :: "stack_op \<Rightarrow> nat" where
  "op_bytes (Call n) = unat n"
| "op_bytes Return = 0"
| "op_bytes (Tail n) = unat n"

definition stack_ok :: "frame_stack \<times> frame_mem list \<Rightarrow> bool" where
  "stack_ok st \<longleftrightarrow> stacked (snd st) (unat (fs_top (fst st))) \<and> room_ok (fst st)"

lemma push_stacked:
  assumes "stacked fms (unat b)" "t = unat b + unat n"
  shows "stacked ((if n = 0 then None else Some b, n) # fms) t"
  using assms by simp

lemma stack_step_ok:
  assumes r: "\<forall>n. realloc n" and ok: "stack_ok (fs, fms)" and n: "unat (fs_top fs) + op_bytes op \<le> 2 ^ 30"
    and k: "keeps_room [op] (map snd fms) = Some ss"
  shows "\<exists>fs' fms'. stack_step realloc op (fs, fms) = Inr (fs', fms') \<and> stack_ok (fs', fms') \<and> map snd fms' = ss \<and>
    unat (fs_top fs') \<le> unat (fs_top fs) + op_bytes op"
proof -
  have st: "stacked fms (unat (fs_top fs))" and rm: "room_ok fs" using ok by (simp_all add: stack_ok_def)
  show ?thesis
  proof (cases op)
    case (Call m)
    have z: "(if fms = [] then fs\<lparr>fs_top := 0\<rparr> else fs) = fs"
      using st by (cases fms) (auto simp: unat_eq_0)
    obtain fs' mem where b: "vm_frame_stack_bump realloc fs m = Inr (fs', mem)" "room_ok fs'"
        "unat (fs_top fs') = unat (fs_top fs) + unat m" "mem = (if m = 0 then None else Some (fs_top fs))"
      using bump_ok [OF r rm, of m] n Call by auto
    then show ?thesis using push_stacked [OF st b(3)] st k Call z by (auto simp: stack_ok_def)
  next
    case Return
    then obtain fm fms' where f: "fms = fm # fms'" using k by (cases fms) auto
    then show ?thesis using release_stacked [of fm fms' fs] st rm Return k by (auto simp: stack_ok_def)
  next
    case (Tail m)
    then obtain mem tot fms' where f: "fms = (mem, tot) # fms'" "tot \<le> m" "ss = m # map snd fms'"
      using k by (cases fms) (auto split: if_splits)
    let ?r = "vm_rf_release fs (mem, tot)"
    note rel = release_stacked [of "(mem, tot)" fms' fs, OF st [unfolded f(1)] rm]
    show ?thesis
    proof (cases "m = tot")
      case True
      then show ?thesis using f Tail st rm by (auto simp: stack_ok_def replace_frame_mem_def)
    next
      case False
      then have lt: "\<not> m \<le> tot" using f(2) by simp
      have "unat (fs_top ?r) + unat m \<le> 2 ^ 30" using rel(3) n Tail by simp
      from bump_ok [OF r rel(2) this] obtain fs' mem' where b: "vm_frame_stack_bump realloc ?r m = Inr (fs', mem')" "room_ok fs'"
          "unat (fs_top fs') = unat (fs_top ?r) + unat m" "mem' = (if m = 0 then None else Some (fs_top ?r))" by auto
      have "stack_step realloc op (fs, fms) = Inr (fs', (mem', m) # fms')"
        using b(1) lt Tail f(1) by (simp add: replace_frame_mem_def del: not_le)
      moreover have "stack_ok (fs', (mem', m) # fms')"
        using push_stacked [OF rel(1) b(3)] b(2,4) by (simp add: stack_ok_def)
      ultimately show ?thesis using b(3) rel(3) Tail f(3) by simp
    qed
  qed
qed

lemma stack_run_ok:
  assumes "\<forall>n. realloc n"
  shows "stack_ok (fs, fms) \<Longrightarrow> keeps_room ops (map snd fms) = Some ss \<Longrightarrow>
    unat (fs_top fs) + sum_list (map op_bytes ops) \<le> 2 ^ 30 \<Longrightarrow>
    \<exists>fs' fms'. stack_run realloc ops (fs, fms) = Inr (fs', fms') \<and> stack_ok (fs', fms') \<and> map snd fms' = ss"
proof (induction ops arbitrary: fs fms)
  case (Cons op ops)
  obtain ss1 where k: "keeps_room [op] (map snd fms) = Some ss1" "keeps_room ops ss1 = Some ss"
    using Cons(3) by (cases op; cases "map snd fms") (auto split: if_splits)
  obtain fs1 fms1 where s: "stack_step realloc op (fs, fms) = Inr (fs1, fms1)" "stack_ok (fs1, fms1)" "map snd fms1 = ss1"
      "unat (fs_top fs1) \<le> unat (fs_top fs) + op_bytes op"
    using stack_step_ok [OF assms Cons(2) _ k(1)] Cons(4) by auto
  from Cons(1) [OF s(2)] k(2) s(3,4) Cons(4) show ?case by (simp add: s(1))
qed simp

lemma stacked_span: "stacked fms t \<Longrightarrow> fm \<in> set fms \<Longrightarrow> frame_span fm \<subseteq> {..<t}"
proof (induction fms arbitrary: t)
  case (Cons f fms)
  obtain mem tot where f: "f = (mem, tot)" by force
  show ?case
  proof (cases mem)
    case None
    then show ?thesis using Cons f by auto
  next
    case (Some b)
    then show ?thesis using Cons(1) [of "unat b"] Cons(2,3) f by fastforce
  qed
qed simp

lemma stacked_disjoint:
  "stacked fms t \<Longrightarrow> i < j \<Longrightarrow> j < length fms \<Longrightarrow> frame_span (fms ! i) \<inter> frame_span (fms ! j) = {}"
proof (induction fms arbitrary: t i j)
  case (Cons f fms)
  obtain mem tot where f: "f = (mem, tot)" by force
  obtain j' where j: "j = Suc j'" "j' < length fms" using Cons(3,4) by (cases j) auto
  show ?case
  proof (cases i)
    case 0
    have "fms ! j' \<in> set fms" using j by simp
    then show ?thesis using Cons(2) f 0 j stacked_span [of fms "the (map_option unat mem)" "fms ! j'"]
      by (cases mem) fastforce+
  next
    case (Suc i')
    then show ?thesis using Cons f j by (cases mem) fastforce+
  qed
qed simp



text \<open>Past 1 GiB growing never ends.\<close>

lemma frame_stack_grow_hangs:
  assumes "fs_cap fs = 2 ^ 30" "2 ^ 30 < fs_top fs + need"
  shows "vm_frame_stack_grow realloc fs need = Inl HANG"
proof -
  have z: "(2 ^ 30 :: u32) * 4 = 0" by code_simp
  have "0 < fs_top fs + need" using assms(2) by (rule le_less_trans [rotated]) simp
  then have "grow_cap (fs_cap fs * 4) (fs_top fs + need) = None" using assms(1) grow_cap_zero [of "fs_top fs + need"] z by metis
  moreover have "fs_cap fs \<noteq> 0" "\<not> fs_top fs + need \<le> fs_cap fs" using assms by simp_all
  ultimately show ?thesis unfolding vm_frame_stack_grow_def by simp
qed

end
