(* ===== verification/Jello_Calls.thy ===== *)
theory Jello_Calls
  imports Jello_Objops Jello_Stack
begin

text \<open>
  Calls, returns and exceptions on the machine (\<^verbatim>\<open>src/vm/frame.c\<close>, \<^verbatim>\<open>call.c\<close>, \<^verbatim>\<open>exc.c\<close>, \<^verbatim>\<open>ops_call.c\<close>, the return and assert
  opcodes of \<^verbatim>\<open>ops_control.c\<close> and the inlined call and return of \<^verbatim>\<open>exec_loop.c\<close>). \<open>x_below\<close> is the stack of callers and
  \<open>x_fr\<close> the running frame. Every frame has its own memory, as \<open>Jello_Stack\<close> shows for calls and returns.
\<close>

section \<open>Functions and their captures\<close>

datatype captures = CapVals "jello_value list" | CapRaw u32 "u8 list"

record fun_obj =
  fo_func_index :: u32
  fo_bound_this :: jello_value
  fo_caps :: captures

text \<open>\<^verbatim>\<open>(jello_function*)p\<close>, with \<^verbatim>\<open>caps_are_raw\<close> as the constructor of the captures.\<close>

definition function_at :: "exec_ctx \<Rightarrow> addr \<Rightarrow> fun_obj run" where
  "function_at x p =
     rbind (obj_of x p) (\<lambda>ob.
       case ob of
         OFunction _ fi this caps \<Rightarrow> Inr \<lparr>fo_func_index = fi, fo_bound_this = this, fo_caps = CapVals caps\<rparr>
       | ORawClosure _ fi ncaps this bs \<Rightarrow> Inr \<lparr>fo_func_index = fi, fo_bound_this = this, fo_caps = CapRaw ncaps bs\<rparr>
       | _ \<Rightarrow> Inl FAULT)"

fun ncaps_of :: "captures \<Rightarrow> u32" where
  "ncaps_of (CapVals vs) = of_nat (length vs)"
| "ncaps_of (CapRaw n _) = n"

text \<open>A pointer that may be \<^verbatim>\<open>NULL\<close>.\<close>

definition funobj_at :: "exec_ctx \<Rightarrow> addr \<Rightarrow> fun_obj option run" where
  "funobj_at x p = (if p = 0 then Inr None else rbind (function_at x p) (\<lambda>fo. Inr (Some fo)))"

definition this_of :: "fun_obj option \<Rightarrow> jello_value option" where
  "this_of fo = (case fo of None \<Rightarrow> None | Some fo \<Rightarrow> if jello_bound_this_is_set (fo_bound_this fo) then Some (fo_bound_this fo) else None)"

definition JELLO_FUNC_INDEX_JDLL_PRIM :: u32 where "JELLO_FUNC_INDEX_JDLL_PRIM = 0xFFFFFFFE"

definition jello_is_jdll_prim :: "u32 \<Rightarrow> bool" where
  "jello_is_jdll_prim func_index \<longleftrightarrow> func_index = JELLO_FUNC_INDEX_JDLL_PRIM"

definition jello_is_native_builtin :: "u32 \<Rightarrow> bool" where
  "jello_is_native_builtin func_index \<longleftrightarrow> func_index < JELLO_NATIVE_BUILTIN_COUNT"

section \<open>Copying registers between frames\<close>

definition reg_type_at :: "jello_bc_function \<Rightarrow> nat \<Rightarrow> u32 run" where
  "reg_type_at f r = (if r < length (f_reg_types f) then Inr (f_reg_types f ! r) else Inl FAULT)"

definition type_kind_at :: "jello_bc_module \<Rightarrow> u32 \<Rightarrow> jello_type_kind run" where
  "type_kind_at m t = (if unat t < length (m_types m) then Inr (te_kind (m_types m ! unat t)) else Inl FAULT)"

definition vm_arg_types_compatible :: "jello_bc_module \<Rightarrow> u32 \<Rightarrow> u32 \<Rightarrow> bool run" where
  "vm_arg_types_compatible m src_tid dst_tid =
     (if src_tid = dst_tid then Inr True
      else if m_ntypes m \<le> src_tid \<or> m_ntypes m \<le> dst_tid then Inr False
      else rbind (type_kind_at m src_tid) (\<lambda>sk. rbind (type_kind_at m dst_tid) (\<lambda>dk. Inr (sk = dk))))"

definition vm_type_is_nonptr :: "jello_type_kind \<Rightarrow> bool" where
  "vm_type_is_nonptr k \<longleftrightarrow> k \<in> {JELLO_T_I8, JELLO_T_I16, JELLO_T_I32, JELLO_T_I64, JELLO_T_F16, JELLO_T_F32, JELLO_T_F64,
     JELLO_T_BOOL, JELLO_T_ATOM}"

text \<open>The loop over the arguments. Nothing compares the number of arguments with the registers of the callee before its
  types are read.\<close>

fun arg_types_fit :: "jello_bc_module \<Rightarrow> jello_bc_function \<Rightarrow> jello_bc_function \<Rightarrow> nat \<Rightarrow> nat \<Rightarrow> bool \<Rightarrow> nat list \<Rightarrow> bool run" where
  "arg_types_fit m caller_f callee_f first_arg dst_base require_nonptr [] = Inr True"
| "arg_types_fit m caller_f callee_f first_arg dst_base require_nonptr (i # is) =
     rbind (reg_type_at caller_f (first_arg + i)) (\<lambda>src_tid.
     rbind (reg_type_at callee_f (dst_base + i)) (\<lambda>dst_tid.
     rbind (vm_arg_types_compatible m src_tid dst_tid) (\<lambda>same.
       if \<not> same then Inr False
       else
         rbind (if require_nonptr then rbind (type_kind_at m dst_tid) (\<lambda>k. Inr (vm_type_is_nonptr k)) else Inr True) (\<lambda>ok.
           if ok then arg_types_fit m caller_f callee_f first_arg dst_base require_nonptr is else Inr False))))"

definition vm_can_use_fast_arg_copy ::
  "jello_bc_module \<Rightarrow> jello_bc_function \<Rightarrow> jello_bc_function \<Rightarrow> nat \<Rightarrow> nat \<Rightarrow> nat \<Rightarrow> fun_obj option \<Rightarrow> bool \<Rightarrow> bool run" where
  "vm_can_use_fast_arg_copy m caller_f callee_f first_arg nargs dst_base funobj require_nonptr =
     (if nargs = 0 then Inr False
      else if (case funobj of None \<Rightarrow> False | Some fo \<Rightarrow> ncaps_of (fo_caps fo) \<noteq> 0 \<or> jello_bound_this_is_set (fo_bound_this fo)) then Inr False
      else arg_types_fit m caller_f callee_f first_arg dst_base require_nonptr [0..<nargs])"

text \<open>The bytes of a register of the callee's kind, read at a register of the caller.\<close>

definition read_slot :: "jello_type_kind \<Rightarrow> reg_frame \<Rightarrow> nat \<Rightarrow> u8 list run" where
  "read_slot k rf r = rbind (vm_reg_ptr rf r) (\<lambda>p. read_at rf p (jello_slot_size k))"

definition write_slot_bytes :: "reg_frame \<Rightarrow> nat \<Rightarrow> u8 list \<Rightarrow> reg_frame run" where
  "write_slot_bytes rf r bs = rbind (vm_reg_ptr rf r) (\<lambda>p. write_at rf p bs)"

definition copy_slot :: "jello_bc_module \<Rightarrow> jello_bc_function \<Rightarrow> reg_frame \<Rightarrow> nat \<Rightarrow> reg_frame \<Rightarrow> nat \<Rightarrow> reg_frame run" where
  "copy_slot m callee_f src_rf src dst_rf dst =
     rbind (vm_reg_kind m callee_f dst) (\<lambda>k. rbind (read_slot k src_rf src) (\<lambda>bs. write_slot_bytes dst_rf dst bs))"

text \<open>Copies of register \<open>src + i\<close> to register \<open>dst + i\<close>.\<close>

fun copy_slots :: "jello_bc_module \<Rightarrow> jello_bc_function \<Rightarrow> reg_frame \<Rightarrow> nat \<Rightarrow> reg_frame \<Rightarrow> nat \<Rightarrow> nat list \<Rightarrow> reg_frame run" where
  "copy_slots m callee_f src_rf src dst_rf dst [] = Inr dst_rf"
| "copy_slots m callee_f src_rf src dst_rf dst (i # is) =
     rbind (copy_slot m callee_f src_rf (src + i) dst_rf (dst + i)) (\<lambda>dst_rf. copy_slots m callee_f src_rf src dst_rf dst is)"

definition vm_inherit_self_capture_slots ::
  "jello_bc_module \<Rightarrow> jello_bc_function \<Rightarrow> reg_frame \<Rightarrow> reg_frame \<Rightarrow> nat \<Rightarrow> reg_frame run" where
  "vm_inherit_self_capture_slots m f dst_rf src_rf nargs =
     (if \<not> has_feat (m_features m) JELLO_BC_FEAT_CAP_START then Inr dst_rf
      else if f_cap_start f = 0 \<or> f_nregs f \<le> f_cap_start f then Inr dst_rf
      else copy_slots m f src_rf 0 dst_rf 0 (filter (\<lambda>r. nargs \<le> r) [unat (f_cap_start f)..<unat (f_nregs f)]))"

section \<open>New frames\<close>

text \<open>\<open>stale n\<close> is what \<open>n\<close> bytes from \<^verbatim>\<open>vm_frame_stack_alloc\<close> hold: whatever earlier frames left there. Frames with
  references are cleared, with null in the Dynamic registers; frames without are left as they are.\<close>

fun null_dynamic_slots :: "jello_bc_module \<Rightarrow> jello_bc_function \<Rightarrow> reg_frame \<Rightarrow> nat list \<Rightarrow> reg_frame run" where
  "null_dynamic_slots m f rf [] = Inr rf"
| "null_dynamic_slots m f rf (r # rs) =
     rbind (vm_reg_kind m f r) (\<lambda>k.
     rbind (if k = JELLO_T_DYNAMIC then vm_store_val rf r jello_make_null else Inr rf) (\<lambda>rf.
       null_dynamic_slots m f rf rs))"

definition init_frame :: "u8 list \<Rightarrow> jello_bc_module \<Rightarrow> jello_bc_function \<Rightarrow> frame_layout \<Rightarrow> reg_frame run" where
  "init_frame mem m f fl =
     (let rf = \<lparr>rf_mem = mem, rf_off = fl_off fl, rf_nregs = fl_nregs fl, rf_total = fl_total fl\<rparr> in
      if fl_total fl \<noteq> 0 \<and> fl_has_pointer_or_dynamic fl then
        null_dynamic_slots m f (rf\<lparr>rf_mem := replicate (length mem) 0\<rparr>) [0..<unat (fl_nregs fl)]
      else Inr rf)"

definition push_frame :: "exec_ctx \<Rightarrow> call_frame \<Rightarrow> exec_ctx" where
  "push_frame x fr = x\<lparr>x_below := x_below x @ [x_fr x], x_fr := fr\<rparr>"

definition pop_frame :: "exec_ctx \<Rightarrow> exec_ctx" where
  "pop_frame x = x\<lparr>x_below := butlast (x_below x), x_fr := last (x_below x)\<rparr>"

definition stack_overflow :: "exec_ctx \<Rightarrow> exec_ctx" where
  "stack_overflow x =
     x\<lparr>x_trap_code := JELLO_TRAP_STACK_OVERFLOW, x_trap_msg := Some ''stack overflow'', x_exc_pending := True,
       x_exc_payload := jello_make_i32 (trap_number JELLO_TRAP_STACK_OVERFLOW)\<rparr>"

text \<open>The loops of these functions copy four or eight bytes with an assignment; all slots have one of these sizes.\<close>

definition vm_push_self_numeric :: "(nat \<Rightarrow> u8 list) \<Rightarrow> exec_ctx \<Rightarrow> nat \<Rightarrow> nat \<Rightarrow> u32 \<Rightarrow> exec_ctx run" where
  "vm_push_self_numeric stale x first_arg nargs caller_dst =
     rbind (copy_slots (x_m x) (x_f x) (x_rf x) first_arg ((x_rf x)\<lparr>rf_mem := stale (unat (rf_total (x_rf x)))\<rparr>) 0 [0..<nargs]) (\<lambda>rf.
       Inr (push_frame x
         \<lparr>cf_f = x_f x, cf_rf = rf, cf_pc = 0, cf_caller_dst = caller_dst, cf_exc_base = of_nat (length (x_exc_handlers x)),
          cf_has_caller = True, cf_idx = cf_idx (x_fr x), cf_has_pointer_or_dynamic = False\<rparr>))"

section \<open>Arguments\<close>

text \<open>The callee is the top frame.\<close>

definition vm_copy_arg_strict :: "fpu \<Rightarrow> alloc_fun \<Rightarrow> exec_ctx \<Rightarrow> call_frame \<Rightarrow> nat \<Rightarrow> nat \<Rightarrow> exec_ctx run" where
  "vm_copy_arg_strict fp malloc x caller src dst =
     rbind (reg_type_at (cf_f caller) src) (\<lambda>src_tid.
     rbind (reg_type_at (x_f x) dst) (\<lambda>dst_tid.
       if m_ntypes (x_m x) \<le> src_tid \<or> m_ntypes (x_m x) \<le> dst_tid then Inl PANIC
       else
         rbind (type_kind_at (x_m x) src_tid) (\<lambda>sk.
         rbind (type_kind_at (x_m x) dst_tid) (\<lambda>dk.
           if src_tid = dst_tid \<or> sk = dk then
             x_store x (copy_slot (x_m x) (x_f x) (cf_rf caller) src (x_rf x) dst)
           else if sk = JELLO_T_DYNAMIC then
             rbind (vm_load_val (cf_rf caller) src) (\<lambda>v. vm_store_from_boxed fp malloc x dst v)
           else if dk = JELLO_T_DYNAMIC then
             rbind (vm_box_from_typed malloc x (cf_f caller) (cf_rf caller) src) (\<lambda>(x, v).
               x_store x (vm_store_val (x_rf x) dst v))
           else Inl PANIC))))"

fun copy_args :: "fpu \<Rightarrow> alloc_fun \<Rightarrow> exec_ctx \<Rightarrow> call_frame \<Rightarrow> nat \<Rightarrow> nat \<Rightarrow> nat list \<Rightarrow> exec_ctx run" where
  "copy_args fp malloc x caller first_arg arg_base [] = Inr x"
| "copy_args fp malloc x caller first_arg arg_base (i # is) =
     rbind (vm_copy_arg_strict fp malloc x caller (first_arg + i) (arg_base + i)) (\<lambda>x.
       copy_args fp malloc x caller first_arg arg_base is)"

text \<open>Values into consecutive registers from \<open>r\<close> on, and raw captures.\<close>

fun store_values :: "fpu \<Rightarrow> alloc_fun \<Rightarrow> exec_ctx \<Rightarrow> u32 \<Rightarrow> jello_value list \<Rightarrow> exec_ctx run" where
  "store_values fp malloc x r [] = Inr x"
| "store_values fp malloc x r (v # vs) =
     rbind (vm_store_from_boxed fp malloc x (unat r) v) (\<lambda>x. store_values fp malloc x (r + 1) vs)"

fun store_raw :: "jello_bc_module \<Rightarrow> jello_bc_function \<Rightarrow> reg_frame \<Rightarrow> u32 \<Rightarrow> nat \<Rightarrow> u8 list \<Rightarrow> reg_frame run" where
  "store_raw m f rf r 0 bs = Inr rf"
| "store_raw m f rf r (Suc n) bs =
     rbind (vm_reg_kind m f (unat r)) (\<lambda>k.
       let sz = jello_slot_size k in
       if length bs < sz then Inl FAULT
       else rbind (write_slot_bytes rf (unat r) (take sz bs)) (\<lambda>rf. store_raw m f rf (r + 1) n (drop sz bs)))"

definition capture_start :: "exec_ctx \<Rightarrow> u32 \<Rightarrow> u32" where
  "capture_start x ncaps =
     (if has_feat (m_features (x_m x)) JELLO_BC_FEAT_CAP_START \<and> f_cap_start (x_f x) < rf_nregs (x_rf x) then f_cap_start (x_f x)
      else rf_nregs (x_rf x) - ncaps)"

definition store_captures :: "fpu \<Rightarrow> alloc_fun \<Rightarrow> exec_ctx \<Rightarrow> u32 \<Rightarrow> captures \<Rightarrow> exec_ctx run" where
  "store_captures fp malloc x cap_start caps =
     (case caps of
        CapVals vs \<Rightarrow> store_values fp malloc x cap_start vs
      | CapRaw n bs \<Rightarrow> x_store x (store_raw (x_m x) (x_f x) (x_rf x) cap_start (unat n) bs))"

text \<open>The captures of the function at \<open>funobj\<close>, with the two checks that \<open>vm_replace_frame\<close> leaves out.\<close>

definition init_captures :: "fpu \<Rightarrow> alloc_fun \<Rightarrow> exec_ctx \<Rightarrow> nat \<Rightarrow> addr \<Rightarrow> exec_ctx run" where
  "init_captures fp malloc x nset funobj =
     rbind (funobj_at x funobj) (\<lambda>fo.
       case fo of
         None \<Rightarrow> Inr x
       | Some fo \<Rightarrow>
           (let ncaps = ncaps_of (fo_caps fo); cap_start = capture_start x ncaps in
            if ncaps = 0 then Inr x
            else if rf_nregs (x_rf x) < ncaps then Inl PANIC
            else if unat cap_start < nset then Inl PANIC
            else store_captures fp malloc x cap_start (fo_caps fo)))"

definition init_bound_this :: "fpu \<Rightarrow> alloc_fun \<Rightarrow> exec_ctx \<Rightarrow> addr \<Rightarrow> (exec_ctx \<times> nat) run" where
  "init_bound_this fp malloc x funobj =
     rbind (funobj_at x funobj) (\<lambda>fo.
       case this_of fo of
         None \<Rightarrow> Inr (x, 0)
       | Some this \<Rightarrow>
           if rf_nregs (x_rf x) < 1 then Inl PANIC
           else rbind (vm_store_from_boxed fp malloc x 0 this) (\<lambda>x. Inr (x, 1)))"

definition vm_init_args_and_caps ::
  "fpu \<Rightarrow> alloc_fun \<Rightarrow> exec_ctx \<Rightarrow> call_frame \<Rightarrow> nat \<Rightarrow> nat \<Rightarrow> addr \<Rightarrow> exec_ctx run" where
  "vm_init_args_and_caps fp malloc x caller first_arg nargs funobj =
     rbind (init_bound_this fp malloc x funobj) (\<lambda>(x, arg_base).
       if unat (rf_nregs (x_rf x)) < arg_base + nargs then Inl PANIC
       else
         rbind (copy_args fp malloc x caller first_arg arg_base [0..<nargs]) (\<lambda>x.
           init_captures fp malloc x (arg_base + nargs) funobj))"

definition vm_init_closure_args_from_values ::
  "fpu \<Rightarrow> alloc_fun \<Rightarrow> exec_ctx \<Rightarrow> jello_value list \<Rightarrow> addr \<Rightarrow> exec_ctx run" where
  "vm_init_closure_args_from_values fp malloc x args funobj =
     rbind (init_bound_this fp malloc x funobj) (\<lambda>(x, arg_base).
       if unat (rf_nregs (x_rf x)) < arg_base + length args then Inl PANIC
       else
         rbind (store_values fp malloc x (of_nat arg_base) args) (\<lambda>x.
           init_captures fp malloc x (arg_base + length args) funobj))"

section \<open>Calls\<close>

text \<open>\<open>vm_push_frame\<close> with \<^verbatim>\<open>has_caller = 1\<close>; the caller is the top frame. The result \<open>False\<close> is the return value 0.\<close>

definition callee_frame :: "exec_ctx \<Rightarrow> u32 \<Rightarrow> u32 \<Rightarrow> frame_layout \<Rightarrow> reg_frame \<Rightarrow> call_frame" where
  "callee_frame x idx caller_dst fl rf =
     \<lparr>cf_f = m_funcs (x_m x) ! unat idx, cf_rf = rf, cf_pc = 0, cf_caller_dst = caller_dst,
      cf_exc_base = of_nat (length (x_exc_handlers x)), cf_has_caller = True, cf_idx = idx,
      cf_has_pointer_or_dynamic = fl_has_pointer_or_dynamic fl\<rparr>"

definition vm_push_frame ::
  "(nat \<Rightarrow> u8 list) \<Rightarrow> fpu \<Rightarrow> alloc_fun \<Rightarrow> exec_ctx \<Rightarrow> u32 \<Rightarrow> u32 \<Rightarrow> nat \<Rightarrow> nat \<Rightarrow> addr \<Rightarrow> (exec_ctx \<times> bool) run" where
  "vm_push_frame stale fp malloc x idx caller_dst first_arg nargs funobj =
     (let m = x_m x; caller = x_fr x; callee_f = m_funcs m ! unat idx in
      if x_call_frames_max x \<noteq> 0 \<and> x_call_frames_max x \<le> call_frames_len x then Inr (stack_overflow x, False)
      else if cf_idx caller = idx \<and> funobj = 0 \<and> nargs \<le> 16 \<and> \<not> cf_has_pointer_or_dynamic caller then
        rbind (vm_push_self_numeric stale x first_arg nargs caller_dst) (\<lambda>x. Inr (x, True))
      else
        rbind (vm_get_frame_layout m callee_f) (\<lambda>fl.
        rbind (init_frame (stale (unat (fl_total fl))) m callee_f fl) (\<lambda>rf.
        let x = push_frame x (callee_frame x idx caller_dst fl rf) in
        rbind (if nargs \<le> 16 then
                 rbind (funobj_at x funobj) (\<lambda>fo. vm_can_use_fast_arg_copy m (cf_f caller) callee_f first_arg nargs 0 fo False)
               else Inr False) (\<lambda>fast_args.
        rbind (if fast_args then x_store x (copy_slots m callee_f (cf_rf caller) first_arg (x_rf x) 0 [0..<nargs])
               else vm_init_args_and_caps fp malloc x caller first_arg nargs funobj) (\<lambda>x.
        rbind (if cf_idx caller = idx \<and> funobj = 0 then
                 x_store x (vm_inherit_self_capture_slots m callee_f (x_rf x) (cf_rf caller) nargs)
               else Inr x) (\<lambda>x. Inr (x, True)))))))"

text \<open>The frame of a tail call. Boxed arguments are roots until the new frame is there; the arguments of the typed
  path, and \<^verbatim>\<open>tmp\<close> after \<^verbatim>\<open>jello_gc_pop_roots\<close>, are C variables.\<close>

definition replaced_frame :: "exec_ctx \<Rightarrow> u32 \<Rightarrow> frame_layout \<Rightarrow> reg_frame \<Rightarrow> exec_ctx" where
  "replaced_frame x idx fl rf =
     x\<lparr>x_fr := (x_fr x)\<lparr>cf_f := m_funcs (x_m x) ! unat idx, cf_rf := rf, cf_pc := 0, cf_idx := idx,
       cf_has_pointer_or_dynamic := fl_has_pointer_or_dynamic fl\<rparr>\<rparr>"

fun read_args :: "jello_bc_module \<Rightarrow> jello_bc_function \<Rightarrow> reg_frame \<Rightarrow> nat \<Rightarrow> nat \<Rightarrow> nat list \<Rightarrow> u8 list list run" where
  "read_args m callee_f rf first_arg dst_base [] = Inr []"
| "read_args m callee_f rf first_arg dst_base (i # is) =
     rbind (vm_reg_kind m callee_f (dst_base + i)) (\<lambda>k.
     rbind (read_slot k rf (first_arg + i)) (\<lambda>bs.
     rbind (read_args m callee_f rf first_arg dst_base is) (\<lambda>bss. Inr (bs # bss))))"

fun write_args :: "reg_frame \<Rightarrow> nat \<Rightarrow> u8 list list \<Rightarrow> reg_frame run" where
  "write_args rf r [] = Inr rf"
| "write_args rf r (bs # bss) = rbind (write_slot_bytes rf r bs) (\<lambda>rf. write_args rf (r + 1) bss)"

fun box_args :: "alloc_fun \<Rightarrow> exec_ctx \<Rightarrow> nat list \<Rightarrow> (exec_ctx \<times> jello_value list) run" where
  "box_args malloc x [] = Inr (x, [])"
| "box_args malloc x (r # rs) =
     rbind (vm_box_from_typed malloc x (x_f x) (x_rf x) r) (\<lambda>(x, v).
     rbind (box_args malloc (x_push_root x v) rs) (\<lambda>(x, vs). Inr (x, v # vs)))"

definition replace_typed :: "(nat \<Rightarrow> u8 list) \<Rightarrow> fpu \<Rightarrow> alloc_fun \<Rightarrow> exec_ctx \<Rightarrow> u32 \<Rightarrow> frame_layout \<Rightarrow> nat \<Rightarrow> nat \<Rightarrow>
    jello_value option \<Rightarrow> exec_ctx run" where
  "replace_typed stale fp malloc x idx fl first_arg nargs this =
     (let m = x_m x; callee_f = m_funcs m ! unat idx; old = x_rf x; dst_base = (if this = None then 0 else 1) in
      rbind (read_args m callee_f old first_arg dst_base [0..<nargs]) (\<lambda>raw_tmp.
      rbind (init_frame (if fl_total fl \<le> rf_total old then drop (unat (rf_total old - fl_total fl)) (rf_mem old)
                         else stale (unat (fl_total fl))) m callee_f fl) (\<lambda>rf.
      let x = replaced_frame x idx fl rf in
      rbind (case this of None \<Rightarrow> Inr x | Some v \<Rightarrow> vm_store_from_boxed fp malloc x 0 v) (\<lambda>x.
        x_store x (write_args (x_rf x) dst_base raw_tmp)))))"

definition replace_boxed :: "(nat \<Rightarrow> u8 list) \<Rightarrow> fpu \<Rightarrow> alloc_fun \<Rightarrow> exec_ctx \<Rightarrow> u32 \<Rightarrow> frame_layout \<Rightarrow> nat \<Rightarrow> nat \<Rightarrow>
    addr \<Rightarrow> exec_ctx run" where
  "replace_boxed stale fp malloc x idx fl first_arg nargs funobj =
     (let m = x_m x; callee_f = m_funcs m ! unat idx in
      if 32 < nargs then Inl PANIC
      else
        rbind (box_args malloc x [first_arg..<first_arg + nargs]) (\<lambda>(x, tmp).
        rbind (init_frame (stale (unat (fl_total fl))) m callee_f fl) (\<lambda>rf.
        rbind (x_pop_roots (replaced_frame x idx fl rf) nargs) (\<lambda>x.
        rbind (funobj_at x funobj) (\<lambda>fo.
        rbind (case this_of fo of None \<Rightarrow> Inr (x, 0) | Some v \<Rightarrow> rbind (vm_store_from_boxed fp malloc x 0 v) (\<lambda>x. Inr (x, 1))) (\<lambda>(x, arg_base).
        rbind (store_values fp malloc x arg_base tmp) (\<lambda>x.
        rbind (funobj_at x funobj) (\<lambda>fo.
          case fo of
            None \<Rightarrow> Inr x
          | Some fo \<Rightarrow>
              (let ncaps = ncaps_of (fo_caps fo) in
               if ncaps = 0 then Inr x else store_captures fp malloc x (capture_start x ncaps) (fo_caps fo))))))))))"

definition vm_replace_frame ::
  "(nat \<Rightarrow> u8 list) \<Rightarrow> fpu \<Rightarrow> alloc_fun \<Rightarrow> exec_ctx \<Rightarrow> u32 \<Rightarrow> nat \<Rightarrow> nat \<Rightarrow> addr \<Rightarrow> exec_ctx run" where
  "vm_replace_frame stale fp malloc x idx first_arg nargs funobj =
     (let m = x_m x; caller_f = x_f x; callee_f = m_funcs m ! unat idx in
      rbind (vm_get_frame_layout m callee_f) (\<lambda>fl.
      rbind (funobj_at x funobj) (\<lambda>fo.
      rbind (if 32 < nargs then Inr False
             else if fo = None \<and> cf_idx (x_fr x) = idx then Inr True
             else vm_can_use_fast_arg_copy m caller_f callee_f first_arg nargs 0 fo False) (\<lambda>use_typed_copy.
      rbind (case fo of
               Some f \<Rightarrow>
                 if \<not> use_typed_copy \<and> nargs \<le> 32 \<and> this_of fo \<noteq> None \<and> ncaps_of (fo_caps f) = 0 \<and> 1 + nargs \<le> unat (f_nregs callee_f)
                 then vm_can_use_fast_arg_copy m caller_f callee_f first_arg nargs 1 None False else Inr False
             | None \<Rightarrow> Inr False) (\<lambda>use_bound_this_only.
        if use_typed_copy \<or> use_bound_this_only then
          replace_typed stale fp malloc x idx fl first_arg nargs (if use_bound_this_only then this_of fo else None)
        else replace_boxed stale fp malloc x idx fl first_arg nargs funobj)))))"

section \<open>Opcodes\<close>

text \<open>\<open>native\<close> stands for \<^verbatim>\<open>jello_invoke_native_builtin\<close> (\<^verbatim>\<open>ops_builtins.c\<close>), with the index of the builtin and its first argument
  register, and \<open>jdll\<close> for \<^verbatim>\<open>jello_jdll_invoke_prim\<close> (\<^verbatim>\<open>src/ffi\<close>).\<close>

type_synonym native_fun = "exec_ctx \<Rightarrow> jello_insn \<Rightarrow> u32 \<Rightarrow> u32 \<Rightarrow> exec_ctx run"
type_synonym jdll_fun = "exec_ctx \<Rightarrow> jello_insn \<Rightarrow> addr \<Rightarrow> u32 \<Rightarrow> (exec_ctx \<times> bool) run"

text \<open>The captures of \<open>op_closure\<close>: whether all are plain and how many bytes they take.\<close>

fun raw_captures :: "jello_bc_module \<Rightarrow> jello_bc_function \<Rightarrow> reg_frame \<Rightarrow> nat list \<Rightarrow> u8 list option run" where
  "raw_captures m f rf [] = Inr (Some [])"
| "raw_captures m f rf (r # rs) =
     rbind (vm_reg_kind m f r) (\<lambda>k.
       if \<not> vm_type_is_nonptr k then Inr None
       else
         rbind (read_slot k rf r) (\<lambda>bs.
         rbind (raw_captures m f rf rs) (\<lambda>bss. Inr (map_option (\<lambda>b. bs @ b) bss))))"

definition op_closure :: "alloc_fun \<Rightarrow> handler" where
  "op_closure malloc x ins =
     (let type_id = f_reg_types (x_f x) ! unat (i_a ins); ncaps = unat (i_c ins); regs = [unat (i_b ins)..<unat (i_b ins) + ncaps] in
      rbind (raw_captures (x_m x) (x_f x) (x_rf x) regs) (\<lambda>raw.
      rbind (case raw of
               Some bs \<Rightarrow> if 0 < ncaps \<and> length bs \<le> 256 then Inr (Some bs) else Inr None
             | None \<Rightarrow> Inr None) (\<lambda>raw.
        case raw of
          Some bs \<Rightarrow>
            rbind (x_new x (\<lambda>vm. jello_closure_new_raw malloc vm type_id (i_imm ins) (of_nat ncaps) bs)) (\<lambda>(x, clo).
              continue_with x (vm_store_ptr (x_rf x) (unat (i_a ins)) clo))
        | None \<Rightarrow>
            rbind (box_args malloc x regs) (\<lambda>(x, tmp).
            rbind (x_new x (\<lambda>vm. jello_closure_new malloc vm type_id (i_imm ins) tmp)) (\<lambda>(x, clo).
            rbind (x_pop_roots x ncaps) (\<lambda>x.
              continue_with x (vm_store_ptr (x_rf x) (unat (i_a ins)) clo)))))))"

definition op_bind_this :: "alloc_fun \<Rightarrow> handler" where
  "op_bind_this malloc x ins =
     rbind (vm_load_ptr (x_rf x) (unat (i_b ins))) (\<lambda>base.
       if base = 0 then Inl PANIC
       else
         rbind (obj_of x base) (\<lambda>ob.
           if obj_kind ob \<noteq> 2 then Inl PANIC
           else
             rbind (vm_box_from_typed malloc x (x_f x) (x_rf x) (unat (i_c ins))) (\<lambda>(x, thisv).
             let x = x_push_root x thisv in
             rbind (x_new x (\<lambda>vm. jello_function_bind_this malloc vm (f_reg_types (x_f x) ! unat (i_a ins)) base thisv)) (\<lambda>(x, bound).
             rbind (x_pop_roots x 1) (\<lambda>x.
               continue_with x (vm_store_ptr (x_rf x) (unat (i_a ins)) bound))))))"

definition op_call :: "(nat \<Rightarrow> u8 list) \<Rightarrow> fpu \<Rightarrow> alloc_fun \<Rightarrow> native_fun \<Rightarrow> handler" where
  "op_call stale fp malloc native x ins =
     (case jello_vm_fuel_charge x of
        Inl x \<Rightarrow> Inr (OP_TRAP, x)
      | Inr x \<Rightarrow>
          (let fi = i_imm ins; bytecode_idx = fi - JELLO_NATIVE_BUILTIN_COUNT in
           if jello_is_native_builtin fi then and_continue (native x ins fi (ucast (i_b ins)))
           else if m_nfuncs (x_m x) \<le> bytecode_idx then Inl PANIC
           else if unat (rf_nregs (x_rf x)) < unat (i_b ins) + unat (i_c ins) then Inl PANIC
           else
             rbind (vm_push_frame stale fp malloc x bytecode_idx (ucast (i_a ins)) (unat (i_b ins)) (unat (i_c ins)) 0) (\<lambda>(x, _).
               Inr (OP_CONTINUE, x))))"

fun hex_digits :: "nat \<Rightarrow> string" where
  "hex_digits n =
     (let d = n mod 16; c = char_of (if d < 10 then 48 + d else 87 + d) in
      if n < 16 then [c] else hex_digits (n div 16) @ [c])"

declare hex_digits.simps [simp del]

definition callr_message :: "exec_ctx \<Rightarrow> u8 \<Rightarrow> u64 \<Rightarrow> string" where
  "callr_message x reg v =
     snprintf_cap 128 (''callr callee not a function (func='' @ digits (unat (cf_idx (x_fr x))) @ '' pc='' @
       digits (unat (if 0 < x_pc x then x_pc x - 1 else 0)) @ '' reg='' @ digits (unat reg) @ '' val=0x'' @ hex_digits (unat v) @ '')'')"

definition op_callr :: "(nat \<Rightarrow> u8 list) \<Rightarrow> fpu \<Rightarrow> alloc_fun \<Rightarrow> native_fun \<Rightarrow> jdll_fun \<Rightarrow> handler" where
  "op_callr stale fp malloc native jdll x ins =
     (case jello_vm_fuel_charge x of
        Inl x \<Rightarrow> Inr (OP_TRAP, x)
      | Inr x \<Rightarrow>
          rbind (vm_load_val (x_rf x) (unat (i_b ins))) (\<lambda>v.
            if \<not> jello_is_ptr v \<or> jello_is_null v then trap_continue x JELLO_TRAP_TYPE_MISMATCH (callr_message x (i_b ins) v)
            else if jello_as_ptr v = 0 then trap_continue x JELLO_TRAP_TYPE_MISMATCH ''callr callee is null''
            else
              rbind (obj_of x (jello_as_ptr v)) (\<lambda>ob.
                if obj_kind ob \<noteq> 2 then trap_continue x JELLO_TRAP_TYPE_MISMATCH ''callr callee not a function''
                else
                  rbind (function_at x (jello_as_ptr v)) (\<lambda>fo.
                    let fi = fo_func_index fo; bytecode_idx = fi - JELLO_NATIVE_BUILTIN_COUNT in
                    if jello_is_jdll_prim fi then
                      rbind (jdll x ins (jello_as_ptr v) (i_imm ins)) (\<lambda>(x, _). Inr (OP_CONTINUE, x))
                    else if jello_is_native_builtin fi then and_continue (native x ins fi (i_imm ins))
                    else if m_nfuncs (x_m x) \<le> bytecode_idx then Inl PANIC
                    else if rf_nregs (x_rf x) < i_imm ins + ucast (i_c ins) then Inl PANIC
                    else
                      rbind (vm_push_frame stale fp malloc x bytecode_idx (ucast (i_a ins)) (unat (i_imm ins)) (unat (i_c ins))
                        (jello_as_ptr v)) (\<lambda>(x, _). Inr (OP_CONTINUE, x))))))"

section \<open>Returns\<close>

text \<open>The end of a tail call of a builtin: its result, in register \<open>a\<close> of the frame, is returned at once.\<close>

definition finish_native_tail :: "fpu \<Rightarrow> alloc_fun \<Rightarrow> exec_ctx \<Rightarrow> jello_insn \<Rightarrow> (op_result \<times> exec_ctx) run" where
  "finish_native_tail fp malloc x ins =
     (let fr = x_fr x in
      if length (x_exc_handlers x) < unat (cf_exc_base fr) then Inl PANIC
      else
        (let x = x\<lparr>x_exc_handlers := take (unat (cf_exc_base fr)) (x_exc_handlers x)\<rparr> in
         if \<not> cf_has_caller fr then
           rbind (vm_box_from_typed malloc x (x_f x) (x_rf x) (unat (i_a ins))) (\<lambda>(x, ret). Inr (OP_RETURN, x\<lparr>x_out := ret\<rparr>))
         else if x_below x = [] then Inl PANIC
         else
           rbind (vm_box_from_typed malloc x (x_f x) (x_rf x) (unat (i_a ins))) (\<lambda>(x, ret).
             and_continue (vm_store_from_boxed fp malloc (pop_frame x) (unat (cf_caller_dst fr)) ret))))"

definition op_tailcall :: "(nat \<Rightarrow> u8 list) \<Rightarrow> fpu \<Rightarrow> alloc_fun \<Rightarrow> native_fun \<Rightarrow> handler" where
  "op_tailcall stale fp malloc native x ins =
     (let fi = i_imm ins; bytecode_idx = fi - JELLO_NATIVE_BUILTIN_COUNT in
      if jello_is_native_builtin fi then
        rbind (native x ins fi (ucast (i_b ins))) (\<lambda>x. finish_native_tail fp malloc x ins)
      else if m_nfuncs (x_m x) \<le> bytecode_idx then Inl PANIC
      else if unat (rf_nregs (x_rf x)) < unat (i_b ins) + unat (i_c ins) then Inl PANIC
      else and_continue (vm_replace_frame stale fp malloc x bytecode_idx (unat (i_b ins)) (unat (i_c ins)) 0))"

definition tailcallr_message :: "exec_ctx \<Rightarrow> u8 \<Rightarrow> string" where
  "tailcallr_message x reg =
     snprintf_cap 128 (''tailcallr callee not a function (func='' @ digits (unat (cf_idx (x_fr x))) @ '' pc='' @
       digits (unat (if 0 < x_pc x then x_pc x - 1 else 0)) @ '' reg='' @ digits (unat reg) @ '')'')"

definition op_tailcallr :: "(nat \<Rightarrow> u8 list) \<Rightarrow> fpu \<Rightarrow> alloc_fun \<Rightarrow> native_fun \<Rightarrow> jdll_fun \<Rightarrow> handler" where
  "op_tailcallr stale fp malloc native jdll x ins =
     rbind (vm_load_val (x_rf x) (unat (i_b ins))) (\<lambda>v.
       if \<not> jello_is_ptr v \<or> jello_is_null v then trap_continue x JELLO_TRAP_TYPE_MISMATCH (tailcallr_message x (i_b ins))
       else
         rbind (obj_of x (jello_as_ptr v)) (\<lambda>ob.
           if obj_kind ob \<noteq> 2 then trap_continue x JELLO_TRAP_TYPE_MISMATCH ''tailcallr callee not a function''
           else
             rbind (function_at x (jello_as_ptr v)) (\<lambda>fo.
               let fi = fo_func_index fo; bytecode_idx = fi - JELLO_NATIVE_BUILTIN_COUNT in
               if jello_is_jdll_prim fi then
                 rbind (jdll x ins (jello_as_ptr v) (i_imm ins)) (\<lambda>(x, ok).
                   if \<not> ok then Inr (OP_CONTINUE, x) else finish_native_tail fp malloc x ins)
               else if jello_is_native_builtin fi then
                 rbind (native x ins fi (i_imm ins)) (\<lambda>x. finish_native_tail fp malloc x ins)
               else if m_nfuncs (x_m x) \<le> bytecode_idx then Inl PANIC
               else if rf_nregs (x_rf x) < i_imm ins + ucast (i_c ins) then Inl PANIC
               else and_continue (vm_replace_frame stale fp malloc x bytecode_idx (unat (i_imm ins)) (unat (i_c ins)) (jello_as_ptr v)))))"

text \<open>What the return of the entry function releases: the constant and enum caches and the handlers. The frames are
  gone as well, so that the context only serves to hold the result.\<close>

definition release_run :: "exec_ctx \<Rightarrow> exec_ctx" where
  "release_run x =
     x\<lparr>x_vm := vm_enum_nullary_cache_clear ((x_vm x)\<lparr>const_fun_cache := [], const_bytes_cache := []\<rparr>), x_exc_handlers := []\<rparr>"

text \<open>The copy of the returned register into the caller's, when the types match, or the boxed value otherwise.
  \<open>same\<close> says whether to copy. The flag \<^verbatim>\<open>jdll_ret_capture\<close> is only set for callbacks from native libraries.\<close>

definition return_value :: "fpu \<Rightarrow> alloc_fun \<Rightarrow> exec_ctx \<Rightarrow> u8 \<Rightarrow> bool \<Rightarrow> (op_result \<times> exec_ctx) run" where
  "return_value fp malloc x a same =
     (let fr = x_fr x; caller = last (x_below x) in
      if same then
        rbind (vm_reg_kind (x_m x) (cf_f fr) (unat a)) (\<lambda>k.
        rbind (read_slot k (cf_rf fr) (unat a)) (\<lambda>bs.
          and_continue (x_store (pop_frame x) (write_slot_bytes (cf_rf caller) (unat (cf_caller_dst fr)) bs))))
      else
        rbind (vm_box_from_typed malloc x (cf_f fr) (cf_rf fr) (unat a)) (\<lambda>(x, ret).
          and_continue (vm_store_from_boxed fp malloc (pop_frame x) (unat (cf_caller_dst fr)) ret)))"

definition op_ret :: "fpu \<Rightarrow> alloc_fun \<Rightarrow> handler" where
  "op_ret fp malloc x ins =
     (let fr = x_fr x in
      if length (x_exc_handlers x) < unat (cf_exc_base fr) then Inl PANIC
      else
        (let x = x\<lparr>x_exc_handlers := take (unat (cf_exc_base fr)) (x_exc_handlers x)\<rparr> in
         if \<not> cf_has_caller fr then
           rbind (vm_box_from_typed malloc x (cf_f fr) (cf_rf fr) (unat (i_a ins))) (\<lambda>(x, ret).
           rbind (if x_out_exports x \<noteq> None \<and> x_entry_module_idx x \<noteq> 0xFFFFFFFF \<and> x_entry_module_idx x < f_nregs (cf_f fr) then
                    rbind (vm_box_from_typed malloc x (cf_f fr) (cf_rf fr) (unat (x_entry_module_idx x))) (\<lambda>(x, v).
                      Inr (x\<lparr>x_out_exports := Some v\<rparr>))
                  else Inr x) (\<lambda>x. Inr (OP_RETURN, (release_run x)\<lparr>x_out := ret\<rparr>)))
         else if x_below x = [] then Inl PANIC
         else
           rbind (reg_type_at (cf_f fr) (unat (i_a ins))) (\<lambda>ret_tid.
           rbind (reg_type_at (cf_f (last (x_below x))) (unat (cf_caller_dst fr))) (\<lambda>dst_tid.
             return_value fp malloc x (i_a ins) (dst_tid = ret_tid)))))"

text \<open>The inlined \<^verbatim>\<open>JOP_RET\<close> of \<^verbatim>\<open>exec_loop.c\<close>: it never stores the exports, and copies whenever caller and callee are the same
  function.\<close>

definition hot_ret :: "fpu \<Rightarrow> alloc_fun \<Rightarrow> handler" where
  "hot_ret fp malloc x ins =
     (let fr = x_fr x in
      if length (x_exc_handlers x) < unat (cf_exc_base fr) then Inl PANIC
      else
        (let x = x\<lparr>x_exc_handlers := take (unat (cf_exc_base fr)) (x_exc_handlers x)\<rparr> in
         if \<not> cf_has_caller fr then
           rbind (vm_box_from_typed malloc x (cf_f fr) (cf_rf fr) (unat (i_a ins))) (\<lambda>(x, ret).
             Inr (OP_RETURN, (release_run x)\<lparr>x_out := ret\<rparr>))
         else if x_below x = [] then Inl PANIC
         else
           rbind (reg_type_at (cf_f fr) (unat (i_a ins))) (\<lambda>ret_tid.
             if cf_idx (last (x_below x)) = cf_idx fr then return_value fp malloc x (i_a ins) True
             else
               rbind (reg_type_at (cf_f (last (x_below x))) (unat (cf_caller_dst fr))) (\<lambda>dst_tid.
                 return_value fp malloc x (i_a ins) (dst_tid = ret_tid)))))"

text \<open>The inlined \<^verbatim>\<open>JOP_CALL\<close>, with its own test for numeric calls of the function itself.\<close>

definition hot_call :: "(nat \<Rightarrow> u8 list) \<Rightarrow> fpu \<Rightarrow> alloc_fun \<Rightarrow> native_fun \<Rightarrow> handler" where
  "hot_call stale fp malloc native x ins =
     (case jello_vm_fuel_charge x of
        Inl x \<Rightarrow> Inr (OP_TRAP, x)
      | Inr x \<Rightarrow>
          (let fi = i_imm ins; bytecode_idx = fi - JELLO_NATIVE_BUILTIN_COUNT in
           if jello_is_native_builtin fi then and_continue (native x ins fi (ucast (i_b ins)))
           else if m_nfuncs (x_m x) \<le> bytecode_idx then Inl PANIC
           else if unat (rf_nregs (x_rf x)) < unat (i_b ins) + unat (i_c ins) then Inl PANIC
           else if bytecode_idx = cf_idx (x_fr x) \<and> \<not> cf_has_pointer_or_dynamic (x_fr x) \<and> unat (i_c ins) \<le> 16 \<and>
               (x_call_frames_max x = 0 \<or> call_frames_len x < x_call_frames_max x) then
             and_continue (vm_push_self_numeric stale x (unat (i_b ins)) (unat (i_c ins)) (ucast (i_a ins)))
           else
             rbind (vm_push_frame stale fp malloc x bytecode_idx (ucast (i_a ins)) (unat (i_b ins)) (unat (i_c ins)) 0) (\<lambda>(x, ok).
               Inr (if ok then OP_CONTINUE else OP_TRAP, x))))"

section \<open>Exceptions\<close>

definition op_assert :: "alloc_fun \<Rightarrow> handler" where
  "op_assert malloc x ins =
     rbind (vm_load_u32 (x_rf x) (unat (i_a ins))) (\<lambda>cond.
       if cond \<noteq> 0 then Inr (OP_CONTINUE, x)
       else
         (let x = x\<lparr>x_trap_code := JELLO_TRAP_THROWN, x_exc_pending := True, x_exc_payload := jello_make_i32 (trap_number JELLO_TRAP_THROWN)\<rparr>;
              plain = (\<lambda>x. Inr (OP_TRAP, x\<lparr>x_trap_msg := Some ''assertion failed''\<rparr>)) in
          if i_c ins = 1 then
            rbind (vm_box_from_typed malloc x (x_f x) (x_rf x) (unat (i_b ins))) (\<lambda>(x, msgv).
            rbind (box_of x msgv) (\<lambda>ob.
              case ob of
                Some (OBytes _ bs) \<Rightarrow>
                  if bs = [] then plain x
                  else Inr (OP_TRAP, x\<lparr>x_trap_msg := Some (snprintf_cap 512 (byte_string (take 160 bs) @ ''assertion failed''))\<rparr>)
              | _ \<Rightarrow> plain x))
          else plain x))"

fun trap_kind_name :: "jello_trap_code \<Rightarrow> string" where
  "trap_kind_name JELLO_TRAP_TYPE_MISMATCH = ''TypeMismatch''"
| "trap_kind_name JELLO_TRAP_BOUNDS = ''Bounds''"
| "trap_kind_name JELLO_TRAP_NULL_DEREF = ''NullDeref''"
| "trap_kind_name JELLO_TRAP_THROWN = ''Thrown''"
| "trap_kind_name JELLO_TRAP_STACK_OVERFLOW = ''StackOverflow''"
| "trap_kind_name JELLO_TRAP_FUEL = ''Fuel''"
| "trap_kind_name JELLO_TRAP_LIMIT = ''Limit''"
| "trap_kind_name _ = ''Trap''"

definition catch_payload_is_user_throw :: "exec_ctx \<Rightarrow> bool" where
  "catch_payload_is_user_throw x \<longleftrightarrow> x_trap_code x = JELLO_TRAP_THROWN \<and>
     (\<not> jello_is_i32 (x_exc_payload x) \<or> jello_as_i32 (x_exc_payload x) \<noteq> trap_number JELLO_TRAP_THROWN)"

text \<open>\<^verbatim>\<open>module_object_type_id\<close> and \<^verbatim>\<open>module_bytes_type_id\<close>: the first type of a kind, or 0.\<close>

definition module_type_id :: "jello_bc_module \<Rightarrow> jello_type_kind \<Rightarrow> u32" where
  "module_type_id m k = (case find (\<lambda>i. te_kind (m_types m ! i) = k) [0..<length (m_types m)] of Some i \<Rightarrow> of_nat i | None \<Rightarrow> 0)"

definition vm_module_atom_id_or_default :: "jello_bc_module \<Rightarrow> string \<Rightarrow> u32 \<Rightarrow> u32" where
  "vm_module_atom_id_or_default m name d =
     (case find (\<lambda>i. byte_string (m_atoms m ! i) = name) [0..<length (m_atoms m)] of Some i \<Rightarrow> of_nat i | None \<Rightarrow> d)"

text \<open>A new bytes object with the characters of a string.\<close>

definition new_string :: "alloc_fun \<Rightarrow> exec_ctx \<Rightarrow> u32 \<Rightarrow> string \<Rightarrow> (exec_ctx \<times> addr) run" where
  "new_string malloc x type_id s =
     rbind (x_new x (\<lambda>vm. jello_bytes_new malloc vm type_id (of_nat (length s)))) (\<lambda>(x, b).
       Inr (x_put x b (OBytes type_id (map (\<lambda>c. of_nat (of_char c)) s)), b))"

definition set_atom :: "exec_ctx \<Rightarrow> addr \<Rightarrow> u32 \<Rightarrow> jello_value \<Rightarrow> exec_ctx run" where
  "set_atom x o' k v = rbind (on_object x o' (\<lambda>ob. map_option (\<lambda>ob. (ob, ())) (jello_object_set ob k v))) (\<lambda>(x, _). Inr x)"

text \<open>The atoms \<^verbatim>\<open>JELLO_ATOM_KIND\<close>, \<^verbatim>\<open>JELLO_ATOM_MESSAGE\<close> and \<^verbatim>\<open>JELLO_ATOM_CODE\<close> are 2, 3 and 4. While a frame exists a module is running.
  The object under construction is a C variable that no root protects.\<close>

definition vm_wrap_catch_payload :: "alloc_fun \<Rightarrow> exec_ctx \<Rightarrow> (exec_ctx \<times> jello_value) run" where
  "vm_wrap_catch_payload malloc x =
     (if catch_payload_is_user_throw x then Inr (x, x_exc_payload x)
      else if \<not> running_module (x_vm x) then Inr (x, x_exc_payload x)
      else
        (let m = x_m x; bytes_tid = module_type_id m JELLO_T_BYTES;
             kind = (if x_trap_code x = JELLO_TRAP_THROWN then ''Assert'' else trap_kind_name (x_trap_code x)) in
         rbind (x_new x (\<lambda>vm. heap_object_new malloc vm (module_type_id m JELLO_T_OBJECT))) (\<lambda>(x, ob).
         rbind (new_string malloc x bytes_tid kind) (\<lambda>(x, kb).
         rbind (set_atom x ob (vm_module_atom_id_or_default m ''kind'' 2) (jello_from_ptr kb)) (\<lambda>x.
         rbind (case x_trap_msg x of
                  None \<Rightarrow> Inr x
                | Some msg \<Rightarrow>
                    rbind (new_string malloc x bytes_tid msg) (\<lambda>(x, mb).
                      set_atom x ob (vm_module_atom_id_or_default m ''message'' 3) (jello_from_ptr mb))) (\<lambda>x.
         rbind (set_atom x ob (vm_module_atom_id_or_default m ''code'' 4) (jello_make_i32 (trap_number (x_trap_code x)))) (\<lambda>x.
           Inr (x, jello_from_ptr ob))))))))"

text \<open>The handler that takes the exception, from the top of the stack, and those below it.\<close>

fun take_handler :: "jello_trap_code \<Rightarrow> exc_handler list \<Rightarrow> (exc_handler \<times> exc_handler list) option" where
  "take_handler code [] = None"
| "take_handler code (h # hs) = (if code = JELLO_TRAP_THROWN \<and> h_trap_only h then take_handler code hs else Some (h, hs))"

text \<open>\<^verbatim>\<open>while(vm->call_frames_len - 1u > h.frame_index)\<close>\<close>

function unwind_to :: "u32 \<Rightarrow> exec_ctx \<Rightarrow> exec_ctx" where
  "unwind_to i x =
     (if x_below x \<noteq> [] \<and> i < of_nat (length (x_below x)) then
        unwind_to i (pop_frame (vm_exc_pop_for_frame x (of_nat (length (x_below x)))))
      else x)"
  by pat_completeness auto
termination
  by (relation "measure (\<lambda>(i, x). length (x_below x))") (auto simp: pop_frame_def vm_exc_pop_for_frame_def)

declare unwind_to.simps [simp del]

text \<open>The result \<open>True\<close> is the return value 1: no handler took the exception and all frames are gone. The text of the
  stack trace is not modelled.\<close>

definition vm_exc_dispatch :: "alloc_fun \<Rightarrow> exec_ctx \<Rightarrow> (exec_ctx \<times> bool) run" where
  "vm_exc_dispatch malloc x =
     (if \<not> x_exc_pending x then Inr (x, False)
      else
        (case take_handler (x_trap_code x) (rev (x_exc_handlers x)) of
           None \<Rightarrow> Inr (x\<lparr>x_exc_handlers := []\<rparr>, True)
         | Some (h, hs) \<Rightarrow>
             (let x = unwind_to (h_frame_index h) (x\<lparr>x_exc_handlers := rev hs\<rparr>) in
              if unat (h_frame_index h) \<noteq> length (x_below x) then Inl FAULT
              else
                rbind (vm_wrap_catch_payload malloc (set_pc x (h_catch_pc h))) (\<lambda>(x, payload).
                rbind (vm_store_val (x_rf x) (unat (h_dst_reg h)) payload) (\<lambda>rf.
                  Inr (jello_vm_clear_trap ((set_rf x rf)\<lparr>x_exc_pending := False, x_exc_payload := jello_make_null\<rparr>), False))))))"

section \<open>Frames of calls\<close>

definition same_shape :: "reg_frame \<Rightarrow> reg_frame \<Rightarrow> bool" where
  "same_shape rf rf' \<longleftrightarrow> rf_off rf' = rf_off rf \<and> rf_nregs rf' = rf_nregs rf \<and> rf_total rf' = rf_total rf \<and>
     length (rf_mem rf') = length (rf_mem rf)"

lemma same_shape_refl [simp]: "same_shape rf rf" by (simp add: same_shape_def)
lemma same_shape_trans: "same_shape a b \<Longrightarrow> same_shape b c \<Longrightarrow> same_shape a c" by (simp add: same_shape_def)

lemma write_at_shape: "write_at rf p bs = Inr rf' \<Longrightarrow> same_shape rf rf'"
  by (auto simp: write_at_def same_shape_def split: if_splits)

text \<open>A write of all bytes of a register.\<close>

lemma write_slot_bytes_ok:
  assumes "frame_ok ks rf" "r < length ks" "length bs = jello_slot_size (ks ! r)"
  obtains rf' where "write_slot_bytes rf r bs = Inr rf'" "only_changes ks r rf rf'" "reg_bytes ks rf' r = bs" "same_shape rf rf'"
proof -
  obtain rf' where rf': "rbind (vm_reg_ptr rf r) (\<lambda>p. write_at rf p bs) = Inr rf'" "only_changes ks r rf rf'" "reg_bytes ks rf' r = bs"
    using write_reg_ok [OF assms(1,2)] assms(3) by (force simp: only_changes_def reg_bytes_def)
  then have "same_shape rf rf'" using write_at_shape by (cases "vm_reg_ptr rf r") auto
  then show thesis using that rf' by (simp add: write_slot_bytes_def)
qed

lemma read_slot_ok:
  assumes "frame_ok ks rf" "r < length ks"
  shows "read_slot (ks ! r) rf r = Inr (reg_bytes ks rf r)"
  using read_reg_ok [OF assms, of "jello_slot_size (ks ! r)"] assms by (simp add: read_slot_def)

text \<open>The registers in the set \<open>A\<close> of a frame have changed.\<close>

definition changes_in :: "jello_type_kind list \<Rightarrow> nat set \<Rightarrow> reg_frame \<Rightarrow> reg_frame \<Rightarrow> bool" where
  "changes_in ks A rf rf' \<longleftrightarrow> frame_ok ks rf' \<and> same_shape rf rf' \<and>
     (\<forall>i<length ks. i \<notin> A \<longrightarrow> reg_bytes ks rf' i = reg_bytes ks rf i)"

lemma changes_in_trans: "changes_in ks A a b \<Longrightarrow> changes_in ks B b c \<Longrightarrow> changes_in ks (A \<union> B) a c"
  using same_shape_trans by (auto simp: changes_in_def)

lemma changes_in_refl: "frame_ok ks rf \<Longrightarrow> changes_in ks A rf rf"
  by (simp add: changes_in_def)

lemma changes_in_mono: "changes_in ks A a b \<Longrightarrow> A \<subseteq> B \<Longrightarrow> changes_in ks B a b"
  by (auto simp: changes_in_def)

definition fn_ok :: "jello_bc_module \<Rightarrow> jello_bc_function \<Rightarrow> bool" where
  "fn_ok m f \<longleftrightarrow> length (f_reg_types f) = unat (f_nregs f) \<and> f_nregs f \<le> 256 \<and>
     (\<forall>t\<in>set (f_reg_types f). unat t < length (m_types m)) \<and> unat (m_ntypes m) = length (m_types m)"

lemma fn_kind: "fn_ok m f \<Longrightarrow> r < length (f_reg_types f) \<Longrightarrow> vm_reg_kind m f r = Inr (fun_kinds m f ! r)"
  by (auto simp: fn_ok_def vm_reg_kind_def fun_kinds_def)

lemma copy_slot_ok:
  assumes "fn_ok m f" "frame_ok ks' src_rf" "frame_ok (fun_kinds m f) rf" "s < length ks'" "d < length (f_reg_types f)"
    "ks' ! s = fun_kinds m f ! d"
  obtains rf' where "copy_slot m f src_rf s rf d = Inr rf'" "changes_in (fun_kinds m f) {d} rf rf'"
    "reg_bytes (fun_kinds m f) rf' d = reg_bytes ks' src_rf s"
proof -
  have "length (reg_bytes ks' src_rf s) = jello_slot_size (fun_kinds m f ! d)" using assms by simp
  from write_slot_bytes_ok [OF assms(3) _ this] assms(5) obtain rf' where
    "write_slot_bytes rf d (reg_bytes ks' src_rf s) = Inr rf'" "only_changes (fun_kinds m f) d rf rf'"
    "reg_bytes (fun_kinds m f) rf' d = reg_bytes ks' src_rf s" "same_shape rf rf'" by auto
  then show thesis using that [of rf'] read_slot_ok [OF assms(2,4)] fn_kind [OF assms(1,5)] assms(6)
    by (simp add: copy_slot_def changes_in_def only_changes_def)
qed

lemma copy_slots_ok:
  assumes "fn_ok m f" "frame_ok ks' src_rf" "frame_ok (fun_kinds m f) rf" "distinct is"
    "\<forall>i\<in>set is. s + i < length ks' \<and> d + i < length (f_reg_types f) \<and> ks' ! (s + i) = fun_kinds m f ! (d + i)"
  shows "\<exists>rf'. copy_slots m f src_rf s rf d is = Inr rf' \<and> changes_in (fun_kinds m f) ((+) d ` set is) rf rf' \<and>
    (\<forall>i\<in>set is. reg_bytes (fun_kinds m f) rf' (d + i) = reg_bytes ks' src_rf (s + i))"
  using assms(3-5)
proof (induction "is" arbitrary: rf)
  case Nil
  then show ?case by (simp add: changes_in_refl)
next
  case (Cons i "is")
  let ?ks = "fun_kinds m f"
  obtain rf1 where 1: "copy_slot m f src_rf (s + i) rf (d + i) = Inr rf1" "changes_in ?ks {d + i} rf rf1"
      "reg_bytes ?ks rf1 (d + i) = reg_bytes ks' src_rf (s + i)"
    using copy_slot_ok [OF assms(1,2) Cons.prems(1), of "s + i" "d + i"] Cons.prems(3) by auto
  obtain rf2 where 2: "copy_slots m f src_rf s rf1 d is = Inr rf2" "changes_in ?ks ((+) d ` set is) rf1 rf2"
      "\<forall>j\<in>set is. reg_bytes ?ks rf2 (d + j) = reg_bytes ks' src_rf (s + j)"
    using Cons.IH [of rf1] Cons.prems 1(2) by (auto simp: changes_in_def)
  have "reg_bytes ?ks rf2 (d + i) = reg_bytes ?ks rf1 (d + i)"
    using 2(2) Cons.prems by (auto simp: changes_in_def)
  then show ?case using 1 2 changes_in_trans [OF 1(2) 2(2)] by simp
qed

text \<open>What the memory of a new frame holds is no reference to follow.\<close>

definition frame_regs_ok :: "addr set \<Rightarrow> jello_type_kind list \<Rightarrow> reg_frame \<Rightarrow> bool" where
  "frame_regs_ok S ks rf \<longleftrightarrow> frame_ok ks rf \<and> (\<forall>r<length ks. reg_ok S (ks ! r, if jello_slot_size (ks ! r) = 8 then reg_u64 ks rf r else 0))"

lemma frame_regs_ok_change:
  assumes "frame_regs_ok S ks rf" "changes_in ks A rf rf'"
    "\<forall>r\<in>A. r < length ks \<longrightarrow> jello_slot_size (ks ! r) = 8 \<longrightarrow> reg_ok S (ks ! r, reg_u64 ks rf' r)"
  shows "frame_regs_ok S ks rf'"
  unfolding frame_regs_ok_def
proof (intro conjI allI impI)
  fix r assume r: "r < length ks"
  show "reg_ok S (ks ! r, if jello_slot_size (ks ! r) = 8 then reg_u64 ks rf' r else 0)"
  proof (cases "r \<in> A \<and> jello_slot_size (ks ! r) = 8")
    case True
    then show ?thesis using assms(3) r by simp
  next
    case False
    then have "jello_slot_size (ks ! r) = 8 \<Longrightarrow> reg_u64 ks rf' r = reg_u64 ks rf r"
      using assms(2) r by (auto simp: changes_in_def reg_u64_def)
    then show ?thesis using assms(1) r by (cases "jello_slot_size (ks ! r) = 8") (auto simp: frame_regs_ok_def)
  qed
qed (use assms(2) in \<open>simp add: changes_in_def\<close>)

lemma store_val_ok:
  assumes "frame_ok ks rf" "r < length ks" "jello_slot_size (ks ! r) = 8"
  obtains rf' where "vm_store_val rf r v = Inr rf'" "changes_in ks {r} rf rf'" "reg_u64 ks rf' r = v"
proof -
  obtain rf' where rf': "vm_store_i64 rf r v = Inr rf'" "only_changes ks r rf rf'" "reg_u64 ks rf' r = v"
    by (rule store_i64_ok [OF assms])
  moreover have "same_shape rf rf'" using rf'(1) write_at_shape by (cases "vm_reg_ptr rf r") (auto simp: vm_store_i64_def)
  ultimately show thesis using that by (simp add: vm_store_val_def changes_in_def only_changes_def)
qed

lemma null_dynamic_ok:
  assumes "fn_ok m f" "\<forall>r\<in>set rs. r < length (f_reg_types f)" "frame_ok (fun_kinds m f) rf"
  shows "\<exists>rf'. null_dynamic_slots m f rf rs = Inr rf' \<and>
    changes_in (fun_kinds m f) {r\<in>set rs. fun_kinds m f ! r = JELLO_T_DYNAMIC} rf rf' \<and>
    (\<forall>r\<in>set rs. fun_kinds m f ! r = JELLO_T_DYNAMIC \<longrightarrow> reg_u64 (fun_kinds m f) rf' r = jello_make_null)"
  using assms(2,3)
proof (induction rs arbitrary: rf)
  case Nil
  then show ?case by (simp add: changes_in_refl)
next
  case (Cons r rs)
  let ?ks = "fun_kinds m f"
  have r: "r < length ?ks" "vm_reg_kind m f r = Inr (?ks ! r)" using Cons.prems(1) fn_kind [OF assms(1)] by simp_all
  show ?case
  proof (cases "?ks ! r = JELLO_T_DYNAMIC")
    case True
    obtain rf1 where 1: "vm_store_val rf r jello_make_null = Inr rf1" "changes_in ?ks {r} rf rf1" "reg_u64 ?ks rf1 r = jello_make_null"
      by (rule store_val_ok [OF Cons.prems(2) r(1)]) (simp_all add: True jello_slot_size_def)
    obtain rf2 where 2: "null_dynamic_slots m f rf1 rs = Inr rf2" "changes_in ?ks {r\<in>set rs. ?ks ! r = JELLO_T_DYNAMIC} rf1 rf2"
        "\<forall>r\<in>set rs. ?ks ! r = JELLO_T_DYNAMIC \<longrightarrow> reg_u64 ?ks rf2 r = jello_make_null"
      using Cons.IH [of rf1] Cons.prems(1) 1(2) by (auto simp: changes_in_def)
    have "reg_u64 ?ks rf2 r = jello_make_null"
      using 2(2,3) 1(3) r(1) by (cases "r \<in> set rs") (auto simp: changes_in_def reg_u64_def True)
    moreover have "changes_in ?ks {q\<in>set (r # rs). ?ks ! q = JELLO_T_DYNAMIC} rf rf2"
      by (rule changes_in_mono [OF changes_in_trans [OF 1(2) 2(2)]]) (use True in auto)
    ultimately show ?thesis using 1 2 r(2) by (simp add: True)
  next
    case False
    then have "{q\<in>set (r # rs). ?ks ! q = JELLO_T_DYNAMIC} = {q\<in>set rs. ?ks ! q = JELLO_T_DYNAMIC}" by auto
    then show ?thesis using Cons.IH [OF _ Cons.prems(2)] Cons.prems(1) r(2) False by simp
  qed
qed

lemma zero_regs: "frame_ok ks rf \<Longrightarrow> rf_mem rf = replicate n 0 \<Longrightarrow> r < length ks \<Longrightarrow> jello_slot_size (ks ! r) = 8 \<Longrightarrow> reg_u64 ks rf r = 0"
proof -
  assume f: "frame_ok ks rf" "rf_mem rf = replicate n 0" "r < length ks" "jello_slot_size (ks ! r) = 8"
  then have "reg_bytes ks rf r = replicate 8 0" by (auto simp: reg_bytes_def mem_read_def frame_ok_def)
  then show ?thesis by (simp add: reg_u64_def u64_of_bytes_def u32_of_bytes_def of_u32_le_def of_u64_le_def numeral_eq_Suc)
qed

lemma scalar_regs_ok: "frame_ok ks rf \<Longrightarrow> \<forall>k\<in>set ks. \<not> is_pointer_or_dynamic k \<Longrightarrow> frame_regs_ok S ks rf"
  by (simp add: frame_regs_ok_def scalar_reg_ok)

lemma fn_layout: "fn_ok m f \<Longrightarrow> vm_get_frame_layout m f = Inr (layout_of (fun_kinds m f))"
  using reg_kinds_all [of f m] by (simp add: fn_ok_def vm_get_frame_layout_def)

lemma fn_length: "fn_ok m f \<Longrightarrow> length (fun_kinds m f) \<le> 256"
  by (simp add: fn_ok_def word_le_nat_alt)

definition laid_out :: "jello_bc_module \<Rightarrow> jello_bc_function \<Rightarrow> reg_frame \<Rightarrow> bool" where
  "laid_out m f rf \<longleftrightarrow> (let fl = layout_of (fun_kinds m f) in rf_off rf = fl_off fl \<and> rf_nregs rf = fl_nregs fl \<and>
     rf_total rf = fl_total fl \<and> length (rf_mem rf) = unat (fl_total fl))"

lemma laid_out_shape: "laid_out m f rf \<Longrightarrow> same_shape rf rf' \<Longrightarrow> laid_out m f rf'"
  by (simp add: laid_out_def same_shape_def Let_def)

lemma laid_out_frame: "fn_ok m f \<Longrightarrow> laid_out m f rf \<Longrightarrow> frame_ok (fun_kinds m f) rf"
  by (rule layout_frame_ok) (simp_all add: fn_length laid_out_def Let_def fn_ok_def word_le_nat_alt)

lemma layout_flag: "fn_ok m f \<Longrightarrow> fl_has_pointer_or_dynamic (layout_of (fun_kinds m f)) \<longleftrightarrow> (\<exists>k\<in>set (fun_kinds m f). is_pointer_or_dynamic k)"
  using placed_layout_of [OF fn_length] by blast

lemma empty_frame: "frame_ok ks rf \<Longrightarrow> rf_mem rf = [] \<Longrightarrow> ks = []"
  by (rule ccontr) (use slot_size_ge [of "ks ! 0"] in \<open>auto simp: frame_ok_def dest!: spec [of _ 0]\<close>)

lemma init_frame_ok:
  assumes f: "fn_ok m f" and l: "length mem = unat (fl_total (layout_of (fun_kinds m f)))"
  shows "\<exists>rf. init_frame mem m f (layout_of (fun_kinds m f)) = Inr rf \<and> laid_out m f rf \<and> frame_regs_ok S (fun_kinds m f) rf"
proof -
  let ?ks = "fun_kinds m f" and ?fl = "layout_of (fun_kinds m f)"
  let ?rf = "\<lambda>mem. \<lparr>rf_mem = mem, rf_off = fl_off ?fl, rf_nregs = fl_nregs ?fl, rf_total = fl_total ?fl\<rparr>"
  have lo: "laid_out m f (?rf mem)" "laid_out m f (?rf (replicate (length mem) 0))" using l by (simp_all add: laid_out_def)
  show ?thesis
  proof (cases "fl_total ?fl \<noteq> 0 \<and> fl_has_pointer_or_dynamic ?fl")
    case False
    have "\<forall>k\<in>set ?ks. \<not> is_pointer_or_dynamic k"
    proof (cases "fl_has_pointer_or_dynamic ?fl")
      case True
      then have "fl_total ?fl = 0" using False by simp
      then have "mem = []" using l by simp
      then have "?ks = []" using empty_frame [OF laid_out_frame [OF f lo(1)]] by simp
      then show ?thesis by simp
    qed (use layout_flag [OF f] in blast)
    then show ?thesis using False lo(1) scalar_regs_ok [OF laid_out_frame [OF f lo(1)]] unfolding init_frame_def Let_def by auto
  next
    case True
    let ?z = "?rf (replicate (length mem) 0)"
    have n: "unat (fl_nregs ?fl) = length ?ks" using placed_layout_of [OF fn_length [OF f]] by blast
    have z: "frame_ok ?ks ?z" by (rule laid_out_frame [OF f lo(2)])
    obtain rf where rf: "null_dynamic_slots m f ?z [0..<length ?ks] = Inr rf"
        "changes_in ?ks {r\<in>set [0..<length ?ks]. ?ks ! r = JELLO_T_DYNAMIC} ?z rf"
        "\<forall>r\<in>set [0..<length ?ks]. ?ks ! r = JELLO_T_DYNAMIC \<longrightarrow> reg_u64 ?ks rf r = jello_make_null"
      using null_dynamic_ok [OF f _ z, of "[0..<length ?ks]"] by auto
    have "frame_regs_ok S ?ks rf" unfolding frame_regs_ok_def
    proof (intro conjI allI impI)
      fix r assume r: "r < length ?ks"
      show "reg_ok S (?ks ! r, if jello_slot_size (?ks ! r) = 8 then reg_u64 ?ks rf r else 0)"
      proof (cases "?ks ! r = JELLO_T_DYNAMIC")
        case True
        then show ?thesis using rf(3) r by (simp add: reg_ok_def jello_slot_size_def)
      next
        case False
        then have "reg_u64 ?ks rf r = reg_u64 ?ks ?z r" using rf(2) r by (auto simp: changes_in_def reg_u64_def)
        then show ?thesis using False zero_regs [OF z _ r] by (auto simp: reg_ok_def)
      qed
    qed (use rf(2) in \<open>simp add: changes_in_def\<close>)
    moreover have "laid_out m f rf" using laid_out_shape [OF lo(2)] rf(2) by (simp add: changes_in_def)
    moreover have "init_frame mem m f ?fl = Inr rf" using True n rf(1) by (simp add: init_frame_def)
    ultimately show ?thesis by blast
  qed
qed

text \<open>The frames of a machine, and a machine with other frames.\<close>

definition good_frame :: "addr set \<Rightarrow> jello_bc_module \<Rightarrow> call_frame \<Rightarrow> bool" where
  "good_frame S m fr \<longleftrightarrow> frame_ctx_ok m fr \<and> frame_regs_ok S (fun_kinds m (cf_f fr)) (cf_rf fr)"

lemma good_words: "good_frame S m fr \<Longrightarrow> w \<in> set (frame_words m fr) \<Longrightarrow> reg_ok S w"
proof -
  assume g: "good_frame S m fr" and "w \<in> set (frame_words m fr)"
  then obtain i where i: "i < length (f_reg_types (cf_f fr))" "w = frame_words m fr ! i"
    using frame_words_length [of m fr] by (auto simp: in_set_conv_nth good_frame_def)
  have "\<forall>r<length (fun_kinds m (cf_f fr)). reg_ok S (fun_kinds m (cf_f fr) ! r,
     if jello_slot_size (fun_kinds m (cf_f fr) ! r) = 8 then reg_u64 (fun_kinds m (cf_f fr)) (cf_rf fr) r else 0)"
    using g by (simp add: good_frame_def frame_regs_ok_def)
  then show ?thesis using i g frame_words_nth [of m fr i] by (simp add: good_frame_def)
qed

lemma mach_good: "mach S x \<Longrightarrow> fr \<in> set (x_below x @ [x_fr x]) \<Longrightarrow> good_frame S (x_m x) fr"
  using frame_reg_ok [of S x fr] mach_frames [of S x fr] unfolding good_frame_def frame_regs_ok_def by (simp add: frame_ctx_ok_def)

lemma mach_new_frames:
  assumes m: "mach S x" and "x_vm x' = x_vm x" "x_m x' = x_m x" "\<forall>fr\<in>set (x_below x' @ [x_fr x']). good_frame S (x_m x) fr"
  shows "mach S x'"
proof -
  have "\<forall>f\<in>set (call_frames (gc_view x')). \<forall>r\<in>set f. reg_ok S r" using assms(3,4) good_words by fastforce
  then have rt: "roots_ok S (gc_view x')" using m assms(2) unfolding mach_def roots_ok_def by simp
  have "gc_wf (gc_view x')"
    by (rule gc_wf_change [where S = S and vm = "gc_view x"]) (use m rt assms(2) in \<open>simp_all add: mach_def\<close>)
  moreover have "\<forall>fr\<in>set (x_below x' @ [x_fr x']). frame_ctx_ok (x_m x') fr" using assms(3,4) by (auto simp: good_frame_def)
  ultimately show ?thesis using m rt assms(2) unfolding mach_def by simp
qed

section \<open>Typed calls\<close>

text \<open>The arguments from \<open>first_arg\<close> on have the kinds of the first registers of the callee.\<close>

definition args_match :: "jello_bc_module \<Rightarrow> jello_bc_function \<Rightarrow> jello_bc_function \<Rightarrow> nat \<Rightarrow> nat \<Rightarrow> bool" where
  "args_match m caller_f callee_f first_arg nargs \<longleftrightarrow> first_arg + nargs \<le> unat (f_nregs caller_f) \<and> nargs \<le> unat (f_nregs callee_f) \<and>
     (\<forall>i<nargs. fun_kinds m caller_f ! (first_arg + i) = fun_kinds m callee_f ! i)"

lemma types_compatible_run:
  assumes "unat (m_ntypes m) = length (m_types m)" "unat s < length (m_types m)" "unat d < length (m_types m)"
    "te_kind (m_types m ! unat s) = te_kind (m_types m ! unat d)"
  shows "vm_arg_types_compatible m s d = Inr True"
  using assms by (auto simp: vm_arg_types_compatible_def type_kind_at_def word_le_nat_alt)

lemma fn_type:
  assumes "fn_ok m f" "r < length (f_reg_types f)"
  shows "reg_type_at f r = Inr (f_reg_types f ! r)" "unat (f_reg_types f ! r) < length (m_types m)"
    "te_kind (m_types m ! unat (f_reg_types f ! r)) = fun_kinds m f ! r" "\<not> m_ntypes m \<le> f_reg_types f ! r"
    "type_kind_at m (f_reg_types f ! r) = Inr (fun_kinds m f ! r)"
  using assms by (auto simp: fn_ok_def reg_type_at_def type_kind_at_def fun_kinds_def word_le_nat_alt not_le [symmetric])

lemma arg_types_fit_run:
  assumes "fn_ok m caller_f" "fn_ok m callee_f"
    "\<forall>i\<in>set is. first_arg + i < length (f_reg_types caller_f) \<and> i < length (f_reg_types callee_f) \<and>
       fun_kinds m caller_f ! (first_arg + i) = fun_kinds m callee_f ! i"
  shows "arg_types_fit m caller_f callee_f first_arg 0 False is = Inr True"
  using assms(3)
proof (induction "is")
  case (Cons i "is")
  then have i: "first_arg + i < length (f_reg_types caller_f)" "i < length (f_reg_types callee_f)" by simp_all
  have "vm_arg_types_compatible m (f_reg_types caller_f ! (first_arg + i)) (f_reg_types callee_f ! i) = Inr True"
    by (rule types_compatible_run) (use assms(1) fn_type [OF assms(1) i(1)] fn_type [OF assms(2) i(2)] Cons.prems in \<open>simp_all add: fn_ok_def\<close>)
  then show ?case using Cons fn_type [OF assms(1) i(1)] fn_type [OF assms(2) i(2)] by simp
qed simp

lemma copy_args_run:
  assumes "fn_ok (x_m x) (cf_f caller)" "fn_ok (x_m x) (x_f x)"
    "\<forall>i\<in>set is. first_arg + i < length (f_reg_types (cf_f caller)) \<and> i < length (f_reg_types (x_f x)) \<and>
       fun_kinds (x_m x) (cf_f caller) ! (first_arg + i) = fun_kinds (x_m x) (x_f x) ! i"
  shows "copy_args fp malloc x caller first_arg 0 is =
    x_store x (copy_slots (x_m x) (x_f x) (cf_rf caller) first_arg (x_rf x) 0 is)"
  using assms
proof (induction "is" arbitrary: x)
  case Nil
  then show ?case by (simp add: x_store_def set_rf_def)
next
  case (Cons i "is")
  then have i: "first_arg + i < length (f_reg_types (cf_f caller))" "i < length (f_reg_types (x_f x))" by simp_all
  note t = fn_type [OF Cons.prems(1) i(1)] fn_type [OF Cons.prems(2) i(2)]
  have 1: "vm_copy_arg_strict fp malloc x caller (first_arg + i) i =
      x_store x (copy_slot (x_m x) (x_f x) (cf_rf caller) (first_arg + i) (x_rf x) i)"
    using t Cons.prems(3) by (simp add: vm_copy_arg_strict_def)
  show ?case
  proof (cases "copy_slot (x_m x) (x_f x) (cf_rf caller) (first_arg + i) (x_rf x) i")
    case (Inr rf)
    have "copy_args fp malloc (set_rf x rf) caller first_arg 0 is =
        x_store (set_rf x rf) (copy_slots (x_m x) (x_f x) (cf_rf caller) first_arg rf 0 is)"
      using Cons.IH [of "set_rf x rf"] Cons.prems by (simp add: set_rf_def)
    then show ?thesis using 1 Inr by (simp add: x_store_def) (cases "copy_slots (x_m x) (x_f x) (cf_rf caller) first_arg rf 0 is"; simp add: set_rf_def)
  qed (use 1 in \<open>simp add: x_store_def\<close>)
qed

lemma init_args_run:
  assumes "fn_ok (x_m x) (cf_f caller)" "fn_ok (x_m x) (x_f x)" "args_match (x_m x) (cf_f caller) (x_f x) first_arg nargs"
    "rf_nregs (x_rf x) = f_nregs (x_f x)"
  shows "vm_init_args_and_caps fp malloc x caller first_arg nargs 0 =
    x_store x (copy_slots (x_m x) (x_f x) (cf_rf caller) first_arg (x_rf x) 0 [0..<nargs])"
proof -
  have "copy_args fp malloc x caller first_arg 0 [0..<nargs] =
      x_store x (copy_slots (x_m x) (x_f x) (cf_rf caller) first_arg (x_rf x) 0 [0..<nargs])"
    by (rule copy_args_run [OF assms(1,2)]) (use assms(1-3) in \<open>auto simp: args_match_def fn_ok_def\<close>)
  moreover have "\<not> unat (rf_nregs (x_rf x)) < nargs" using assms(3,4) by (simp add: args_match_def)
  ultimately show ?thesis
    by (simp add: vm_init_args_and_caps_def init_bound_this_def funobj_at_def this_of_def init_captures_def)
      (cases "x_store x (copy_slots (x_m x) (x_f x) (cf_rf caller) first_arg (x_rf x) 0 [0..<nargs])"; simp)
qed

lemma inherit_ok:
  assumes "fn_ok m f" "frame_ok (fun_kinds m f) src_rf" "frame_ok (fun_kinds m f) rf"
  shows "\<exists>rf' A. vm_inherit_self_capture_slots m f rf src_rf nargs = Inr rf' \<and> changes_in (fun_kinds m f) A rf rf' \<and>
     A \<subseteq> {nargs..<length (fun_kinds m f)} \<and> (\<forall>r\<in>A. reg_bytes (fun_kinds m f) rf' r = reg_bytes (fun_kinds m f) src_rf r)"
proof (cases "has_feat (m_features m) JELLO_BC_FEAT_CAP_START \<and> f_cap_start f \<noteq> 0 \<and> \<not> f_nregs f \<le> f_cap_start f")
  case False
  then show ?thesis using changes_in_refl [OF assms(3), of "{}"]
    unfolding vm_inherit_self_capture_slots_def by (intro exI [of _ rf] exI [of _ "{}"]) auto
next
  case True
  let ?is = "filter (\<lambda>r. nargs \<le> r) [unat (f_cap_start f)..<unat (f_nregs f)]"
  obtain rf' where "copy_slots m f src_rf 0 rf 0 ?is = Inr rf'" "changes_in (fun_kinds m f) ((+) 0 ` set ?is) rf rf'"
      "\<forall>i\<in>set ?is. reg_bytes (fun_kinds m f) rf' (0 + i) = reg_bytes (fun_kinds m f) src_rf (0 + i)"
    using copy_slots_ok [OF assms, of ?is 0 0] assms(1) by (auto simp: fn_ok_def)
  then show ?thesis using True assms(1)
    unfolding vm_inherit_self_capture_slots_def by (intro exI [of _ rf'] exI [of _ "set ?is"]) (auto simp: fn_ok_def)
qed

text \<open>What holds of every frame that calls make.\<close>

definition frame_fits :: "jello_bc_module \<Rightarrow> call_frame \<Rightarrow> bool" where
  "frame_fits m fr \<longleftrightarrow> unat (cf_idx fr) < length (m_funcs m) \<and> cf_f fr = m_funcs m ! unat (cf_idx fr) \<and> fn_ok m (cf_f fr) \<and>
     laid_out m (cf_f fr) (cf_rf fr) \<and>
     (cf_has_pointer_or_dynamic fr \<longleftrightarrow> (\<exists>k\<in>set (fun_kinds m (cf_f fr)). is_pointer_or_dynamic k))"

lemma reg_u64_eq: "reg_bytes ks rf r = reg_bytes ks' rf' r' \<Longrightarrow> reg_u64 ks rf r = reg_u64 ks' rf' r'"
  by (simp add: reg_u64_def)

lemma frame_regs_okD: "frame_regs_ok S ks rf \<Longrightarrow> r < length ks \<Longrightarrow> jello_slot_size (ks ! r) = 8 \<Longrightarrow> reg_ok S (ks ! r, reg_u64 ks rf r)"
  by (auto simp: frame_regs_ok_def dest!: spec [of _ r])

lemma copied_args_ok:
  assumes "fn_ok m caller_f" "fn_ok m f" "frame_regs_ok S (fun_kinds m caller_f) src_rf" "frame_regs_ok S (fun_kinds m f) rf"
    "args_match m caller_f f first_arg nargs"
  shows "\<exists>rf'. copy_slots m f src_rf first_arg rf 0 [0..<nargs] = Inr rf' \<and> changes_in (fun_kinds m f) {..<nargs} rf rf' \<and>
    frame_regs_ok S (fun_kinds m f) rf' \<and> (\<forall>i<nargs. reg_bytes (fun_kinds m f) rf' i = reg_bytes (fun_kinds m caller_f) src_rf (first_arg + i))"
proof -
  let ?ks = "fun_kinds m f" and ?ks' = "fun_kinds m caller_f"
  have len: "first_arg + i < length ?ks'" "i < length ?ks" "?ks' ! (first_arg + i) = ?ks ! i" if "i < nargs" for i
    using that assms(1,2,5) by (auto simp: args_match_def fn_ok_def)
  obtain rf' where rf': "copy_slots m f src_rf first_arg rf 0 [0..<nargs] = Inr rf'" "changes_in ?ks ((+) 0 ` set [0..<nargs]) rf rf'"
      "\<forall>i\<in>set [0..<nargs]. reg_bytes ?ks rf' (0 + i) = reg_bytes ?ks' src_rf (first_arg + i)"
    using copy_slots_ok [OF assms(2), of ?ks' src_rf rf "[0..<nargs]" first_arg 0] assms(3,4) len by (auto simp: frame_regs_ok_def)
  have c: "changes_in ?ks {..<nargs} rf rf'" by (rule changes_in_mono [OF rf'(2)]) auto
  have "reg_ok S (?ks ! i, reg_u64 ?ks rf' i)" if "i < nargs" "jello_slot_size (?ks ! i) = 8" for i
    using frame_regs_okD [OF assms(3) len(1) [OF that(1)]] reg_u64_eq [of ?ks rf' i ?ks' src_rf "first_arg + i"] rf'(3) that len(3) [OF that(1)] by simp
  then have "frame_regs_ok S ?ks rf'" using frame_regs_ok_change [OF assms(4) c] by auto
  then show ?thesis using rf' c by auto
qed

lemma frame_fits_regs: "frame_fits m fr \<Longrightarrow> frame_regs_ok S (fun_kinds m (cf_f fr)) rf \<Longrightarrow> same_shape (cf_rf fr) rf \<Longrightarrow>
    good_frame S m (fr\<lparr>cf_rf := rf\<rparr>) \<and> frame_fits m (fr\<lparr>cf_rf := rf\<rparr>)"
  using laid_out_shape by (auto simp: frame_fits_def good_frame_def frame_ctx_ok_def frame_regs_ok_def fn_ok_def)

lemma layout_nregs: "fn_ok m f \<Longrightarrow> laid_out m f rf \<Longrightarrow> rf_nregs rf = f_nregs f"
  using placed_layout_of [OF fn_length, of m f] by (simp add: laid_out_def Let_def fn_ok_def word_unat_eq_iff)

text \<open>The new frame, as \<open>vm_push_frame\<close> makes it: the machine stays well formed and the arguments arrive.\<close>

definition called :: "exec_ctx \<Rightarrow> u32 \<Rightarrow> u32 \<Rightarrow> nat \<Rightarrow> nat \<Rightarrow> exec_ctx \<Rightarrow> bool" where
  "called x idx caller_dst first_arg nargs x' \<longleftrightarrow>
     (\<exists>fr. x' = push_frame x fr \<and> frame_fits (x_m x) fr \<and> cf_idx fr = idx \<and> cf_pc fr = 0 \<and> cf_caller_dst fr = caller_dst \<and>
        cf_has_caller fr \<and> unat (cf_exc_base fr) = length (x_exc_handlers x) \<and> mach_ok x' \<and>
        (\<forall>i<nargs. reg_bytes (x_kinds x') (cf_rf fr) i = reg_bytes (x_kinds x) (x_rf x) (first_arg + i)))"

text \<open>The same of the frame alone, with references in \<open>S\<close>.\<close>

definition new_callee :: "addr set \<Rightarrow> exec_ctx \<Rightarrow> u32 \<Rightarrow> u32 \<Rightarrow> nat \<Rightarrow> nat \<Rightarrow> call_frame \<Rightarrow> bool" where
  "new_callee S x idx caller_dst first_arg nargs fr \<longleftrightarrow>
     frame_fits (x_m x) fr \<and> frame_regs_ok S (fun_kinds (x_m x) (cf_f fr)) (cf_rf fr) \<and> cf_idx fr = idx \<and> cf_pc fr = 0 \<and>
     cf_caller_dst fr = caller_dst \<and> cf_has_caller fr \<and> cf_exc_base fr = of_nat (length (x_exc_handlers x)) \<and>
     (\<forall>i<nargs. reg_bytes (fun_kinds (x_m x) (cf_f fr)) (cf_rf fr) i = reg_bytes (x_kinds x) (x_rf x) (first_arg + i))"

lemma new_callee_called:
  assumes m: "mach_ok x" and h: "length (x_exc_handlers x) < 2 ^ 32" and c: "new_callee (live (gc_view x)) x idx caller_dst first_arg nargs fr"
  shows "called x idx caller_dst first_arg nargs (push_frame x fr)"
proof -
  have "frame_fits (x_m x) fr" "frame_regs_ok (live (gc_view x)) (fun_kinds (x_m x) (cf_f fr)) (cf_rf fr)" using c by (simp_all add: new_callee_def)
  then have "good_frame (live (gc_view x)) (x_m x) fr" using frame_fits_regs [of "x_m x" fr _ "cf_rf fr"] by simp
  then have "mach (live (gc_view x)) (push_frame x fr)"
    by (intro mach_new_frames [OF m [unfolded mach_ok_def]])
      (use mach_good [OF m [unfolded mach_ok_def]] in \<open>auto simp: push_frame_def\<close>)
  then show ?thesis using mach_live h c by (auto simp: called_def new_callee_def push_frame_def unat_of_nat)
qed

lemma self_numeric_frame:
  assumes src: "frame_regs_ok S (x_kinds x) (x_rf x)" and c: "frame_fits (x_m x) (x_fr x)"
    and n: "\<not> cf_has_pointer_or_dynamic (x_fr x)" and st: "\<forall>n. length (stale n) = n"
    and a: "args_match (x_m x) (x_f x) (x_f x) first_arg nargs"
  shows "\<exists>fr. vm_push_self_numeric stale x first_arg nargs caller_dst = Inr (push_frame x fr) \<and>
    new_callee S x (cf_idx (x_fr x)) caller_dst first_arg nargs fr"
proof -
  let ?m = "x_m x" and ?f = "x_f x"
  let ?ks = "fun_kinds ?m ?f" and ?rf = "(x_rf x)\<lparr>rf_mem := stale (unat (rf_total (x_rf x)))\<rparr>"
  have f: "fn_ok ?m ?f" "laid_out ?m ?f (x_rf x)" "\<forall>k\<in>set ?ks. \<not> is_pointer_or_dynamic k" using c n by (auto simp: frame_fits_def)
  have l: "laid_out ?m ?f ?rf" using f(2) st by (simp add: laid_out_def Let_def)
  obtain rf' where rf': "copy_slots ?m ?f (x_rf x) first_arg ?rf 0 [0..<nargs] = Inr rf'" "changes_in ?ks {..<nargs} ?rf rf'"
      "frame_regs_ok S ?ks rf'" "\<forall>i<nargs. reg_bytes ?ks rf' i = reg_bytes ?ks (x_rf x) (first_arg + i)"
    using copied_args_ok [OF f(1,1) src scalar_regs_ok [OF laid_out_frame [OF f(1) l] f(3)] a] by blast
  let ?fr = "\<lparr>cf_f = ?f, cf_rf = rf', cf_pc = 0, cf_caller_dst = caller_dst, cf_exc_base = of_nat (length (x_exc_handlers x)),
          cf_has_caller = True, cf_idx = cf_idx (x_fr x), cf_has_pointer_or_dynamic = False\<rparr>"
  have "laid_out ?m ?f rf'" by (rule laid_out_shape [OF l]) (use rf'(2) in \<open>simp add: changes_in_def\<close>)
  then have "new_callee S x (cf_idx (x_fr x)) caller_dst first_arg nargs ?fr"
    using c f rf' by (simp add: frame_fits_def new_callee_def)
  then show ?thesis using rf'(1) by (auto simp: vm_push_self_numeric_def)
qed

lemma inherited_ok:
  assumes f: "fn_ok m f" and src: "frame_regs_ok S (fun_kinds m caller_f) src" and rf: "frame_regs_ok S (fun_kinds m f) rf"
    and self: "same \<Longrightarrow> caller_f = f"
  shows "\<exists>rf'. (if same then vm_inherit_self_capture_slots m f rf src nargs else Inr rf) = Inr rf' \<and> frame_regs_ok S (fun_kinds m f) rf' \<and>
     same_shape rf rf' \<and> (\<forall>i<length (fun_kinds m f). i < nargs \<longrightarrow> reg_bytes (fun_kinds m f) rf' i = reg_bytes (fun_kinds m f) rf i)"
proof (cases same)
  case True
  let ?ks = "fun_kinds m f"
  have src': "frame_regs_ok S ?ks src" using src self [OF True] by simp
  obtain rf' A where r: "vm_inherit_self_capture_slots m f rf src nargs = Inr rf'" "changes_in ?ks A rf rf'"
      "A \<subseteq> {nargs..<length ?ks}" "\<forall>r\<in>A. reg_bytes ?ks rf' r = reg_bytes ?ks src r"
    using inherit_ok [OF f, of src rf nargs] src' rf by (auto simp: frame_regs_ok_def)
  have "frame_regs_ok S ?ks rf'"
  proof (rule frame_regs_ok_change [OF rf r(2)], intro ballI impI)
    fix q assume q: "q \<in> A" "q < length ?ks" "jello_slot_size (?ks ! q) = 8"
    then have "reg_u64 ?ks rf' q = reg_u64 ?ks src q" using r(4) by (simp add: reg_u64_def)
    then show "reg_ok S (?ks ! q, reg_u64 ?ks rf' q)" using frame_regs_okD [OF src' q(2,3)] by simp
  qed
  then show ?thesis using True r by (auto simp: changes_in_def)
qed (use rf in simp)

definition callable :: "exec_ctx \<Rightarrow> u32 \<Rightarrow> bool" where
  "callable x idx \<longleftrightarrow> frame_fits (x_m x) (x_fr x) \<and> unat idx < length (m_funcs (x_m x)) \<and> fn_ok (x_m x) (m_funcs (x_m x) ! unat idx) \<and>
     length (x_exc_handlers x) < 2 ^ 32 \<and> (x_call_frames_max x = 0 \<or> call_frames_len x < x_call_frames_max x)"

lemma push_frame_frame:
  assumes src: "frame_regs_ok S (x_kinds x) (x_rf x)" and c: "callable x idx" and st: "\<forall>n. length (stale n) = n"
    and a: "args_match (x_m x) (x_f x) (m_funcs (x_m x) ! unat idx) first_arg nargs"
  shows "\<exists>fr. vm_push_frame stale fp malloc x idx caller_dst first_arg nargs 0 = Inr (push_frame x fr, True) \<and>
    new_callee S x idx caller_dst first_arg nargs fr"
proof -
  let ?m = "x_m x" and ?f = "m_funcs (x_m x) ! unat idx" and ?src = "cf_rf (x_fr x)"
  let ?ks = "fun_kinds ?m ?f" and ?fl = "layout_of (fun_kinds ?m ?f)"
  have cal: "frame_fits ?m (x_fr x)" "fn_ok ?m (x_f x)" "fn_ok ?m ?f" "length (x_exc_handlers x) < 2 ^ 32" "unat idx < length (m_funcs ?m)"
      "\<not> (x_call_frames_max x \<noteq> 0 \<and> x_call_frames_max x \<le> call_frames_len x)"
    using c by (auto simp: callable_def frame_fits_def)
  show ?thesis
  proof (cases "cf_idx (x_fr x) = idx \<and> nargs \<le> 16 \<and> \<not> cf_has_pointer_or_dynamic (x_fr x)")
    case True
    then have "x_f x = ?f" using cal(1) by (simp add: frame_fits_def)
    then show ?thesis using True self_numeric_frame [OF src cal(1) _ st, of first_arg nargs caller_dst] a cal(6)
      by (auto simp: vm_push_frame_def Let_def)
  next
    case False
    obtain rf where rf: "init_frame (stale (unat (fl_total ?fl))) ?m ?f ?fl = Inr rf" "laid_out ?m ?f rf" "frame_regs_ok S ?ks rf"
      using init_frame_ok [OF cal(3), of "stale (unat (fl_total ?fl))" S] st by blast
    obtain rf1 where 1: "copy_slots ?m ?f ?src first_arg rf 0 [0..<nargs] = Inr rf1" "changes_in ?ks {..<nargs} rf rf1"
        "frame_regs_ok S ?ks rf1" "\<forall>i<nargs. reg_bytes ?ks rf1 i = reg_bytes (x_kinds x) ?src (first_arg + i)"
      using copied_args_ok [OF cal(2,3) src rf(3) a] by blast
    let ?x1 = "push_frame x (callee_frame x idx caller_dst ?fl rf)"
    have x1: "x_m ?x1 = ?m" "x_f ?x1 = ?f" "x_rf ?x1 = rf" by (simp_all add: push_frame_def callee_frame_def)
    have ini: "vm_init_args_and_caps fp malloc ?x1 (x_fr x) first_arg nargs 0 = Inr (set_rf ?x1 rf1)"
      using init_args_run [of ?x1 "x_fr x" first_arg nargs fp malloc] cal(2,3) a 1(1) layout_nregs [OF cal(3) rf(2)]
      by (simp add: x1 x_store_def)
    have fit: "arg_types_fit ?m (x_f x) ?f first_arg 0 False [0..<nargs] = Inr True"
      by (rule arg_types_fit_run [OF cal(2,3)]) (use a cal(2,3) in \<open>auto simp: args_match_def fn_ok_def\<close>)
    have args: "rbind (if nargs \<le> 16 then
                 rbind (funobj_at ?x1 0) (\<lambda>fo. vm_can_use_fast_arg_copy ?m (cf_f (x_fr x)) ?f first_arg nargs 0 fo False)
               else Inr False) (\<lambda>fast_args.
          if fast_args then x_store ?x1 (copy_slots ?m ?f ?src first_arg (x_rf ?x1) 0 [0..<nargs])
          else vm_init_args_and_caps fp malloc ?x1 (x_fr x) first_arg nargs 0) = Inr (set_rf ?x1 rf1)"
      using ini 1(1) fit by (cases "nargs = 0") (simp_all add: funobj_at_def vm_can_use_fast_arg_copy_def x_store_def x1)
    have self: "cf_idx (x_fr x) = idx \<Longrightarrow> x_f x = ?f" using cal(1) by (simp add: frame_fits_def)
    obtain rf2 where 2: "(if cf_idx (x_fr x) = idx then vm_inherit_self_capture_slots ?m ?f rf1 ?src nargs else Inr rf1) = Inr rf2"
        "frame_regs_ok S ?ks rf2" "same_shape rf1 rf2" "\<forall>i<length ?ks. i < nargs \<longrightarrow> reg_bytes ?ks rf2 i = reg_bytes ?ks rf1 i"
      using inherited_ok [OF cal(3) src 1(3) self, of "cf_idx (x_fr x) = idx" nargs] by blast
    let ?fr = "callee_frame x idx caller_dst ?fl rf2"
    have "laid_out ?m ?f rf2"
      using laid_out_shape [OF laid_out_shape [OF rf(2), of rf1] 2(3)] 1(2) by (simp add: changes_in_def)
    then have "new_callee S x idx caller_dst first_arg nargs ?fr"
      using cal layout_flag [OF cal(3)] 1(4) 2(2,4) a by (auto simp: frame_fits_def callee_frame_def new_callee_def args_match_def fn_ok_def)
    moreover have "vm_push_frame stale fp malloc x idx caller_dst first_arg nargs 0 = Inr (push_frame x ?fr, True)"
    proof -
      have s: "set_rf (set_rf ?x1 a) b = set_rf ?x1 b" "set_rf ?x1 rf2 = push_frame x ?fr" for a b
        by (simp_all add: set_rf_def push_frame_def callee_frame_def)
      have g: "\<not> (cf_idx (x_fr x) = idx \<and> (0 :: addr) = 0 \<and> nargs \<le> 16 \<and> \<not> cf_has_pointer_or_dynamic (x_fr x))" using False by simp
      have i: "(if cf_idx (x_fr x) = idx \<and> (0 :: addr) = 0 then
            x_store (set_rf ?x1 rf1) (vm_inherit_self_capture_slots ?m ?f (x_rf (set_rf ?x1 rf1)) ?src nargs)
          else Inr (set_rf ?x1 rf1)) = Inr (push_frame x ?fr)"
        using 2(1) s by (simp add: x_store_def split: if_splits)
      show ?thesis unfolding vm_push_frame_def Let_def if_not_P [OF cal(6)] if_not_P [OF g] fn_layout [OF cal(3)] rbind_Inr rf(1)
        rbind_assoc [symmetric] args i ..
    qed
    ultimately show ?thesis by blast
  qed
qed

lemma push_frame_calls:
  assumes m: "mach_ok x" and c: "callable x idx" and st: "\<forall>n. length (stale n) = n"
    and a: "args_match (x_m x) (x_f x) (m_funcs (x_m x) ! unat idx) first_arg nargs"
  shows "\<exists>x'. vm_push_frame stale fp malloc x idx caller_dst first_arg nargs 0 = Inr (x', True) \<and>
    called x idx caller_dst first_arg nargs x'"
proof -
  have "frame_regs_ok (live (gc_view x)) (x_kinds x) (x_rf x)"
    using mach_good [of _ x "x_fr x"] m by (simp add: good_frame_def mach_ok_def)
  from push_frame_frame [OF this c st a] new_callee_called [OF m] c show ?thesis by (fastforce simp: callable_def)
qed

definition fuel_spent :: "exec_ctx \<Rightarrow> exec_ctx" where
  "fuel_spent x = (if x_fuel_limit x = 0 then x else x\<lparr>x_fuel_remaining := x_fuel_remaining x - 1\<rparr>)"

lemma fuel_charge_run: "x_fuel_limit x = 0 \<or> x_fuel_remaining x \<noteq> 0 \<Longrightarrow> jello_vm_fuel_charge x = Inr (fuel_spent x)"
  by (auto simp: jello_vm_fuel_charge_def fuel_spent_def)

lemma fuel_spent_simps [simp]:
  "x_m (fuel_spent x) = x_m x" "x_fr (fuel_spent x) = x_fr x" "mach_ok (fuel_spent x) = mach_ok x" "callable (fuel_spent x) = callable x"
  by (auto simp: fuel_spent_def mach_ok_def mach_def gc_view_def callable_def call_frames_len_def fun_eq_iff)

text \<open>The inlined call is the handler of the table, but for the result code of an overflow of the call stack.\<close>

definition overflows :: "exec_ctx \<Rightarrow> bool" where
  "overflows x \<longleftrightarrow> x_call_frames_max x \<noteq> 0 \<and> x_call_frames_max x \<le> call_frames_len x"

lemma push_result: "vm_push_frame stale fp malloc x idx dst first nargs funobj = Inr (x', b) \<Longrightarrow> b \<longleftrightarrow> \<not> overflows x"
  by (auto simp: vm_push_frame_def overflows_def Let_def rbind_def split: sum.splits if_splits)

lemma push_self:
  assumes "\<not> overflows x" "idx = cf_idx (x_fr x)" "\<not> cf_has_pointer_or_dynamic (x_fr x)" "nargs \<le> 16"
  shows "vm_push_frame stale fp malloc x idx dst first nargs 0 =
    rbind (vm_push_self_numeric stale x first nargs dst) (\<lambda>x. Inr (x, True))"
proof -
  have o: "\<not> (x_call_frames_max x \<noteq> 0 \<and> x_call_frames_max x \<le> call_frames_len x)" using assms(1) by (simp add: overflows_def)
  show ?thesis unfolding vm_push_frame_def Let_def if_not_P [OF o] using assms by simp
qed

lemma op_call_run:
  assumes "x_fuel_limit x = 0 \<or> x_fuel_remaining x \<noteq> 0" "\<not> jello_is_native_builtin (i_imm ins)"
    "i_imm ins - JELLO_NATIVE_BUILTIN_COUNT < m_nfuncs (x_m x)" "unat (i_b ins) + unat (i_c ins) \<le> unat (rf_nregs (x_rf x))"
  shows "op_call stale fp malloc native x ins =
    rbind (vm_push_frame stale fp malloc (fuel_spent x) (i_imm ins - JELLO_NATIVE_BUILTIN_COUNT) (ucast (i_a ins))
      (unat (i_b ins)) (unat (i_c ins)) 0) (\<lambda>(x, _). Inr (OP_CONTINUE, x))"
  using assms by (simp add: op_call_def fuel_charge_run Let_def not_le [symmetric])


text \<open>The call that the loop inlines has the effect of the handler in the table, for every callee, error
  and builtin. Only the result code differs, when the call stack is full: a trap instead of going on.\<close>

theorem inlined_call_agrees:
  "hot_call stale fp malloc native x ins = rbind (op_call stale fp malloc native x ins) (\<lambda>(r, x').
     Inr (if r = OP_CONTINUE \<and> \<not> jello_is_native_builtin (i_imm ins) \<and> overflows x then OP_TRAP else r, x'))"
proof (cases "jello_vm_fuel_charge x")
  case (Inr y)
  let ?idx = "i_imm ins - JELLO_NATIVE_BUILTIN_COUNT"
  let ?push = "vm_push_frame stale fp malloc y ?idx (ucast (i_a ins)) (unat (i_b ins)) (unat (i_c ins)) 0"
  have y: "overflows y = overflows x"
    using Inr by (auto simp: jello_vm_fuel_charge_def call_frames_len_def overflows_def split: if_splits)
  have push: "rbind ?push (\<lambda>(x, ok). Inr (if ok then OP_CONTINUE else OP_TRAP, x)) =
      rbind ?push (\<lambda>(x', _). Inr (if overflows x then OP_TRAP else OP_CONTINUE, x'))"
  proof (cases ?push)
    case (Inr r)
    then obtain x' b where "?push = Inr (x', b)" "b \<longleftrightarrow> \<not> overflows x" using push_result y by (cases r) metis
    then show ?thesis by simp
  qed simp
  have self: "and_continue (vm_push_self_numeric stale y (unat (i_b ins)) (unat (i_c ins)) (ucast (i_a ins))) =
      rbind ?push (\<lambda>(x', _). Inr (if overflows x then OP_TRAP else OP_CONTINUE, x'))"
    if "?idx = cf_idx (x_fr y)" "\<not> cf_has_pointer_or_dynamic (x_fr y)" "unat (i_c ins) \<le> 16" "\<not> overflows y"
    unfolding push_self [OF that(4,1-3)] using that(4) y by (simp add: and_continue_def rbind_assoc)
  have g: "(x_call_frames_max y = 0 \<or> call_frames_len y < x_call_frames_max y) = (\<not> overflows y)" by (auto simp: overflows_def)
  have nat: "and_continue (native y ins (i_imm ins) (ucast (i_b ins))) = rbind (and_continue (native y ins (i_imm ins) (ucast (i_b ins)))) Inr"
    by (cases "and_continue (native y ins (i_imm ins) (ucast (i_b ins)))") simp_all
  show ?thesis unfolding hot_call_def op_call_def Inr sum.case Let_def g push
    using self nat by (auto simp: rbind_assoc case_prod_unfold)
qed (simp add: hot_call_def op_call_def)

section \<open>Typed returns\<close>

lemma good_frame_shape:
  assumes "good_frame S m fr" "changes_in (fun_kinds m (cf_f fr)) {r} (cf_rf fr) rf" "r < length (fun_kinds m (cf_f fr))"
    "jello_slot_size (fun_kinds m (cf_f fr) ! r) = 8 \<longrightarrow> reg_ok S (fun_kinds m (cf_f fr) ! r, reg_u64 (fun_kinds m (cf_f fr)) rf r)"
  shows "good_frame S m (fr\<lparr>cf_rf := rf\<rparr>)"
proof -
  have "frame_regs_ok S (fun_kinds m (cf_f fr)) rf"
    by (rule frame_regs_ok_change [OF _ assms(2)]) (use assms in \<open>auto simp: good_frame_def\<close>)
  then show ?thesis using assms(1) by (simp add: good_frame_def frame_ctx_ok_def frame_regs_ok_def)
qed

text \<open>The machine after the callee \<open>x_fr x\<close> returned its register \<open>a\<close> to the caller \<open>c\<close>.\<close>

definition returned :: "exec_ctx \<Rightarrow> nat \<Rightarrow> exec_ctx \<Rightarrow> bool" where
  "returned x a x' \<longleftrightarrow> (\<exists>rf. let c = last (x_below x); dst = unat (cf_caller_dst (x_fr x)); ks = fun_kinds (x_m x) (cf_f c) in
     x' = x\<lparr>x_below := butlast (x_below x), x_fr := c\<lparr>cf_rf := rf\<rparr>,
       x_exc_handlers := take (unat (cf_exc_base (x_fr x))) (x_exc_handlers x)\<rparr> \<and>
     changes_in ks {dst} (cf_rf c) rf \<and> reg_bytes ks rf dst = reg_bytes (x_kinds x) (x_rf x) a \<and> mach_ok x')"

lemma return_run:
  assumes b: "x_below x \<noteq> []" and k: "vm_reg_kind (x_m x) (x_f x) (unat a) = Inr (x_kinds x ! unat a)"
    and fr: "frame_ok (x_kinds x) (x_rf x)" "unat a < length (x_kinds x)"
    and dst: "dst = unat (cf_caller_dst (x_fr x))" and ks: "ks = fun_kinds (x_m x) (cf_f (last (x_below x)))"
    and c: "frame_ok ks (cf_rf (last (x_below x)))" "dst < length ks" "x_kinds x ! unat a = ks ! dst"
  obtains rf where "changes_in ks {dst} (cf_rf (last (x_below x))) rf" "reg_bytes ks rf dst = reg_bytes (x_kinds x) (x_rf x) (unat a)"
    "return_value fp malloc (x\<lparr>x_exc_handlers := hs\<rparr>) a True =
      Inr (OP_CONTINUE, x\<lparr>x_below := butlast (x_below x), x_fr := (last (x_below x))\<lparr>cf_rf := rf\<rparr>, x_exc_handlers := hs\<rparr>)"
proof -
  let ?bs = "reg_bytes (x_kinds x) (x_rf x) (unat a)"
  have rd: "read_slot (x_kinds x ! unat a) (x_rf x) (unat a) = Inr ?bs" by (rule read_slot_ok [OF fr])
  have "length ?bs = jello_slot_size (ks ! dst)" using fr c by simp
  then obtain rf where rf: "write_slot_bytes (cf_rf (last (x_below x))) dst ?bs = Inr rf" "only_changes ks dst (cf_rf (last (x_below x))) rf"
      "reg_bytes ks rf dst = ?bs" "same_shape (cf_rf (last (x_below x))) rf"
    by (rule write_slot_bytes_ok [OF c(1,2)])
  moreover have "changes_in ks {dst} (cf_rf (last (x_below x))) rf" using rf(2,4) by (simp add: changes_in_def only_changes_def)
  ultimately show thesis using that rd k dst
    by (simp add: return_value_def Let_def and_continue_def x_store_def pop_frame_def set_rf_def)
qed

lemma return_copies:
  assumes m: "mach_ok x" and b: "x_below x \<noteq> []" and a: "reg_in x (unat a)" "unat (cf_caller_dst (x_fr x)) < unat (f_nregs (cf_f (last (x_below x))))"
    and k: "x_kinds x ! unat a = fun_kinds (x_m x) (cf_f (last (x_below x))) ! unat (cf_caller_dst (x_fr x))"
  shows "\<exists>x'. return_value fp malloc (x\<lparr>x_exc_handlers := take (unat (cf_exc_base (x_fr x))) (x_exc_handlers x)\<rparr>) a True =
      Inr (OP_CONTINUE, x') \<and> returned x (unat a) x'"
proof -
  let ?S = "live (gc_view x)" and ?c = "last (x_below x)" and ?dst = "unat (cf_caller_dst (x_fr x))"
  let ?ks = "fun_kinds (x_m x) (cf_f ?c)" and ?hs = "take (unat (cf_exc_base (x_fr x))) (x_exc_handlers x)"
  have m': "mach ?S x" using m by (simp add: mach_ok_def)
  have g: "good_frame ?S (x_m x) ?c" "good_frame ?S (x_m x) (x_fr x)" using mach_good [OF m'] b by simp_all
  have fr: "frame_ok (x_kinds x) (x_rf x)" "unat a < length (x_kinds x)" "frame_ok ?ks (cf_rf ?c)" "?dst < length ?ks"
    using g a by (auto simp: good_frame_def frame_regs_ok_def frame_ctx_ok_def reg_in_def)
  obtain rf where rf: "changes_in ?ks {?dst} (cf_rf ?c) rf" "reg_bytes ?ks rf ?dst = reg_bytes (x_kinds x) (x_rf x) (unat a)"
    "return_value fp malloc (x\<lparr>x_exc_handlers := ?hs\<rparr>) a True =
      Inr (OP_CONTINUE, x\<lparr>x_below := butlast (x_below x), x_fr := ?c\<lparr>cf_rf := rf\<rparr>, x_exc_handlers := ?hs\<rparr>)"
    by (rule return_run [OF b top_reg_run(1) [OF m' a(1)] fr(1,2) refl refl fr(3,4) k])
  let ?x = "x\<lparr>x_below := butlast (x_below x), x_fr := ?c\<lparr>cf_rf := rf\<rparr>, x_exc_handlers := ?hs\<rparr>"
  have "jello_slot_size (?ks ! ?dst) = 8 \<longrightarrow> reg_ok ?S (?ks ! ?dst, reg_u64 ?ks rf ?dst)"
    using frame_regs_okD [of ?S "x_kinds x" "x_rf x" "unat a"] g(2) fr(2) k rf(2) by (auto simp: good_frame_def reg_u64_def)
  then have "good_frame ?S (x_m x) (?c\<lparr>cf_rf := rf\<rparr>)" by (rule good_frame_shape [OF g(1) rf(1) fr(4)])
  then have "mach ?S ?x"
    by (intro mach_new_frames [OF m']) (use mach_good [OF m'] in \<open>auto dest: in_set_butlastD\<close>)
  then have "returned x (unat a) ?x" using mach_live rf(1,2) by (auto simp: returned_def Let_def)
  then show ?thesis using rf(3) by blast
qed

text \<open>C19: a return to a caller whose destination register has the type of the returned one, by the handler or
  inlined: the caller's frame is on top again, its destination holds the result, its other registers are what they
  were, and the handlers that the callee installed are gone.\<close>

theorem typed_returns_deliver:
  assumes "mach_ok x" "cf_has_caller (x_fr x)" "x_below x \<noteq> []" "unat (cf_exc_base (x_fr x)) \<le> length (x_exc_handlers x)"
    and "reg_in x (unat (i_a ins))" "unat (cf_caller_dst (x_fr x)) < unat (f_nregs (cf_f (last (x_below x))))"
    and "f_reg_types (x_f x) ! unat (i_a ins) = f_reg_types (cf_f (last (x_below x))) ! unat (cf_caller_dst (x_fr x))"
  shows "\<exists>x'. op_ret fp malloc x ins = Inr (OP_CONTINUE, x') \<and> hot_ret fp malloc x ins = Inr (OP_CONTINUE, x') \<and>
    returned x (unat (i_a ins)) x'"
proof -
  have f: "frame_ctx_ok (x_m x) (x_fr x)" "frame_ctx_ok (x_m x) (last (x_below x))"
    using mach_frames [of _ x] assms(1,3) by (simp_all add: mach_ok_def)
  then have l: "unat (i_a ins) < length (f_reg_types (x_f x))" "unat (cf_caller_dst (x_fr x)) < length (f_reg_types (cf_f (last (x_below x))))"
    using assms(5,6) by (simp_all add: frame_ctx_ok_def reg_in_def)
  then have "x_kinds x ! unat (i_a ins) = fun_kinds (x_m x) (cf_f (last (x_below x))) ! unat (cf_caller_dst (x_fr x))"
    using assms(7) by (simp add: fun_kinds_def)
  from return_copies [OF assms(1,3,5,6) this, of fp malloc] show ?thesis
    using assms(2-4,7) l by (auto simp: op_ret_def hot_ret_def Let_def reg_type_at_def not_less)
qed

section \<open>Unwinding\<close>

lemma pop_while_none: "\<forall>h\<in>set hs. h_frame_index h \<noteq> i \<Longrightarrow> pop_while_frame i hs = hs"
  by (cases hs) simp_all

lemma nth_append_last: "x_below x \<noteq> [] \<Longrightarrow> i < length (x_below x) \<Longrightarrow>
    (butlast (x_below x) @ [last (x_below x)]) ! i = (x_below x @ [x_fr x]) ! i"
  by (simp add: nth_append)

text \<open>Frames above the handler's are dropped. Handlers belong to frames at or below it, so that none of them goes.\<close>

lemma unwind_run:
  assumes "i \<le> length (x_below x)" "length (x_below x) < 2 ^ 32" "\<forall>h\<in>set (x_exc_handlers x). unat (h_frame_index h) \<le> i"
  shows "unwind_to (of_nat i) x = x\<lparr>x_below := take i (x_below x), x_fr := (x_below x @ [x_fr x]) ! i\<rparr>"
  using assms
proof (induction "length (x_below x)" arbitrary: x)
  case 0
  then show ?case by (simp add: unwind_to.simps)
next
  case (Suc n)
  have u: "unat (of_nat i :: u32) = i" "unat (of_nat (length (x_below x)) :: u32) = length (x_below x)"
    using Suc.prems(1,2) by (simp_all add: unat_of_nat)
  show ?case
  proof (cases "i = length (x_below x)")
    case True
    then show ?thesis by (simp add: unwind_to.simps)
  next
    case False
    then have lt: "i < length (x_below x)" "x_below x \<noteq> []" using Suc.prems(1) by auto
    let ?y = "pop_frame (vm_exc_pop_for_frame x (of_nat (length (x_below x))))"
    have "pop_while_frame (of_nat (length (x_below x))) (rev (x_exc_handlers x)) = rev (x_exc_handlers x)"
      by (rule pop_while_none) (use Suc.prems(3) lt u in fastforce)
    then have y: "?y = x\<lparr>x_below := butlast (x_below x), x_fr := last (x_below x)\<rparr>"
      by (simp add: pop_frame_def vm_exc_pop_for_frame_def)
    have "unwind_to (of_nat i) x = unwind_to (of_nat i) ?y"
      using lt u by (subst unwind_to.simps) (simp add: word_less_nat_alt)
    also have "\<dots> = ?y\<lparr>x_below := take i (x_below ?y), x_fr := (x_below ?y @ [x_fr ?y]) ! i\<rparr>"
      by (rule Suc.hyps(1)) (use Suc.hyps(2) Suc.prems lt in \<open>auto simp: y\<close>)
    finally show ?thesis using lt nth_append_last [OF lt(2,1)] by (simp add: y take_butlast)
  qed
qed

lemma take_handler_run:
  assumes "\<forall>k\<in>set skipped. h_trap_only k" "\<not> h_trap_only h"
  shows "take_handler JELLO_TRAP_THROWN (rev (hs @ h # skipped)) = Some (h, rev hs)"
  using assms by (induction skipped rule: rev_induct) simp_all


section \<open>Calls that verified code gets wrong\<close>

text \<open>A module of three functions: one with an integer parameter and a captured integer, one with a bytes parameter,
  a double and an integer, and one with a single integer.\<close>

definition cl_function :: "u32 \<Rightarrow> u32 list \<Rightarrow> jello_bc_function" where
  "cl_function cap_start types =
     \<lparr>f_nregs = of_nat (length types), f_cap_start = cap_start, f_reg_types = types, f_ninsns = 1,
      f_insns = [\<lparr>i_op = 1, i_a = 0, i_b = 0, i_c = 0, i_imm = 0\<rparr>], f_source_file = 0, f_lines = [], f_nlines = 1\<rparr>"

definition cl_module :: jello_bc_module where
  "cl_module = zero_module
     \<lparr>m_features := JELLO_BC_FEAT_CAP_START, m_ntypes := 3,
      m_types := map (\<lambda>k. \<lparr>te_kind = k, te_as = 0\<rparr>) [JELLO_T_I32, JELLO_T_F64, JELLO_T_BYTES],
      m_nfuncs := 3, m_funcs := [cl_function 1 [0, 0], cl_function 0 [2, 1, 0], cl_function 0 [0]]\<rparr>"

definition cl_ctx :: "u32 \<Rightarrow> u8 list \<Rightarrow> exec_ctx" where
  "cl_ctx idx mem =
     (bx_ctx 0)\<lparr>x_m := cl_module, x_fr :=
       (let f = m_funcs cl_module ! unat idx; fl = layout_of (fun_kinds cl_module f) in
        \<lparr>cf_f = f, cf_rf = \<lparr>rf_mem = mem, rf_off = fl_off fl, rf_nregs = fl_nregs fl, rf_total = fl_total fl\<rparr>, cf_pc = 1,
         cf_caller_dst = 0, cf_exc_base = 0, cf_has_caller = False, cf_idx = idx,
         cf_has_pointer_or_dynamic = fl_has_pointer_or_dynamic fl\<rparr>)\<rparr>"

definition cl_insn :: "u8 \<Rightarrow> u8 \<Rightarrow> u8 \<Rightarrow> u8 \<Rightarrow> u32 \<Rightarrow> jello_insn" where
  "cl_insn op a b c imm = \<lparr>i_op = op, i_a = a, i_b = b, i_c = c, i_imm = imm\<rparr>"

definition zeroed :: "nat \<Rightarrow> u8 list" where "zeroed n = replicate n 0"

definition no_native :: native_fun where "no_native x ins i r = Inr x"

definition cl_bytes :: "u8 list" where "cl_bytes = u64_le 128 @ u64_le 0x3FF8000000000000 @ u32_le 0"
definition cl_ints :: "u8 list" where "cl_ints = u32_le 7 @ u32_le 9"

lemma cl_parts [simp]: "x_vm (cl_ctx i mem) = bx_vm 0" "x_below (cl_ctx i mem) = []" "x_m (cl_ctx i mem) = cl_module"
    "x_f (cl_ctx i mem) = m_funcs cl_module ! unat i" "cf_f (x_fr (cl_ctx i mem)) = m_funcs cl_module ! unat i"
  by (simp_all add: cl_ctx_def Let_def)

lemma cl_layouts:
  "fl_off (layout_of [JELLO_T_I32, JELLO_T_I32]) = [0, 4]" "fl_total (layout_of [JELLO_T_I32, JELLO_T_I32]) = 8"
  "fl_off (layout_of [JELLO_T_BYTES, JELLO_T_F64, JELLO_T_I32]) = [0, 8, 16]"
  "fl_total (layout_of [JELLO_T_BYTES, JELLO_T_F64, JELLO_T_I32]) = 20"
  by (simp_all add: layout_of_def align_up_def jello_slot_size_def)

lemma cl_kinds:
  "fun_kinds cl_module (m_funcs cl_module ! 0) = [JELLO_T_I32, JELLO_T_I32]"
  "fun_kinds cl_module (m_funcs cl_module ! Suc 0) = [JELLO_T_BYTES, JELLO_T_F64, JELLO_T_I32]"
  by (simp_all add: fun_kinds_def cl_module_def cl_function_def zero_module_def)

lemma cl_frame_ok:
  "length mem = 8 \<Longrightarrow> frame_ctx_ok cl_module (x_fr (cl_ctx 0 mem))" "length mem = 20 \<Longrightarrow> frame_ctx_ok cl_module (x_fr (cl_ctx 1 mem))"
proof -
  have t: "frame_ctx_ok cl_module (x_fr (cl_ctx i mem)) \<longleftrightarrow> frame_ok (fun_kinds cl_module (m_funcs cl_module ! unat i)) (x_rf (cl_ctx i mem))"
    if "i \<in> {0, 1}" for i using that by (auto simp: frame_ctx_ok_def cl_module_def cl_function_def)
  show "length mem = 8 \<Longrightarrow> frame_ctx_ok cl_module (x_fr (cl_ctx 0 mem))"
    by (simp add: t cl_kinds, rule layout_frame_ok) (simp_all add: cl_ctx_def cl_kinds cl_layouts Let_def)
  show "length mem = 20 \<Longrightarrow> frame_ctx_ok cl_module (x_fr (cl_ctx 1 mem))"
    by (simp add: t cl_kinds, rule layout_frame_ok) (simp_all add: cl_ctx_def cl_kinds cl_layouts Let_def)
qed

lemma cl_words:
  "frame_words cl_module (x_fr (cl_ctx 0 cl_ints)) = [(JELLO_T_I32, 0), (JELLO_T_I32, 0)]"
  "frame_words cl_module (x_fr (cl_ctx 1 cl_bytes)) = [(JELLO_T_BYTES, 128), (JELLO_T_F64, 0x3FF8000000000000), (JELLO_T_I32, 0)]"
  by code_simp+

lemma cl_mach:
  assumes "frame_ctx_ok cl_module (x_fr (cl_ctx i mem))"
    and w: "\<forall>r\<in>set (frame_words cl_module (x_fr (cl_ctx i mem))). reg_ok {64, 128, 192, 256} r"
  shows "mach_ok (cl_ctx i mem)"
proof -
  have r: "roots_ok {64, 128, 192, 256} (gc_view (cl_ctx i mem))"
    using bx_mach [of 0] w by (simp add: mach_def roots_ok_def)
  have h: "heap_ok {64, 128, 192, 256} (vm_heap (bx_vm 0))" using bx_mach [of 0] by (simp add: mach_def)
  have "live (gc_view (cl_ctx i mem)) \<subseteq> {64, 128, 192, 256}"
    unfolding live_def using heap_ok_closed [OF h roots_ok_ptrs [OF r]] by simp
  then have "gc_wf (gc_view (cl_ctx i mem))"
    by (auto simp: gc_wf_def) (auto simp: bx_vm_def marked_def freelist_ok_def size_at_def split: if_splits)
  then have "mach {64, 128, 192, 256} (cl_ctx i mem)" using r h assms(1) bx_mach [of 0] by (simp add: mach_def)
  then show ?thesis by (rule mach_live)
qed

lemma cl_ok: "mach_ok (cl_ctx 0 cl_ints)" "mach_ok (cl_ctx 1 cl_bytes)"
proof -
  have "length cl_ints = 8" "length cl_bytes = 20" by (simp_all add: cl_ints_def cl_bytes_def u32_le_def u64_le_def)
  then show "mach_ok (cl_ctx 0 cl_ints)" "mach_ok (cl_ctx 1 cl_bytes)"
    by (auto intro!: cl_mach cl_frame_ok simp: cl_words) (simp_all add: reg_ok_def ptr_ok_def is_pointer_kind_def)
qed

lemma cl_accepted:
  "accepted (cl_ctx 0 cl_ints) (cl_insn 9 0 0 1 47) 0" "accepted (cl_ctx 0 cl_ints) (cl_insn 9 0 0 2 49) 0"
  "accepted (cl_ctx 1 cl_bytes) (cl_insn 11 0 1 1 48) 0" "accepted (cl_ctx 1 cl_bytes) (cl_insn 117 2 0 0 0) 0"
  by code_simp+

lemma cl_runs:
  "rbind (op_call zeroed demo_fpu bx_malloc no_native (cl_ctx 0 cl_ints) (cl_insn 9 0 0 1 47)) (\<lambda>(_, x).
     Inr (map (rf_mem \<circ> cf_rf) (x_below x @ [x_fr x]))) = Inr [cl_ints, u32_le 7 @ u32_le 0]"
  "stop_of (op_call zeroed demo_fpu bx_malloc no_native (cl_ctx 0 cl_ints) (cl_insn 9 0 0 2 49)) = Some FAULT"
  "stop_of (rbind (op_tailcall zeroed demo_fpu bx_malloc no_native (cl_ctx 1 cl_bytes) (cl_insn 11 0 1 1 48)) (\<lambda>(_, x).
     op_bytes_len x (cl_insn 117 2 0 0 0))) = Some FAULT"
  by code_simp+

lemma cl_accepted2:
  "accepted (cl_ctx 1 cl_bytes) (cl_insn 9 0 0 2 48) 0" "accepted (cl_ctx 1 cl_bytes) (cl_insn 1 1 0 0 0) 0"
  by code_simp+

lemma cl_return_runs:
  "stop_of (rbind (op_call zeroed demo_fpu bx_malloc no_native (cl_ctx 1 cl_bytes) (cl_insn 9 0 0 2 48)) (\<lambda>(_, x).
     rbind (hot_ret demo_fpu bx_malloc x (cl_insn 1 1 0 0 0)) (\<lambda>(_, x). op_bytes_len x (cl_insn 117 2 0 0 0)))) = Some FAULT"
  by code_simp

text \<open>C0: a function that calls itself and has only numeric registers loses its captures: the frame of
  the inner call gets the argument 7, but the captured 9 of the outer call is stale memory there, although \<^verbatim>\<open>vm_push_frame\<close>
  copies captures on its other path.\<close>

theorem self_call_loses_captures:
  "mach_ok (cl_ctx 0 cl_ints) \<and> accepted (cl_ctx 0 cl_ints) (cl_insn 9 0 0 1 47) 0 \<and>
   rbind (op_call zeroed demo_fpu bx_malloc no_native (cl_ctx 0 cl_ints) (cl_insn 9 0 0 1 47)) (\<lambda>(_, x).
     Inr (map (rf_mem \<circ> cf_rf) (x_below x @ [x_fr x]))) = Inr [u32_le 7 @ u32_le 9, u32_le 7 @ u32_le 0]"
  using cl_ok(1) cl_accepted(1) cl_runs(1) by (simp add: cl_ints_def)


section \<open>Witnesses\<close>


text \<open>A machine in the middle of a call of a function by itself.\<close>

definition nested :: "exec_ctx \<Rightarrow> exec_ctx" where
  "nested x = push_frame x ((x_fr x)\<lparr>cf_has_caller := True, cf_caller_dst := 1\<rparr>)"

lemma nested_ok: "mach_ok x \<Longrightarrow> mach_ok (nested x)"
proof -
  assume m: "mach_ok x"
  have "mach (live (gc_view x)) (nested x)"
    by (rule mach_new_frames [OF m [unfolded mach_ok_def]])
      (use mach_good [OF m [unfolded mach_ok_def]] in \<open>auto simp: nested_def push_frame_def good_frame_def frame_ctx_ok_def\<close>)
  then show ?thesis by (rule mach_live)
qed

lemma typed_returns_deliver_witness:
  "\<exists>x'. op_ret demo_fpu bx_malloc (nested (cl_ctx 0 cl_ints)) (cl_insn 1 0 0 0 0) = Inr (OP_CONTINUE, x') \<and>
    hot_ret demo_fpu bx_malloc (nested (cl_ctx 0 cl_ints)) (cl_insn 1 0 0 0 0) = Inr (OP_CONTINUE, x') \<and>
    returned (nested (cl_ctx 0 cl_ints)) 0 x'"
proof -
  have "cf_has_caller (x_fr (nested (cl_ctx 0 cl_ints)))" "x_below (nested (cl_ctx 0 cl_ints)) \<noteq> []"
    by (simp_all add: nested_def push_frame_def)
  moreover have "unat (cf_exc_base (x_fr (nested (cl_ctx 0 cl_ints)))) \<le> length (x_exc_handlers (nested (cl_ctx 0 cl_ints)))"
    "reg_in (nested (cl_ctx 0 cl_ints)) (unat (i_a (cl_insn 1 0 0 0 0)))"
    "unat (cf_caller_dst (x_fr (nested (cl_ctx 0 cl_ints)))) < unat (f_nregs (cf_f (last (x_below (nested (cl_ctx 0 cl_ints))))))"
    "f_reg_types (x_f (nested (cl_ctx 0 cl_ints))) ! unat (i_a (cl_insn 1 0 0 0 0)) =
       f_reg_types (cf_f (last (x_below (nested (cl_ctx 0 cl_ints))))) ! unat (cf_caller_dst (x_fr (nested (cl_ctx 0 cl_ints))))"
    by code_simp+
  ultimately show ?thesis
    using typed_returns_deliver [OF nested_ok [OF cl_ok(1)], of "cl_insn 1 0 0 0 0" demo_fpu bx_malloc] by (simp add: cl_insn_def)
qed

definition thrown_ctx :: exec_ctx where
  "thrown_ctx = (nested (bx_ctx 0))\<lparr>x_exc_handlers := [\<lparr>h_frame_index = 0, h_catch_pc = 0, h_dst_reg = 3, h_trap_only = False\<rparr>],
     x_exc_pending := True, x_exc_payload := jello_make_i32 5, x_trap_code := JELLO_TRAP_THROWN\<rparr>"


end
