(* ===== verification/Jello_Loop.thy ===== *)
theory Jello_Loop
  imports Jello_Arith
begin

text \<open>
  The interpreter loop \<^verbatim>\<open>vm_exec_loop\<close> (\<^verbatim>\<open>src/vm/ops/exec_loop.c\<close>) for the opcodes whose handlers are modelled: it
  fetches an instruction and executes the frequent ones inline (\<open>hot_table\<close>), the others through \<open>op_dispatch\<close>. With
  \<^verbatim>\<open>JELLOVM_REFERENCE_INTERP\<close> everything goes through \<open>op_dispatch\<close>. The hooks into the JIT, profiling and the dispatch of a
  pending exception, where a run stops here, are not part of the model; \<^verbatim>\<open>goto CHECK_EXC\<close> is \<open>OP_TRAP\<close>.

  The lemmas show that the inline code computes what the reference dispatcher does, up to two additions on
  signed integers that C leaves undefined on overflow, and what fuel bounds.
\<close>

section \<open>Inline handlers\<close>

definition hot_jmp :: handler where
  "hot_jmp x ins =
     rbind (jump_target x (i_imm ins)) (\<lambda>npc.
       if sint (i_imm ins) < 0 then
         (case jello_vm_fuel_charge x of
            Inl x' \<Rightarrow> Inr (OP_TRAP, x')
          | Inr x' \<Rightarrow> Inr (OP_CONTINUE, set_pc x' npc))
       else Inr (OP_CONTINUE, set_pc x npc))"

definition hot_jmp_if :: handler where
  "hot_jmp_if x ins =
     rbind (vm_load_u32 (x_rf x) (unat (i_a ins))) (\<lambda>cond.
       if cond \<noteq> 0 then rbind (jump_target x (i_imm ins)) (\<lambda>npc. Inr (OP_CONTINUE, set_pc x npc))
       else Inr (OP_CONTINUE, x))"

definition hot_mov :: handler where
  "hot_mov x ins =
     rbind (vm_reg_kind (x_m x) (x_f x) (unat (i_a ins))) (\<lambda>k.
     rbind (vm_reg_ptr (x_rf x) (unat (i_a ins))) (\<lambda>dst.
     rbind (vm_reg_ptr (x_rf x) (unat (i_b ins))) (\<lambda>src.
     rbind (read_at (x_rf x) src (jello_slot_size k)) (\<lambda>bs.
       continue_with x (write_at (x_rf x) dst bs)))))"

definition hot_const_i32 :: handler where
  "hot_const_i32 x ins = continue_with x (vm_store_u32 (x_rf x) (unat (i_a ins)) (i_imm ins))"

definition hot_const_i8_imm :: handler where
  "hot_const_i8_imm x ins = continue_with x (vm_store_u32 (x_rf x) (unat (i_a ins)) (scast (i_c ins)))"

definition hot_const_bool :: handler where
  "hot_const_bool x ins = continue_with x (vm_store_u32 (x_rf x) (unat (i_a ins)) (ucast (i_c ins AND 1)))"

definition hot_const_null :: handler where
  "hot_const_null x ins = continue_with x (vm_store_val (x_rf x) (unat (i_a ins)) jello_make_null)"

definition hot_const_f64 :: handler where
  "hot_const_f64 x ins =
     rbind (pool_at (m_const_f64 (x_m x)) (i_imm ins)) (\<lambda>v.
       continue_with x (vm_store_f64 (x_rf x) (unat (i_a ins)) v))"

text \<open>\<^verbatim>\<open>if(k == JELLO_T_I32) vm_store_u32(rf, a, v); else vm_store_u32_masked(rf, a, v, k);\<close>\<close>

definition hot_store :: "exec_ctx \<Rightarrow> u8 \<Rightarrow> u32 \<Rightarrow> jello_type_kind \<Rightarrow> (op_result \<times> exec_ctx) run" where
  "hot_store x a v k =
     (if k = JELLO_T_I32 then continue_with x (vm_store_u32 (x_rf x) (unat a) v)
      else continue_with x (vm_store_u32_masked (x_rf x) (unat a) v k))"

definition hot_bin_i32 :: "(u32 \<Rightarrow> u32 \<Rightarrow> u32) \<Rightarrow> handler" where
  "hot_bin_i32 e x ins =
     rbind (vm_reg_kind (x_m x) (x_f x) (unat (i_a ins))) (\<lambda>k.
     rbind (vm_load_u32 (x_rf x) (unat (i_b ins))) (\<lambda>a.
     rbind (vm_load_u32 (x_rf x) (unat (i_c ins))) (\<lambda>b.
       hot_store x (i_a ins) (e a b) k)))"

definition hot_add_i32 :: handler where "hot_add_i32 = hot_bin_i32 (+)"
definition hot_sub_i32 :: handler where "hot_sub_i32 = hot_bin_i32 (-)"
definition hot_mul_i32 :: handler where "hot_mul_i32 = hot_bin_i32 (*)"

text \<open>\<^verbatim>\<open>(int32_t)a + imm\<close> and \<^verbatim>\<open>(int32_t)a - imm\<close> are additions of signed integers: overflow is undefined.\<close>

definition c_int32 :: "int \<Rightarrow> u32 run" where
  "c_int32 i = (if - (2 ^ 31) \<le> i \<and> i < 2 ^ 31 then Inr (of_int i) else Inl FAULT)"

definition hot_bin_i32_imm :: "(u32 \<Rightarrow> u8 \<Rightarrow> u32 run) \<Rightarrow> handler" where
  "hot_bin_i32_imm e x ins =
     rbind (vm_reg_kind (x_m x) (x_f x) (unat (i_a ins))) (\<lambda>k.
     rbind (vm_load_u32 (x_rf x) (unat (i_b ins))) (\<lambda>a.
     rbind (e a (i_c ins)) (\<lambda>v. hot_store x (i_a ins) v k)))"

definition hot_add_i32_imm :: handler where
  "hot_add_i32_imm = hot_bin_i32_imm (\<lambda>a c. c_int32 (sint a + sint c))"

definition hot_sub_i32_imm :: handler where
  "hot_sub_i32_imm = hot_bin_i32_imm (\<lambda>a c. c_int32 (sint a - sint c))"

definition hot_mul_i32_imm :: handler where
  "hot_mul_i32_imm = hot_bin_i32_imm (\<lambda>a c. Inr (a * scast c))"

definition hot_bin_f64 :: "(u64 \<Rightarrow> u64 \<Rightarrow> u64) \<Rightarrow> handler" where
  "hot_bin_f64 e x ins =
     rbind (vm_load_f64 (x_rf x) (unat (i_b ins))) (\<lambda>a.
     rbind (vm_load_f64 (x_rf x) (unat (i_c ins))) (\<lambda>b.
       continue_with x (vm_store_f64 (x_rf x) (unat (i_a ins)) (e a b))))"

definition hot_add_f64 :: "fpu \<Rightarrow> handler" where "hot_add_f64 fp = hot_bin_f64 (op64 fp f_add)"
definition hot_sub_f64 :: "fpu \<Rightarrow> handler" where "hot_sub_f64 fp = hot_bin_f64 (op64 fp f_sub)"
definition hot_mul_f64 :: "fpu \<Rightarrow> handler" where "hot_mul_f64 fp = hot_bin_f64 (op64 fp f_mul)"
definition hot_div_f64 :: "fpu \<Rightarrow> handler" where "hot_div_f64 fp = hot_bin_f64 (op64 fp f_div)"

definition hot_not_bool :: handler where
  "hot_not_bool x ins =
     rbind (vm_load_u32 (x_rf x) (unat (i_b ins))) (\<lambda>v.
       continue_with x (vm_store_u32 (x_rf x) (unat (i_a ins)) (bool_u32 (v = 0))))"

definition hot_cmp_i32 :: "(int \<Rightarrow> int \<Rightarrow> bool) \<Rightarrow> handler" where
  "hot_cmp_i32 e x ins =
     rbind (vm_load_u32 (x_rf x) (unat (i_b ins))) (\<lambda>a.
     rbind (vm_load_u32 (x_rf x) (unat (i_c ins))) (\<lambda>b.
       continue_with x (vm_store_u32 (x_rf x) (unat (i_a ins)) (bool_u32 (e (sint a) (sint b))))))"

definition hot_cmp_i32_imm :: "(int \<Rightarrow> int \<Rightarrow> bool) \<Rightarrow> handler" where
  "hot_cmp_i32_imm e x ins =
     rbind (vm_load_u32 (x_rf x) (unat (i_b ins))) (\<lambda>a.
       continue_with x (vm_store_u32 (x_rf x) (unat (i_a ins)) (bool_u32 (e (sint a) (sint (i_c ins))))))"

definition hot_cmp_f64 :: "(fval \<Rightarrow> fval \<Rightarrow> bool) \<Rightarrow> handler" where
  "hot_cmp_f64 e x ins =
     rbind (vm_load_f64 (x_rf x) (unat (i_b ins))) (\<lambda>a.
     rbind (vm_load_f64 (x_rf x) (unat (i_c ins))) (\<lambda>b.
       continue_with x (vm_store_u32 (x_rf x) (unat (i_a ins)) (bool_u32 (e (dec64 a) (dec64 b))))))"

definition hot_eq_i32 :: handler where "hot_eq_i32 = hot_cmp_i32 (=)"
definition hot_lt_i32 :: handler where "hot_lt_i32 = hot_cmp_i32 (<)"
definition hot_eq_i32_imm :: handler where "hot_eq_i32_imm = hot_cmp_i32_imm (=)"
definition hot_lt_i32_imm :: handler where "hot_lt_i32_imm = hot_cmp_i32_imm (<)"
definition hot_eq_f64 :: handler where "hot_eq_f64 = hot_cmp_f64 f_eq"
definition hot_lt_f64 :: handler where "hot_lt_f64 = hot_cmp_f64 f_lt"

section \<open>The loop\<close>

definition hot_table :: "fpu \<Rightarrow> (nat \<times> handler) list" where
  "hot_table fp =
     [(JOP_JMP, hot_jmp), (JOP_JMP_IF, hot_jmp_if), (JOP_MOV, hot_mov), (JOP_CONST_I32, hot_const_i32),
      (JOP_CONST_I8_IMM, hot_const_i8_imm), (JOP_CONST_BOOL, hot_const_bool), (JOP_CONST_NULL, hot_const_null),
      (JOP_CONST_F64, hot_const_f64), (JOP_ADD_I32, hot_add_i32), (JOP_SUB_I32, hot_sub_i32), (JOP_MUL_I32, hot_mul_i32),
      (JOP_ADD_I32_IMM, hot_add_i32_imm), (JOP_SUB_I32_IMM, hot_sub_i32_imm), (JOP_MUL_I32_IMM, hot_mul_i32_imm),
      (JOP_ADD_F64, hot_add_f64 fp), (JOP_SUB_F64, hot_sub_f64 fp), (JOP_MUL_F64, hot_mul_f64 fp),
      (JOP_DIV_F64, hot_div_f64 fp), (JOP_NOT_BOOL, hot_not_bool), (JOP_EQ_I32, hot_eq_i32), (JOP_LT_I32, hot_lt_i32),
      (JOP_EQ_I32_IMM, hot_eq_i32_imm), (JOP_LT_I32_IMM, hot_lt_i32_imm), (JOP_EQ_F64, hot_eq_f64), (JOP_LT_F64, hot_lt_f64)]"

text \<open>Fetch, with \<^verbatim>\<open>fr->pc++\<close>, and execute; \<open>None\<close> is an opcode of the part that is not modelled, and a program counter
  outside the code reads past the array.\<close>

definition fetch_exec :: "(nat \<Rightarrow> handler option) \<Rightarrow> exec_ctx \<Rightarrow> (op_result \<times> exec_ctx) run option" where
  "fetch_exec handlers x =
     (if unat (x_pc x) < length (f_insns (x_f x)) then
        (let ins = f_insns (x_f x) ! unat (x_pc x) in
         map_option (\<lambda>h. h (set_pc x (x_pc x + 1)) ins) (handlers (i_opc ins)))
      else Some (Inl FAULT))"

definition hot_dispatch :: "fpu \<Rightarrow> nat \<Rightarrow> handler option" where
  "hot_dispatch fp op = (case map_of (hot_table fp) op of Some h \<Rightarrow> Some h | None \<Rightarrow> op_dispatch fp op)"

text \<open>\<open>n\<close> rounds of the loop, which ends when an exception is pending or a handler asks for it.\<close>

fun vm_exec_loop :: "(nat \<Rightarrow> handler option) \<Rightarrow> nat \<Rightarrow> exec_ctx \<Rightarrow> exec_ctx run option" where
  "vm_exec_loop handlers 0 x = Some (Inr x)"
| "vm_exec_loop handlers (Suc n) x =
     (if x_exc_pending x then Some (Inr x)
      else
        (case fetch_exec handlers x of
           None \<Rightarrow> None
         | Some (Inl s) \<Rightarrow> Some (Inl s)
         | Some (Inr (OP_CONTINUE, x')) \<Rightarrow> vm_exec_loop handlers n x'
         | Some (Inr (_, x')) \<Rightarrow> Some (Inr x')))"

section \<open>The inline code agrees with the dispatcher\<close>

lemma hot_store_masked: "hot_store x a v k = continue_with x (vm_store_u32_masked (x_rf x) (unat a) v k)"
  by (simp add: hot_store_def vm_store_u32_masked_def mask_kind_def)

lemma c_int32_Inr: "c_int32 i = Inr v \<Longrightarrow> v = of_int i"
  by (simp add: c_int32_def split: if_splits)

lemma of_int_sint_add: "of_int (sint (a :: u32) + sint (c :: u8)) = a + scast c"
  "of_int (sint a - sint c) = a - scast c"
  by (simp_all only: of_int_add of_int_diff of_int_sint scast_id)

lemma hot_jmp_eq: "hot_jmp = op_jmp"
  by (rule ext)+ (simp only: hot_jmp_def op_jmp_def)

lemma hot_jmp_if_eq: "hot_jmp_if = op_jmp_if"
  by (rule ext)+ (simp only: hot_jmp_if_def op_jmp_if_def)

lemma hot_mov_eq: "hot_mov = op_mov"
  by (rule ext)+ (simp only: hot_mov_def op_mov_def)

lemma hot_const_eq:
  "hot_const_i32 = op_const_i32" "hot_const_i8_imm = op_const_i8_imm" "hot_const_bool = op_const_bool"
  "hot_const_null = op_const_null" "hot_const_f64 = op_const_f64"
  by (simp_all only: fun_eq_iff hot_const_i32_def op_const_i32_def hot_const_i8_imm_def op_const_i8_imm_def
      hot_const_bool_def op_const_bool_def hot_const_null_def op_const_null_def hot_const_f64_def op_const_f64_def simp_thms)

lemma hot_bin_masked: "hot_bin_i32 e = OP_BIN_I32_MASKED (\<lambda>a b. Inr (e a b))"
  by (rule ext)+ (simp add: hot_bin_i32_def OP_BIN_I32_MASKED_def hot_store_masked)

lemma hot_bin_imm_masked: "hot_bin_i32_imm (\<lambda>a c. Inr (e a (scast c))) = OP_BIN_I32_IMM_MASKED e"
  by (rule ext)+ (simp add: hot_bin_i32_imm_def OP_BIN_I32_IMM_MASKED_def hot_store_masked)

lemma hot_macros:
  "hot_bin_f64 e = OP_BIN_F64 e" "hot_cmp_i32 p = OP_CMP_I32 p" "hot_cmp_i32_imm p = OP_CMP_I32_IMM p"
  "hot_cmp_f64 q = OP_CMP_F64 q" "hot_not_bool = OP_NOT_BOOL"
  by (simp_all only: fun_eq_iff hot_bin_f64_def OP_BIN_F64_def hot_cmp_i32_def OP_CMP_I32_def hot_cmp_i32_imm_def
      OP_CMP_I32_IMM_def hot_cmp_f64_def OP_CMP_F64_def hot_not_bool_def OP_NOT_BOOL_def vm_load_i32ish_def simp_thms)

text \<open>The instruction at the program counter adds a small constant to, or subtracts it from, a 32-bit register with a result
  outside the 32-bit integers.\<close>

definition signed_overflow :: "exec_ctx \<Rightarrow> bool" where
  "signed_overflow x \<longleftrightarrow> unat (x_pc x) < length (f_insns (x_f x)) \<and>
     (let ins = f_insns (x_f x) ! unat (x_pc x) in
      case vm_load_u32 (x_rf x) (unat (i_b ins)) of
        Inl _ \<Rightarrow> False
      | Inr a \<Rightarrow>
          i_opc ins = JOP_ADD_I32_IMM \<and> \<not> (- (2 ^ 31) \<le> sint a + sint (i_c ins) \<and> sint a + sint (i_c ins) < 2 ^ 31) \<or>
          i_opc ins = JOP_SUB_I32_IMM \<and> \<not> (- (2 ^ 31) \<le> sint a - sint (i_c ins) \<and> sint a - sint (i_c ins) < 2 ^ 31))"

lemma hot_bin_i32_imm_agrees:
  assumes "\<And>a c. of_int (e a c) = f a (scast c)"
  shows "hot_bin_i32_imm (\<lambda>a c. c_int32 (e a c)) x ins = OP_BIN_I32_IMM_MASKED f x ins \<or>
    (\<exists>a. hot_bin_i32_imm (\<lambda>a c. c_int32 (e a c)) x ins = Inl FAULT \<and>
      vm_load_u32 (x_rf x) (unat (i_b ins)) = Inr a \<and> \<not> (- (2 ^ 31) \<le> e a (i_c ins) \<and> e a (i_c ins) < 2 ^ 31))"
  unfolding hot_bin_i32_imm_def OP_BIN_I32_IMM_MASKED_def hot_store_masked c_int32_def
  by (cases "vm_reg_kind (x_m x) (x_f x) (unat (i_a ins))"; cases "vm_load_u32 (x_rf x) (unat (i_b ins))")
     (simp_all add: assms)

lemma hot_add_i32_imm_agrees:
  "hot_add_i32_imm x ins = op_add_i32_imm x ins \<or>
    (\<exists>a. hot_add_i32_imm x ins = Inl FAULT \<and> vm_load_u32 (x_rf x) (unat (i_b ins)) = Inr a \<and>
      \<not> (- (2 ^ 31) \<le> sint a + sint (i_c ins) \<and> sint a + sint (i_c ins) < 2 ^ 31))"
  unfolding hot_add_i32_imm_def op_add_i32_imm_def
  by (rule hot_bin_i32_imm_agrees) (rule of_int_sint_add)

lemma hot_sub_i32_imm_agrees:
  "hot_sub_i32_imm x ins = op_sub_i32_imm x ins \<or>
    (\<exists>a. hot_sub_i32_imm x ins = Inl FAULT \<and> vm_load_u32 (x_rf x) (unat (i_b ins)) = Inr a \<and>
      \<not> (- (2 ^ 31) \<le> sint a - sint (i_c ins) \<and> sint a - sint (i_c ins) < 2 ^ 31))"
  unfolding hot_sub_i32_imm_def op_sub_i32_imm_def
  by (rule hot_bin_i32_imm_agrees) (rule of_int_sint_add)

lemmas hot_equals_reference = hot_jmp_eq hot_jmp_if_eq hot_mov_eq hot_const_eq
  hot_add_i32_def [unfolded hot_bin_masked, folded op_add_i32_def]
  hot_sub_i32_def [unfolded hot_bin_masked, folded op_sub_i32_def]
  hot_mul_i32_def [unfolded hot_bin_masked, folded op_mul_i32_def]
  hot_mul_i32_imm_def [unfolded hot_bin_imm_masked [where e = "(*)"], folded op_mul_i32_imm_def]
  hot_add_f64_def [unfolded hot_macros, folded op_add_f64_def]
  hot_sub_f64_def [unfolded hot_macros, folded op_sub_f64_def]
  hot_mul_f64_def [unfolded hot_macros, folded op_mul_f64_def]
  hot_div_f64_def [unfolded hot_macros, folded op_div_f64_def]
  hot_macros(5) [folded op_not_bool_def]
  hot_eq_i32_def [unfolded hot_macros, folded op_eq_i32_def]
  hot_lt_i32_def [unfolded hot_macros, folded op_lt_i32_def]
  hot_eq_i32_imm_def [unfolded hot_macros, folded op_eq_i32_imm_def]
  hot_lt_i32_imm_def [unfolded hot_macros, folded op_lt_i32_imm_def]
  hot_eq_f64_def [unfolded hot_macros, folded op_eq_f64_def]
  hot_lt_f64_def [unfolded hot_macros, folded op_lt_f64_def]

lemma hot_table_handlers:
  assumes "map_of (hot_table fp) op = Some h"
  shows "op_dispatch fp op = Some h \<or>
    op = JOP_ADD_I32_IMM \<and> h = hot_add_i32_imm \<and> op_dispatch fp op = Some op_add_i32_imm \<or>
    op = JOP_SUB_I32_IMM \<and> h = hot_sub_i32_imm \<and> op_dispatch fp op = Some op_sub_i32_imm"
  using map_of_SomeD [OF assms] unfolding hot_table_def list.set hot_equals_reference
  by (elim insertE emptyE) (simp_all add: op_dispatch_def control_table_def numeric_table_def)

lemma fetch_agrees:
  "fetch_exec (hot_dispatch fp) x = fetch_exec (op_dispatch fp) x \<or>
   fetch_exec (hot_dispatch fp) x = Some (Inl FAULT) \<and> signed_overflow x"
proof (cases "unat (x_pc x) < length (f_insns (x_f x))")
  case False
  then show ?thesis by (simp add: fetch_exec_def)
next
  case True
  let ?ins = "f_insns (x_f x) ! unat (x_pc x)" and ?x = "set_pc x (x_pc x + 1)"
  have rf: "x_rf ?x = x_rf x" by (simp add: set_pc_def)
  show ?thesis
  proof (cases "map_of (hot_table fp) (i_opc ?ins)")
    case None
    then show ?thesis by (simp add: fetch_exec_def hot_dispatch_def)
  next
    case (Some h)
    note e = fetch_exec_def hot_dispatch_def Some option.case option.map Let_def if_P [OF True]
    from hot_table_handlers [OF Some] show ?thesis
    proof (elim disjE conjE)
      assume "op_dispatch fp (i_opc ?ins) = Some h"
      then show ?thesis by (simp only: e simp_thms)
    next
      assume o: "i_opc ?ins = JOP_ADD_I32_IMM" "h = hot_add_i32_imm" "op_dispatch fp (i_opc ?ins) = Some op_add_i32_imm"
      show ?thesis using hot_add_i32_imm_agrees [of ?x ?ins] True o(1)
        unfolding e o(2,3) rf by (auto simp: signed_overflow_def Let_def)
    next
      assume o: "i_opc ?ins = JOP_SUB_I32_IMM" "h = hot_sub_i32_imm" "op_dispatch fp (i_opc ?ins) = Some op_sub_i32_imm"
      show ?thesis using hot_sub_i32_imm_agrees [of ?x ?ins] True o(1)
        unfolding e o(2,3) rf by (auto simp: signed_overflow_def Let_def)
    qed
  qed
qed

section \<open>What fuel bounds\<close>

text \<open>A step that stays in the function, spends no fuel and leaves the program counter alone.\<close>

definition local_step :: "exec_ctx \<Rightarrow> (op_result \<times> exec_ctx) run \<Rightarrow> bool" where
  "local_step x r \<longleftrightarrow>
     (\<forall>res x'. r = Inr (res, x') \<longrightarrow> x_f x' = x_f x \<and> x_pc x' = x_pc x \<and> x_fuel_remaining x' = x_fuel_remaining x \<and>
        x_fuel_limit x' = x_fuel_limit x)"

named_theorems local_intros \<open>steps that change neither fuel nor the program counter\<close>

lemma local_rbind [local_intros]: "(\<And>v. local_step x (k v)) \<Longrightarrow> local_step x (rbind r k)"
  by (cases r) (simp_all add: local_step_def)

lemma local_continue [local_intros]: "local_step x (continue_with x r)"
  by (cases r) (simp_all add: local_step_def continue_with_def set_rf_def)

lemma local_stop [local_intros]: "local_step x (Inl s)"
  by (simp add: local_step_def)

lemma local_checked [local_intros]:
  "local_step x (store_checked x (vm_checked_f64_to_i32 x w) st)"
  "local_step x (store_checked x (vm_checked_f64_to_i64 x w) st')"
  by (auto simp: store_checked_def vm_checked_f64_to_i32_def vm_checked_f64_to_i64_def local_step_def conversion_trap_def
      continue_with_def set_rf_def Let_def rbind_def split: sum.splits if_splits)

lemma local_exc [local_intros]:
  "local_step x (Inr (res, vm_exc_push x fi cpc dst t))" "local_step x (Inr (res, x))"
  by (simp_all add: local_step_def vm_exc_push_def)

lemma local_endtry: "local_step x (op_endtry x ins)"
  by (auto simp: op_endtry_def local_step_def vm_exc_pop_def Let_def split: option.splits if_splits)

lemma local_throw: "local_step x (op_throw x ins)"
  unfolding op_throw_def by (intro local_intros) (simp add: local_step_def)

lemmas control_defs = op_nop_def op_mov_def op_try_def op_case_kind_def op_const_i32_def op_const_i8_imm_def op_const_bool_def
  op_const_null_def op_const_atom_def op_const_f16_def op_const_f32_def op_const_i64_def op_const_f64_def

lemma control_steps_local:
  assumes "map_of control_table op = Some h" "op \<notin> {JOP_JMP, JOP_JMP_IF, JOP_SWITCH_KIND}"
  shows "local_step x (h x ins)"
  using map_of_SomeD [OF assms(1)] assms(2) unfolding control_table_def list.set
  by (elim insertE emptyE)
    (simp_all only: prod.inject local_endtry local_throw insert_iff simp_thms; simp only: control_defs Let_def; intro local_intros)+

lemmas partial_defs = op_div_i32_def op_mod_i32_def op_div_i64_def op_mod_i64_def op_i32_from_f64_def op_i64_from_f64_def
  op_i32_from_f32_def op_i64_from_f32_def op_i32_from_f16_def

lemma numeric_steps_local:
  assumes "map_of (numeric_table fp) op = Some h"
  shows "local_step x (h x ins)"
  using map_of_SomeD [OF assms(1)] unfolding numeric_table_def list.set
  by (elim insertE emptyE)
    (simp only: prod.inject, (simp only: op32_defs opf_defs op64_defs partial_defs macro_defs)?, intro local_intros)+

text \<open>Every jump other than \<^verbatim>\<open>jmp\<close> leads forward.\<close>

definition forward_code :: "jello_insn list \<Rightarrow> bool" where
  "forward_code insns \<longleftrightarrow> list_all (\<lambda>ins. i_opc ins \<in> {JOP_JMP_IF, JOP_SWITCH_KIND, JOP_CASE_KIND} \<longrightarrow> 0 \<le> sint (i_imm ins)) insns"

text \<open>The loop ends within \<open>n\<close> rounds.\<close>

fun loop_ends :: "(nat \<Rightarrow> handler option) \<Rightarrow> nat \<Rightarrow> exec_ctx \<Rightarrow> bool" where
  "loop_ends handlers 0 x = False"
| "loop_ends handlers (Suc n) x =
     (x_exc_pending x \<or>
      (case fetch_exec handlers x of
         Some (Inr (OP_CONTINUE, x')) \<Rightarrow> loop_ends handlers n x'
       | _ \<Rightarrow> True))"

abbreviation code_ok :: "jello_bc_function \<Rightarrow> bool" where
  "code_ok f \<equiv> length (f_insns f) = unat (f_ninsns f) \<and> length (f_insns f) < 2 ^ 31 \<and> tables_ok (f_insns f)"

lemma jump_target_run:
  assumes "jump_target x d = Inr npc" "unat (x_pc x) < 2 ^ 31" "unat (f_ninsns (x_f x)) < 2 ^ 31"
  shows "npc = x_pc x + d" "int (unat npc) = int (unat (x_pc x)) + sint d"
proof -
  have "\<not> bad_target (x_pc x) d (f_ninsns (x_f x))" "npc = x_pc x + d"
    using assms(1) by (auto simp: jump_target_def bad_target_def Let_def split: if_splits)
  then show "npc = x_pc x + d" "int (unat npc) = int (unat (x_pc x)) + sint d"
    using jump_in_range [OF _ assms(2,3)] by auto
qed

text \<open>One round either moves the program counter forward for free or spends one unit of fuel.\<close>

definition advances :: "exec_ctx \<Rightarrow> exec_ctx \<Rightarrow> bool" where
  "advances x x' \<longleftrightarrow> x_f x' = x_f x \<and> x_fuel_limit x' = x_fuel_limit x \<and>
     (unat (x_pc x) \<le> unat (x_pc x') \<and> x_fuel_remaining x' = x_fuel_remaining x \<or>
      unat (x_fuel_remaining x) = unat (x_fuel_remaining x') + 1)"

lemma local_advances: "local_step x r \<Longrightarrow> r = Inr (OP_CONTINUE, x') \<Longrightarrow> advances x x'"
  by (simp add: local_step_def advances_def)

lemma set_pc_advances: "unat (x_pc x) \<le> unat npc \<Longrightarrow> advances x (set_pc x npc)"
  by (simp add: advances_def set_pc_def)

lemma jump_advances:
  assumes "jump_target x d = Inr npc" "0 \<le> sint d" "unat (x_pc x) < 2 ^ 31" "unat (f_ninsns (x_f x)) < 2 ^ 31"
  shows "advances x (set_pc x npc)"
proof (rule set_pc_advances)
  show "unat (x_pc x) \<le> unat npc" using jump_target_run(2) [OF assms(1,3,4)] assms(2) by linarith
qed

lemma jmp_advances:
  assumes "op_jmp x ins = Inr (OP_CONTINUE, x')" "x_fuel_limit x \<noteq> 0" "unat (x_pc x) < 2 ^ 31" "unat (f_ninsns (x_f x)) < 2 ^ 31"
  shows "advances x x'"
proof -
  obtain npc where npc: "jump_target x (i_imm ins) = Inr npc" using assms(1) by (cases "jump_target x (i_imm ins)") (auto simp: op_jmp_def)
  show ?thesis
  proof (cases "sint (i_imm ins) < 0")
    case True
    have "unat (x_fuel_remaining x) = unat (x_fuel_remaining x - 1) + 1" if "x_fuel_remaining x \<noteq> 0"
      using that unat_minus_one [of "x_fuel_remaining x"] by (simp add: unat_gt_0)
    then show ?thesis using assms(1,2) npc True
      by (auto simp: op_jmp_def jello_vm_fuel_charge_def advances_def set_pc_def split: if_splits)
  next
    case False
    then show ?thesis using assms(1) npc jump_advances [OF npc _ assms(3,4)] by (simp add: op_jmp_def)
  qed
qed

lemma jmp_if_advances:
  assumes "op_jmp_if x ins = Inr (OP_CONTINUE, x')" "0 \<le> sint (i_imm ins)" "unat (x_pc x) < 2 ^ 31" "unat (f_ninsns (x_f x)) < 2 ^ 31"
  shows "advances x x'"
proof -
  have "x' = x \<or> (\<exists>npc. jump_target x (i_imm ins) = Inr npc \<and> x' = set_pc x npc)"
    using assms(1) by (cases "jump_target x (i_imm ins)"; cases "vm_load_u32 (x_rf x) (unat (i_a ins))")
      (auto simp: op_jmp_if_def split: if_splits)
  then show ?thesis using jump_advances [OF _ assms(2-4)] by (auto simp: advances_def)
qed

lemma switch_advances:
  assumes "op_switch_kind x ins = Inr (OP_CONTINUE, x')" "i_opc ins = JOP_SWITCH_KIND" "code_ok (x_f x)" "forward_code (f_insns (x_f x))"
    and "j < length (f_insns (x_f x))" "f_insns (x_f x) ! j = ins" "unat (x_pc x) = j + 1"
  shows "advances x x'"
proof -
  let ?code = "f_insns (x_f x)"
  let ?te = "x_pc x + ucast (i_b ins)"
  have tok: "table_ok ?code j" using assms(2,3,5,6) by (auto simp: tables_ok_from_def is_switch_def)
  then have te: "j + 1 + unat (i_b ins) \<le> length ?code" using assms(6) by (simp add: table_ok_def Let_def table_len_def)
  then have ute: "unat ?te = j + 1 + unat (i_b ins)" using assms(3,7) unat_add_u8 [of "x_pc x" "i_b ins"] by simp
  obtain kind where kind: "vm_load_u32 (x_rf x) (unat (i_a ins)) = Inr kind"
    using assms(1) by (cases "vm_load_u32 (x_rf x) (unat (i_a ins))") (auto simp: op_switch_kind_def Let_def)
  let ?cases = "take (unat (i_b ins)) (drop (j + 1) ?code)"
  let ?d = "first_match ?cases kind (i_imm ins)"
  have fc: "find_case ?code kind (x_pc x) (unat (ucast (i_b ins) :: u32)) (i_imm ins) = Inr ?d"
    using find_case_run [of ?code "x_pc x" "unat (i_b ins)"] te assms(3,7) by simp
  have fwd: "0 \<le> sint (i_imm (?code ! k))" if "k < length ?code" "i_opc (?code ! k) \<in> {JOP_SWITCH_KIND, JOP_CASE_KIND}" for k
    using assms(4) that by (auto simp: forward_code_def list_all_iff)
  have "0 \<le> sint ?d"
    using first_match_cases [of ?cases kind "i_imm ins"]
  proof
    assume "?d = i_imm ins" then show ?thesis using fwd [of j] assms(2,5,6) by simp
  next
    assume "\<exists>ci\<in>set ?cases. ?d = i_imm ci"
    then obtain k where "k < unat (i_b ins)" "?d = i_imm (?code ! (j + 1 + k))"
      using te by (auto simp: in_set_conv_nth)
    moreover then have "is_case ?code (j + 1 + k)" using tok assms(6) by (auto simp: table_ok_def Let_def table_len_def entry_ok_def)
    ultimately show ?thesis using fwd [of "j + 1 + k"] te by (simp add: is_case_def)
  qed
  moreover have x': "x' = set_pc x (?te + ?d)" "\<not> bad_target ?te ?d (f_ninsns (x_f x))"
    using assms(1) kind fc by (auto simp: op_switch_kind_def Let_def bad_target_def split: if_splits)
  moreover have "int (unat (?te + ?d)) = int (unat ?te) + sint ?d"
    using jump_in_range [OF x'(2)] ute te assms(3) by (simp del: of_nat_unat)
  ultimately have "unat (x_pc x) \<le> unat (?te + ?d)" using ute assms(7) by linarith
  then show ?thesis unfolding x'(1) by (rule set_pc_advances)
qed

lemma fetch_advances:
  assumes "fetch_exec (hot_dispatch fp) x = Some (Inr (OP_CONTINUE, x'))"
    and "code_ok (x_f x)" "forward_code (f_insns (x_f x))" "x_fuel_limit x \<noteq> 0"
  shows "unat (x_pc x) < length (f_insns (x_f x))" "advances (set_pc x (x_pc x + 1)) x'" "unat (x_pc x + 1) = unat (x_pc x) + 1"
proof -
  let ?x = "set_pc x (x_pc x + 1)" and ?ins = "f_insns (x_f x) ! unat (x_pc x)"
  have r: "fetch_exec (op_dispatch fp) x = Some (Inr (OP_CONTINUE, x'))" using fetch_agrees [of fp x] assms(1) by auto
  then obtain h where h: "op_dispatch fp (i_opc ?ins) = Some h" "h ?x ?ins = Inr (OP_CONTINUE, x')"
    and pc: "unat (x_pc x) < length (f_insns (x_f x))"
    by (auto simp: fetch_exec_def Let_def split: if_splits)
  then show "unat (x_pc x) < length (f_insns (x_f x))" "unat (x_pc x + 1) = unat (x_pc x) + 1"
    using assms(2) by (simp_all add: unat_word_ariths)
  then have b: "unat (x_pc ?x) < 2 ^ 31" "unat (f_ninsns (x_f ?x)) < 2 ^ 31" "x_fuel_limit ?x \<noteq> 0" "x_f ?x = x_f x"
      "unat (x_pc ?x) = unat (x_pc x) + 1"
    using assms(2,4) pc by (simp_all add: set_pc_def)
  have fwd: "i_opc ?ins = JOP_JMP_IF \<Longrightarrow> 0 \<le> sint (i_imm ?ins)" using assms(3) pc by (auto simp: forward_code_def list_all_iff)
  consider "i_opc ?ins = JOP_JMP" | "i_opc ?ins = JOP_JMP_IF" | "i_opc ?ins = JOP_SWITCH_KIND"
    | "i_opc ?ins \<notin> {JOP_JMP, JOP_JMP_IF, JOP_SWITCH_KIND}" by auto
  then show "advances ?x x'"
  proof cases
    case 1
    then show ?thesis using h jmp_advances [OF _ b(3,1,2)] by (simp add: op_dispatch_def control_table_def)
  next
    case 2
    then show ?thesis using h jmp_if_advances [OF _ fwd b(1,2)] by (simp add: op_dispatch_def control_table_def)
  next
    case 3
    then have "h = op_switch_kind" using h by (simp add: op_dispatch_def control_table_def)
    then show ?thesis using h(2) switch_advances [of ?x ?ins x' "unat (x_pc x)"] 3 b(4,5) assms(2,3) pc by simp
  next
    case 4
    then have "local_step ?x (h ?x ?ins)"
      using h(1) control_steps_local [OF _ 4] numeric_steps_local by (auto simp: op_dispatch_def map_of_append map_add_Some_iff)
    then show ?thesis using h(2) local_advances by blast
  qed
qed

lemma loop_ends_fuel:
  "unat (x_fuel_remaining x) * (L + 1) + (L - unat (x_pc x)) < n \<Longrightarrow> x_fuel_limit x \<noteq> 0 \<Longrightarrow> code_ok (x_f x) \<Longrightarrow>
    forward_code (f_insns (x_f x)) \<Longrightarrow> L = length (f_insns (x_f x)) \<Longrightarrow> loop_ends (hot_dispatch fp) n x"
proof (induction n arbitrary: x)
  case 0
  then show ?case by simp
next
  case (Suc n)
  have "loop_ends (hot_dispatch fp) n x'" if r: "fetch_exec (hot_dispatch fp) x = Some (Inr (OP_CONTINUE, x'))" for x'
  proof (rule Suc.IH)
    note a = fetch_advances [OF r Suc.prems(3,4,2)]
    have f: "x_f x' = x_f x" "x_fuel_limit x' = x_fuel_limit x"
      and m: "unat (x_pc x) + 1 \<le> unat (x_pc x') \<and> x_fuel_remaining x' = x_fuel_remaining x \<or>
        unat (x_fuel_remaining x) = unat (x_fuel_remaining x') + 1"
      using a(2,3) by (auto simp: advances_def set_pc_def)
    show "x_fuel_limit x' \<noteq> 0" "code_ok (x_f x')" "forward_code (f_insns (x_f x'))" "L = length (f_insns (x_f x'))"
      using f Suc.prems by simp_all
    show "unat (x_fuel_remaining x') * (L + 1) + (L - unat (x_pc x')) < n"
      using m Suc.prems(1,5) a(1) by (auto simp: algebra_simps)
  qed
  then show ?case by (auto split: option.splits sum.splits op_result.splits)
qed


text \<open>A conditional jump back to itself whose condition holds runs forever: after any number of rounds the context, its
  fuel included, is what it was, and the loop has not ended. Fuel is charged by unconditional backward jumps
  only and is not a budget of instructions.\<close>

theorem conditional_loop_uses_no_fuel:
  assumes "unat (x_pc x) < length (f_insns (x_f x))" "f_insns (x_f x) ! unat (x_pc x) = ins"
    and "i_opc ins = JOP_JMP_IF" "i_imm ins = - 1" "\<not> bad_target (x_pc x + 1) (- 1) (f_ninsns (x_f x))"
    and "vm_load_u32 (x_rf x) (unat (i_a ins)) = Inr v" "v \<noteq> 0" "\<not> x_exc_pending x"
  shows "vm_exec_loop (hot_dispatch fp) n x = Some (Inr x) \<and> \<not> loop_ends (hot_dispatch fp) n x"
proof -
  have "hot_dispatch fp (i_opc ins) = Some op_jmp_if"
    by (simp add: assms(3) hot_dispatch_def hot_table_def hot_jmp_if_eq)
  moreover have "op_jmp_if (set_pc x (x_pc x + 1)) ins = Inr (OP_CONTINUE, x)"
    using assms(4-7) by (simp add: op_jmp_if_def jump_target_def bad_target_def set_pc_def Let_def)
  ultimately have "fetch_exec (hot_dispatch fp) x = Some (Inr (OP_CONTINUE, x))"
    using assms(1,2) by (simp add: fetch_exec_def Let_def)
  then show ?thesis using assms(8) by (induction n) simp_all
qed


definition spin_ctx :: exec_ctx where
  "spin_ctx = demo_ctx\<lparr>x_fr := (x_fr demo_ctx)\<lparr>cf_f := demo_function\<lparr>f_ninsns := 1,
     f_insns := [\<lparr>i_op = 3, i_a = 0, i_b = 0, i_c = 0, i_imm = - 1\<rparr>]\<rparr>, cf_pc := 0\<rparr>\<rparr>"

lemma conditional_loop_uses_no_fuel_witness:
  "vm_exec_loop (hot_dispatch demo_fpu) 1000000 spin_ctx = Some (Inr spin_ctx)"
proof -
  have "vm_load_u32 (x_rf demo_ctx) (unat (0 :: u8)) = Inr 7"
    using load_run(1) [OF demo_ok demo_regs(1)] demo_values(1) by simp
  then have "vm_load_u32 (x_rf spin_ctx) (unat (0 :: u8)) = Inr 7" by (simp add: spin_ctx_def)
  then show ?thesis
    using conditional_loop_uses_no_fuel [of spin_ctx _ 7 demo_fpu 1000000]
    by (simp add: spin_ctx_def bad_target_def demo_ctx_def)
qed

end
