(* ===== verification/Jello_Run.thy ===== *)
theory Jello_Run
  imports Jello_Calls Jello_Loop
begin

text \<open>
  The whole machine: \<^verbatim>\<open>src/vm/ops/exec_loop.c\<close> (dispatch of all opcodes with the calls and returns the loop inlines, the rounds of the
  loop with its check for exceptions), the computed jumps of \<^verbatim>\<open>src/vm/ops/dispatch.c\<close>, the entry frames of
  \<^verbatim>\<open>src/vm/frame.c\<close> and the entry points of \<^verbatim>\<open>src/vm/interp.c\<close>. A run is a number of rounds: the loop need not end.

  The main result is that typed code never faults: a module that passes the verifier and also satisfies what the verifier
  leaves unchecked (\<open>typed_module\<close>: arguments and results of calls match, code never runs off its end) runs for any number of
  rounds without a panic or an access outside its frames. The proof carries an invariant of the chain of frames (\<open>run_ok\<close>)
  through the rounds.
\<close>

unbundle bit_operations_syntax

section \<open>Inlined calls\<close>

text \<open>The messages of the inlined calls are shorter than those of the handlers, and a callee that is no function goes to
  the exception check at once.\<close>

definition trap_check :: "exec_ctx \<Rightarrow> jello_trap_code \<Rightarrow> string \<Rightarrow> (op_result \<times> exec_ctx) run" where
  "trap_check x code msg = Inr (OP_TRAP, jello_vm_trap x code (Some msg))"

definition function_or_trap :: "exec_ctx \<Rightarrow> nat \<Rightarrow> string \<Rightarrow> (addr \<Rightarrow> fun_obj \<Rightarrow> (op_result \<times> exec_ctx) run) \<Rightarrow> (op_result \<times> exec_ctx) run" where
  "function_or_trap x r msg k =
     rbind (vm_load_val (x_rf x) r) (\<lambda>v.
       if \<not> jello_is_ptr v \<or> jello_is_null v \<or> jello_as_ptr v = 0 then trap_check x JELLO_TRAP_TYPE_MISMATCH msg
       else
         rbind (obj_of x (jello_as_ptr v)) (\<lambda>ob.
           if obj_kind ob \<noteq> 2 then trap_check x JELLO_TRAP_TYPE_MISMATCH msg
           else rbind (function_at x (jello_as_ptr v)) (\<lambda>fo. k (jello_as_ptr v) fo)))"

definition hot_callr :: "(nat \<Rightarrow> u8 list) \<Rightarrow> fpu \<Rightarrow> alloc_fun \<Rightarrow> native_fun \<Rightarrow> jdll_fun \<Rightarrow> handler" where
  "hot_callr stale fp malloc native jdll x ins =
     (case jello_vm_fuel_charge x of
        Inl x \<Rightarrow> Inr (OP_TRAP, x)
      | Inr x \<Rightarrow>
          function_or_trap x (unat (i_b ins)) ''callr callee not a function'' (\<lambda>p fo.
            let fi = fo_func_index fo; bytecode_idx = fi - JELLO_NATIVE_BUILTIN_COUNT in
            if jello_is_jdll_prim fi then
              rbind (jdll x ins p (i_imm ins)) (\<lambda>(x, ok). Inr (if ok then OP_CONTINUE else OP_TRAP, x))
            else if jello_is_native_builtin fi then and_continue (native x ins fi (i_imm ins))
            else if m_nfuncs (x_m x) \<le> bytecode_idx then Inl PANIC
            else if rf_nregs (x_rf x) < i_imm ins + ucast (i_c ins) then Inl PANIC
            else
              rbind (vm_push_frame stale fp malloc x bytecode_idx (ucast (i_a ins)) (unat (i_imm ins)) (unat (i_c ins)) p) (\<lambda>(x, ok).
                Inr (if ok then OP_CONTINUE else OP_TRAP, x))))"

definition hot_tailcall :: "(nat \<Rightarrow> u8 list) \<Rightarrow> fpu \<Rightarrow> alloc_fun \<Rightarrow> native_fun \<Rightarrow> handler" where
  "hot_tailcall stale fp malloc native x ins =
     (let fi = i_imm ins; bytecode_idx = fi - JELLO_NATIVE_BUILTIN_COUNT in
      if jello_is_native_builtin fi then
        rbind (native x ins fi (ucast (i_b ins))) (\<lambda>x. finish_native_tail fp malloc x ins)
      else if m_nfuncs (x_m x) \<le> bytecode_idx then Inl PANIC
      else if unat (rf_nregs (x_rf x)) < unat (i_b ins) + unat (i_c ins) then Inl PANIC
      else and_continue (vm_replace_frame stale fp malloc x bytecode_idx (unat (i_b ins)) (unat (i_c ins)) 0))"

definition hot_tailcallr :: "(nat \<Rightarrow> u8 list) \<Rightarrow> fpu \<Rightarrow> alloc_fun \<Rightarrow> native_fun \<Rightarrow> jdll_fun \<Rightarrow> handler" where
  "hot_tailcallr stale fp malloc native jdll x ins =
     function_or_trap x (unat (i_b ins)) ''tailcallr callee not a function'' (\<lambda>p fo.
       let fi = fo_func_index fo; bytecode_idx = fi - JELLO_NATIVE_BUILTIN_COUNT in
       if jello_is_jdll_prim fi then
         rbind (jdll x ins p (i_imm ins)) (\<lambda>(x, ok). if \<not> ok then Inr (OP_TRAP, x) else finish_native_tail fp malloc x ins)
       else if jello_is_native_builtin fi then
         rbind (native x ins fi (i_imm ins)) (\<lambda>x. finish_native_tail fp malloc x ins)
       else if m_nfuncs (x_m x) \<le> bytecode_idx then Inl PANIC
       else if rf_nregs (x_rf x) < i_imm ins + ucast (i_c ins) then Inl PANIC
       else and_continue (vm_replace_frame stale fp malloc x bytecode_idx (unat (i_imm ins)) (unat (i_c ins)) p))"

section \<open>Dispatch of all opcodes\<close>

text \<open>What the machine gets from its host: the contents of fresh frame memory, the floating point operations of the processor,
  the allocator, whether the memory of an array could be had, the builtins and the native libraries.\<close>

record host =
  h_stale :: "nat \<Rightarrow> u8 list"
  h_fpu :: fpu
  h_malloc :: alloc_fun
  h_side :: "u64 \<Rightarrow> bool"
  h_native :: native_fun
  h_jdll :: jdll_fun

definition call_table :: "host \<Rightarrow> (nat \<times> handler) list" where
  "call_table h =
     [(JOP_RET, op_ret (h_fpu h) (h_malloc h)),
      (JOP_ASSERT, op_assert (h_malloc h)),
      (JOP_CALL, op_call (h_stale h) (h_fpu h) (h_malloc h) (h_native h)),
      (JOP_CALLR, op_callr (h_stale h) (h_fpu h) (h_malloc h) (h_native h) (h_jdll h)),
      (JOP_TAILCALL, op_tailcall (h_stale h) (h_fpu h) (h_malloc h) (h_native h)),
      (JOP_TAILCALLR, op_tailcallr (h_stale h) (h_fpu h) (h_malloc h) (h_native h) (h_jdll h)),
      (JOP_CLOSURE, op_closure (h_malloc h)),
      (JOP_BIND_THIS, op_bind_this (h_malloc h))]"

definition object_table :: "host \<Rightarrow> (nat \<times> handler) list" where
  "object_table h =
     [(JOP_OBJ_NEW, op_obj_new (h_malloc h)), (JOP_OBJ_HAS_ATOM, op_obj_has_atom), (JOP_OBJ_GET_ATOM, op_obj_get_atom (h_fpu h) (h_malloc h)),
      (JOP_OBJ_SET_ATOM, op_obj_set_atom (h_malloc h)), (JOP_OBJ_GET, op_obj_get (h_fpu h) (h_malloc h)),
      (JOP_OBJ_SET, op_obj_set (h_malloc h)), (JOP_OBJ_HAS, op_obj_has), (JOP_OBJ_REMOVE, op_obj_remove),
      (JOP_OBJ_CLEAR, op_obj_clear), (JOP_OBJ_COPY, op_obj_copy (h_malloc h)), (JOP_OBJ_KEYS, op_obj_keys (h_malloc h))]"

definition op_panic :: handler where "op_panic x ins = Inl PANIC"

text \<open>\<^verbatim>\<open>op_dispatch\<close> with all its cases, in the form of the \<^verbatim>\<open>switch\<close>.\<close>

definition vm_dispatch :: "host \<Rightarrow> nat \<Rightarrow> handler" where
  "vm_dispatch h op =
     (case map_of (call_table h @ control_table @ numeric_table (h_fpu h) @ box_table (h_fpu h) (h_malloc h) @
        container_table (h_fpu h) (h_malloc h) (h_side h) @ bytes_table (h_malloc h) @ object_table h) op of
        Some f \<Rightarrow> f
      | None \<Rightarrow> op_panic)"

text \<open>The cases that \<^verbatim>\<open>exec_loop.c\<close> inlines: calls and returns; those of \<open>hot_table\<close>; and others, whose text is that of their
  handlers or a call of them, for which \<open>vm_dispatch\<close> serves.\<close>

definition hot_calls :: "host \<Rightarrow> (nat \<times> handler) list" where
  "hot_calls h =
     [(JOP_RET, hot_ret (h_fpu h) (h_malloc h)),
      (JOP_CALL, hot_call (h_stale h) (h_fpu h) (h_malloc h) (h_native h)),
      (JOP_CALLR, hot_callr (h_stale h) (h_fpu h) (h_malloc h) (h_native h) (h_jdll h)),
      (JOP_TAILCALL, hot_tailcall (h_stale h) (h_fpu h) (h_malloc h) (h_native h)),
      (JOP_TAILCALLR, hot_tailcallr (h_stale h) (h_fpu h) (h_malloc h) (h_native h) (h_jdll h))]"

definition loop_dispatch :: "host \<Rightarrow> nat \<Rightarrow> handler" where
  "loop_dispatch h op = (case map_of (hot_calls h @ hot_table (h_fpu h)) op of Some f \<Rightarrow> f | None \<Rightarrow> vm_dispatch h op)"

text \<open>The labels \<^verbatim>\<open>L_RET\<close> and \<^verbatim>\<open>L_JMP\<close> of the version of \<^verbatim>\<open>op_dispatch\<close> for compilers with computed jumps. The first never stores exports,
  the second never charges fuel.\<close>

definition L_RET :: "fpu \<Rightarrow> alloc_fun \<Rightarrow> handler" where
  "L_RET fp malloc x ins =
     (let fr = x_fr x in
      if length (x_exc_handlers x) < unat (cf_exc_base fr) then Inl PANIC
      else
        (let x = x\<lparr>x_exc_handlers := take (unat (cf_exc_base fr)) (x_exc_handlers x)\<rparr> in
         if \<not> cf_has_caller fr then
           rbind (vm_box_from_typed malloc x (cf_f fr) (cf_rf fr) (unat (i_a ins))) (\<lambda>(x, ret).
             Inr (OP_RETURN, (release_run x)\<lparr>x_out := ret\<rparr>))
         else if x_below x = [] then Inl PANIC
         else
           rbind (reg_type_at (cf_f fr) (unat (i_a ins))) (\<lambda>ret_tid.
           rbind (reg_type_at (cf_f (last (x_below x))) (unat (cf_caller_dst fr))) (\<lambda>dst_tid.
             return_value fp malloc x (i_a ins) (dst_tid = ret_tid)))))"

definition L_JMP :: handler where
  "L_JMP x ins = rbind (jump_target x (i_imm ins)) (\<lambda>npc. Inr (OP_CONTINUE, set_pc x npc))"

section \<open>The loop\<close>

datatype exec_status = JELLO_EXEC_OK | JELLO_EXEC_TRAP

text \<open>One round: the check at \<^verbatim>\<open>CHECK_EXC\<close>, fetch and execution. \<open>min_call_frames\<close> is 0 but for callbacks from native libraries;
  a frame is always there, since the return of the last one ends the loop. The hooks into the JIT are left out.\<close>

definition vm_round :: "(nat \<Rightarrow> handler) \<Rightarrow> alloc_fun \<Rightarrow> u32 \<Rightarrow> exec_ctx \<Rightarrow> (exec_ctx \<times> exec_status option) run" where
  "vm_round handlers malloc min_call_frames x =
     (if min_call_frames \<noteq> 0 \<and> call_frames_len x \<le> min_call_frames then Inr (x, Some JELLO_EXEC_OK)
      else
        rbind (vm_exc_dispatch malloc x) (\<lambda>(x, uncaught).
          if uncaught then Inr (x, Some JELLO_EXEC_TRAP)
          else if unat (x_pc x) < length (f_insns (x_f x)) then
            (let ins = f_insns (x_f x) ! unat (x_pc x) in
             rbind (handlers (i_opc ins) (set_pc x (x_pc x + 1)) ins) (\<lambda>(r, x).
               Inr (x, if r = OP_RETURN then Some JELLO_EXEC_OK else None)))
          else Inl FAULT))"

text \<open>\<open>n\<close> rounds; \<open>None\<close> means that the loop is not over then.\<close>

fun vm_rounds :: "(nat \<Rightarrow> handler) \<Rightarrow> alloc_fun \<Rightarrow> u32 \<Rightarrow> nat \<Rightarrow> exec_ctx \<Rightarrow> (exec_ctx \<times> exec_status option) run" where
  "vm_rounds handlers malloc min_call_frames 0 x = Inr (x, None)"
| "vm_rounds handlers malloc min_call_frames (Suc n) x =
     rbind (vm_round handlers malloc min_call_frames x) (\<lambda>(x, st).
       if st = None then vm_rounds handlers malloc min_call_frames n x else Inr (x, st))"

section \<open>Runs\<close>

text \<open>What every entry resets.\<close>

definition run_reset :: "exec_ctx \<Rightarrow> jello_bc_module \<Rightarrow> exec_ctx" where
  "run_reset x m =
     (let vm = jello_gc_init (x_vm x) in
      x\<lparr>x_vm := vm_enum_nullary_cache_init
          (vm\<lparr>const_fun_cache := (if m_nfuncs m \<noteq> 0 then replicate (unat JELLO_NATIVE_BUILTIN_COUNT + unat (m_nfuncs m)) 0 else []),
            const_bytes_cache := replicate (unat (m_nconst_bytes m)) 0, running_module := True\<rparr>) (m_ntypes m),
        x_m := m, x_fuel_remaining := x_fuel_limit x, x_exc_handlers := [], x_exc_pending := False, x_exc_payload := jello_make_null,
        x_trap_code := JELLO_TRAP_NONE, x_trap_msg := None\<rparr>)"

text \<open>The first frame of a run; the frames of an earlier run are gone.\<close>

definition entry_frame :: "u32 \<Rightarrow> jello_bc_function \<Rightarrow> frame_layout \<Rightarrow> reg_frame \<Rightarrow> call_frame" where
  "entry_frame idx f fl rf =
     \<lparr>cf_f = f, cf_rf = rf, cf_pc = 0, cf_caller_dst = 0, cf_exc_base = 0, cf_has_caller = False, cf_idx = idx,
      cf_has_pointer_or_dynamic = fl_has_pointer_or_dynamic fl\<rparr>"

definition push_entry :: "host \<Rightarrow> exec_ctx \<Rightarrow> u32 \<Rightarrow> exec_ctx run" where
  "push_entry h x idx =
     (let m = x_m x; f = m_funcs m ! unat idx in
      rbind (vm_get_frame_layout m f) (\<lambda>fl.
      rbind (init_frame (h_stale h (unat (fl_total fl))) m f fl) (\<lambda>rf.
        Inr (x\<lparr>x_below := [], x_fr := entry_frame idx f fl rf\<rparr>))))"

text \<open>The values \<open>args\<close> are C variables, which no root protects.\<close>

definition vm_push_frame_entry :: "host \<Rightarrow> exec_ctx \<Rightarrow> u32 \<Rightarrow> addr \<Rightarrow> jello_value list \<Rightarrow> exec_ctx run" where
  "vm_push_frame_entry h x idx funobj args =
     (if unat (f_nregs (m_funcs (x_m x) ! unat idx)) < length args then Inl PANIC
      else
        rbind (push_entry h x idx) (\<lambda>x.
          if funobj \<noteq> 0 then vm_init_closure_args_from_values (h_fpu h) (h_malloc h) x args funobj
          else store_values (h_fpu h) (h_malloc h) x 0 args))"

definition vm_push_frame_closure_from_values :: "host \<Rightarrow> exec_ctx \<Rightarrow> addr \<Rightarrow> jello_value list \<Rightarrow> exec_ctx option run" where
  "vm_push_frame_closure_from_values h x fn args =
     rbind (obj_of x fn) (\<lambda>ob.
       if obj_kind ob \<noteq> 2 then Inr None
       else
         rbind (function_at x fn) (\<lambda>fo.
           let fi = fo_func_index fo; bytecode_idx = fi - JELLO_NATIVE_BUILTIN_COUNT in
           if jello_is_native_builtin fi \<or> jello_is_jdll_prim fi \<or> m_nfuncs (x_m x) \<le> bytecode_idx then Inr None
           else rbind (vm_push_frame_entry h x bytecode_idx fn args) (\<lambda>x. Inr (Some x))))"

text \<open>The end of a run: the frames are gone, and after a run with a result so is the spill stack, with a collection that has the
  result as its only temporary root. The text of the stack trace after a trap is left out.\<close>

definition vm_unwind_all_frames :: "exec_ctx \<Rightarrow> exec_ctx" where
  "vm_unwind_all_frames x = x\<lparr>x_vm := (x_vm x)\<lparr>call_frames := []\<rparr>\<rparr>"

definition vm_finish_exec :: "exec_ctx \<Rightarrow> exec_status \<Rightarrow> exec_ctx run" where
  "vm_finish_exec x st =
     (let x = vm_unwind_all_frames x in
      if st \<noteq> JELLO_EXEC_OK then Inr x
      else
        (let vm = (x_vm x)\<lparr>spill := []\<rparr>; rooted = \<not> jello_is_null (x_out x) in
         case jello_gc_collect (if rooted then jello_gc_push_root vm (x_out x) else vm) of
           None \<Rightarrow> Inl FAULT
         | Some vm \<Rightarrow> if rooted then x_pop_roots (x\<lparr>x_vm := vm\<rparr>) 1 else Inr (x\<lparr>x_vm := vm\<rparr>)))"

definition idle :: "exec_ctx \<Rightarrow> exec_ctx" where
  "idle x = x\<lparr>x_vm := (x_vm x)\<lparr>running_module := False\<rparr>\<rparr>"

text \<open>A run of \<open>n\<close> rounds, once the first frame is there.\<close>

definition run_frames :: "host \<Rightarrow> nat \<Rightarrow> exec_ctx \<Rightarrow> (exec_ctx \<times> exec_status option) run" where
  "run_frames h n x =
     rbind (vm_rounds (loop_dispatch h) (h_malloc h) 0 n x) (\<lambda>(x, st).
       case st of
         None \<Rightarrow> Inr (x, None)
       | Some s \<Rightarrow> rbind (vm_finish_exec x s) (\<lambda>x. Inr (idle x, Some s)))"

definition jello_vm_exec_status_exports ::
  "host \<Rightarrow> nat \<Rightarrow> exec_ctx \<Rightarrow> jello_bc_module \<Rightarrow> u32 \<Rightarrow> jello_value option \<Rightarrow> (exec_ctx \<times> exec_status option) run" where
  "jello_vm_exec_status_exports h n x m entry_module_idx out_exports =
     (if m_nfuncs m \<le> m_entry m then Inl PANIC
      else
        (let x = (run_reset x m)\<lparr>x_out_exports := out_exports, x_entry_module_idx := entry_module_idx\<rparr> in
         rbind (push_entry h x (m_entry m)) (run_frames h n)))"

definition jello_vm_exec_status :: "host \<Rightarrow> nat \<Rightarrow> exec_ctx \<Rightarrow> jello_bc_module \<Rightarrow> (exec_ctx \<times> exec_status option) run" where
  "jello_vm_exec_status h n x m = jello_vm_exec_status_exports h n x m 0xFFFFFFFF None"

definition jello_vm_exec_status_chunk ::
  "host \<Rightarrow> nat \<Rightarrow> exec_ctx \<Rightarrow> jello_bc_module \<Rightarrow> u32 \<Rightarrow> jello_value list \<Rightarrow> u32 \<Rightarrow> jello_value option \<Rightarrow>
   (exec_ctx \<times> exec_status option) run" where
  "jello_vm_exec_status_chunk h n x m entry_func_index args entry_module_idx out_exports =
     (if m_nfuncs m \<le> entry_func_index then Inl PANIC
      else
        (let x = (run_reset x m)\<lparr>x_out_exports := out_exports, x_entry_module_idx := entry_module_idx\<rparr> in
         rbind (vm_push_frame_entry h x entry_func_index 0 args) (run_frames h n)))"

definition jello_vm_exec_status_closure ::
  "host \<Rightarrow> nat \<Rightarrow> exec_ctx \<Rightarrow> jello_bc_module \<Rightarrow> addr \<Rightarrow> jello_value list \<Rightarrow> (exec_ctx \<times> exec_status option) run" where
  "jello_vm_exec_status_closure h n x m fn args =
     (let x = (run_reset x m)\<lparr>x_out_exports := None, x_entry_module_idx := 0xFFFFFFFF\<rparr> in
      rbind (vm_push_frame_closure_from_values h x fn args) (\<lambda>r.
        case r of None \<Rightarrow> Inr (idle x, Some JELLO_EXEC_TRAP) | Some x \<Rightarrow> run_frames h n x))"

text \<open>\<^verbatim>\<open>jello_vm_exec\<close> panics when the run traps.\<close>

definition jello_vm_exec :: "host \<Rightarrow> nat \<Rightarrow> exec_ctx \<Rightarrow> jello_bc_module \<Rightarrow> (exec_ctx \<times> jello_value option) run" where
  "jello_vm_exec h n x m =
     rbind (jello_vm_exec_status h n (x\<lparr>x_out := jello_make_null\<rparr>) m) (\<lambda>(x, st).
       case st of
         None \<Rightarrow> Inr (x, None)
       | Some JELLO_EXEC_OK \<Rightarrow> Inr (x, Some (x_out x))
       | Some JELLO_EXEC_TRAP \<Rightarrow> Inl PANIC)"

section \<open>Steps that stay in a frame\<close>

definition shape_step :: "exec_ctx \<Rightarrow> (op_result \<times> exec_ctx) run \<Rightarrow> bool" where
  "shape_step x r \<longleftrightarrow> (\<forall>c x'. r = Inr (c, x') \<longrightarrow> same_shape (x_rf x) (x_rf x'))"

named_theorems shape_intros \<open>steps that keep the layout of the frame\<close>

lemma shape_rbind [shape_intros]: "(\<And>v. shape_step x (k v)) \<Longrightarrow> shape_step x (rbind r k)"
  by (cases r) (simp_all add: shape_step_def)

lemma store_shape:
  "vm_store_u32 rf r v = Inr rf' \<Longrightarrow> same_shape rf rf'" "vm_store_i64 rf r w = Inr rf' \<Longrightarrow> same_shape rf rf'"
  using write_at_shape by (auto simp: vm_store_u32_def vm_store_i64_def rbind_def split: sum.splits)

lemma shape_continue [shape_intros]:
  "shape_step x (continue_with x (vm_store_u32 (x_rf x) r v))" "shape_step x (continue_with x (vm_store_i64 (x_rf x) r w))"
  "shape_step x (continue_with x (vm_store_f32 (x_rf x) r v))" "shape_step x (continue_with x (vm_store_f64 (x_rf x) r w))"
  "shape_step x (continue_with x (vm_store_f16_bits (x_rf x) r u))" "shape_step x (continue_with x (vm_store_u32_masked (x_rf x) r v kd))"
  "shape_step x (continue_with x (vm_store_val (x_rf x) r w))"
  using store_shape
  by (auto simp: shape_step_def continue_with_def rbind_def set_rf_def load_store_defs split: sum.splits)

lemma shape_stop [shape_intros]: "shape_step x (Inl s)" "shape_step x (Inr (c, x))"
  by (simp_all add: shape_step_def)

lemma shape_checked [shape_intros]:
  "(\<And>v. shape_step x (continue_with x (st v))) \<Longrightarrow> shape_step x (store_checked x (vm_checked_f64_to_i32 x w) st)"
  "(\<And>v. shape_step x (continue_with x (st' v))) \<Longrightarrow> shape_step x (store_checked x (vm_checked_f64_to_i64 x w) st')"
  by (auto simp: store_checked_def vm_checked_f64_to_i32_def vm_checked_f64_to_i64_def shape_step_def conversion_trap_def
      Let_def rbind_def split: sum.splits if_splits)

lemma numeric_steps_shape:
  assumes "map_of (numeric_table fp) op = Some h"
  shows "shape_step x (h x ins)"
  using map_of_SomeD [OF assms(1)] unfolding numeric_table_def list.set
  by (elim insertE emptyE)
    (simp only: prod.inject, (simp only: op32_defs opf_defs op64_defs partial_defs macro_defs)?, intro shape_intros)+

text \<open>A step goes on in the same frame at the program counter \<open>pc\<close>, or leaves an exception pending.\<close>

definition moves :: "exec_ctx \<Rightarrow> (u32 \<Rightarrow> bool) \<Rightarrow> (op_result \<times> exec_ctx) run \<Rightarrow> bool" where
  "moves x P r \<longleftrightarrow> (\<exists>c x' rf pc. r = Inr (c, x') \<and> c \<noteq> OP_RETURN \<and> x_m x' = x_m x \<and> x_below x' = x_below x \<and>
     x_exc_handlers x' = x_exc_handlers x \<and> x_fr x' = (x_fr x)\<lparr>cf_rf := rf, cf_pc := pc\<rparr> \<and> same_shape (x_rf x) rf \<and>
     (P pc \<or> x_exc_pending x' \<and> pc = x_pc x))"

lemma moves_store:
  assumes "continue_with x st = Inr (c, x')" "shape_step x (continue_with x st)" "P (x_pc x)"
  shows "moves x P (continue_with x st)"
proof -
  obtain rf where rf: "st = Inr rf" "c = OP_CONTINUE" "x' = set_rf x rf" using assms(1) by (cases st) (auto simp: continue_with_def)
  then have "same_shape (x_rf x) rf" using assms(2) by (simp add: shape_step_def continue_with_def set_rf_def)
  then show ?thesis using rf assms(3) unfolding moves_def
    by (intro exI [of _ OP_CONTINUE] exI [of _ "set_rf x rf"] exI [of _ rf] exI [of _ "x_pc x"]) (simp add: continue_with_def set_rf_def)
qed

lemma moves_u32:
  assumes "ctx_ok x" "has_reg x a" "P (x_pc x)"
  shows "moves x P (continue_with x (vm_store_u32 (x_rf x) (unat a) v))"
proof -
  obtain rf where "vm_store_u32 (x_rf x) (unat a) v = Inr rf"
    using store_u32_ok [OF ctx_ok_frame [OF assms(1)]] assms(1,2) by (metis ctx_ok_length has_reg_def length_fun_kinds)
  then have "continue_with x (vm_store_u32 (x_rf x) (unat a) v) = Inr (OP_CONTINUE, set_rf x rf)" by (simp add: continue_with_def)
  then show ?thesis by (rule moves_store) (rule shape_continue, rule assms(3))
qed

lemma moves_i64:
  assumes "ctx_ok x" "wide x a" "P (x_pc x)"
  shows "moves x P (continue_with x (vm_store_i64 (x_rf x) (unat a) v))"
proof -
  obtain rf where "vm_store_i64 (x_rf x) (unat a) v = Inr rf"
    using store_i64_ok [OF ctx_ok_frame [OF assms(1)]] assms(1,2) by (metis ctx_ok_length has_reg_def length_fun_kinds wide_def)
  then have "continue_with x (vm_store_i64 (x_rf x) (unat a) v) = Inr (OP_CONTINUE, set_rf x rf)" by (simp add: continue_with_def)
  then show ?thesis by (rule moves_store) (rule shape_continue, rule assms(3))
qed


section \<open>Typed code\<close>

text \<open>The opcodes that neither allocate nor leave the function, without the numeric ones that C does not define for all
  operands.\<close>

definition const_ops :: "nat set" where
  "const_ops = {JOP_CONST_I32, JOP_CONST_I8_IMM, JOP_CONST_BOOL, JOP_CONST_NULL, JOP_CONST_ATOM, JOP_CONST_F16, JOP_CONST_F32,
     JOP_CONST_I64, JOP_CONST_F64}"

definition total_ops :: "nat set" where
  "total_ops = ops32 \<union> ops32_2 \<union> ops64 \<union> ops64_2 \<union> ops_cmp64 \<union> ops_widening \<union> ops_narrowing - ops_partial -
     {JOP_DIV_I32, JOP_MOD_I32, JOP_DIV_I64, JOP_MOD_I64, JOP_ADD_I32_IMM, JOP_SUB_I32_IMM}"

definition plain_ops :: "nat set" where
  "plain_ops = const_ops \<union> total_ops \<union> {JOP_NOP, JOP_JMP, JOP_JMP_IF, JOP_MOV}"

text \<open>Where the code goes on after the instruction at \<open>pc\<close>: never behind its end.\<close>

definition next_ok :: "jello_bc_function \<Rightarrow> u32 \<Rightarrow> jello_insn \<Rightarrow> bool" where
  "next_ok f pc ins \<longleftrightarrow>
     (i_opc ins \<in> {JOP_JMP, JOP_JMP_IF} \<longrightarrow> unat (pc + 1 + i_imm ins) < length (f_insns f)) \<and>
     (i_opc ins \<notin> {JOP_JMP, JOP_RET} \<longrightarrow> unat pc + 1 < length (f_insns f))"

definition typed_call :: "jello_bc_module \<Rightarrow> (nat \<Rightarrow> u32) \<Rightarrow> jello_bc_function \<Rightarrow> jello_insn \<Rightarrow> bool" where
  "typed_call m rt f ins \<longleftrightarrow>
     (let idx = i_imm ins - JELLO_NATIVE_BUILTIN_COUNT in
      \<not> jello_is_native_builtin (i_imm ins) \<and> unat idx < length (m_funcs m) \<and>
      args_match m f (m_funcs m ! unat idx) (unat (i_b ins)) (unat (i_c ins)) \<and> f_reg_types f ! unat (i_a ins) = rt (unat idx))"

text \<open>\<open>rt i\<close> is the type that the function with index \<open>i\<close> returns.\<close>

definition typed_insn :: "jello_bc_module \<Rightarrow> (nat \<Rightarrow> u32) \<Rightarrow> nat \<Rightarrow> u32 \<Rightarrow> jello_insn \<Rightarrow> bool" where
  "typed_insn m rt i pc ins \<longleftrightarrow>
     (let f = m_funcs m ! i in
      jello_bc_validate_insn m (f_reg_types f) ins (f_nregs f) pc (f_ninsns f) (m_nfuncs m) = ok \<and> next_ok f pc ins \<and>
      (i_opc ins \<in> plain_ops \<or> i_opc ins = JOP_RET \<and> f_reg_types f ! unat (i_a ins) = rt i \<or>
       i_opc ins = JOP_CALL \<and> typed_call m rt f ins))"

definition typed_function :: "jello_bc_module \<Rightarrow> (nat \<Rightarrow> u32) \<Rightarrow> nat \<Rightarrow> bool" where
  "typed_function m rt i \<longleftrightarrow>
     (let f = m_funcs m ! i in
      fn_ok m f \<and> unat (f_ninsns f) = length (f_insns f) \<and> f_insns f \<noteq> [] \<and> length (f_insns f) < 2 ^ 31 \<and>
      (\<forall>pc<length (f_insns f). typed_insn m rt i (of_nat pc) (f_insns f ! pc)))"

definition typed_module :: "jello_bc_module \<Rightarrow> (nat \<Rightarrow> u32) \<Rightarrow> bool" where
  "typed_module m rt \<longleftrightarrow> unat (m_nfuncs m) = length (m_funcs m) \<and> unat (m_nconst_i64 m) = length (m_const_i64 m) \<and>
     unat (m_nconst_f64 m) = length (m_const_f64 m) \<and> (\<forall>i<length (m_funcs m). typed_function m rt i)"

section \<open>Plain instructions\<close>

lemma accepted_const:
  assumes "ctx_ok x" "accepted x ins pc" "i_opc ins \<in> const_ops"
  shows "has_reg x (i_a ins)" "i_opc ins \<in> {JOP_CONST_NULL, JOP_CONST_I64, JOP_CONST_F64} \<Longrightarrow> wide x (i_a ins)"
    "i_opc ins = JOP_CONST_I64 \<Longrightarrow> i_imm ins < m_nconst_i64 (x_m x)" "i_opc ins = JOP_CONST_F64 \<Longrightarrow> i_imm ins < m_nconst_f64 (x_m x)"
  using assms(2,3) unfolding const_ops_def
  by (elim insertE emptyE; auto simp: accepted_simps not_le simp del: oor_iff intro: wideI [OF assms(1)])+

lemma const_moves:
  assumes c: "ctx_ok x" and a: "accepted x ins pc" and h: "map_of control_table (i_opc ins) = Some h" and o: "i_opc ins \<in> const_ops"
    and p: "unat (m_nconst_i64 (x_m x)) = length (m_const_i64 (x_m x))" "unat (m_nconst_f64 (x_m x)) = length (m_const_f64 (x_m x))"
    and P: "P (x_pc x)"
  shows "moves x P (h x ins)"
proof -
  note r = accepted_const [OF c a o]
  have pool: "i_opc ins = JOP_CONST_I64 \<Longrightarrow> pool_at (m_const_i64 (x_m x)) (i_imm ins) = Inr (m_const_i64 (x_m x) ! unat (i_imm ins))"
    "i_opc ins = JOP_CONST_F64 \<Longrightarrow> pool_at (m_const_f64 (x_m x)) (i_imm ins) = Inr (m_const_f64 (x_m x) ! unat (i_imm ins))"
    using r(3,4) p by (simp_all add: pool_at_def word_less_nat_alt)
  note st = moves_u32 [where P = P and x = x, OF c _ P] moves_i64 [where P = P and x = x, OF c _ P]
  show ?thesis using o h r(1,2) pool st unfolding const_ops_def
    by (elim insertE emptyE) (auto simp: control_table_def control_defs load_store_defs)
qed

lemma accepted_mov:
  assumes "ctx_ok x" "accepted x ins pc" "i_opc ins = JOP_MOV"
  shows "has_reg x (i_a ins)" "has_reg x (i_b ins)" "jello_slot_size (x_kinds x ! unat (i_a ins)) = jello_slot_size (x_kinds x ! unat (i_b ins))"
proof -
  let ?ts = "f_reg_types (x_f x)"
  have r: "has_reg x (i_a ins)" "has_reg x (i_b ins)"
    and t: "?ts ! unat (i_a ins) = ?ts ! unat (i_b ins) \<or> rk (x_m x) ?ts (i_a ins) = rk (x_m x) ?ts (i_b ins) \<or>
      slot_size (x_m x) (?ts ! unat (i_a ins)) = slot_size (x_m x) (?ts ! unat (i_b ins))"
    using assms(2,3) by (auto simp: accepted_simps simp del: oor_iff split: if_splits)
  then show "has_reg x (i_a ins)" "has_reg x (i_b ins)" by simp_all
  show "jello_slot_size (x_kinds x ! unat (i_a ins)) = jello_slot_size (x_kinds x ! unat (i_b ins))"
    using t rk_kinds [OF assms(1) r(1)] rk_kinds [OF assms(1) r(2)] by (auto simp: rk_def slot_size_def)
qed

lemma mov_moves:
  assumes c: "ctx_ok x" and a: "accepted x ins pc" and o: "i_opc ins = JOP_MOV" and P: "P (x_pc x)"
  shows "moves x P (op_mov x ins)"
proof -
  note r = accepted_mov [OF c a o]
  let ?ks = "x_kinds x" and ?a = "unat (i_a ins)" and ?b = "unat (i_b ins)"
  have l: "?a < length ?ks" "?b < length ?ks" using r c by (simp_all add: has_reg_def ctx_ok_length)
  have f: "frame_ok ?ks (x_rf x)" using c by (simp add: ctx_ok_def)
  have k: "vm_reg_kind (x_m x) (x_f x) ?a = Inr (?ks ! ?a)" using c l(1) by (auto simp: ctx_ok_def vm_reg_kind_def fun_kinds_def)
  have len: "length (reg_bytes ?ks (x_rf x) ?b) = jello_slot_size (?ks ! ?a)" using f l r(3) by simp
  obtain rf where rf: "write_slot_bytes (x_rf x) ?a (reg_bytes ?ks (x_rf x) ?b) = Inr rf" "same_shape (x_rf x) rf"
    by (rule write_slot_bytes_ok [OF f l(1) len])
  have "op_mov x ins = rbind (read_slot (?ks ! ?b) (x_rf x) ?b) (\<lambda>bs. continue_with x (write_slot_bytes (x_rf x) ?a bs))"
    using l f r(3) by (simp add: op_mov_def k read_slot_def write_slot_bytes_def vm_reg_ptr_def frame_ok_def rbind_assoc)
  then have "op_mov x ins = Inr (OP_CONTINUE, set_rf x rf)"
    using read_slot_ok [OF f l(2)] rf(1) by (simp add: continue_with_def)
  then show ?thesis using rf(2) P unfolding moves_def
    by (intro exI [of _ OP_CONTINUE] exI [of _ "set_rf x rf"] exI [of _ rf] exI [of _ "x_pc x"]) (simp add: set_rf_def)
qed

lemma numeric_moves:
  assumes c: "ctx_ok x" and a: "accepted x ins pc" and h: "map_of (numeric_table fp) (i_opc ins) = Some h" and o: "i_opc ins \<notin> ops_partial"
    and P: "P (x_pc x)"
  shows "moves x P (h x ins)"
  using numeric_step [OF c a h o] numeric_steps_shape [OF h, of x ins] P unfolding reg_step_def
proof (elim disjE exE conjE)
  fix rf assume "h x ins = Inr (OP_CONTINUE, set_rf x rf)"
  then show ?thesis using numeric_steps_shape [OF h, of x ins] P unfolding moves_def
    by (intro exI [of _ OP_CONTINUE] exI [of _ "set_rf x rf"] exI [of _ rf] exI [of _ "x_pc x"]) (simp add: set_rf_def shape_step_def)
next
  fix msg assume "h x ins = Inr (OP_CONTINUE, conversion_trap x msg)"
  then show ?thesis using P unfolding moves_def
    by (intro exI [of _ OP_CONTINUE] exI [of _ "conversion_trap x msg"] exI [of _ "x_rf x"] exI [of _ "x_pc x"]) (simp add: conversion_trap_def)
qed

lemma jump_target_in:
  assumes "unat (x_pc x + d) < n" "unat (f_ninsns (x_f x)) = n" "n < 2 ^ 31"
  shows "jump_target x d = Inr (x_pc x + d)"
proof -
  have "sint (x_pc x + d) = int (unat (x_pc x + d))" "sint (f_ninsns (x_f x)) = int n"
    using assms by (intro sint_small, linarith, metis sint_small)
  moreover have "int (unat (x_pc x + d)) < int n" using assms(1) by (simp only: of_nat_less_iff)
  ultimately have "\<not> (sint (x_pc x + d) < 0 \<or> sint (f_ninsns (x_f x)) < sint (x_pc x + d))" by linarith
  then show ?thesis by (simp only: jump_target_def Let_def if_False)
qed

lemma jmp_moves:
  assumes "unat (x_pc x + i_imm ins) < n" "unat (f_ninsns (x_f x)) = n" "n < 2 ^ 31" "P (x_pc x + i_imm ins)"
  shows "moves x P (op_jmp x ins)"
proof -
  have "op_jmp x ins = Inr (OP_CONTINUE, set_pc x (x_pc x + i_imm ins)) \<or> 
     op_jmp x ins = Inr (OP_CONTINUE, set_pc (fuel_spent x) (x_pc x + i_imm ins)) \<or>
     op_jmp x ins = Inr (OP_TRAP, jello_vm_trap x JELLO_TRAP_FUEL (Some ''instruction limit exceeded''))"
    using jump_target_in [OF assms(1-3)] by (auto simp: op_jmp_def jello_vm_fuel_charge_def fuel_spent_def)
  then show ?thesis
  proof (elim disjE)
    assume "op_jmp x ins = Inr (OP_CONTINUE, set_pc x (x_pc x + i_imm ins))"
    then show ?thesis using assms(4) unfolding moves_def
      by (intro exI [of _ OP_CONTINUE] exI [of _ "set_pc x (x_pc x + i_imm ins)"] exI [of _ "x_rf x"] exI [of _ "x_pc x + i_imm ins"])
        (simp add: set_pc_def)
  next
    assume "op_jmp x ins = Inr (OP_CONTINUE, set_pc (fuel_spent x) (x_pc x + i_imm ins))"
    then show ?thesis using assms(4) unfolding moves_def
      by (intro exI [of _ OP_CONTINUE] exI [of _ "set_pc (fuel_spent x) (x_pc x + i_imm ins)"] exI [of _ "x_rf x"] exI [of _ "x_pc x + i_imm ins"])
        (simp add: set_pc_def fuel_spent_def)
  next
    assume "op_jmp x ins = Inr (OP_TRAP, jello_vm_trap x JELLO_TRAP_FUEL (Some ''instruction limit exceeded''))"
    then show ?thesis unfolding moves_def
      by (intro exI [of _ OP_TRAP] exI [of _ "jello_vm_trap x JELLO_TRAP_FUEL (Some ''instruction limit exceeded'')"] exI [of _ "x_rf x"] exI [of _ "x_pc x"])
        (simp add: jello_vm_trap_def)
  qed
qed

lemma jmp_if_moves:
  assumes "ctx_ok x" "has_reg x (i_a ins)" "unat (x_pc x + i_imm ins) < n" "unat (f_ninsns (x_f x)) = n" "n < 2 ^ 31"
    "P (x_pc x + i_imm ins)" "P (x_pc x)"
  shows "moves x P (op_jmp_if x ins)"
proof -
  obtain v where v: "vm_load_u32 (x_rf x) (unat (i_a ins)) = Inr v"
    using load_u32_ok [OF ctx_ok_frame [OF assms(1)]] assms(1,2) by (metis ctx_ok_length has_reg_def length_fun_kinds)
  define pc where "pc = (if v \<noteq> 0 then x_pc x + i_imm ins else x_pc x)"
  have "op_jmp_if x ins = Inr (OP_CONTINUE, set_pc x pc)"
    using jump_target_in [OF assms(3-5)] v by (simp add: op_jmp_if_def pc_def set_pc_def)
  then show ?thesis using assms(6,7) unfolding moves_def
    by (intro exI [of _ OP_CONTINUE] exI [of _ "set_pc x pc"] exI [of _ "x_rf x"] exI [of _ pc]) (simp add: set_pc_def pc_def)
qed

section \<open>Runs of typed code\<close>

text \<open>A frame of a function of the module, at an instruction of it, without handlers; and the frames of a run, the top one first: the
  register that waits for the result of a call has the type that the callee returns.\<close>

definition live_frame :: "jello_bc_module \<Rightarrow> call_frame \<Rightarrow> bool" where
  "live_frame m fr \<longleftrightarrow> frame_fits m fr \<and> unat (cf_pc fr) < length (f_insns (cf_f fr)) \<and> cf_exc_base fr = 0"

definition awaits :: "(nat \<Rightarrow> u32) \<Rightarrow> call_frame \<Rightarrow> call_frame \<Rightarrow> bool" where
  "awaits rt c fr \<longleftrightarrow> cf_has_caller fr \<and> unat (cf_caller_dst fr) < length (f_reg_types (cf_f c)) \<and>
     f_reg_types (cf_f c) ! unat (cf_caller_dst fr) = rt (unat (cf_idx fr))"

fun chain :: "jello_bc_module \<Rightarrow> (nat \<Rightarrow> u32) \<Rightarrow> nat \<Rightarrow> call_frame list \<Rightarrow> bool" where
  "chain m rt e [] = False"
| "chain m rt e [fr] \<longleftrightarrow> live_frame m fr \<and> \<not> cf_has_caller fr \<and> unat (cf_idx fr) = e"
| "chain m rt e (fr # c # frs) \<longleftrightarrow> live_frame m fr \<and> awaits rt c fr \<and> chain m rt e (c # frs)"

definition run_ok :: "jello_bc_module \<Rightarrow> (nat \<Rightarrow> u32) \<Rightarrow> nat \<Rightarrow> exec_ctx \<Rightarrow> bool" where
  "run_ok m rt e x \<longleftrightarrow> x_m x = m \<and> x_exc_handlers x = [] \<and> (x_exc_pending x \<or> chain m rt e (x_fr x # rev (x_below x)))"

lemma frame_fits_pc [simp]: "frame_fits m (fr\<lparr>cf_pc := q\<rparr>) = frame_fits m fr" by (simp add: frame_fits_def)

lemma chain_top: "chain m rt e (fr # frs) \<Longrightarrow> live_frame m fr" by (cases frs) simp_all

lemma chain_caller: "chain m rt e (fr # frs) \<Longrightarrow> cf_has_caller fr \<longleftrightarrow> frs \<noteq> []" by (cases frs) (simp_all add: awaits_def)

lemma chain_update:
  assumes "chain m rt e (fr # frs)" "live_frame m fr'" "cf_idx fr' = cf_idx fr" "cf_has_caller fr' = cf_has_caller fr"
    "cf_caller_dst fr' = cf_caller_dst fr"
  shows "chain m rt e (fr' # frs)"
  using assms by (cases frs) (simp_all add: awaits_def)

lemma live_moved:
  assumes "live_frame m fr" "same_shape (cf_rf fr) rf" "unat pc < length (f_insns (cf_f fr))"
  shows "live_frame m (fr\<lparr>cf_rf := rf, cf_pc := pc\<rparr>)"
  using assms laid_out_shape by (auto simp: live_frame_def frame_fits_def)

lemma live_ctx: "live_frame (x_m x) (x_fr x) \<Longrightarrow> ctx_ok x"
  using laid_out_frame by (auto simp: live_frame_def frame_fits_def ctx_ok_def fn_ok_def)

lemma all_regs_ok: "frame_ok ks rf \<Longrightarrow> frame_regs_ok UNIV ks rf"
  by (simp add: frame_regs_ok_def reg_ok_def val_ok_def ptr_ok_def)

text \<open>What a round does to the frames, the exception check apart.\<close>

definition goes_on :: "jello_bc_module \<Rightarrow> (nat \<Rightarrow> u32) \<Rightarrow> nat \<Rightarrow> (op_result \<times> exec_ctx) run \<Rightarrow> bool" where
  "goes_on m rt e r \<longleftrightarrow> (\<exists>c x'. r = Inr (c, x') \<and> (c \<noteq> OP_RETURN \<longrightarrow> run_ok m rt e x'))"

lemma moves_goes_on:
  assumes m: "x_m x = m" "x_exc_handlers x = []" and c: "chain m rt e ((x_fr x)\<lparr>cf_pc := q\<rparr> # rev (x_below x))"
    and mv: "moves x (\<lambda>pc. unat pc < length (f_insns (x_f x))) r"
  shows "goes_on m rt e r"
proof -
  obtain a x' rf pc where r: "r = Inr (a, x')" "x_m x' = x_m x" "x_below x' = x_below x" "x_exc_handlers x' = x_exc_handlers x"
      "x_fr x' = (x_fr x)\<lparr>cf_rf := rf, cf_pc := pc\<rparr>" "same_shape (x_rf x) rf"
      "unat pc < length (f_insns (x_f x)) \<or> x_exc_pending x'"
    using mv unfolding moves_def by blast
  have "chain m rt e (x_fr x' # rev (x_below x'))" if "unat pc < length (f_insns (x_f x))"
    using chain_update [OF c live_moved [OF chain_top [OF c], of rf pc]] that r(3,5,6) by simp
  then have "run_ok m rt e x'" using r m by (auto simp: run_ok_def)
  then show ?thesis using r(1) by (simp add: goes_on_def)
qed

lemma call_goes_on:
  assumes m: "x_m x = m" "x_exc_handlers x = []" and c: "chain m rt e (x_fr x # rev (x_below x))"
    and st: "\<forall>n. length (stale n) = n" and n: "unat (m_nfuncs m) = length (m_funcs m)"
    and fs: "\<forall>i<length (m_funcs m). fn_ok m (m_funcs m ! i) \<and> f_insns (m_funcs m ! i) \<noteq> []"
    and t: "typed_call m rt (x_f x) ins" and a: "unat (i_a ins) < length (f_reg_types (x_f x))"
  shows "goes_on m rt e (hot_call stale fp malloc native x ins)"
proof (cases "jello_vm_fuel_charge x")
  case (Inl y)
  then have "run_ok m rt e y" using m by (auto simp: jello_vm_fuel_charge_def jello_vm_trap_def run_ok_def Let_def split: if_splits)
  then show ?thesis using Inl by (simp add: hot_call_def goes_on_def)
next
  case (Inr y)
  let ?idx = "i_imm ins - JELLO_NATIVE_BUILTIN_COUNT" and ?f = "x_f x"
  let ?args = "args_match m ?f (m_funcs m ! unat ?idx) (unat (i_b ins)) (unat (i_c ins))"
  have y: "y = fuel_spent x" using Inr by (auto simp: jello_vm_fuel_charge_def fuel_spent_def split: if_splits)
  have ys: "x_m y = m" "x_fr y = x_fr x" "x_below y = x_below x" "x_exc_handlers y = []" using m by (auto simp: y fuel_spent_def)
  have i: "\<not> jello_is_native_builtin (i_imm ins)" "unat ?idx < length (m_funcs m)" ?args
      "f_reg_types ?f ! unat (i_a ins) = rt (unat ?idx)" using t by (simp_all add: typed_call_def Let_def)
  have fit: "frame_fits m (x_fr x)" using chain_top [OF c] by (simp add: live_frame_def)
  then have f: "fn_ok m ?f" "laid_out m ?f (x_rf x)" unfolding frame_fits_def by blast+
  have g: "\<not> m_nfuncs (x_m y) \<le> ?idx" "\<not> unat (rf_nregs (x_rf y)) < unat (i_b ins) + unat (i_c ins)"
    using i(2,3) n f layout_nregs [OF f] ys by (auto simp: word_le_nat_alt args_match_def fn_ok_def)
  have run: "hot_call stale fp malloc native x ins =
    rbind (vm_push_frame stale fp malloc y ?idx (ucast (i_a ins)) (unat (i_b ins)) (unat (i_c ins)) 0) (\<lambda>(x, ok).
               Inr (if ok then OP_CONTINUE else OP_TRAP, x))"
    if "\<not> overflows y"
    using Inr i(1) g push_self [OF that, of ?idx "unat (i_c ins)" stale fp malloc "ucast (i_a ins)" "unat (i_b ins)"] that
    by (auto simp: hot_call_def and_continue_def rbind_assoc Let_def overflows_def not_le)
  show ?thesis
  proof (cases "overflows y")
    case True
    then have "\<not> (x_call_frames_max y = 0 \<or> call_frames_len y < x_call_frames_max y)" by (auto simp: overflows_def)
    then have "hot_call stale fp malloc native x ins = Inr (OP_TRAP, stack_overflow y)"
      using Inr i(1) g True by (auto simp: hot_call_def vm_push_frame_def overflows_def)
    moreover have "run_ok m rt e (stack_overflow y)" using ys by (simp add: run_ok_def stack_overflow_def jello_vm_trap_def)
    ultimately show ?thesis by (simp add: goes_on_def)
  next
    case False
    have cal: "callable y ?idx" using False ys fit i(2) fs by (auto simp: callable_def overflows_def)
    have src: "frame_regs_ok UNIV (x_kinds y) (x_rf y)" using all_regs_ok [OF laid_out_frame [OF f]] ys by simp
    obtain fr where fr: "vm_push_frame stale fp malloc y ?idx (ucast (i_a ins)) (unat (i_b ins)) (unat (i_c ins)) 0 = Inr (push_frame y fr, True)"
        "new_callee UNIV y ?idx (ucast (i_a ins)) (unat (i_b ins)) (unat (i_c ins)) fr"
      using push_frame_frame [OF src cal st, of "unat (i_b ins)" "unat (i_c ins)" fp malloc "ucast (i_a ins)"] i(3) ys by auto
    have "live_frame m fr" using fr(2) ys fs i(2) by (auto simp: new_callee_def live_frame_def frame_fits_def)
    moreover have "awaits rt (x_fr x) fr" using fr(2) i(4) a by (simp add: new_callee_def awaits_def)
    ultimately have "run_ok m rt e (push_frame y fr)" using c ys by (simp add: run_ok_def push_frame_def)
    then show ?thesis using run [OF False] fr(1) by (simp add: goes_on_def)
  qed
qed

lemma ret_goes_on:
  assumes m: "x_m x = m" "x_exc_handlers x = []" and c: "chain m rt e ((x_fr x)\<lparr>cf_pc := q\<rparr> # rev (x_below x))"
    and a: "unat (i_a ins) < length (f_reg_types (x_f x))" "f_reg_types (x_f x) ! unat (i_a ins) = rt (unat (cf_idx (x_fr x)))"
    and flat: "te_kind (m_types m ! unat (rt e)) \<notin> {JELLO_T_F16, JELLO_T_F32, JELLO_T_I64, JELLO_T_F64}"
  shows "goes_on m rt e (hot_ret fp malloc x ins)"
proof (cases "rev (x_below x)")
  case Nil
  let ?x = "x\<lparr>x_exc_handlers := []\<rparr>"
  have l: "frame_fits m (x_fr x)" "cf_exc_base (x_fr x) = 0" "\<not> cf_has_caller (x_fr x)" "unat (cf_idx (x_fr x)) = e"
    using c Nil by (simp_all add: live_frame_def)
  then have fc: "frame_ctx_ok (x_m ?x) (x_fr x)" using m laid_out_frame by (auto simp: frame_fits_def frame_ctx_ok_def fn_ok_def)
  have "fun_kinds m (x_f x) ! unat (i_a ins) = te_kind (m_types m ! unat (rt e))" using a l(4) by (simp add: fun_kinds_def)
  then have "\<exists>v. vm_box_from_typed malloc ?x (x_f x) (x_rf x) (unat (i_a ins)) = Inr (?x, v)"
    using box_from_typed_run [OF fc, of "unat (i_a ins)" malloc] a flat m by (cases "te_kind (m_types m ! unat (rt e))") auto
  then show ?thesis using l m by (auto simp: hot_ret_def goes_on_def Let_def)
next
  case (Cons p frs)
  then have b: "x_below x \<noteq> []" "last (x_below x) = p" "rev (butlast (x_below x)) = frs" 
    by (auto simp: rev_swap)
  have l: "frame_fits m (x_fr x)" "awaits rt p (x_fr x)" "chain m rt e (p # frs)" "cf_exc_base (x_fr x) = 0"
    using c Cons by (simp_all add: live_frame_def awaits_def)
  have f: "fn_ok m (x_f x)" "laid_out m (x_f x) (x_rf x)" "fn_ok m (cf_f p)" "laid_out m (cf_f p) (cf_rf p)"
    using l(1) chain_top [OF l(3)] unfolding live_frame_def frame_fits_def by blast+
  let ?dst = "unat (cf_caller_dst (x_fr x))" and ?ks = "fun_kinds m (cf_f p)"
  have d: "?dst < length (f_reg_types (cf_f p))" "f_reg_types (cf_f p) ! ?dst = f_reg_types (x_f x) ! unat (i_a ins)"
    using l(2) a by (simp_all add: awaits_def)
  have k: "x_kinds x ! unat (i_a ins) = ?ks ! ?dst" using d a m by (simp add: fun_kinds_def)
  obtain rf where rf: "changes_in ?ks {?dst} (cf_rf p) rf"
    "return_value fp malloc (x\<lparr>x_exc_handlers := []\<rparr>) (i_a ins) True =
      Inr (OP_CONTINUE, x\<lparr>x_below := butlast (x_below x), x_fr := p\<lparr>cf_rf := rf\<rparr>, x_exc_handlers := []\<rparr>)"
    using return_run [OF b(1), of "i_a ins" ?dst ?ks fp malloc "[]"] fn_kind [OF f(1) a(1)] laid_out_frame [OF f(1,2)]
      laid_out_frame [OF f(3,4)] a d k m b(2) by auto
  have "chain m rt e (p\<lparr>cf_rf := rf\<rparr> # frs)"
    using chain_update [OF l(3) live_moved [OF chain_top [OF l(3)], of rf "cf_pc p"]] chain_top [OF l(3)] rf(1)
    by (simp add: changes_in_def live_frame_def)
  moreover have "hot_ret fp malloc x ins = return_value fp malloc (x\<lparr>x_exc_handlers := []\<rparr>) (i_a ins) True"
    using l(2,4) b a d m by (simp add: hot_ret_def Let_def awaits_def reg_type_at_def)
  ultimately show ?thesis using rf(2) b(3) m by (simp add: goes_on_def run_ok_def)
qed

lemmas op_group_defs = ops32_def ops32_2_def ops64_def ops64_2_def ops_cmp64_def ops_widening_def ops_narrowing_def

lemma total_handlers:
  assumes "op \<in> total_ops"
  obtains f where "map_of (numeric_table fp) op = Some f" "map_of control_table op = None"
  using assms unfolding total_ops_def op_group_defs ops_partial_def
  by (elim DiffE UnE insertE emptyE) (simp_all add: numeric_table_def control_table_def)

lemma const_handlers:
  assumes "op \<in> const_ops"
  obtains f where "map_of control_table op = Some f"
  using assms unfolding const_ops_def by (elim insertE emptyE) (simp_all add: control_table_def)

lemma plain_dispatch:
  assumes "op_dispatch (h_fpu h) op = Some f" "op \<notin> fst ` set (call_table h)" "op \<notin> {JOP_ADD_I32_IMM, JOP_SUB_I32_IMM}"
  shows "loop_dispatch h op = f"
proof -
  have "map_of (hot_calls h) op = None" using assms(2) by (auto simp: map_of_eq_None_iff hot_calls_def call_table_def)
  moreover have "map_of (call_table h) op = None" using assms(2) by (simp add: map_of_eq_None_iff)
  moreover have "map_of (hot_table (h_fpu h)) op \<in> {None, Some f}"
    using hot_table_handlers [of "h_fpu h" op] assms(1,3) by (cases "map_of (hot_table (h_fpu h)) op") auto
  ultimately show ?thesis using assms(1)
    by (auto simp: loop_dispatch_def vm_dispatch_def op_dispatch_def map_add_def split: option.splits)
qed

lemma plain_not_call: "op \<in> plain_ops \<Longrightarrow> op \<notin> fst ` set (call_table h) \<and> op \<notin> {JOP_ADD_I32_IMM, JOP_SUB_I32_IMM}"
  unfolding plain_ops_def const_ops_def total_ops_def op_group_defs call_table_def
  by (elim DiffE UnE insertE emptyE) simp_all

lemma jump_accepted:
  assumes "accepted x ins pc" "i_opc ins = JOP_JMP_IF"
  shows "has_reg x (i_a ins)"
  using assms by (auto simp: accepted_simps simp del: oor_iff split: if_splits)

lemma typed_at:
  assumes t: "typed_module m rt" and l: "live_frame m fr"
  shows "typed_insn m rt (unat (cf_idx fr)) (cf_pc fr) (f_insns (cf_f fr) ! unat (cf_pc fr))"
    "unat (f_ninsns (cf_f fr)) = length (f_insns (cf_f fr))" "length (f_insns (cf_f fr)) < 2 ^ 31"
proof -
  have f: "unat (cf_idx fr) < length (m_funcs m)" "cf_f fr = m_funcs m ! unat (cf_idx fr)" "unat (cf_pc fr) < length (f_insns (cf_f fr))"
    using l unfolding live_frame_def frame_fits_def by blast+
  have t': "typed_function m rt (unat (cf_idx fr))" using t f(1) by (simp add: typed_module_def)
  from t' show "unat (f_ninsns (cf_f fr)) = length (f_insns (cf_f fr))" "length (f_insns (cf_f fr)) < 2 ^ 31"
    by (simp_all add: typed_function_def Let_def f(2))
  from t' f(3) have "typed_insn m rt (unat (cf_idx fr)) (of_nat (unat (cf_pc fr))) (f_insns (cf_f fr) ! unat (cf_pc fr))"
    unfolding typed_function_def Let_def f(2) by blast
  then show "typed_insn m rt (unat (cf_idx fr)) (cf_pc fr) (f_insns (cf_f fr) ! unat (cf_pc fr))" by simp
qed

lemma plain_moves:
  assumes t: "typed_module m rt" and m: "x_m x = m" and c: "ctx_ok x" and a: "accepted x ins pc"
    and o: "i_opc ins \<in> plain_ops" and n: "unat (f_ninsns (x_f x)) = n" "n < 2 ^ 31"
    and j: "i_opc ins \<in> {JOP_JMP, JOP_JMP_IF} \<Longrightarrow> unat (x_pc x + i_imm ins) < n" and s: "i_opc ins \<noteq> JOP_JMP \<Longrightarrow> unat (x_pc x) < n"
  shows "moves x (\<lambda>pc. unat pc < n) (loop_dispatch h (i_opc ins) x ins)"
proof -
  have p: "loop_dispatch h (i_opc ins) = f" if "op_dispatch (h_fpu h) (i_opc ins) = Some f" for f
    using plain_dispatch [OF that] plain_not_call [OF o, of h] by blast
  consider (const) "i_opc ins \<in> const_ops" | (total) "i_opc ins \<in> total_ops" | (nop) "i_opc ins = JOP_NOP" | (jmp) "i_opc ins = JOP_JMP"
    | (jmp_if) "i_opc ins = JOP_JMP_IF" | (mov) "i_opc ins = JOP_MOV" using o by (auto simp: plain_ops_def)
  then show ?thesis
  proof cases
    case const
    obtain f where f: "map_of control_table (i_opc ins) = Some f" by (rule const_handlers [OF const])
    have "i_opc ins \<noteq> JOP_JMP" using const by (auto simp: const_ops_def)
    then show ?thesis using const_moves [OF c a f const, where P = "\<lambda>pc. unat pc < n"] t m s p [of f] f
      by (simp add: typed_module_def op_dispatch_def)
  next
    case total
    obtain f where f: "map_of (numeric_table (h_fpu h)) (i_opc ins) = Some f" "map_of control_table (i_opc ins) = None"
      by (rule total_handlers [OF total])
    have "i_opc ins \<notin> ops_partial" using total by (simp add: total_ops_def)
    moreover have "i_opc ins \<noteq> JOP_JMP" using f(2) by (auto simp: control_table_def)
    ultimately show ?thesis using numeric_moves [OF c a f(1), where P = "\<lambda>pc. unat pc < n"] s p [of f] f
      by (simp add: op_dispatch_def map_add_def)
  next
    case nop
    then have "loop_dispatch h (i_opc ins) = op_nop" by (intro p) (simp add: op_dispatch_def control_table_def)
    then show ?thesis using s nop unfolding moves_def
      by (intro exI [of _ OP_CONTINUE] exI [of _ x] exI [of _ "x_rf x"] exI [of _ "x_pc x"]) (simp add: op_nop_def)
  next
    case jmp
    then have "loop_dispatch h (i_opc ins) = op_jmp" by (intro p) (simp add: op_dispatch_def control_table_def)
    then show ?thesis using jmp_moves [OF _ n, of ins "\<lambda>pc. unat pc < n"] j jmp by simp
  next
    case jmp_if
    then have "loop_dispatch h (i_opc ins) = op_jmp_if" by (intro p) (simp add: op_dispatch_def control_table_def)
    then show ?thesis using jmp_if_moves [OF c jump_accepted [OF a jmp_if] _ n, of "\<lambda>pc. unat pc < n"] j s jmp_if by simp
  next
    case mov
    then have "loop_dispatch h (i_opc ins) = op_mov" by (intro p) (simp add: op_dispatch_def control_table_def)
    then show ?thesis using mov_moves [OF c a mov, of "\<lambda>pc. unat pc < n"] s mov by simp
  qed
qed

lemma live_accepted:
  assumes l: "live_frame (x_m x) (x_fr x)" and t: "typed_insn (x_m x) rt (unat (cf_idx (x_fr x))) pc ins"
  shows "accepted (set_pc x q) ins pc"
  using assms by (simp add: typed_insn_def Let_def accepted_def set_pc_def live_frame_def frame_fits_def)

lemma accepted_registers:
  assumes "ctx_ok x" "accepted x ins pc" "i_opc ins \<in> {JOP_RET, JOP_CALL}"
  shows "unat (i_a ins) < length (f_reg_types (x_f x))"
  using assms by (auto simp: accepted_simps ctx_ok_length has_reg_def simp del: oor_iff split: if_splits)

lemma insn_goes_on:
  assumes t: "typed_module m rt" and st: "\<forall>n. length (h_stale h n) = n"
    and flat: "te_kind (m_types m ! unat (rt e)) \<notin> {JELLO_T_F16, JELLO_T_F32, JELLO_T_I64, JELLO_T_F64}"
    and m: "x_m x = m" "x_exc_handlers x = []" and c: "chain m rt e (x_fr x # rev (x_below x))"
    and ins: "ins = f_insns (x_f x) ! unat (x_pc x)"
  shows "goes_on m rt e (loop_dispatch h (i_opc ins) (set_pc x (x_pc x + 1)) ins)"
proof -
  let ?x = "set_pc x (x_pc x + 1)" and ?n = "length (f_insns (x_f x))"
  have l: "live_frame m (x_fr x)" by (rule chain_top [OF c])
  note ti = typed_at [OF t l, folded ins]
  have f: "cf_f (x_fr x) = m_funcs m ! unat (cf_idx (x_fr x))" "unat (x_pc x) < ?n" using l unfolding live_frame_def frame_fits_def by blast+
  have x: "x_m ?x = m" "x_exc_handlers ?x = []" "x_below ?x = x_below x" "x_f ?x = x_f x" "x_pc ?x = x_pc x + 1"
      "(x_fr ?x)\<lparr>cf_pc := x_pc x\<rparr> = x_fr x" "cf_idx (x_fr ?x) = cf_idx (x_fr x)" using m by (simp_all add: set_pc_def)
  have c': "chain m rt e ((x_fr ?x)\<lparr>cf_pc := x_pc x\<rparr> # rev (x_below ?x))" using c x by simp
  have ok: "ctx_ok ?x" using live_ctx [of x] l m by (simp add: ctx_ok_def set_pc_def)
  have a: "accepted ?x ins (x_pc x)" using live_accepted l ti(1) m by blast
  have nx: "next_ok (x_f x) (x_pc x) ins" using ti(1) f(1) by (simp add: typed_insn_def Let_def)
  have suc: "unat (x_pc x + 1) = unat (x_pc x) + 1"
  proof -
    have "unat (x_pc x) + 1 < 2 ^ 32" using f(2) ti(3) by simp
    then show ?thesis by (simp add: unat_word_ariths)
  qed
  consider (plain) "i_opc ins \<in> plain_ops" | (ret) "i_opc ins = JOP_RET" "f_reg_types (x_f x) ! unat (i_a ins) = rt (unat (cf_idx (x_fr x)))"
    | (call) "i_opc ins = JOP_CALL" "typed_call m rt (x_f x) ins"
    using ti(1) f(1) by (auto simp: typed_insn_def Let_def)
  then show ?thesis
  proof cases
    case plain
    have "i_opc ins \<noteq> JOP_RET" using plain_not_call [OF plain] by (auto simp: call_table_def)
    then have "moves ?x (\<lambda>pc. unat pc < ?n) (loop_dispatch h (i_opc ins) ?x ins)"
      using plain_moves [OF t x(1) ok a plain, of ?n h] ti(2,3) nx x suc by (auto simp: next_ok_def)
    then show ?thesis using moves_goes_on [OF x(1,2) c'] x(4) by simp
  next
    case ret
    then have "loop_dispatch h (i_opc ins) = hot_ret (h_fpu h) (h_malloc h)" by (simp add: loop_dispatch_def hot_calls_def)
    then show ?thesis using ret_goes_on [OF x(1,2) c' accepted_registers [OF ok a] _ flat] ret x by simp
  next
    case call
    then have h: "loop_dispatch h (i_opc ins) = hot_call (h_stale h) (h_fpu h) (h_malloc h) (h_native h)" by (simp add: loop_dispatch_def hot_calls_def)
    have "live_frame m (x_fr ?x)" using l nx call(1) suc by (auto simp: live_frame_def set_pc_def next_ok_def)
    then have "chain m rt e (x_fr ?x # rev (x_below ?x))" using chain_update [OF c] x(3) by (simp add: set_pc_def)
    moreover have "\<forall>i<length (m_funcs m). fn_ok m (m_funcs m ! i) \<and> f_insns (m_funcs m ! i) \<noteq> []" "unat (m_nfuncs m) = length (m_funcs m)"
      using t by (simp_all add: typed_module_def typed_function_def Let_def)
    ultimately show ?thesis using call_goes_on [OF x(1,2) _ st] call(2) accepted_registers [OF ok a] call(1) x(4) unfolding h by simp
  qed
qed

lemma round_runs:
  assumes t: "typed_module m rt" and st: "\<forall>n. length (h_stale h n) = n"
    and flat: "te_kind (m_types m ! unat (rt e)) \<notin> {JELLO_T_F16, JELLO_T_F32, JELLO_T_I64, JELLO_T_F64}"
    and r: "run_ok m rt e x"
  shows "\<exists>x' s. vm_round (loop_dispatch h) malloc 0 x = Inr (x', s) \<and> (s = None \<longrightarrow> run_ok m rt e x')"
proof (cases "x_exc_pending x")
  case True
  then show ?thesis using r by (simp add: vm_round_def vm_exc_dispatch_def run_ok_def)
next
  case False
  let ?ins = "f_insns (x_f x) ! unat (x_pc x)"
  have c: "x_m x = m" "x_exc_handlers x = []" "chain m rt e (x_fr x # rev (x_below x))" using r False by (simp_all add: run_ok_def)
  have "unat (x_pc x) < length (f_insns (x_f x))" using chain_top [OF c(3)] by (simp add: live_frame_def)
  then show ?thesis using insn_goes_on [OF t st flat c refl] False
    by (auto simp: vm_round_def vm_exc_dispatch_def goes_on_def Let_def)
qed

lemma rounds_run:
  assumes "typed_module m rt" "\<forall>n. length (h_stale h n) = n"
    "te_kind (m_types m ! unat (rt e)) \<notin> {JELLO_T_F16, JELLO_T_F32, JELLO_T_I64, JELLO_T_F64}"
  shows "run_ok m rt e x \<Longrightarrow> \<exists>x' s. vm_rounds (loop_dispatch h) malloc 0 n x = Inr (x', s)"
proof (induction n arbitrary: x)
  case (Suc n)
  from round_runs [OF assms Suc.prems] obtain x' s where
    "vm_round (loop_dispatch h) malloc 0 x = Inr (x', s)" "s = None \<longrightarrow> run_ok m rt e x'" by blast
  then show ?case using Suc.IH [of x'] by simp
qed simp

lemma entry_runs:
  assumes t: "typed_module m rt" and st: "\<forall>n. length (h_stale h n) = n" and e: "m_entry m < m_nfuncs m"
  shows "\<exists>x'. push_entry h (run_reset x m) (m_entry m) = Inr x' \<and> run_ok m rt (unat (m_entry m)) x'"
proof -
  let ?f = "m_funcs m ! unat (m_entry m)" and ?x = "run_reset x m"
  let ?fl = "layout_of (fun_kinds m ?f)"
  have i: "unat (m_entry m) < length (m_funcs m)" using t e by (simp add: typed_module_def word_less_nat_alt)
  then have f: "fn_ok m ?f" "f_insns ?f \<noteq> []" using t by (auto simp: typed_module_def typed_function_def Let_def)
  obtain rf where rf: "init_frame (h_stale h (unat (fl_total ?fl))) m ?f ?fl = Inr rf" "laid_out m ?f rf"
    using init_frame_ok [OF f(1), of "h_stale h (unat (fl_total ?fl))"] st by blast
  have x: "x_m ?x = m" "x_exc_handlers ?x = []" "\<not> x_exc_pending ?x" by (simp_all add: run_reset_def Let_def)
  have "live_frame m (entry_frame (m_entry m) ?f ?fl rf)"
    using i f rf(2) layout_flag [OF f(1)] by (simp add: live_frame_def frame_fits_def entry_frame_def)
  then show ?thesis using rf(1) x fn_layout [OF f(1)] by (simp add: push_entry_def run_ok_def entry_frame_def Let_def)
qed


section \<open>Example\<close>

text \<open>The sum of the numbers up to 2, by recursion: the entry function calls a function that tests its argument for 0 and calls itself
  otherwise.\<close>

definition sum_function :: "u32 list \<Rightarrow> jello_insn list \<Rightarrow> jello_bc_function" where
  "sum_function types code =
     \<lparr>f_nregs = of_nat (length types), f_cap_start = 0, f_reg_types = types, f_ninsns = of_nat (length code), f_insns = code,
      f_source_file = 0, f_lines = [], f_nlines = 0\<rparr>"

definition sum_module :: jello_bc_module where
  "sum_module = zero_module
     \<lparr>m_ntypes := 2, m_types := map (\<lambda>k. \<lparr>te_kind = k, te_as = 0\<rparr>) [JELLO_T_I32, JELLO_T_BOOL], m_nfuncs := 2,
      m_funcs :=
        [sum_function [0, 0] [cl_insn 16 0 0 0 2, cl_insn 9 1 0 1 48, cl_insn 1 1 0 0 0],
         sum_function [0, 0, 1, 0]
           [cl_insn 16 1 0 0 0, cl_insn 61 2 0 1 0, cl_insn 3 2 0 0 4, cl_insn 16 3 0 0 1, cl_insn 29 3 0 3 0, cl_insn 9 1 3 1 48,
            cl_insn 28 1 0 1 0, cl_insn 1 1 0 0 0]]\<rparr>"

definition sum_host :: host where
  "sum_host = \<lparr>h_stale = zeroed, h_fpu = demo_fpu, h_malloc = bx_malloc, h_side = (\<lambda>_. True), h_native = no_native,
     h_jdll = (\<lambda>x _ _ _. Inr (x, True))\<rparr>"

definition sum_typing :: "nat \<Rightarrow> u32" where "sum_typing i = 0"

lemma sum_fn_ok: "fn_ok sum_module (m_funcs sum_module ! 0)" "fn_ok sum_module (m_funcs sum_module ! Suc 0)"
  by code_simp+

lemma sum_plain: "{16, 61, 3, 29, 28} \<subseteq> plain_ops"
  by (simp add: plain_ops_def const_ops_def total_ops_def op_group_defs ops_partial_def)

lemma sum_code:
  "\<forall>(pc, ins)\<in>set (zip [0, 1, 2] (f_insns (m_funcs sum_module ! 0))).
     jello_bc_validate_insn sum_module (f_reg_types (m_funcs sum_module ! 0)) ins 2 (of_nat pc) 3 2 = ok \<and> next_ok (m_funcs sum_module ! 0) (of_nat pc) ins"
  "\<forall>(pc, ins)\<in>set (zip [0, 1, 2, 3, 4, 5, 6, 7] (f_insns (m_funcs sum_module ! 1))).
     jello_bc_validate_insn sum_module (f_reg_types (m_funcs sum_module ! 1)) ins 4 (of_nat pc) 8 2 = ok \<and> next_ok (m_funcs sum_module ! 1) (of_nat pc) ins"
  by code_simp+

lemma sum_calls:
  "typed_call sum_module sum_typing (m_funcs sum_module ! 0) (cl_insn 9 1 0 1 48)"
  "typed_call sum_module sum_typing (m_funcs sum_module ! 1) (cl_insn 9 1 3 1 48)"
  by code_simp+

lemma sum_function_simps [simp]:
  "f_nregs (sum_function ts code) = of_nat (length ts)" "f_reg_types (sum_function ts code) = ts"
  "f_ninsns (sum_function ts code) = of_nat (length code)" "f_insns (sum_function ts code) = code"
  by (simp_all add: sum_function_def)

lemma sum_module_simps [simp]:
  "m_funcs sum_module =
     [sum_function [0, 0] [cl_insn 16 0 0 0 2, cl_insn 9 1 0 1 48, cl_insn 1 1 0 0 0],
      sum_function [0, 0, 1, 0]
        [cl_insn 16 1 0 0 0, cl_insn 61 2 0 1 0, cl_insn 3 2 0 0 4, cl_insn 16 3 0 0 1, cl_insn 29 3 0 3 0, cl_insn 9 1 3 1 48,
         cl_insn 28 1 0 1 0, cl_insn 1 1 0 0 0]]"
  "m_nfuncs sum_module = 2" "m_entry sum_module = 0" "m_const_i64 sum_module = []" "m_const_f64 sum_module = []"
  "m_nconst_i64 sum_module = 0" "m_nconst_f64 sum_module = 0"
  by (simp_all add: sum_module_def zero_module_def)

lemma sum_opcs [simp]: "i_opc (cl_insn op a b c imm) = unat op" "i_a (cl_insn op a b c imm) = a"
  by (simp_all add: cl_insn_def)

lemma sum_typed: "typed_module sum_module sum_typing"
proof -
  have p: "16 \<in> plain_ops" "61 \<in> plain_ops" "3 \<in> plain_ops" "29 \<in> plain_ops" "28 \<in> plain_ops" using sum_plain by simp_all
  have "typed_function sum_module sum_typing 0" "typed_function sum_module sum_typing 1"
    using sum_fn_ok sum_code sum_calls p
    by (simp_all add: typed_function_def typed_insn_def Let_def sum_typing_def All_less_Suc)
  then show ?thesis by (simp add: typed_module_def All_less_Suc)
qed

lemma sum_result: "rbind (jello_vm_exec sum_host 25 (bx_ctx 0) sum_module) (\<lambda>(_, v). Inr v) = Inr (Some (jello_make_i32 3))"
  by code_simp

lemma sum_stale: "\<forall>n. length (h_stale sum_host n) = n" by (simp add: sum_host_def zeroed_def)


section \<open>Exports\<close>

text \<open>The inlined return of the entry function drops the exports of a run. Where the handler of the table stores the
  register \<open>entry_module_idx\<close> for the caller of \<^verbatim>\<open>jello_vm_exec_status_exports\<close>, the loop leaves the caller's variable as it was; all
  else is the same.\<close>

theorem inlined_return_drops_exports:
  assumes "frame_ctx_ok (x_m x) (x_fr x)" "\<not> cf_has_caller (x_fr x)" "unat (cf_exc_base (x_fr x)) \<le> length (x_exc_handlers x)"
    and "x_out_exports x = Some v" "i < f_nregs (x_f x)" "x_entry_module_idx x = i" "i \<noteq> 0xFFFFFFFF" "reg_in x (unat (i_a ins))"
    and "x_kinds x ! unat (i_a ins) \<notin> {JELLO_T_F16, JELLO_T_F32, JELLO_T_I64, JELLO_T_F64}"
    and "x_kinds x ! unat i \<notin> {JELLO_T_F16, JELLO_T_F32, JELLO_T_I64, JELLO_T_F64}"
  shows "\<exists>y. hot_ret fp malloc x ins = Inr (OP_RETURN, y) \<and> x_out_exports y = Some v \<and>
    op_ret fp malloc x ins = Inr (OP_RETURN, y\<lparr>x_out_exports :=
      Some (typed_val (x_kinds x ! unat i) (reg_u32 (x_kinds x) (x_rf x) (unat i)) (reg_u64 (x_kinds x) (x_rf x) (unat i)))\<rparr>)"
proof -
  let ?x = "x\<lparr>x_exc_handlers := take (unat (cf_exc_base (x_fr x))) (x_exc_handlers x)\<rparr>"
  have f: "frame_ctx_ok (x_m ?x) (x_fr ?x)" using assms(1) by simp
  have l: "unat (i_a ins) < length (f_reg_types (cf_f (x_fr ?x)))" "unat i < length (f_reg_types (cf_f (x_fr ?x)))"
    using assms(1,5,8) by (simp_all add: frame_ctx_ok_def reg_in_def word_less_nat_alt)
  note b = box_from_typed_run [OF f l(1), of malloc] box_from_typed_run [OF f l(2), of malloc]
  have "typed_box k t u w = None" if "k \<notin> {JELLO_T_F16, JELLO_T_F32, JELLO_T_I64, JELLO_T_F64}" for k t u w
    using that by (cases k) auto
  then show ?thesis using b assms by (auto simp: hot_ret_def op_ret_def Let_def release_run_def)
qed

lemma inlined_return_drops_exports_witness:
  "\<exists>y. hot_ret demo_fpu bx_malloc ((cl_ctx 0 cl_ints)\<lparr>x_out_exports := Some 0, x_entry_module_idx := 1\<rparr>) (cl_insn 1 0 0 0 0) = Inr (OP_RETURN, y) \<and>
    x_out_exports y = Some 0 \<and>
    op_ret demo_fpu bx_malloc ((cl_ctx 0 cl_ints)\<lparr>x_out_exports := Some 0, x_entry_module_idx := 1\<rparr>) (cl_insn 1 0 0 0 0) =
      Inr (OP_RETURN, y\<lparr>x_out_exports := Some (jello_make_i32 9)\<rparr>)"
proof -
  let ?x = "(cl_ctx 0 cl_ints)\<lparr>x_out_exports := Some 0, x_entry_module_idx := 1\<rparr>"
  have f: "frame_ctx_ok (x_m ?x) (x_fr ?x)" using cl_frame_ok(1) by (simp add: cl_ints_def u32_le_def)
  have k: "x_kinds ?x = [JELLO_T_I32, JELLO_T_I32]" by (simp add: cl_kinds)
  have n: "(1 :: u32) < f_nregs (x_f ?x)" "reg_in ?x (unat (i_a (cl_insn 1 0 0 0 0)))" "\<not> cf_has_caller (x_fr ?x)" "cf_exc_base (x_fr ?x) = 0"
    by code_simp+
  have v: "typed_val (x_kinds ?x ! unat (1 :: u32)) (reg_u32 (x_kinds ?x) (x_rf ?x) (unat (1 :: u32))) (reg_u64 (x_kinds ?x) (x_rf ?x) (unat (1 :: u32))) =
      jello_make_i32 9" by code_simp
  show ?thesis using inlined_return_drops_exports [OF f n(3) _ _ n(1) _ _ n(2), of 0 demo_fpu bx_malloc] n(4) k v by (simp add: cl_insn_def)
qed

section \<open>What the verifier leaves open\<close>

text \<open>A move between registers of the same size passes the verifier whatever their kinds: here a double becomes a bytes reference.\<close>

lemma verified_move_faults:
  "mach_ok (cl_ctx 1 cl_bytes) \<and> accepted (cl_ctx 1 cl_bytes) (cl_insn 4 0 1 0 0) 0 \<and> accepted (cl_ctx 1 cl_bytes) (cl_insn 117 2 0 0 0) 0 \<and>
   stop_of (rbind (op_mov (cl_ctx 1 cl_bytes) (cl_insn 4 0 1 0 0)) (\<lambda>(_, x). op_bytes_len x (cl_insn 117 2 0 0 0))) = Some FAULT"
proof -
  have "accepted (cl_ctx 1 cl_bytes) (cl_insn 4 0 1 0 0) 0"
    "stop_of (rbind (op_mov (cl_ctx 1 cl_bytes) (cl_insn 4 0 1 0 0)) (\<lambda>(_, x). op_bytes_len x (cl_insn 117 2 0 0 0))) = Some FAULT"
    by code_simp+
  then show ?thesis using cl_ok(2) cl_accepted(4) by blast
qed

text \<open>A function need not end with a return or a jump: the loop fetches behind its code.\<close>

definition nop_module :: jello_bc_module where
  "nop_module = sum_module\<lparr>m_nfuncs := 1, m_funcs := [sum_function [0] [cl_insn 0 0 0 0 0]]\<rparr>"

lemma verified_code_runs_off:
  "jello_bc_validate_insn nop_module [0] (cl_insn 0 0 0 0 0) 1 0 1 1 = ok \<and>
   jello_bc_validate_function_semantics [cl_insn 0 0 0 0 0] 1 = Some ok \<and>
   stop_of (jello_vm_exec_status sum_host 2 (bx_ctx 0) nop_module) = Some FAULT"
  by (intro conjI) code_simp+

text \<open>With computed jumps the dispatcher never charges fuel for a jump, so that the instruction limit does not end a loop.\<close>

lemma computed_jump_charges_no_fuel: "L_JMP x ins = Inr (c, x') \<Longrightarrow> c = OP_CONTINUE \<and> x_fuel_remaining x' = x_fuel_remaining x"
  by (auto simp: L_JMP_def rbind_def set_pc_def split: sum.splits)

end
