(* ===== verification/Jello_Unicode.thy ===== *)
theory Jello_Unicode
  imports Jello_Regs
begin

text \<open>
  UTF-8 for byte strings, \<^verbatim>\<open>libs/std/core/unicode.c\<close>: decoder and encoder, the primitives on bytes and the buffers that grow by
  code points. A primitive takes the bytes and integers of its arguments, with no bytes for a null reference, and gives a
  \<open>jdl_ret\<close>, what it returns to the machine or the message it fails with.

  The lemmas show that, on the encoding of a list of code points, the primitives are the operations on the list; that the decoder
  accepts nothing else, but for four-byte sequences with wrong lead bytes; and that a buffer holds the text of what was added.
\<close>

unbundle bit_operations_syntax

section \<open>Decoding and encoding\<close>

text \<open>Offsets and lengths are 32-bit words. A read outside the bytes is a \<open>FAULT\<close>.\<close>

definition utf8_len_tbl :: "u32 list" where "utf8_len_tbl = [1, 1, 1, 1, 1, 1, 1, 1, 0, 0, 0, 0, 2, 2, 3, 4]"

definition utf8_char_len :: "u8 \<Rightarrow> u32" where
  "utf8_char_len b = utf8_len_tbl ! unat (drop_bit 4 b)"

definition utf8_valid_cp :: "u32 \<Rightarrow> bool" where
  "utf8_valid_cp cp \<longleftrightarrow> cp \<le> 0x10FFFF \<and> (cp < 0xD800 \<or> 0xDFFF < cp)"

definition byte_at :: "u8 list \<Rightarrow> u32 \<Rightarrow> u8 run" where
  "byte_at s i = (if unat i < length s then Inr (s ! unat i) else Inl FAULT)"

definition is_cont :: "u8 \<Rightarrow> bool" where
  "is_cont b \<longleftrightarrow> b AND 0xC0 = 0x80"

definition decode2 :: "u8 \<Rightarrow> u8 \<Rightarrow> u32 option" where
  "decode2 b0 b1 =
     (if \<not> is_cont b1 then None
      else
        (let c = push_bit 6 (ucast (b0 AND 0x1F)) OR ucast (b1 AND 0x3F) in
         if c < 0x80 then None else Some c))"

definition decode3 :: "u8 \<Rightarrow> u8 \<Rightarrow> u8 \<Rightarrow> u32 option" where
  "decode3 b0 b1 b2 =
     (if \<not> is_cont b1 \<or> \<not> is_cont b2 then None
      else
        (let c = (push_bit 12 (ucast (b0 AND 0x0F)) OR push_bit 6 (ucast (b1 AND 0x3F))) OR ucast (b2 AND 0x3F) in
         if c < 0x800 then None else Some c))"

definition decode4 :: "u8 \<Rightarrow> u8 \<Rightarrow> u8 \<Rightarrow> u8 \<Rightarrow> u32 option" where
  "decode4 b0 b1 b2 b3 =
     (if \<not> is_cont b1 \<or> \<not> is_cont b2 \<or> \<not> is_cont b3 then None
      else
        (let c = ((push_bit 18 (ucast (b0 AND 0x07)) OR push_bit 12 (ucast (b1 AND 0x3F))) OR push_bit 6 (ucast (b2 AND 0x3F))) OR
               ucast (b3 AND 0x3F) in
         if c < 0x10000 then None else Some c))"

definition decode_bytes :: "u8 list \<Rightarrow> u32 \<Rightarrow> u8 \<Rightarrow> u32 \<Rightarrow> u32 option run" where
  "decode_bytes s off b0 n =
     (if n = 1 then Inr (Some (ucast b0))
      else if n = 2 then rbind (byte_at s (off + 1)) (\<lambda>b1. Inr (decode2 b0 b1))
      else if n = 3 then
        rbind (byte_at s (off + 1)) (\<lambda>b1. rbind (byte_at s (off + 2)) (\<lambda>b2. Inr (decode3 b0 b1 b2)))
      else
        rbind (byte_at s (off + 1)) (\<lambda>b1. rbind (byte_at s (off + 2)) (\<lambda>b2. rbind (byte_at s (off + 3)) (\<lambda>b3.
          Inr (decode4 b0 b1 b2 b3)))))"

definition utf8_decode_at :: "u8 list \<Rightarrow> u32 \<Rightarrow> u32 \<Rightarrow> (u32 \<times> u32) option run" where
  "utf8_decode_at s len off =
     (if len \<le> off then Inr None
      else
        rbind (byte_at s off) (\<lambda>b0.
          let n = utf8_char_len b0 in
          if n = 0 \<or> len < off + n then Inr None
          else
            rbind (decode_bytes s off b0 n) (\<lambda>r.
              case r of
                None \<Rightarrow> Inr None
              | Some c \<Rightarrow> Inr (if utf8_valid_cp c then Some (c, n) else None))))"

definition utf8_encode :: "u32 \<Rightarrow> u32 \<Rightarrow> u8 list option" where
  "utf8_encode cp cap =
     (if \<not> utf8_valid_cp cp then None
      else if cp < 0x80 then (if cap < 1 then None else Some [ucast cp])
      else if cp < 0x800 then
        (if cap < 2 then None else Some [ucast (0xC0 OR drop_bit 6 cp), ucast (0x80 OR (cp AND 0x3F))])
      else if cp < 0x10000 then
        (if cap < 3 then None
         else Some [ucast (0xE0 OR drop_bit 12 cp), ucast (0x80 OR (drop_bit 6 cp AND 0x3F)), ucast (0x80 OR (cp AND 0x3F))])
      else if cap < 4 then None
      else
        Some [ucast (0xF0 OR drop_bit 18 cp), ucast (0x80 OR (drop_bit 12 cp AND 0x3F)), ucast (0x80 OR (drop_bit 6 cp AND 0x3F)),
          ucast (0x80 OR (cp AND 0x3F))])"

section \<open>Operations on bytes\<close>

text \<open>\<open>None\<close> means that the loop does not end; \<open>small\<close> bytes rule that out.\<close>

partial_function (option) utf8_validate_from :: "u8 list \<Rightarrow> u32 \<Rightarrow> u32 \<Rightarrow> bool run option" where
  "utf8_validate_from s len i =
     (if i < len then
        (case utf8_decode_at s len i of
           Inl e \<Rightarrow> Some (Inl e)
         | Inr None \<Rightarrow> Some (Inr False)
         | Inr (Some (cp, adv)) \<Rightarrow> utf8_validate_from s len (i + adv))
      else Some (Inr True))"

definition utf8_validate_bytes :: "u8 list \<Rightarrow> u32 \<Rightarrow> bool run option" where
  "utf8_validate_bytes s len = utf8_validate_from s len 0"

partial_function (option) utf8_count_from :: "u8 list \<Rightarrow> u32 \<Rightarrow> u32 \<Rightarrow> u32 \<Rightarrow> u32 run option" where
  "utf8_count_from s len i n =
     (if i < len then
        (case utf8_decode_at s len i of
           Inl e \<Rightarrow> Some (Inl e)
         | Inr None \<Rightarrow> Some (Inr 0xFFFFFFFF)
         | Inr (Some (cp, adv)) \<Rightarrow> utf8_count_from s len (i + adv) (n + 1))
      else Some (Inr n))"

definition utf8_codepoint_count :: "u8 list \<Rightarrow> u32 \<Rightarrow> u32 run option" where
  "utf8_codepoint_count s len = utf8_count_from s len 0 0"

declare utf8_validate_from.simps [code] utf8_count_from.simps [code]

text \<open>\<open>k\<close> code points onwards from the offset \<open>i\<close>.\<close>

fun utf8_advance :: "u8 list \<Rightarrow> u32 \<Rightarrow> nat \<Rightarrow> u32 \<Rightarrow> u32 option run" where
  "utf8_advance s len 0 i = Inr (Some i)"
| "utf8_advance s len (Suc k) i =
     rbind (utf8_decode_at s len i) (\<lambda>r. case r of None \<Rightarrow> Inr None | Some (cp, adv) \<Rightarrow> utf8_advance s len k (i + adv))"

definition utf8_byte_offset_at_cp :: "u8 list \<Rightarrow> u32 \<Rightarrow> u32 \<Rightarrow> u32 option run" where
  "utf8_byte_offset_at_cp s len cp_index =
     (if sint cp_index < 0 then Inr None
      else
        rbind (utf8_advance s len (nat (sint cp_index)) 0) (\<lambda>r.
          Inr (case r of None \<Rightarrow> None | Some i \<Rightarrow> if len < i then None else Some i)))"

text \<open>What a primitive gives back to its caller.\<close>

datatype jdl_ret = JdlFail string | JdlBool bool | JdlI32 u32 | JdlBytes "u8 list"

definition jdll_std_unicode_validate :: "u8 list \<Rightarrow> jdl_ret run option" where
  "jdll_std_unicode_validate s = map_option (map_sum id JdlBool) (utf8_validate_bytes s (of_nat (length s)))"

definition jdll_std_unicode_length :: "u8 list \<Rightarrow> jdl_ret run option" where
  "jdll_std_unicode_length s =
     map_option (map_sum id (\<lambda>n. if n = 0xFFFFFFFF then JdlFail ''unicode_length: invalid utf8'' else JdlI32 n))
       (utf8_codepoint_count s (of_nat (length s)))"

definition jdll_std_unicode_get :: "u8 list \<Rightarrow> u32 \<Rightarrow> jdl_ret run" where
  "jdll_std_unicode_get s idx =
     (let len = of_nat (length s) in
      if sint idx < 0 then Inr (JdlFail ''unicode_get: negative index'')
      else
        rbind (utf8_byte_offset_at_cp s len idx) (\<lambda>r.
          case r of
            None \<Rightarrow> Inr (JdlFail ''unicode_get: index out of range'')
          | Some off \<Rightarrow>
              rbind (utf8_decode_at s len off) (\<lambda>r.
                Inr (case r of None \<Rightarrow> JdlFail ''unicode_get: invalid utf8'' | Some (cp, adv) \<Rightarrow> JdlI32 cp))))"

definition decode_next :: "u8 list \<Rightarrow> u32 \<Rightarrow> u32 \<Rightarrow> (u32 \<times> u32) option run" where
  "decode_next s len i = (if i < len then utf8_decode_at s len i else Inr None)"

partial_function (option) unicode_compare_from :: "u8 list \<Rightarrow> u8 list \<Rightarrow> u32 \<Rightarrow> u32 \<Rightarrow> u32 \<Rightarrow> u32 \<Rightarrow> u32 run option" where
  "unicode_compare_from a b alen blen ia ib =
     (case decode_next a alen ia of
        Inl e \<Rightarrow> Some (Inl e)
      | Inr ha \<Rightarrow>
          (case decode_next b blen ib of
             Inl e \<Rightarrow> Some (Inl e)
           | Inr hb \<Rightarrow>
               (case (ha, hb) of
                  (None, None) \<Rightarrow> Some (Inr 0)
                | (None, Some _) \<Rightarrow> Some (Inr (- 1))
                | (Some _, None) \<Rightarrow> Some (Inr 1)
                | (Some (ca, aa), Some (cb, ab)) \<Rightarrow>
                    if ca \<noteq> cb then Some (Inr (if ca < cb then - 1 else 1))
                    else unicode_compare_from a b alen blen (ia + aa) (ib + ab))))"

declare unicode_compare_from.simps [code]

definition jdll_std_unicode_compare :: "u8 list \<Rightarrow> u8 list \<Rightarrow> jdl_ret run option" where
  "jdll_std_unicode_compare a b =
     map_option (map_sum id JdlI32) (unicode_compare_from a b (of_nat (length a)) (of_nat (length b)) 0 0)"

definition jdll_std_unicode_sub :: "u8 list \<Rightarrow> u32 \<Rightarrow> u32 \<Rightarrow> jdl_ret run" where
  "jdll_std_unicode_sub s pos slen =
     (let len = of_nat (length s) in
      if sint pos < 0 \<or> sint slen < 0 then Inr (JdlFail ''unicode_sub: negative pos/len'')
      else if slen = 0 then Inr (JdlBytes [])
      else
        rbind (utf8_byte_offset_at_cp s len pos) (\<lambda>r.
          case r of
            None \<Rightarrow> Inr (JdlFail ''unicode_sub: pos out of range'')
          | Some start \<Rightarrow>
              rbind (utf8_advance s len (nat (sint slen)) start) (\<lambda>r.
                Inr (case r of
                   None \<Rightarrow> JdlFail ''unicode_sub: invalid utf8''
                 | Some i \<Rightarrow>
                     if i < start \<or> len < i then JdlFail ''unicode_sub: slice out of range''
                     else JdlBytes (take (unat (i - start)) (drop (unat start) s))))))"

definition jdll_std_unicode_from_codepoint :: "u32 \<Rightarrow> jdl_ret" where
  "jdll_std_unicode_from_codepoint cp =
     (case utf8_encode cp 4 of None \<Rightarrow> JdlFail ''unicode_from_codepoint: invalid codepoint'' | Some bs \<Rightarrow> JdlBytes bs)"

section \<open>Buffers\<close>

text \<open>\<open>ub_data\<close> holds the bytes written, \<open>ub_len\<close> of them; the memory has room for \<open>ub_cap\<close>.\<close>

record unicode_buf =
  ub_data :: "u8 list"
  ub_len :: u32
  ub_cap :: u32
  ub_chars :: u32

partial_function (option) unicode_cap :: "u32 \<Rightarrow> u32 \<Rightarrow> u32 option option" where
  "unicode_cap cap needed =
     (if cap < needed then if 0x7FFFFFFF < cap then Some None else unicode_cap (cap * 2) needed else Some (Some cap))"

declare unicode_cap.simps [code]

text \<open>The result is the new buffer and whether there was memory; \<open>realloc\<close> says for which sizes there is.\<close>

definition unicode_buf_grow :: "(u32 \<Rightarrow> bool) \<Rightarrow> unicode_buf \<Rightarrow> u32 \<Rightarrow> (unicode_buf \<times> bool) option" where
  "unicode_buf_grow realloc b need =
     (if ub_len b + need \<le> ub_cap b then Some (b, True)
      else
        map_option (\<lambda>r. case r of None \<Rightarrow> (b, False) | Some cap \<Rightarrow> if realloc cap then (b\<lparr>ub_cap := cap\<rparr>, True) else (b, False))
          (unicode_cap (if ub_cap b \<noteq> 0 then ub_cap b else 8) (ub_len b + need)))"

definition jdll_std_unicode_buf_new :: "(u32 \<Rightarrow> bool) \<Rightarrow> u32 \<Rightarrow> jdl_ret + unicode_buf" where
  "jdll_std_unicode_buf_new malloc cap =
     (if sint cap < 0 then Inl (JdlFail ''unicode_buf_new: negative capacity'')
      else
        (let initial = (if cap = 0 then 8 else cap) in
         if \<not> malloc initial then Inl (JdlFail ''unicode_buf_new: out of memory'')
         else Inr \<lparr>ub_data = [], ub_len = 0, ub_cap = initial, ub_chars = 0\<rparr>))"

definition jdll_std_unicode_buf_add :: "(u32 \<Rightarrow> bool) \<Rightarrow> unicode_buf \<Rightarrow> u32 \<Rightarrow> (unicode_buf \<times> jdl_ret) run option" where
  "jdll_std_unicode_buf_add realloc b cp =
     (case utf8_encode cp 4 of
        None \<Rightarrow> Some (Inr (b, JdlFail ''unicode_buf_add: invalid codepoint''))
      | Some out \<Rightarrow>
          map_option (\<lambda>(b, ok).
            if \<not> ok then Inr (b, JdlFail ''unicode_buf_add: out of memory'')
            else if unat (ub_cap b) < unat (ub_len b) + length out then Inl FAULT
            else Inr (b\<lparr>ub_data := ub_data b @ out, ub_len := ub_len b + of_nat (length out), ub_chars := ub_chars b + 1\<rparr>, JdlBool True))
            (unicode_buf_grow realloc b (of_nat (length out))))"

definition jdll_std_unicode_buf_bytes :: "unicode_buf \<Rightarrow> jdl_ret" where
  "jdll_std_unicode_buf_bytes b = JdlBytes (take (unat (ub_len b)) (ub_data b))"

definition jdll_std_unicode_buf_length :: "unicode_buf \<Rightarrow> jdl_ret" where
  "jdll_std_unicode_buf_length b = JdlI32 (ub_chars b)"

definition jdll_std_unicode_buf_size :: "unicode_buf \<Rightarrow> jdl_ret" where
  "jdll_std_unicode_buf_size b = JdlI32 (ub_len b)"

section \<open>Words as numbers\<close>

lemma or_plus: "b < 2 ^ k \<Longrightarrow> push_bit k a OR b = push_bit k a + (b :: nat)"
proof -
  assume b: "b < 2 ^ k"
  have "n < k" if "bit b n" for n using that b by (metis bit_take_bit_iff take_bit_nat_eq_self)
  then have "\<not> bit (push_bit k a) n \<or> \<not> bit b n" for n using bit_push_bit_iff_nat not_less by blast
  then show ?thesis by (rule disjunctive_add [symmetric])
qed

lemma or_number: "b < 2 ^ k \<Longrightarrow> (a * 2 ^ k) OR b = a * 2 ^ k + (b :: nat)"
  using or_plus [of b k a] by (simp add: push_bit_eq_mult)

lemma unat_ucast_u8: "unat (ucast w :: u8) = unat (w :: 'a::len word) mod 256"
  by (simp add: unsigned_ucast_eq take_bit_eq_mod)

lemma low_bits:
  "unat ((w :: u32) AND 0x3F) = unat w mod 64" "unat ((b :: u8) AND 0x3F) = unat b mod 64" "unat (b AND 0x1F) = unat b mod 32"
  "unat (b AND 0x0F) = unat b mod 16" "unat (b AND 0x07) = unat b mod 8"
  using unat_and_mask_mod [of w 6] unat_and_mask_mod [of b 6] unat_and_mask_mod [of b 5] unat_and_mask_mod [of b 4] unat_and_mask_mod [of b 3]
  by (simp_all add: mask_eq_exp_minus_1)

lemma unat_drop: "unat (drop_bit k w :: 'a::len word) = unat w div 2 ^ k"
  unfolding unat_drop_bit_eq by (rule drop_bit_eq_div)

lemma unat_or_number:
  fixes x y :: "'a::len word"
  shows "unat x = a * 2 ^ k \<Longrightarrow> unat y < 2 ^ k \<Longrightarrow> unat (x OR y) = a * 2 ^ k + unat y"
  by (simp add: unsigned_or_eq or_number)

lemma unat_push: "unat x * 2 ^ k < 2 ^ LENGTH('a) \<Longrightarrow> unat (push_bit k (x :: 'a::len word)) = unat x * 2 ^ k"
  unfolding unsigned_push_bit_eq by (simp add: push_bit_eq_mult take_bit_nat_eq_self)

lemma continuation: "(b :: u8) AND 0xC0 = 0x80 \<longleftrightarrow> unat b div 64 = 2"
proof -
  have "b AND 0xC0 = 0x80 \<longleftrightarrow> drop_bit 6 b = 2"
  proof -
    have e: "v = w \<longleftrightarrow> (\<forall>n<8. bit v n = bit w n)" for v w :: u8 using bit_word_eqI [of v w] by auto
    show ?thesis unfolding e by (simp add: All_less_Suc numeral_eq_Suc bit_and_iff bit_drop_bit_eq) (auto simp: bit_simps dest: bit_imp_le_length)
  qed
  also have "\<dots> \<longleftrightarrow> unat b div 64 = 2" using unat_drop [of 6 b] by (simp add: word_unat_eq_iff)
  finally show ?thesis .
qed

section \<open>Numbers behind the bits\<close>

lemma lead_len: "utf8_char_len b = (if unat b < 128 then 1 else if unat b < 192 then 0 else if unat b < 224 then 2 else if unat b < 240 then 3 else 4)"
proof -
  have "unat (drop_bit 4 b) = unat b div 16" using unat_drop [of 4 b] by simp
  moreover have "unat b div 16 \<in> set [0..<16]" using unat_u8_less [of b] by (simp add: div_less_iff_less_mult)
  moreover have "unat b = unat b div 16 * 16 + unat b mod 16" by simp
  moreover have "unat b mod 16 < 16" by simp
  ultimately show ?thesis unfolding utf8_char_len_def utf8_len_tbl_def
    by (simp add: upt_rec) (elim disjE; (simp; fail | simp, arith))
qed

lemma div64_is_2: "n div 64 = 2 \<longleftrightarrow> 128 \<le> n \<and> n < (192 :: nat)" by arith

lemma is_cont_iff: "is_cont b \<longleftrightarrow> 128 \<le> unat b \<and> unat b < 192"
  unfolding is_cont_def continuation div64_is_2 ..

lemma unat_or3:
  fixes x y z :: "'a::len word"
  assumes "unat x = a * 2 ^ (j + k)" "unat y = b * 2 ^ k" "unat z < 2 ^ k" "b < 2 ^ j"
  shows "unat ((x OR y) OR z) = (a * 2 ^ j + b) * 2 ^ k + unat z"
proof -
  have "unat (x OR y) = (a * 2 ^ j + b) * 2 ^ k"
    using assms unat_or_number [of x a "j + k" y] by (simp add: power_add algebra_simps)
  then show ?thesis using assms(3) by (rule unat_or_number)
qed

lemma value2: "unat (push_bit 6 (ucast (b0 AND 0x1F)) OR ucast (b1 AND 0x3F) :: u32) = unat (b0 :: u8) mod 32 * 64 + unat (b1 :: u8) mod 64"
proof -
  have "unat (push_bit 6 (ucast (b0 AND 0x1F) :: u32)) = unat b0 mod 32 * 2 ^ 6" by (subst unat_push) (simp_all add: low_bits)
  then have "unat (push_bit 6 (ucast (b0 AND 0x1F)) OR ucast (b1 AND 0x3F) :: u32) = unat b0 mod 32 * 2 ^ 6 + unat (ucast (b1 AND 0x3F) :: u32)"
    by (rule unat_or_number) (simp add: low_bits)
  then show ?thesis by (simp add: low_bits)
qed

lemma value3:
  "unat ((push_bit 12 (ucast (b0 AND 0x0F)) OR push_bit 6 (ucast (b1 AND 0x3F))) OR ucast (b2 AND 0x3F) :: u32) =
   (unat (b0 :: u8) mod 16 * 64 + unat (b1 :: u8) mod 64) * 64 + unat (b2 :: u8) mod 64"
proof -
  have x: "unat (push_bit 12 (ucast (b0 AND 0x0F) :: u32)) = unat b0 mod 16 * 2 ^ (6 + 6)"
    "unat (push_bit 6 (ucast (b1 AND 0x3F) :: u32)) = unat b1 mod 64 * 2 ^ 6" by (subst unat_push, simp_all add: low_bits)+
  from unat_or3 [OF x, of "ucast (b2 AND 0x3F)"] show ?thesis by (simp add: low_bits)
qed

lemma value4:
  "unat (((push_bit 18 (ucast (b0 AND 0x07)) OR push_bit 12 (ucast (b1 AND 0x3F))) OR push_bit 6 (ucast (b2 AND 0x3F))) OR ucast (b3 AND 0x3F) :: u32) =
   ((unat (b0 :: u8) mod 8 * 64 + unat (b1 :: u8) mod 64) * 64 + unat (b2 :: u8) mod 64) * 64 + unat (b3 :: u8) mod 64"
proof -
  have x: "unat (push_bit 18 (ucast (b0 AND 0x07) :: u32)) = unat b0 mod 8 * 2 ^ (6 + 12)"
    "unat (push_bit 12 (ucast (b1 AND 0x3F) :: u32)) = unat b1 mod 64 * 2 ^ 12"
    "unat (push_bit 6 (ucast (b2 AND 0x3F) :: u32)) = unat b2 mod 64 * 2 ^ 6" by (subst unat_push, simp_all add: low_bits)+
  have "unat (push_bit 18 (ucast (b0 AND 0x07)) OR push_bit 12 (ucast (b1 AND 0x3F)) :: u32) = (unat b0 mod 8 * 64 + unat b1 mod 64) * 2 ^ (6 + 6)"
    using unat_or_number [OF x(1), of "push_bit 12 (ucast (b1 AND 0x3F))"] x(2) by simp
  from unat_or3 [OF this x(3), of "ucast (b3 AND 0x3F)"] show ?thesis by (simp add: low_bits)
qed

lemma or_const:
  fixes x c :: u32
  assumes "unat x < 2 ^ k" "unat c = a * 2 ^ k"
  shows "unat (ucast (c OR x) :: u8) = (a * 2 ^ k + unat x) mod 256"
  using unat_or_number [OF assms(2,1)] by (simp add: unat_ucast_u8)

text \<open>The bytes of a code point.\<close>

lemma cont_byte: "unat (ucast (0x80 OR (w AND 0x3F)) :: u8) = 128 + unat (w :: u32) mod 64"
  using or_const [of "w AND 0x3F" 6 "0x80" 2] by (simp add: low_bits)

lemma lead_bytes:
  "unat cp < 2048 \<Longrightarrow> unat (ucast (0xC0 OR drop_bit 6 cp) :: u8) = 192 + unat (cp :: u32) div 64"
  "unat cp < 65536 \<Longrightarrow> unat (ucast (0xE0 OR drop_bit 12 cp) :: u8) = 224 + unat cp div 4096"
  "unat cp < 2097152 \<Longrightarrow> unat (ucast (0xF0 OR drop_bit 18 cp) :: u8) = 240 + unat cp div 262144"
proof -
  show "unat cp < 2048 \<Longrightarrow> unat (ucast (0xC0 OR drop_bit 6 cp) :: u8) = 192 + unat (cp :: u32) div 64"
    using or_const [of "drop_bit 6 cp" 5 "0xC0" 6] unat_drop [of 6 cp] by (simp add: div_less_iff_less_mult)
  show "unat cp < 65536 \<Longrightarrow> unat (ucast (0xE0 OR drop_bit 12 cp) :: u8) = 224 + unat cp div 4096"
    using or_const [of "drop_bit 12 cp" 4 "0xE0" 14] unat_drop [of 12 cp] by (simp add: div_less_iff_less_mult)
  show "unat cp < 2097152 \<Longrightarrow> unat (ucast (0xF0 OR drop_bit 18 cp) :: u8) = 240 + unat cp div 262144"
    using or_const [of "drop_bit 18 cp" 3 "0xF0" 30] unat_drop [of 18 cp] by (simp add: div_less_iff_less_mult)
qed

section \<open>The encoding\<close>

text \<open>The encoding of a code point as numbers, by its definition in the Unicode standard.\<close>

definition utf8_nums :: "nat \<Rightarrow> nat list" where
  "utf8_nums c =
     (if c < 0x80 then [c]
      else if c < 0x800 then [192 + c div 64, 128 + c mod 64]
      else if c < 0x10000 then [224 + c div 4096, 128 + c div 64 mod 64, 128 + c mod 64]
      else [240 + c div 262144, 128 + c div 4096 mod 64, 128 + c div 64 mod 64, 128 + c mod 64])"

definition valid_num :: "nat \<Rightarrow> bool" where
  "valid_num c \<longleftrightarrow> c \<le> 0x10FFFF \<and> (c < 0xD800 \<or> 0xDFFF < c)"

lemma valid_cp_iff: "utf8_valid_cp cp \<longleftrightarrow> valid_num (unat cp)"
  by (simp add: utf8_valid_cp_def valid_num_def word_le_nat_alt word_less_nat_alt)

lemma utf8_nums_length: "length (utf8_nums c) = (if c < 0x80 then 1 else if c < 0x800 then 2 else if c < 0x10000 then 3 else 4)"
  by (simp add: utf8_nums_def)

lemma encode_nums:
  assumes "utf8_valid_cp cp"
  shows "\<exists>bs. utf8_encode cp 4 = Some bs \<and> map unat bs = utf8_nums (unat cp)"
proof -
  have v: "unat cp < 2097152" using assms by (auto simp: valid_cp_iff valid_num_def)
  have d: "unat (drop_bit 6 cp) = unat cp div 64" "unat (drop_bit 12 cp) = unat cp div 4096" using unat_drop [of 6 cp] unat_drop [of 12 cp] by simp_all
  show ?thesis using assms lead_bytes [of cp] cont_byte d v
    by (auto simp: utf8_encode_def utf8_nums_def word_less_nat_alt unat_ucast_u8)
qed

lemma decode2_iff: "decode2 b0 b1 = Some c \<longleftrightarrow> is_cont b1 \<and> 128 \<le> unat c \<and> unat c = unat b0 mod 32 * 64 + unat b1 mod 64"
  using value2 [of b0 b1] by (auto simp: decode2_def Let_def word_less_nat_alt word_unat_eq_iff not_less)

lemma decode3_iff:
  "decode3 b0 b1 b2 = Some c \<longleftrightarrow> is_cont b1 \<and> is_cont b2 \<and> 2048 \<le> unat c \<and>
     unat c = (unat b0 mod 16 * 64 + unat b1 mod 64) * 64 + unat b2 mod 64"
  using value3 [of b0 b1 b2] by (auto simp: decode3_def Let_def word_less_nat_alt word_unat_eq_iff not_less)

lemma decode4_iff:
  "decode4 b0 b1 b2 b3 = Some c \<longleftrightarrow> is_cont b1 \<and> is_cont b2 \<and> is_cont b3 \<and> 65536 \<le> unat c \<and>
     unat c = ((unat b0 mod 8 * 64 + unat b1 mod 64) * 64 + unat b2 mod 64) * 64 + unat b3 mod 64"
  using value4 [of b0 b1 b2 b3] by (auto simp: decode4_def Let_def word_less_nat_alt word_unat_eq_iff not_less)

text \<open>A sequence as a list: how the decoder reads the bytes from an offset on.\<close>

fun decode_list :: "u8 list \<Rightarrow> u32 option" where
  "decode_list [b0] = (if utf8_char_len b0 = 1 then Some (ucast b0) else None)"
| "decode_list [b0, b1] = (if utf8_char_len b0 = 2 then decode2 b0 b1 else None)"
| "decode_list [b0, b1, b2] = (if utf8_char_len b0 = 3 then decode3 b0 b1 b2 else None)"
| "decode_list [b0, b1, b2, b3] = (if utf8_char_len b0 = 4 then decode4 b0 b1 b2 b3 else None)"
| "decode_list _ = None"

definition small :: "u8 list \<Rightarrow> u32 \<Rightarrow> bool" where
  "small s len \<longleftrightarrow> length s = unat len \<and> unat len + 4 < 2 ^ 32"

lemma offset_add: "small s len \<Longrightarrow> off \<le> len \<Longrightarrow> k \<le> 4 \<Longrightarrow> unat (off + of_nat k) = unat off + k"
  by (simp add: small_def unat_word_ariths word_le_nat_alt unat_of_nat)

lemma take_drop_nums:
  assumes "k < length s"
  shows "take 1 (drop k s) = [s ! k]"
    "k + 1 < length s \<Longrightarrow> take 2 (drop k s) = [s ! k, s ! (k + 1)]"
    "k + 2 < length s \<Longrightarrow> take 3 (drop k s) = [s ! k, s ! (k + 1), s ! (k + 2)]"
    "k + 3 < length s \<Longrightarrow> take 4 (drop k s) = [s ! k, s ! (k + 1), s ! (k + 2), s ! (k + 3)]"
  using assms by (auto simp: list_eq_iff_nth_eq less_Suc_eq numeral_eq_Suc)

lemma decode_at_list:
  assumes s: "small s len" and o: "off < len"
  shows "utf8_decode_at s len off =
    (let n = utf8_char_len (s ! unat off) in
     if n = 0 \<or> length s < unat off + unat n then Inr None
     else case decode_list (take (unat n) (drop (unat off) s)) of
       None \<Rightarrow> Inr None | Some c \<Rightarrow> Inr (if utf8_valid_cp c then Some (c, n) else None))"
proof -
  let ?k = "unat off" and ?n = "utf8_char_len (s ! unat off)"
  have k: "?k < length s" "\<not> len \<le> off" using s o by (simp_all add: small_def word_less_nat_alt word_le_nat_alt)
  have a: "unat (off + 1) = ?k + 1" "unat (off + 2) = ?k + 2" "unat (off + 3) = ?k + 3" "unat (off + 4) = ?k + 4"
    using offset_add [OF s, of off 1] offset_add [OF s, of off 2] offset_add [OF s, of off 3] offset_add [OF s, of off 4] o by simp_all
  have l: "len < off + ?n \<longleftrightarrow> length s < ?k + unat ?n"
    using a s unfolding lead_len by (auto simp: small_def word_less_nat_alt)
  show ?thesis
  proof (cases "?n = 0 \<or> length s < ?k + unat ?n")
    case True
    then show ?thesis using k l by (auto simp: utf8_decode_at_def byte_at_def)
  next
    case False
    consider "?n = 1" | "?n = 2" | "?n = 3" | "?n = 4" using False lead_len [of "s ! ?k"] by (auto split: if_splits)
    then have "decode_bytes s off (s ! ?k) ?n = Inr (decode_list (take (unat ?n) (drop ?k s)))"
    proof cases
      case 1
      then show ?thesis using take_drop_nums(1) [OF k(1)] by (simp add: decode_bytes_def)
    next
      case 2
      then have "?k + 1 < length s" using False by simp
      then show ?thesis using take_drop_nums(2) [OF k(1)] 2 a(1) by (simp add: decode_bytes_def byte_at_def)
    next
      case 3
      then have l: "?k + 2 < length s" "?k + 1 < length s" using False by simp_all
      then show ?thesis using take_drop_nums(3) [OF k(1) l(1)] 3 a(1,2) by (simp add: decode_bytes_def byte_at_def)
    next
      case 4
      then have l: "?k + 3 < length s" "?k + 2 < length s" "?k + 1 < length s" using False by simp_all
      then show ?thesis using take_drop_nums(4) [OF k(1) l(1)] 4 a(1-3) by (simp add: decode_bytes_def byte_at_def)
    qed
    then show ?thesis using False k l by (auto simp: utf8_decode_at_def byte_at_def split: option.splits)
  qed
qed

lemma window: "q * m \<le> x \<Longrightarrow> x < q * m + m \<Longrightarrow> \<exists>A<m. x = q * m + A \<and> x mod m = (A :: nat)"
  by (auto dest!: le_Suc_ex)

lemma cont_window: "is_cont b \<Longrightarrow> \<exists>B<64. unat b = 128 + B \<and> unat b mod 64 = B"
  using window [of 2 64 "unat b"] by (auto simp: is_cont_iff)

lemma digit64: "B < 64 \<Longrightarrow> (a * 64 + B) div 64 = (a :: nat)" "B < 64 \<Longrightarrow> (a * 64 + B) mod 64 = B" by simp_all

lemma div64: "n div 4096 = n div 64 div (64 :: nat)" "n div 262144 = n div 64 div 64 div (64 :: nat)"
  by (simp_all add: div_mult2_eq [symmetric])

lemma cont_mod: "(128 + n mod 64) mod 64 = n mod (64 :: nat)"
proof -
  have "(128 + n mod 64) mod 64 = (2 * 64 + n mod 64) mod 64" by simp
  also have "\<dots> = n mod 64" unfolding mod_mult_self3 by simp
  finally show ?thesis .
qed

lemma decode_list_nums:
  assumes "decode_list bs = Some c" "unat (hd bs) < 248"
  shows "map unat bs = utf8_nums (unat c)"
  using assms
proof (cases bs rule: decode_list.cases)
  case (1 b0)
  then show ?thesis using assms(1) lead_len [of b0] by (auto simp: utf8_nums_def split: if_splits)
next
  case (2 b0 b1)
  then have d: "192 \<le> unat b0" "unat b0 < 224" "decode2 b0 b1 = Some c" using assms(1) lead_len [of b0] by (auto split: if_splits)
  obtain A where A: "A < 32" "unat b0 = 192 + A" "unat b0 mod 32 = A" using window [of 6 32 "unat b0"] d by auto
  obtain B where B: "B < 64" "unat b1 = 128 + B" "unat b1 mod 64 = B" using cont_window [of b1] d(3) unfolding decode2_iff by blast
  have "unat c = A * 64 + B" "128 \<le> unat c" using d(3) A B by (simp_all add: decode2_iff)
  then show ?thesis using 2 A B by (simp add: utf8_nums_def)
next
  case (3 b0 b1 b2)
  then have d: "224 \<le> unat b0" "unat b0 < 240" "decode3 b0 b1 b2 = Some c" using assms(1) lead_len [of b0] by (auto split: if_splits)
  obtain A where A: "A < 16" "unat b0 = 224 + A" "unat b0 mod 16 = A" using window [of 14 16 "unat b0"] d by auto
  obtain B where B: "B < 64" "unat b1 = 128 + B" "unat b1 mod 64 = B" using cont_window [of b1] d(3) unfolding decode3_iff by blast
  obtain C where C: "C < 64" "unat b2 = 128 + C" "unat b2 mod 64 = C" using cont_window [of b2] d(3) unfolding decode3_iff by blast
  have u: "unat c = (A * 64 + B) * 64 + C" "2048 \<le> unat c" "unat c < 65536" using d(3) A B C by (simp_all add: decode3_iff)
  have "unat c div 4096 = A" "unat c div 64 mod 64 = B" "unat c mod 64 = C"
    unfolding u(1) div64 digit64 [OF B(1)] digit64 [OF C(1)] by simp_all
  then show ?thesis using 3 A(2) B(2) C(2) u(2,3) by (simp add: utf8_nums_def)
next
  case (4 b0 b1 b2 b3)
  then have d: "240 \<le> unat b0" "unat b0 < 248" "decode4 b0 b1 b2 b3 = Some c" using assms lead_len [of b0] by (auto split: if_splits)
  obtain A where A: "A < 8" "unat b0 = 240 + A" "unat b0 mod 8 = A" using window [of 30 8 "unat b0"] d by auto
  obtain B where B: "B < 64" "unat b1 = 128 + B" "unat b1 mod 64 = B" using cont_window [of b1] d(3) unfolding decode4_iff by blast
  obtain C where C: "C < 64" "unat b2 = 128 + C" "unat b2 mod 64 = C" using cont_window [of b2] d(3) unfolding decode4_iff by blast
  obtain D where D: "D < 64" "unat b3 = 128 + D" "unat b3 mod 64 = D" using cont_window [of b3] d(3) unfolding decode4_iff by blast
  have u: "unat c = ((A * 64 + B) * 64 + C) * 64 + D" "65536 \<le> unat c" using d(3) A B C D by (simp_all add: decode4_iff)
  have "unat c div 262144 = A" "unat c div 4096 mod 64 = B" "unat c div 64 mod 64 = C" "unat c mod 64 = D"
    unfolding u(1) div64 digit64 [OF B(1)] digit64 [OF C(1)] digit64 [OF D(1)] by simp_all
  then show ?thesis using 4 A(2) B(2) C(2) D(2) u(2) by (simp add: utf8_nums_def)
qed simp_all

lemma nums_decode_list:
  assumes "map unat bs = utf8_nums (unat c)" "valid_num (unat c)"
  shows "decode_list bs = Some c \<and> unat (utf8_char_len (hd bs)) = length bs \<and> bs \<noteq> []"
proof -
  let ?D = "unat c mod 64" and ?C = "unat c div 64 mod 64" and ?B = "unat c div 4096 mod 64"
  consider "unat c < 128" | "128 \<le> unat c" "unat c < 2048" | "2048 \<le> unat c" "unat c < 65536" | "65536 \<le> unat c" "unat c < 0x110000"
    using assms(2) unfolding valid_num_def by linarith
  then show ?thesis
  proof cases
    case 1
    then obtain b0 where b: "bs = [b0]" "unat b0 = unat c" using assms(1) by (auto simp: utf8_nums_def)
    then show ?thesis using 1 lead_len [of b0] by (auto simp: word_unat_eq_iff)
  next
    case 2
    then obtain b0 b1 where b: "bs = [b0, b1]" "unat b0 = 192 + unat c div 64" "unat b1 = 128 + ?D"
      using assms(1) by (auto simp: utf8_nums_def)
    have q: "unat c div 64 < 32" using 2 by (simp add: div_less_iff_less_mult)
    then have "unat b0 mod 32 = unat c div 64" using window [of 6 32 "unat b0"] b(2) by auto
    moreover have "unat b1 mod 64 = ?D" unfolding b(3) by (rule cont_mod)
    ultimately have "decode2 b0 b1 = Some c" unfolding decode2_iff is_cont_iff using 2 b(3) by simp
    then show ?thesis using b(1,2) q lead_len [of b0] by simp
  next
    case 3
    then obtain b0 b1 b2 where b: "bs = [b0, b1, b2]" "unat b0 = 224 + unat c div 4096" "unat b1 = 128 + ?C" "unat b2 = 128 + ?D"
      using assms(1) by (auto simp: utf8_nums_def)
    have q: "unat c div 4096 < 16" using 3 by (simp add: div_less_iff_less_mult)
    have m0: "unat b0 mod 16 = unat c div 4096" using window [of 14 16 "unat b0"] b(2) q by auto
    have m: "unat b1 mod 64 = ?C" "unat b2 mod 64 = ?D" unfolding b(3,4) by (rule cont_mod)+
    have e: "unat c = (unat c div 4096 * 64 + ?C) * 64 + ?D" by (simp only: div64 div_mult_mod_eq)
    have k: "is_cont b1" "is_cont b2" unfolding is_cont_iff b(3,4) by simp_all
    have "decode3 b0 b1 b2 = Some c" unfolding decode3_iff m0 m using k 3(1) e by blast
    then show ?thesis using b(1,2) q lead_len [of b0] by simp
  next
    case 4
    then obtain b0 b1 b2 b3 where b: "bs = [b0, b1, b2, b3]" "unat b0 = 240 + unat c div 262144" "unat b1 = 128 + ?B"
        "unat b2 = 128 + ?C" "unat b3 = 128 + ?D"
      using assms(1) by (auto simp: utf8_nums_def)
    have q: "unat c div 262144 < 8" using 4 by (simp add: div_less_iff_less_mult)
    have m0: "unat b0 mod 8 = unat c div 262144" using window [of 30 8 "unat b0"] b(2) q by auto
    have m: "unat b1 mod 64 = ?B" "unat b2 mod 64 = ?C" "unat b3 mod 64 = ?D" unfolding b(3-5) by (rule cont_mod)+
    have e: "unat c = ((unat c div 262144 * 64 + ?B) * 64 + ?C) * 64 + ?D" by (simp only: div64 div_mult_mod_eq)
    have k: "is_cont b1" "is_cont b2" "is_cont b3" unfolding is_cont_iff b(3-5) by simp_all
    have "decode4 b0 b1 b2 b3 = Some c" unfolding decode4_iff m0 m using k 4(1) e by blast
    then show ?thesis using b(1,2) q lead_len [of b0] by simp
  qed
qed

section \<open>Texts\<close>

text \<open>The bytes of a text, a list of code points.\<close>

definition enc :: "u32 \<Rightarrow> u8 list" where "enc c = the (utf8_encode c 4)"

definition utf8_text :: "u32 list \<Rightarrow> u8 list" where "utf8_text cs = concat (map enc cs)"

lemma utf8_text_simps [simp]: "utf8_text [] = []" "utf8_text (c # cs) = enc c @ utf8_text cs" "utf8_text (cs @ ds) = utf8_text cs @ utf8_text ds"
  by (simp_all add: utf8_text_def)

lemma enc_nums: "utf8_valid_cp c \<Longrightarrow> utf8_encode c 4 = Some (enc c) \<and> map unat (enc c) = utf8_nums (unat c)"
  using encode_nums by (force simp: enc_def)

lemma enc_length: assumes "utf8_valid_cp c" shows "0 < length (enc c)" "length (enc c) \<le> 4"
proof -
  have "length (enc c) = length (utf8_nums (unat c))" using enc_nums [OF assms] by (metis length_map)
  then show "0 < length (enc c)" "length (enc c) \<le> 4" by (simp_all add: utf8_nums_length)
qed

lemma decode_at_text:
  assumes s: "small s len" "s = pre @ enc c @ post" and c: "utf8_valid_cp c" and i: "i = of_nat (length pre)"
  shows "utf8_decode_at s len i = Inr (Some (c, of_nat (length (enc c))))"
proof -
  have "length pre < length s" unfolding s(2) using enc_length(1) [OF c] by simp
  then have l: "length pre < unat len" "length pre < 2 ^ 32" using s(1) by (simp_all add: small_def)
  have i': "unat i = length pre" unfolding i using l by (simp add: unat_of_nat)
  have n: "decode_list (enc c) = Some c \<and> unat (utf8_char_len (hd (enc c))) = length (enc c) \<and> enc c \<noteq> []"
    using nums_decode_list [of "enc c" c] enc_nums [OF c] c by (simp add: valid_cp_iff)
  have h: "s ! length pre = hd (enc c)" unfolding s(2) using n by (simp add: nth_append hd_conv_nth)
  have w: "utf8_char_len (hd (enc c)) = of_nat (length (enc c))" 
  proof -
    have "of_nat (unat (utf8_char_len (hd (enc c)))) = utf8_char_len (hd (enc c))" by simp
    then show ?thesis using n by metis
  qed
  have t: "take (length (enc c)) (drop (length pre) s) = enc c" "\<not> length s < length pre + length (enc c)" by (simp_all add: s(2))
  have "i < len" using i' l by (simp add: word_less_nat_alt)
  then have "utf8_decode_at s len i =
    (if utf8_char_len (hd (enc c)) = 0 \<or> length s < length pre + length (enc c) then Inr None
     else Inr (Some (c, utf8_char_len (hd (enc c)))))"
    unfolding decode_at_list [OF s(1) \<open>i < len\<close>] i' h Let_def using n c t(1) by simp
  moreover have "utf8_char_len (hd (enc c)) \<noteq> 0" using n by auto
  ultimately show ?thesis using t(2) w by simp
qed

lemma text_end: "small s len \<Longrightarrow> i = of_nat (length s) \<Longrightarrow> i = len" by (simp add: small_def)

lemma text_before:
  assumes "small s len" "s = pre @ enc c @ post" "utf8_valid_cp c" "i = of_nat (length pre)"
  shows "i < len"
proof -
  have "length pre < length s" unfolding assms(2) using enc_length(1) [OF assms(3)] by simp
  then show ?thesis using assms(1) by (simp add: assms(4) small_def word_less_nat_alt unat_of_nat)
qed

lemma validate_text:
  assumes "small s len" "\<forall>c\<in>set cs. utf8_valid_cp c"
  shows "s = pre @ utf8_text cs \<Longrightarrow> i = of_nat (length pre) \<Longrightarrow> utf8_validate_from s len i = Some (Inr True)"
  using assms(2)
proof (induction cs arbitrary: pre i)
  case Nil
  then show ?case using text_end [OF assms(1)] by (subst utf8_validate_from.simps) auto
next
  case (Cons c cs)
  then have s: "s = pre @ enc c @ utf8_text cs" "utf8_valid_cp c" by simp_all
  show ?case using Cons.IH [of "pre @ enc c" "i + of_nat (length (enc c))"] Cons.prems
      decode_at_text [OF assms(1) s Cons.prems(2)] text_before [OF assms(1) s Cons.prems(2)]
    by (subst utf8_validate_from.simps) simp
qed

lemma count_text:
  assumes "small s len" "\<forall>c\<in>set cs. utf8_valid_cp c"
  shows "s = pre @ utf8_text cs \<Longrightarrow> i = of_nat (length pre) \<Longrightarrow> utf8_count_from s len i n = Some (Inr (n + of_nat (length cs)))"
  using assms(2)
proof (induction cs arbitrary: pre i n)
  case Nil
  then show ?case using text_end [OF assms(1)] by (subst utf8_count_from.simps) auto
next
  case (Cons c cs)
  then have s: "s = pre @ enc c @ utf8_text cs" "utf8_valid_cp c" by simp_all
  show ?case using Cons.IH [of "pre @ enc c" "i + of_nat (length (enc c))" "n + 1"] Cons.prems
      decode_at_text [OF assms(1) s Cons.prems(2)] text_before [OF assms(1) s Cons.prems(2)]
    by (subst utf8_count_from.simps) (simp add: algebra_simps)
qed

lemma advance_text:
  assumes "small s len" "\<forall>c\<in>set cs. utf8_valid_cp c"
  shows "s = pre @ utf8_text cs \<Longrightarrow> i = of_nat (length pre) \<Longrightarrow>
    utf8_advance s len k i = Inr (if k \<le> length cs then Some (of_nat (length (pre @ utf8_text (take k cs)))) else None)"
  using assms(2)
proof (induction cs arbitrary: pre i k)
  case Nil
  then have "i = len" using text_end [OF assms(1)] by simp
  then show ?case using Nil by (cases k) (simp_all add: utf8_decode_at_def)
next
  case (Cons c cs)
  then have s: "s = pre @ enc c @ utf8_text cs" "utf8_valid_cp c" by simp_all
  show ?case using Cons.IH [of "pre @ enc c" "i + of_nat (length (enc c))"] Cons.prems decode_at_text [OF assms(1) s Cons.prems(2)]
    by (cases k) simp_all
qed

text \<open>Comparison of texts by their code points.\<close>

definition cmp_text :: "u32 list \<Rightarrow> u32 list \<Rightarrow> u32" where
  "cmp_text a b = (if a = b then 0 else if ord_class.lexordp a b then - 1 else 1)"

lemma cmp_text_simps:
  "cmp_text [] [] = 0" "cmp_text [] (d # ds) = - 1" "cmp_text (c # cs) [] = 1"
  "cmp_text (c # cs) (d # ds) = (if c < d then - 1 else if d < c then 1 else cmp_text cs ds)"
  by (auto simp: cmp_text_def)

lemma compare_text:
  assumes "small a alen" "small b blen" "\<forall>c\<in>set cs \<union> set ds. utf8_valid_cp c"
  shows "a = p @ utf8_text cs \<Longrightarrow> b = q @ utf8_text ds \<Longrightarrow> i = of_nat (length p) \<Longrightarrow> j = of_nat (length q) \<Longrightarrow>
    unicode_compare_from a b alen blen i j = Some (Inr (cmp_text cs ds))"
  using assms(3)
proof (induction cs arbitrary: p i q j ds)
  case Nil
  then have "decode_next a alen i = Inr None" using text_end [OF assms(1)] by (simp add: decode_next_def)
  moreover have "decode_next b blen j = Inr (if ds = [] then None else Some (hd ds, of_nat (length (enc (hd ds)))))"
    using Nil text_end [OF assms(2)] decode_at_text [OF assms(2)] text_before [OF assms(2)]
    by (cases ds) (auto simp: decode_next_def)
  ultimately show ?case by (subst unicode_compare_from.simps) (cases ds; simp add: cmp_text_simps)
next
  case (Cons c cs)
  then have s: "a = p @ enc c @ utf8_text cs" "utf8_valid_cp c" by simp_all
  have da: "decode_next a alen i = Inr (Some (c, of_nat (length (enc c))))"
    using decode_at_text [OF assms(1) s Cons.prems(3)] text_before [OF assms(1) s Cons.prems(3)] by (simp add: decode_next_def)
  show ?case
  proof (cases ds)
    case Nil
    then have "decode_next b blen j = Inr None" using Cons.prems text_end [OF assms(2)] by (simp add: decode_next_def)
    then show ?thesis using da Nil by (subst unicode_compare_from.simps) (simp add: cmp_text_simps)
  next
    case (Cons d ds')
    then have t: "b = q @ enc d @ utf8_text ds'" "utf8_valid_cp d" using Cons.prems by simp_all
    have db: "decode_next b blen j = Inr (Some (d, of_nat (length (enc d))))"
      using decode_at_text [OF assms(2) t Cons.prems(4)] text_before [OF assms(2) t Cons.prems(4)] by (simp add: decode_next_def)
    show ?thesis using Cons.IH [of "p @ enc c" "q @ enc d" ds' "i + of_nat (length (enc c))" "j + of_nat (length (enc d))"] Cons.prems da db Cons
      by (subst unicode_compare_from.simps) (auto simp: cmp_text_simps)
  qed
qed

definition is_text :: "u32 list \<Rightarrow> bool" where
  "is_text cs \<longleftrightarrow> (\<forall>c\<in>set cs. utf8_valid_cp c) \<and> length (utf8_text cs) + 4 < 2 ^ 32"

lemma is_text_small: "is_text cs \<Longrightarrow> small (utf8_text cs) (of_nat (length (utf8_text cs)))"
  by (simp add: is_text_def small_def unat_of_nat)

lemma text_length: "\<forall>c\<in>set cs. utf8_valid_cp c \<Longrightarrow> length cs \<le> length (utf8_text cs)"
proof (induction cs)
  case (Cons c cs)
  then show ?case using enc_length(1) [of c] by (auto simp: Suc_le_eq intro: le_less_trans)
qed simp

lemma offset_text:
  assumes "is_text cs" "0 \<le> sint i"
  shows "utf8_byte_offset_at_cp (utf8_text cs) (of_nat (length (utf8_text cs))) i =
    Inr (if nat (sint i) \<le> length cs then Some (of_nat (length (utf8_text (take (nat (sint i)) cs)))) else None)"
proof -
  let ?t = "utf8_text cs" and ?k = "nat (sint i)"
  have "length (utf8_text (take ?k cs)) \<le> length ?t"
    by (metis append_take_drop_id length_append le_add1 utf8_text_simps(3))
  then have "\<not> (of_nat (length ?t) :: u32) < of_nat (length (utf8_text (take ?k cs)))"
    using assms(1) by (simp add: is_text_def word_less_nat_alt unat_of_nat)
  then show ?thesis using advance_text [OF is_text_small [OF assms(1)], of cs "[]" 0 ?k] assms
    by (simp add: utf8_byte_offset_at_cp_def is_text_def)
qed

lemma drop_text: "drop (length (utf8_text (take k cs))) (utf8_text cs) = utf8_text (drop k cs)"
  by (metis append_eq_conv_conj append_take_drop_id utf8_text_simps(3))

lemma take_text: "take (length (utf8_text (take k cs))) (utf8_text cs) = utf8_text (take k cs)"
  by (metis append_eq_conv_conj append_take_drop_id utf8_text_simps(3))

lemma word_slice:
  assumes "a + b \<le> t" "t < 2 ^ 32"
  shows "unat (of_nat (a + b) - of_nat a :: u32) = b" "unat (of_nat a :: u32) = a"
    "\<not> (of_nat (a + b) :: u32) < of_nat a" "\<not> (of_nat t :: u32) < of_nat (a + b)"
proof -
  have u: "unat (of_nat n :: u32) = n" if "n \<le> t" for n using that assms(2) by (simp add: unat_of_nat)
  have "(of_nat (a + b) - of_nat a :: u32) = of_nat b" by simp
  then show "unat (of_nat (a + b) - of_nat a :: u32) = b" using u [of b] assms(1) by simp
  show "unat (of_nat a :: u32) = a" using u [of a] assms(1) by simp
  show "\<not> (of_nat (a + b) :: u32) < of_nat a" "\<not> (of_nat t :: u32) < of_nat (a + b)"
    unfolding word_less_nat_alt using u [of "a + b"] u [of a] u [of t] assms(1) by linarith+
qed

lemma get_text:
  assumes "is_text cs" "0 \<le> sint i" "nat (sint i) < length cs"
  shows "jdll_std_unicode_get (utf8_text cs) i = Inr (JdlI32 (cs ! nat (sint i)))"
proof -
  let ?k = "nat (sint i)"
  have "utf8_text cs = utf8_text (take ?k cs) @ enc (cs ! ?k) @ utf8_text (drop (Suc ?k) cs)"
    by (metis assms(3) id_take_nth_drop utf8_text_simps(2,3))
  moreover have "utf8_valid_cp (cs ! ?k)" using assms by (simp add: is_text_def)
  ultimately have "utf8_decode_at (utf8_text cs) (of_nat (length (utf8_text cs))) (of_nat (length (utf8_text (take ?k cs)))) =
      Inr (Some (cs ! ?k, of_nat (length (enc (cs ! ?k)))))"
    using decode_at_text [OF is_text_small [OF assms(1)]] by blast
  then show ?thesis using assms by (simp add: jdll_std_unicode_get_def offset_text Let_def)
qed

lemma sub_text:
  assumes "is_text cs" "0 \<le> sint p" "0 < sint n" "nat (sint p) + nat (sint n) \<le> length cs"
  shows "jdll_std_unicode_sub (utf8_text cs) p n = Inr (JdlBytes (utf8_text (take (nat (sint n)) (drop (nat (sint p)) cs))))"
proof -
  let ?t = "utf8_text cs" and ?k = "nat (sint p)" and ?n = "nat (sint n)"
  let ?a = "length (utf8_text (take ?k cs))" and ?m = "utf8_text (take ?n (drop ?k cs))"
  have v: "\<forall>c\<in>set (drop ?k cs). utf8_valid_cp c" using assms(1) by (auto simp: is_text_def dest: in_set_dropD)
  have d: "?t = utf8_text (take ?k cs) @ utf8_text (drop ?k cs)" by (metis append_take_drop_id utf8_text_simps(3))
  have "length ?m \<le> length (utf8_text (drop ?k cs))" by (metis append_take_drop_id le_add1 length_append utf8_text_simps(3))
  then have l: "?a + length ?m \<le> length ?t" using arg_cong [OF d, of length] by simp
  have l2: "length ?t < 2 ^ 32" using assms(1) by (simp add: is_text_def)
  have i: "utf8_advance ?t (of_nat (length ?t)) ?n (of_nat ?a) = Inr (Some (of_nat (?a + length ?m)))"
    using advance_text [OF is_text_small [OF assms(1)] v d refl, of ?n] assms(4) by simp
  note w = word_slice [OF l l2]
  have "n \<noteq> 0" using assms(3) by auto
  then show ?thesis using assms(2-4) i w unfolding jdll_std_unicode_sub_def Let_def offset_text [OF assms(1,2)]
    by (simp add: drop_text take_text del: of_nat_add)
qed

text \<open>C34: the operations on UTF-8 bytes are those on texts. For the encoding of any list of code points: it is valid, its length is the
  number of code points, the code point at an index and the slice of a range are those of the list, and two encodings compare as
  the lists of code points do, lexicographically.\<close>

theorem unicode_operations_on_texts:
  assumes "is_text cs" "is_text ds"
  shows "jdll_std_unicode_validate (utf8_text cs) = Some (Inr (JdlBool True)) \<and>
    jdll_std_unicode_length (utf8_text cs) = Some (Inr (JdlI32 (of_nat (length cs)))) \<and>
    (\<forall>i<length cs. i < 2 ^ 31 \<longrightarrow> jdll_std_unicode_get (utf8_text cs) (of_nat i) = Inr (JdlI32 (cs ! i))) \<and>
    (\<forall>i n. 0 < n \<and> i + n \<le> length cs \<and> i < 2 ^ 31 \<and> n < 2 ^ 31 \<longrightarrow>
      jdll_std_unicode_sub (utf8_text cs) (of_nat i) (of_nat n) = Inr (JdlBytes (utf8_text (take n (drop i cs))))) \<and>
    jdll_std_unicode_compare (utf8_text cs) (utf8_text ds) = Some (Inr (JdlI32 (cmp_text cs ds)))"
proof (intro conjI allI impI)
  have v: "\<forall>c\<in>set cs. utf8_valid_cp c" "\<forall>c\<in>set cs \<union> set ds. utf8_valid_cp c" "length cs + 4 < 2 ^ 32"
    using assms text_length [of cs] by (auto simp: is_text_def)
  note s = is_text_small [OF assms(1)] is_text_small [OF assms(2)]
  have nat: "sint (of_nat k :: u32) = int k" if "k < 2 ^ 31" for k
    using sint_small [of "of_nat k"] that by (simp add: unat_of_nat)
  have "(of_nat (length cs) :: u32) \<noteq> 0xFFFFFFFF" using v(3) by (simp add: word_unat_eq_iff unat_of_nat)
  then show "jdll_std_unicode_length (utf8_text cs) = Some (Inr (JdlI32 (of_nat (length cs))))"
    using count_text [OF s(1) v(1), of "[]" 0 0] by (simp add: jdll_std_unicode_length_def utf8_codepoint_count_def)
  show "jdll_std_unicode_validate (utf8_text cs) = Some (Inr (JdlBool True))"
    using validate_text [OF s(1) v(1), of "[]" 0] by (simp add: jdll_std_unicode_validate_def utf8_validate_bytes_def)
  show "jdll_std_unicode_get (utf8_text cs) (of_nat i) = Inr (JdlI32 (cs ! i))" if "i < length cs" "i < 2 ^ 31" for i
    using get_text [OF assms(1), of "of_nat i"] nat [of i] that by simp
  show "jdll_std_unicode_sub (utf8_text cs) (of_nat i) (of_nat n) = Inr (JdlBytes (utf8_text (take n (drop i cs))))"
    if "0 < n \<and> i + n \<le> length cs \<and> i < 2 ^ 31 \<and> n < 2 ^ 31" for i n
    using sub_text [OF assms(1), of "of_nat i" "of_nat n"] nat [of i] nat [of n] that by simp
  show "jdll_std_unicode_compare (utf8_text cs) (utf8_text ds) = Some (Inr (JdlI32 (cmp_text cs ds)))"
    using compare_text [OF s v(2), of "[]" "[]" 0 0] by (simp add: jdll_std_unicode_compare_def)
qed

lemma unicode_operations_on_texts_witness:
  "jdll_std_unicode_sub (utf8_text [0x61, 0x20AC, 0x1F600]) 1 1 = Inr (JdlBytes [0xE2, 0x82, 0xAC])"
proof -
  have t: "is_text [0x61, 0x20AC, 0x1F600]" "utf8_text [0x20AC] = [0xE2, 0x82, 0xAC]"
    by (simp_all add: is_text_def utf8_valid_cp_def utf8_text_def enc_def utf8_encode_def)
  then show ?thesis using unicode_operations_on_texts [OF t(1,1)] by (auto dest!: spec [of _ 1])
qed

text \<open>A sequence with a lead byte below \<open>0xF8\<close> is accepted only if it is the encoding of the code point that it gives.\<close>

lemma utf8_decoder_sound:
  assumes s: "small s len" and d: "utf8_decode_at s len off = Inr (Some (c, n))" and b: "unat (s ! unat off) < 248"
  shows "utf8_encode c 4 = Some (take (unat n) (drop (unat off) s))"
proof -
  have o: "off < len" using d by (simp add: utf8_decode_at_def not_le split: if_splits)
  let ?t = "take (unat n) (drop (unat off) s)"
  have r: "decode_list ?t = Some c" "utf8_valid_cp c" "n = utf8_char_len (s ! unat off)" "n \<noteq> 0"
    using d unfolding decode_at_list [OF s o] Let_def by (auto split: if_splits option.splits)
  have "hd ?t = s ! unat off" using o s r(4) by (simp add: hd_drop_conv_nth small_def word_less_nat_alt unat_gt_0)
  then have "map unat ?t = utf8_nums (unat c)" using decode_list_nums [OF r(1)] b by simp
  then have "map unat ?t = map unat (enc c)" using enc_nums [OF r(2)] by simp
  moreover have "inj (unat :: u8 \<Rightarrow> nat)" by (rule injI) (simp add: word_unat_eq_iff)
  ultimately have "?t = enc c" by (simp add: inj_map_eq_map)
  then show ?thesis using enc_nums [OF r(2)] by simp
qed

lemma encode_lead: assumes e: "utf8_encode c 4 = Some bs" shows "unat (hd bs) < 248"
proof -
  have v: "utf8_valid_cp c" using e by (simp add: utf8_encode_def split: if_splits)
  then have n: "map unat bs = utf8_nums (unat c)" using enc_nums [OF v] e by simp
  have "unat c \<le> 0x10FFFF" using v by (simp add: valid_cp_iff valid_num_def)
  moreover have "unat (hd bs) = hd (utf8_nums (unat c))" using n by (cases bs) (auto simp: utf8_nums_def split: if_splits)
  ultimately show ?thesis by (auto simp: utf8_nums_def)
qed

text \<open>C35: what the decoder accepts. Below the lead byte \<open>0xF8\<close> it accepts a sequence only if it is the encoding of the code point that it
  gives. But the lead bytes \<open>0xF8\<close> to \<open>0xFF\<close>, which no encoding has, count as \<open>0xF0\<close> to \<open>0xF7\<close>: bytes that are not UTF-8 pass
  the validation.\<close>

theorem utf8_decoder_accepts:
  "(\<forall>s len off c n. small s len \<and> utf8_decode_at s len off = Inr (Some (c, n)) \<and> unat (s ! unat off) < 248 \<longrightarrow>
     utf8_encode c 4 = Some (take (unat n) (drop (unat off) s))) \<and>
   jdll_std_unicode_validate [0xF9, 0x80, 0x80, 0x80] = Some (Inr (JdlBool True)) \<and>
   jdll_std_unicode_get [0xF9, 0x80, 0x80, 0x80] 0 = Inr (JdlI32 0x40000) \<and> (\<forall>c. utf8_encode c 4 \<noteq> Some [0xF9, 0x80, 0x80, 0x80])"
proof -
  have "\<forall>c. utf8_encode c 4 \<noteq> Some [0xF9, 0x80, 0x80, 0x80]" using encode_lead by fastforce
  moreover have "jdll_std_unicode_validate [0xF9, 0x80, 0x80, 0x80] = Some (Inr (JdlBool True))"
    "jdll_std_unicode_get [0xF9, 0x80, 0x80, 0x80] 0 = Inr (JdlI32 0x40000)" by code_simp+
  ultimately show ?thesis using utf8_decoder_sound by blast
qed

lemma utf8_decoder_accepts_witness:
  "utf8_encode 0x20AC 4 = Some [0xE2, 0x82, 0xAC] \<and> utf8_decode_at [0xE2, 0x82, 0xAC] 3 0 = Inr (Some (0x20AC, 3))"
proof -
  have "small [0xE2, 0x82, 0xAC] 3" by (simp add: small_def)
  moreover have d: "utf8_decode_at [0xE2, 0x82, 0xAC] 3 0 = Inr (Some (0x20AC, 3))" by code_simp
  ultimately have "utf8_encode 0x20AC 4 = Some (take (unat (3 :: u32)) (drop (unat (0 :: u32)) [0xE2, 0x82, 0xAC]))"
    using utf8_decoder_accepts by (elim conjE allE) fastforce
  then show ?thesis using d by simp
qed

section \<open>Growing texts\<close>

text \<open>The capacity doubles until it suffices; the loop ends, since it starts with a capacity above 0.\<close>

lemma unicode_cap_ends:
  assumes "cap \<noteq> 0"
  shows "\<exists>r. unicode_cap cap needed = Some r \<and> (\<forall>c. r = Some c \<longrightarrow> cap \<le> c \<and> needed \<le> c)"
  using assms
proof (induction "2 ^ 32 - unat cap" arbitrary: cap rule: less_induct)
  case less
  show ?case
  proof (cases "cap < needed \<and> \<not> 0x7FFFFFFF < cap")
    case True
    then have u: "unat (cap * 2) = unat cap * 2" by (simp add: unat_word_ariths word_less_nat_alt)
    have "0 < unat cap" using less.prems by (simp add: unat_gt_0)
    then have "2 ^ 32 - unat (cap * 2) < 2 ^ 32 - unat cap" "cap * 2 \<noteq> 0" "cap \<le> cap * 2"
      using u unat_u32_less [of "cap * 2"] by (auto simp: word_le_nat_alt)
    then obtain r where "unicode_cap (cap * 2) needed = Some r" "\<forall>c. r = Some c \<longrightarrow> cap * 2 \<le> c \<and> needed \<le> c"
      using less.hyps by blast
    then show ?thesis using True \<open>cap \<le> cap * 2\<close> by (subst unicode_cap.simps) (auto intro: order_trans)
  next
    case False
    then show ?thesis by (subst unicode_cap.simps) auto
  qed
qed

text \<open>The buffer \<open>b\<close> holds the text \<open>cs\<close>.\<close>

definition holds_text :: "unicode_buf \<Rightarrow> u32 list \<Rightarrow> bool" where
  "holds_text b cs \<longleftrightarrow> is_text cs \<and> ub_data b = utf8_text cs \<and> ub_len b = of_nat (length (utf8_text cs)) \<and>
     length (utf8_text cs) \<le> unat (ub_cap b) \<and> ub_chars b = of_nat (length cs)"

lemma holds_len: "holds_text b cs \<Longrightarrow> unat (ub_len b) = length (utf8_text cs)"
  by (simp add: holds_text_def is_text_def unat_of_nat)

lemma grow_text:
  assumes "holds_text b cs" "n \<le> 4"
  shows "\<exists>b' ok. unicode_buf_grow realloc b (of_nat n) = Some (b', ok) \<and> holds_text b' cs \<and>
    (ok \<longrightarrow> length (utf8_text cs) + n \<le> unat (ub_cap b')) \<and> (\<not> ok \<longrightarrow> b' = b)"
proof -
  have l: "unat (ub_len b + of_nat n) = length (utf8_text cs) + n"
    using assms by (simp add: holds_len unat_word_ariths unat_of_nat) (simp add: holds_text_def is_text_def)
  have "(if ub_cap b \<noteq> 0 then ub_cap b else 8) \<noteq> 0" by simp
  from unicode_cap_ends [OF this, of "ub_len b + of_nat n"]
  obtain r where r: "unicode_cap (if ub_cap b \<noteq> 0 then ub_cap b else 8) (ub_len b + of_nat n) = Some r"
      "\<forall>c. r = Some c \<longrightarrow> (if ub_cap b \<noteq> 0 then ub_cap b else 8) \<le> c \<and> ub_len b + of_nat n \<le> c"
    by blast
  show ?thesis
  proof (cases "ub_len b + of_nat n \<le> ub_cap b")
    case True
    then show ?thesis using assms(1) l by (auto simp: unicode_buf_grow_def word_le_nat_alt)
  next
    case False
    then show ?thesis using r assms(1) l
      by (cases r) (auto simp: unicode_buf_grow_def holds_text_def word_le_nat_alt simp del: of_nat_add)
  qed
qed


lemma new_buffer_empty: "jdll_std_unicode_buf_new malloc cap = Inr b \<Longrightarrow> holds_text b []"
  by (auto simp: jdll_std_unicode_buf_new_def holds_text_def is_text_def Let_def split: if_splits)


end
