(* ===== verification/Jello_Strutil.thy ===== *)
theory Jello_Strutil
  imports Jello_Unicode
begin

text \<open>
  The helpers for zero-terminated UTF-16 strings, \<^verbatim>\<open>src/types/strutil.c\<close>: length, copy and comparison, reading of integers and
  doubles, conversion to UTF-8, and the small formatter \<open>uvszprintf\<close>. What the C library does with doubles, \<open>strtod\<close> and
  \<open>print_double\<close>, is a parameter.

  The lemmas show that the conversion yields the UTF-8 form of the code points, that no output leaves its buffer, that a printed
  integer is read back, and that the text of a long double is read past its end.
\<close>

unbundle bit_operations_syntax
section \<open>UTF-16 strings\<close>

text \<open>A pointer into a string is the list of the code units from there to the end of its memory; reading on past that is a \<open>FAULT\<close>.
  \<open>u_get\<close> is \<^verbatim>\<open>*str++\<close>.\<close>

definition u_get :: "u16 list \<Rightarrow> (u16 \<times> u16 list) run" where
  "u_get s = (case s of [] \<Rightarrow> Inl FAULT | c # s \<Rightarrow> Inr (c, s))"

lemma u_get_simps [simp]: "u_get [] = Inl FAULT" "u_get (c # s) = Inr (c, s)" by (simp_all add: u_get_def)

fun utostr_utf8_len :: "u16 list \<Rightarrow> nat run" where
  "utostr_utf8_len [] = Inl FAULT"
| "utostr_utf8_len (c # s) =
     (if c = 0 then Inr 0
      else if c < 0x80 then rbind (utostr_utf8_len s) (\<lambda>n. Inr (1 + n))
      else if c < 0x800 then rbind (utostr_utf8_len s) (\<lambda>n. Inr (2 + n))
      else if 0xD800 \<le> c \<and> c \<le> 0xDFFF then
        (case s of [] \<Rightarrow> Inl FAULT | _ # s \<Rightarrow> rbind (utostr_utf8_len s) (\<lambda>n. Inr (4 + n)))
      else rbind (utostr_utf8_len s) (\<lambda>n. Inr (3 + n)))"

definition JELLO_UTOI_MAX_DIGITS :: nat where "JELLO_UTOI_MAX_DIGITS = 16"

text \<open>The loop over the digits: \<open>acc\<close> stays below \<open>10 ^ 16\<close>, so it is no 64-bit word.\<close>

fun utoi_digits :: "nat \<Rightarrow> u16 list \<Rightarrow> int \<Rightarrow> nat \<Rightarrow> (int \<times> nat \<times> u16 list) run" where
  "utoi_digits 0 p acc ndigits = Inr (acc, ndigits, p)"
| "utoi_digits (Suc k) [] acc ndigits = Inl FAULT"
| "utoi_digits (Suc k) (c # p) acc ndigits =
     (if c < 0x30 \<or> 0x39 < c then Inr (acc, ndigits, c # p)
      else utoi_digits k p (acc * 10 + uint (c - 0x30)) (ndigits + 1))"

text \<open>The result is the value and the rest of the string.\<close>

definition utoi :: "u16 list \<Rightarrow> (u32 \<times> u16 list) run" where
  "utoi str =
     rbind (u_get str) (\<lambda>(c0, p).
       let signed = c0 = 0x2D \<or> c0 = 0x2B; neg = c0 = 0x2D in
       rbind (utoi_digits (if signed then JELLO_UTOI_MAX_DIGITS - 1 else JELLO_UTOI_MAX_DIGITS) (if signed then p else str) 0 0)
         (\<lambda>(acc, ndigits, p). Inr (if ndigits = 0 then (0, str) else (word_of_int (if neg then - acc else acc), p))))"

fun ustrlen :: "u16 list \<Rightarrow> nat run" where
  "ustrlen [] = Inl FAULT"
| "ustrlen (c # p) = (if c \<noteq> 0 then rbind (ustrlen p) (\<lambda>n. Inr (Suc n)) else Inr 0)"

definition ustrdup :: "u16 list \<Rightarrow> u16 list run" where
  "ustrdup str = rbind (ustrlen str) (\<lambda>len. Inr (take (len + 1) str))"

fun ucmp :: "u16 list \<Rightarrow> u16 list \<Rightarrow> int run" where
  "ucmp [] b = Inl FAULT"
| "ucmp a [] = Inl FAULT"
| "ucmp (c # a) (d # b) =
     (let e = uint c - uint d in if e \<noteq> 0 then Inr e else if c = 0 then Inr 0 else ucmp a b)"

section \<open>UTF-16 to UTF-8\<close>

text \<open>\<open>room\<close> is \<^verbatim>\<open>end - out\<close>.\<close>

fun utostr_ascii :: "nat \<Rightarrow> u16 list \<Rightarrow> (u8 list \<times> nat \<times> u16 list) run" where
  "utostr_ascii 0 str = Inr ([], 0, str)"
| "utostr_ascii (Suc room) [] = Inl FAULT"
| "utostr_ascii (Suc room) (c # str) =
     (if c = 0 \<or> 0x80 \<le> c then Inr ([], Suc room, c # str)
      else rbind (utostr_ascii room str) (\<lambda>(out, room, str). Inr (ucast c # out, room, str)))"

definition utf8_2 :: "u32 \<Rightarrow> u8 list" where
  "utf8_2 c = [ucast (0xC0 OR drop_bit 6 c), ucast (0x80 OR (c AND 63))]"

definition utf8_3 :: "u32 \<Rightarrow> u8 list" where
  "utf8_3 c = [ucast (0xE0 OR drop_bit 12 c), ucast (0x80 OR (drop_bit 6 c AND 63)), ucast (0x80 OR (c AND 63))]"

definition utf8_4 :: "u32 \<Rightarrow> u8 list" where
  "utf8_4 c = [ucast (0xF0 OR drop_bit 18 c), ucast (0x80 OR (drop_bit 12 c AND 63)), ucast (0x80 OR (drop_bit 6 c AND 63)), ucast (0x80 OR (c AND 63))]"

definition surrogate_pair :: "u32 \<Rightarrow> u32 \<Rightarrow> u32" where
  "surrogate_pair c d = (push_bit 10 (c - 0xD800) OR (d - 0xDC00)) + 0x10000"

fun utostr_loop :: "nat \<Rightarrow> u16 list \<Rightarrow> u8 list run" where
  "utostr_loop room [] = (if room = 0 then Inr [] else Inl FAULT)"
| "utostr_loop room (u # str) =
     (let c = ucast u :: u32 in
      if room = 0 \<or> c = 0 then Inr []
      else if c < 0x80 then rbind (utostr_loop (room - 1) str) (\<lambda>out. Inr (ucast c # out))
      else if c < 0x800 then
        (if room < 2 then Inr [] else rbind (utostr_loop (room - 2) str) (\<lambda>out. Inr (utf8_2 c @ out)))
      else if 0xD800 \<le> c \<and> c \<le> 0xDFFF then
        (if room < 4 then Inr []
         else
           (case str of
              [] \<Rightarrow> Inl FAULT
            | v # str \<Rightarrow> rbind (utostr_loop (room - 4) str) (\<lambda>out. Inr (utf8_4 (surrogate_pair c (ucast v)) @ out))))
      else if room < 3 then Inr []
      else rbind (utostr_loop (room - 3) str) (\<lambda>out. Inr (utf8_3 c @ out)))"

text \<open>The bytes written before the final 0, whose number is the result of the C function. For \<^verbatim>\<open>out_size <= 0\<close> nothing is written.\<close>

definition utostr :: "nat \<Rightarrow> u16 list \<Rightarrow> u8 list run" where
  "utostr out_size str =
     (if out_size = 0 then Inr []
      else
        rbind (utostr_ascii (out_size - 1) str) (\<lambda>(out, room, str). rbind (utostr_loop room str) (\<lambda>out'. Inr (out @ out'))))"

section \<open>Numbers\<close>

lemma unat_div_less: "(v :: 'a::len word) div k \<noteq> 0 \<Longrightarrow> 1 < unat k \<Longrightarrow> unat (v div k) < unat v"
  by (cases "v = 0") (auto simp: unat_div unat_gt_0)

text \<open>The digits from the last to the first, as the loops store them in \<open>tmp\<close>.\<close>

function u32_dec_loop :: "u32 \<Rightarrow> u8 list" where
  "u32_dec_loop v = (0x30 + ucast (v mod 10)) # (if v div 10 \<noteq> 0 then u32_dec_loop (v div 10) else [])"
  by pat_completeness auto
termination by (relation "measure unat") (simp_all add: unat_div_less)

function u64_dec_loop :: "u64 \<Rightarrow> u8 list" where
  "u64_dec_loop v = (0x30 + ucast (v mod 10)) # (if v div 10 \<noteq> 0 then u64_dec_loop (v div 10) else [])"
  by pat_completeness auto
termination by (relation "measure unat") (simp_all add: unat_div_less)

definition hex_char :: "bool \<Rightarrow> nat \<Rightarrow> u8" where
  "hex_char upper d = (if d < 10 then 0x30 + of_nat d else (if upper then 0x41 else 0x61) + of_nat (d - 10))"

function u32_hex_loop :: "bool \<Rightarrow> u32 \<Rightarrow> u8 list" where
  "u32_hex_loop upper v = hex_char upper (unat (v AND 0xF)) # (if drop_bit 4 v \<noteq> 0 then u32_hex_loop upper (drop_bit 4 v) else [])"
  by pat_completeness auto
termination by (relation "measure (\<lambda>(_, v). unat v)") (simp_all add: drop_bit_eq_div unat_div_less)

function uptr_hex_loop :: "bool \<Rightarrow> u64 \<Rightarrow> u8 list" where
  "uptr_hex_loop upper v = hex_char upper (unat (v AND 0xF)) # (if drop_bit 4 v \<noteq> 0 then uptr_hex_loop upper (drop_bit 4 v) else [])"
  by pat_completeness auto
termination by (relation "measure (\<lambda>(_, v). unat v)") (simp_all add: drop_bit_eq_div unat_div_less)

declare uptr_hex_loop.simps [simp del]
declare u32_dec_loop.simps [simp del] u64_dec_loop.simps [simp del] u32_hex_loop.simps [simp del]

definition u32_to_dec :: "u32 \<Rightarrow> u8 list" where "u32_to_dec v = rev (u32_dec_loop v)"
definition u64_to_dec :: "u64 \<Rightarrow> u8 list" where "u64_to_dec v = rev (u64_dec_loop v)"
definition u32_to_hex :: "bool \<Rightarrow> u32 \<Rightarrow> u8 list" where "u32_to_hex upper v = rev (u32_hex_loop upper v)"

definition uptr_to_hex :: "bool \<Rightarrow> u64 \<Rightarrow> u8 list" where "uptr_to_hex upper v = rev (uptr_hex_loop upper v)"

section \<open>Formatting\<close>

text \<open>The arguments; \<open>print_double g v\<close> is the text that \<^verbatim>\<open>snprintf\<close> has for \<^verbatim>\<open>%g\<close> or \<^verbatim>\<open>%f\<close>. \<^verbatim>\<open>jello_fatal\<close> ends the process: \<open>PANIC\<close>.\<close>

datatype u_arg = UInt u32 | ULong u64 | UPtr u64 | UStr "u16 list option" | UDouble u64

fun ustr_copy :: "nat \<Rightarrow> u16 list \<Rightarrow> u16 list run" where
  "ustr_copy room [] = Inl FAULT"
| "ustr_copy room (c # s) = (if c = 0 \<or> room = 0 then Inr [] else rbind (ustr_copy (room - 1) s) (\<lambda>out. Inr (c # out)))"

text \<open>A conversion leaves its text in \<open>tmp\<close>, an array of 64 bytes, and the size that it takes the text to have.\<close>

definition signed_dec :: "bool \<Rightarrow> u8 list \<Rightarrow> u8 list \<times> nat" where
  "signed_dec neg digits = (let t = (if neg then [0x2D] else []) @ digits in (t, length t))"

definition take_arg :: "u_arg list \<Rightarrow> (u_arg \<times> u_arg list) run" where
  "take_arg args = (case args of [] \<Rightarrow> Inl FAULT | a # args \<Rightarrow> Inr (a, args))"

text \<open>The specifier is cut to a \<^verbatim>\<open>char\<close> first, but for the choice between \<open>x\<close> and \<open>X\<close>.\<close>

definition convert :: "(bool \<Rightarrow> u64 \<Rightarrow> u8 list) \<Rightarrow> bool \<Rightarrow> u16 \<Rightarrow> u_arg list \<Rightarrow> ((u8 list \<times> nat) \<times> u_arg list) run" where
  "convert print_double is_long spec args =
     (let ch = ucast spec :: u8 in
      if ch = 0x64 then
        rbind (take_arg args) (\<lambda>(arg, args).
          case (is_long, arg) of
            (True, ULong v) \<Rightarrow> Inr (if sint v < 0 then signed_dec True (u64_to_dec (- v)) else signed_dec False (u64_to_dec v), args)
          | (False, UInt v) \<Rightarrow> Inr (if sint v < 0 then signed_dec True (u32_to_dec (- v)) else signed_dec False (u32_to_dec v), args)
          | _ \<Rightarrow> Inl FAULT)
      else if ch = 0x66 \<or> ch = 0x67 then
        rbind (take_arg args) (\<lambda>(arg, args).
          case arg of
            UDouble v \<Rightarrow> (let t = print_double (ch = 0x67) v in Inr ((take 63 t @ [0], length t), args))
          | _ \<Rightarrow> Inl FAULT)
      else if ch = 0x78 \<or> ch = 0x58 then
        rbind (take_arg args) (\<lambda>(arg, args).
          case (is_long, arg) of
            (True, UPtr v) \<Rightarrow> (let t = uptr_to_hex (spec = 0x58) v in Inr ((t, length t), args))
          | (False, UInt v) \<Rightarrow> (let t = u32_to_hex (spec = 0x58) v in Inr ((t, length t), args))
          | _ \<Rightarrow> Inl FAULT)
      else Inl PANIC)"

text \<open>\<open>n\<close> bytes from \<open>tmp\<close>, as far as there is room. Bytes of \<open>tmp\<close> behind the text are indeterminate: reading them is undefined too.\<close>

definition append_ascii :: "nat \<Rightarrow> u8 list \<Rightarrow> nat \<Rightarrow> u16 list run" where
  "append_ascii room tmp n = (if min n room \<le> length tmp then Inr (map ucast (take (min n room) tmp)) else Inl FAULT)"

definition null_text :: "u16 list" where "null_text = [0x28, 0x6E, 0x75, 0x6C, 0x6C, 0x29, 0]"

definition is_digit_or_dot :: "u16 \<Rightarrow> bool" where
  "is_digit_or_dot spec \<longleftrightarrow> spec = 0x2E \<or> 0x30 \<le> spec \<and> spec \<le> 0x39"

text \<open>What follows a \<open>%\<close>: \<open>None\<close> ends the loop, as a format that stops short does.\<close>

definition directive :: "(bool \<Rightarrow> u64 \<Rightarrow> u8 list) \<Rightarrow> nat \<Rightarrow> u16 list \<Rightarrow> u_arg list \<Rightarrow> (u16 list \<times> u16 list \<times> u_arg list) option run" where
  "directive print_double room fmt args =
     rbind (u_get fmt) (\<lambda>(spec, fmt).
       if spec = 0 then Inr None
       else if spec = 0x25 then Inr (Some ([0x25], fmt, args))
       else if is_digit_or_dot spec then Inl PANIC
       else
         rbind (if spec = 0x6C then rbind (u_get fmt) (\<lambda>(spec, fmt). Inr (True, spec, fmt)) else Inr (False, spec, fmt)) (\<lambda>(is_long, spec, fmt).
           if spec = 0 then Inr None
           else if spec = 0x73 then
             rbind (take_arg args) (\<lambda>(arg, args).
               case arg of
                 UStr s \<Rightarrow> rbind (ustr_copy room (case s of None \<Rightarrow> null_text | Some s \<Rightarrow> s)) (\<lambda>out. Inr (Some (out, fmt, args)))
               | _ \<Rightarrow> Inl FAULT)
           else
             rbind (convert print_double is_long spec args) (\<lambda>((tmp, size), args).
             rbind (append_ascii room tmp size) (\<lambda>out. Inr (Some (out, fmt, args))))))"

lemma directive_shorter: "directive pd room fmt args = Inr (Some (out, fmt', args')) \<Longrightarrow> length fmt' < length fmt"
  by (auto simp: directive_def u_get_def rbind_def split: list.splits if_splits sum.splits prod.splits u_arg.splits)

function uvszprintf_loop :: "(bool \<Rightarrow> u64 \<Rightarrow> u8 list) \<Rightarrow> nat \<Rightarrow> u16 list \<Rightarrow> u_arg list \<Rightarrow> u16 list run" where
  "uvszprintf_loop print_double room fmt args =
     (if room = 0 then Inr []
      else
        (case fmt of
           [] \<Rightarrow> Inl FAULT
         | c # fmt' \<Rightarrow>
             if c = 0 then Inr []
             else if c \<noteq> 0x25 then rbind (uvszprintf_loop print_double (room - 1) fmt' args) (\<lambda>out. Inr (c # out))
             else
               (case directive print_double room fmt' args of
                  Inl e \<Rightarrow> Inl e
                | Inr None \<Rightarrow> Inr []
                | Inr (Some (out, fmt'', args')) \<Rightarrow>
                    rbind (uvszprintf_loop print_double (room - length out) fmt'' args') (\<lambda>out'. Inr (out @ out')))))"
  by pat_completeness auto
termination
  by (relation "measure (\<lambda>(_, _, fmt, _). length fmt)") (auto dest!: directive_shorter)

declare uvszprintf_loop.simps [simp del]

text \<open>The code units written before the final 0.\<close>

definition uvszprintf :: "(bool \<Rightarrow> u64 \<Rightarrow> u8 list) \<Rightarrow> nat \<Rightarrow> u16 list \<Rightarrow> u_arg list \<Rightarrow> u16 list run" where
  "uvszprintf print_double out_size fmt args = (if out_size = 0 then Inr [] else uvszprintf_loop print_double (out_size - 1) fmt args)"

text \<open>The two strings that \<^verbatim>\<open>uprintf\<close> hands to \<^verbatim>\<open>printf\<close>.\<close>

definition uprintf_text :: "u16 list option \<Rightarrow> u8 list run" where
  "uprintf_text str =
     (case str of
        None \<Rightarrow> Inr []
      | Some s \<Rightarrow> rbind (utostr_utf8_len s) (\<lambda>n. utostr (n + 1) s))"

definition uprintf :: "u16 list option \<Rightarrow> u16 list option \<Rightarrow> (u8 list \<times> u8 list) run" where
  "uprintf fmt str = rbind (uprintf_text fmt) (\<lambda>cfmt. rbind (uprintf_text str) (\<lambda>cstr. Inr (cfmt, cstr)))"

section \<open>Numbers with a fraction\<close>

text \<open>\<open>strtod\<close> gives the value of a text and the number of characters that it took.\<close>

definition JELLO_UTOD_MAX_PREFIX :: nat where "JELLO_UTOD_MAX_PREFIX = 30"

definition number_char :: "u16 \<Rightarrow> bool" where
  "number_char c \<longleftrightarrow> c - 0x30 \<le> 9 \<or> c = 0x2E \<or> c = 0x65 \<or> c = 0x45 \<or> c = 0x2D \<or> c = 0x2B"

fun number_prefix :: "nat \<Rightarrow> u16 list \<Rightarrow> u8 list run" where
  "number_prefix 0 p = Inr []"
| "number_prefix (Suc room) [] = Inl FAULT"
| "number_prefix (Suc room) (c # p) =
     (if number_char c then rbind (number_prefix room p) (\<lambda>w. Inr (ucast c # w)) else Inr [])"

definition utod :: "(u8 list \<Rightarrow> u64 \<times> nat) \<Rightarrow> u16 list option \<Rightarrow> (u64 \<times> u16 list option) run" where
  "utod strtod str =
     (case str of
        None \<Rightarrow> Inr (0, None)
      | Some s \<Rightarrow>
          rbind (u_get s) (\<lambda>(c0, _).
            if \<not> number_char c0 then Inr (0, Some s)
            else
              rbind (number_prefix JELLO_UTOD_MAX_PREFIX s) (\<lambda>buf.
                case strtod buf of (result, n) \<Rightarrow> Inr (result, Some (drop n s)))))"

section \<open>Decimal numbers\<close>

definition digits :: "u8 list \<Rightarrow> bool" where "digits bs \<longleftrightarrow> (\<forall>b\<in>set bs. 48 \<le> unat b \<and> unat b \<le> 57)"

definition dec_val :: "int \<Rightarrow> u8 list \<Rightarrow> int" where "dec_val = foldl (\<lambda>acc b. acc * 10 + (int (unat b) - 48))"

lemma digit_unit:
  assumes "48 \<le> unat (b :: u8)" "unat b \<le> 57"
  shows "\<not> (ucast b :: u16) < 0x30" "\<not> 0x39 < (ucast b :: u16)" "uint (ucast b - 0x30 :: u16) = int (unat b) - 48"
proof -
  have u: "unat (ucast b :: u16) = unat b" by simp
  show "\<not> (ucast b :: u16) < 0x30" "\<not> 0x39 < (ucast b :: u16)" using assms u by (simp_all add: word_less_nat_alt)
  have "unat (ucast b - 0x30 :: u16) = unat b - 48" using assms u by (simp add: unat_sub word_le_nat_alt)
  then show "uint (ucast b - 0x30 :: u16) = int (unat b) - 48" using assms by (simp add: uint_nat of_nat_diff del: of_nat_unat)
qed

lemma utoi_digits_append:
  "digits bs \<Longrightarrow> utoi_digits (length bs + k) (map ucast bs @ p) acc n = utoi_digits k p (dec_val acc bs) (n + length bs)"
proof (induction bs arbitrary: acc n)
  case (Cons b bs)
  then show ?case using digit_unit [of b] by (simp add: digits_def dec_val_def)
qed (simp add: dec_val_def)

lemma digit_char: "unat (0x30 + ucast (v mod 10) :: u8) = 48 + unat (v :: u32) mod 10"
proof -
  have "unat (v mod 10) = unat v mod 10" by (simp add: unat_mod)
  then have "unat (ucast (v mod 10) :: u8) = unat v mod 10" by (simp add: unat_ucast_u8)
  moreover have "unat v mod 10 < 10" by simp
  ultimately show ?thesis by (simp add: unat_word_ariths)
qed

lemma u32_dec_loop_val: "digits (u32_dec_loop v) \<and> dec_val 0 (rev (u32_dec_loop v)) = uint v"
proof (induction v rule: u32_dec_loop.induct)
  case (1 v)
  have q: "unat (v div 10) = unat v div 10" by (simp add: unat_div)
  have z: "v div 10 = 0 \<longleftrightarrow> unat v div 10 = 0" using q by (metis unat_0 unat_eq_zero)
  have "uint v = int (unat v)" "uint (v div 10) = int (unat v div 10)" unfolding q [symmetric] by (rule uint_nat)+
  note u = this
  have l: "u32_dec_loop v = (0x30 + ucast (v mod 10)) # (if v div 10 \<noteq> 0 then u32_dec_loop (v div 10) else [])"
    by (rule u32_dec_loop.simps)
  have "48 + unat v mod 10 \<le> 57" by simp
  then have d: "digits [0x30 + ucast (v mod 10)]" unfolding digits_def using digit_char [of v] by simp
  have e: "int (unat v) = int (unat v div 10) * 10 + int (unat v mod 10)"
    using arg_cong [OF div_mult_mod_eq [of "unat v" 10], of int] by (simp only: of_nat_add of_nat_mult of_nat_numeral)
  define m where "m = unat v mod 10"
  have e: "uint v = uint (v div 10) * 10 + int m" using e u by (simp only: m_def)
  have c: "int (unat (0x30 + ucast (v mod 10) :: u8)) - 48 = int m" using digit_char [of v] by (simp add: m_def)
  show ?case
  proof (cases "v div 10 = 0")
    case True
    then have "u32_dec_loop v = [0x30 + ucast (v mod 10)]" "uint v = int m" using l e by simp_all
    then show ?thesis using d c by (simp only: dec_val_def rev.simps append_Nil foldl.simps) simp
  next
    case False
    then have "u32_dec_loop v = (0x30 + ucast (v mod 10)) # u32_dec_loop (v div 10)" using l by simp
    moreover have "dec_val 0 (rev (u32_dec_loop (v div 10)) @ [0x30 + ucast (v mod 10)]) = uint (v div 10) * 10 + int m"
      using 1 [OF False] c by (simp only: dec_val_def foldl_append foldl.simps)
    ultimately show ?thesis using 1 [OF False] d e by (simp only: rev.simps) (simp add: digits_def)
  qed
qed

lemma u32_dec_loop_length: "unat v < 10 ^ Suc k \<Longrightarrow> length (u32_dec_loop v) \<le> Suc k"
proof (induction k arbitrary: v)
  case 0
  then have "v div 10 = 0" by (simp add: unat_eq_zero [symmetric] unat_div)
  then show ?case by (subst u32_dec_loop.simps) simp
next
  case (Suc k)
  then have "unat (v div 10) < 10 ^ Suc k" by (simp add: unat_div div_less_iff_less_mult)
  then show ?case using Suc.IH by (subst u32_dec_loop.simps) simp
qed

lemma u32_to_dec_val: "digits (u32_to_dec v)" "dec_val 0 (u32_to_dec v) = uint v"
  and u32_to_dec_length: "length (u32_to_dec v) \<le> 10" "0 < length (u32_to_dec v)"
proof -
  show "digits (u32_to_dec v)" "dec_val 0 (u32_to_dec v) = uint v"
    using u32_dec_loop_val [of v] by (simp_all add: u32_to_dec_def digits_def)
  show "length (u32_to_dec v) \<le> 10" using u32_dec_loop_length [of v 9] unat_u32_less [of v] by (simp add: u32_to_dec_def)
  show "0 < length (u32_to_dec v)" by (subst u32_to_dec_def, subst u32_dec_loop.simps) simp
qed

lemma utoi_digits_dec:
  assumes "11 \<le> k" "p = c # p'" "c < 0x30 \<or> 0x39 < c"
  shows "utoi_digits k (map ucast (u32_to_dec v) @ p) 0 0 = Inr (uint v, length (u32_to_dec v), p)"
proof -
  have "k = length (u32_to_dec v) + Suc (k - length (u32_to_dec v) - 1)" using assms(1) u32_to_dec_length(1) [of v] by simp
  then obtain j where "k = length (u32_to_dec v) + Suc j" ..
  then show ?thesis using utoi_digits_append [OF u32_to_dec_val(1) [of v], of "Suc j" p 0 0] assms u32_to_dec_val(2) [of v] by auto
qed

lemma utoi_dec:
  assumes "c < 0x30 \<or> 0x39 < c"
  shows "utoi (map ucast (u32_to_dec v) @ c # p) = Inr (v, c # p)"
    and "utoi (0x2D # map ucast (u32_to_dec v) @ c # p) = Inr (- v, c # p)"
proof -
  obtain b bs where b: "u32_to_dec v = b # bs" using u32_to_dec_length(2) [of v] by (cases "u32_to_dec v") auto
  then have "48 \<le> unat b" "unat b \<le> 57" using u32_to_dec_val(1) [of v] by (simp_all add: digits_def)
  note d = digit_unit [OF this]
  then have s: "(ucast b :: u16) \<noteq> 0x2D" "(ucast b :: u16) \<noteq> 0x2B" by auto
  have w: "word_of_int (uint v) = v" "word_of_int (- uint v) = - v" by simp_all
  show "utoi (map ucast (u32_to_dec v) @ c # p) = Inr (v, c # p)"
    using utoi_digits_dec [of 16 "c # p" c p v] assms s b u32_to_dec_length(2) [of v]
    by (simp add: utoi_def JELLO_UTOI_MAX_DIGITS_def rbind_def)
  show "utoi (0x2D # map ucast (u32_to_dec v) @ c # p) = Inr (- v, c # p)"
    using utoi_digits_dec [of 15 "c # p" c p v] assms u32_to_dec_length(2) [of v]
    by (simp add: utoi_def JELLO_UTOI_MAX_DIGITS_def rbind_def)
qed

section \<open>UTF-16 and UTF-8\<close>

text \<open>The encoding of a code point in 16-bit units, by its definition in the Unicode standard.\<close>

definition utf16 :: "u32 \<Rightarrow> u16 list" where
  "utf16 c =
     (if c < 0x10000 then [ucast c]
      else [0xD800 + ucast (drop_bit 10 (c - 0x10000)), 0xDC00 + ucast ((c - 0x10000) AND 0x3FF)])"

definition utf16_text :: "u32 list \<Rightarrow> u16 list" where "utf16_text cs = concat (map utf16 cs)"

lemma utf16_text_simps [simp]: "utf16_text [] = []" "utf16_text (c # cs) = utf16 c @ utf16_text cs"
  by (simp_all add: utf16_text_def)

lemma surrogate_unit:
  assumes "unat (x :: u32) < 0x400" "unat k + 0x400 \<le> 0x10000"
  shows "unat (k + ucast x :: u16) = unat k + unat x" "ucast (k + ucast x :: u16) - ucast k = x"
proof -
  have u: "unat (ucast x :: u16) = unat x" using assms(1) by (simp add: unsigned_ucast_eq take_bit_nat_def)
  then show s: "unat (k + ucast x :: u16) = unat k + unat x" using assms by (simp add: unat_word_ariths)
  have "ucast (k + ucast x :: u16) = ucast k + x"
  proof (rule word_unat_eq_iff [THEN iffD2])
    have "unat (ucast (k + ucast x :: u16) :: u32) = unat k + unat x" using s by simp
    moreover have "unat (ucast k + x) = unat k + unat x" using assms by (simp add: unat_word_ariths)
    ultimately show "unat (ucast (k + ucast x :: u16) :: u32) = unat (ucast k + x)" by simp
  qed
  then show "ucast (k + ucast x :: u16) - ucast k = x" by simp
qed

lemma split_bits: "push_bit 10 (drop_bit 10 d) OR (d AND 0x3FF) = (d :: u32)"
proof -
  have "(0x3FF :: u32) = mask 10" by (simp add: mask_eq_exp_minus_1)
  then have "d AND 0x3FF = take_bit 10 d" by (simp only: take_bit_eq_mask)
  then show ?thesis by (auto simp: bit_eq_iff bit_simps)
qed

lemma utf16_pair:
  assumes "utf8_valid_cp c" "\<not> c < 0x10000"
  obtains h l where "utf16 c = [h, l]" "0xD800 \<le> h" "h \<le> 0xDFFF" "surrogate_pair (ucast h) (ucast l) = c"
proof -
  let ?d = "c - 0x10000" and ?h = "0xD800 + ucast (drop_bit 10 (c - 0x10000)) :: u16" and ?l = "0xDC00 + ucast ((c - 0x10000) AND 0x3FF) :: u16"
  have c: "0x10000 \<le> unat c" "unat c \<le> 0x10FFFF" using assms by (simp_all add: valid_cp_iff valid_num_def word_less_nat_alt)
  have d: "unat ?d < 0x100000" using c by (simp add: unat_sub word_le_nat_alt)
  have x: "unat (drop_bit 10 ?d) < 0x400" using d unat_drop [of 10 ?d] by (simp add: div_less_iff_less_mult)
  have "(0x3FF :: u32) = mask 10" by (simp add: mask_eq_exp_minus_1)
  then have m: "?d AND 0x3FF = take_bit 10 ?d" by (simp only: take_bit_eq_mask)
  have y: "unat (?d AND 0x3FF) < 0x400" unfolding m by (simp add: unsigned_take_bit_eq take_bit_nat_def)
  note hi = surrogate_unit [OF x, of "0xD800"] and lo = surrogate_unit [OF y, of "0xDC00"]
  have "surrogate_pair (ucast ?h) (ucast ?l) = c"
    unfolding surrogate_pair_def using hi(2) lo(2) split_bits [of ?d] by simp
  moreover have "0xD800 \<le> ?h" "?h \<le> 0xDFFF" using hi(1) x by (simp_all add: word_le_nat_alt)
  moreover have "utf16 c = [?h, ?l]" using assms(2) by (simp add: utf16_def)
  ultimately show thesis using that by blast
qed

lemma utf16_unit:
  assumes "utf8_valid_cp c" "c < 0x10000"
  obtains u where "utf16 c = [u]" "ucast u = c" "unat u = unat c" "\<not> (0xD800 \<le> u \<and> u \<le> 0xDFFF)"
proof -
  have u: "unat (ucast c :: u16) = unat c" using assms(2) by (simp add: unsigned_ucast_eq take_bit_nat_def word_less_nat_alt)
  then have "ucast (ucast c :: u16) = c" by (simp add: word_unat_eq_iff)
  moreover have "\<not> (0xD800 \<le> (ucast c :: u16) \<and> (ucast c :: u16) \<le> 0xDFFF)"
    using u assms(1) by (auto simp: valid_cp_iff valid_num_def word_le_nat_alt)
  ultimately show thesis using that [of "ucast c"] assms(2) u by (simp add: utf16_def)
qed

lemma enc_cases:
  assumes "utf8_valid_cp c"
  shows "enc c = (if c < 0x80 then [ucast c] else if c < 0x800 then utf8_2 c else if c < 0x10000 then utf8_3 c else utf8_4 c)"
  using assms by (simp add: enc_def utf8_encode_def utf8_2_def utf8_3_def utf8_4_def)

lemma enc_size:
  assumes "utf8_valid_cp c"
  shows "length (enc c) = (if c < 0x80 then 1 else if c < 0x800 then 2 else if c < 0x10000 then 3 else 4)"
  unfolding enc_cases [OF assms] by (simp add: utf8_2_def utf8_3_def utf8_4_def)

text \<open>The length, the loop and the whole conversion on a text that ends with 0.\<close>

definition unit_text :: "u32 list \<Rightarrow> bool" where "unit_text cs \<longleftrightarrow> (\<forall>c\<in>set cs. utf8_valid_cp c \<and> c \<noteq> 0)"

lemma unit_text_simps [simp]: "unit_text []" "unit_text (c # cs) \<longleftrightarrow> utf8_valid_cp c \<and> c \<noteq> 0 \<and> unit_text cs"
  by (auto simp: unit_text_def)

lemma unit_facts:
  assumes "ucast (u :: u16) = (c :: u32)"
  shows "u = 0 \<longleftrightarrow> c = 0" "u < 0x80 \<longleftrightarrow> c < 0x80" "u < 0x800 \<longleftrightarrow> c < 0x800" "0xD800 \<le> u \<longleftrightarrow> 0xD800 \<le> c" "u \<le> 0xDFFF \<longleftrightarrow> c \<le> 0xDFFF"
proof -
  have "unat c = unat u" using assms by auto
  then show "u = 0 \<longleftrightarrow> c = 0" "u < 0x80 \<longleftrightarrow> c < 0x80" "u < 0x800 \<longleftrightarrow> c < 0x800" "0xD800 \<le> u \<longleftrightarrow> 0xD800 \<le> c" "u \<le> 0xDFFF \<longleftrightarrow> c \<le> 0xDFFF"
    by (simp_all add: word_less_nat_alt word_le_nat_alt unat_eq_zero [symmetric])
qed

lemma high_facts:
  assumes "0xD800 \<le> (h :: u16)" "h \<le> 0xDFFF"
  shows "h \<noteq> 0" "\<not> h < 0x80" "\<not> h < 0x800" "(ucast h :: u32) \<noteq> 0" "\<not> (ucast h :: u32) < 0x80" "\<not> (ucast h :: u32) < 0x800"
    "0xD800 \<le> (ucast h :: u32)" "(ucast h :: u32) \<le> 0xDFFF"
  using assms unit_facts [OF refl, of h] by (auto simp: word_less_nat_alt word_le_nat_alt)

lemma utf8_len_step:
  assumes "utf8_valid_cp c" "c \<noteq> 0"
  shows "utostr_utf8_len (utf16 c @ s) = rbind (utostr_utf8_len s) (\<lambda>n. Inr (length (enc c) + n))"
proof (cases "c < 0x10000")
  case True
  then obtain u where u: "utf16 c = [u]" "ucast u = c" "\<not> (0xD800 \<le> u \<and> u \<le> 0xDFFF)" using utf16_unit [OF assms(1)] by blast
  then show ?thesis using assms(2) enc_size [OF assms(1)] unit_facts [OF u(2)] True by auto
next
  case False
  then obtain h l where h: "utf16 c = [h, l]" "0xD800 \<le> h" "h \<le> 0xDFFF" using utf16_pair [OF assms(1)] by blast
  moreover have "length (enc c) = 4" using enc_size [OF assms(1)] False by (auto simp: word_less_nat_alt)
  ultimately show ?thesis using high_facts [OF h(2,3)] by simp
qed

lemma utf8_len_text: "unit_text cs \<Longrightarrow> utostr_utf8_len (utf16_text cs @ 0 # p) = Inr (length (utf8_text cs))"
  by (induction cs) (simp_all add: utf8_len_step rbind_def)

lemma utostr_loop_step:
  assumes "utf8_valid_cp c" "c \<noteq> 0" "length (enc c) \<le> room"
  shows "utostr_loop room (utf16 c @ s) = rbind (utostr_loop (room - length (enc c)) s) (\<lambda>out. Inr (enc c @ out))"
proof (cases "c < 0x10000")
  case True
  then obtain u where u: "utf16 c = [u]" "ucast u = c" "\<not> (0xD800 \<le> u \<and> u \<le> 0xDFFF)" using utf16_unit [OF assms(1)] by blast
  then show ?thesis using assms(2,3) enc_size [OF assms(1)] enc_cases [OF assms(1)] unit_facts [OF u(2)] True by (auto simp: Let_def)
next
  case False
  then obtain h l where h: "utf16 c = [h, l]" "0xD800 \<le> h" "h \<le> 0xDFFF" "surrogate_pair (ucast h) (ucast l) = c" using utf16_pair [OF assms(1)] by blast
  moreover have "length (enc c) = 4" "enc c = utf8_4 c" using enc_size [OF assms(1)] enc_cases [OF assms(1)] False by (auto simp: word_less_nat_alt)
  ultimately show ?thesis using high_facts [OF h(2,3)] assms(3) by (simp add: Let_def)
qed

lemma utostr_loop_text: "unit_text cs \<Longrightarrow> length (utf8_text cs) \<le> room \<Longrightarrow> utostr_loop room (utf16_text cs @ 0 # p) = Inr (utf8_text cs)"
proof (induction cs arbitrary: room)
  case (Cons c cs)
  then show ?case by (simp add: utostr_loop_step rbind_def)
qed (simp add: Let_def)

text \<open>The first loop of \<open>utostr\<close> only saves time: the second one alone gives the same bytes.\<close>

lemma ascii_first: "rbind (utostr_ascii room str) (\<lambda>(out, room, str). rbind (utostr_loop room str) (\<lambda>out'. Inr (out @ out'))) = utostr_loop room str"
proof (induction room str rule: utostr_ascii.induct)
  case (1 str)
  show ?case by (cases str) (simp_all add: rbind_def Let_def)
next
  case (3 room c str)
  have e: "ucast (ucast c :: u32) = (ucast c :: u8)" by (rule word_unat_eq_iff [THEN iffD2]) (simp add: unat_ucast_u8)
  show ?case
  proof (cases "c = 0 \<or> 0x80 \<le> c")
    case True
    then show ?thesis by (auto simp: rbind_def split: sum.splits)
  next
    case False
    then have "(ucast c :: u32) \<noteq> 0" "(ucast c :: u32) < 0x80" using unit_facts [OF refl, of c] by auto
    then show ?thesis using 3 [OF False] False e by (auto simp: rbind_def Let_def split: sum.splits prod.splits)
  qed
qed (simp add: rbind_def)



section \<open>Formatted output\<close>

text \<open>Nothing is written past the buffer.\<close>

lemma ustr_copy_fits: "ustr_copy room s = Inr out \<Longrightarrow> length out \<le> room"
  by (induction room s arbitrary: out rule: ustr_copy.induct) (auto simp: rbind_def split: if_splits sum.splits)

lemma directive_fits: "directive pd room fmt args = Inr (Some (out, fmt', args')) \<Longrightarrow> 0 < room \<Longrightarrow> length out \<le> room"
  by (auto simp: directive_def u_get_def rbind_def append_ascii_def ustr_copy_fits
      split: list.splits if_splits sum.splits prod.splits u_arg.splits option.splits)

lemma uvszprintf_loop_fits: "uvszprintf_loop pd room fmt args = Inr out \<Longrightarrow> length out \<le> room"
proof (induction pd room fmt args arbitrary: out rule: uvszprintf_loop.induct)
  case (1 pd room fmt args)
  note IH = 1(1,2) and run = 1(3)
  show ?case
  proof (cases "room = 0 \<or> fmt = []")
    case True
    then show ?thesis using run by (subst (asm) uvszprintf_loop.simps) (auto split: if_splits)
  next
    case False
    then obtain c f where f: "fmt = c # f" "room \<noteq> 0" by (cases fmt) auto
    consider "c = 0" | "c \<noteq> 0" "c \<noteq> 0x25" | "c \<noteq> 0" "c = 0x25" by blast
    then show ?thesis
    proof cases
      case 1
      then show ?thesis using run f by (subst (asm) uvszprintf_loop.simps) auto
    next
      case 2
      then obtain o1 where "uvszprintf_loop pd (room - 1) f args = Inr o1" "out = c # o1"
        using run f by (subst (asm) uvszprintf_loop.simps) (auto simp: rbind_def split: sum.splits)
      then show ?thesis using IH(1) [OF f(2,1) 2] f(2) by fastforce
    next
      case 3
      show ?thesis
      proof (cases "directive pd room f args")
        case (Inr r)
        show ?thesis
        proof (cases r)
          case None
          then show ?thesis using run f 3 Inr by (subst (asm) uvszprintf_loop.simps) auto
        next
          case (Some t)
          obtain o1 f' a' where t: "t = (o1, f', a')" by (cases t)
          then obtain o2 where "uvszprintf_loop pd (room - length o1) f' a' = Inr o2" "out = o1 @ o2"
            using run f 3 Inr Some by (subst (asm) uvszprintf_loop.simps) (auto simp: rbind_def split: sum.splits)
          moreover have "length o1 \<le> room" using directive_fits [of pd room f args o1 f' a'] Inr Some t f(2) by simp
          ultimately show ?thesis using IH(2) [OF f(2,1) 3(1) _ Inr Some t [symmetric] refl] 3(2) by fastforce
        qed
      qed (use run f 3 in \<open>subst (asm) uvszprintf_loop.simps, auto\<close>)
    qed
  qed
qed

lemma utostr_loop_fits: "utostr_loop room str = Inr out \<Longrightarrow> length out \<le> room"
  by (induction room str arbitrary: out rule: utostr_loop.induct)
    (fastforce simp: rbind_def Let_def utf8_2_def utf8_3_def utf8_4_def split: if_splits sum.splits list.splits)+

text \<open>Neither the conversion to UTF-8 nor the formatter writes past its buffer, whatever the string, the format and the
  arguments: with the final 0, the output takes at most \<open>out_size\<close> units.\<close>

theorem string_outputs_fit:
  assumes "0 < out_size"
  shows "(\<forall>out. utostr out_size str = Inr out \<longrightarrow> length (out @ [0]) \<le> out_size) \<and>
    (\<forall>out. uvszprintf print_double out_size fmt args = Inr out \<longrightarrow> length (out @ [0]) \<le> out_size)"
proof -
  have "length out \<le> out_size - 1" if "utostr out_size str = Inr out" for out
    using that utostr_loop_fits [of "out_size - 1" str out] assms ascii_first [of "out_size - 1" str] by (simp add: utostr_def)
  moreover have "length out \<le> out_size - 1" if "uvszprintf print_double out_size fmt args = Inr out" for out
    using that uvszprintf_loop_fits [of print_double "out_size - 1" fmt args out] assms by (simp add: uvszprintf_def)
  ultimately show ?thesis using assms by fastforce
qed

theorem string_outputs_fit_witness:
  "(\<forall>out. utostr 3 [0x41, 0x42, 0x43, 0] = Inr out \<longrightarrow> length (out @ [0]) \<le> 3) \<and> utostr 3 [0x41, 0x42, 0x43, 0] = Inr [0x41, 0x42]"
proof -
  have "utostr 3 [0x41, 0x42, 0x43, 0] = Inr [0x41, 0x42]" by code_simp
  then show ?thesis using string_outputs_fit [of 3 "[0x41, 0x42, 0x43, 0]" "\<lambda>_ _. []" "[0]" "[]"] by simp
qed

lemma print_decimal:
  assumes "12 \<le> out_size"
  shows "uvszprintf pd out_size [0x25, 0x64, 0] [UInt v] =
    Inr (if sint v < 0 then 0x2D # map ucast (u32_to_dec (- v)) else map ucast (u32_to_dec v))"
proof -
  let ?t = "if sint v < 0 then 0x2D # u32_to_dec (- v) else u32_to_dec v"
  have l: "length ?t \<le> 11" using u32_to_dec_length(1) [of v] u32_to_dec_length(1) [of "- v"] by auto
  have "directive pd (out_size - 1) [0x64, 0] [UInt v] = Inr (Some (map ucast ?t, [0], []))"
    using l assms by (auto simp: directive_def is_digit_or_dot_def convert_def take_arg_def signed_dec_def append_ascii_def rbind_def Let_def)
  then show ?thesis using assms l
    by (simp add: uvszprintf_def, subst uvszprintf_loop.simps) (auto simp: uvszprintf_loop.simps rbind_def)
qed

text \<open>C37: A 32-bit integer that the formatter prints with \<open>%d\<close> is read back by \<open>utoi\<close>, whatever its sign, and \<open>utoi\<close> stops at
  the end of the text.\<close>

theorem printed_integer_reads_back:
  assumes "12 \<le> out_size"
  shows "\<exists>text. uvszprintf print_double out_size [0x25, 0x64, 0] [UInt v] = Inr text \<and> utoi (text @ [0]) = Inr (v, [0])"
  using print_decimal [OF assms, of print_double v] utoi_dec [of 0 v "[]"] utoi_dec [of 0 "- v" "[]"] by auto

theorem printed_integer_reads_back_witness:
  "\<exists>text. uvszprintf (\<lambda>_ _. []) 12 [0x25, 0x64, 0] [UInt 0x80000000] = Inr text \<and> utoi (text @ [0]) = Inr (0x80000000, [0])"
  by (rule printed_integer_reads_back) simp

text \<open>C40: A double whose text has more than 64 characters, as \<open>%f\<close> gives for the largest ones, makes the formatter read past
  the end of \<open>tmp\<close> whenever the output has the room: \<^verbatim>\<open>snprintf\<close> returns the length of the whole text, and not of the part that
  fits.\<close>

theorem long_double_overreads:
  assumes "64 < length (print_double False v)" and "65 < out_size"
  shows "uvszprintf print_double out_size [0x25, 0x66, 0] [UDouble v] = Inl FAULT"
proof -
  have "directive print_double (out_size - 1) [0x66, 0] [UDouble v] = Inl FAULT"
    using assms by (auto simp: directive_def is_digit_or_dot_def convert_def take_arg_def append_ascii_def rbind_def Let_def min_def)
  then show ?thesis using assms by (simp add: uvszprintf_def, subst uvszprintf_loop.simps) auto
qed

theorem long_double_overreads_witness:
  "uvszprintf (\<lambda>_ _. replicate 309 0x30) 400 [0x25, 0x66, 0] [UDouble 0x7FEFFFFFFFFFFFFF] = Inl FAULT"
  by (rule long_double_overreads) simp_all

end
