(* ===== verification/Jello_Md5.thy ===== *)
theory Jello_Md5
  imports Jello_Prelude
begin

text \<open>
  MD5, \<^verbatim>\<open>libs/std/crypto/md5.c\<close>: the context with its incremental update, and the primitive. The buffer is the array on the C stack, with
  any contents at first. The main result is that the primitive computes the digest of RFC 1321, stated over whole padded messages.
\<close>

unbundle bit_operations_syntax

section \<open>The digest\<close>

text \<open>\<open>md_total0\<close> and \<open>md_total1\<close> are the halves of \<^verbatim>\<open>total\<close>, the state is \<open>(A, B, C, D)\<close>.\<close>

type_synonym md5_state = "u32 \<times> u32 \<times> u32 \<times> u32"

record md5_context =
  md_total0 :: u32
  md_total1 :: u32
  md_state :: md5_state
  md_buffer :: "u8 list"

definition md5_starts :: "u8 list \<Rightarrow> md5_context" where
  "md5_starts stale = \<lparr>md_total0 = 0, md_total1 = 0, md_state = (0x67452301, 0xEFCDAB89, 0x98BADCFE, 0x10325476), md_buffer = stale\<rparr>"

definition md5_S :: "u32 \<Rightarrow> nat \<Rightarrow> u32" where
  "md5_S x n = push_bit n x OR drop_bit (32 - n) x"

text \<open>The four definitions of the macro \<open>F\<close>, and of each group of four rounds the shifts.\<close>

definition md5_F :: "nat \<Rightarrow> u32 \<Rightarrow> u32 \<Rightarrow> u32 \<Rightarrow> u32" where
  "md5_F g x y z =
     (if g = 0 then z XOR (x AND (y XOR z))
      else if g = 1 then y XOR (z AND (x XOR y))
      else if g = 2 then (x XOR y) XOR z
      else y XOR (x OR NOT z))"

text \<open>The rounds: the \<open>F\<close>, the index \<open>k\<close>, the shift \<open>s\<close> and the constant \<open>t\<close> of the uses of the macro \<open>P\<close>, in their order.\<close>

definition md5_rounds :: "(nat \<times> nat \<times> nat \<times> u32) list" where
  "md5_rounds =
     [(0, 0, 7, 0xD76AA478), (0, 1, 12, 0xE8C7B756), (0, 2, 17, 0x242070DB), (0, 3, 22, 0xC1BDCEEE),
      (0, 4, 7, 0xF57C0FAF), (0, 5, 12, 0x4787C62A), (0, 6, 17, 0xA8304613), (0, 7, 22, 0xFD469501),
      (0, 8, 7, 0x698098D8), (0, 9, 12, 0x8B44F7AF), (0, 10, 17, 0xFFFF5BB1), (0, 11, 22, 0x895CD7BE),
      (0, 12, 7, 0x6B901122), (0, 13, 12, 0xFD987193), (0, 14, 17, 0xA679438E), (0, 15, 22, 0x49B40821),
      (1, 1, 5, 0xF61E2562), (1, 6, 9, 0xC040B340), (1, 11, 14, 0x265E5A51), (1, 0, 20, 0xE9B6C7AA),
      (1, 5, 5, 0xD62F105D), (1, 10, 9, 0x02441453), (1, 15, 14, 0xD8A1E681), (1, 4, 20, 0xE7D3FBC8),
      (1, 9, 5, 0x21E1CDE6), (1, 14, 9, 0xC33707D6), (1, 3, 14, 0xF4D50D87), (1, 8, 20, 0x455A14ED),
      (1, 13, 5, 0xA9E3E905), (1, 2, 9, 0xFCEFA3F8), (1, 7, 14, 0x676F02D9), (1, 12, 20, 0x8D2A4C8A),
      (2, 5, 4, 0xFFFA3942), (2, 8, 11, 0x8771F681), (2, 11, 16, 0x6D9D6122), (2, 14, 23, 0xFDE5380C),
      (2, 1, 4, 0xA4BEEA44), (2, 4, 11, 0x4BDECFA9), (2, 7, 16, 0xF6BB4B60), (2, 10, 23, 0xBEBFBC70),
      (2, 13, 4, 0x289B7EC6), (2, 0, 11, 0xEAA127FA), (2, 3, 16, 0xD4EF3085), (2, 6, 23, 0x04881D05),
      (2, 9, 4, 0xD9D4D039), (2, 12, 11, 0xE6DB99E5), (2, 15, 16, 0x1FA27CF8), (2, 2, 23, 0xC4AC5665),
      (3, 0, 6, 0xF4292244), (3, 7, 10, 0x432AFF97), (3, 14, 15, 0xAB9423A7), (3, 5, 21, 0xFC93A039),
      (3, 12, 6, 0x655B59C3), (3, 3, 10, 0x8F0CCC92), (3, 10, 15, 0xFFEFF47D), (3, 1, 21, 0x85845DD1),
      (3, 8, 6, 0x6FA87E4F), (3, 15, 10, 0xFE2CE6E0), (3, 6, 15, 0xA3014314), (3, 13, 21, 0x4E0811A1),
      (3, 4, 6, 0xF7537E82), (3, 11, 10, 0xBD3AF235), (3, 2, 15, 0x2AD7D2BB), (3, 9, 21, 0xEB86D391)]"

text \<open>One use of \<open>P\<close>. The names of the variables rotate from each use to the next, and are back in place after all of them.\<close>

definition md5_P :: "u32 list \<Rightarrow> nat \<times> nat \<times> nat \<times> u32 \<Rightarrow> md5_state \<Rightarrow> md5_state" where
  "md5_P X r st =
     (case (r, st) of ((g, k, s, t), (a, b, c, d)) \<Rightarrow>
        let a = a + (md5_F g b c d + X ! k + t); a = md5_S a s + b in (d, a, b, c))"

definition get_words :: "u8 list \<Rightarrow> u32 list" where
  "get_words data = map (\<lambda>i. of_u32_le (data ! (4 * i)) (data ! (4 * i + 1)) (data ! (4 * i + 2)) (data ! (4 * i + 3))) [0..<16]"

definition md5_process :: "md5_state \<Rightarrow> u8 list \<Rightarrow> md5_state" where
  "md5_process st data =
     (case (st, fold (md5_P (get_words data)) md5_rounds st) of ((a, b, c, d), (A, B, C, D)) \<Rightarrow> (a + A, b + B, c + C, d + D))"

text \<open>\<^verbatim>\<open>while(length >= 64u)\<close>: the state and what is left of the input.\<close>

function md5_blocks :: "md5_state \<Rightarrow> u8 list \<Rightarrow> md5_state \<times> u8 list" where
  "md5_blocks st input =
     (if 64 \<le> length input then md5_blocks (md5_process st (take 64 input)) (drop 64 input) else (st, input))"
  by pat_completeness auto
termination by (relation "measure (\<lambda>(st, input). length input)") auto

declare md5_blocks.simps [simp del]

definition md5_update :: "md5_context \<Rightarrow> u8 list \<Rightarrow> md5_context" where
  "md5_update ctx input =
     (let len = of_nat (length input) :: u32 in
      if len = 0 then ctx
      else
        (let left = md_total0 ctx AND 0x3F; fill = 64 - left; total0 = md_total0 ctx + len;
             ctx = ctx\<lparr>md_total0 := total0, md_total1 := (if total0 < len then md_total1 ctx + 1 else md_total1 ctx)\<rparr>;
             (ctx, input, left) =
               (if left \<noteq> 0 \<and> fill \<le> len then
                  (let buf = mem_write (md_buffer ctx) (unat left) (take (unat fill) input) in
                   (ctx\<lparr>md_buffer := buf, md_state := md5_process (md_state ctx) buf\<rparr>, drop (unat fill) input, 0))
                else (ctx, input, left));
             (st, rest) = md5_blocks (md_state ctx) input in
         ctx\<lparr>md_state := st, md_buffer := (if rest = [] then md_buffer ctx else mem_write (md_buffer ctx) (unat left) rest)\<rparr>))"

definition md5_padding :: "u8 list" where "md5_padding = 0x80 # replicate 63 0"

definition put_state :: "md5_state \<Rightarrow> u8 list" where
  "put_state st = (case st of (a, b, c, d) \<Rightarrow> u32_le a @ u32_le b @ u32_le c @ u32_le d)"

definition md5_finish :: "md5_context \<Rightarrow> u8 list" where
  "md5_finish ctx =
     (let last = md_total0 ctx AND 0x3F; padn = (if last < 56 then 56 - last else 120 - last);
          low = push_bit 3 (md_total0 ctx); high = drop_bit 29 (md_total0 ctx) OR push_bit 3 (md_total1 ctx);
          msglen = u32_le low @ u32_le high in
      put_state (md_state (md5_update (md5_update ctx (take (unat padn) md5_padding)) msglen)))"

text \<open>\<open>stale\<close> is what the buffer on the stack holds before its first use.\<close>

definition jdll_std_md5 :: "u8 list \<Rightarrow> u8 list \<Rightarrow> u8 list" where
  "jdll_std_md5 stale data = md5_finish (if data = [] then md5_starts stale else md5_update (md5_starts stale) data)"

section \<open>The digest by its definition\<close>

text \<open>RFC 1321: the message is padded to whole blocks and the blocks are processed in turn.\<close>

function blocks64 :: "'a list \<Rightarrow> 'a list list" where
  "blocks64 xs = (if 64 \<le> length xs then take 64 xs # blocks64 (drop 64 xs) else [])"
  by pat_completeness auto
termination by (relation "measure length") auto

declare blocks64.simps [simp del]

definition rest64 :: "'a list \<Rightarrow> 'a list" where "rest64 xs = drop (64 * (length xs div 64)) xs"

definition md5_init :: md5_state where "md5_init = (0x67452301, 0xEFCDAB89, 0x98BADCFE, 0x10325476)"

definition md5_pad :: "u8 list \<Rightarrow> u8 list" where
  "md5_pad msg =
     (let r = length msg mod 64 in
      0x80 # replicate ((if r < 56 then 55 else 119) - r) 0 @ u64_le (of_nat (8 * length msg)))"

definition md5_ref :: "u8 list \<Rightarrow> u8 list" where
  "md5_ref msg = put_state (foldl md5_process md5_init (blocks64 (msg @ md5_pad msg)))"

lemma blocks64_short: "length xs < 64 \<Longrightarrow> blocks64 xs = []" by (subst blocks64.simps) simp

lemma blocks64_block: "length b = 64 \<Longrightarrow> blocks64 (b @ xs) = b # blocks64 xs" by (subst blocks64.simps) simp

lemma rest64_short: "length xs < 64 \<Longrightarrow> rest64 xs = xs" by (simp add: rest64_def)

lemma rest64_block: "length b = 64 \<Longrightarrow> rest64 (b @ xs) = rest64 xs"
proof -
  have "(64 + length xs) div 64 = Suc (length xs div 64)" by simp
  then show "length b = 64 \<Longrightarrow> ?thesis" by (simp add: rest64_def)
qed

lemma length_rest64: "length (rest64 xs) = length xs mod 64"
  by (simp add: rest64_def minus_mult_div_eq_mod)

lemma split_blocks: "xs = concat (blocks64 xs) @ rest64 xs"
proof (induction xs rule: blocks64.induct)
  case (1 xs)
  show ?case
  proof (cases "64 \<le> length xs")
    case True
    have x: "xs = take 64 xs @ drop 64 xs" by simp
    have l: "length (take 64 xs) = 64" using True by simp
    have "blocks64 xs = take 64 xs # blocks64 (drop 64 xs)" "rest64 xs = rest64 (drop 64 xs)"
      using blocks64_block [OF l, of "drop 64 xs"] rest64_block [OF l, of "drop 64 xs"] by simp_all
    then show ?thesis using 1 [OF True] x by (metis append_assoc concat.simps(2))
  qed (simp add: blocks64_short rest64_short)
qed

lemma blocks64_lengths: "b \<in> set (blocks64 xs) \<Longrightarrow> length b = 64"
  by (induction xs rule: blocks64.induct) (subst (asm) (2) blocks64.simps, auto split: if_splits)

lemma blocks64_concat: "\<forall>b\<in>set bs. length b = 64 \<Longrightarrow> blocks64 (concat bs @ ys) = bs @ blocks64 ys \<and> rest64 (concat bs @ ys) = rest64 ys"
  by (induction bs) (simp_all add: blocks64_block rest64_block)

lemma blocks64_append: "blocks64 (xs @ ys) = blocks64 xs @ blocks64 (rest64 xs @ ys)" "rest64 (xs @ ys) = rest64 (rest64 xs @ ys)"
proof -
  have "xs @ ys = concat (blocks64 xs) @ (rest64 xs @ ys)" using split_blocks [of xs] by (metis append_assoc)
  then show "blocks64 (xs @ ys) = blocks64 xs @ blocks64 (rest64 xs @ ys)" "rest64 (xs @ ys) = rest64 (rest64 xs @ ys)"
    using blocks64_concat [of "blocks64 xs" "rest64 xs @ ys"] blocks64_lengths by metis+
qed

lemma md5_blocks_fold: "md5_blocks st xs = (foldl md5_process st (blocks64 xs), rest64 xs)"
proof (induction st xs rule: md5_blocks.induct)
  case (1 st xs)
  show ?case
  proof (cases "64 \<le> length xs")
    case True
    have l: "length (take 64 xs) = 64" using True by simp
    have "blocks64 xs = take 64 xs # blocks64 (drop 64 xs)" "rest64 xs = rest64 (drop 64 xs)"
      using blocks64_block [OF l, of "drop 64 xs"] rest64_block [OF l, of "drop 64 xs"] by simp_all
    then show ?thesis using 1 [OF True] True by (subst md5_blocks.simps) simp
  qed (subst md5_blocks.simps, simp add: blocks64_short rest64_short)
qed

section \<open>Incremental updates\<close>

text \<open>The context holds the message \<open>msg\<close>.\<close>

definition md5_holds :: "md5_context \<Rightarrow> u8 list \<Rightarrow> bool" where
  "md5_holds ctx msg \<longleftrightarrow> md_total0 ctx = of_nat (length msg) \<and> md_total1 ctx = of_nat (length msg div 2 ^ 32) \<and>
     md_state ctx = foldl md5_process md5_init (blocks64 msg) \<and> length (md_buffer ctx) = 64 \<and>
     take (length msg mod 64) (md_buffer ctx) = rest64 msg"

lemma low6: "unat ((of_nat n :: u32) AND 0x3F) = n mod 64"
proof -
  have "unat ((of_nat n :: u32) AND mask 6) = unat (of_nat n :: u32) mod 2 ^ 6" by (rule unat_and_mask_mod)
  also have "\<dots> = n mod 2 ^ 32 mod 64" by (simp add: unat_of_nat)
  also have "\<dots> = n mod 64" by (rule mod_mod_cancel) simp
  finally show ?thesis by (simp add: mask_eq_exp_minus_1)
qed

lemma carry:
  assumes "l < 2 ^ 32"
  shows "(of_nat (n + l) :: u32) < of_nat l \<longleftrightarrow> (n + l) div 2 ^ 32 = Suc (n div 2 ^ 32)"
    "\<not> (of_nat (n + l) :: u32) < of_nat l \<Longrightarrow> (n + l) div 2 ^ 32 = n div 2 ^ 32"
proof -
  have u: "unat (of_nat (n + l) :: u32) = (n + l) mod 2 ^ 32" "unat (of_nat l :: u32) = l" using assms by (simp_all add: unat_of_nat del: of_nat_add)
  define q r where "q = n div 2 ^ 32" and "r = n mod 2 ^ 32"
  have n: "n = q * 2 ^ 32 + r" "r < 2 ^ 32" by (simp_all add: q_def r_def)
  have "(n + l) div 2 ^ 32 = q + (r + l) div 2 ^ 32" "(n + l) mod 2 ^ 32 = (r + l) mod 2 ^ 32" unfolding n(1) by (simp_all add: add.assoc)
  moreover have "r + l < 2 ^ 32 \<Longrightarrow> (r + l) div 2 ^ 32 = 0 \<and> (r + l) mod 2 ^ 32 = r + l" by simp
  moreover have "\<not> r + l < 2 ^ 32 \<Longrightarrow> (r + l) div 2 ^ 32 = 1 \<and> (r + l) mod 2 ^ 32 = r + l - 2 ^ 32"
    using n(2) assms by (simp add: div_if mod_if)
  ultimately show "(of_nat (n + l) :: u32) < of_nat l \<longleftrightarrow> (n + l) div 2 ^ 32 = Suc (n div 2 ^ 32)"
    "\<not> (of_nat (n + l) :: u32) < of_nat l \<Longrightarrow> (n + l) div 2 ^ 32 = n div 2 ^ 32"
    unfolding word_less_nat_alt u q_def [symmetric] using n(2) assms by (cases "r + l < 2 ^ 32"; simp)+
qed

lemma fill_buffer:
  assumes "length B = 64" "length R < 64"
  shows "length (if R = [] then B else mem_write B 0 R) = 64" "take (length R) (if R = [] then B else mem_write B 0 R) = R"
  using assms by (auto simp: mem_write_def)

lemma md5_holdsI:
  "md_total0 ctx = of_nat (length msg) \<Longrightarrow> md_total1 ctx = of_nat (length msg div 2 ^ 32) \<Longrightarrow>
   md_state ctx = foldl md5_process md5_init (blocks64 msg) \<Longrightarrow> length (md_buffer ctx) = 64 \<Longrightarrow>
   take (length (rest64 msg)) (md_buffer ctx) = rest64 msg \<Longrightarrow> md5_holds ctx msg"
  by (simp add: md5_holds_def length_rest64)

lemma md5_update_run:
  assumes h: "md5_holds ctx msg" and xs: "xs \<noteq> []" "length xs < 2 ^ 32"
  shows "md5_holds (md5_update ctx xs) (msg @ xs)"
proof -
  let ?r = "length msg mod 64" and ?len = "of_nat (length xs) :: u32" and ?left = "md_total0 ctx AND 0x3F" and ?buf = "md_buffer ctx"
  let ?t = "if md_total0 ctx + ?len < ?len then md_total1 ctx + 1 else md_total1 ctx"
  have t: "md_total0 ctx = of_nat (length msg)" "md_total1 ctx = of_nat (length msg div 2 ^ 32)" "length ?buf = 64" "take ?r ?buf = rest64 msg"
      "md_state ctx = foldl md5_process md5_init (blocks64 msg)" using h by (simp_all add: md5_holds_def)
  have r: "?r < 64" "length (rest64 msg) = ?r" by (simp_all add: length_rest64)
  have len: "unat ?len = length xs" "?len \<noteq> 0" using xs by (simp_all add: unat_of_nat word_unat_eq_iff)
  have left: "unat ?left = ?r" unfolding t(1) by (rule low6)
  have le: "?left \<le> 64" using left r(1) by (simp add: word_le_nat_alt)
  have fill: "unat (64 - ?left) = 64 - ?r" using le left by (simp add: unat_sub)
  have tot: "md_total0 ctx + ?len = of_nat (length (msg @ xs))" "?t = of_nat (length (msg @ xs) div 2 ^ 32)"
    using carry [OF xs(2), of "length msg"] by (auto simp: t(1,2))
  have b: "blocks64 (msg @ xs) = blocks64 msg @ blocks64 (rest64 msg @ xs)" "rest64 (msg @ xs) = rest64 (rest64 msg @ xs)"
    by (rule blocks64_append)+
  show ?thesis
  proof (cases "?left \<noteq> 0 \<and> 64 - ?left \<le> ?len")
    case True
    then have f: "64 - ?r \<le> length xs" using fill len by (simp add: word_le_nat_alt)
    let ?block = "rest64 msg @ take (64 - ?r) xs" and ?ys = "drop (64 - ?r) xs"
    have bl: "length ?block = 64" "rest64 msg @ xs = ?block @ ?ys" using f r by simp_all
    have w: "mem_write ?buf ?r (take (64 - ?r) xs) = ?block" using t(3,4) f r by (simp add: mem_write_def)
    have s: "blocks64 (msg @ xs) = blocks64 msg @ ?block # blocks64 ?ys" "rest64 (msg @ xs) = rest64 ?ys"
      unfolding b bl(2) blocks64_block [OF bl(1)] rest64_block [OF bl(1)] by simp_all
    have "md5_update ctx xs = ctx\<lparr>md_total0 := md_total0 ctx + ?len, md_total1 := ?t,
        md_state := foldl md5_process (md5_process (md_state ctx) ?block) (blocks64 ?ys),
        md_buffer := (if rest64 ?ys = [] then ?block else mem_write ?block 0 (rest64 ?ys))\<rparr>"
      using True len(2) w unfolding md5_update_def by (simp add: Let_def md5_blocks_fold left fill)
    moreover have "length (rest64 ?ys) < 64" using length_rest64 [of ?ys] by simp
    note fb = fill_buffer [OF bl(1) this]
    ultimately show ?thesis using tot t(5) fb by (intro md5_holdsI) (simp_all add: s)
  next
    case False
    have u: "md5_update ctx xs = ctx\<lparr>md_total0 := md_total0 ctx + ?len, md_total1 := ?t,
        md_state := foldl md5_process (md_state ctx) (blocks64 xs),
        md_buffer := (if rest64 xs = [] then ?buf else mem_write ?buf ?r (rest64 xs))\<rparr>"
      unfolding md5_update_def Let_def if_not_P [OF False] if_not_P [OF len(2)] by (simp add: md5_blocks_fold left)
    show ?thesis
    proof (cases "?left = 0")
      case True
      then have "?r = 0" using left by simp
      moreover then have "rest64 msg = []" using r(2) by simp
      moreover have "length (rest64 xs) < 64" using length_rest64 [of xs] by simp
      note fb = fill_buffer [OF t(3) this]
      ultimately show ?thesis using tot t(5) fb unfolding u by (intro md5_holdsI) (auto simp: b split: if_splits)
    next
      case False2: False
      then have f: "length xs < 64 - ?r" using False fill len by (simp add: word_le_nat_alt)
      then have "length (rest64 msg @ xs) < 64" using r by simp
      then have s: "blocks64 (msg @ xs) = blocks64 msg" "rest64 (msg @ xs) = rest64 msg @ xs" "blocks64 xs = []" "rest64 xs = xs"
        using f unfolding b by (simp_all add: blocks64_short rest64_short)
      show ?thesis using tot t(3-5) xs(1) f r(2) unfolding u by (intro md5_holdsI) (simp_all add: s mem_write_def)
    qed
  qed
qed

lemma md5_starts_holds: "length stale = 64 \<Longrightarrow> md5_holds (md5_starts stale) []"
  by (simp add: md5_holds_def md5_starts_def md5_init_def blocks64_short rest64_short)

lemma md5_updates_hold: "md5_holds ctx msg \<Longrightarrow> length xs < 2 ^ 32 \<Longrightarrow> md5_holds (md5_update ctx xs) (msg @ xs)"
  using md5_update_run [of ctx msg xs] by (cases "xs = []") (auto simp: md5_update_def)

text \<open>The bits of the length, as the two words of the trailer.\<close>

lemma msglen_bytes:
  assumes "t0 = of_nat n" "t1 = of_nat (n div 2 ^ 32)"
  shows "u32_le (push_bit 3 t0) @ u32_le (drop_bit 29 t0 OR push_bit 3 t1) = u64_le (of_nat (8 * n))"
proof -
  have v: "(of_nat (8 * n) :: u64) = push_bit 3 (of_nat n)" by (simp add: push_bit_eq_mult)
  have d: "n div 2 ^ 32 = drop_bit 32 n" by (simp add: drop_bit_eq_div)
  have "ucast (of_nat (8 * n) :: u64) = push_bit 3 (of_nat n :: u32)" unfolding v by (rule bit_word_eqI) (auto simp: bit_simps)
  moreover have "ucast (drop_bit 32 (of_nat (8 * n) :: u64)) = drop_bit 29 (of_nat n :: u32) OR push_bit 3 (of_nat (drop_bit 32 n) :: u32)"
    unfolding v by (rule bit_word_eqI) (auto simp: bit_simps)
  ultimately show ?thesis unfolding u64_le_def assms d by simp
qed

text \<open>C33: the digest is that of RFC 1321: for every message of less than 4 GiB, whatever the buffer on the stack held, the incremental
  code processes exactly the blocks of the message followed by a byte \<open>0x80\<close>, zeros and the 64-bit length in bits.\<close>

theorem md5_computes_reference:
  assumes "length data < 2 ^ 32" "length stale = 64"
  shows "jdll_std_md5 stale data = md5_ref data"
proof -
  let ?ctx = "if data = [] then md5_starts stale else md5_update (md5_starts stale) data" and ?r = "length data mod 64"
  have h: "md5_holds ?ctx data"
    using md5_starts_holds [OF assms(2)] md5_updates_hold [OF md5_starts_holds [OF assms(2)] assms(1)] by simp
  have t: "md_total0 ?ctx = of_nat (length data)" "md_total1 ?ctx = of_nat (length data div 2 ^ 32)" using h unfolding md5_holds_def by blast+
  let ?last = "md_total0 ?ctx AND 0x3F"
  let ?padn = "if ?last < 56 then 56 - ?last else 120 - ?last"
  have l: "unat ?last = ?r" unfolding t(1) by (rule low6)
  have r: "?r < 64" by simp
  have p: "unat ?padn = (if ?r < 56 then 56 - ?r else 120 - ?r)"
    using l r by (auto simp: word_less_nat_alt unat_sub word_le_nat_alt)
  have pad: "take (unat ?padn) md5_padding = 0x80 # replicate ((if ?r < 56 then 55 else 119) - ?r) 0"
    unfolding p md5_padding_def using r by (auto simp: take_Cons' min_def)
  let ?msg = "data @ take (unat ?padn) md5_padding" and ?tail = "u32_le (push_bit 3 (md_total0 ?ctx)) @ u32_le (drop_bit 29 (md_total0 ?ctx) OR push_bit 3 (md_total1 ?ctx))"
  have "length (take (unat ?padn) md5_padding) < 2 ^ 32" "length ?tail < 2 ^ 32" by (simp_all add: md5_padding_def u32_le_def)
  then have "md5_holds (md5_update (md5_update ?ctx (take (unat ?padn) md5_padding)) ?tail) (?msg @ ?tail)"
    using md5_updates_hold [OF md5_updates_hold [OF h]] by blast
  moreover have "?msg @ ?tail = data @ md5_pad data" unfolding pad msglen_bytes [OF t] md5_pad_def by (simp add: Let_def)
  ultimately show ?thesis unfolding jdll_std_md5_def md5_finish_def md5_ref_def Let_def md5_holds_def by simp
qed

lemma md5_computes_reference_witness:
  "md5_ref [0x61, 0x62, 0x63] = [0x90, 0x01, 0x50, 0x98, 0x3C, 0xD2, 0x4F, 0xB0, 0xD6, 0x96, 0x3F, 0x7D, 0x28, 0xE1, 0x7F, 0x72]"
proof -
  have "jdll_std_md5 (replicate 64 7) [0x61, 0x62, 0x63] =
    [0x90, 0x01, 0x50, 0x98, 0x3C, 0xD2, 0x4F, 0xB0, 0xD6, 0x96, 0x3F, 0x7D, 0x28, 0xE1, 0x7F, 0x72]" by code_simp
  then show ?thesis using md5_computes_reference [of "[0x61, 0x62, 0x63]" "replicate 64 7"] by simp
qed

end
