(* ===== verification/Spec2Isabelle.thy ===== *)
theory Spec2Isabelle
  imports Jello_Loader Jello_Channel Jello_Run Jello_Strutil Jello_Md5
begin

text \<open>
  A verification of the Jello virtual machine, a register machine for typed bytecode written in C.

  \<^bold>\<open>The program.\<close> A compiler outside this repository writes modules in a binary format. \<^verbatim>\<open>src/bytecode/loader.c\<close> reads a
  module and has \<^verbatim>\<open>src/bytecode/check.c\<close> verify every instruction and every function; the interpreter
  (\<^verbatim>\<open>src/vm/ops/exec_loop.c\<close>, \<^verbatim>\<open>dispatch.c\<close> and the \<^verbatim>\<open>ops_*.c\<close> files) then runs it on frames of typed registers
  (\<^verbatim>\<open>src/vm/reg.c\<close>, \<^verbatim>\<open>frame.c\<close>) and trusts what was verified. Values are tagged 64-bit words (\<^verbatim>\<open>jello.h\<close>) which may
  point to objects of a mark-and-sweep heap (\<^verbatim>\<open>src/gc.c\<close>, \<^verbatim>\<open>src/types\<close>). Traps and exceptions (\<^verbatim>\<open>src/vm/exc.c\<close>) unwind to the
  nearest handler; fuel bounds backward jumps.

  \<^bold>\<open>The theories, each over the ones it needs.\<close>
  \<^item> \<open>Jello_Prelude\<close>: widths, the result monad, bytes and little-endian words, lemmas on words and lists.
  \<^item> \<open>Jello_Value\<close>: the tagged value of \<^verbatim>\<open>jello.h\<close>; the five forms are disjoint and their accessors invert their constructors.
  \<^item> \<open>Jello_Bytecode\<close>: type kinds, opcodes, instructions, functions, modules, error results (\<^verbatim>\<open>jello.h\<close>, \<^verbatim>\<open>vm_internal.h\<close>).
  \<^item> \<open>Jello_Check\<close>: \<^verbatim>\<open>check.c\<close>. The switch of \<^verbatim>\<open>jello_bc_validate_insn\<close> is cut into its blocks (\<open>validate_control\<close> and so on);
    the loops over case tables and \<^verbatim>\<open>try\<close> brackets are \<open>switch_tables_from\<close> and \<open>try_stack_from\<close>. Registers and targets
    of accepted instructions are in range; the whole-function check decides its specification.
  \<^item> \<open>Jello_Loader\<close>: \<^verbatim>\<open>loader.c\<close>, one definition for each section of the file format, with \<^verbatim>\<open>malloc\<close> as the parameter \<open>alloc\<close> and
    accesses outside a block as a fault. What is accepted is well formed, reading inverts encoding, and no
    read or copy leaves its buffer below 4 GiB.
  \<^item> \<open>Jello_Object\<close>: the open-addressing attribute table of \<^verbatim>\<open>src/types/object.c\<close> with its inline caches. It
    refines a map while a slot is empty; without one, probes do not end.
  \<^item> \<open>Jello_Heap\<close>, \<open>Jello_GC\<close>: blocks, object kinds and \<^verbatim>\<open>struct jello_vm\<close>, and the collector of \<^verbatim>\<open>gc.c\<close>. A collection keeps
    exactly the objects reachable from the roots, frees or recycles the others and finalizes each once.
  \<^item> \<open>Jello_Regs\<close>: frame layout and register access on the bytes of a frame, and the half-precision conversions
    (\<^verbatim>\<open>reg.c\<close>, \<^verbatim>\<open>frame.c\<close>, \<^verbatim>\<open>vm_internal.h\<close>). The layout keeps slots apart, so that registers behave as a map.
  \<^item> \<open>Jello_Float\<close>: what C's \<^verbatim>\<open>float\<close> and \<^verbatim>\<open>double\<close> do on IEEE 754 hardware in the default rounding mode; the choice of a NaN,
    which differs between machines, is the parameter \<open>fpu\<close>.
  \<^item> \<open>Jello_Exec\<close>: the execution context, traps, the handler stack, fuel, jumps, moves and constants (\<^verbatim>\<open>exc.c\<close>, \<^verbatim>\<open>vm.c\<close>,
    \<^verbatim>\<open>ops_control.c\<close>, \<^verbatim>\<open>ops_const.c\<close>).
  \<^item> \<open>Jello_Arith\<close>: every handler of \<^verbatim>\<open>ops_arith.c\<close>, the checked conversions of \<^verbatim>\<open>box.c\<close>, and the dispatch of these opcodes.
    Verified instructions stay in the frame and compute the documented results.
  \<^item> \<open>Jello_Loop\<close>: the part of \<^verbatim>\<open>vm_exec_loop\<close> that stays within one frame, with its inlined handlers. It agrees with the reference
    dispatcher, and fuel bounds it where only unconditional jumps lead back.
  \<^item> \<open>Jello_Machine\<close>: how registers and temporary roots look to the collector, allocation during an instruction, and the
    invariant \<open>machine\<close> of a heap with well-typed frames that the next theories keep.
  \<^item> \<open>Jello_Box\<close>: boxing and unboxing of registers, the spill stack and the constants on the heap (\<^verbatim>\<open>box.c\<close>, \<^verbatim>\<open>spill.c\<close>,
    \<^verbatim>\<open>ops_box.c\<close>, \<^verbatim>\<open>ops_const.c\<close>), safe across collections.
  \<^item> \<open>Jello_Container\<close>: the opcodes on lists, arrays, enums and bytes (\<^verbatim>\<open>ops_list.c\<close>, \<^verbatim>\<open>ops_array.c\<close>, \<^verbatim>\<open>ops_enum.c\<close>,
    \<^verbatim>\<open>ops_bytes.c\<close>). They never fault on a well-typed machine; two of them break its types.
  \<^item> \<open>Jello_Objops\<close>: the object opcodes of \<^verbatim>\<open>ops_obj.c\<close> with the prototype walk, over \<open>Jello_Object\<close>.
  \<^item> \<open>Jello_Stack\<close>: the block of memory of the frames (\<^verbatim>\<open>vm_frame_stack_grow\<close>, \<^verbatim>\<open>vm_replace_frame\<close>) as a step relation of calls, returns and tail
    calls. Frames stay apart, except after a tail call to a smaller frame.
  \<^item> \<open>Jello_Calls\<close>: closures, argument passing, calls, tail calls, returns and the exceptions that unwind them (\<^verbatim>\<open>frame.c\<close>, \<^verbatim>\<open>call.c\<close>,
    \<^verbatim>\<open>ops_call.c\<close>, \<^verbatim>\<open>ops_control.c\<close>, \<^verbatim>\<open>exc.c\<close> and the inlined copies in \<^verbatim>\<open>exec_loop.c\<close>). Typed calls pass their arguments and
    typed returns deliver; what the verifier does not check can fault.
  \<^item> \<open>Jello_Run\<close>: all opcodes together, the rounds of the loop, entry frames and the entry points of \<^verbatim>\<open>interp.c\<close>. Verified code whose
    calls are typed runs for any number of rounds without a fault.
  \<^item> \<open>Jello_Types\<close>: the constructors of \<^verbatim>\<open>src/types\<close>, array resizing and the interning of enum values.
  \<^item> \<open>Jello_Copy\<close>: values crossing from one machine to another (\<^verbatim>\<open>value_copy.c\<close>, the cells and handles of \<^verbatim>\<open>channel.c\<close>, the
    argument loop of \<^verbatim>\<open>thread.c\<close>). Contents are kept, and a handle is freed with its last reference.
  \<^item> \<open>Jello_Channel\<close>: the ring buffer of \<^verbatim>\<open>channel.c\<close> and the interleaving of threads on its mutex and condition variables as
    a step relation. Messages are received in the order they were sent and no wakeup is lost, while the positions of the
    ring stay below \<open>2^32\<close>; past them a message can be lost.
  \<^item> \<open>Jello_Unicode\<close>, \<open>Jello_Md5\<close>: two files of the standard library, \<^verbatim>\<open>libs/std/core/unicode.c\<close> and \<^verbatim>\<open>libs/std/crypto/md5.c\<close>. UTF-8
    primitives act as the operations on lists of code points, and the digest is that of RFC 1321.
  \<^item> \<open>Jello_Strutil\<close>: the UTF-16 strings of \<^verbatim>\<open>src/types/strutil.c\<close>, their conversion to UTF-8 and the formatter.

  \<^bold>\<open>Conventions.\<close> Machine integers are words and wrap where C's unsigned ones do. A result \<open>Inl FAULT\<close> is behaviour
  that C leaves undefined (an access outside a block, a signed overflow, a division by zero), \<open>Inl PANIC\<close> is a call of
  \<^verbatim>\<open>jello_vm_panic\<close>, which aborts the process, and \<open>Inl HANG\<close> is a loop inside an instruction that never ends. Other loops that may not end are \<open>partial_function (option)\<close>, with \<open>None\<close> for a loop
  that never ends: the probes of the attribute table and the check of case tables. The interpreter loop takes a
  number of rounds, since programs may run forever; \<open>loop_ends\<close> says that it ended within them.
  Sizes are bounded as in the code: files below 4 GiB, functions below \<open>2^31\<close> instructions.

  What the machine gets from outside is a parameter: \<^verbatim>\<open>malloc\<close>, the bytes of fresh frame memory, the choice of a NaN, builtins (\<open>native\<close>) and
  native libraries (\<open>jdll\<close>), collected in the record \<open>host\<close> of \<open>Jello_Run\<close>.

  \<^bold>\<open>Not modelled.\<close> The JIT compiler (\<^verbatim>\<open>src/jit\<close>) emits machine code, whose semantics is outside this development; its hooks in
  the loop and its fields of frames are left out. The rest of the standard library (\<^verbatim>\<open>libs/std\<close>) and the foreign function
  interface (\<^verbatim>\<open>src/ffi\<close>) are calls of the operating system, of TLS, of PCRE and of \<^verbatim>\<open>dlopen\<close>; with them goes the field
  \<^verbatim>\<open>jdll_ret_capture\<close> of a frame. Builtins (\<^verbatim>\<open>ops_builtins.c\<close>, \<^verbatim>\<open>math.c\<close>) call libm. Command line, boot and profiling (\<^verbatim>\<open>main.c\<close>, \<^verbatim>\<open>boot.c\<close>,
  \<^verbatim>\<open>profile.c\<close>) and the text of stack traces are input and output. Each thread runs a machine and a heap of its own; their
  creation and joining are calls of \<^verbatim>\<open>pthread\<close>, so that only what passes between them is modelled.
\<close>

section \<open>From the loader to the interpreter\<close>

lemma wf_function_safe:
  assumes g: "good_function m f" and n: "length (f_insns f) < 2 ^ 31"
  shows "\<forall>j<length (f_insns f). regs_ok (f_nregs f) (f_insns f ! j)"
    and "\<forall>j<length (f_insns f). i_opc (f_insns f ! j) \<in> {JOP_JMP, JOP_JMP_IF, JOP_TRY} \<longrightarrow>
        target_ok (j + 1) (i_imm (f_insns f ! j)) (length (f_insns f))"
    and "tables_ok (f_insns f) \<and> try_balanced (f_insns f)"
proof -
  have c: "length (f_insns f) = unat (f_ninsns f)" "f_nregs f \<le> 256"
      "\<And>j. j < length (f_insns f) \<Longrightarrow> jello_bc_validate_insn m (f_reg_types f) (f_insns f ! j)
        (f_nregs f) (of_nat j) (f_ninsns f) (m_nfuncs m) = ok"
      "f_insns f \<noteq> [] \<Longrightarrow> jello_bc_validate_function_semantics (f_insns f) (f_ninsns f) = Some ok"
    using g by (auto simp: good_function_def good_code_def good_insn_def)
  have r: "unat (f_nregs f) < 2 ^ 32 - 255" using c(2) by (simp add: word_le_nat_alt)
  then show "\<forall>j<length (f_insns f). regs_ok (f_nregs f) (f_insns f ! j)"
    using insn_accepted_regs c(3) by blast
  show "\<forall>j<length (f_insns f). i_opc (f_insns f ! j) \<in> {JOP_JMP, JOP_JMP_IF, JOP_TRY} \<longrightarrow>
        target_ok (j + 1) (i_imm (f_insns f ! j)) (length (f_insns f))"
  proof (intro allI impI)
    fix j assume j: "j < length (f_insns f)"
      and o: "i_opc (f_insns f ! j) \<in> {JOP_JMP, JOP_JMP_IF, JOP_TRY}"
    have u: "unat (of_nat j :: u32) = j" using j n by (simp add: unat_of_nat)
    then have "(of_nat j :: u32) < f_ninsns f" using j c(1) by (simp add: word_less_nat_alt)
    from insn_accepted_target [OF c(3) [OF j] o this] n c(1) u
    show "target_ok (j + 1) (i_imm (f_insns f ! j)) (length (f_insns f))" by simp
  qed
  show "tables_ok (f_insns f) \<and> try_balanced (f_insns f)"
  proof (cases "f_insns f = []")
    case True
    then show ?thesis by (simp add: tables_ok_end try_balanced_from_def try_depth_def)
  next
    case False
    then show ?thesis using function_semantics_iff [OF n, of "f_ninsns f"] c(1,4) by auto
  qed
qed



end
